(* ===== verification/Apx_Prelude.thy ===== *)
theory Apx_Prelude
  imports Main "HOL-Library.Word"
begin

text \<open>
  Shared vocabulary of the development: the machine integers of the sources as words, byte
  buffers as lists of bytes, little-endian conversion (\<open>le16toh\<close>/\<open>htole16\<close> and their
  wider companions), and \<open>memcpy\<close> into a buffer.  The lemmas here are about these
  library notions only; every component theory builds on them.
\<close>

unbundle bit_operations_syntax

subsection \<open>Machine integers and buffers\<close>

type_synonym u8 = "8 word"
type_synonym u16 = "16 word"
type_synonym u32 = "32 word"
type_synonym u64 = "64 word"

type_synonym bytes = "u8 list"

named_theorems wire_defs \<open>definitions of the serialised structures\<close>
named_theorems pool_simps \<open>selector rules for the CAN message pool\<close>

subsection \<open>Little-endian conversion\<close>

definition le_bytes :: "nat \<Rightarrow> 'a::len word \<Rightarrow> bytes" where
  "le_bytes n w = map (\<lambda>i. ucast (drop_bit (8 * i) w)) [0..<n]"

fun of_le :: "bytes \<Rightarrow> 'a::len word" where
  "of_le [] = 0"
| "of_le (b # bs) = ucast b OR push_bit 8 (of_le bs)"

lemma length_le_bytes [simp]: "length (le_bytes n w) = n"
  by (simp add: le_bytes_def)

lemma nth_le_bytes [simp]: "i < n \<Longrightarrow> le_bytes n w ! i = ucast (drop_bit (8 * i) w)"
  by (simp add: le_bytes_def)

lemma le_bytes_0 [simp]: "le_bytes 0 w = []"
  by (simp add: le_bytes_def)

lemma le_bytes_Suc: "le_bytes (Suc n) w = ucast w # le_bytes n (drop_bit 8 w)"
  by (rule nth_equalityI)
    (auto simp: nth_Cons le_bytes_def add.commute split: nat.splits simp del: upt_Suc)

lemma bit_of_le:
  "bit (of_le bs :: 'a::len word) k \<longleftrightarrow>
     k < LENGTH('a) \<and> k div 8 < length bs \<and> bit (bs ! (k div 8)) (k mod 8)"
proof (induction bs arbitrary: k)
  case Nil
  then show ?case by simp
next
  case (Cons b bs)
  show ?case
  proof (cases "k < 8")
    case True
    then show ?thesis by (auto simp: bit_or_iff bit_push_bit_iff bit_ucast_iff)
  next
    case False
    then obtain j where k: "k = 8 + j" using le_Suc_ex by (auto simp: not_less)
    have "(8 + j) div 8 = Suc (j div 8)" "(8 + j) mod 8 = j mod 8" by simp_all
    moreover have "\<not> bit b (8 + j)"
      by (auto dest: bit_imp_le_length)
    ultimately show ?thesis
      using Cons.IH [of j] by (auto simp: k bit_or_iff bit_push_bit_iff bit_ucast_iff)
  qed
qed

lemma of_le_le_bytes:
  assumes "LENGTH('a::len) \<le> 8 * n"
  shows "of_le (le_bytes n (w :: 'a word)) = w"
proof (rule bit_word_eqI)
  fix k assume k: "k < LENGTH('a)"
  with assms have "k div 8 < n" by (auto simp: less_mult_imp_div_less)
  then show "bit (of_le (le_bytes n w) :: 'a word) k = bit w k"
    using k by (auto simp: bit_of_le bit_ucast_iff bit_drop_bit_eq)
qed

lemma le_bytes_of_le:
  assumes "8 * length bs \<le> LENGTH('a::len)"
  shows "le_bytes (length bs) (of_le bs :: 'a word) = bs"
proof (rule nth_equalityI)
  show "length (le_bytes (length bs) (of_le bs :: 'a word)) = length bs" by simp
next
  fix i assume "i < length (le_bytes (length bs) (of_le bs :: 'a word))"
  then have i: "i < length bs" by simp
  show "le_bytes (length bs) (of_le bs :: 'a word) ! i = bs ! i"
  proof (rule bit_word_eqI)
    fix k assume k: "k < LENGTH(8)"
    then have "(8 * i + k) div 8 = i" "(8 * i + k) mod 8 = k" "8 * i + k < LENGTH('a)"
      using i assms by auto
    then show "bit (le_bytes (length bs) (of_le bs :: 'a word) ! i) k = bit (bs ! i) k"
      using i k by (simp add: bit_ucast_iff bit_drop_bit_eq bit_of_le)
  qed
qed

lemma of_le_inj:
  assumes "length u = length v" "8 * length u \<le> LENGTH('a::len)" "(of_le u :: 'a word) = of_le v"
  shows "u = v"
  using le_bytes_of_le [of u, where 'a = 'a] le_bytes_of_le [of v, where 'a = 'a] assms
  by metis

lemma of_le_single [simp]: "of_le [b] = (ucast b :: 'a::len word)"
  by simp

subsection \<open>memcpy\<close>

text \<open>\<open>blit p src dst\<close> is the buffer \<open>dst\<close> after \<open>memcpy(dst + p, src, |src|)\<close>.\<close>

definition blit :: "nat \<Rightarrow> 'a list \<Rightarrow> 'a list \<Rightarrow> 'a list" where
  "blit p src dst = take p dst @ src @ drop (p + length src) dst"

lemma length_blit [simp]: "p + length src \<le> length dst \<Longrightarrow> length (blit p src dst) = length dst"
  by (simp add: blit_def)

lemma blit_Nil [simp]: "blit p [] dst = dst"
  by (simp add: blit_def)

lemma take_blit: "p \<le> length dst \<Longrightarrow> take p (blit p src dst) = take p dst"
  by (simp add: blit_def)

lemma take_blit_end [simp]:
  "p \<le> length dst \<Longrightarrow> take (p + length src) (blit p src dst) = take p dst @ src"
  by (simp add: blit_def)

lemma drop_blit [simp]: "p \<le> length dst \<Longrightarrow> drop p (blit p src dst) = src @ drop (p + length src) dst"
  by (simp add: blit_def)

lemma blit_blit:
  "p + length a \<le> length dst \<Longrightarrow> blit (p + length a) b (blit p a dst) = blit p (a @ b) dst"
  by (simp add: blit_def ac_simps)

lemma nth_blit:
  "p + length src \<le> length dst \<Longrightarrow> i < length dst \<Longrightarrow>
     blit p src dst ! i = (if p \<le> i \<and> i < p + length src then src ! (i - p) else dst ! i)"
  by (auto simp: blit_def nth_append)

lemma blit_single: "p < length dst \<Longrightarrow> blit p [x] dst = dst[p := x]"
  by (simp add: blit_def upd_conv_take_nth_drop)

subsection \<open>Masks\<close>

lemma and_power_bit: "m = 2 ^ k \<Longrightarrow> (w :: 'a::len word) AND m \<noteq> 0 \<longleftrightarrow> bit w k"
  by (simp add: and_exp_eq_0_iff_not_bit)

lemma and_one_bit: "(w :: 'a::len word) AND 1 \<noteq> 0 \<longleftrightarrow> bit w 0"
  using and_power_bit [of 1 0 w] by simp

lemma byte_bit_high: "8 \<le> n \<Longrightarrow> \<not> bit (b :: u8) n"
  by (auto dest: bit_imp_le_length)

lemma ucast_byte_inj:
  fixes b b' :: u8
  assumes "8 \<le> LENGTH('a::len)" "(ucast b :: 'a word) = ucast b'"
  shows "b = b'"
proof (rule bit_word_eqI)
  fix n assume "n < LENGTH(8)"
  moreover have "bit (ucast b :: 'a word) n = bit (ucast b' :: 'a word) n" by (simp only: assms)
  ultimately show "bit b n = bit b' n"
    using assms(1) by (simp add: bit_ucast_iff)
qed

lemma funpow_4: "(f ^^ 4) x = f (f (f (f x)))"
  by (simp add: numeral_eq_Suc)

lemma funpow_8: "(f ^^ 8) x = f (f (f (f (f (f (f (f x)))))))"
  by (simp add: numeral_eq_Suc)

subsection \<open>Optional results\<close>

text \<open>
  \<open>None\<close> stands for a run the language gives no meaning to: an access outside an array, or
  a loop that does not end.
\<close>

abbreviation obind :: "'a option \<Rightarrow> ('a \<Rightarrow> 'b option) \<Rightarrow> 'b option" where
  "obind \<equiv> Option.bind"

lemma obind_SomeE:
  assumes "obind m f = Some r"
  obtains x where "m = Some x" "f x = Some r"
  using assms by (cases m) auto

end
