(* ===== verification/Shift_Register.thy ===== *)
theory Shift_Register
  imports Apx_Prelude
begin

text \<open>
  Linear feedback shift registers: the reference semantics of every CRC of \<open>crc/\<close>.  A
  register shifts left (feedback on the most significant bit) or right (feedback on bit 0).
  Both steps are linear over exclusive or, a run of steps that sees no feedback bit is a plain
  shift, and a step is injective as soon as the polynomial has the bit that the feedback
  restores.
\<close>

unbundle bit_operations_syntax

subsection \<open>One step\<close>

definition shl_step :: "'a::len word \<Rightarrow> 'a word \<Rightarrow> 'a word" where
  "shl_step poly c = (if bit c (LENGTH('a) - 1) then push_bit 1 c XOR poly else push_bit 1 c)"

definition shr_step :: "'a::len word \<Rightarrow> 'a word \<Rightarrow> 'a word" where
  "shr_step poly c = (if bit c 0 then drop_bit 1 c XOR poly else drop_bit 1 c)"

lemma bit_shl_step:
  "bit (shl_step poly (c :: 'a::len word)) n \<longleftrightarrow>
     n < LENGTH('a) \<and> ((0 < n \<and> bit c (n - 1)) \<noteq> (bit c (LENGTH('a) - 1) \<and> bit poly n))"
proof -
  have "bit (push_bit 1 c) n \<longleftrightarrow> n < LENGTH('a) \<and> 0 < n \<and> bit c (n - 1)"
    using bit_push_bit_iff [of 1 c n] by (auto dest: bit_imp_le_length)
  then show ?thesis
    by (cases "bit c (LENGTH('a) - 1)")
      (auto simp add: shl_step_def bit_xor_iff simp del: One_nat_def dest: bit_imp_le_length)
qed

lemma bit_shr_step:
  "bit (shr_step poly (c :: 'a::len word)) n \<longleftrightarrow> (bit c (Suc n) \<noteq> (bit c 0 \<and> bit poly n))"
proof -
  have "bit (drop_bit 1 c) n \<longleftrightarrow> bit c (Suc n)"
    using bit_drop_bit_eq [of 1 c] by (simp add: fun_eq_iff)
  then show ?thesis
    by (cases "bit c 0") (auto simp add: shr_step_def bit_xor_iff simp del: One_nat_def)
qed

lemma shl_step_xor: "shl_step poly (a XOR b) = shl_step poly a XOR shl_step poly b"
  by (rule bit_word_eqI) (auto simp: bit_shl_step bit_xor_iff)

lemma shr_step_xor: "shr_step poly (a XOR b) = shr_step poly a XOR shr_step poly b"
  by (rule bit_word_eqI) (auto simp: bit_shr_step bit_xor_iff)

subsection \<open>Powers of a step\<close>

lemma shl_pow_xor: "(shl_step poly ^^ n) (a XOR b) = (shl_step poly ^^ n) a XOR (shl_step poly ^^ n) b"
  by (induction n) (simp_all add: shl_step_xor)

lemma shr_pow_xor: "(shr_step poly ^^ n) (a XOR b) = (shr_step poly ^^ n) a XOR (shr_step poly ^^ n) b"
  by (induction n) (simp_all add: shr_step_xor)

lemma shl_pow_shift:
  "(\<And>j. LENGTH('a) - k \<le> j \<Longrightarrow> \<not> bit c j) \<Longrightarrow> k \<le> LENGTH('a) \<Longrightarrow>
     (shl_step poly ^^ k) (c :: 'a::len word) = push_bit k c"
proof (induction k)
  case 0
  then show ?case by simp
next
  case (Suc k)
  then have IH: "(shl_step poly ^^ k) c = push_bit k c" by simp
  have "\<not> bit (push_bit k c) (LENGTH('a) - 1)"
    using Suc.prems(1) [of "LENGTH('a) - 1 - k"] Suc.prems(2) by (simp add: bit_push_bit_iff)
  then have "shl_step poly (push_bit k c) = push_bit 1 (push_bit k c)"
    by (simp only: shl_step_def if_False)
  then show ?case by (simp add: IH push_bit_push_bit)
qed

lemma shr_pow_shift:
  "(\<And>j. j < k \<Longrightarrow> \<not> bit c j) \<Longrightarrow> (shr_step poly ^^ k) (c :: 'a::len word) = drop_bit k c"
proof (induction k)
  case 0
  then show ?case by simp
next
  case (Suc k)
  then have IH: "(shr_step poly ^^ k) c = drop_bit k c" by simp
  have "\<not> bit (drop_bit k c) 0"
    using Suc.prems(1) [of k] by (simp add: bit_drop_bit_eq)
  then have "shr_step poly (drop_bit k c) = drop_bit 1 (drop_bit k c)"
    by (simp only: shr_step_def if_False)
  then show ?case by (simp add: IH drop_bit_drop_bit)
qed

lemma inj_shl_step: "bit poly 0 \<Longrightarrow> inj (shl_step poly)"
proof (rule injI)
  fix a b :: "'a word" assume p: "bit poly 0" and e: "shl_step poly a = shl_step poly b"
  have bits: "\<And>n. bit (shl_step poly a) n = bit (shl_step poly b) n" using e by simp
  have top: "bit a (LENGTH('a) - 1) = bit b (LENGTH('a) - 1)"
    using bits [of 0] p by (simp add: bit_shl_step)
  show "a = b"
  proof (rule bit_word_eqI)
    fix n assume "n < LENGTH('a)"
    then show "bit a n = bit b n"
      using bits [of "Suc n"] top by (cases "Suc n < LENGTH('a)") (auto simp: bit_shl_step not_less le_Suc_eq
        dest!: Suc_leI)
  qed
qed

lemma inj_shr_step: "bit poly (LENGTH('a::len) - 1) \<Longrightarrow> inj (shr_step (poly :: 'a word))"
proof (rule injI)
  fix a b :: "'a word" assume p: "bit poly (LENGTH('a) - 1)" and e: "shr_step poly a = shr_step poly b"
  have bits: "\<And>n. bit (shr_step poly a) n = bit (shr_step poly b) n" using e by simp
  have low: "bit a 0 = bit b 0"
    using bits [of "LENGTH('a) - 1"] p by (auto simp: bit_shr_step dest: bit_imp_le_length)
  show "a = b"
  proof (rule bit_word_eqI)
    fix n assume "n < LENGTH('a)"
    then show "bit a n = bit b n"
      using bits [of "n - 1"] low by (cases n) (auto simp: bit_shr_step)
  qed
qed

subsection \<open>Bytewise decomposition\<close>

text \<open>
  A table-driven CRC handles the \<open>k\<close> bits next to the feedback end at once: split the
  register into those bits and the rest, run the steps on each part, and add.
\<close>

lemma xor_mask_split: "(w :: 'a::len word) = (w AND mask k) XOR (w AND NOT (mask k))"
  by (rule bit_word_eqI) (auto simp: bit_simps)

lemma shr_pow_split:
  "(shr_step poly ^^ k) (w :: 'a::len word) = drop_bit k w XOR (shr_step poly ^^ k) (w AND mask k)"
proof -
  have "(shr_step poly ^^ k) w =
      (shr_step poly ^^ k) (w AND mask k) XOR (shr_step poly ^^ k) (w AND NOT (mask k))"
    by (subst xor_mask_split [of w k]) (rule shr_pow_xor)
  also have "(shr_step poly ^^ k) (w AND NOT (mask k)) = drop_bit k (w AND NOT (mask k))"
    by (rule shr_pow_shift) (simp add: bit_simps)
  also have "drop_bit k (w AND NOT (mask k)) = drop_bit k w"
    by (rule bit_word_eqI) (auto simp: bit_simps dest: bit_imp_le_length)
  finally show ?thesis by (simp add: xor.commute)
qed

lemma shl_pow_split:
  assumes "k \<le> LENGTH('a::len)"
  shows "(shl_step poly ^^ k) (w :: 'a word) =
    push_bit k w XOR (shl_step poly ^^ k) (w AND NOT (mask (LENGTH('a) - k)))"
proof -
  let ?m = "mask (LENGTH('a) - k) :: 'a word"
  have "(shl_step poly ^^ k) w = (shl_step poly ^^ k) (w AND ?m) XOR (shl_step poly ^^ k) (w AND NOT ?m)"
    by (subst xor_mask_split [of w "LENGTH('a) - k"]) (rule shl_pow_xor)
  also have "(shl_step poly ^^ k) (w AND ?m) = push_bit k (w AND ?m)"
    using assms by (intro shl_pow_shift) (auto simp: bit_simps)
  also have "push_bit k (w AND ?m) = push_bit k w"
    by (rule bit_word_eqI) (auto simp: bit_simps)
  finally show ?thesis .
qed

lemma inj_shl_pow: "bit poly 0 \<Longrightarrow> inj (shl_step poly ^^ n)"
  by (induction n) (auto intro: inj_compose inj_shl_step)

lemma inj_shr_pow: "bit poly (LENGTH('a::len) - 1) \<Longrightarrow> inj (shr_step (poly :: 'a word) ^^ n)"
  by (induction n) (simp, simp add: inj_compose inj_shr_step)

lemma inj_xor_left [simp]: "inj (\<lambda>c :: 'a::len word. c XOR b)"
  by (rule injI) (metis xor.assoc xor.right_neutral xor_self_eq)

lemma inj_xor_right [simp]: "inj (\<lambda>b :: 'a::len word. c XOR b)"
  by (rule injI) (metis xor.assoc xor.left_neutral xor_self_eq)

end
