(* ===== verification/Crc32.thy ===== *)
theory Crc32
  imports Shift_Register
begin

text \<open>
  \<open>crc/crc32_sw.c\<close> and \<open>crc/CRC32.cpp\<close>: the CRC of the STM32 hardware unit in
  software, bit by bit (\<open>stm_crc_slow\<close>) and by nibble table (\<open>stm_crc_fast\<close>), and
  \<open>CRC32_SW\<close>, which feeds it a buffer one 32-bit word at a time.  \<open>CRC32_SW\<close> reads a
  whole word even where fewer than four bytes are left, so it is modelled on a memory (a function
  from addresses to bytes), and \<open>CRC32_SW_end\<close> follows the loop to say where its loads end: up to
  three bytes behind the buffer.  \<open>crc32_mem\<close> is the C++ wrapper for a buffer with any bytes
  \<open>far\<close> behind it.  Its value does not depend on them (\<open>CRC32_SW_local\<close>), so components that use
  no more than the value call \<open>crc32\<close>, the same with zeros there.
\<close>

unbundle bit_operations_syntax

subsection \<open>The word update\<close>

fun stm_slow_loop :: "nat \<Rightarrow> u32 \<Rightarrow> u32" where
  "stm_slow_loop 0 crc = crc"
| "stm_slow_loop (Suc i) crc =
     stm_slow_loop i
       (if crc AND 0x80000000 \<noteq> 0 then push_bit 1 crc XOR 0x04C11DB7 else push_bit 1 crc)"

definition stm_crc_slow :: "u32 \<Rightarrow> u32 \<Rightarrow> u32" where
  "stm_crc_slow crc data = stm_slow_loop 32 (crc XOR data)"

definition crcTable :: "u32 list" where
  "crcTable = [0x00000000, 0x04C11DB7, 0x09823B6E, 0x0D4326D9, 0x130476DC, 0x17C56B6B, 0x1A864DB2,
     0x1E475005, 0x2608EDB8, 0x22C9F00F, 0x2F8AD6D6, 0x2B4BCB61, 0x350C9B64, 0x31CD86D3,
     0x3C8EA00A, 0x384FBDBD]"

definition stm_nibble :: "u32 \<Rightarrow> u32" where
  "stm_nibble crc = push_bit 4 crc XOR crcTable ! unat (drop_bit 28 crc)"

definition stm_crc_fast :: "u32 \<Rightarrow> u32 \<Rightarrow> u32" where
  "stm_crc_fast crc data =
     (let crc = crc XOR data;
          crc = stm_nibble crc; crc = stm_nibble crc; crc = stm_nibble crc; crc = stm_nibble crc;
          crc = stm_nibble crc; crc = stm_nibble crc; crc = stm_nibble crc; crc = stm_nibble crc
      in crc)"

definition stm_crc :: "u32 \<Rightarrow> u32 \<Rightarrow> u32" where
  "stm_crc crc data = stm_crc_fast crc data"

subsection \<open>The buffer loop\<close>

definition load32 :: "(nat \<Rightarrow> u8) \<Rightarrow> nat \<Rightarrow> u32" where
  "load32 mem p = of_le (map mem [p..<p + 4])"

fun CRC32_SW :: "(nat \<Rightarrow> u8) \<Rightarrow> nat \<Rightarrow> nat \<Rightarrow> u32 \<Rightarrow> u32" where
  "CRC32_SW mem p sz crc =
     (if 4 \<le> sz then CRC32_SW mem (p + 4) (sz - 4) (stm_crc (load32 mem p) crc)
      else if sz = 0 then crc
      else if sz = 3 then stm_crc (load32 mem p AND 0x00FFFFFF) crc
      else if sz = 2 then stm_crc (load32 mem p AND 0x0000FFFF) crc
      else stm_crc (load32 mem p AND 0x000000FF) crc)"

declare CRC32_SW.simps [simp del]

text \<open>The loads of the same loop: the address behind the last byte read.\<close>

fun CRC32_SW_end :: "nat \<Rightarrow> nat \<Rightarrow> nat" where
  "CRC32_SW_end p sz = (if 4 \<le> sz then CRC32_SW_end (p + 4) (sz - 4) else if sz = 0 then p else p + 4)"

declare CRC32_SW_end.simps [simp del]

text \<open>A buffer and the memory behind it.\<close>

definition buf_mem :: "(nat \<Rightarrow> u8) \<Rightarrow> bytes \<Rightarrow> nat \<Rightarrow> u8" where
  "buf_mem far bs i = (if i < length bs then bs ! i else far i)"

definition crc32_mem :: "(nat \<Rightarrow> u8) \<Rightarrow> bytes \<Rightarrow> nat \<Rightarrow> u32 \<Rightarrow> u32" where
  "crc32_mem far bs n crc = CRC32_SW (buf_mem far bs) 0 n crc"

definition crc32 :: "bytes \<Rightarrow> u32 \<Rightarrow> u32" where
  "crc32 bs crc = crc32_mem (\<lambda>i. 0) bs (length bs) crc"

abbreviation crc32_init :: u32 where
  "crc32_init \<equiv> 0xFFFFFFFF"

subsection \<open>The table agrees with the shift register\<close>

lemma stm_slow_loop_shl: "stm_slow_loop n crc = (shl_step 0x04C11DB7 ^^ n) crc"
proof (induction n arbitrary: crc)
  case 0
  then show ?case by simp
next
  case (Suc n)
  have "crc AND 0x80000000 \<noteq> 0 \<longleftrightarrow> bit crc 31"
    by (rule and_power_bit) simp
  then have "(if crc AND 0x80000000 \<noteq> 0 then push_bit 1 crc XOR 0x04C11DB7 else push_bit 1 crc)
      = shl_step 0x04C11DB7 crc"
    by (simp add: shl_step_def)
  then have "stm_slow_loop (Suc n) crc = (shl_step 0x04C11DB7 ^^ n) (shl_step 0x04C11DB7 crc)"
    by (simp only: stm_slow_loop.simps Suc.IH)
  then show ?case by (simp add: funpow_swap1)
qed

lemma stm_crc_slow_shl: "stm_crc_slow crc data = (shl_step 0x04C11DB7 ^^ 32) (crc XOR data)"
  by (simp add: stm_crc_slow_def stm_slow_loop_shl)

lemma crcTable_shl:
  "i < 16 \<Longrightarrow> crcTable ! i = (shl_step 0x04C11DB7 ^^ 4) (push_bit 28 (of_nat i))"
proof -
  have "\<forall>i \<in> set [0..<16]. shl_step 0x04C11DB7 (shl_step 0x04C11DB7 (shl_step 0x04C11DB7
      (shl_step 0x04C11DB7 (push_bit 28 (of_nat i))))) = crcTable ! i"
    by (simp add: upt_rec crcTable_def shl_step_def)
  then show "crcTable ! i = (shl_step 0x04C11DB7 ^^ 4) (push_bit 28 (of_nat i))" if "i < 16"
    using that by (simp only: funpow_4 set_upt atLeastLessThan_iff) auto
qed

lemma stm_nibble_shl: "stm_nibble crc = (shl_step 0x04C11DB7 ^^ 4) crc"
proof -
  have top: "crc AND NOT (mask 28) = push_bit 28 (of_nat (unat (drop_bit 28 crc)))"
    by (rule bit_word_eqI) (auto simp: bit_simps)
  have "drop_bit 28 crc = take_bit 4 (drop_bit 28 crc)"
    by (rule bit_word_eqI) (auto simp: bit_simps dest: bit_imp_le_length)
  then have "unat (drop_bit 28 crc) < 2 ^ 4"
    by (metis take_bit_nat_less_exp unsigned_take_bit_eq)
  then show ?thesis
    using shl_pow_split [of 4 "0x04C11DB7" crc]
    by (simp add: stm_nibble_def crcTable_shl top)
qed

lemma stm_crc_fast_shl: "stm_crc_fast crc data = (shl_step 0x04C11DB7 ^^ 32) (crc XOR data)"
proof -
  have "(shl_step 0x04C11DB7 ^^ 32) (c :: u32) = (((shl_step 0x04C11DB7 ^^ 4) ^^ 8) c)" for c
    by (simp add: funpow_mult)
  then show ?thesis
    by (simp add: stm_crc_fast_def stm_nibble_shl Let_def numeral_eq_Suc)
qed

lemma stm_crc_shl: "stm_crc w c = (shl_step 0x04C11DB7 ^^ 32) (w XOR c)"
  by (simp add: stm_crc_def stm_crc_fast_shl)

lemma inj_stm_crc_word: "inj (\<lambda>w. stm_crc w c)"
proof -
  have "inj ((shl_step 0x04C11DB7 ^^ 32) \<circ> (\<lambda>w :: u32. w XOR c))"
    by (rule inj_compose) (simp_all add: inj_shl_pow)
  then show ?thesis by (simp add: stm_crc_shl o_def)
qed

lemma inj_stm_crc_crc: "inj (stm_crc w)"
proof -
  have "inj ((shl_step 0x04C11DB7 ^^ 32) \<circ> (\<lambda>c :: u32. w XOR c))"
    by (rule inj_compose) (simp_all add: inj_shl_pow)
  moreover have "stm_crc w = (shl_step 0x04C11DB7 ^^ 32) \<circ> (\<lambda>c :: u32. w XOR c)"
    by (rule ext) (simp add: stm_crc_shl)
  ultimately show ?thesis by simp
qed

subsection \<open>The buffer as a list of words\<close>

function words_of :: "bytes \<Rightarrow> u32 list" where
  "words_of bs =
     (if 4 \<le> length bs then of_le (take 4 bs) # words_of (drop 4 bs)
      else if bs = [] then [] else [of_le bs])"
  by pat_completeness auto
termination
  by (relation "measure length") auto

declare words_of.simps [simp del]

lemma words_of_Nil [simp]: "words_of [] = []"
  by (simp add: words_of.simps)

lemma words_of_append_word: "length a = 4 \<Longrightarrow> words_of (a @ bs) = of_le a # words_of bs"
  by (subst words_of.simps) simp

lemma words_of_short: "bs \<noteq> [] \<Longrightarrow> length bs < 4 \<Longrightarrow> words_of bs = [of_le bs]"
  by (subst words_of.simps) simp

lemma words_of_append: "4 dvd length xs \<Longrightarrow> words_of (xs @ ys) = words_of xs @ words_of ys"
proof (induction xs rule: words_of.induct)
  case (1 xs)
  show ?case
  proof (cases "4 \<le> length xs")
    case True
    have l: "length (take 4 xs) = 4" using True by simp
    have "4 dvd length (drop 4 xs)" using 1(2) by simp
    then have "words_of (drop 4 xs @ ys) = words_of (drop 4 xs) @ words_of ys"
      using 1(1) True by blast
    then have "words_of (take 4 xs @ drop 4 xs @ ys) = words_of (take 4 xs @ drop 4 xs) @ words_of ys"
      by (simp only: words_of_append_word [OF l] append_Cons)
    then show ?thesis by (simp only: append_assoc [symmetric] append_take_drop_id)
  next
    case False
    with 1(2) have "xs = []" by (auto dest: dvd_imp_le)
    then show ?thesis by simp
  qed
qed

lemma of_le_mask:
  assumes "k \<le> length bs" "8 * k \<le> LENGTH('a::len)"
  shows "(of_le bs :: 'a word) AND mask (8 * k) = of_le (take k bs)"
proof (rule bit_word_eqI)
  fix n assume "n < LENGTH('a)"
  moreover have "n < 8 * k \<longleftrightarrow> n div 8 < k" by (auto simp: div_less_iff_less_mult)
  ultimately show "bit ((of_le bs :: 'a word) AND mask (8 * k)) n = bit (of_le (take k bs) :: 'a word) n"
    using assms by (auto simp: bit_of_le bit_and_iff bit_mask_iff)
qed

lemma map_mem_take: "k \<le> n \<Longrightarrow> take k (map mem [p..<p + n]) = map mem [p..<p + k]"
  by (simp add: take_map)

lemma load32_mask:
  assumes "k \<le> 4"
  shows "load32 mem p AND mask (8 * k) = of_le (map mem [p..<p + k])"
  using of_le_mask [of k "map mem [p..<p + 4]", where 'a = 32] assms
  by (simp only: load32_def map_mem_take) simp

text \<open>The loop folds the word update over the buffer's words, whatever lies behind the buffer.\<close>

lemma CRC32_SW_words:
  "CRC32_SW mem p sz crc = foldl (\<lambda>c w. stm_crc w c) crc (words_of (map mem [p..<p + sz]))"
proof (induction mem p sz crc rule: CRC32_SW.induct)
  case (1 mem p sz crc)
  have tail: "words_of (map mem [p..<p + n]) = [load32 mem p AND mask (8 * n)]" if "0 < n" "n < 4" for n
    using that load32_mask [of n mem p] by (simp add: words_of_short)
  have m: "(mask (8 * 1) :: u32) = 0xFF" "(mask (8 * 2) :: u32) = 0xFFFF" "(mask (8 * 3) :: u32) = 0xFFFFFF"
    by (simp_all add: mask_eq_exp_minus_1)
  show ?case
  proof (cases "4 \<le> sz")
    case True
    then have "[p..<p + sz] = [p..<p + 4] @ [p + 4..<p + 4 + (sz - 4)]"
      using upt_add_eq_append [of p "p + 4" "sz - 4"] by simp
    then have "words_of (map mem [p..<p + sz])
        = load32 mem p # words_of (map mem [p + 4..<p + 4 + (sz - 4)])"
      by (simp only: map_append load32_def) (rule words_of_append_word, simp)
    moreover have "CRC32_SW mem p sz crc = CRC32_SW mem (p + 4) (sz - 4) (stm_crc (load32 mem p) crc)"
      by (subst CRC32_SW.simps) (simp only: True if_True)
    ultimately show ?thesis using 1 [OF True] by (simp only: foldl_Cons)
  next
    case False
    then consider "sz = 0" | "sz = 1" | "sz = 2" | "sz = 3" by linarith
    then show ?thesis
      using tail [of 1, unfolded m] tail [of 2, unfolded m] tail [of 3, unfolded m]
      by cases (simp_all add: CRC32_SW.simps del: upt_Suc)
  qed
qed

lemma crc32_words: "crc32 bs crc = foldl (\<lambda>c w. stm_crc w c) crc (words_of bs)"
proof -
  have "map (buf_mem (\<lambda>i. 0) bs) [0..<length bs] = bs"
    by (rule nth_equalityI) (auto simp: buf_mem_def)
  then show ?thesis by (simp add: crc32_def crc32_mem_def CRC32_SW_words)
qed

text \<open>The wrapper's value, whatever lies behind the buffer, and the extent of its loads.\<close>

lemma crc32_mem_take:
  assumes "n \<le> length bs"
  shows "crc32_mem far bs n crc = crc32 (take n bs) crc"
proof -
  have "map (buf_mem far bs) [0..<n] = take n bs"
    by (rule nth_equalityI) (use assms in \<open>auto simp: buf_mem_def\<close>)
  then show ?thesis by (simp add: crc32_mem_def CRC32_SW_words crc32_words)
qed

lemma CRC32_SW_end_words: "CRC32_SW_end p sz = p + 4 * ((sz + 3) div 4)"
proof (induction p sz rule: CRC32_SW_end.induct)
  case (1 p sz)
  show ?case
  proof (cases "4 \<le> sz")
    case True
    then have "sz + 3 = (sz - 4 + 3) + 4" by simp
    then have "(sz + 3) div 4 = Suc ((sz - 4 + 3) div 4)" by (metis div_add_self2 Suc_eq_plus1 zero_neq_numeral)
    then show ?thesis using 1 [OF True] True by (subst CRC32_SW_end.simps) simp
  next
    case False
    then consider "sz = 0" | "sz = 1" | "sz = 2" | "sz = 3" by linarith
    then show ?thesis by cases (simp_all add: CRC32_SW_end.simps)
  qed
qed

lemma CRC32_SW_end_le: "CRC32_SW_end p sz \<le> p + sz + 3" "p + sz \<le> CRC32_SW_end p sz"
proof -
  have "4 * ((sz + 3) div 4) + (sz + 3) mod 4 = sz + 3" "(sz + 3) mod 4 < 4" by simp_all
  then show "CRC32_SW_end p sz \<le> p + sz + 3" "p + sz \<le> CRC32_SW_end p sz"
    unfolding CRC32_SW_end_words by linarith+
qed

text \<open>Two bytes of checksum behind the buffer catch the over-read except for one remainder.\<close>

lemma CRC32_SW_end_tail: "CRC32_SW_end 0 n = (if n mod 4 = 1 then n + 3 else CRC32_SW_end 0 n) \<and>
  (n mod 4 \<noteq> 1 \<longrightarrow> CRC32_SW_end 0 n \<le> n + 2)"
proof -
  have "4 * ((n + 3) div 4) + (n + 3) mod 4 = n + 3" by simp
  then have e: "CRC32_SW_end 0 n + (n + 3) mod 4 = n + 3" unfolding CRC32_SW_end_words by simp
  have "(n + 3) mod 4 = 0 \<longleftrightarrow> n mod 4 = 1" by presburger
  then show ?thesis using e by auto
qed

lemma foldl_stm_inj: "inj (\<lambda>c. foldl (\<lambda>c w. stm_crc w c) c ws)"
proof (induction ws)
  case Nil
  then show ?case by simp
next
  case (Cons w ws)
  have "inj ((\<lambda>c. foldl (\<lambda>c w. stm_crc w c) c ws) \<circ> stm_crc w)"
    by (rule inj_compose [OF Cons inj_stm_crc_crc])
  then show ?case by (simp add: o_def)
qed

subsection \<open>Properties\<close>

text \<open>
  The nibble-table update of the CRC computes the same 32-bit value as the bit-by-bit loop of
  the same file, for every register and every data word.
\<close>

theorem stm_crc_fast_eq_slow: "stm_crc_fast crc data = stm_crc_slow crc data"
  by (simp add: stm_crc_fast_shl stm_crc_slow_shl)

text \<open>
  C37: the loop of \<open>CRC32_SW\<close> loads whole words, so that it reads up to three bytes behind the
  buffer (none exactly when the size is a multiple of four), yet its value depends on the \<open>sz\<close>
  bytes of the buffer only: two memories that agree on these bytes give the same result.
\<close>

theorem CRC32_SW_local:
  assumes "\<And>i. i < sz \<Longrightarrow> mem (p + i) = mem' (q + i)"
  shows "CRC32_SW mem p sz crc = CRC32_SW mem' q sz crc \<and>
    p + sz \<le> CRC32_SW_end p sz \<and> CRC32_SW_end p sz \<le> p + sz + 3 \<and> (CRC32_SW_end p sz = p + sz \<longleftrightarrow> 4 dvd sz)"
proof -
  have "map mem [p..<p + sz] = map mem' [q..<q + sz]"
    by (rule nth_equalityI) (auto simp: assms)
  then have "CRC32_SW mem p sz crc = CRC32_SW mem' q sz crc" by (simp only: CRC32_SW_words)
  moreover have "CRC32_SW_end p sz = p + sz \<longleftrightarrow> 4 dvd sz"
    unfolding CRC32_SW_end_words by presburger
  ultimately show ?thesis using CRC32_SW_end_le by blast
qed

theorem CRC32_SW_local_witness:
  "CRC32_SW (\<lambda>i. if i < 5 then 7 else 1) 0 5 crc32_init = CRC32_SW (\<lambda>i. if i < 105 then 7 else 2) 100 5 crc32_init \<and>
   CRC32_SW_end 0 5 \<noteq> 0 + 5"
  using CRC32_SW_local [of 5 "\<lambda>i. if i < 5 then 7 else 1" 0 "\<lambda>i. if i < 105 then 7 else 2" 100 crc32_init]
  by simp

text \<open>
  The checksum can be computed piecewise, feeding the result of one call into the next, as
  long as every piece but the last is a whole number of 32-bit words.
\<close>

theorem crc32_append:
  assumes "4 dvd length xs"
  shows "crc32 (xs @ ys) crc = crc32 ys (crc32 xs crc)"
  by (simp add: crc32_words words_of_append [OF assms])

theorem crc32_append_witness:
  "crc32 ([1, 2, 3, 4] @ [5, 6]) crc32_init = crc32 [5, 6] (crc32 [1, 2, 3, 4] crc32_init)"
  by (rule crc32_append) (simp add: numeral_eq_Suc)

text \<open>
  A corruption confined to one aligned 32-bit word of a message (or to its last partial word)
  always changes the 32-bit checksum.
\<close>

theorem crc32_detects_word:
  assumes "4 dvd length a" "length u = length v" "length u \<le> 4" "z \<noteq> [] \<Longrightarrow> length u = 4" "u \<noteq> v"
  shows "crc32 (a @ u @ z) crc \<noteq> crc32 (a @ v @ z) crc"
proof -
  have split: "words_of (x @ z) = of_le x # words_of z"
    if x: "x \<noteq> []" "length x = length u" for x
  proof (cases "length x = 4")
    case True
    then show ?thesis by (rule words_of_append_word)
  next
    case False
    then have "z = []" using x(2) assms(4) by auto
    then show ?thesis using x assms(3) False by (simp add: words_of_short)
  qed
  have "of_le u \<noteq> (of_le v :: u32)" using of_le_inj [of u v, where 'a = 32] assms by auto
  then have "stm_crc (of_le u) c \<noteq> stm_crc (of_le v) c" for c
    using inj_stm_crc_word by (auto dest: injD)
  moreover have "u \<noteq> []" "v \<noteq> []" using assms by auto
  ultimately show ?thesis
    using assms split [of u] split [of v] inj_eq [OF foldl_stm_inj]
    by (simp add: crc32_words words_of_append)
qed

theorem crc32_detects_word_witness:
  "crc32 ([1, 2, 3, 4] @ [5, 6] @ []) crc32_init \<noteq> crc32 ([1, 2, 3, 4] @ [5, 7] @ []) crc32_init"
  by (rule crc32_detects_word) (simp_all add: numeral_eq_Suc)

end
