(* ===== verification/Crc_Sw.thy ===== *)
theory Crc_Sw
  imports Shift_Register
begin

text \<open>
  \<open>crc/sw/crc_sw.c\<close>: the byte-oriented checksums.  Each C function is a recursion over the
  bytes of the buffer (its \<open>while (size--)\<close> loop), with registers kept at their C width.
  The locales \<open>byte_checksum\<close> and \<open>reversible_checksum\<close> state what their users
  rely on (piecewise computation, detection of errors); every function is an instance, except the
  one whose update loses information.
\<close>

unbundle bit_operations_syntax

subsection \<open>The functions of the file\<close>

definition crc16_table :: "u16 list" where
  "crc16_table = [
     0x0000, 0xC0C1, 0xC181, 0x0140, 0xC301, 0x03C0, 0x0280, 0xC241, 0xC601, 0x06C0, 0x0780, 0xC741,
     0x0500, 0xC5C1, 0xC481, 0x0440, 0xCC01, 0x0CC0, 0x0D80, 0xCD41, 0x0F00, 0xCFC1, 0xCE81, 0x0E40,
     0x0A00, 0xCAC1, 0xCB81, 0x0B40, 0xC901, 0x09C0, 0x0880, 0xC841, 0xD801, 0x18C0, 0x1980, 0xD941,
     0x1B00, 0xDBC1, 0xDA81, 0x1A40, 0x1E00, 0xDEC1, 0xDF81, 0x1F40, 0xDD01, 0x1DC0, 0x1C80, 0xDC41,
     0x1400, 0xD4C1, 0xD581, 0x1540, 0xD701, 0x17C0, 0x1680, 0xD641, 0xD201, 0x12C0, 0x1380, 0xD341,
     0x1100, 0xD1C1, 0xD081, 0x1040, 0xF001, 0x30C0, 0x3180, 0xF141, 0x3300, 0xF3C1, 0xF281, 0x3240,
     0x3600, 0xF6C1, 0xF781, 0x3740, 0xF501, 0x35C0, 0x3480, 0xF441, 0x3C00, 0xFCC1, 0xFD81, 0x3D40,
     0xFF01, 0x3FC0, 0x3E80, 0xFE41, 0xFA01, 0x3AC0, 0x3B80, 0xFB41, 0x3900, 0xF9C1, 0xF881, 0x3840,
     0x2800, 0xE8C1, 0xE981, 0x2940, 0xEB01, 0x2BC0, 0x2A80, 0xEA41, 0xEE01, 0x2EC0, 0x2F80, 0xEF41,
     0x2D00, 0xEDC1, 0xEC81, 0x2C40, 0xE401, 0x24C0, 0x2580, 0xE541, 0x2700, 0xE7C1, 0xE681, 0x2640,
     0x2200, 0xE2C1, 0xE381, 0x2340, 0xE101, 0x21C0, 0x2080, 0xE041, 0xA001, 0x60C0, 0x6180, 0xA141,
     0x6300, 0xA3C1, 0xA281, 0x6240, 0x6600, 0xA6C1, 0xA781, 0x6740, 0xA501, 0x65C0, 0x6480, 0xA441,
     0x6C00, 0xACC1, 0xAD81, 0x6D40, 0xAF01, 0x6FC0, 0x6E80, 0xAE41, 0xAA01, 0x6AC0, 0x6B80, 0xAB41,
     0x6900, 0xA9C1, 0xA881, 0x6840, 0x7800, 0xB8C1, 0xB981, 0x7940, 0xBB01, 0x7BC0, 0x7A80, 0xBA41,
     0xBE01, 0x7EC0, 0x7F80, 0xBF41, 0x7D00, 0xBDC1, 0xBC81, 0x7C40, 0xB401, 0x74C0, 0x7580, 0xB541,
     0x7700, 0xB7C1, 0xB681, 0x7640, 0x7200, 0xB2C1, 0xB381, 0x7340, 0xB101, 0x71C0, 0x7080, 0xB041,
     0x5000, 0x90C1, 0x9181, 0x5140, 0x9301, 0x53C0, 0x5280, 0x9241, 0x9601, 0x56C0, 0x5780, 0x9741,
     0x5500, 0x95C1, 0x9481, 0x5440, 0x9C01, 0x5CC0, 0x5D80, 0x9D41, 0x5F00, 0x9FC1, 0x9E81, 0x5E40,
     0x5A00, 0x9AC1, 0x9B81, 0x5B40, 0x9901, 0x59C0, 0x5880, 0x9841, 0x8801, 0x48C0, 0x4980, 0x8941,
     0x4B00, 0x8BC1, 0x8A81, 0x4A40, 0x4E00, 0x8EC1, 0x8F81, 0x4F40, 0x8D01, 0x4DC0, 0x4C80, 0x8C41,
     0x4400, 0x84C1, 0x8581, 0x4540, 0x8701, 0x47C0, 0x4680, 0x8641, 0x8201, 0x42C0, 0x4380, 0x8341,
     0x4100, 0x81C1, 0x8081, 0x4040]"

fun CRC_16_IBM :: "bytes \<Rightarrow> u16 \<Rightarrow> u16" where
  "CRC_16_IBM [] crc = crc"
| "CRC_16_IBM (b # buf) crc =
     CRC_16_IBM buf (drop_bit 8 crc XOR crc16_table ! unat ((crc XOR ucast b) AND 0xFF))"

fun CRC_8XOR :: "bytes \<Rightarrow> u8 \<Rightarrow> u8" where
  "CRC_8XOR [] crc = crc"
| "CRC_8XOR (b # buf) crc = CRC_8XOR buf (crc XOR b)"

fun crc_8_8c_loop :: "nat \<Rightarrow> u8 \<Rightarrow> u8" where
  "crc_8_8c_loop 0 crc = crc"
| "crc_8_8c_loop (Suc i) crc =
     crc_8_8c_loop i (if crc AND 1 \<noteq> 0 then drop_bit 1 crc XOR 0x8C else drop_bit 1 crc)"

fun CRC_8_8C :: "bytes \<Rightarrow> u8 \<Rightarrow> u8" where
  "CRC_8_8C [] crc = crc"
| "CRC_8_8C (b # buf) crc = CRC_8_8C buf (crc_8_8c_loop 8 (crc XOR b))"

fun crc_8_loop :: "u8 \<Rightarrow> nat \<Rightarrow> u8 \<Rightarrow> u8 \<Rightarrow> u8" where
  "crc_8_loop poly 0 v crc = crc"
| "crc_8_loop poly (Suc i) v crc =
     crc_8_loop poly i (drop_bit 1 v)
       (if (crc XOR v) AND 1 \<noteq> 0 then drop_bit 1 crc XOR poly else drop_bit 1 crc)"

fun CRC_8 :: "u8 \<Rightarrow> bytes \<Rightarrow> u8 \<Rightarrow> u8" where
  "CRC_8 poly [] crc = crc"
| "CRC_8 poly (b # buf) crc = CRC_8 poly buf (crc_8_loop poly 8 b crc)"

fun CRC_SUM :: "bytes \<Rightarrow> u32 \<Rightarrow> u32" where
  "CRC_SUM [] crc = crc"
| "CRC_SUM (b # buf) crc = CRC_SUM buf (crc + ucast b)"

definition ccitt_update :: "u16 \<Rightarrow> u8 \<Rightarrow> u16" where
  "ccitt_update crc b =
     (let crc = ucast (ucast (drop_bit 8 crc) :: u8) OR push_bit 8 crc;
          crc = crc XOR ucast b;
          crc = crc XOR ucast (drop_bit 4 (ucast (crc AND 0xFF) :: u8));
          crc = crc XOR push_bit 4 (push_bit 8 crc);
          crc = crc XOR push_bit 1 (push_bit 4 (crc AND 0xFF))
      in crc)"

fun CRC_16_CCITT :: "bytes \<Rightarrow> u16 \<Rightarrow> u16" where
  "CRC_16_CCITT [] crc = crc"
| "CRC_16_CCITT (b # buf) crc = CRC_16_CCITT buf (ccitt_update crc b)"

definition crc_16_shift :: "u16 \<Rightarrow> u16 \<Rightarrow> u16" where
  "crc_16_shift poly crc = (if crc AND 0x8000 \<noteq> 0 then push_bit 1 crc XOR poly else push_bit 1 crc)"

fun CRC_16 :: "u16 \<Rightarrow> bytes \<Rightarrow> u16 \<Rightarrow> u16" where
  "CRC_16 poly [] crc = crc"
| "CRC_16 poly (b # buf) crc =
     (let crc = crc XOR push_bit 8 (ucast b);
          crc = crc_16_shift poly crc; crc = crc_16_shift poly crc;
          crc = crc_16_shift poly crc; crc = crc_16_shift poly crc;
          crc = crc_16_shift poly crc; crc = crc_16_shift poly crc;
          crc = crc_16_shift poly crc; crc = crc_16_shift poly crc
      in CRC_16 poly buf crc)"

fun CRC_16_CCITT_QT :: "bytes \<Rightarrow> u16 \<Rightarrow> u16" where
  "CRC_16_CCITT_QT [] crc = crc"
| "CRC_16_CCITT_QT (b # buf) crc =
     (let data = b XOR ucast crc;
          data = data XOR push_bit 4 data;
          crc = ((push_bit 8 (ucast data) OR (crc AND 0xFF00)) XOR ucast (drop_bit 4 data)) XOR push_bit 3 (ucast data)
      in CRC_16_CCITT_QT buf crc)"

fun crc_32_loop :: "u32 \<Rightarrow> nat \<Rightarrow> u32 \<Rightarrow> u32" where
  "crc_32_loop poly 0 i = i"
| "crc_32_loop poly (Suc j) i =
     crc_32_loop poly j (if i AND 1 \<noteq> 0 then drop_bit 1 i XOR poly else drop_bit 1 i)"

fun CRC_32 :: "bytes \<Rightarrow> u32 \<Rightarrow> u32 \<Rightarrow> u32" where
  "CRC_32 [] crc poly = crc"
| "CRC_32 (b # buf) crc poly =
     CRC_32 buf (drop_bit 8 crc XOR crc_32_loop poly 8 (ucast b XOR (crc AND 0x000000FF))) poly"

definition CRC_32_NODES :: "bytes \<Rightarrow> u32 \<Rightarrow> u32" where
  "CRC_32_NODES data crc = CRC_32 data crc 0xEDB88320"

subsection \<open>What a checksum promises\<close>

locale byte_checksum =
  fixes upd :: "'c::len word \<Rightarrow> u8 \<Rightarrow> 'c word"
    and run :: "bytes \<Rightarrow> 'c word \<Rightarrow> 'c word"
  assumes run_Nil: "run [] c = c"
    and run_Cons: "run (b # bs) c = run bs (upd c b)"
begin

lemma run_append: "run (xs @ ys) c = run ys (run xs c)"
  by (induction xs arbitrary: c) (simp_all add: run_Nil run_Cons)

lemma run_foldl: "run bs c = foldl upd c bs"
  by (induction bs arbitrary: c) (simp_all add: run_Nil run_Cons)

end

locale reversible_checksum = byte_checksum upd run
  for upd :: "'c::len word \<Rightarrow> u8 \<Rightarrow> 'c word" and run +
  assumes upd_inj: "upd c b = upd c' b \<Longrightarrow> c = c'"
    and upd_inj_byte: "upd c b = upd c b' \<Longrightarrow> b = b'"
begin

lemma run_inj: "run bs c = run bs c' \<Longrightarrow> c = c'"
  by (induction bs arbitrary: c c') (auto simp: run_Nil run_Cons dest: upd_inj)

lemma detects_byte:
  assumes "b \<noteq> b'"
  shows "run (xs @ b # ys) c \<noteq> run (xs @ b' # ys) c"
  using assms by (auto simp: run_append run_Cons dest: run_inj upd_inj_byte)

text \<open>A change that a run over the changed part notices is noticed whatever surrounds it.\<close>

lemma detects_burst:
  assumes "run u (run xs c) \<noteq> run v (run xs c)"
  shows "run (xs @ u @ ys) c \<noteq> run (xs @ v @ ys) c"
  using assms by (auto simp: run_append dest: run_inj)

end

text \<open>
  The reflected CRCs shift the register right by a byte, having added the data byte at its low
  end.  Then a run over up to a register's width of bytes is one shift of the register with the
  little-endian word of the bytes added.
\<close>

locale shr_checksum = byte_checksum upd run
  for upd :: "'c::len word \<Rightarrow> u8 \<Rightarrow> 'c word" and run +
  fixes poly :: "'c word"
  assumes upd_shr: "upd c b = (shr_step poly ^^ 8) (c XOR ucast b)"
    and poly_top: "bit poly (LENGTH('c) - 1)"
    and wide: "8 \<le> LENGTH('c)"
sublocale shr_checksum \<subseteq> reversible_checksum upd run
proof (unfold_locales)
  fix c c' b b'
  have inj: "(shr_step poly ^^ 8) u = (shr_step poly ^^ 8) v \<Longrightarrow> u = v" for u v
    using inj_shr_pow [OF poly_top] by (rule injD)
  show "upd c b = upd c' b \<Longrightarrow> c = c'"
    unfolding upd_shr using inj inj_xor_left by (blast dest: injD)
  show "upd c b = upd c b' \<Longrightarrow> b = b'"
    unfolding upd_shr using inj inj_xor_right ucast_byte_inj [OF wide] by (blast dest: injD)
qed

context shr_checksum
begin

lemma run_shr:
  "8 * length bs \<le> LENGTH('c) \<Longrightarrow> run bs c = (shr_step poly ^^ (8 * length bs)) (c XOR of_le bs)"
proof (induction bs arbitrary: c)
  case Nil
  then show ?case by (simp add: run_Nil)
next
  case (Cons b bs)
  let ?r = "of_le bs :: 'c word"
  have len: "8 * length bs + 8 \<le> LENGTH('c)" using Cons.prems by simp
  have disj: "of_le (b # bs) = (ucast b XOR push_bit 8 ?r)"
    by (rule bit_word_eqI) (auto simp: bit_simps dest: bit_imp_le_length)
  have "(shr_step poly ^^ 8) (push_bit 8 ?r) = drop_bit 8 (push_bit 8 ?r)"
    by (rule shr_pow_shift) (simp add: bit_simps)
  also have "\<dots> = ?r"
  proof (rule bit_word_eqI)
    fix n assume n: "n < LENGTH('c)"
    have "n < 8 * length bs" if "bit ?r n"
      using that by (simp add: bit_of_le) (metis div_less_iff_less_mult mult.commute zero_less_numeral)
    then show "bit (drop_bit 8 (push_bit 8 ?r)) n = bit ?r n"
      using n len by (auto simp: bit_simps)
  qed
  finally have high: "(shr_step poly ^^ 8) (push_bit 8 ?r) = ?r" .
  have e: "c XOR of_le (b # bs) = (c XOR ucast b) XOR push_bit 8 ?r"
    by (simp only: disj xor.assoc)
  have "run (b # bs) c = (shr_step poly ^^ (8 * length bs)) (upd c b XOR ?r)"
    using Cons.IH [of "upd c b"] len by (simp add: run_Cons)
  also have "upd c b XOR ?r = (shr_step poly ^^ 8) (c XOR of_le (b # bs))"
    unfolding e shr_pow_xor [of _ _ "c XOR ucast b"] high upd_shr ..
  also have "(shr_step poly ^^ (8 * length bs)) ((shr_step poly ^^ 8) (c XOR of_le (b # bs)))
      = (shr_step poly ^^ (8 * length (b # bs))) (c XOR of_le (b # bs))"
    by (simp only: funpow_add [THEN fun_cong, simplified, symmetric]) (simp add: add.commute)
  finally show ?case .
qed

lemma detects_word:
  assumes "length u = length v" "8 * length u \<le> LENGTH('c)" "u \<noteq> v"
  shows "run (xs @ u @ ys) c \<noteq> run (xs @ v @ ys) c"
proof (rule detects_burst)
  have "(of_le u :: 'c word) \<noteq> of_le v"
    using of_le_inj assms by blast
  then have "run xs c XOR of_le u \<noteq> run xs c XOR of_le v"
    using inj_xor_right [of "run xs c"] by (blast dest: injD)
  then show "run u (run xs c) \<noteq> run v (run xs c)"
    using assms inj_shr_pow [OF poly_top, of "8 * length v"] by (auto simp: run_shr dest: injD)
qed

end

subsection \<open>The functions are shift registers\<close>

definition shr_nibble_tab :: "u16 list" where
  "shr_nibble_tab = [0x0000, 0xCC01, 0xD801, 0x1400, 0xF001, 0x3C00, 0x2800, 0xE401,
     0xA001, 0x6C00, 0x7800, 0xB401, 0x5000, 0x9C01, 0x8801, 0x4400]"

definition shr_nibble :: "u16 \<Rightarrow> u16" where
  "shr_nibble w = drop_bit 4 w XOR shr_nibble_tab ! unat (w AND 15)"

fun table_from :: "u16 \<Rightarrow> u16 list \<Rightarrow> bool" where
  "table_from w [] = True"
| "table_from w (x # xs) = (shr_nibble (shr_nibble w) = x \<and> table_from (w + 1) xs)"

lemma crc16_table_from: "table_from 0 crc16_table"
  by (simp add: crc16_table_def shr_nibble_def shr_nibble_tab_def)

lemma table_from_nth: "table_from w t \<Longrightarrow> i < length t \<Longrightarrow> t ! i = shr_nibble (shr_nibble (w + of_nat i))"
proof (induction t arbitrary: w i)
  case (Cons x t)
  then show ?case
    using Cons.IH [of "w + 1" "i - 1"] by (cases i) (simp_all add: add.assoc)
qed simp

lemma shr_nibble_shr: "shr_nibble w = (shr_step 0xA001 ^^ 4) w"
proof -
  have "map (\<lambda>w. shr_step 0xA001 (shr_step 0xA001 (shr_step 0xA001 (shr_step 0xA001 w)))) (map of_nat [0..<16]) = shr_nibble_tab"
    by (simp add: upt_rec shr_step_def shr_nibble_tab_def)
  then have "map (\<lambda>i. (shr_step 0xA001 ^^ 4) (of_nat i)) [0..<16] = shr_nibble_tab"
    by (simp add: o_def funpow_4)
  then have tab: "shr_nibble_tab ! i = (shr_step 0xA001 ^^ 4) (of_nat i)" if "i < 16" for i
    using that by (metis (no_types, lifting) add_0 diff_zero length_upt nth_map nth_upt)
  have "w AND 15 = take_bit 4 w" by (simp add: take_bit_eq_mask mask_eq_exp_minus_1)
  then have "unat (w AND 15) < 2 ^ 4" by (metis take_bit_nat_less_exp unsigned_take_bit_eq)
  moreover have "(mask 4 :: u16) = 15" by (simp add: mask_eq_exp_minus_1)
  ultimately show ?thesis
    using shr_pow_split [of 4 "0xA001" w] by (simp add: shr_nibble_def tab)
qed

lemma crc16_table_shr: "i < 256 \<Longrightarrow> crc16_table ! i = (shr_step 0xA001 ^^ 8) (of_nat i)"
proof -
  assume i: "i < 256"
  have "length crc16_table = 256" by (simp add: crc16_table_def)
  with i have "crc16_table ! i = shr_nibble (shr_nibble (of_nat i))"
    using table_from_nth [OF crc16_table_from, of i] by simp
  then show ?thesis by (simp add: shr_nibble_shr funpow_4 funpow_8)
qed

lemma crc_16_shift_shl: "crc_16_shift poly crc = shl_step poly crc"
  using and_power_bit [of "0x8000" 15 crc] by (simp add: crc_16_shift_def shl_step_def)

lemma nat_less_16: "n < 16 \<Longrightarrow> n \<in> {0, 1, 2, 3, 4, 5, 6, 7, 8, 9, 10, 11, 12, 13, 14, 15 :: nat}"
proof -
  assume "n < 16"
  then have "n \<in> set [0..<16]" by simp
  then show ?thesis by (simp add: upt_rec numeral_eq_Suc)
qed

lemma ccitt_update_shl: "ccitt_update crc b = (shl_step 0x1021 ^^ 8) (crc XOR push_bit 8 (ucast b))"
proof (rule bit_word_eqI)
  fix n assume "n < LENGTH(16)"
  then have "n \<in> {0, 1, 2, 3, 4, 5, 6, 7, 8, 9, 10, 11, 12, 13, 14, 15 :: nat}"
    by (simp only: nat_less_16 len_num0 len_bit0 len_num1)
  then show "bit (ccitt_update crc b) n = bit ((shl_step 0x1021 ^^ 8) (crc XOR push_bit 8 (ucast b))) n"
    unfolding funpow_8
    by (elim insertE; simp add: bit_shl_step ccitt_update_def Let_def bit_simps byte_bit_high; argo?)
qed

lemma crc_8_8c_loop_shr: "crc_8_8c_loop n crc = (shr_step 0x8C ^^ n) crc"
proof (induction n arbitrary: crc)
  case (Suc n)
  have "(if crc AND 1 \<noteq> 0 then drop_bit 1 crc XOR 0x8C else drop_bit 1 crc) = shr_step 0x8C crc"
    by (simp only: shr_step_def and_one_bit)
  then show ?case by (simp only: crc_8_8c_loop.simps Suc.IH funpow_Suc_right o_apply)
qed simp

lemma crc_8_loop_shr: "crc_8_loop poly n v crc = drop_bit n v XOR (shr_step poly ^^ n) (crc XOR v)"
proof (induction n arbitrary: v crc)
  case 0
  then show ?case by (simp add: xor.assoc [symmetric] xor.commute [of v]) (simp add: xor.assoc)
next
  case (Suc n)
  let ?c = "if (crc XOR v) AND 1 \<noteq> 0 then drop_bit 1 crc XOR poly else drop_bit 1 crc"
  have "?c XOR drop_bit 1 v = shr_step poly (crc XOR v)"
    by (simp only: shr_step_def and_one_bit) (auto intro!: bit_word_eqI simp: bit_simps)
  then show ?case
    by (simp only: crc_8_loop.simps Suc.IH funpow_Suc_right o_apply drop_bit_drop_bit) simp
qed

lemma crc_32_loop_shr: "crc_32_loop poly n i = (shr_step poly ^^ n) i"
proof (induction n arbitrary: i)
  case (Suc n)
  have "(if i AND 1 \<noteq> 0 then drop_bit 1 i XOR poly else drop_bit 1 i) = shr_step poly i"
    by (simp only: shr_step_def and_one_bit)
  then show ?case by (simp only: crc_32_loop.simps Suc.IH funpow_Suc_right o_apply)
qed simp

subsection \<open>Interpretations\<close>

lemma drop_xor_ucast: "drop_bit 8 (crc XOR ucast (b :: u8)) = drop_bit 8 crc"
  by (rule bit_word_eqI) (auto simp: bit_simps byte_bit_high)

interpretation ibm: shr_checksum "\<lambda>crc b. (shr_step 0xA001 ^^ 8) (crc XOR ucast b)" CRC_16_IBM "0xA001"
proof
  fix b :: u8 and bs and c :: u16
  let ?i = "unat ((c XOR ucast b) AND 0xFF)"
  have m: "(0xFF :: u16) = mask 8" by (simp add: mask_eq_exp_minus_1)
  have "(c XOR ucast b) AND mask 8 = take_bit 8 (c XOR ucast b)" by (simp add: take_bit_eq_mask)
  then have "?i < 2 ^ 8" unfolding m by (metis take_bit_nat_less_exp unsigned_take_bit_eq)
  then have "crc16_table ! ?i = (shr_step 0xA001 ^^ 8) ((c XOR ucast b) AND mask 8)"
    by (simp add: crc16_table_shr m)
  then have "drop_bit 8 c XOR crc16_table ! ?i = (shr_step 0xA001 ^^ 8) (c XOR ucast b)"
    using shr_pow_split [of 8 "0xA001" "c XOR ucast b"] by (simp only: drop_xor_ucast)
  then show "CRC_16_IBM (b # bs) c = CRC_16_IBM bs ((shr_step 0xA001 ^^ 8) (c XOR ucast b))"
    by simp
qed simp_all

interpretation crc8c: shr_checksum "\<lambda>crc b. (shr_step 0x8C ^^ 8) (crc XOR ucast b)" CRC_8_8C "0x8C"
  by unfold_locales (simp_all add: crc_8_8c_loop_shr)

lemma drop_all: "drop_bit 8 (v :: u8) = 0"
  by (rule bit_word_eqI) (auto simp: bit_simps dest: bit_imp_le_length)

interpretation crc8: byte_checksum "\<lambda>crc b. (shr_step poly ^^ 8) (crc XOR b)" "CRC_8 poly" for poly
  by unfold_locales (simp_all add: crc_8_loop_shr drop_all)

interpretation xor8: reversible_checksum "\<lambda>crc b. crc XOR b" CRC_8XOR
  by unfold_locales (auto dest: injD [OF inj_xor_left] injD [OF inj_xor_right])

interpretation sum32: reversible_checksum "\<lambda>crc b. crc + ucast b" CRC_SUM
proof unfold_locales
  show "b = b'" if "c + ucast b = c + (ucast b' :: u32)" for c and b b' :: u8
    using that by (intro ucast_byte_inj [where 'a = 32]) simp_all
qed simp_all

lemma push_byte_inj:
  fixes b b' :: u8
  assumes "push_bit 8 (ucast b :: u16) = push_bit 8 (ucast b')"
  shows "b = b'"
proof (rule bit_word_eqI)
  fix n assume n: "n < LENGTH(8)"
  have "bit (push_bit 8 (ucast b :: u16)) (n + 8) = bit (push_bit 8 (ucast b' :: u16)) (n + 8)"
    by (simp only: assms)
  then show "bit b n = bit b' n" using n by (simp add: bit_simps)
qed

interpretation crc16: byte_checksum
  "\<lambda>crc b. (shl_step poly ^^ 8) (crc XOR push_bit 8 (ucast b))" "CRC_16 poly" for poly
  by unfold_locales (simp_all add: crc_16_shift_shl funpow_8 Let_def)

interpretation ccitt: reversible_checksum
  "\<lambda>crc b. (shl_step 0x1021 ^^ 8) (crc XOR push_bit 8 (ucast b))" CRC_16_CCITT
proof unfold_locales
  have inj: "(shl_step 0x1021 ^^ 8) u = (shl_step 0x1021 ^^ 8) v \<Longrightarrow> u = v" for u v :: u16
    by (rule injD [OF inj_shl_pow]) simp_all
  show "CRC_16_CCITT (b # bs) c = CRC_16_CCITT bs ((shl_step 0x1021 ^^ 8) (c XOR push_bit 8 (ucast b)))" for b bs c
    by (simp only: CRC_16_CCITT.simps ccitt_update_shl)
  show "c = c'" if "(shl_step 0x1021 ^^ 8) (c XOR push_bit 8 (ucast b))
      = (shl_step 0x1021 ^^ 8) (c' XOR push_bit 8 (ucast b))" for c c' :: u16 and b :: u8
    using inj [OF that] inj_xor_left by (blast dest: injD)
  show "b = b'" if "(shl_step 0x1021 ^^ 8) (c XOR push_bit 8 (ucast b))
      = (shl_step 0x1021 ^^ 8) (c XOR push_bit 8 (ucast b'))" for c :: u16 and b b' :: u8
    using inj [OF that] inj_xor_right push_byte_inj by (blast dest: injD)
qed simp

lemma crc_32_update_shr:
  "drop_bit 8 crc XOR crc_32_loop poly 8 (ucast b XOR (crc AND 0xFF)) = (shr_step poly ^^ 8) (crc XOR ucast b)"
  for b :: u8
proof -
  have m: "(0xFF :: u32) = mask 8" by (simp add: mask_eq_exp_minus_1)
  have "(crc XOR ucast b) AND mask 8 = ucast b XOR (crc AND mask 8)"
    by (rule bit_word_eqI) (auto simp: bit_simps dest: bit_imp_le_length)
  then show ?thesis
    using shr_pow_split [of 8 poly "crc XOR ucast b"]
    by (simp only: m crc_32_loop_shr drop_xor_ucast)
qed

interpretation crc32n: shr_checksum
  "\<lambda>crc b. (shr_step 0xEDB88320 ^^ 8) (crc XOR ucast b)" CRC_32_NODES "0xEDB88320"
  by unfold_locales (simp_all add: CRC_32_NODES_def crc_32_update_shr)

subsection \<open>Properties\<close>

text \<open>
  The table-driven CRC-16/IBM computes the reflected CRC of polynomial \<open>0xA001\<close>: for every
  byte it shifts the register right eight times, adding the polynomial after each one-bit shifted out.
\<close>

theorem CRC_16_IBM_bitwise:
  "CRC_16_IBM buf crc = foldl (\<lambda>crc b. (shr_step 0xA001 ^^ 8) (crc XOR ucast b)) crc buf"
  by (rule ibm.run_foldl)

text \<open>
  The two 8-bit CRC routines agree: \<open>CRC_8_8C\<close> is \<open>CRC_8\<close> with polynomial
  \<open>0x8C\<close>, although one consumes the data byte up front and the other bit by bit.
\<close>

theorem CRC_8_8C_eq_CRC_8: "CRC_8_8C buf crc = CRC_8 0x8C buf crc"
  by (simp add: crc8c.run_foldl crc8.run_foldl)

text \<open>
  The shift-and-xor formulation \<open>CRC_16_CCITT\<close> is the bitwise \<open>CRC_16\<close> with the
  CCITT polynomial \<open>0x1021\<close>.
\<close>

theorem CRC_16_CCITT_eq_CRC_16: "CRC_16_CCITT buf crc = CRC_16 0x1021 buf crc"
  by (simp only: ccitt.run_foldl crc16.run_foldl)

text \<open>
  C38: both 32-bit and 16-bit reflected CRCs detect every corruption confined to as many consecutive
  bytes, at any offset, as the register holds: four for \<open>CRC_32_NODES\<close>, two for
  \<open>CRC_16_IBM\<close>.
\<close>

theorem crc_detects_burst:
  assumes "length u = length v" "u \<noteq> v" "length u \<le> 4"
    and "length u' = length v'" "u' \<noteq> v'" "length u' \<le> 2"
  shows "CRC_32_NODES (xs @ u @ ys) crc \<noteq> CRC_32_NODES (xs @ v @ ys) crc
    \<and> CRC_16_IBM (xs @ u' @ ys) crc' \<noteq> CRC_16_IBM (xs @ v' @ ys) crc'"
  using assms by (intro conjI crc32n.detects_word ibm.detects_word) simp_all

theorem crc_detects_burst_witness:
  "CRC_32_NODES ([1] @ [2, 3, 5] @ [4]) 0 \<noteq> CRC_32_NODES ([1] @ [7, 9, 5] @ [4]) 0
    \<and> CRC_16_IBM ([1] @ [2, 3] @ [4]) 0 \<noteq> CRC_16_IBM ([1] @ [7, 9] @ [4]) 0"
  by (rule crc_detects_burst) simp_all

text \<open>
  \<open>CRC_16_IBM\<close>, \<open>CRC_8XOR\<close>, \<open>CRC_8_8C\<close>, \<open>CRC_SUM\<close>,
  \<open>CRC_16_CCITT\<close> and \<open>CRC_32_NODES\<close> detect any change of a single byte of a message.
\<close>

theorem single_byte_errors:
  assumes "b \<noteq> b'"
  shows "CRC_16_IBM (xs @ b # ys) c16 \<noteq> CRC_16_IBM (xs @ b' # ys) c16 \<and>
      CRC_8XOR (xs @ b # ys) c8 \<noteq> CRC_8XOR (xs @ b' # ys) c8 \<and>
      CRC_8_8C (xs @ b # ys) c8 \<noteq> CRC_8_8C (xs @ b' # ys) c8 \<and>
      CRC_SUM (xs @ b # ys) c32 \<noteq> CRC_SUM (xs @ b' # ys) c32 \<and>
      CRC_16_CCITT (xs @ b # ys) c16 \<noteq> CRC_16_CCITT (xs @ b' # ys) c16 \<and>
      CRC_32_NODES (xs @ b # ys) c32 \<noteq> CRC_32_NODES (xs @ b' # ys) c32"
  using assms
  by (intro conjI ibm.detects_byte xor8.detects_byte crc8c.detects_byte sum32.detects_byte
      ccitt.detects_byte crc32n.detects_byte)

theorem single_byte_errors_witness:
  "CRC_16_CCITT ([0x10] @ 0x20 # [0x30]) 0xFFFF \<noteq> CRC_16_CCITT ([0x10] @ 0x21 # [0x30]) 0xFFFF"
proof -
  have "(0x20 :: u8) \<noteq> 0x21" by simp
  from single_byte_errors [OF this, of "[0x10]" "[0x30]" "0xFFFF" 0 0] show ?thesis by blast
qed

text \<open>
  \<open>CRC_16_CCITT_QT\<close> keeps the register's high byte in place and ors the data onto it, so its
  update is not reversible: two messages that differ in one byte collide.
\<close>

theorem CRC_16_CCITT_QT_collision:
  "CRC_16_CCITT_QT [0x00, 0x0D] 0 = CRC_16_CCITT_QT [0x91, 0x0D] 0"
  by (simp add: Let_def)

end
