(* ===== verification/Xbus_Stream.thy ===== *)
theory Xbus_Stream
  imports Apx_Prelude "HOL-Library.Monad_Syntax"
begin

text \<open>
  \<open>xbus/XbusStream.h\<close>, \<open>XbusStreamReader.h\<close> and \<open>XbusStreamWriter.h\<close>: a
  cursor over a caller-supplied buffer.  A stream is the memory behind its pointer together with
  the \<open>_size\<close> and \<open>_pos\<close> of the class; sizes are natural numbers, and the sums and
  differences of \<open>size_t\<close> values wrap as in C.  An access outside the memory is
  \<open>None\<close>; the invariants \<open>reader_ok\<close> and \<open>writer_ok\<close> exclude it.
\<close>

unbundle bit_operations_syntax

subsection \<open>size_t arithmetic\<close>

definition size_add :: "nat \<Rightarrow> nat \<Rightarrow> nat" where
  "size_add a b = (a + b) mod 2 ^ 64"

definition size_sub :: "nat \<Rightarrow> nat \<Rightarrow> nat" where
  "size_sub a b = (a + 2 ^ 64 - b) mod 2 ^ 64"

lemma size_add_small [simp]: "a + b < 2 ^ 64 \<Longrightarrow> size_add a b = a + b"
  by (simp add: size_add_def)

lemma size_sub_small [simp]: "b \<le> a \<Longrightarrow> a < 2 ^ 64 \<Longrightarrow> size_sub a b = a - b"
proof -
  assume "b \<le> a" "a < 2 ^ 64"
  then have "a + 2 ^ 64 - b = (a - b) + 2 ^ 64" "a - b < 2 ^ 64" by simp_all
  then show ?thesis by (simp only: size_sub_def mod_add_self2 mod_less)
qed

subsection \<open>XbusStreamReader\<close>

record reader =
  r_buf :: bytes
  r_size :: nat
  r_pos :: nat

definition reader_make :: "bytes \<Rightarrow> nat \<Rightarrow> reader" where
  "reader_make p sz = \<lparr> r_buf = p, r_size = sz, r_pos = 0 \<rparr>"

definition r_reset :: "nat \<Rightarrow> reader \<Rightarrow> reader" where
  "r_reset p s = s\<lparr> r_pos := (if p > r_size s then r_size s else p) \<rparr>"

definition r_available :: "reader \<Rightarrow> nat" where
  "r_available s = size_sub (r_size s) (r_pos s)"

definition r_resize :: "nat \<Rightarrow> nat \<Rightarrow> reader \<Rightarrow> reader" where
  "r_resize sz offset s = r_reset offset (s\<lparr> r_size := sz \<rparr>)"

definition r_init :: "bytes \<Rightarrow> nat \<Rightarrow> reader \<Rightarrow> reader" where
  "r_init p sz s = r_resize sz 0 (s\<lparr> r_buf := p \<rparr>)"

definition r_discard :: "reader \<Rightarrow> reader" where
  "r_discard s = s\<lparr> r_pos := r_size s \<rparr>"

definition r_skip :: "nat \<Rightarrow> reader \<Rightarrow> reader" where
  "r_skip sz s = r_reset (size_add (r_pos s) sz) s"

definition r_trim_at :: "nat \<Rightarrow> nat \<Rightarrow> reader \<Rightarrow> reader" where
  "r_trim_at pos sz s = r_init (drop pos (r_buf s)) sz s"

definition r_trim_from :: "nat \<Rightarrow> reader \<Rightarrow> reader" where
  "r_trim_from pos s = r_trim_at pos (size_sub (r_size s) pos) s"

definition r_trim :: "reader \<Rightarrow> reader" where
  "r_trim s = r_trim_from (r_pos s) s"

text \<open>
  \<open>read(T &data)\<close> for the integer types: \<open>n\<close> is \<open>sizeof(T)\<close>.  The class template's
  \<open>_get_data\<close> reverses the bytes on a big-endian host, so the value is the little-endian one.
\<close>

definition read_le :: "nat \<Rightarrow> reader \<Rightarrow> ('a::len word \<times> reader) option" where
  "read_le n s =
     (if size_add (r_pos s) n > r_size s then Some (0, s\<lparr> r_pos := r_size s \<rparr>)
      else if r_pos s + n \<le> length (r_buf s)
      then Some (of_le (take n (drop (r_pos s) (r_buf s))), s\<lparr> r_pos := r_pos s + n \<rparr>)
      else None)"

definition read_u8 :: "reader \<Rightarrow> (u8 \<times> reader) option" where
  "read_u8 = read_le 1"
definition read_u16 :: "reader \<Rightarrow> (u16 \<times> reader) option" where
  "read_u16 = read_le 2"
definition read_u32 :: "reader \<Rightarrow> (u32 \<times> reader) option" where
  "read_u32 = read_le 4"
definition read_u64 :: "reader \<Rightarrow> (u64 \<times> reader) option" where
  "read_u64 = read_le 8"

text \<open>\<open>read(T &data)\<close> for a packed structure: the bytes are copied as they are.\<close>

definition read_struct :: "nat \<Rightarrow> reader \<Rightarrow> (bytes \<times> reader) option" where
  "read_struct n s =
     (if size_add (r_pos s) n > r_size s then Some (replicate n 0, s\<lparr> r_pos := r_size s \<rparr>)
      else if r_pos s + n \<le> length (r_buf s)
      then Some (take n (drop (r_pos s) (r_buf s)), s\<lparr> r_pos := r_pos s + n \<rparr>)
      else None)"

text \<open>\<open>read(void *dest, size_t sz)\<close> copies what is available over the front of \<open>dest\<close>.\<close>

definition read_mem :: "bytes \<Rightarrow> nat \<Rightarrow> reader \<Rightarrow> (nat \<times> bytes \<times> reader) option" where
  "read_mem dest sz s =
     (if sz = 0 then Some (0, dest, s)
      else
        let t = r_available s; sz = (if sz > t then t else sz)
        in if r_pos s + sz \<le> length (r_buf s) \<and> sz \<le> length dest
           then Some (sz, blit 0 (take sz (drop (r_pos s) (r_buf s))) dest, s\<lparr> r_pos := r_pos s + sz \<rparr>)
           else None)"

definition text_char :: "u8 \<Rightarrow> bool" where
  "text_char v \<longleftrightarrow> v = 0x0A \<or> v = 0x0D \<or> v = 0x09 \<or> (32 \<le> v \<and> v < 127)"

text \<open>The scan of \<open>read_string\<close>: the remaining \<open>max_size\<close> and the length so far.\<close>

fun read_string_loop :: "bytes \<Rightarrow> nat \<Rightarrow> nat \<Rightarrow> (nat \<times> nat) option" where
  "read_string_loop mem 0 len = Some (0, len)"
| "read_string_loop [] (Suc m) len = None"
| "read_string_loop (v # mem) (Suc m) len =
     (if v = 0 then Some (Suc m, len)
      else if text_char v then read_string_loop mem m (Suc len)
      else Some (0, Suc len))"

text \<open>The result is the offset of the returned pointer in the buffer, \<open>None\<close> for \<open>nullptr\<close>.\<close>

definition read_string :: "nat \<Rightarrow> reader \<Rightarrow> (nat option \<times> reader) option" where
  "read_string max_size s =
     (let tail = r_available s
      in if tail = 0 then Some (None, s)
         else do {
           (m, len) \<leftarrow> read_string_loop (drop (r_pos s) (r_buf s)) (if max_size > tail then tail else max_size) 0;
           if m = 0 then Some (None, r_reset (size_add (r_pos s) tail) s)
           else Some (Some (r_pos s), r_reset (size_add (size_add (r_pos s) len) 1) s)
         })"

subsection \<open>XbusStreamWriter\<close>

record writer =
  w_buf :: bytes
  w_size :: nat
  w_pos :: nat

definition writer_make :: "bytes \<Rightarrow> nat \<Rightarrow> writer" where
  "writer_make p sz = \<lparr> w_buf = p, w_size = sz, w_pos = 0 \<rparr>"

definition w_reset :: "nat \<Rightarrow> writer \<Rightarrow> writer" where
  "w_reset p s = s\<lparr> w_pos := (if p > w_size s then w_size s else p) \<rparr>"

definition w_available :: "writer \<Rightarrow> nat" where
  "w_available s = size_sub (w_size s) (w_pos s)"

definition w_init :: "bytes \<Rightarrow> nat \<Rightarrow> writer \<Rightarrow> writer" where
  "w_init p sz s = w_reset 0 (s\<lparr> w_buf := p, w_size := sz \<rparr>)"

text \<open>Store \<open>bs\<close> at the cursor and advance; undefined outside the memory.\<close>

definition w_put :: "bytes \<Rightarrow> writer \<Rightarrow> (nat \<times> writer) option" where
  "w_put bs s =
     (if w_pos s + length bs \<le> length (w_buf s)
      then Some (length bs, s\<lparr> w_buf := blit (w_pos s) bs (w_buf s), w_pos := w_pos s + length bs \<rparr>)
      else None)"

text \<open>\<open>write<T>(data)\<close> with \<open>n = sizeof(T)\<close>: nothing is written when it does not fit.\<close>

definition write_le :: "nat \<Rightarrow> 'a::len word \<Rightarrow> writer \<Rightarrow> (nat \<times> writer) option" where
  "write_le n v s =
     (if size_add (w_pos s) n > w_size s then Some (0, s) else w_put (le_bytes n v) s)"

definition write_u8 :: "u8 \<Rightarrow> writer \<Rightarrow> (nat \<times> writer) option" where
  "write_u8 = write_le 1"
definition write_u16 :: "u16 \<Rightarrow> writer \<Rightarrow> (nat \<times> writer) option" where
  "write_u16 = write_le 2"
definition write_u32 :: "u32 \<Rightarrow> writer \<Rightarrow> (nat \<times> writer) option" where
  "write_u32 = write_le 4"
definition write_u64 :: "u64 \<Rightarrow> writer \<Rightarrow> (nat \<times> writer) option" where
  "write_u64 = write_le 8"

definition write_struct :: "bytes \<Rightarrow> writer \<Rightarrow> (nat \<times> writer) option" where
  "write_struct bs s =
     (if size_add (w_pos s) (length bs) > w_size s then Some (0, s) else w_put bs s)"

text \<open>\<open>write(const void *src, size_t sz)\<close> writes the part that fits.\<close>

definition write_mem :: "bytes \<Rightarrow> nat \<Rightarrow> writer \<Rightarrow> (nat \<times> writer) option" where
  "write_mem src sz s =
     (let t = w_available s; sz = (if sz > t then t else sz)
      in if sz \<le> length src then w_put (take sz src) s else None)"

text \<open>\<open>strnlen\<close> on the memory of a string, which ends with a zero or after \<open>m\<close> bytes.\<close>

fun strnlen :: "bytes \<Rightarrow> nat \<Rightarrow> nat option" where
  "strnlen mem 0 = Some 0"
| "strnlen [] (Suc m) = None"
| "strnlen (v # mem) (Suc m) = (if v = 0 then Some 0 else map_option Suc (strnlen mem m))"

definition write_string :: "bytes \<Rightarrow> writer \<Rightarrow> (nat \<times> writer) option" where
  "write_string str s = do {
     n \<leftarrow> strnlen str (w_available s);
     let sz = size_add n 1;
     if sz \<le> 0 \<or> sz \<ge> w_available s then Some (0, s)
     else if sz \<le> length str then w_put (take sz str) s
     else None
   }"

subsection \<open>The invariant and the contents of a stream\<close>

text \<open>No object is larger than half the address space (\<open>PTRDIFF_MAX\<close>).\<close>

abbreviation mem_max :: nat where
  "mem_max \<equiv> 2 ^ 63"

definition reader_ok :: "reader \<Rightarrow> bool" where
  "reader_ok s \<longleftrightarrow> r_pos s \<le> r_size s \<and> r_size s \<le> length (r_buf s) \<and> length (r_buf s) < mem_max"

definition r_rest :: "reader \<Rightarrow> bytes" where
  "r_rest s = take (r_size s - r_pos s) (drop (r_pos s) (r_buf s))"

definition writer_ok :: "writer \<Rightarrow> bool" where
  "writer_ok s \<longleftrightarrow> w_pos s \<le> w_size s \<and> w_size s \<le> length (w_buf s) \<and> length (w_buf s) < mem_max"

definition w_out :: "writer \<Rightarrow> bytes" where
  "w_out s = take (w_pos s) (w_buf s)"

lemma reader_ok_make: "sz \<le> length p \<Longrightarrow> length p < mem_max \<Longrightarrow> reader_ok (reader_make p sz)"
  by (simp add: reader_ok_def reader_make_def)

lemma writer_ok_make: "sz \<le> length p \<Longrightarrow> length p < mem_max \<Longrightarrow> writer_ok (writer_make p sz)"
  by (simp add: writer_ok_def writer_make_def)

lemma r_rest_make [simp]: "r_rest (reader_make p sz) = take sz p"
  by (simp add: r_rest_def reader_make_def)

lemma w_out_make [simp]: "w_out (writer_make p sz) = []"
  by (simp add: w_out_def writer_make_def)

lemma w_fields_make [simp]: "w_pos (writer_make p n) = 0" "w_size (writer_make p n) = n" "w_buf (writer_make p n) = p"
  by (simp_all add: writer_make_def)

lemma length_r_rest: "reader_ok s \<Longrightarrow> length (r_rest s) = r_size s - r_pos s"
  by (auto simp: reader_ok_def r_rest_def min_def)

lemma length_w_out: "writer_ok s \<Longrightarrow> length (w_out s) = w_pos s"
  by (simp add: writer_ok_def w_out_def)

lemma r_available_rest: "reader_ok s \<Longrightarrow> r_available s = length (r_rest s)"
  by (simp add: length_r_rest r_available_def reader_ok_def)

lemma w_available_free: "writer_ok s \<Longrightarrow> w_available s = w_size s - w_pos s"
  by (simp add: w_available_def writer_ok_def)

lemma reader_ok_moves:
  assumes "reader_ok s"
  shows "reader_ok (r_reset n s)" "reader_ok (r_skip n s)" "reader_ok (r_discard s)" "reader_ok (r_trim s)"
  using assms
  by (auto simp: reader_ok_def r_reset_def r_skip_def r_discard_def r_trim_def r_trim_from_def
      r_trim_at_def r_init_def r_resize_def)

lemma r_rest_trim: "reader_ok s \<Longrightarrow> r_rest (r_trim s) = r_rest s"
  by (simp add: reader_ok_def r_rest_def r_trim_def r_trim_from_def r_trim_at_def r_init_def
      r_resize_def r_reset_def)

text \<open>Moving the cursor forward by \<open>n\<close>.\<close>

abbreviation r_adv :: "nat \<Rightarrow> reader \<Rightarrow> reader" where
  "r_adv n s \<equiv> s\<lparr> r_pos := r_pos s + n \<rparr>"

lemma r_rest_adv: "r_rest (r_adv n s) = drop n (r_rest s)"
  by (simp add: r_rest_def drop_take add.commute)

lemma reader_ok_adv: "reader_ok s \<Longrightarrow> n \<le> length (r_rest s) \<Longrightarrow> reader_ok (r_adv n s)"
  by (auto simp: length_r_rest reader_ok_def)

lemma reader_ok_end: "reader_ok s \<Longrightarrow> reader_ok (s\<lparr> r_pos := r_size s \<rparr>)"
  by (simp add: reader_ok_def)

lemma r_rest_end [simp]: "r_rest (s\<lparr> r_pos := r_size s \<rparr>) = []"
  by (simp add: r_rest_def)

lemma read_struct_rest:
  assumes "reader_ok s" "n < mem_max"
  shows "read_struct n s =
    (if n \<le> length (r_rest s) then Some (take n (r_rest s), r_adv n s)
     else Some (replicate n 0, s\<lparr> r_pos := r_size s \<rparr>))"
  using assms by (auto simp: read_struct_def length_r_rest) (auto simp: reader_ok_def r_rest_def)

lemma read_le_rest:
  assumes "reader_ok s" "n < mem_max"
  shows "read_le n s =
    (if n \<le> length (r_rest s) then Some (of_le (take n (r_rest s)), r_adv n s)
     else Some (0, s\<lparr> r_pos := r_size s \<rparr>))"
  using assms by (auto simp: read_le_def length_r_rest) (auto simp: reader_ok_def r_rest_def)

lemma read_mem_rest:
  assumes "reader_ok s" "sz \<le> length dest"
  shows "read_mem dest sz s =
    (let k = min sz (length (r_rest s)) in Some (k, blit 0 (take k (r_rest s)) dest, r_adv k s))"
proof (cases "sz = 0")
  case True
  then show ?thesis by (simp add: read_mem_def)
next
  case False
  have k: "(if sz > r_available s then r_available s else sz) = min sz (length (r_rest s))"
    by (simp add: r_available_rest assms(1) min_def)
  have "take (min sz (length (r_rest s))) (drop (r_pos s) (r_buf s))
      = take (min sz (length (r_rest s))) (r_rest s)"
    using assms(1) by (simp add: r_rest_def min_def reader_ok_def)
  then show ?thesis
    using False assms
    by (simp add: read_mem_def k Let_def length_r_rest) (auto simp: reader_ok_def)
qed

lemma w_put_spec:
  assumes "writer_ok s" "w_pos s + length bs \<le> w_size s"
  shows "\<exists>s'. w_put bs s = Some (length bs, s') \<and> writer_ok s' \<and> w_out s' = w_out s @ bs
    \<and> w_size s' = w_size s \<and> w_pos s' = w_pos s + length bs"
  using assms by (auto simp: w_put_def writer_ok_def w_out_def)

subsection \<open>Reading and writing as specifications\<close>

text \<open>
  \<open>gets m bs x\<close>: with \<open>bs\<close> ahead, \<open>m\<close> consumes exactly \<open>bs\<close> and
  returns \<open>x\<close>.  \<open>puts m bs\<close>: with room for \<open>bs\<close>, \<open>m\<close> appends exactly
  \<open>bs\<close>.  \<open>safe_get\<close> and \<open>safe_put\<close>: whatever is ahead and however little room
  there is, the run stays inside the memory and keeps the invariant.
\<close>

definition gets :: "(reader \<Rightarrow> ('a \<times> reader) option) \<Rightarrow> bytes \<Rightarrow> 'a \<Rightarrow> bool" where
  "gets m bs x \<longleftrightarrow> (\<forall>s zs. reader_ok s \<longrightarrow> r_rest s = bs @ zs \<longrightarrow>
     (\<exists>s'. m s = Some (x, s') \<and> reader_ok s' \<and> r_rest s' = zs))"

definition puts :: "(writer \<Rightarrow> ('r \<times> writer) option) \<Rightarrow> bytes \<Rightarrow> bool" where
  "puts m bs \<longleftrightarrow> (\<forall>s. writer_ok s \<longrightarrow> w_pos s + length bs \<le> w_size s \<longrightarrow>
     (\<exists>n s'. m s = Some (n, s') \<and> writer_ok s' \<and> w_out s' = w_out s @ bs \<and> w_size s' = w_size s))"

definition safe_get :: "(reader \<Rightarrow> ('a \<times> reader) option) \<Rightarrow> bool" where
  "safe_get m \<longleftrightarrow> (\<forall>s. reader_ok s \<longrightarrow> (\<exists>x s'. m s = Some (x, s') \<and> reader_ok s'))"

definition safe_put :: "(writer \<Rightarrow> ('r \<times> writer) option) \<Rightarrow> bool" where
  "safe_put m \<longleftrightarrow> (\<forall>s. writer_ok s \<longrightarrow>
     (\<exists>n s'. m s = Some (n, s') \<and> writer_ok s' \<and> w_size s' = w_size s))"

lemma getsD:
  assumes "gets m bs x" "reader_ok s" "r_rest s = bs @ zs"
  obtains s' where "m s = Some (x, s')" "reader_ok s'" "r_rest s' = zs"
  using assms unfolding gets_def by blast

lemma putsD:
  assumes "puts m bs" "writer_ok s" "w_pos s + length bs \<le> w_size s"
  obtains n s' where "m s = Some (n, s')" "writer_ok s'" "w_out s' = w_out s @ bs" "w_size s' = w_size s"
  using assms unfolding puts_def by blast

named_theorems stream_rules \<open>composition rules for stream programs\<close>

lemma gets_bind [stream_rules]:
  assumes "gets m bs x" "gets (f x) cs y"
  shows "gets (\<lambda>s. m s \<bind> (\<lambda>(v, s). f v s)) (bs @ cs) y"
  unfolding gets_def
proof (intro allI impI)
  fix s zs assume ok: "reader_ok s" "r_rest s = (bs @ cs) @ zs"
  then have "r_rest s = bs @ (cs @ zs)" by simp
  with ok assms(1) obtain s1 where "m s = Some (x, s1)" "reader_ok s1" "r_rest s1 = cs @ zs"
    unfolding gets_def by blast
  with assms(2) show "\<exists>s'. m s \<bind> (\<lambda>(v, s). f v s) = Some (y, s') \<and> reader_ok s' \<and> r_rest s' = zs"
    unfolding gets_def by fastforce
qed

lemma gets_return [stream_rules]: "gets (\<lambda>s. Some (x, s)) [] x"
  by (simp add: gets_def)

lemma gets_le:
  assumes "LENGTH('a::len) \<le> 8 * n" "n < mem_max"
  shows "gets (read_le n) (le_bytes n (v :: 'a word)) v"
  unfolding gets_def
proof (intro allI impI)
  fix s zs assume "reader_ok s" "r_rest s = le_bytes n v @ zs"
  then show "\<exists>s'. read_le n s = Some (v, s') \<and> reader_ok s' \<and> r_rest s' = zs"
    using assms by (simp add: read_le_rest of_le_le_bytes r_rest_adv reader_ok_adv)
qed

lemma gets_u8 [stream_rules]: "gets read_u8 [v] v"
  using gets_le [of 1 v] by (simp add: read_u8_def le_bytes_def)

lemma gets_u16 [stream_rules]: "gets read_u16 (le_bytes 2 v) v"
  by (simp add: read_u16_def gets_le)

lemma gets_u32 [stream_rules]: "gets read_u32 (le_bytes 4 v) v"
  by (simp add: read_u32_def gets_le)

lemma gets_u64 [stream_rules]: "gets read_u64 (le_bytes 8 v) v"
  by (simp add: read_u64_def gets_le)

text \<open>\<open>read(arr, sizeof(arr))\<close> into the array member \<open>old\<close>, its count ignored.\<close>

definition read_arr :: "bytes \<Rightarrow> reader \<Rightarrow> (bytes \<times> reader) option" where
  "read_arr old s = do { (k, arr, s) \<leftarrow> read_mem old (length old) s; Some (arr, s) }"

lemma gets_arr [stream_rules]:
  assumes "length bs = length old"
  shows "gets (read_arr old) bs bs"
  using assms by (auto simp: gets_def read_arr_def read_mem_rest reader_ok_adv r_rest_adv blit_def Let_def)

lemma gets_struct: "length bs = n \<Longrightarrow> n < mem_max \<Longrightarrow> gets (read_struct n) bs bs"
  by (auto simp: gets_def read_struct_rest reader_ok_adv r_rest_adv)

lemma safe_get_bind [stream_rules]:
  assumes "safe_get m" "\<And>x. safe_get (f x)"
  shows "safe_get (\<lambda>s. m s \<bind> (\<lambda>(v, s). f v s))"
  unfolding safe_get_def
proof (intro allI impI)
  fix s assume "reader_ok s"
  then obtain x s1 where "m s = Some (x, s1)" "reader_ok s1" using assms(1) by (auto simp: safe_get_def)
  then show "\<exists>y s'. m s \<bind> (\<lambda>(v, s). f v s) = Some (y, s') \<and> reader_ok s'"
    using assms(2) by (simp add: safe_get_def)
qed

lemma safe_get_return [stream_rules]: "safe_get (\<lambda>s. Some (x, s))"
  by (simp add: safe_get_def)

lemma safe_get_le: "n < mem_max \<Longrightarrow> safe_get (read_le n)"
  by (auto simp: safe_get_def read_le_rest reader_ok_adv reader_ok_end)

lemma safe_get_word [stream_rules]:
  "safe_get read_u8" "safe_get read_u16" "safe_get read_u32" "safe_get read_u64"
  by (simp_all add: read_u8_def read_u16_def read_u32_def read_u64_def safe_get_le)

lemma safe_get_struct: "n < mem_max \<Longrightarrow> safe_get (read_struct n)"
  by (auto simp: safe_get_def read_struct_rest reader_ok_adv reader_ok_end)

lemma safe_get_arr [stream_rules]: "safe_get (read_arr old)"
  by (auto simp: safe_get_def read_arr_def read_mem_rest reader_ok_adv Let_def)

lemma puts_bind [stream_rules]:
  assumes "puts m bs" "puts k cs"
  shows "puts (\<lambda>s. m s \<bind> (\<lambda>(n, s). k s)) (bs @ cs)"
  unfolding puts_def
proof (intro allI impI)
  fix s assume ok: "writer_ok s" "w_pos s + length (bs @ cs) \<le> w_size s"
  then obtain n s1 where 1: "m s = Some (n, s1)" "writer_ok s1" "w_out s1 = w_out s @ bs" "w_size s1 = w_size s"
    using assms(1) by (auto simp: puts_def)
  then have "w_pos s1 = w_pos s + length bs"
    using ok(1) length_w_out [of s] length_w_out [of s1] by simp
  then obtain n' s2 where "k s1 = Some (n', s2)" "writer_ok s2" "w_out s2 = w_out s1 @ cs" "w_size s2 = w_size s1"
    using assms(2) 1 ok(2) unfolding puts_def by fastforce
  with 1 show "\<exists>n s'. m s \<bind> (\<lambda>(n, s). k s) = Some (n, s') \<and> writer_ok s'
      \<and> w_out s' = w_out s @ bs @ cs \<and> w_size s' = w_size s"
    by simp
qed

text \<open>The last statement of a \<open>void\<close> function.\<close>

lemma puts_last [stream_rules]:
  assumes "puts m bs"
  shows "puts (\<lambda>s. m s \<bind> (\<lambda>(n, s). Some ((), s))) bs"
  unfolding puts_def
proof (intro allI impI)
  fix s assume "writer_ok s" "w_pos s + length bs \<le> w_size s"
  then obtain n s' where "m s = Some (n, s')" "writer_ok s'" "w_out s' = w_out s @ bs" "w_size s' = w_size s"
    using assms unfolding puts_def by blast
  then show "\<exists>n s'. m s \<bind> (\<lambda>(n, s). Some ((), s)) = Some (n, s') \<and> writer_ok s'
      \<and> w_out s' = w_out s @ bs \<and> w_size s' = w_size s" by simp
qed

lemma safe_put_return [stream_rules]: "safe_put (\<lambda>s. Some ((), s))"
  by (simp add: safe_put_def)

lemma gets_last [stream_rules]:
  assumes "gets m bs x"
  shows "gets (\<lambda>s. m s \<bind> (\<lambda>(v, s). Some (f v, s))) bs (f x)"
  unfolding gets_def
proof (intro allI impI)
  fix s zs assume "reader_ok s" "r_rest s = bs @ zs"
  then obtain s' where "m s = Some (x, s')" "reader_ok s'" "r_rest s' = zs"
    using assms unfolding gets_def by blast
  then show "\<exists>s'. m s \<bind> (\<lambda>(v, s). Some (f v, s)) = Some (f x, s') \<and> reader_ok s' \<and> r_rest s' = zs"
    by simp
qed

lemma puts_put: "puts (w_put bs) bs"
  using w_put_spec by (fastforce simp: puts_def)

lemma write_le_ok:
  assumes "writer_ok s" "n < mem_max"
  shows "write_le n v s = (if w_pos s + n \<le> w_size s then w_put (le_bytes n v) s else Some (0, s))"
  using assms by (simp add: write_le_def writer_ok_def)

lemma write_mem_ok:
  assumes "writer_ok s" "n \<le> length src"
  shows "write_mem src n s = w_put (take (min n (w_size s - w_pos s)) src) s"
  using assms by (simp add: write_mem_def w_available_free min_def Let_def)

lemma puts_le: "n < mem_max \<Longrightarrow> puts (write_le n v) (le_bytes n v)"
  using puts_put [of "le_bytes n v"] by (simp add: puts_def write_le_ok)

lemma puts_u8 [stream_rules]: "puts (write_u8 v) [v]"
  using puts_le [of 1 v] by (simp add: write_u8_def le_bytes_def)

lemma puts_u16 [stream_rules]: "puts (write_u16 v) (le_bytes 2 v)"
  by (simp add: write_u16_def puts_le)

lemma puts_u32 [stream_rules]: "puts (write_u32 v) (le_bytes 4 v)"
  by (simp add: write_u32_def puts_le)

lemma puts_u64 [stream_rules]: "puts (write_u64 v) (le_bytes 8 v)"
  by (simp add: write_u64_def puts_le)

lemma puts_mem [stream_rules]: "length bs = n \<Longrightarrow> puts (write_mem bs n) bs"
  using puts_put [of bs] by (simp add: puts_def write_mem_ok)

lemma safe_put_bind [stream_rules]:
  assumes "safe_put m" "safe_put k"
  shows "safe_put (\<lambda>s. m s \<bind> (\<lambda>(n, s). k s))"
  unfolding safe_put_def
proof (intro allI impI)
  fix s assume "writer_ok s"
  then obtain n s1 where "m s = Some (n, s1)" "writer_ok s1" "w_size s1 = w_size s"
    using assms(1) by (auto simp: safe_put_def)
  then show "\<exists>n s'. m s \<bind> (\<lambda>(n, s). k s) = Some (n, s') \<and> writer_ok s' \<and> w_size s' = w_size s"
    using assms(2) unfolding safe_put_def by fastforce
qed

lemma safe_put_le: "n < mem_max \<Longrightarrow> safe_put (write_le n v)"
  unfolding safe_put_def using w_put_spec [where bs = "le_bytes n v"] by (fastforce simp: write_le_ok)

lemma safe_put_word [stream_rules]:
  "safe_put (write_u8 a)" "safe_put (write_u16 b)" "safe_put (write_u32 c)" "safe_put (write_u64 d)"
  by (simp_all add: write_u8_def write_u16_def write_u32_def write_u64_def safe_put_le)

lemma safe_put_mem [stream_rules]: "n \<le> length bs \<Longrightarrow> safe_put (write_mem bs n)"
  unfolding safe_put_def
proof (intro allI impI)
  fix s assume n: "n \<le> length bs" and ok: "writer_ok s"
  then have "w_pos s + length (take (min n (w_size s - w_pos s)) bs) \<le> w_size s"
    by (auto simp: writer_ok_def min_def)
  then show "\<exists>k s'. write_mem bs n s = Some (k, s') \<and> writer_ok s' \<and> w_size s' = w_size s"
    using w_put_spec [OF ok] write_mem_ok [OF ok n] by fastforce
qed

subsection \<open>Strings\<close>

lemma read_string_loop_spec:
  assumes "n \<le> length mem"
  shows "\<exists>m len. read_string_loop mem n k = Some (m, len) \<and>
    (m \<noteq> 0 \<longrightarrow> (\<exists>str zs. mem = str @ 0 # zs \<and> list_all text_char str \<and> len = k + length str \<and> length str < n))"
  using assms
proof (induction mem n k rule: read_string_loop.induct)
  case (3 v mem m len)
  show ?case
  proof (cases "v \<noteq> 0 \<and> text_char v")
    case True
    with 3 obtain m' len' where loop: "read_string_loop mem m (Suc len) = Some (m', len')"
      and IH: "m' \<noteq> 0 \<longrightarrow> (\<exists>str zs. mem = str @ 0 # zs \<and> list_all text_char str
        \<and> len' = Suc len + length str \<and> length str < m)" by auto
    have "\<exists>str zs. v # mem = str @ 0 # zs \<and> list_all text_char str \<and> len' = len + length str \<and> length str < Suc m"
      if "m' \<noteq> 0"
    proof -
      from IH that obtain str zs where "mem = str @ 0 # zs" "list_all text_char str"
        "len' = Suc len + length str" "length str < m" by blast
      then show ?thesis using True by (intro exI [of _ "v # str"] exI [of _ zs]) simp
    qed
    then show ?thesis using True loop by simp
  next
    case False
    then show ?thesis by (cases "v = 0") (auto intro: exI [of _ "[]"])
  qed
qed auto

lemma read_string_loop_text:
  "list_all text_char str \<Longrightarrow> 0 \<notin> set str \<Longrightarrow> length str < n \<Longrightarrow>
     read_string_loop (str @ 0 # zs) n k = Some (n - length str, k + length str)"
proof (induction str arbitrary: n k)
  case Nil
  then show ?case by (cases n) simp_all
next
  case (Cons v str)
  then show ?case by (cases n) simp_all
qed

lemma text_char_0 [simp]: "\<not> text_char 0"
  by (simp add: text_char_def)

lemma text_no_zero: "list_all text_char str \<Longrightarrow> 0 \<notin> set str"
  by (auto simp: list_all_iff)

lemma strnlen_app: "0 \<notin> set str \<Longrightarrow> strnlen (str @ 0 # zs) m = Some (min m (length str))"
proof (induction str arbitrary: m)
  case Nil
  then show ?case by (cases m) simp_all
next
  case (Cons v str)
  then show ?case by (cases m) simp_all
qed

text \<open>
  The scan runs over the memory from the cursor on; within \<open>r_size\<close> it sees \<open>r_rest\<close>.
\<close>

lemma read_string_loop_take: "n \<le> k \<Longrightarrow> read_string_loop (take k mem) n l = read_string_loop mem n l"
proof (induction mem n l arbitrary: k rule: read_string_loop.induct)
  case (3 v mem m len)
  then show ?case by (cases k) auto
qed simp_all

lemma read_string_rest:
  assumes "reader_ok s"
  shows "read_string n s =
    (if r_rest s = [] then Some (None, s)
     else do {
       (m, len) \<leftarrow> read_string_loop (r_rest s) (min n (length (r_rest s))) 0;
       if m = 0 then Some (None, s\<lparr> r_pos := r_size s \<rparr>)
       else Some (Some (r_pos s), r_reset (size_add (size_add (r_pos s) len) 1) s)
     })"
proof -
  let ?l = "length (r_rest s)"
  have all: "r_reset (size_add (r_pos s) ?l) s = s\<lparr> r_pos := r_size s \<rparr>"
    using assms by (simp add: length_r_rest reader_ok_def r_reset_def)
  have n: "(if n > ?l then ?l else n) = min n ?l" by (simp add: min_def)
  have loop: "read_string_loop (drop (r_pos s) (r_buf s)) (min n ?l) 0 = read_string_loop (r_rest s) (min n ?l) 0"
    unfolding r_rest_def using length_r_rest [OF assms] by (simp add: read_string_loop_take)
  show ?thesis
    unfolding read_string_def r_available_rest [OF assms] Let_def n loop all by simp
qed

lemma read_string_spec:
  assumes ok: "reader_ok s"
  shows "\<exists>res s'. read_string n s = Some (res, s') \<and> reader_ok s' \<and>
    (case res of None \<Rightarrow> r_rest s' = []
     | Some p \<Rightarrow> p = r_pos s \<and> (\<exists>str. list_all text_char str \<and> length str < n \<and> r_rest s = str @ 0 # r_rest s'))"
proof (cases "r_rest s = []")
  case True
  then show ?thesis using ok by (simp add: read_string_rest)
next
  case False
  obtain m len where loop: "read_string_loop (r_rest s) (min n (length (r_rest s))) 0 = Some (m, len)"
    and found: "m \<noteq> 0 \<longrightarrow> (\<exists>str zs. r_rest s = str @ 0 # zs \<and> list_all text_char str \<and> len = length str
      \<and> length str < min n (length (r_rest s)))"
    using read_string_loop_spec [of "min n (length (r_rest s))" "r_rest s" 0] by auto
  show ?thesis
  proof (cases "m = 0")
    case True
    then show ?thesis using ok False loop by (simp add: read_string_rest reader_ok_end)
  next
    case m: False
    then obtain str zs where str: "r_rest s = str @ 0 # zs" "list_all text_char str" "len = length str" "length str < n"
      using found by auto
    have le: "r_pos s + (length str + 1) \<le> r_size s" "r_size s < 2 ^ 63"
      using length_r_rest [OF ok] ok str(1) by (auto simp: reader_ok_def)
    then have "r_reset (size_add (size_add (r_pos s) len) 1) s = r_adv (length str + 1) s"
      by (simp add: r_reset_def str(3))
    then have "read_string n s = Some (Some (r_pos s), r_adv (length str + 1) s)"
      using ok False loop m by (simp add: read_string_rest)
    moreover have "reader_ok (r_adv (length str + 1) s)"
      using ok str(1) by (intro reader_ok_adv) simp_all
    moreover have "r_rest (r_adv (length str + 1) s) = zs"
      by (simp add: r_rest_adv str(1) del: add_Suc_right)
    ultimately show ?thesis using str by auto
  qed
qed

lemma write_string_text:
  assumes "writer_ok s" "list_all text_char str"
  shows "write_string (str @ 0 # junk) s =
    (if length str + 1 < w_size s - w_pos s then w_put (str @ [0]) s else Some (0, s))"
proof -
  have free: "w_available s = w_size s - w_pos s" "w_size s < 2 ^ 63"
    using assms(1) by (simp_all add: w_available_free writer_ok_def)
  have n: "strnlen (str @ 0 # junk) (w_available s) = Some (min (w_available s) (length str))"
    by (rule strnlen_app [OF text_no_zero [OF assms(2)]])
  show ?thesis
    unfolding write_string_def n using free by (auto simp: min_def)
qed

subsection \<open>Properties\<close>

text \<open>
  C27: no read from a stream, whatever its contents and however much is asked for, touches memory
  outside the buffer or moves the cursor past the end: every operation returns and keeps the
  invariant.
\<close>

theorem reader_memory_safe:
  assumes "reader_ok s" "n < mem_max"
  shows "(\<exists>v s'. read_u8 s = Some (v, s') \<and> reader_ok s')
    \<and> (\<exists>v s'. read_u16 s = Some (v, s') \<and> reader_ok s')
    \<and> (\<exists>v s'. read_u32 s = Some (v, s') \<and> reader_ok s')
    \<and> (\<exists>v s'. read_u64 s = Some (v, s') \<and> reader_ok s')
    \<and> (\<exists>v s'. read_struct n s = Some (v, s') \<and> reader_ok s')
    \<and> (\<exists>v s'. read_arr old s = Some (v, s') \<and> reader_ok s')
    \<and> (\<exists>v s'. read_string n s = Some (v, s') \<and> reader_ok s')
    \<and> reader_ok (r_reset n s) \<and> reader_ok (r_skip n s) \<and> reader_ok (r_discard s) \<and> reader_ok (r_trim s)"
  using safe_get_word safe_get_struct [OF assms(2)] safe_get_arr [of old] read_string_spec [OF assms(1), of n]
    reader_ok_moves [OF assms(1)] assms(1)
  unfolding safe_get_def by blast

theorem reader_memory_safe_witness:
  "\<exists>v s'. read_u32 (reader_make [1, 2] 2) = Some (v, s') \<and> reader_ok s'"
  using reader_memory_safe [of "reader_make [1, 2] 2" 0] reader_ok_make [of 2 "[1, 2]"] by simp

text \<open>
  C28: \<open>read_string\<close> returns a pointer only to a zero-terminated string of printable text (or
  line breaks and tabs) that lies inside the buffer, is shorter than \<open>max_size\<close>, and leaves the
  cursor just behind its terminator; otherwise it returns \<open>nullptr\<close> with nothing left to read.
\<close>

theorem read_string_result:
  assumes "reader_ok s"
  shows "\<exists>res s'. read_string n s = Some (res, s') \<and>
    (case res of None \<Rightarrow> r_rest s' = []
     | Some p \<Rightarrow> p = r_pos s \<and> (\<exists>str. list_all text_char str \<and> length str < n \<and> r_rest s = str @ 0 # r_rest s'))"
  using read_string_spec [OF assms] by blast

theorem read_string_result_witness:
  "\<exists>res s'. read_string 8 (reader_make [65, 66, 0, 7] 4) = Some (res, s') \<and>
    (case res of None \<Rightarrow> r_rest s' = []
     | Some p \<Rightarrow> p = r_pos (reader_make [65, 66, 0, 7] 4) \<and> (\<exists>str. list_all text_char str \<and> length str < 8
        \<and> r_rest (reader_make [65, 66, 0, 7] 4) = str @ 0 # r_rest s'))"
  by (rule read_string_result) (simp add: reader_ok_make)

text \<open>
  \<open>write_string\<close> stores a text and its terminator, and \<open>read_string\<close> gets the same
  text back; a text whose terminator would take the last free byte is refused and nothing is written.
\<close>

theorem write_read_string:
  assumes "list_all text_char str" "writer_ok s"
  shows "if length str + 1 < w_size s - w_pos s
    then \<exists>s'. write_string (str @ 0 # junk) s = Some (length str + 1, s') \<and> writer_ok s' \<and>
           w_out s' = w_out s @ str @ [0] \<and>
           (\<forall>r. reader_ok r \<longrightarrow> r_rest r = str @ [0] \<longrightarrow>
              (\<exists>r'. read_string (length str + 1) r = Some (Some (r_pos r), r') \<and> r_rest r' = []))
    else write_string (str @ 0 # junk) s = Some (0, s)"
proof (cases "length str + 1 < w_size s - w_pos s")
  case True
  have "\<exists>r'. read_string (length str + 1) r = Some (Some (r_pos r), r') \<and> r_rest r' = []"
    if r: "reader_ok r" "r_rest r = str @ [0]" for r
  proof -
    have "r_pos r + length str + 1 = r_size r" "r_size r < 2 ^ 63"
      using length_r_rest [OF r(1)] r by (auto simp: reader_ok_def)
    then have "r_reset (size_add (size_add (r_pos r) (length str)) 1) r = r\<lparr> r_pos := r_size r \<rparr>"
      by (simp add: r_reset_def)
    then show ?thesis
      using r read_string_loop_text [OF assms(1) text_no_zero [OF assms(1)], of "length str + 1" "[]" 0]
      by (simp add: read_string_rest)
  qed
  moreover have "\<exists>s'. w_put (str @ [0]) s = Some (length str + 1, s') \<and> writer_ok s' \<and> w_out s' = w_out s @ str @ [0]"
  proof -
    have "w_pos s + length (str @ [0]) \<le> w_size s" using True by simp
    from w_put_spec [OF assms(2) this] show ?thesis by auto
  qed
  ultimately show ?thesis
    using True write_string_text [OF assms(2,1)] by simp
next
  case False
  then show ?thesis using write_string_text [OF assms(2,1)] by simp
qed

theorem write_read_string_witness:
  "write_string ([65, 66] @ 0 # []) (writer_make [0, 0, 0] 3) = Some (0, writer_make [0, 0, 0] 3)"
  using write_read_string [of "[65, 66]" "writer_make [0, 0, 0] 3" "[]"]
  by (simp add: writer_ok_make text_char_def)

end
