(* ===== verification/Xbus_Wire.thy ===== *)
theory Xbus_Wire
  imports Xbus_Stream
begin

text \<open>
  The serialised structures of \<open>xbus/\<close>: \<open>pid_s\<close> (\<open>XbusPacket.h\<close>), the unit
  identity (\<open>XbusUnit.h\<close>), the node identity, file information and status
  (\<open>XbusNode.h\<close>), the script header (\<open>XbusScript.h\<close>) and the blackbox header
  (\<open>XbusNodeBlackbox.h\<close>).  Each structure is a record with its \<open>read\<close>,
  \<open>write\<close> and \<open>psize\<close>; \<open>read\<close> takes the structure it overwrites, since array
  members keep what the stream does not supply.  The locale \<open>wire_format\<close> states what a
  reader and a writer of one structure owe each other.
\<close>

unbundle bit_operations_syntax

subsection \<open>xbus::pid_s\<close>

type_synonym pid_s = u16

datatype pri_e = pri_final | pri_primary | pri_secondary | pri_failsafe | pri_auxilary
  | pri_response | pri_request

fun pri_code :: "pri_e \<Rightarrow> u8" where
  "pri_code pri_final = 0"
| "pri_code pri_primary = 1"
| "pri_code pri_secondary = 2"
| "pri_code pri_failsafe = 3"
| "pri_code pri_auxilary = 4"
| "pri_code pri_response = 6"
| "pri_code pri_request = 7"

definition pri_text :: "u8 \<Rightarrow> string" where
  "pri_text pri =
     (if pri = 0 then ''local''
      else if pri = 1 then ''primary''
      else if pri = 2 then ''secondary''
      else if pri = 3 then ''failsafe''
      else if pri = 4 then ''auxilary''
      else '''')"

text \<open>The bit fields of the union, from the low bit up: uid (11), pri (3), seq (2).\<close>

definition pid_make :: "u16 \<Rightarrow> u8 \<Rightarrow> u8 \<Rightarrow> pid_s" where
  "pid_make uid pri sq = (uid AND 0x7FF) OR push_bit 11 (ucast pri AND 7) OR push_bit 14 (ucast sq AND 3)"

definition pid_uid :: "pid_s \<Rightarrow> u16" where
  "pid_uid pid = pid AND 0x7FF"

definition pid_pri :: "pid_s \<Rightarrow> u8" where
  "pid_pri pid = ucast (drop_bit 11 pid AND 7)"

definition pid_seq :: "pid_s \<Rightarrow> u8" where
  "pid_seq pid = ucast (drop_bit 14 pid AND 3)"

definition pid_match :: "pid_s \<Rightarrow> pid_s \<Rightarrow> bool" where
  "pid_match a b \<longleftrightarrow> pid_uid a = pid_uid b"

definition pid_psize :: nat where
  "pid_psize = 2"

definition pid_read :: "pid_s \<Rightarrow> reader \<Rightarrow> (pid_s \<times> reader) option" where
  "pid_read old s = do { (raw, s) \<leftarrow> read_u16 s; Some (raw, s) }"

definition pid_write :: "pid_s \<Rightarrow> writer \<Rightarrow> (unit \<times> writer) option" where
  "pid_write pid s = do { (_, s) \<leftarrow> write_u16 pid s; Some ((), s) }"

subsection \<open>xbus::unit\<close>

record unit_ident =
  unit_flags :: u32

definition unit_gcs :: "unit_ident \<Rightarrow> bool" where
  "unit_gcs x = bit (unit_flags x) 0"

definition unit_psize :: nat where
  "unit_psize = 4"

definition unit_read :: "unit_ident \<Rightarrow> reader \<Rightarrow> (unit_ident \<times> reader) option" where
  "unit_read old s = do { (raw, s) \<leftarrow> read_u32 s; Some (old\<lparr> unit_flags := raw \<rparr>, s) }"

definition unit_write :: "unit_ident \<Rightarrow> writer \<Rightarrow> (unit \<times> writer) option" where
  "unit_write x s = do { (_, s) \<leftarrow> write_u32 (unit_flags x) s; Some ((), s) }"

subsection \<open>xbus::node\<close>

record node_ident =
  ident_format :: u32
  ident_hash :: u32
  ident_flags :: u32

definition ident_files :: "node_ident \<Rightarrow> u32" where
  "ident_files x = ident_flags x AND 0xF"

definition ident_busy :: "node_ident \<Rightarrow> bool" where
  "ident_busy x = bit (ident_flags x) 4"

definition ident_reconf :: "node_ident \<Rightarrow> bool" where
  "ident_reconf x = bit (ident_flags x) 5"

definition ident_psize :: nat where
  "ident_psize = 4 * 2 + 4"

definition ident_read :: "node_ident \<Rightarrow> reader \<Rightarrow> (node_ident \<times> reader) option" where
  "ident_read old s = do {
     (a, s) \<leftarrow> read_u32 s;
     (b, s) \<leftarrow> read_u32 s;
     (c, s) \<leftarrow> read_u32 s;
     Some (old\<lparr> ident_format := a, ident_hash := b, ident_flags := c \<rparr>, s) }"

definition ident_write :: "node_ident \<Rightarrow> writer \<Rightarrow> (unit \<times> writer) option" where
  "ident_write x s = do {
     (_, s) \<leftarrow> write_u32 (ident_format x) s;
     (_, s) \<leftarrow> write_u32 (ident_hash x) s;
     (_, s) \<leftarrow> write_u32 (ident_flags x) s;
     Some ((), s) }"

datatype reboot_type = reboot_firmware | reboot_loader

fun reboot_code :: "reboot_type \<Rightarrow> u8" where
  "reboot_code reboot_firmware = 0x5A"
| "reboot_code reboot_loader = 0xA5"

datatype file_op = op_idle | op_info | op_ropen | op_wopen | op_close | op_read | op_write
  | op_abort | op_extend

fun file_op_code :: "file_op \<Rightarrow> u8" where
  "file_op_code op_idle = 0"
| "file_op_code op_info = 1"
| "file_op_code op_ropen = 2"
| "file_op_code op_wopen = 3"
| "file_op_code op_close = 4"
| "file_op_code op_read = 5"
| "file_op_code op_write = 6"
| "file_op_code op_abort = 7"
| "file_op_code op_extend = 8"

definition reply_op_mask :: u8 where
  "reply_op_mask = 0x80"

record file_info =
  fi_size :: u32
  fi_time :: u32
  fi_hash :: u32
  fi_offset :: u32
  fi_flags :: u32

definition info_psize :: nat where
  "info_psize = 4 + 4 + 4 + 4 + 4"

definition info_read :: "file_info \<Rightarrow> reader \<Rightarrow> (file_info \<times> reader) option" where
  "info_read old s = do {
     (a, s) \<leftarrow> read_u32 s;
     (b, s) \<leftarrow> read_u32 s;
     (c, s) \<leftarrow> read_u32 s;
     (d, s) \<leftarrow> read_u32 s;
     (e, s) \<leftarrow> read_u32 s;
     Some (old\<lparr> fi_size := a, fi_time := b, fi_hash := c, fi_offset := d, fi_flags := e \<rparr>, s) }"

definition info_write :: "file_info \<Rightarrow> writer \<Rightarrow> (unit \<times> writer) option" where
  "info_write x s = do {
     (_, s) \<leftarrow> write_u32 (fi_size x) s;
     (_, s) \<leftarrow> write_u32 (fi_time x) s;
     (_, s) \<leftarrow> write_u32 (fi_hash x) s;
     (_, s) \<leftarrow> write_u32 (fi_offset x) s;
     (_, s) \<leftarrow> write_u32 (fi_flags x) s;
     Some ((), s) }"

datatype conf_type = conf_group | conf_command | conf_option | conf_real | conf_byte | conf_word
  | conf_dword | conf_bind | conf_string | conf_text | conf_script | conf_type_max

definition type_field :: u8 where
  "type_field = 4"

fun conf_code :: "conf_type \<Rightarrow> u8" where
  "conf_code conf_group = 0"
| "conf_code conf_command = 1"
| "conf_code conf_option = type_field"
| "conf_code conf_real = type_field + 1"
| "conf_code conf_byte = type_field + 2"
| "conf_code conf_word = type_field + 3"
| "conf_code conf_dword = type_field + 4"
| "conf_code conf_bind = type_field + 5"
| "conf_code conf_string = type_field + 6"
| "conf_code conf_text = type_field + 7"
| "conf_code conf_script = type_field + 8"
| "conf_code conf_type_max = type_field + 9"

fun type_to_str :: "conf_type \<Rightarrow> string" where
  "type_to_str conf_group = ''group''"
| "type_to_str conf_command = ''command''"
| "type_to_str conf_option = ''option''"
| "type_to_str conf_real = ''real''"
| "type_to_str conf_byte = ''byte''"
| "type_to_str conf_word = ''word''"
| "type_to_str conf_dword = ''dword''"
| "type_to_str conf_bind = ''bind''"
| "type_to_str conf_string = ''string''"
| "type_to_str conf_text = ''text''"
| "type_to_str conf_script = ''script''"
| "type_to_str conf_type_max = ''''"

text \<open>The reserved arrays are part of the structure; \<open>psize\<close> counts four bytes.\<close>

record node_status =
  err_can :: u8
  err_uart :: u8
  err_hw :: u8
  err_rsv :: bytes
  cnt_rx :: u8
  cnt_tx :: u8
  cnt_rsv :: bytes

definition status_psize :: nat where
  "status_psize = 1 * 4"

definition status_read :: "node_status \<Rightarrow> reader \<Rightarrow> (node_status \<times> reader) option" where
  "status_read old s = do {
     (a, s) \<leftarrow> read_u8 s;
     (b, s) \<leftarrow> read_u8 s;
     (c, s) \<leftarrow> read_u8 s;
     (d, s) \<leftarrow> read_arr (err_rsv old) s;
     (e, s) \<leftarrow> read_u8 s;
     (f, s) \<leftarrow> read_u8 s;
     (g, s) \<leftarrow> read_arr (cnt_rsv old) s;
     Some (old\<lparr> err_can := a, err_uart := b, err_hw := c, err_rsv := d,
                cnt_rx := e, cnt_tx := f, cnt_rsv := g \<rparr>, s) }"

definition status_write :: "node_status \<Rightarrow> writer \<Rightarrow> (unit \<times> writer) option" where
  "status_write x s = do {
     (_, s) \<leftarrow> write_u8 (err_can x) s;
     (_, s) \<leftarrow> write_u8 (err_uart x) s;
     (_, s) \<leftarrow> write_u8 (err_hw x) s;
     (_, s) \<leftarrow> write_mem (err_rsv x) 5 s;
     (_, s) \<leftarrow> write_u8 (cnt_rx x) s;
     (_, s) \<leftarrow> write_u8 (cnt_tx x) s;
     (_, s) \<leftarrow> write_mem (cnt_rsv x) 6 s;
     Some ((), s) }"

subsection \<open>xbus::script\<close>

record script_hdr =
  code_size :: u32
  src_size :: u32
  title :: bytes

definition script_psize :: nat where
  "script_psize = 4 * 2 + 64"

definition script_read :: "script_hdr \<Rightarrow> reader \<Rightarrow> (script_hdr \<times> reader) option" where
  "script_read old s = do {
     (a, s) \<leftarrow> read_u32 s;
     (b, s) \<leftarrow> read_u32 s;
     (c, s) \<leftarrow> read_arr (title old) s;
     Some (old\<lparr> code_size := a, src_size := b, title := c \<rparr>, s) }"

definition script_write :: "script_hdr \<Rightarrow> writer \<Rightarrow> (unit \<times> writer) option" where
  "script_write x s = do {
     (_, s) \<leftarrow> write_u32 (code_size x) s;
     (_, s) \<leftarrow> write_u32 (src_size x) s;
     (_, s) \<leftarrow> write_mem (title x) 64 s;
     Some ((), s) }"

subsection \<open>xbus::node::blackbox\<close>

text \<open>\<open>evtcnt\<close> and \<open>padding\<close> are copied as memory, so they are kept as bytes.\<close>

record blackbox_hdr =
  magic :: u32
  uptime :: u32
  oncnt :: u32
  evtcnt :: bytes
  rec_size :: u32
  block_size :: u32
  padding :: bytes
  bb_crc :: u32

definition blackbox_psize :: nat where
  "blackbox_psize = 4 * 6 + 12 + 4"

definition blackbox_read :: "blackbox_hdr \<Rightarrow> reader \<Rightarrow> (blackbox_hdr \<times> reader) option" where
  "blackbox_read old s = do {
     (a, s) \<leftarrow> read_u32 s;
     (b, s) \<leftarrow> read_u32 s;
     (c, s) \<leftarrow> read_u32 s;
     (d, s) \<leftarrow> read_arr (evtcnt old) s;
     (e, s) \<leftarrow> read_u32 s;
     (f, s) \<leftarrow> read_u32 s;
     (g, s) \<leftarrow> read_arr (padding old) s;
     (h, s) \<leftarrow> read_u32 s;
     Some (old\<lparr> magic := a, uptime := b, oncnt := c, evtcnt := d, rec_size := e,
                block_size := f, padding := g, bb_crc := h \<rparr>, s) }"

definition blackbox_write :: "blackbox_hdr \<Rightarrow> writer \<Rightarrow> (unit \<times> writer) option" where
  "blackbox_write x s = do {
     (_, s) \<leftarrow> write_u32 (magic x) s;
     (_, s) \<leftarrow> write_u32 (uptime x) s;
     (_, s) \<leftarrow> write_u32 (oncnt x) s;
     (_, s) \<leftarrow> write_mem (evtcnt x) 12 s;
     (_, s) \<leftarrow> write_u32 (rec_size x) s;
     (_, s) \<leftarrow> write_u32 (block_size x) s;
     (_, s) \<leftarrow> write_mem (padding x) 4 s;
     (_, s) \<leftarrow> write_u32 (bb_crc x) s;
     Some ((), s) }"

subsection \<open>What a serialised structure owes\<close>

locale wire_format =
  fixes valid :: "'a \<Rightarrow> bool"
    and rd :: "'a \<Rightarrow> reader \<Rightarrow> ('a \<times> reader) option"
    and wr :: "'a \<Rightarrow> writer \<Rightarrow> (unit \<times> writer) option"
    and image :: "'a \<Rightarrow> bytes"
  assumes wr_image: "valid x \<Longrightarrow> puts (wr x) (image x)"
    and rd_image: "valid x \<Longrightarrow> valid old \<Longrightarrow> gets (rd old) (image x) x"
    and rd_safe: "safe_get (rd old)"
    and wr_safe: "valid x \<Longrightarrow> safe_put (wr x)"
begin

lemma write_then_read:
  assumes "valid x" "valid old" "length (image x) \<le> length buf" "length buf < mem_max"
  shows "\<exists>s r. wr x (writer_make buf (length buf)) = Some ((), s) \<and> w_pos s = length (image x) \<and>
    rd old (reader_make (w_buf s) (w_pos s)) = Some (x, r) \<and> r_rest r = []"
proof -
  let ?w = "writer_make buf (length buf)"
  have "writer_ok ?w" "w_pos ?w + length (image x) \<le> w_size ?w"
    using assms by (simp_all add: writer_ok_make)
  from putsD [OF wr_image [OF assms(1)] this] obtain n s
    where s: "wr x ?w = Some (n, s)" "writer_ok s" "w_out s = image x" by auto
  then have pos: "w_pos s = length (image x)" using length_w_out by metis
  have "reader_ok (reader_make (w_buf s) (w_pos s))"
    using s(2) by (auto simp: writer_ok_def intro!: reader_ok_make)
  moreover have "r_rest (reader_make (w_buf s) (w_pos s)) = image x @ []"
    using s(3) by (simp add: w_out_def)
  ultimately obtain r where "rd old (reader_make (w_buf s) (w_pos s)) = Some (x, r)" "r_rest r = []"
    by (rule getsD [OF rd_image [OF assms(1,2)]])
  with s(1) pos show ?thesis by auto
qed

text \<open>The image of a structure determines it, and no image is a proper prefix of another.\<close>

lemma image_prefix_free:
  assumes "valid x" "valid y" "image x @ xs = image y @ ys" "length (image x @ xs) < mem_max"
  shows "x = y \<and> xs = ys"
proof -
  let ?r = "reader_make (image x @ xs) (length (image x @ xs))"
  have ok: "reader_ok ?r" using assms(4) by (intro reader_ok_make) simp_all
  have rest: "r_rest ?r = image x @ xs" by simp
  then have rest': "r_rest ?r = image y @ ys" using assms(3) by metis
  show ?thesis
    by (rule getsD [OF rd_image [OF assms(1,1)] ok rest], rule getsD [OF rd_image [OF assms(2,1)] ok rest'])
      simp
qed

end

locale sized_wire_format = wire_format valid rd wr image
  for valid :: "'a \<Rightarrow> bool" and rd and wr and image +
  fixes psize :: nat
  assumes image_size: "valid x \<Longrightarrow> length (image x) = psize"
begin

lemma write_then_read_psize:
  assumes "valid x" "valid old" "psize \<le> length buf" "length buf < mem_max"
  shows "\<exists>s r. wr x (writer_make buf (length buf)) = Some ((), s) \<and> w_pos s = psize \<and>
    rd old (reader_make (w_buf s) psize) = Some (x, r) \<and> r_rest r = []"
  using write_then_read [OF assms(1,2) _ assms(4)] image_size [OF assms(1)] assms(3) by metis

end

subsection \<open>The structures honour it\<close>

definition unit_image :: "unit_ident \<Rightarrow> bytes" where
  "unit_image x = le_bytes 4 (unit_flags x)"

definition ident_image :: "node_ident \<Rightarrow> bytes" where
  "ident_image x = le_bytes 4 (ident_format x) @ le_bytes 4 (ident_hash x) @ le_bytes 4 (ident_flags x)"

definition info_image :: "file_info \<Rightarrow> bytes" where
  "info_image x = le_bytes 4 (fi_size x) @ le_bytes 4 (fi_time x) @ le_bytes 4 (fi_hash x)
     @ le_bytes 4 (fi_offset x) @ le_bytes 4 (fi_flags x)"

definition status_image :: "node_status \<Rightarrow> bytes" where
  "status_image x = [err_can x] @ [err_uart x] @ [err_hw x] @ err_rsv x @ [cnt_rx x] @ [cnt_tx x] @ cnt_rsv x"

definition status_valid :: "node_status \<Rightarrow> bool" where
  "status_valid x \<longleftrightarrow> length (err_rsv x) = 5 \<and> length (cnt_rsv x) = 6"

definition script_image :: "script_hdr \<Rightarrow> bytes" where
  "script_image x = le_bytes 4 (code_size x) @ le_bytes 4 (src_size x) @ title x"

definition script_valid :: "script_hdr \<Rightarrow> bool" where
  "script_valid x \<longleftrightarrow> length (title x) = 64"

definition blackbox_image :: "blackbox_hdr \<Rightarrow> bytes" where
  "blackbox_image x = le_bytes 4 (magic x) @ le_bytes 4 (uptime x) @ le_bytes 4 (oncnt x) @ evtcnt x
     @ le_bytes 4 (rec_size x) @ le_bytes 4 (block_size x) @ padding x @ le_bytes 4 (bb_crc x)"

definition blackbox_valid :: "blackbox_hdr \<Rightarrow> bool" where
  "blackbox_valid x \<longleftrightarrow> length (evtcnt x) = 12 \<and> length (padding x) = 4"

lemmas image_defs = unit_image_def ident_image_def info_image_def status_image_def script_image_def
  blackbox_image_def
lemmas valid_defs = status_valid_def script_valid_def blackbox_valid_def
lemmas write_defs = pid_write_def [abs_def] unit_write_def [abs_def] ident_write_def [abs_def] info_write_def [abs_def]
  status_write_def [abs_def] script_write_def [abs_def] blackbox_write_def [abs_def]
lemmas read_defs = pid_read_def [abs_def] unit_read_def [abs_def] ident_read_def [abs_def] info_read_def [abs_def]
  status_read_def [abs_def] script_read_def [abs_def] blackbox_read_def [abs_def]

interpretation ident_wire: sized_wire_format "\<lambda>_. True" ident_read ident_write ident_image ident_psize
proof
  fix x old :: node_ident
  show "puts (ident_write x) (ident_image x)"
    unfolding write_defs image_defs by (rule stream_rules)+
  have "old\<lparr> ident_format := ident_format x, ident_hash := ident_hash x, ident_flags := ident_flags x \<rparr> = x" by (cases x; cases old) simp
  moreover have "gets (ident_read old) (ident_image x) (old\<lparr> ident_format := ident_format x, ident_hash := ident_hash x, ident_flags := ident_flags x \<rparr>)"
    unfolding read_defs image_defs by (rule stream_rules)+
  ultimately show "gets (ident_read old) (ident_image x) x" by (simp only:)
  show "safe_get (ident_read old)"
    unfolding read_defs by (rule stream_rules)+
  show "safe_put (ident_write x)"
    unfolding write_defs by (rule stream_rules)+
qed (simp add: image_defs ident_psize_def)

interpretation unit_wire: sized_wire_format "\<lambda>_. True" unit_read unit_write unit_image unit_psize
proof
  fix x old :: unit_ident
  show "puts (unit_write x) (unit_image x)"
    unfolding write_defs image_defs by (rule stream_rules)+
  have "old\<lparr> unit_flags := unit_flags x \<rparr> = x" by (cases x; cases old) simp
  moreover have "gets (unit_read old) (unit_image x) (old\<lparr> unit_flags := unit_flags x \<rparr>)"
    unfolding read_defs image_defs by (rule stream_rules)+
  ultimately show "gets (unit_read old) (unit_image x) x" by (simp only:)
  show "safe_get (unit_read old)"
    unfolding read_defs by (rule stream_rules)+
  show "safe_put (unit_write x)"
    unfolding write_defs by (rule stream_rules)+
qed (simp add: image_defs unit_psize_def)

interpretation info_wire: sized_wire_format "\<lambda>_. True" info_read info_write info_image info_psize
proof
  fix x old :: file_info
  show "puts (info_write x) (info_image x)"
    unfolding write_defs image_defs by (rule stream_rules)+
  have "old\<lparr> fi_size := fi_size x, fi_time := fi_time x, fi_hash := fi_hash x, fi_offset := fi_offset x,
     fi_flags := fi_flags x \<rparr> = x" by (cases x; cases old) simp
  moreover have "gets (info_read old) (info_image x) (old\<lparr> fi_size := fi_size x, fi_time := fi_time x, fi_hash := fi_hash x, fi_offset := fi_offset x,
     fi_flags := fi_flags x \<rparr>)"
    unfolding read_defs image_defs by (rule stream_rules)+
  ultimately show "gets (info_read old) (info_image x) x" by (simp only:)
  show "safe_get (info_read old)"
    unfolding read_defs by (rule stream_rules)+
  show "safe_put (info_write x)"
    unfolding write_defs by (rule stream_rules)+
qed (simp add: image_defs info_psize_def)

interpretation status_wire: wire_format status_valid status_read status_write status_image
proof
  fix x old :: node_status
  show "safe_get (status_read old)"
    unfolding read_defs by (rule stream_rules)+
  assume v: "status_valid x"
  note len = v [unfolded valid_defs]
  show "puts (status_write x) (status_image x)"
    unfolding write_defs image_defs by (rule stream_rules | simp add: len)+
  show "safe_put (status_write x)"
    unfolding write_defs by (rule stream_rules | simp add: len)+
  assume old: "status_valid old"
  have "gets (status_read old) (status_image x) (old\<lparr> err_can := err_can x, err_uart := err_uart x, err_hw := err_hw x, err_rsv := err_rsv x,
     cnt_rx := cnt_rx x, cnt_tx := cnt_tx x, cnt_rsv := cnt_rsv x \<rparr>)"
    unfolding read_defs image_defs by (rule stream_rules | simp add: len old [unfolded valid_defs])+
  moreover have "old\<lparr> err_can := err_can x, err_uart := err_uart x, err_hw := err_hw x, err_rsv := err_rsv x,
     cnt_rx := cnt_rx x, cnt_tx := cnt_tx x, cnt_rsv := cnt_rsv x \<rparr> = x" by (cases x; cases old) simp
  ultimately show "gets (status_read old) (status_image x) x" by (simp only:)
qed

interpretation script_wire: sized_wire_format script_valid script_read script_write script_image script_psize
proof
  fix x old :: script_hdr
  show "safe_get (script_read old)"
    unfolding read_defs by (rule stream_rules)+
  assume v: "script_valid x"
  note len = v [unfolded valid_defs]
  show "puts (script_write x) (script_image x)"
    unfolding write_defs image_defs by (rule stream_rules | simp add: len)+
  show "safe_put (script_write x)"
    unfolding write_defs by (rule stream_rules | simp add: len)+
  show "length (script_image x) = script_psize"
    using v by (simp add: image_defs valid_defs script_psize_def)
  assume old: "script_valid old"
  have "gets (script_read old) (script_image x) (old\<lparr> code_size := code_size x, src_size := src_size x, title := title x \<rparr>)"
    unfolding read_defs image_defs by (rule stream_rules | simp add: len old [unfolded valid_defs])+
  moreover have "old\<lparr> code_size := code_size x, src_size := src_size x, title := title x \<rparr> = x" by (cases x; cases old) simp
  ultimately show "gets (script_read old) (script_image x) x" by (simp only:)
qed

interpretation blackbox_wire: sized_wire_format blackbox_valid blackbox_read blackbox_write blackbox_image blackbox_psize
proof
  fix x old :: blackbox_hdr
  show "safe_get (blackbox_read old)"
    unfolding read_defs by (rule stream_rules)+
  assume v: "blackbox_valid x"
  note len = v [unfolded valid_defs]
  show "puts (blackbox_write x) (blackbox_image x)"
    unfolding write_defs image_defs by (rule stream_rules | simp add: len)+
  show "safe_put (blackbox_write x)"
    unfolding write_defs by (rule stream_rules | simp add: len)+
  show "length (blackbox_image x) = blackbox_psize"
    using v by (simp add: image_defs valid_defs blackbox_psize_def)
  assume old: "blackbox_valid old"
  have "gets (blackbox_read old) (blackbox_image x) (old\<lparr> magic := magic x, uptime := uptime x, oncnt := oncnt x, evtcnt := evtcnt x,
     rec_size := rec_size x, block_size := block_size x, padding := padding x, bb_crc := bb_crc x \<rparr>)"
    unfolding read_defs image_defs by (rule stream_rules | simp add: len old [unfolded valid_defs])+
  moreover have "old\<lparr> magic := magic x, uptime := uptime x, oncnt := oncnt x, evtcnt := evtcnt x,
     rec_size := rec_size x, block_size := block_size x, padding := padding x, bb_crc := bb_crc x \<rparr> = x" by (cases x; cases old) simp
  ultimately show "gets (blackbox_read old) (blackbox_image x) x" by (simp only:)
qed

interpretation pid_wire: sized_wire_format "\<lambda>_. True" pid_read pid_write "le_bytes 2" pid_psize
proof
  fix x old :: pid_s
  show "puts (pid_write x) (le_bytes 2 x)" "safe_put (pid_write x)" "safe_get (pid_read old)"
    unfolding write_defs read_defs by (rule stream_rules)+
  have "gets (pid_read old) (le_bytes 2 x) x"
    unfolding read_defs by (rule gets_last [where f = "\<lambda>v. v"]) (rule stream_rules)
  then show "gets (pid_read old) (le_bytes 2 x) x" .
qed (simp add: pid_psize_def)

lemma status_short:
  assumes "status_valid x" "status_valid old" "length bs = 4"
  shows "\<exists>s r. status_write x (writer_make bs 4) = Some ((), s)
    \<and> status_read old (reader_make (w_buf s) 4) = Some (r, reader_make (w_buf s) 4\<lparr> r_pos := 4 \<rparr>)
    \<and> cnt_rx r = 0 \<and> cnt_tx r = 0"
proof -
  obtain a b c d where bs: "bs = [a, b, c, d]"
    using assms(3) by (auto simp: numeral_eq_Suc length_Suc_conv)
  obtain e es where rsv: "err_rsv x = e # es" "length es = 4"
    using assms(1) by (cases "err_rsv x") (auto simp: status_valid_def)
  have len: "length (err_rsv old) = 5" "length (cnt_rsv old) = 6" "length (cnt_rsv x) = 6"
    using assms by (simp_all add: status_valid_def)
  have "status_write x (writer_make bs 4)
      = Some ((), \<lparr> w_buf = [err_can x, err_uart x, err_hw x, e], w_size = 4, w_pos = 4 \<rparr>)"
    by (simp add: bs rsv len status_write_def writer_make_def write_u8_def write_le_def w_put_def
        write_mem_def w_available_def le_bytes_def blit_def Let_def)
  moreover have "\<exists>r. status_read old (reader_make [err_can x, err_uart x, err_hw x, e] 4)
      = Some (r, reader_make [err_can x, err_uart x, err_hw x, e] 4\<lparr> r_pos := 4 \<rparr>) \<and> cnt_rx r = 0 \<and> cnt_tx r = 0"
    by (simp add: len status_read_def reader_make_def read_u8_def read_le_def read_arr_def
        read_mem_def r_available_def blit_def Let_def)
  ultimately show ?thesis by auto
qed

lemma pid_masks: "(0x7FF :: u16) = mask 11" "(7 :: u16) = mask 3" "(3 :: u16) = mask 2"
  "(7 :: u8) = mask 3" "(3 :: u8) = mask 2"
  by (simp_all add: mask_eq_exp_minus_1)

lemma pid_uid_make: "pid_uid (pid_make uid pri sq) = uid AND 0x7FF"
  unfolding pid_uid_def pid_make_def pid_masks by (rule bit_word_eqI) (auto simp: bit_simps)

lemma pid_pri_make: "pid_pri (pid_make uid pri sq) = pri AND 7"
  unfolding pid_pri_def pid_make_def pid_masks by (rule bit_word_eqI) (auto simp: bit_simps)

lemma pid_seq_make: "pid_seq (pid_make uid pri sq) = sq AND 3"
  unfolding pid_seq_def pid_make_def pid_masks by (rule bit_word_eqI) (auto simp: bit_simps)

lemma pid_make_fields: "pid_make (pid_uid pid) (pid_pri pid) (pid_seq pid) = pid"
proof (rule bit_word_eqI)
  fix n assume "n < LENGTH(16)"
  then consider "n < 11" | "11 \<le> n" "n < 14" | "14 \<le> n" "n < 16" by fastforce
  then show "bit (pid_make (pid_uid pid) (pid_pri pid) (pid_seq pid)) n = bit pid n"
    unfolding pid_pri_def pid_seq_def pid_uid_def pid_make_def pid_masks
    by cases (auto simp: bit_simps)
qed

subsection \<open>Properties\<close>

text \<open>
  Writing \<open>x\<close> into the buffer \<open>buf\<close> and reading back what was written, over the
  structure \<open>old\<close>, transfers \<open>n\<close> bytes and returns \<open>x\<close> with nothing left over.
\<close>

definition roundtrips ::
  "('a \<Rightarrow> reader \<Rightarrow> ('a \<times> reader) option) \<Rightarrow> ('a \<Rightarrow> writer \<Rightarrow> (unit \<times> writer) option) \<Rightarrow> nat \<Rightarrow>
   'a \<Rightarrow> 'a \<Rightarrow> bytes \<Rightarrow> bool" where
  "roundtrips rd wr n old x buf \<longleftrightarrow>
     (\<exists>s r. wr x (writer_make buf (length buf)) = Some ((), s) \<and> w_pos s = n \<and>
        rd old (reader_make (w_buf s) n) = Some (x, r) \<and> r_rest r = [])"

text \<open>
  A node status transfers sixteen bytes, although \<open>psize()\<close> says four: with room for
  sixteen it reads back unchanged, and a buffer of \<open>psize()\<close> bytes loses the counters.
\<close>

theorem status_size_mismatch:
  assumes "16 \<le> length buf" "length buf < mem_max" "status_valid x" "status_valid old"
  shows "roundtrips status_read status_write 16 old x buf \<and> status_psize = 4
    \<and> (\<exists>s r. status_write x (writer_make (take 4 buf) 4) = Some ((), s)
          \<and> status_read old (reader_make (w_buf s) 4) = Some (r, reader_make (w_buf s) 4\<lparr> r_pos := 4 \<rparr>)
          \<and> cnt_rx r = 0 \<and> cnt_tx r = 0)"
proof -
  have len: "length (status_image x) = 16" using assms(3) by (simp add: status_image_def status_valid_def)
  have "roundtrips status_read status_write 16 old x buf"
    using status_wire.write_then_read [OF assms(3,4) _ assms(2)] assms(1)
    unfolding roundtrips_def len by metis
  moreover have "\<exists>s r. status_write x (writer_make (take 4 buf) 4) = Some ((), s)
          \<and> status_read old (reader_make (w_buf s) 4) = Some (r, reader_make (w_buf s) 4\<lparr> r_pos := 4 \<rparr>)
          \<and> cnt_rx r = 0 \<and> cnt_tx r = 0"
    using assms by (intro status_short) simp_all
  ultimately show ?thesis by (simp add: status_psize_def)
qed

theorem status_size_mismatch_witness:
  "roundtrips status_read status_write 16
     \<lparr> err_can = 0, err_uart = 0, err_hw = 0, err_rsv = replicate 5 0, cnt_rx = 0, cnt_tx = 0, cnt_rsv = replicate 6 0 \<rparr>
     \<lparr> err_can = 1, err_uart = 2, err_hw = 3, err_rsv = replicate 5 0, cnt_rx = 9, cnt_tx = 8, cnt_rsv = replicate 6 0 \<rparr>
     (replicate 16 0)"
  using status_size_mismatch by (simp add: status_valid_def)

text \<open>
  C26: a packet identifier, unit identity, node identity, file information, script header or black
  box header written to a buffer with room for it occupies exactly \<open>psize()\<close> bytes and reads back
  unchanged, whatever the structure read into held before.  A node status does not: it occupies
  sixteen bytes and reads back from them, but its \<open>psize()\<close> is four, and a buffer of that size loses
  its counters.
\<close>

theorem structures_roundtrip:
  assumes "72 \<le> length buf" "length buf < mem_max"
    "script_valid h" "script_valid h'" "blackbox_valid b" "blackbox_valid b'" "status_valid t" "status_valid t'"
  shows "roundtrips pid_read pid_write pid_psize p' p buf
    \<and> roundtrips unit_read unit_write unit_psize u' u buf
    \<and> roundtrips ident_read ident_write ident_psize i' i buf
    \<and> roundtrips info_read info_write info_psize f' f buf
    \<and> roundtrips script_read script_write script_psize h' h buf
    \<and> roundtrips blackbox_read blackbox_write blackbox_psize b' b buf
    \<and> roundtrips status_read status_write 16 t' t buf \<and> status_psize = 4
    \<and> (\<exists>s r. status_write t (writer_make (take 4 buf) 4) = Some ((), s)
          \<and> status_read t' (reader_make (w_buf s) 4) = Some (r, reader_make (w_buf s) 4\<lparr> r_pos := 4 \<rparr>)
          \<and> cnt_rx r = 0 \<and> cnt_tx r = 0)"
proof -
  have "roundtrips pid_read pid_write pid_psize p' p buf
    \<and> roundtrips unit_read unit_write unit_psize u' u buf
    \<and> roundtrips ident_read ident_write ident_psize i' i buf
    \<and> roundtrips info_read info_write info_psize f' f buf
    \<and> roundtrips script_read script_write script_psize h' h buf
    \<and> roundtrips blackbox_read blackbox_write blackbox_psize b' b buf"
    unfolding roundtrips_def using assms
    by (intro conjI pid_wire.write_then_read_psize unit_wire.write_then_read_psize
        ident_wire.write_then_read_psize info_wire.write_then_read_psize
        script_wire.write_then_read_psize blackbox_wire.write_then_read_psize)
      (simp_all add: pid_psize_def unit_psize_def ident_psize_def info_psize_def script_psize_def
        blackbox_psize_def)
  moreover have "16 \<le> length buf" using assms(1) by simp
  ultimately show ?thesis using status_size_mismatch [OF _ assms(2,7,8)] by blast
qed

theorem structures_roundtrip_witness:
  "roundtrips ident_read ident_write ident_psize
     \<lparr> ident_format = 0, ident_hash = 0, ident_flags = 0 \<rparr>
     \<lparr> ident_format = 1, ident_hash = 0xDEADBEEF, ident_flags = 0x21 \<rparr> (replicate 72 0)
   \<and> roundtrips status_read status_write 16
     \<lparr> err_can = 0, err_uart = 0, err_hw = 0, err_rsv = replicate 5 0, cnt_rx = 0, cnt_tx = 0, cnt_rsv = replicate 6 0 \<rparr>
     \<lparr> err_can = 1, err_uart = 2, err_hw = 3, err_rsv = replicate 5 0, cnt_rx = 9, cnt_tx = 8, cnt_rsv = replicate 6 0 \<rparr>
     (replicate 72 0)"
  using structures_roundtrip [of "replicate 72 0"
      "\<lparr> code_size = 0, src_size = 0, title = replicate 64 0 \<rparr>"
      "\<lparr> code_size = 0, src_size = 0, title = replicate 64 0 \<rparr>"
      "\<lparr> magic = 0, uptime = 0, oncnt = 0, evtcnt = replicate 12 0, rec_size = 0, block_size = 0,
         padding = replicate 4 0, bb_crc = 0 \<rparr>"
      "\<lparr> magic = 0, uptime = 0, oncnt = 0, evtcnt = replicate 12 0, rec_size = 0, block_size = 0,
         padding = replicate 4 0, bb_crc = 0 \<rparr>"
      "\<lparr> err_can = 1, err_uart = 2, err_hw = 3, err_rsv = replicate 5 0, cnt_rx = 9, cnt_tx = 8, cnt_rsv = replicate 6 0 \<rparr>"
      "\<lparr> err_can = 0, err_uart = 0, err_hw = 0, err_rsv = replicate 5 0, cnt_rx = 0, cnt_tx = 0, cnt_rsv = replicate 6 0 \<rparr>"]
  by (simp add: script_valid_def blackbox_valid_def status_valid_def)

text \<open>
  The packet identifier packs the dictionary index, the priority and the sequence counter
  into disjoint fields of its 16 bits: each reads back what was stored, cut to its width, the three
  determine the identifier, and two identifiers match iff their dictionary indices agree.
\<close>

theorem pid_fields:
  "pid_uid (pid_make uid pri sq) = uid AND 0x7FF
   \<and> pid_pri (pid_make uid pri sq) = pri AND 7
   \<and> pid_seq (pid_make uid pri sq) = sq AND 3
   \<and> pid_make (pid_uid pid) (pid_pri pid) (pid_seq pid) = pid
   \<and> (pid_match (pid_make u p q) (pid_make u' p' q') \<longleftrightarrow> u AND 0x7FF = u' AND 0x7FF)"
  by (simp only: pid_uid_make pid_pri_make pid_seq_make pid_make_fields pid_match_def simp_thms)

end
