(* ===== verification/Cobs.thy ===== *)
theory Cobs
  imports Crc32 "HOL-Library.Monad_Syntax"
begin

text \<open>
  \<open>xbus/serial/CobsEncoder.h\<close> and \<open>CobsDecoder.h\<close> behind \<open>SerialCodec.h\<close>: packets
  framed by consistent overhead byte stuffing, each with the low half of the CRC-32 of its payload.
  The template parameters are arguments: \<open>P\<close> is \<open>_packet_size\<close>, \<open>esc\<close> is
  \<open>_esc\<close>.  The encoder has no overflow checks, so a store outside its buffer is
  \<open>None\<close> in the model.
\<close>

unbundle bit_operations_syntax

subsection \<open>CobsEncoder\<close>

text \<open>\<open>overhead()\<close> and the size of \<open>_buf\<close>.\<close>

definition enc_overhead :: "nat \<Rightarrow> nat" where
  "enc_overhead P = (let stream = P + 2 in 2 + (stream + 253) div 254 + 1)"

definition enc_buf_size :: "nat \<Rightarrow> nat" where
  "enc_buf_size P = P + enc_overhead P"

text \<open>
  The bytes stored so far (\<open>dest\<close> is their number), the index \<open>code_ptr\<close> points to and
  the running \<open>code\<close>.
\<close>

record cobs_enc =
  e_out :: bytes
  e_code_ptr :: nat
  e_code :: u8

text \<open>\<open>*dest++ = c\<close> in a buffer of \<open>N\<close> bytes.\<close>

definition enc_store :: "nat \<Rightarrow> u8 \<Rightarrow> cobs_enc \<Rightarrow> cobs_enc option" where
  "enc_store N c s = (if length (e_out s) < N then Some (s\<lparr> e_out := e_out s @ [c] \<rparr>) else None)"

definition enc_finish_block :: "cobs_enc \<Rightarrow> cobs_enc" where
  "enc_finish_block s = s\<lparr> e_out := (e_out s)[e_code_ptr s := e_code s] \<rparr>"

definition enc_start_block :: "nat \<Rightarrow> cobs_enc \<Rightarrow> cobs_enc option" where
  "enc_start_block N s = enc_store N 1 (s\<lparr> e_code_ptr := length (e_out s), e_code := 1 \<rparr>)"

definition enc_next_block :: "nat \<Rightarrow> cobs_enc \<Rightarrow> cobs_enc option" where
  "enc_next_block N s = enc_start_block N (enc_finish_block s)"

definition enc_data_byte :: "nat \<Rightarrow> u8 \<Rightarrow> cobs_enc \<Rightarrow> cobs_enc option" where
  "enc_data_byte N c s = enc_store N c (s\<lparr> e_code := e_code s + 1 \<rparr>)"

lemma enc_next_block_code: "enc_next_block N s = Some s' \<Longrightarrow> e_code s' = 1"
  by (auto simp: enc_next_block_def enc_start_block_def enc_store_def split: if_splits)

text \<open>The copying loop, used for the data and again for the two bytes of the CRC.\<close>

function cobs_copy :: "nat \<Rightarrow> u8 \<Rightarrow> bytes \<Rightarrow> cobs_enc \<Rightarrow> cobs_enc option" where
  "cobs_copy N esc [] s = Some s"
| "cobs_copy N esc (c # cs) s =
     (if e_code s \<noteq> 0xFF then
        if c \<noteq> esc
        then (case enc_data_byte N c s of None \<Rightarrow> None | Some s' \<Rightarrow> cobs_copy N esc cs s')
        else (case enc_next_block N s of None \<Rightarrow> None | Some s' \<Rightarrow> cobs_copy N esc cs s')
      else (case enc_next_block N s of None \<Rightarrow> None | Some s' \<Rightarrow> cobs_copy N esc (c # cs) s'))"
  by pat_completeness auto
termination
  by (relation "measure (\<lambda>(N, esc, cs, s). 2 * length cs + (if e_code s = 0xFF then 1 else 0))")
    (auto dest: enc_next_block_code)

text \<open>
  The checksum of a packet.  Its value does not depend on what lies behind the data, but the last word is
  loaded whole (\<open>CRC32_SW_local\<close>): of a packet whose length is not a multiple of four, up to three bytes
  behind it are read and masked out.
\<close>

definition packet_crc16 :: "bytes \<Rightarrow> u16" where
  "packet_crc16 src = ucast (crc32 src crc32_init)"

text \<open>\<open>encode\<close>: the frame left in the buffer.\<close>

definition cobs_encode :: "nat \<Rightarrow> u8 \<Rightarrow> bytes \<Rightarrow> bytes option" where
  "cobs_encode P esc src = do {
     let N = enc_buf_size P;
     s \<leftarrow> enc_start_block N \<lparr> e_out = [], e_code_ptr = 0, e_code = 1 \<rparr>;
     s \<leftarrow> cobs_copy N esc src s;
     s \<leftarrow> cobs_copy N esc (le_bytes 2 (packet_crc16 src)) s;
     s \<leftarrow> enc_store N esc (enc_finish_block s);
     Some (e_out s)
   }"

subsection \<open>CobsDecoder\<close>

datatype dec_status = Unknown | PacketAvailable | DataAccepted | DataDropped
  | ErrorOverflow | ErrorSize | ErrorCRC

record cobs_dec =
  d_buf :: bytes
  d_rsize :: nat
  d_rcnt :: nat
  d_code :: u8
  d_copy :: u8
  d_status :: dec_status

definition dec_overhead :: nat where
  "dec_overhead = 2"

text \<open>A constructed decoder; \<open>mem\<close> is what its buffer happens to hold.\<close>

definition cobs_dec_make :: "bytes \<Rightarrow> cobs_dec" where
  "cobs_dec_make mem =
     \<lparr> d_buf = mem, d_rsize = 0, d_rcnt = 0, d_code = 0xFF, d_copy = 0, d_status = Unknown \<rparr>"

definition dec_restart :: "cobs_dec \<Rightarrow> cobs_dec" where
  "dec_restart s = s\<lparr> d_code := 0xFF, d_copy := 0, d_rcnt := 0 \<rparr>"

definition dec_fail :: "dec_status \<Rightarrow> cobs_dec \<Rightarrow> cobs_dec" where
  "dec_fail st s = dec_restart (s\<lparr> d_status := st \<rparr>)"

definition dec_reset :: "cobs_dec \<Rightarrow> cobs_dec" where
  "dec_reset s = dec_restart (s\<lparr> d_status := Unknown \<rparr>)"

definition write_decoded_byte :: "nat \<Rightarrow> u8 \<Rightarrow> cobs_dec \<Rightarrow> cobs_dec option" where
  "write_decoded_byte P c s =
     (if d_rcnt s \<ge> P + dec_overhead then None
      else Some (s\<lparr> d_buf := (d_buf s)[d_rcnt s := c], d_rcnt := d_rcnt s + 1 \<rparr>))"

text \<open>The delimiter branch of the loop; the flag says that a packet is available.\<close>

definition dec_delimiter :: "cobs_dec \<Rightarrow> bool \<times> cobs_dec" where
  "dec_delimiter s =
     (if d_copy s \<noteq> 0 then (False, dec_fail ErrorSize s)
      else if d_rcnt s \<le> 2 then (False, dec_fail ErrorSize s)
      else
        let s = s\<lparr> d_rcnt := d_rcnt s - 2 \<rparr>;
            packet_crc = ucast (d_buf s ! d_rcnt s) OR push_bit 8 (ucast (d_buf s ! (d_rcnt s + 1)) :: u16)
        in if packet_crc \<noteq> packet_crc16 (take (d_rcnt s) (d_buf s)) then (False, dec_fail ErrorCRC s)
           else (True, dec_restart (s\<lparr> d_rsize := d_rcnt s, d_status := PacketAvailable \<rparr>)))"

text \<open>The other branch: a data byte of the running block, or the code byte of the next one.\<close>

definition dec_data :: "nat \<Rightarrow> u8 \<Rightarrow> u8 \<Rightarrow> cobs_dec \<Rightarrow> cobs_dec" where
  "dec_data P esc c s =
     (if d_copy s \<noteq> 0 then
        (case write_decoded_byte P c s of
           None \<Rightarrow> dec_fail ErrorOverflow s
         | Some s \<Rightarrow> s\<lparr> d_copy := d_copy s - 1 \<rparr>)
      else if d_code s \<noteq> 0xFF then
        (case write_decoded_byte P esc s of
           None \<Rightarrow> dec_fail ErrorOverflow s
         | Some s \<Rightarrow> s\<lparr> d_code := c, d_copy := c - 1 \<rparr>)
      else s\<lparr> d_code := c, d_copy := c - 1 \<rparr>)"

definition dec_byte :: "nat \<Rightarrow> u8 \<Rightarrow> u8 \<Rightarrow> cobs_dec \<Rightarrow> bool \<times> cobs_dec" where
  "dec_byte P esc c s = (if c = esc then dec_delimiter s else (False, dec_data P esc c s))"

text \<open>The loop of \<open>decode\<close>: whether a packet ended it, the unread bytes, and the new state.\<close>

fun dec_loop :: "nat \<Rightarrow> u8 \<Rightarrow> bytes \<Rightarrow> cobs_dec \<Rightarrow> bool \<times> bytes \<times> cobs_dec" where
  "dec_loop P esc [] s = (False, [], s)"
| "dec_loop P esc (c # cs) s =
     (case dec_byte P esc c s of
        (True, s) \<Rightarrow> (True, cs, s)
      | (False, s) \<Rightarrow> dec_loop P esc cs s)"

definition cobs_decode :: "nat \<Rightarrow> u8 \<Rightarrow> bytes \<Rightarrow> cobs_dec \<Rightarrow> nat \<times> cobs_dec" where
  "cobs_decode P esc src s =
     (case dec_loop P esc src (s\<lparr> d_status := Unknown \<rparr>) of
        (True, rest, s) \<Rightarrow> (length src - length rest, s)
      | (False, rest, s) \<Rightarrow>
          (length src,
           if d_status s = Unknown then s\<lparr> d_status := (if src \<noteq> [] then DataAccepted else DataDropped) \<rparr>
           else s))"

text \<open>\<open>data()\<close> and \<open>size()\<close> of an available packet.\<close>

definition cobs_packet :: "cobs_dec \<Rightarrow> bytes option" where
  "cobs_packet s = (if d_status s = PacketAvailable then Some (take (d_rsize s) (d_buf s)) else None)"

subsection \<open>Frames as lists of blocks\<close>

text \<open>
  A frame is a sequence of blocks of at most 254 bytes without the delimiter, each behind its code
  byte.  A block stands for its bytes and, unless it is full, a delimiter; the last one for its
  bytes only.
\<close>

definition block_bytes :: "bytes \<Rightarrow> bytes" where
  "block_bytes b = of_nat (length b + 1) # b"

definition block_ok :: "u8 \<Rightarrow> bytes \<Rightarrow> bool" where
  "block_ok esc b \<longleftrightarrow> length b \<le> 254 \<and> esc \<notin> set b"

definition block_data :: "u8 \<Rightarrow> bytes \<Rightarrow> bytes" where
  "block_data esc b = b @ (if length b = 254 then [] else [esc])"

definition stream_of :: "u8 \<Rightarrow> bytes list \<Rightarrow> bytes \<Rightarrow> bytes" where
  "stream_of esc bs b = concat (map (block_data esc) bs) @ b"

definition full_blocks :: "bytes list \<Rightarrow> nat" where
  "full_blocks bs = length (filter (\<lambda>b. length b = 254) bs)"

lemma stream_of_simps [simp]:
  "stream_of esc [] b = b"
  "stream_of esc (b' # bs) b = block_data esc b' @ stream_of esc bs b"
  by (simp_all add: stream_of_def)

lemma length_block_bytes [simp]: "length (block_bytes b) = length b + 1"
  by (simp add: block_bytes_def)

lemma length_blocks:
  "\<forall>b \<in> set bs. block_ok esc b \<Longrightarrow>
     length (concat (map block_bytes bs)) = length (concat (map (block_data esc) bs)) + full_blocks bs"
  by (induction bs) (auto simp: block_bytes_def block_data_def full_blocks_def)

lemma full_blocks_le: "254 * full_blocks bs \<le> length (concat (map (block_data esc) bs))"
  by (induction bs) (auto simp: block_data_def full_blocks_def)

subsection \<open>The encoder builds blocks\<close>

definition enc_shape :: "u8 \<Rightarrow> bytes list \<Rightarrow> bytes \<Rightarrow> cobs_enc \<Rightarrow> bool" where
  "enc_shape esc bs b s \<longleftrightarrow> (\<exists>x. e_out s = concat (map block_bytes bs) @ x # b) \<and>
     e_code_ptr s = length (concat (map block_bytes bs)) \<and> e_code s = of_nat (length b + 1) \<and>
     block_ok esc b \<and> (\<forall>b \<in> set bs. block_ok esc b)"

text \<open>\<open>dn\<close> is the part of the stream already consumed.\<close>

definition enc_inv :: "u8 \<Rightarrow> bytes \<Rightarrow> cobs_enc \<Rightarrow> bool" where
  "enc_inv esc dn s \<longleftrightarrow> (\<exists>bs b. enc_shape esc bs b s \<and> stream_of esc bs b = dn \<and>
     254 * full_blocks bs \<le> length dn - 1)"

lemma length_out_shape:
  "enc_shape esc bs b s \<Longrightarrow> length (e_out s) = 1 + length (stream_of esc bs b) + full_blocks bs"
  by (auto simp: enc_shape_def stream_of_def length_blocks)

lemma code_full: "length b \<le> 254 \<Longrightarrow> (of_nat (length b + 1) :: u8) = 0xFF \<longleftrightarrow> length b = 254"
proof -
  assume b: "length b \<le> 254"
  have "(of_nat (length b + 1) :: u8) = of_nat 255 \<longleftrightarrow> length b + 1 = 255"
    using b by (subst word_of_nat_eq_iff) (simp add: take_bit_nat_def)
  then show ?thesis by simp
qed

lemma enc_next_block_shape:
  assumes "enc_shape esc bs b s" "length (e_out s) < N"
  shows "\<exists>s'. enc_next_block N s = Some s' \<and> enc_shape esc (bs @ [b]) [] s'"
proof -
  obtain x where x: "e_out s = concat (map block_bytes bs) @ x # b"
    using assms(1) by (auto simp: enc_shape_def)
  then have "(e_out s)[e_code_ptr s := e_code s] = concat (map block_bytes (bs @ [b]))"
    using assms(1) by (simp add: enc_shape_def block_bytes_def)
  then show ?thesis
    using assms
    by (auto simp: enc_next_block_def enc_start_block_def enc_finish_block_def enc_store_def
        enc_shape_def block_ok_def)
qed

lemma enc_data_byte_shape:
  assumes "enc_shape esc bs b s" "length (e_out s) < N" "c \<noteq> esc" "length b < 254"
  shows "\<exists>s'. enc_data_byte N c s = Some s' \<and> enc_shape esc bs (b @ [c]) s'"
  using assms by (auto simp: enc_data_byte_def enc_store_def enc_shape_def block_ok_def)

text \<open>One byte of the stream, with the block change that may precede it.\<close>

lemma cobs_copy_byte:
  assumes "enc_inv esc dn s" "length dn + length dn div 254 + 2 \<le> N"
  shows "\<exists>s'. cobs_copy N esc (c # cs) s = cobs_copy N esc cs s' \<and> enc_inv esc (dn @ [c]) s'"
proof -
  obtain bs b where sh: "enc_shape esc bs b s" and dn: "stream_of esc bs b = dn"
    and full: "254 * full_blocks bs \<le> length dn - 1"
    using assms(1) by (auto simp: enc_inv_def)
  have fd: "full_blocks bs \<le> length dn div 254" using full by auto
  have room: "length (e_out s) < N" using length_out_shape [OF sh] dn fd assms(2) by auto
  have code: "e_code s = 0xFF \<longleftrightarrow> length b = 254" and b: "length b \<le> 254"
    using sh code_full [of b] by (auto simp: enc_shape_def block_ok_def)
  show ?thesis
  proof (cases "length b = 254")
    case False
    show ?thesis
    proof (cases "c = esc")
      case True
      obtain s' where s': "enc_next_block N s = Some s'" "enc_shape esc (bs @ [b]) [] s'"
        using enc_next_block_shape [OF sh room] by blast
      have "stream_of esc (bs @ [b]) [] = dn @ [c]"
        using dn False True by (auto simp: stream_of_def block_data_def)
      moreover have "full_blocks (bs @ [b]) = full_blocks bs" using False by (simp add: full_blocks_def)
      ultimately have "enc_inv esc (dn @ [c]) s'"
        using s'(2) full unfolding enc_inv_def by (intro exI [of _ "bs @ [b]"] exI [of _ "[]"]) auto
      then show ?thesis using s'(1) True False code by auto
    next
      case False': False
      obtain s' where s': "enc_data_byte N c s = Some s'" "enc_shape esc bs (b @ [c]) s'"
        using enc_data_byte_shape [OF sh room False'] False b by auto
      have "stream_of esc bs (b @ [c]) = dn @ [c]" using dn by (auto simp: stream_of_def)
      then have "enc_inv esc (dn @ [c]) s'"
        using s'(2) full unfolding enc_inv_def by (intro exI [of _ bs] exI [of _ "b @ [c]"]) auto
      then show ?thesis using s'(1) False False' code by auto
    qed
  next
    case True
    obtain s1 where s1: "enc_next_block N s = Some s1" "enc_shape esc (bs @ [b]) [] s1"
      using enc_next_block_shape [OF sh room] by blast
    have dn1: "stream_of esc (bs @ [b]) [] = dn" using dn True by (auto simp: stream_of_def block_data_def)
    have c: "concat (map (block_data esc) (bs @ [b])) = dn"
      using dn1 by (simp only: stream_of_def append_Nil2)
    have full1: "254 * full_blocks (bs @ [b]) \<le> length dn"
      using full_blocks_le [of "bs @ [b]" esc] unfolding c .
    then have "full_blocks (bs @ [b]) \<le> length dn div 254" by auto
    then have room1: "length (e_out s1) < N" using length_out_shape [OF s1(2)] dn1 assms(2) by auto
    have code1: "e_code s1 \<noteq> 0xFF" using enc_next_block_code [OF s1(1)] by simp
    show ?thesis
    proof (cases "c = esc")
      case esc: True
      obtain s' where s': "enc_next_block N s1 = Some s'" "enc_shape esc ((bs @ [b]) @ [[]]) [] s'"
        using enc_next_block_shape [OF s1(2) room1] by blast
      have "stream_of esc ((bs @ [b]) @ [[]]) [] = dn @ [c]"
        using dn1 esc by (auto simp: stream_of_def block_data_def)
      moreover have "full_blocks ((bs @ [b]) @ [[]]) = full_blocks (bs @ [b])" by (simp add: full_blocks_def)
      ultimately have "enc_inv esc (dn @ [c]) s'"
        using s'(2) full1 unfolding enc_inv_def
        by (intro exI [of _ "(bs @ [b]) @ [[]]"] exI [of _ "[]"]) auto
      then show ?thesis using s1(1) s'(1) True code code1 esc by auto
    next
      case esc: False
      obtain s' where s': "enc_data_byte N c s1 = Some s'" "enc_shape esc (bs @ [b]) ([] @ [c]) s'"
        using enc_data_byte_shape [OF s1(2) room1 esc] by auto
      have "stream_of esc (bs @ [b]) ([] @ [c]) = dn @ [c]" using dn1 by (auto simp: stream_of_def)
      then have "enc_inv esc (dn @ [c]) s'"
        using s'(2) full1 unfolding enc_inv_def
        by (intro exI [of _ "bs @ [b]"] exI [of _ "[] @ [c]"]) auto
      then show ?thesis using s1(1) s'(1) True code code1 esc by auto
    qed
  qed
qed

lemma cobs_copy_inv:
  assumes "enc_inv esc dn s" "length (dn @ cs) + (length (dn @ cs) - 1) div 254 + 1 \<le> N"
  shows "\<exists>s'. cobs_copy N esc cs s = Some s' \<and> enc_inv esc (dn @ cs) s'"
  using assms
proof (induction cs arbitrary: dn s)
  case Nil
  then show ?case by simp
next
  case (Cons c cs)
  have "length dn div 254 \<le> (length (dn @ c # cs) - 1) div 254" by (intro div_le_mono) simp
  then have "length dn + length dn div 254 + 2 \<le> N" using Cons.prems(2) by simp
  then obtain s1 where s1: "cobs_copy N esc (c # cs) s = cobs_copy N esc cs s1" "enc_inv esc (dn @ [c]) s1"
    using cobs_copy_byte [OF Cons.prems(1), of N c cs] by blast
  show ?case
    unfolding s1(1) using Cons.IH [OF s1(2)] Cons.prems(2) by simp
qed

text \<open>The frame of a stream: its blocks and the delimiter, within the size the buffer has.\<close>

definition frame_of :: "u8 \<Rightarrow> bytes \<Rightarrow> bytes \<Rightarrow> bool" where
  "frame_of esc st out \<longleftrightarrow> (\<exists>bs b. (\<forall>b \<in> set (bs @ [b]). block_ok esc b) \<and> stream_of esc bs b = st \<and>
     out = concat (map block_bytes (bs @ [b])) @ [esc] \<and>
     length out \<le> length st + (length st - 1) div 254 + 2)"

definition with_crc :: "bytes \<Rightarrow> bytes" where
  "with_crc src = src @ le_bytes 2 (packet_crc16 src)"

lemma length_with_crc [simp]: "length (with_crc src) = length src + 2"
  by (simp add: with_crc_def)

lemma cobs_encode_frame:
  assumes "length src \<le> P"
  shows "\<exists>out. cobs_encode P esc src = Some out \<and> frame_of esc (with_crc src) out"
proof -
  let ?N = "enc_buf_size P" and ?crc = "le_bytes 2 (packet_crc16 src)"
  have N: "(length src + 2) + (length src + 1) div 254 + 2 \<le> ?N"
  proof -
    have "(length src + 1) div 254 \<le> (P + 1) div 254" using assms by (intro div_le_mono) simp
    moreover have "(P + 2 + 253) div 254 = (P + 1) div 254 + 1" by simp
    ultimately show ?thesis using assms by (simp add: enc_buf_size_def enc_overhead_def Let_def)
  qed
  let ?s0 = "\<lparr> e_out = [1], e_code_ptr = 0, e_code = 1 \<rparr> :: cobs_enc"
  have s0: "enc_start_block ?N \<lparr> e_out = [], e_code_ptr = 0, e_code = 1 \<rparr> = Some ?s0"
    using N by (simp add: enc_start_block_def enc_store_def)
  have "enc_shape esc [] [] ?s0" by (simp add: enc_shape_def block_ok_def)
  then have i0: "enc_inv esc [] ?s0"
    unfolding enc_inv_def by (intro exI [of _ "[]"]) (simp add: full_blocks_def)
  have "(length src - 1) div 254 \<le> (length src + 1) div 254" by (intro div_le_mono) simp
  then obtain s1 where s1: "cobs_copy ?N esc src ?s0 = Some s1" "enc_inv esc src s1"
    using cobs_copy_inv [OF i0, of src ?N] N by auto
  then obtain s2 where s2: "cobs_copy ?N esc ?crc s1 = Some s2" "enc_inv esc (with_crc src) s2"
    using cobs_copy_inv [OF s1(2), of ?crc ?N] N unfolding with_crc_def by auto
  obtain bs b where sh: "enc_shape esc bs b s2" and st: "stream_of esc bs b = with_crc src"
    and full: "254 * full_blocks bs \<le> length src + 1"
    using s2(2) by (auto simp: enc_inv_def)
  have len: "length (e_out s2) = length src + 3 + full_blocks bs"
    using length_out_shape [OF sh] st by simp
  have fin: "e_out (enc_finish_block s2) = concat (map block_bytes (bs @ [b]))"
    using sh by (auto simp: enc_shape_def enc_finish_block_def block_bytes_def)
  have len': "length (e_out (enc_finish_block s2)) = length (e_out s2)" by (simp add: enc_finish_block_def)
  have "full_blocks bs \<le> (length src + 1) div 254" using full by auto
  then have fits: "length (e_out s2) + 1 \<le> length src + 2 + (length src + 1) div 254 + 2" using len by simp
  then have "enc_store ?N esc (enc_finish_block s2)
      = Some ((enc_finish_block s2)\<lparr> e_out := concat (map block_bytes (bs @ [b])) @ [esc] \<rparr>)"
    using N len' unfolding enc_store_def fin [symmetric] by simp
  then have "cobs_encode P esc src = Some (concat (map block_bytes (bs @ [b])) @ [esc])"
    by (simp add: cobs_encode_def s0 s1(1) s2(1) Let_def)
  moreover have "frame_of esc (with_crc src) (concat (map block_bytes (bs @ [b])) @ [esc])"
    unfolding frame_of_def
  proof (intro exI conjI)
    show "\<forall>b \<in> set (bs @ [b]). block_ok esc b" using sh by (auto simp: enc_shape_def)
    show "length (concat (map block_bytes (bs @ [b])) @ [esc])
        \<le> length (with_crc src) + (length (with_crc src) - 1) div 254 + 2"
      using fits len' fin by simp
  qed (use st in simp_all)
  ultimately show ?thesis by blast
qed

subsection \<open>The decoder collects blocks\<close>

definition dec_ok :: "nat \<Rightarrow> cobs_dec \<Rightarrow> bool" where
  "dec_ok P s \<longleftrightarrow> length (d_buf s) = P + 2 \<and> d_rcnt s \<le> P + 2 \<and> d_rsize s \<le> P"

definition dec_idle :: "cobs_dec \<Rightarrow> bool" where
  "dec_idle s \<longleftrightarrow> d_code s = 0xFF \<and> d_copy s = 0 \<and> d_rcnt s = 0"

definition dec_out :: "cobs_dec \<Rightarrow> bytes" where
  "dec_out s = take (d_rcnt s) (d_buf s)"

lemma dec_restart_idle [simp]: "dec_idle (dec_restart s)"
  by (simp add: dec_idle_def dec_restart_def)

lemma dec_restart_fields [simp]:
  "d_buf (dec_restart s) = d_buf s" "d_rsize (dec_restart s) = d_rsize s" "d_status (dec_restart s) = d_status s"
  "d_rcnt (dec_restart s) = 0"
  by (simp_all add: dec_restart_def)

lemma dec_fail_simps [simp]:
  "dec_idle (dec_fail st s)" "d_buf (dec_fail st s) = d_buf s" "d_rsize (dec_fail st s) = d_rsize s"
  "d_status (dec_fail st s) = st" "d_rcnt (dec_fail st s) = 0"
  by (simp_all add: dec_fail_def)

lemma write_decoded_byte_out:
  assumes "dec_ok P s" "d_rcnt s < P + 2"
  shows "\<exists>s'. write_decoded_byte P c s = Some s' \<and> dec_ok P s' \<and> dec_out s' = dec_out s @ [c] \<and>
    d_rcnt s' = d_rcnt s + 1 \<and> d_code s' = d_code s \<and> d_copy s' = d_copy s \<and> d_status s' = d_status s"
  using assms
  by (auto simp: write_decoded_byte_def dec_overhead_def dec_ok_def dec_out_def take_Suc_conv_app_nth)

lemma dec_ok_write: "dec_ok P s \<Longrightarrow> write_decoded_byte P c s = Some s' \<Longrightarrow> dec_ok P s'"
  by (auto simp: write_decoded_byte_def dec_overhead_def dec_ok_def split: if_splits)

lemma dec_ok_updates [simp]:
  "dec_ok P (s\<lparr> d_status := st \<rparr>) = dec_ok P s" "dec_ok P (s\<lparr> d_code := k \<rparr>) = dec_ok P s"
  "dec_ok P (s\<lparr> d_copy := k \<rparr>) = dec_ok P s"
  by (simp_all add: dec_ok_def)

lemma dec_ok_restart [simp]: "dec_ok P s \<Longrightarrow> dec_ok P (dec_restart s)" "dec_ok P s \<Longrightarrow> dec_ok P (dec_fail st s)"
  by (simp_all add: dec_ok_def)

lemma dec_ok_byte: "dec_ok P s \<Longrightarrow> dec_ok P (snd (dec_byte P esc c s))"
proof -
  assume ok: "dec_ok P s"
  have "dec_ok P (snd (dec_delimiter s))"
    using ok by (auto simp: dec_delimiter_def Let_def) (auto simp: dec_ok_def)
  moreover have "dec_ok P (dec_data P esc c s)"
    using ok by (auto simp: dec_data_def dec_ok_write split: option.splits)
  ultimately show ?thesis by (simp add: dec_byte_def)
qed

lemma dec_ok_loop: "dec_ok P s \<Longrightarrow> dec_loop P esc cs s = (b, rest, s') \<Longrightarrow> dec_ok P s'"
proof (induction P esc cs s rule: dec_loop.induct)
  case (2 P esc c cs s)
  then show ?case
    using dec_ok_byte [of P s esc c] by (cases "dec_byte P esc c s") (auto split: bool.splits)
qed simp

lemma dec_delimiter_idle: "dec_idle (snd (dec_byte P esc esc s))"
  by (auto simp: dec_byte_def dec_delimiter_def Let_def)

lemma of_nat_byte_nonzero: "0 < n \<Longrightarrow> n < 256 \<Longrightarrow> (of_nat n :: u8) \<noteq> 0"
  by (subst word_of_nat_eq_0_iff) (auto dest: dvd_imp_le)

text \<open>The data bytes of a block, one by one.\<close>

lemma dec_loop_data:
  assumes "dec_ok P s" "d_copy s = of_nat (length b)" "length b \<le> 254" "esc \<notin> set b"
    "d_rcnt s + length b \<le> P + 2"
  shows "\<exists>s'. dec_loop P esc (b @ ys) s = dec_loop P esc ys s' \<and> dec_ok P s' \<and>
    dec_out s' = dec_out s @ b \<and> d_rcnt s' = d_rcnt s + length b \<and> d_code s' = d_code s \<and>
    d_copy s' = 0 \<and> d_status s' = d_status s"
  using assms
proof (induction b arbitrary: s)
  case Nil
  then show ?case by auto
next
  case (Cons c b)
  have nz: "d_copy s \<noteq> 0"
    using Cons.prems(2,3) of_nat_byte_nonzero [of "length (c # b)"] by simp
  obtain s1 where s1: "write_decoded_byte P c s = Some s1" "dec_ok P s1" "dec_out s1 = dec_out s @ [c]"
    "d_rcnt s1 = d_rcnt s + 1" "d_code s1 = d_code s" "d_copy s1 = d_copy s" "d_status s1 = d_status s"
    using write_decoded_byte_out [OF Cons.prems(1), of c] Cons.prems(5) by auto
  let ?s2 = "s1\<lparr> d_copy := d_copy s1 - 1 \<rparr>"
  have out2: "dec_out ?s2 = dec_out s @ [c]" using s1(3) by (simp add: dec_out_def)
  have "dec_loop P esc ((c # b) @ ys) s = dec_loop P esc (b @ ys) ?s2"
    using nz s1(1) Cons.prems(4) by (auto simp: dec_byte_def dec_data_def)
  moreover obtain s' where "dec_loop P esc (b @ ys) ?s2 = dec_loop P esc ys s'" "dec_ok P s'"
    "dec_out s' = dec_out ?s2 @ b" "d_rcnt s' = d_rcnt ?s2 + length b" "d_code s' = d_code ?s2"
    "d_copy s' = 0" "d_status s' = d_status ?s2"
    using Cons.IH [of ?s2] s1 Cons.prems by auto
  ultimately show ?case using out2 s1 by auto
qed

text \<open>A whole block; the delimiter it implies is written when the next block starts.\<close>

abbreviation pending :: "cobs_dec \<Rightarrow> bytes" where
  "pending s \<equiv> (if d_code s \<noteq> 0xFF then [0] else [])"

lemma dec_loop_block:
  assumes "dec_ok P s" "d_copy s = 0" "block_ok 0 b" "d_rcnt s + length (pending s @ b) \<le> P + 2"
  shows "\<exists>s'. dec_loop P 0 (block_bytes b @ ys) s = dec_loop P 0 ys s' \<and> dec_ok P s' \<and>
    dec_out s' = dec_out s @ pending s @ b \<and> d_rcnt s' = d_rcnt s + length (pending s @ b) \<and>
    d_code s' = of_nat (length b + 1) \<and> d_copy s' = 0 \<and> d_status s' = d_status s"
proof -
  let ?k = "of_nat (length b + 1) :: u8"
  have b: "length b \<le> 254" "0 \<notin> set b" using assms(3) by (simp_all add: block_ok_def)
  then have k: "?k \<noteq> 0" by (intro of_nat_byte_nonzero) simp_all
  have k1: "?k - 1 = of_nat (length b)" by simp
  obtain s1 where s1: "dec_data P 0 ?k s = s1\<lparr> d_code := ?k, d_copy := ?k - 1 \<rparr>" "dec_ok P s1"
    "dec_out s1 = dec_out s @ pending s" "d_rcnt s1 = d_rcnt s + length (pending s)" "d_status s1 = d_status s"
  proof (cases "d_code s = 0xFF")
    case True
    then show ?thesis using assms by (intro that [of s]) (simp_all add: dec_data_def)
  next
    case False
    obtain s1 where "write_decoded_byte P 0 s = Some s1" "dec_ok P s1" "dec_out s1 = dec_out s @ [0]"
      "d_rcnt s1 = d_rcnt s + 1" "d_status s1 = d_status s"
      using write_decoded_byte_out [OF assms(1), of 0] assms(4) False by auto
    then show ?thesis using assms(2) False by (intro that [of s1]) (simp_all add: dec_data_def)
  qed
  let ?s2 = "s1\<lparr> d_code := ?k, d_copy := ?k - 1 \<rparr>"
  have out2: "dec_out ?s2 = dec_out s @ pending s" using s1(3) by (simp add: dec_out_def)
  have "dec_loop P 0 (block_bytes b @ ys) s = dec_loop P 0 (b @ ys) ?s2"
    using k s1(1) by (simp add: block_bytes_def dec_byte_def)
  moreover obtain s' where "dec_loop P 0 (b @ ys) ?s2 = dec_loop P 0 ys s'" "dec_ok P s'"
    "dec_out s' = dec_out ?s2 @ b" "d_rcnt s' = d_rcnt ?s2 + length b" "d_code s' = d_code ?s2"
    "d_copy s' = 0" "d_status s' = d_status ?s2"
    using dec_loop_data [of P ?s2 b 0 ys] s1 b k1 assms(4) by auto
  ultimately show ?thesis using out2 s1 by auto
qed

lemma dec_loop_blocks:
  assumes "dec_ok P s" "d_copy s = 0" "\<forall>b \<in> set (bs @ [b]). block_ok 0 b"
    "d_rcnt s + length (pending s @ stream_of 0 bs b) \<le> P + 2"
  shows "\<exists>s'. dec_loop P 0 (concat (map block_bytes (bs @ [b])) @ ys) s = dec_loop P 0 ys s' \<and> dec_ok P s' \<and>
    dec_out s' = dec_out s @ pending s @ stream_of 0 bs b \<and>
    d_rcnt s' = d_rcnt s + length (pending s @ stream_of 0 bs b) \<and> d_copy s' = 0 \<and> d_status s' = d_status s"
  using assms
proof (induction bs arbitrary: s)
  case Nil
  then show ?case using dec_loop_block [of P s b ys] by auto
next
  case (Cons b' bs)
  let ?zs = "concat (map block_bytes (bs @ [b])) @ ys"
  have b': "block_ok 0 b'" using Cons.prems(3) by simp
  have data: "block_data 0 b' = b' @ (if length b' = 254 then [] else [0])" by (simp add: block_data_def)
  obtain s1 where s1: "dec_loop P 0 (block_bytes b' @ ?zs) s = dec_loop P 0 ?zs s1" "dec_ok P s1"
    "dec_out s1 = dec_out s @ pending s @ b'" "d_rcnt s1 = d_rcnt s + length (pending s @ b')"
    "d_code s1 = of_nat (length b' + 1)" "d_copy s1 = 0" "d_status s1 = d_status s"
    using dec_loop_block [OF Cons.prems(1,2) b', of ?zs] Cons.prems(4) by (auto simp: data)
  have p1: "pending s1 = (if length b' = 254 then [] else [0])"
    using s1(5) b' code_full [of b'] by (simp add: block_ok_def)
  obtain s' where s': "dec_loop P 0 ?zs s1 = dec_loop P 0 ys s'" "dec_ok P s'"
    "dec_out s' = dec_out s1 @ pending s1 @ stream_of 0 bs b"
    "d_rcnt s' = d_rcnt s1 + length (pending s1 @ stream_of 0 bs b)" "d_copy s' = 0" "d_status s' = d_status s1"
    using Cons.IH [OF s1(2,6)] Cons.prems(3,4) s1(4) p1 by (auto simp: data)
  show ?case
    using s' s1 p1 by (intro exI [of _ s']) (simp add: data)
qed

text \<open>A frame ends in an accepted packet.\<close>

lemma crc16_bytes:
  "(ucast (ucast w :: u8) :: u16) OR push_bit 8 (ucast (ucast (drop_bit 8 w) :: u8)) = (w :: u16)"
  by (rule bit_word_eqI) (auto simp: bit_simps)

lemma dec_delimiter_packet:
  assumes "dec_ok P s" "d_copy s = 0" "dec_out s = with_crc src" "d_rcnt s = length src + 2" "src \<noteq> []"
  shows "dec_delimiter s =
    (True, dec_restart (s\<lparr> d_rcnt := length src, d_rsize := length src, d_status := PacketAvailable \<rparr>))"
proof -
  have buf: "take (length src) (d_buf s) = src"
    using arg_cong [OF assms(3), of "take (length src)"] assms(4)
    by (simp add: dec_out_def with_crc_def min_def)
  have nth: "d_buf s ! i = with_crc src ! i" if "i < length src + 2" for i
    using that assms(3,4) by (metis dec_out_def nth_take)
  have b0: "d_buf s ! length src = ucast (packet_crc16 src)"
    and b1: "d_buf s ! (length src + 1) = ucast (drop_bit 8 (packet_crc16 src))"
    using nth [of "length src"] nth [of "length src + 1"] by (simp_all add: with_crc_def nth_append)
  show ?thesis
    using assms(2,4,5) buf by (simp add: dec_delimiter_def Let_def b0 b1 [simplified] crc16_bytes)
qed

lemma dec_loop_frame:
  assumes "dec_ok P s" "dec_idle s" "src \<noteq> []" "length src \<le> P" "frame_of 0 (with_crc src) out"
  shows "\<exists>s'. dec_loop P 0 (out @ rest) s = (True, rest, s') \<and> dec_ok P s' \<and> dec_idle s' \<and>
    cobs_packet s' = Some src"
proof -
  obtain bs b where ok: "\<forall>b \<in> set (bs @ [b]). block_ok 0 b" and st: "stream_of 0 bs b = with_crc src"
    and out: "out = concat (map block_bytes (bs @ [b])) @ [0]"
    using assms(5) by (auto simp: frame_of_def)
  have idle: "d_copy s = 0" "d_rcnt s = 0" "d_code s = 0xFF" "pending s = []" "dec_out s = []"
    using assms(2) by (simp_all add: dec_idle_def dec_out_def)
  have room: "d_rcnt s + length (pending s @ stream_of 0 bs b) \<le> P + 2"
    using idle st assms(4) by simp
  obtain s1 where s1: "dec_loop P 0 (concat (map block_bytes (bs @ [b])) @ 0 # rest) s = dec_loop P 0 (0 # rest) s1"
    "dec_ok P s1" "dec_out s1 = with_crc src" "d_rcnt s1 = length src + 2" "d_copy s1 = 0"
    using dec_loop_blocks [OF assms(1) idle(1) ok room, of "0 # rest"] idle st by auto
  let ?s2 = "dec_restart (s1\<lparr> d_rcnt := length src, d_rsize := length src, d_status := PacketAvailable \<rparr>)"
  have "dec_loop P 0 (0 # rest) s1 = (True, rest, ?s2)"
    using dec_delimiter_packet [OF s1(2,5,3,4) assms(3)] by (simp add: dec_byte_def)
  moreover have "dec_ok P ?s2" using s1(2) assms(4) by (simp add: dec_ok_def)
  moreover have "take (length src) (d_buf s1) = src"
    using arg_cong [OF s1(3), of "take (length src)"] s1(4) by (simp add: dec_out_def with_crc_def min_def)
  ultimately show ?thesis
    using s1(1) unfolding out by (intro exI [of _ ?s2]) (simp add: cobs_packet_def)
qed

subsection \<open>The codec contract\<close>

text \<open>
  What \<open>SerialCodec.h\<close> promises its user: a decoder call consumes the bytes it reports, all of
  them unless a packet is available, and an idle decoder returns the packet of a frame put ahead of
  any other bytes and is idle again.
\<close>

locale serial_codec =
  fixes valid :: "bytes \<Rightarrow> bool"
    and encode :: "bytes \<Rightarrow> bytes option"
    and decode :: "bytes \<Rightarrow> 's \<Rightarrow> nat \<times> 's"
    and packet :: "'s \<Rightarrow> bytes option"
    and idle :: "'s \<Rightarrow> bool"
  assumes encode_valid: "valid p \<Longrightarrow> \<exists>f. encode p = Some f \<and> f \<noteq> []"
    and decode_frame: "valid p \<Longrightarrow> encode p = Some f \<Longrightarrow> idle s \<Longrightarrow>
      \<exists>s'. decode (f @ rest) s = (length f, s') \<and> packet s' = Some p \<and> idle s'"
    and decode_count: "decode bs s = (n, s') \<Longrightarrow> n \<le> length bs"
    and decode_progress: "decode bs s = (n, s') \<Longrightarrow> packet s' \<noteq> None \<Longrightarrow> 0 < n"
    and decode_rest: "decode bs s = (n, s') \<Longrightarrow> packet s' = None \<Longrightarrow> n = length bs"

text \<open>
  A receiver drives the decoder over a chunk of received bytes, reading each packet as it becomes
  available; the fuel bounds the calls by one more than the bytes.
\<close>

fun drain :: "(bytes \<Rightarrow> 's \<Rightarrow> nat \<times> 's) \<Rightarrow> ('s \<Rightarrow> bytes option) \<Rightarrow> nat \<Rightarrow> bytes \<Rightarrow> 's \<Rightarrow> bytes list \<times> 's" where
  "drain decode packet 0 bs s = ([], s)"
| "drain decode packet (Suc fuel) bs s =
     (if bs = [] then ([], s)
      else case decode bs s of (n, s) \<Rightarrow>
        (case packet s of
           None \<Rightarrow> drain decode packet fuel (drop n bs) s
         | Some p \<Rightarrow> (case drain decode packet fuel (drop n bs) s of (ps, s) \<Rightarrow> (p # ps, s))))"

context serial_codec
begin

lemma drain_frames:
  assumes "list_all valid ps" "idle s"
  shows "\<exists>fs s'. map encode ps = map Some fs \<and> (\<forall>n \<ge> length (concat fs).
    drain decode packet n (concat fs) s = (ps, s')) \<and> idle s'"
  using assms
proof (induction ps arbitrary: s)
  case Nil
  have "drain decode packet n [] s = ([], s)" for n by (cases n) simp_all
  then show ?case using Nil by (intro exI [of _ "[]"] exI [of _ s]) simp
next
  case (Cons p ps)
  obtain f where f: "encode p = Some f" "f \<noteq> []" using Cons.prems encode_valid by auto
  obtain fs0 where fs0: "map encode ps = map Some fs0" using Cons.IH [of s] Cons.prems by auto
  obtain s1 where s1: "decode (f @ concat fs0) s = (length f, s1)" "packet s1 = Some p" "idle s1"
    using decode_frame [OF _ f(1) Cons.prems(2)] Cons.prems(1) by auto
  obtain fs s' where fs: "map encode ps = map Some fs" "idle s'"
    "\<And>n. length (concat fs) \<le> n \<Longrightarrow> drain decode packet n (concat fs) s1 = (ps, s')"
    using Cons.IH [OF _ s1(3)] Cons.prems(1) by auto
  have "fs = fs0" using fs(1) fs0 by (metis list.inj_map_strong option.inject)
  have "drain decode packet n (f @ concat fs) s = (p # ps, s')" if n: "length (f @ concat fs) \<le> n" for n
  proof -
    obtain m where "n = Suc m" using n f(2) by (cases n) auto
    moreover have "length (concat fs) \<le> m" using n f(2) calculation by (cases f) auto
    ultimately show ?thesis using s1 f(2) fs(3) [of m] \<open>fs = fs0\<close> by simp
  qed
  then show ?case using f(1) fs(1,2) by (intro exI [of _ "f # fs"] exI [of _ s']) simp
qed

end

lemma dec_byte_status:
  assumes "dec_byte P esc c s = (b, s')"
  shows "if b then d_status s' = PacketAvailable
    else d_status s \<noteq> PacketAvailable \<longrightarrow> d_status s' \<noteq> PacketAvailable"
proof (cases "c = esc")
  case True
  then show ?thesis using assms by (auto simp: dec_byte_def dec_delimiter_def Let_def split: if_splits)
next
  case False
  then show ?thesis
    using assms by (auto simp: dec_byte_def dec_data_def write_decoded_byte_def split: option.splits if_splits)
qed

lemma dec_loop_rest:
  "dec_loop P esc cs s = (b, rest, s') \<Longrightarrow>
     length rest \<le> length cs \<and> (if b then length rest < length cs \<and> d_status s' = PacketAvailable
       else d_status s \<noteq> PacketAvailable \<longrightarrow> d_status s' \<noteq> PacketAvailable)"
proof (induction P esc cs s arbitrary: b rest s' rule: dec_loop.induct)
  case (2 P esc c cs s)
  obtain d s1 where s1: "dec_byte P esc c s = (d, s1)" by (cases "dec_byte P esc c s")
  show ?case
  proof (cases d)
    case True
    then show ?thesis using 2(2) dec_byte_status [OF s1] by (simp add: s1)
  next
    case False
    then have "dec_loop P esc cs s1 = (b, rest, s')" using 2(2) by (simp add: s1)
    then show ?thesis using 2(1) [OF s1 [symmetric], of b rest s'] False dec_byte_status [OF s1]
      by (cases b) simp_all
  qed
qed simp

lemma decode_bytes:
  assumes "cobs_decode P esc bs s = (n, s')"
  shows "n \<le> length bs" "cobs_packet s' \<noteq> None \<Longrightarrow> 0 < n" "cobs_packet s' = None \<Longrightarrow> n = length bs"
proof -
  obtain b rest s1 where l: "dec_loop P esc bs (s\<lparr> d_status := Unknown \<rparr>) = (b, rest, s1)"
    by (metis prod_cases3)
  note facts = dec_loop_rest [OF l]
  show "n \<le> length bs" "cobs_packet s' \<noteq> None \<Longrightarrow> 0 < n" "cobs_packet s' = None \<Longrightarrow> n = length bs"
    using assms facts by (cases b; auto simp: cobs_decode_def l cobs_packet_def split: if_splits)+
qed

lemma decode_frame_cobs:
  assumes "dec_ok P s" "dec_idle s" "src \<noteq> []" "length src \<le> P" "cobs_encode P 0 src = Some out"
  shows "\<exists>s'. cobs_decode P 0 (out @ rest) s = (length out, s') \<and> cobs_packet s' = Some src \<and>
    dec_ok P s' \<and> dec_idle s'"
proof -
  have "frame_of 0 (with_crc src) out" using cobs_encode_frame [OF assms(4), of 0] assms(5) by auto
  moreover have "dec_ok P (s\<lparr> d_status := Unknown \<rparr>)" "dec_idle (s\<lparr> d_status := Unknown \<rparr>)"
    using assms(1,2) by (simp_all add: dec_idle_def)
  ultimately obtain s' where "dec_loop P 0 (out @ rest) (s\<lparr> d_status := Unknown \<rparr>) = (True, rest, s')"
    "dec_ok P s'" "dec_idle s'" "cobs_packet s' = Some src"
    using dec_loop_frame assms(3,4) by blast
  then show ?thesis by (simp add: cobs_decode_def)
qed

interpretation cobs: serial_codec "\<lambda>p. p \<noteq> [] \<and> length p \<le> P" "cobs_encode P 0" "cobs_decode P 0" cobs_packet
  "\<lambda>s. dec_ok P s \<and> dec_idle s" for P
proof
  fix p f rest and s s' :: cobs_dec and bs n
  show "\<exists>f. cobs_encode P 0 p = Some f \<and> f \<noteq> []" if "p \<noteq> [] \<and> length p \<le> P"
    using cobs_encode_frame [of p P 0] that by (auto simp: frame_of_def)
  show "\<exists>s'. cobs_decode P 0 (f @ rest) s = (length f, s') \<and> cobs_packet s' = Some p \<and> dec_ok P s' \<and> dec_idle s'"
    if "p \<noteq> [] \<and> length p \<le> P" "cobs_encode P 0 p = Some f" "dec_ok P s \<and> dec_idle s"
    using decode_frame_cobs that by blast
qed (fact decode_bytes)+

subsection \<open>The decoder as a state machine\<close>

text \<open>
  One byte at a time, collecting the packets.  The status is only reported, never read, so states
  are compared up to it.
\<close>

fun recv :: "nat \<Rightarrow> u8 \<Rightarrow> bytes \<Rightarrow> cobs_dec \<Rightarrow> bytes list \<times> cobs_dec" where
  "recv P esc [] s = ([], s)"
| "recv P esc (c # cs) s =
     (case dec_byte P esc c s of
        (True, s) \<Rightarrow> (case recv P esc cs s of (ps, t) \<Rightarrow> (take (d_rsize s) (d_buf s) # ps, t))
      | (False, s) \<Rightarrow> recv P esc cs s)"

definition dec_eqv :: "cobs_dec \<Rightarrow> cobs_dec \<Rightarrow> bool" where
  "dec_eqv s t \<longleftrightarrow> s\<lparr> d_status := Unknown \<rparr> = t\<lparr> d_status := Unknown \<rparr>"

lemma dec_eqv_fields:
  "dec_eqv s t \<longleftrightarrow> d_buf s = d_buf t \<and> d_rsize s = d_rsize t \<and> d_rcnt s = d_rcnt t \<and>
     d_code s = d_code t \<and> d_copy s = d_copy t"
  by (cases s; cases t) (auto simp: dec_eqv_def)

lemma recv_append:
  "recv P esc (xs @ ys) s =
     (let (ps, t) = recv P esc xs s; (qs, u) = recv P esc ys t in (ps @ qs, u))"
proof (induction P esc xs s rule: recv.induct)
  case (1 P esc s)
  then show ?case by (simp split: prod.splits)
next
  case (2 P esc c cs s)
  obtain d s1 where s1: "dec_byte P esc c s = (d, s1)" by (cases "dec_byte P esc c s")
  show ?case
    using 2 [OF s1 [symmetric]] by (cases d) (simp_all add: s1 Let_def split: prod.splits)
qed

lemma recv_append_fst: "fst (recv P esc (xs @ ys) s) = fst (recv P esc xs s) @ fst (recv P esc ys (snd (recv P esc xs s)))"
  unfolding recv_append by (simp add: case_prod_beta Let_def)

lemma recv_append_snd: "snd (recv P esc (xs @ ys) s) = snd (recv P esc ys (snd (recv P esc xs s)))"
  unfolding recv_append by (simp add: case_prod_beta Let_def)

lemma dec_byte_eqv:
  assumes "dec_eqv s t"
  shows "fst (dec_byte P esc c s) = fst (dec_byte P esc c t) \<and>
    dec_eqv (snd (dec_byte P esc c s)) (snd (dec_byte P esc c t))"
  using assms
  by (auto simp: dec_byte_def dec_delimiter_def dec_data_def write_decoded_byte_def dec_fail_def
      dec_restart_def dec_eqv_fields Let_def)

lemma recv_eqv:
  assumes "dec_eqv s t"
  shows "fst (recv P esc bs s) = fst (recv P esc bs t) \<and> dec_eqv (snd (recv P esc bs s)) (snd (recv P esc bs t))"
  using assms
proof (induction bs arbitrary: s t)
  case Nil
  then show ?case by simp
next
  case (Cons c cs)
  obtain d s1 d' t1 where st: "dec_byte P esc c s = (d, s1)" "dec_byte P esc c t = (d', t1)" by fastforce
  then have e: "d' = d" "dec_eqv s1 t1" using dec_byte_eqv [OF Cons.prems, of P esc c] by auto
  have "d_rsize s1 = d_rsize t1" "d_buf s1 = d_buf t1" using e(2) by (simp_all add: dec_eqv_fields)
  then show ?case
    using Cons.IH [OF e(2)] e(1) by (cases d) (auto simp: st split: prod.splits)
qed

lemma recv_loop:
  "dec_loop P esc cs s = (b, rest, t) \<Longrightarrow>
     recv P esc cs s = (if b then (case recv P esc rest t of (ps, u) \<Rightarrow> (take (d_rsize t) (d_buf t) # ps, u)) else ([], t))"
proof (induction P esc cs s rule: dec_loop.induct)
  case (2 P esc c cs s)
  obtain d s1 where s1: "dec_byte P esc c s = (d, s1)" by (cases "dec_byte P esc c s")
  show ?case
    using 2(1) [OF s1 [symmetric]] 2(2) by (cases d) (auto simp: s1 split: prod.splits)
qed auto

lemma dec_loop_drop: "dec_loop P esc cs s = (b, rest, t) \<Longrightarrow> rest = drop (length cs - length rest) cs"
proof (induction P esc cs s rule: dec_loop.induct)
  case (2 P esc c cs s)
  obtain d s1 where s1: "dec_byte P esc c s = (d, s1)" by (cases "dec_byte P esc c s")
  show ?case
  proof (cases d)
    case True
    then show ?thesis using 2(2) by (auto simp: s1)
  next
    case False
    then have l: "dec_loop P esc cs s1 = (b, rest, t)" using 2(2) by (simp add: s1)
    then have "length (c # cs) - length rest = Suc (length cs - length rest)"
      using conjunct1 [OF dec_loop_rest [OF l]] by (simp only: list.size)
    then show ?thesis using 2(1) [OF s1 [symmetric]] False l by simp
  qed
qed simp

lemma drain_recv:
  "length bs \<le> n \<Longrightarrow> fst (drain (cobs_decode P esc) cobs_packet n bs s) = fst (recv P esc bs s) \<and>
     dec_eqv (snd (drain (cobs_decode P esc) cobs_packet n bs s)) (snd (recv P esc bs s))"
proof (induction n arbitrary: bs s)
  case 0
  then show ?case by (simp add: dec_eqv_def)
next
  case (Suc n)
  show ?case
  proof (cases "bs = []")
    case True
    then show ?thesis by (simp add: dec_eqv_def)
  next
    case False
    let ?s0 = "s\<lparr> d_status := Unknown \<rparr>"
    obtain b rest t where l: "dec_loop P esc bs ?s0 = (b, rest, t)" by (metis prod_cases3)
    have e0: "dec_eqv s ?s0" by (simp add: dec_eqv_def)
    note l' = dec_loop_rest [OF l] and r = recv_loop [OF l] and e = recv_eqv [OF e0, of P esc bs]
    show ?thesis
    proof (cases b)
      case True
      have rest: "drop (length bs - length rest) bs = rest" using dec_loop_drop [OF l] by simp
      have "length rest \<le> n" using l' True Suc.prems by simp
      from Suc.IH [OF this, of t] show ?thesis
        using True False l' r e rest
        by (auto simp: cobs_decode_def l cobs_packet_def dec_eqv_def split: prod.splits)
    next
      case b: False
      then have st: "d_status t \<noteq> PacketAvailable" using l' by simp
      obtain x where x: "cobs_decode P esc bs s = (length bs, t\<lparr> d_status := x \<rparr>)" "x \<noteq> PacketAvailable"
      proof (cases "d_status t = Unknown")
        case True
        then show ?thesis
          using b that [of "if bs \<noteq> [] then DataAccepted else DataDropped"] by (simp add: cobs_decode_def l)
      next
        case False
        then show ?thesis using b st that [of "d_status t"] by (simp add: cobs_decode_def l)
      qed
      have "drain (cobs_decode P esc) cobs_packet n [] v = ([], v)" for v by (cases n) simp_all
      then have "drain (cobs_decode P esc) cobs_packet (Suc n) bs s = ([], t\<lparr> d_status := x \<rparr>)"
        using False x by (simp add: cobs_packet_def)
      then show ?thesis using r e b by (simp add: dec_eqv_def)
    qed
  qed
qed

lemma recv_delimiter_idle: "dec_idle (snd (recv P esc (junk @ [esc]) s))"
proof -
  have one: "dec_idle (snd (recv P esc [esc] t))" for t
    using dec_delimiter_idle [of P esc t] by (auto split: prod.splits bool.splits)
  show ?thesis unfolding recv_append_snd by (rule one)
qed

lemma recv_ok: "dec_ok P s \<Longrightarrow> dec_ok P (snd (recv P esc bs s))"
proof (induction P esc bs s rule: recv.induct)
  case (2 P esc c cs s)
  obtain d s1 where s1: "dec_byte P esc c s = (d, s1)" by (cases "dec_byte P esc c s")
  then have "dec_ok P s1" using dec_ok_byte [OF 2(3), of esc c] by simp
  then show ?case using 2(1,2) [OF s1 [symmetric]] by (cases d) (auto simp: s1 split: prod.splits)
qed simp

lemma dec_byte_packet:
  assumes "dec_ok P s" "dec_byte P esc c s = (True, s')"
  shows "\<exists>p. take (d_rsize s') (d_buf s') = p \<and> p \<noteq> [] \<and> length p \<le> P \<and> c = esc \<and> dec_out s = with_crc p"
proof -
  have c: "c = esc" using assms(2) by (auto simp: dec_byte_def split: if_splits)
  then have d: "dec_delimiter s = (True, s')" using assms(2) by (simp add: dec_byte_def)
  let ?n = "d_rcnt s - 2"
  have n: "2 < d_rcnt s" "d_rcnt s \<le> P + 2" "length (d_buf s) = P + 2"
    using d assms(1) by (auto simp: dec_delimiter_def Let_def dec_ok_def split: if_splits)
  let ?p = "take ?n (d_buf s)"
  have crc: "ucast (d_buf s ! ?n) OR push_bit 8 (ucast (d_buf s ! (?n + 1)) :: u16) = packet_crc16 ?p"
    and s': "d_rsize s' = ?n" "d_buf s' = d_buf s"
    using d by (auto simp: dec_delimiter_def Let_def split: if_splits)
  have "of_le [d_buf s ! ?n, d_buf s ! (?n + 1)] = packet_crc16 ?p" using crc by simp
  then have tail: "le_bytes 2 (packet_crc16 ?p) = [d_buf s ! ?n, d_buf s ! (?n + 1)]"
    using le_bytes_of_le [of "[d_buf s ! ?n, d_buf s ! (?n + 1)]", where 'a = 16]
    by (simp add: numeral_2_eq_2)
  have "dec_out s = take (Suc (Suc ?n)) (d_buf s)"
  proof -
    have "Suc (Suc ?n) = d_rcnt s" using n(1) by simp
    then show ?thesis by (simp only: dec_out_def)
  qed
  also have "\<dots> = ?p @ [d_buf s ! ?n, d_buf s ! (?n + 1)]"
    using n by (simp add: take_Suc_conv_app_nth)
  finally have "dec_out s = with_crc ?p" by (simp add: with_crc_def tail)
  then show ?thesis using n c s' by auto
qed

lemma recv_packets:
  "dec_ok P s \<Longrightarrow> \<forall>p \<in> set (fst (recv P esc bs s)). p \<noteq> [] \<and> length p \<le> P"
proof (induction P esc bs s rule: recv.induct)
  case (2 P esc c cs s)
  obtain d s1 where s1: "dec_byte P esc c s = (d, s1)" by (cases "dec_byte P esc c s")
  then have "dec_ok P s1" using dec_ok_byte [OF 2(3), of esc c] by simp
  then show ?case
    using 2(1,2) [OF s1 [symmetric]] dec_byte_packet [OF 2(3)] s1
    by (cases d) (fastforce split: prod.splits)+
qed simp

subsection \<open>Properties\<close>

text \<open>
  C9: a packet of at most \<open>_packet_size\<close> bytes is always encoded without a store outside the
  encoder's buffer, whatever the delimiter; the frame is no longer than payload, CRC, one code byte
  per started block of 254 bytes and the delimiter.
\<close>

theorem cobs_encode_fits:
  assumes "length src \<le> P"
  shows "\<exists>out. cobs_encode P esc src = Some out \<and>
    length out \<le> length src + 2 + ((length src + 1) div 254 + 1) + 1 \<and> length out \<le> enc_buf_size P"
proof -
  have "(length src + 1) div 254 \<le> (P + 1) div 254" using assms by (intro div_le_mono) simp
  moreover have "(P + 2 + 253) div 254 = (P + 1) div 254 + 1" by simp
  ultimately show ?thesis
    using cobs_encode_frame [OF assms, of esc] assms
    by (fastforce simp: frame_of_def enc_buf_size_def enc_overhead_def Let_def)
qed

theorem cobs_encode_fits_witness:
  "\<exists>out. cobs_encode 512 0 (replicate 512 1) = Some out \<and>
    length out \<le> length (replicate 512 (1 :: u8)) + 2 + ((length (replicate 512 (1 :: u8)) + 1) div 254 + 1) + 1
    \<and> length out \<le> enc_buf_size 512"
  by (rule cobs_encode_fits) simp

text \<open>
  With the default delimiter zero, the delimiter occurs in a frame as its last byte only.
\<close>

theorem cobs_delimiter_last:
  assumes "cobs_encode P 0 src = Some out" "length src \<le> P"
  shows "\<exists>body. out = body @ [0] \<and> 0 \<notin> set body"
proof -
  obtain bs b where ok: "\<forall>b \<in> set (bs @ [b]). block_ok 0 b" and out: "out = concat (map block_bytes (bs @ [b])) @ [0]"
    using cobs_encode_frame [OF assms(2), of 0] assms(1) by (auto simp: frame_of_def)
  have "0 \<notin> set (block_bytes b')" if "block_ok 0 b'" for b'
    using that of_nat_byte_nonzero [of "length b' + 1"] by (auto simp: block_bytes_def block_ok_def)
  then have "0 \<notin> set (concat (map block_bytes (bs @ [b])))" using ok by auto
  with out show ?thesis by blast
qed

theorem cobs_delimiter_last_witness:
  "\<exists>out body. cobs_encode 16 0 [1, 0, 2] = Some out \<and> out = body @ [0] \<and> 0 \<notin> set body"
proof -
  obtain out where "cobs_encode 16 0 [1, 0, 2] = Some out"
    using cobs_encode_frame [of "[1, 0, 2]" 16 0] by auto
  then show ?thesis using cobs_delimiter_last [of 16 "[1, 0, 2]" out] by auto
qed

text \<open>
  C4: the frames of any sequence of packets (not empty and at most \<open>_packet_size\<close> bytes
  each), received one after the other by a reset decoder, yield exactly these packets in this order.
\<close>

theorem cobs_roundtrip:
  assumes "\<forall>p \<in> set ps. p \<noteq> [] \<and> length p \<le> P" "dec_ok P s"
  shows "\<exists>fs. map (cobs_encode P 0) ps = map Some fs \<and>
    fst (drain (cobs_decode P 0) cobs_packet (length (concat fs)) (concat fs) (dec_reset s)) = ps"
proof -
  have "list_all (\<lambda>p. p \<noteq> [] \<and> length p \<le> P) ps" using assms(1) by (simp add: list_all_iff)
  moreover have "dec_ok P (dec_reset s) \<and> dec_idle (dec_reset s)" using assms(2) by (simp add: dec_reset_def)
  ultimately show ?thesis using cobs.drain_frames [of P ps "dec_reset s"] by fastforce
qed

theorem cobs_roundtrip_witness:
  "\<exists>fs. map (cobs_encode 8 0) [[1, 0, 2], [0]] = map Some fs \<and>
    fst (drain (cobs_decode 8 0) cobs_packet (length (concat fs)) (concat fs)
      (dec_reset (cobs_dec_make (replicate 10 0)))) = [[1, 0, 2], [0]]"
  by (rule cobs_roundtrip) (simp_all add: dec_ok_def cobs_dec_make_def)

text \<open>
  C10: whatever the decoder received before (noise, a truncated or damaged frame), from the next
  delimiter on it is in step: the packets of the frames that follow are all delivered, last and in
  order.
\<close>

theorem cobs_resync:
  assumes "\<forall>p \<in> set ps. p \<noteq> [] \<and> length p \<le> P" "dec_ok P s"
    "map (cobs_encode P 0) ps = map Some fs" "length (junk @ 0 # concat fs) \<le> n"
  shows "\<exists>qs. fst (drain (cobs_decode P 0) cobs_packet n (junk @ 0 # concat fs) s) = qs @ ps"
proof -
  let ?t = "snd (recv P 0 (junk @ [0]) s)"
  have "dec_ok P ?t" "dec_idle ?t"
    by (rule recv_ok [OF assms(2)], rule recv_delimiter_idle)
  moreover have "list_all (\<lambda>p. p \<noteq> [] \<and> length p \<le> P) ps" using assms(1) by (simp add: list_all_iff)
  ultimately obtain fs' where fs': "map (cobs_encode P 0) ps = map Some fs'"
    "fst (drain (cobs_decode P 0) cobs_packet (length (concat fs')) (concat fs') ?t) = ps"
    using cobs.drain_frames [of P ps ?t] by fastforce
  have "fs' = fs" using fs'(1) assms(3) by (metis list.inj_map_strong option.inject)
  then have "fst (recv P 0 (concat fs) ?t) = ps" using fs'(2) drain_recv by (metis order_refl)
  then have "fst (recv P 0 ((junk @ [0]) @ concat fs) s) = fst (recv P 0 (junk @ [0]) s) @ ps"
    unfolding recv_append_fst [of P 0 "junk @ [0]"] by (simp only:)
  then show ?thesis using drain_recv [OF assms(4), of P 0 s] by auto
qed

theorem cobs_resync_witness:
  "\<exists>fs qs. map (cobs_encode 8 0) [[1], [2, 0]] = map Some fs \<and>
    fst (drain (cobs_decode 8 0) cobs_packet (length ([9, 5] @ 0 # concat fs)) ([9, 5] @ 0 # concat fs)
      (cobs_dec_make (replicate 10 0))) = qs @ [[1], [2, 0]]"
proof -
  obtain f g where "cobs_encode 8 0 [1] = Some f" "cobs_encode 8 0 [2, 0] = Some g"
    using cobs_encode_frame [of "[1]" 8 0] cobs_encode_frame [of "[2, 0]" 8 0] by auto
  then have fs: "map (cobs_encode 8 0) [[1], [2, 0]] = map Some [f, g]" by simp
  have "\<forall>p \<in> set [[1], [2, 0 :: u8]]. p \<noteq> [] \<and> length p \<le> 8"
    "dec_ok 8 (cobs_dec_make (replicate 10 0))"
    by (simp_all add: dec_ok_def cobs_dec_make_def)
  from cobs_resync [OF this fs order_refl, of "[9, 5]"] fs show ?thesis by blast
qed

text \<open>
  C14: how the received bytes are cut into chunks is irrelevant: draining one chunk and then the
  next delivers the same packets as draining both at once.
\<close>

theorem cobs_chunks:
  assumes "length (xs @ ys) \<le> n"
  shows "fst (drain (cobs_decode P esc) cobs_packet n (xs @ ys) s) =
    fst (drain (cobs_decode P esc) cobs_packet n xs s) @
    fst (drain (cobs_decode P esc) cobs_packet n ys (snd (drain (cobs_decode P esc) cobs_packet n xs s)))"
proof -
  let ?t = "snd (recv P esc xs s)" and ?u = "snd (drain (cobs_decode P esc) cobs_packet n xs s)"
  have x: "fst (drain (cobs_decode P esc) cobs_packet n xs s) = fst (recv P esc xs s)" "dec_eqv ?u ?t"
    using drain_recv [of xs n P esc s] assms by simp_all
  have "fst (drain (cobs_decode P esc) cobs_packet n ys ?u) = fst (recv P esc ys ?t)"
    using drain_recv [of ys n P esc ?u] recv_eqv [OF x(2), of P esc ys] assms by simp
  moreover have "fst (drain (cobs_decode P esc) cobs_packet n (xs @ ys) s) = fst (recv P esc (xs @ ys) s)"
    using drain_recv [OF assms, of P esc s] by simp
  ultimately show ?thesis
    using x(1) unfolding recv_append_fst by simp
qed

theorem cobs_chunks_witness:
  "fst (drain (cobs_decode 8 0) cobs_packet 2 ([3] @ [0]) (cobs_dec_make (replicate 10 0))) =
    fst (drain (cobs_decode 8 0) cobs_packet 2 [3] (cobs_dec_make (replicate 10 0))) @
    fst (drain (cobs_decode 8 0) cobs_packet 2 [0]
      (snd (drain (cobs_decode 8 0) cobs_packet 2 [3] (cobs_dec_make (replicate 10 0)))))"
  by (rule cobs_chunks) simp

text \<open>
  C12: on arbitrary input the decoder never stores outside its buffer, and every packet it delivers
  is not empty, fits \<open>_packet_size\<close> and was followed in the decoded stream by its own CRC.
\<close>

theorem cobs_decode_safe:
  assumes "dec_ok P s"
  shows "dec_ok P (snd (recv P esc bs s)) \<and> dec_ok P (snd (dec_byte P esc c s))
    \<and> (\<forall>p \<in> set (fst (drain (cobs_decode P esc) cobs_packet (length bs) bs s)). p \<noteq> [] \<and> length p \<le> P)
    \<and> (fst (dec_byte P esc c s) \<longrightarrow>
        (\<exists>p. cobs_packet (snd (dec_byte P esc c s)) = Some p \<and> c = esc \<and> dec_out s = with_crc p))"
proof -
  have "\<exists>p. cobs_packet (snd (dec_byte P esc c s)) = Some p \<and> c = esc \<and> dec_out s = with_crc p"
    if "fst (dec_byte P esc c s)"
    using that dec_byte_packet [OF assms, of esc c "snd (dec_byte P esc c s)"]
      dec_byte_status [of P esc c s True "snd (dec_byte P esc c s)"]
    by (cases "dec_byte P esc c s") (auto simp: cobs_packet_def)
  then show ?thesis
    using recv_ok [OF assms] dec_ok_byte [OF assms] recv_packets [OF assms] drain_recv [OF order_refl, of P esc bs s]
    by auto
qed

theorem cobs_decode_safe_witness:
  "dec_ok 8 (snd (recv 8 0 [1, 2, 0] (cobs_dec_make (replicate 10 0))))"
  using cobs_decode_safe [of 8 "cobs_dec_make (replicate 10 0)" 0 "[1, 2, 0]" 0]
  by (simp add: dec_ok_def cobs_dec_make_def)

end
