(* ===== verification/Can_Format.thy ===== *)
theory Can_Format
  imports Apx_Prelude
begin

text \<open>
  \<open>xbus/can/CanFormat.h\<close> and \<open>xcan_msg.h\<close>: the 29-bit identifier of a message, with
  its bit fields from the low bit up (frm 3, pid 16, src 7, net 3), and the message itself.
\<close>

unbundle bit_operations_syntax

subsection \<open>Definitions\<close>

type_synonym extid_s = u32

definition frm_seq_max :: u8 where "frm_seq_max = 4"
definition frm_end :: u8 where "frm_end = 5"
definition frm_start :: u8 where "frm_start = 6"
definition frm_single :: u8 where "frm_single = 7"

definition extid_frm :: "extid_s \<Rightarrow> u8" where
  "extid_frm e = ucast (e AND mask 3)"

definition extid_pid :: "extid_s \<Rightarrow> u16" where
  "extid_pid e = ucast (drop_bit 3 e AND mask 16)"

definition extid_src :: "extid_s \<Rightarrow> u8" where
  "extid_src e = ucast (drop_bit 19 e AND mask 7)"

definition extid_net :: "extid_s \<Rightarrow> u8" where
  "extid_net e = ucast (drop_bit 26 e AND mask 3)"

definition extid_set_frm :: "u8 \<Rightarrow> extid_s \<Rightarrow> extid_s" where
  "extid_set_frm v e = (e AND NOT (mask 3)) OR (ucast v AND mask 3)"

definition extid_set_pid :: "u16 \<Rightarrow> extid_s \<Rightarrow> extid_s" where
  "extid_set_pid v e = (e AND NOT (push_bit 3 (mask 16))) OR push_bit 3 (ucast v AND mask 16)"

definition mf_id_mask :: u32 where
  "mf_id_mask = (push_bit 29 1 - 1) AND NOT (push_bit 3 1 - 1)"

record xcan_msg =
  m_id :: u32
  m_dlc :: u8
  m_ext :: bool
  m_data :: bytes

text \<open>A message has eight data bytes and a data length code of four bits.\<close>

definition xcan_msg_ok :: "xcan_msg \<Rightarrow> bool" where
  "xcan_msg_ok m \<longleftrightarrow> length (m_data m) = 8 \<and> m_dlc m < 16"

subsection \<open>Fields\<close>

lemma mf_id_mask_bits: "mf_id_mask = mask 29 AND NOT (mask 3)"
  by (simp add: mf_id_mask_def mask_eq_exp_minus_1)

lemma extid_frm_set [simp]: "extid_frm (extid_set_frm v e) = v AND mask 3"
  unfolding extid_frm_def extid_set_frm_def by (rule bit_word_eqI) (auto simp: bit_simps)

lemma extid_pid_set_frm [simp]: "extid_pid (extid_set_frm v e) = extid_pid e"
  unfolding extid_pid_def extid_set_frm_def by (rule bit_word_eqI) (auto simp: bit_simps)

lemma extid_src_set_frm [simp]: "extid_src (extid_set_frm v e) = extid_src e"
  unfolding extid_src_def extid_set_frm_def by (rule bit_word_eqI) (auto simp: bit_simps)

lemma extid_pid_set_pid [simp]: "extid_pid (extid_set_pid v e) = v"
  unfolding extid_pid_def extid_set_pid_def by (rule bit_word_eqI) (auto simp: bit_simps)

lemma extid_src_set_pid [simp]: "extid_src (extid_set_pid v e) = extid_src e"
  unfolding extid_src_def extid_set_pid_def by (rule bit_word_eqI) (auto simp: bit_simps)

lemma extid_set_frm_twice [simp]: "extid_set_frm v (extid_set_frm u e) = extid_set_frm v e"
  unfolding extid_set_frm_def by (rule bit_word_eqI) (auto simp: bit_simps)

text \<open>Two identifiers belong to the same packet iff they differ in \<open>frm\<close> at most.\<close>

definition same_id :: "extid_s \<Rightarrow> extid_s \<Rightarrow> bool" where
  "same_id a b \<longleftrightarrow> (a XOR b) AND mf_id_mask = 0"

lemma same_id_bits: "same_id a b \<longleftrightarrow> (\<forall>n. 3 \<le> n \<and> n < 29 \<longrightarrow> bit a n = bit b n)"
proof -
  have b: "\<not> bit ((a XOR b) AND mf_id_mask) n \<longleftrightarrow> (3 \<le> n \<and> n < 29 \<longrightarrow> bit a n = bit b n)" for n
    unfolding mf_id_mask_bits by (auto simp: bit_simps)
  have "same_id a b \<longleftrightarrow> (\<forall>n. \<not> bit ((a XOR b) AND mf_id_mask) n)"
    unfolding same_id_def by (metis bit_0_eq bit_word_eqI bot_apply bot_bool_def)
  then show ?thesis by (simp only: b)
qed

lemma same_id_refl [simp]: "same_id a a"
  by (simp add: same_id_bits)

lemma same_id_sym: "same_id a b \<longleftrightarrow> same_id b a"
  by (auto simp: same_id_bits)

lemma same_id_trans: "same_id a b \<Longrightarrow> same_id b c \<Longrightarrow> same_id a c"
  by (auto simp: same_id_bits)

lemma same_id_set_frm [simp]: "same_id (extid_set_frm v a) b \<longleftrightarrow> same_id a b" "same_id b (extid_set_frm v a) \<longleftrightarrow> same_id b a"
  unfolding same_id_bits extid_set_frm_def by (auto simp: bit_simps)

lemma bit_extid_pid: "bit (extid_pid a) n \<longleftrightarrow> n < 16 \<and> bit a (n + 3)"
  unfolding extid_pid_def by (auto simp: bit_simps add.commute dest: bit_imp_le_length)

lemma bit_extid_src: "bit (extid_src a) n \<longleftrightarrow> n < 7 \<and> bit a (n + 19)"
  unfolding extid_src_def by (auto simp: bit_simps add.commute dest: bit_imp_le_length)

lemma bit_extid_net: "bit (extid_net a) n \<longleftrightarrow> n < 3 \<and> bit a (n + 26)"
  unfolding extid_net_def by (auto simp: bit_simps add.commute dest: bit_imp_le_length)

text \<open>So packets are told apart by their identifier, source node and network.\<close>

lemma same_id_iff: "same_id a b \<longleftrightarrow> extid_pid a = extid_pid b \<and> extid_src a = extid_src b \<and> extid_net a = extid_net b"
proof
  assume s: "same_id a b"
  show "extid_pid a = extid_pid b \<and> extid_src a = extid_src b \<and> extid_net a = extid_net b"
    using s unfolding same_id_bits
    by (intro conjI; intro bit_word_eqI; auto simp: bit_extid_pid bit_extid_src bit_extid_net)
next
  assume e: "extid_pid a = extid_pid b \<and> extid_src a = extid_src b \<and> extid_net a = extid_net b"
  have p: "n < 16 \<Longrightarrow> bit a (n + 3) = bit b (n + 3)" for n using e bit_extid_pid by metis
  have s: "n < 7 \<Longrightarrow> bit a (n + 19) = bit b (n + 19)" for n using e bit_extid_src by metis
  have t: "n < 3 \<Longrightarrow> bit a (n + 26) = bit b (n + 26)" for n using e bit_extid_net by metis
  show "same_id a b"
    unfolding same_id_bits
  proof (intro allI impI)
    fix n :: nat assume n: "3 \<le> n \<and> n < 29"
    then consider "n - 3 < 16" "n = n - 3 + 3" | "n - 19 < 7" "n = n - 19 + 19" | "n - 26 < 3" "n = n - 26 + 26"
      by linarith
    then show "bit a n = bit b n" using p s t by cases metis+
  qed
qed

end
