(* ===== verification/Can_Pool.thy ===== *)
theory Can_Pool
  imports Can_Format Xbus_Stream
begin

text \<open>
  \<open>xbus/can/CanPool.h\<close> and \<open>CanPool.cpp\<close>: reassembly of packets from CAN messages.
  The pool has 76 items (slots for eight bytes) and eight trees; indices of items are bytes, 0xFF
  meaning none.  The items of a tree, and the free items, form linked lists.  An access outside
  the arrays, and a loop that does not end, is \<open>None\<close>.
\<close>

unbundle bit_operations_syntax

subsection \<open>The pool\<close>

datatype error_type = PacketAvailable | MsgAccepted | MsgDropped
  | ErrorDLC | ErrorSlotsOverflow | ErrorTreeOverflow | ErrorSeqIdx | ErrorOrphan

definition size_items :: nat where "size_items = 76"
definition size_trees :: nat where "size_trees = 8"
definition max_idx :: u8 where "max_idx = 0xFF"
definition max_seq_idx :: nat where "max_seq_idx = size_items"
definition can_timeout :: u8 where "can_timeout = 7"

record item =
  it_next :: u8
  it_data :: bytes

record tree =
  tr_extid :: extid_s
  tr_head :: u8
  tr_dlc :: u8
  tr_to :: u8

record pool =
  p_trees :: "tree list"
  p_items :: "item list"
  p_free :: u8

definition set_tree :: "nat \<Rightarrow> (tree \<Rightarrow> tree) \<Rightarrow> pool \<Rightarrow> pool" where
  "set_tree i f p = p\<lparr> p_trees := (p_trees p)[i := f (p_trees p ! i)] \<rparr>"

definition set_item :: "nat \<Rightarrow> (item \<Rightarrow> item) \<Rightarrow> pool \<Rightarrow> pool" where
  "set_item i f p = p\<lparr> p_items := (p_items p)[i := f (p_items p ! i)] \<rparr>"

definition tree_range :: "pool \<Rightarrow> nat list" where
  "tree_range p = [0..<length (p_trees p)]"

definition pool_init :: pool where
  "pool_init =
     \<lparr> p_trees = replicate size_trees \<lparr> tr_extid = 0, tr_head = max_idx, tr_dlc = 0, tr_to = 0 \<rparr>,
       p_items = (map (\<lambda>i. \<lparr> it_next = of_nat (i + 1), it_data = replicate 8 0 \<rparr>) [0..<size_items])
                   [size_items - 1 := \<lparr> it_next = max_idx, it_data = replicate 8 0 \<rparr>],
       p_free = 0 \<rparr>"

subsection \<open>Operations\<close>

text \<open>\<open>push(data)\<close>: the first free item takes the data and leaves the free list.\<close>

definition pool_take :: "bytes \<Rightarrow> pool \<Rightarrow> pool option" where
  "pool_take data p =
     (let f = unat (p_free p)
      in if f < length (p_items p) \<and> 8 \<le> length data
         then Some ((set_item f (\<lambda>i. \<lparr> it_next = max_idx, it_data = take 8 data \<rparr>) p)
                      \<lparr> p_free := it_next (p_items p ! f) \<rparr>)
         else None)"

text \<open>\<open>remove(Tree&)\<close>: every item of the tree goes to the front of the free list.\<close>

partial_function (option) release :: "nat \<Rightarrow> pool \<Rightarrow> pool option" where
  "release ti p =
     (let idx = tr_head (p_trees p ! ti)
      in if idx = max_idx then Some p
         else if unat idx < length (p_items p)
         then
           let nxt = it_next (p_items p ! unat idx);
               p = set_tree ti (\<lambda>t. t\<lparr> tr_head := nxt \<rparr>) p;
               p = set_item (unat idx) (\<lambda>i. i\<lparr> it_next := p_free p \<rparr>) p
           in release ti (p\<lparr> p_free := idx \<rparr>)
         else None)"

text \<open>\<open>remove(extid)\<close>: all unfinished trees of the packet.\<close>

fun remove_loop :: "extid_s \<Rightarrow> nat list \<Rightarrow> pool \<Rightarrow> pool option" where
  "remove_loop e [] p = Some p"
| "remove_loop e (i # is) p =
     (let t = p_trees p ! i
      in if tr_head t = max_idx then remove_loop e is p
         else if tr_dlc t \<noteq> 0 then remove_loop e is p
         else if (tr_extid t XOR e) AND mf_id_mask \<noteq> 0 then remove_loop e is p
         else do { p \<leftarrow> release i p; remove_loop e is p })"

definition pool_remove :: "extid_s \<Rightarrow> pool \<Rightarrow> pool option" where
  "pool_remove e p = remove_loop e (tree_range p) p"

fun timeout_loop :: "nat list \<Rightarrow> bool \<Rightarrow> pool \<Rightarrow> (bool \<times> pool) option" where
  "timeout_loop [] rv p = Some (rv, p)"
| "timeout_loop (i # is) rv p =
     (let t = p_trees p ! i
      in if tr_head t = max_idx then timeout_loop is rv p
         else if tr_dlc t \<noteq> 0 then timeout_loop is rv p
         else if tr_to t = 0 then do { p \<leftarrow> release i p; timeout_loop is True p }
         else timeout_loop is rv (set_tree i (\<lambda>t. t\<lparr> tr_to := tr_to t - 1 \<rparr>) p))"

definition pool_timeout :: "pool \<Rightarrow> (bool \<times> pool) option" where
  "pool_timeout p = timeout_loop (tree_range p) False p"

text \<open>\<open>push_new\<close>: the first empty tree, or \<open>ErrorTreeOverflow\<close>.\<close>

fun push_new_loop :: "extid_s \<Rightarrow> bytes \<Rightarrow> u8 \<Rightarrow> nat list \<Rightarrow> pool \<Rightarrow> (error_type \<times> pool) option" where
  "push_new_loop e data dlc [] p = do { (_, p) \<leftarrow> pool_timeout p; Some (ErrorTreeOverflow, p) }"
| "push_new_loop e data dlc (i # is) p =
     (if tr_head (p_trees p ! i) \<noteq> max_idx then push_new_loop e data dlc is p
      else do {
        let p = set_tree i (\<lambda>t. t\<lparr> tr_extid := e, tr_to := can_timeout, tr_dlc := dlc, tr_head := p_free p \<rparr>) p;
        p \<leftarrow> pool_take data p;
        if dlc \<noteq> 0 then Some (PacketAvailable, p)
        else Some (MsgAccepted, set_tree i (\<lambda>t. t\<lparr> tr_extid := extid_set_frm 0 (tr_extid t) \<rparr>) p)
      })"

definition push_new :: "extid_s \<Rightarrow> bytes \<Rightarrow> u8 \<Rightarrow> pool \<Rightarrow> (error_type \<times> pool) option" where
  "push_new e data dlc p = do { p \<leftarrow> pool_remove e p; push_new_loop e data dlc (tree_range p) p }"

text \<open>\<open>push_next(Tree&)\<close>: walk to the tail; \<open>n\<close> is \<open>max_seq_idx - cnt\<close>.\<close>

fun append_loop :: "nat \<Rightarrow> u8 \<Rightarrow> nat \<Rightarrow> bytes \<Rightarrow> pool \<Rightarrow> (error_type \<times> pool) option" where
  "append_loop 0 nxt ti data p = Some (ErrorSeqIdx, p)"
| "append_loop (Suc n) nxt ti data p =
     (if unat nxt < length (p_items p) then
        let i = p_items p ! unat nxt
        in if it_next i = max_idx then do {
             let p = set_tree ti (\<lambda>t. t\<lparr> tr_to := can_timeout \<rparr>) p;
             let p = set_item (unat nxt) (\<lambda>i. i\<lparr> it_next := p_free p \<rparr>) p;
             p \<leftarrow> pool_take data p;
             Some (MsgAccepted, p)
           }
           else append_loop n (it_next i) ti data p
      else None)"

definition push_next_tree :: "nat \<Rightarrow> bytes \<Rightarrow> pool \<Rightarrow> (error_type \<times> pool) option" where
  "push_next_tree ti data p = append_loop max_seq_idx (tr_head (p_trees p ! ti)) ti data p"

text \<open>
  The loop of \<open>push_next\<close>.  The flag tells a \<open>return\<close> from leaving the loop (at its end or
  by \<open>break\<close>) with the value of \<open>rv\<close>.
\<close>

fun push_next_loop :: "extid_s \<Rightarrow> bytes \<Rightarrow> u8 \<Rightarrow> nat list \<Rightarrow> pool \<Rightarrow> (bool \<times> error_type \<times> pool) option" where
  "push_next_loop e data dlc [] p = Some (False, ErrorOrphan, p)"
| "push_next_loop e data dlc (i # is) p =
     (let t = p_trees p ! i
      in if tr_head t = max_idx then push_next_loop e data dlc is p
         else if tr_dlc t \<noteq> 0 then push_next_loop e data dlc is p
         else if (tr_extid t XOR e) AND mf_id_mask \<noteq> 0 then push_next_loop e data dlc is p
         else if dlc = 0 \<and> extid_frm e \<noteq> extid_frm (tr_extid t) then
           let t_frm = extid_frm (tr_extid t);
               t_frm = (if t_frm > 0 then t_frm - 1 else frm_seq_max)
           in if extid_frm e \<noteq> t_frm then Some (False, ErrorOrphan, p)
              else Some (True, MsgDropped, p)
         else do {
           let t_frm = (if dlc = 0 then extid_frm (tr_extid t) else 0);
           (rv, p) \<leftarrow> push_next_tree i data p;
           if rv \<noteq> MsgAccepted then Some (False, rv, p)
           else if dlc \<noteq> 0 then Some (True, PacketAvailable, set_tree i (\<lambda>t. t\<lparr> tr_dlc := dlc \<rparr>) p)
           else
             let t_frm = t_frm + 1;
                 f = (if t_frm > frm_seq_max then 0 else t_frm)
             in Some (True, MsgAccepted, set_tree i (\<lambda>t. t\<lparr> tr_extid := extid_set_frm f (tr_extid t) \<rparr>) p)
         })"

definition push_next :: "extid_s \<Rightarrow> bytes \<Rightarrow> u8 \<Rightarrow> pool \<Rightarrow> (error_type \<times> pool) option" where
  "push_next e data dlc p = do {
     (returned, rv, p) \<leftarrow> push_next_loop e data dlc (tree_range p) p;
     if returned then Some (rv, p)
     else do {
       p \<leftarrow> pool_remove e p;
       (_, p) \<leftarrow> pool_timeout p;
       Some (rv, p)
     }
   }"

definition pool_push :: "extid_s \<Rightarrow> bytes \<Rightarrow> u8 \<Rightarrow> pool \<Rightarrow> (error_type \<times> pool) option" where
  "pool_push e data dlc p =
     (if p_free p = max_idx then do {
        (_, p) \<leftarrow> pool_timeout p;
        p \<leftarrow> pool_remove e p;
        Some (ErrorSlotsOverflow, p)
      }
      else if extid_frm e = frm_end then
        if dlc = 0 then Some (ErrorDLC, p)
        else do {
          (rv, p) \<leftarrow> push_next e data dlc p;
          if rv \<noteq> MsgAccepted then Some (rv, p)
          else do { (_, p) \<leftarrow> pool_timeout p; Some (PacketAvailable, p) }
        }
      else if extid_frm e = frm_start then
        if dlc \<noteq> 8 then Some (ErrorDLC, p) else push_new e data 0 p
      else if extid_frm e = frm_single then push_new e data (if dlc > 0 then dlc else 0xFF) p
      else
        if dlc \<noteq> 8 then Some (ErrorDLC, p) else push_next e data 0 p)"

subsection \<open>Reading\<close>

text \<open>The loop of \<open>read_packet(Tree&)\<close> over the items of a tree.\<close>

partial_function (option) read_chain :: "nat \<Rightarrow> u8 \<Rightarrow> item list \<Rightarrow> u8 \<Rightarrow> writer \<Rightarrow> writer option" where
  "read_chain sz dlc items nxt w =
     (if unat nxt < length items then
        let i = items ! unat nxt
        in if it_next i \<noteq> max_idx then
             if size_add (w_pos w) 8 > sz then Some w
             else do { (_, w) \<leftarrow> write_mem (it_data i) 8 w; read_chain sz dlc items (it_next i) w }
           else if dlc \<le> 8 then
             if size_add (w_pos w) (unat dlc) > sz then Some w
             else do { (_, w) \<leftarrow> write_mem (it_data i) (unat dlc) w; Some w }
           else Some w
      else None)"

text \<open>\<open>dest\<close> is the memory of the caller's buffer, \<open>sz\<close> the size passed along.\<close>

definition read_tree :: "nat \<Rightarrow> bytes \<Rightarrow> nat \<Rightarrow> pool \<Rightarrow> (nat \<times> bytes \<times> pool) option" where
  "read_tree ti dest sz p = do {
     let t = p_trees p ! ti;
     (_, w) \<leftarrow> write_u16 (extid_pid (tr_extid t)) (writer_make dest sz);
     w \<leftarrow> read_chain sz (tr_dlc t) (p_items p) (tr_head t) w;
     p \<leftarrow> release ti p;
     Some (w_pos w, w_buf w, p)
   }"

fun read_packet_loop :: "nat list \<Rightarrow> bytes \<Rightarrow> nat \<Rightarrow> u8 \<Rightarrow> pool \<Rightarrow> (nat \<times> bytes \<times> u8 \<times> pool) option" where
  "read_packet_loop [] dest sz src p = Some (0, dest, src, p)"
| "read_packet_loop (i # is) dest sz src p =
     (let t = p_trees p ! i
      in if tr_head t = max_idx then read_packet_loop is dest sz src p
         else if tr_dlc t = 0 then read_packet_loop is dest sz src p
         else do {
           let src = extid_src (tr_extid t);
           (cnt, dest, p) \<leftarrow> read_tree i dest sz p;
           if cnt > 0 then Some (cnt, dest, src, p)
           else read_packet_loop is dest sz src p
         })"

text \<open>The packet's size and bytes, and the source node stored through \<open>src_id\<close>.\<close>

definition pool_read_packet :: "bytes \<Rightarrow> nat \<Rightarrow> u8 \<Rightarrow> pool \<Rightarrow> (nat \<times> bytes \<times> u8 \<times> pool) option" where
  "pool_read_packet dest sz src p = read_packet_loop (tree_range p) dest sz src p"

partial_function (option) space_loop :: "item list \<Rightarrow> u8 \<Rightarrow> nat \<Rightarrow> nat option" where
  "space_loop items i cnt =
     (if i = max_idx then Some cnt
      else if unat i < length items then space_loop items (it_next (items ! unat i)) (cnt + 1)
      else None)"

definition pool_space :: "pool \<Rightarrow> nat option" where
  "pool_space p = space_loop (p_items p) (p_free p) 0"

end
