(* ===== verification/Can_Pool_Inv.thy ===== *)
theory Can_Pool_Inv
  imports Can_Pool "HOL-Library.Multiset"
begin

text \<open>
  The data structure invariant of the CAN pool: the free list and the lists of the eight trees
  partition the items.  Every operation keeps it, so no index ever leaves the arrays and every
  list walk ends.
\<close>

unbundle bit_operations_syntax

subsection \<open>Linked lists over the items\<close>

fun chain :: "item list \<Rightarrow> u8 \<Rightarrow> nat list \<Rightarrow> bool" where
  "chain it h [] \<longleftrightarrow> h = max_idx"
| "chain it h (x # xs) \<longleftrightarrow> h = of_nat x \<and> x < size_items \<and> chain it (it_next (it ! x)) xs"

lemma unat_index: "x < size_items \<Longrightarrow> unat (of_nat x :: u8) = x"
  by (simp add: size_items_def unat_of_nat)

lemma index_not_max: "x < size_items \<Longrightarrow> (of_nat x :: u8) \<noteq> max_idx"
proof
  assume x: "x < size_items" and "(of_nat x :: u8) = max_idx"
  then have "unat (of_nat x :: u8) = unat max_idx" by simp
  with x show False by (simp add: unat_index max_idx_def) (simp add: size_items_def)
qed

lemma chain_update: "x \<notin> set xs \<Longrightarrow> chain (it[x := v]) h xs = chain it h xs"
  by (induction xs arbitrary: h) auto

lemma chain_Nil_iff: "chain it h xs \<Longrightarrow> h = max_idx \<longleftrightarrow> xs = []"
  by (cases xs) (auto dest: index_not_max)

lemma concat_nth_disjoint:
  "distinct (concat ls) \<Longrightarrow> i < length ls \<Longrightarrow> j < length ls \<Longrightarrow> i \<noteq> j \<Longrightarrow> set (ls ! i) \<inter> set (ls ! j) = {}"
proof (induction ls arbitrary: i j)
  case (Cons l ls)
  have sub: "k < length ls \<Longrightarrow> set (ls ! k) \<subseteq> set (concat ls)" for k
    using nth_mem by (fastforce simp: set_concat)
  show ?case
  proof (cases i)
    case 0
    then obtain j' where "j = Suc j'" using Cons.prems by (cases j) auto
    then show ?thesis using 0 Cons.prems sub [of j'] by auto
  next
    case i: (Suc i')
    show ?thesis
    proof (cases j)
      case 0
      then show ?thesis using i Cons.prems sub [of i'] by auto
    next
      case (Suc j')
      then show ?thesis using i Cons.prems Cons.IH [of i' j'] by auto
    qed
  qed
qed simp

lemma mset_concat_update:
  "i < length ls \<Longrightarrow> mset (concat (ls[i := xs])) + mset (ls ! i) = mset (concat ls) + mset xs"
proof (induction ls arbitrary: i)
  case (Cons l ls)
  then show ?case by (cases i) (auto simp: ac_simps)
qed simp

subsection \<open>The invariant\<close>

text \<open>\<open>fl\<close> is the free list and \<open>cs ! i\<close> the list of tree \<open>i\<close>.\<close>

definition items_ok :: "item list \<Rightarrow> bool" where
  "items_ok it \<longleftrightarrow> (\<forall>k < length it. length (it_data (it ! k)) = 8)"

lemma items_ok_update: "items_ok it \<Longrightarrow> length (it_data v) = 8 \<Longrightarrow> items_ok (it[k := v])"
  by (cases "k < length it") (auto simp: items_ok_def nth_list_update)

lemma items_ok_nth: "items_ok it \<Longrightarrow> k < length it \<Longrightarrow> length (it_data (it ! k)) = 8"
  by (simp add: items_ok_def)

definition pool_inv :: "pool \<Rightarrow> nat list \<Rightarrow> nat list list \<Rightarrow> bool" where
  "pool_inv p fl cs \<longleftrightarrow>
     length (p_trees p) = size_trees \<and> length (p_items p) = size_items \<and> length cs = size_trees \<and>
     items_ok (p_items p) \<and>
     chain (p_items p) (p_free p) fl \<and>
     (\<forall>i < size_trees. chain (p_items p) (tr_head (p_trees p ! i)) (cs ! i)) \<and>
     mset (fl @ concat cs) = mset [0..<size_items]"

lemma pool_inv_distinct: "pool_inv p fl cs \<Longrightarrow> distinct (concat (fl # cs))"
proof -
  assume "pool_inv p fl cs"
  then have "mset (fl @ concat cs) = mset [0..<size_items]" by (simp add: pool_inv_def)
  from mset_eq_imp_distinct_iff [OF this] show ?thesis by simp
qed

lemma pool_inv_count: "pool_inv p fl cs \<Longrightarrow> length fl + length (concat cs) = size_items"
proof -
  assume "pool_inv p fl cs"
  then have "mset (fl @ concat cs) = mset [0..<size_items]" by (simp add: pool_inv_def)
  from arg_cong [OF this, of size] show ?thesis by simp
qed

lemma pool_inv_free_tree:
  assumes "pool_inv p fl cs" "i < size_trees"
  shows "set fl \<inter> set (cs ! i) = {}"
  using concat_nth_disjoint [OF pool_inv_distinct [OF assms(1)], of 0 "Suc i"] assms
  by (simp add: pool_inv_def)

lemma pool_inv_tree_tree:
  assumes "pool_inv p fl cs" "i < size_trees" "j < size_trees" "i \<noteq> j"
  shows "set (cs ! i) \<inter> set (cs ! j) = {}"
  using concat_nth_disjoint [OF pool_inv_distinct [OF assms(1)], of "Suc i" "Suc j"] assms
  by (simp add: pool_inv_def)

lemma pool_inv_distinct_tree:
  assumes "pool_inv p fl cs" "i < size_trees"
  shows "distinct (cs ! i)" "distinct fl"
  using pool_inv_distinct [OF assms(1)] assms by (auto simp: pool_inv_def distinct_concat_iff)

lemma pool_inv_head: "pool_inv p fl cs \<Longrightarrow> i < size_trees \<Longrightarrow> tr_head (p_trees p ! i) = max_idx \<longleftrightarrow> cs ! i = []"
  by (auto simp: pool_inv_def dest: chain_Nil_iff)

lemma pool_inv_free: "pool_inv p fl cs \<Longrightarrow> p_free p = max_idx \<longleftrightarrow> fl = []"
  by (auto simp: pool_inv_def dest: chain_Nil_iff)

lemma tree_range: "pool_inv p fl cs \<Longrightarrow> tree_range p = [0..<size_trees]"
  by (simp add: pool_inv_def tree_range_def)

lemma chain_index: "chain it h xs \<Longrightarrow> x \<in> set xs \<Longrightarrow> x < size_items"
  by (induction xs arbitrary: h) auto

lemma pool_init_inv: "pool_inv pool_init [0..<size_items] (replicate size_trees [])"
proof -
  let ?it = "p_items pool_init"
  have nxt: "it_next (?it ! i) = (if i = size_items - 1 then max_idx else of_nat (i + 1))" if "i < size_items" for i
    using that by (simp add: pool_init_def)
  have "chain ?it (if k < size_items then of_nat k else max_idx) [k..<size_items]" if "k \<le> size_items" for k
    using that
  proof (induction "size_items - k" arbitrary: k)
    case 0
    then show ?case by simp
  next
    case (Suc n)
    then have k: "k < size_items" by simp
    have "chain ?it (if Suc k < size_items then of_nat (Suc k) else max_idx) [Suc k..<size_items]"
      using Suc(1) [of "Suc k"] Suc(2) k by simp
    moreover have "it_next (?it ! k) = (if Suc k < size_items then of_nat (Suc k) else max_idx)"
      using nxt [OF k] k by auto
    ultimately show ?case using k by (simp add: upt_conv_Cons)
  qed
  from this [of 0] have "chain ?it 0 [0..<size_items]" by (simp add: size_items_def)
  moreover have "items_ok ?it"
    by (auto simp: items_ok_def pool_init_def nth_list_update)
  ultimately show ?thesis
    by (simp add: pool_inv_def) (simp add: pool_init_def size_trees_def)
qed

subsection \<open>Field access after an update\<close>

lemma set_tree_fields [pool_simps]:
  "p_items (set_tree i f p) = p_items p" "p_free (set_tree i f p) = p_free p"
  "p_trees (set_tree i f p) = (p_trees p)[i := f (p_trees p ! i)]"
  by (simp_all add: set_tree_def)

lemma set_item_fields [pool_simps]:
  "p_trees (set_item i f p) = p_trees p" "p_free (set_item i f p) = p_free p"
  "p_items (set_item i f p) = (p_items p)[i := f (p_items p ! i)]"
  by (simp_all add: set_item_def)

lemma pool_inv_set_tree:
  assumes "pool_inv p fl cs" "tr_head (f (p_trees p ! i)) = tr_head (p_trees p ! i)"
  shows "pool_inv (set_tree i f p) fl cs"
proof -
  have "tr_head ((p_trees p)[i := f (p_trees p ! i)] ! j) = tr_head (p_trees p ! j)" for j
    using assms(2) by (cases "i < length (p_trees p)") (auto simp: nth_list_update list_update_beyond not_less)
  then show ?thesis using assms(1) by (simp add: pool_inv_def pool_simps)
qed

subsection \<open>Releasing a tree\<close>

lemma release_spec:
  assumes "pool_inv p fl cs" "i < size_trees"
  shows "\<exists>p'. release i p = Some p' \<and> pool_inv p' (rev (cs ! i) @ fl) (cs[i := []]) \<and>
    p_trees p' = (p_trees p)[i := (p_trees p ! i)\<lparr> tr_head := max_idx \<rparr>] \<and>
    map it_data (p_items p') = map it_data (p_items p)"
  using assms
proof (induction "cs ! i" arbitrary: p fl cs)
  case Nil
  then have h: "tr_head (p_trees p ! i) = max_idx" by (simp add: pool_inv_head)
  then have "release i p = Some p" by (subst release.simps) simp
  moreover have "(p_trees p ! i)\<lparr> tr_head := max_idx \<rparr> = p_trees p ! i"
    using h by (cases "p_trees p ! i") simp
  moreover have "cs[i := []] = cs" using Nil(1) by (metis list_update_id)
  ultimately show ?case using Nil by (simp add: list_update_id)
next
  case (Cons x xs)
  let ?it = "p_items p" and ?t = "p_trees p ! i"
  let ?nxt = "it_next (?it ! x)"
  let ?p1 = "set_item x (\<lambda>i. i\<lparr> it_next := p_free p \<rparr>) (set_tree i (\<lambda>t. t\<lparr> tr_head := ?nxt \<rparr>) p)\<lparr> p_free := of_nat x \<rparr>"
  have len: "length (p_trees p) = size_trees" "length ?it = size_items" "length cs = size_trees"
    and ch: "chain ?it (tr_head ?t) (x # xs)"
    using Cons(2,3,4) by (auto simp: pool_inv_def)
  then have x: "x < size_items" "tr_head ?t = of_nat x" "chain ?it ?nxt xs" by auto
  have step: "release i p = release i ?p1"
    by (subst release.simps) (simp add: x index_not_max unat_index len set_tree_fields(2) pool_simps)
  have dist: "x \<notin> set xs" "x \<notin> set fl" "\<And>j. j < size_trees \<Longrightarrow> j \<noteq> i \<Longrightarrow> x \<notin> set (cs ! j)"
    using pool_inv_distinct_tree [OF Cons(3,4)] pool_inv_free_tree [OF Cons(3,4)]
      pool_inv_tree_tree [OF Cons(3,4)] unfolding Cons(2) [symmetric] by auto
  have it1: "p_items ?p1 = ?it[x := (?it ! x)\<lparr> it_next := p_free p \<rparr>]" by (simp add: pool_simps)
  have "pool_inv ?p1 (x # fl) (cs[i := xs])"
    unfolding pool_inv_def
  proof (intro conjI allI impI)
    show "items_ok (p_items ?p1)"
      using Cons(3) x(1) len unfolding it1 by (simp add: pool_inv_def items_ok_update items_ok_nth)
    show "chain (p_items ?p1) (p_free ?p1) (x # fl)"
      using Cons(3) x len dist by (simp add: it1 chain_update pool_inv_def)
    show "chain (p_items ?p1) (tr_head (p_trees ?p1 ! j)) (cs[i := xs] ! j)" if "j < size_trees" for j
      using that Cons(3) x len dist by (cases "j = i") (simp_all add: it1 pool_simps chain_update pool_inv_def)
    have "mset (concat (cs[i := xs])) + mset (x # xs) = mset (concat cs) + mset xs"
      using mset_concat_update [of i cs xs] Cons(2,4) len by simp
    then have "mset (concat cs) = add_mset x (mset (concat (cs[i := xs])))" by simp
    then show "mset ((x # fl) @ concat (cs[i := xs])) = mset [0..<size_items]"
      using Cons(3) by (simp add: pool_inv_def)
  qed (use len in \<open>simp_all add: pool_simps\<close>)
  moreover have "xs = cs[i := xs] ! i" using len Cons(4) by simp
  ultimately obtain p' where p': "release i ?p1 = Some p'" "pool_inv p' (rev xs @ x # fl) (cs[i := xs, i := []])"
    "p_trees p' = (p_trees ?p1)[i := (p_trees ?p1 ! i)\<lparr> tr_head := max_idx \<rparr>]"
    "map it_data (p_items p') = map it_data (p_items ?p1)"
    using Cons(1) [of "cs[i := xs]" ?p1 "x # fl"] Cons(4) by auto
  have "map it_data (p_items ?p1) = map it_data ?it"
    by (simp add: it1 map_update) (metis list_update_id map_update nth_map x(1) len(2))
  moreover have "p_trees p' = (p_trees p)[i := ?t\<lparr> tr_head := max_idx \<rparr>]"
    using p'(3) Cons(4) len by (simp add: pool_simps)
  ultimately show ?case using p' step Cons(2) [symmetric] by simp
qed

subsection \<open>Taking an item\<close>

text \<open>
  Linking the first free item to a head or a tail and then taking it from the free list moves it
  to the end of that list.
\<close>

lemma chain_snoc:
  "chain it h xs \<Longrightarrow> xs \<noteq> [] \<Longrightarrow> distinct xs \<Longrightarrow> x \<notin> set xs \<Longrightarrow> x < size_items \<Longrightarrow> length it = size_items \<Longrightarrow>
     it_next v = of_nat x \<Longrightarrow> it_next w = max_idx \<Longrightarrow> chain (it[last xs := v, x := w]) h (xs @ [x])"
proof (induction xs arbitrary: h)
  case (Cons y ys)
  show ?case
  proof (cases "ys = []")
    case True
    then show ?thesis using Cons.prems by simp
  next
    case False
    then have "last ys \<in> set ys" by simp
    then have "last ys \<noteq> y" using Cons.prems by auto
    then show ?thesis using Cons False by simp
  qed
qed simp

lemma pool_inv_free_hd:
  assumes "pool_inv p (x # fl) cs"
  shows "x < size_items" "unat (p_free p) = x" "chain (p_items p) (it_next (p_items p ! x)) fl"
    "x \<notin> set fl" "i < size_trees \<Longrightarrow> x \<notin> set (cs ! i)"
  using assms pool_inv_free_tree [OF assms, of i] pool_inv_distinct [OF assms]
  by (auto simp: pool_inv_def unat_index)

lemma pool_take_spec:
  assumes "pool_inv p (x # fl) cs" "length data = 8"
  shows "pool_take data p = Some (p\<lparr> p_items := (p_items p)[x := \<lparr> it_next = max_idx, it_data = data \<rparr>],
    p_free := it_next (p_items p ! x) \<rparr>)"
  using assms pool_inv_free_hd [OF assms(1)] by (simp add: pool_take_def set_item_def pool_inv_def)

lemma pool_inv_new:
  assumes inv: "pool_inv p (x # fl) cs" and i: "i < size_trees" and empty: "cs ! i = []"
    and data: "length data = 8" and head: "tr_head (f (p_trees p ! i)) = p_free p"
  shows "\<exists>p'. pool_take data (set_tree i f p) = Some p' \<and> pool_inv p' fl (cs[i := [x]]) \<and>
    p_trees p' = (p_trees p)[i := f (p_trees p ! i)] \<and>
    p_items p' = (p_items p)[x := \<lparr> it_next = max_idx, it_data = data \<rparr>]"
proof -
  note hd = pool_inv_free_hd [OF inv]
  let ?it = "(p_items p)[x := \<lparr> it_next = max_idx, it_data = data \<rparr>]"
  let ?p' = "(set_tree i f p)\<lparr> p_items := ?it, p_free := it_next (p_items p ! x) \<rparr>"
  have len: "length (p_trees p) = size_trees" "length (p_items p) = size_items" "length cs = size_trees"
    using inv by (auto simp: pool_inv_def)
  have "pool_take data (set_tree i f p) = Some ?p'"
    using hd len data by (simp add: pool_take_def set_item_def pool_simps)
  moreover have "pool_inv ?p' fl (cs[i := [x]])"
    unfolding pool_inv_def
  proof (intro conjI allI impI)
    show "items_ok (p_items ?p')"
      using inv data by (simp add: items_ok_update pool_inv_def)
    show "chain (p_items ?p') (p_free ?p') fl" using hd by (simp add: chain_update)
    show "chain (p_items ?p') (tr_head (p_trees ?p' ! j)) (cs[i := [x]] ! j)" if "j < size_trees" for j
    proof (cases "j = i")
      case True
      have "p_free p = of_nat x" using inv by (simp add: pool_inv_def)
      then show ?thesis using True len i hd(1) head by (simp add: pool_simps)
    next
      case False
      then show ?thesis using that inv hd(5) [OF that] len by (simp add: pool_simps chain_update pool_inv_def)
    qed
    have "mset (concat (cs[i := [x]])) = mset (concat cs) + {#x#}"
      using mset_concat_update [of i cs "[x]"] i len empty by simp
    then show "mset (fl @ concat (cs[i := [x]])) = mset [0..<size_items]"
      using inv by (simp add: pool_inv_def)
  qed (use len in \<open>simp_all add: pool_simps\<close>)
  ultimately show ?thesis by (auto simp: pool_simps)
qed

lemma pool_inv_append:
  assumes inv: "pool_inv p (x # fl) cs" and i: "i < size_trees" and ne: "cs ! i \<noteq> []"
    and data: "length data = 8" and head: "tr_head (f (p_trees p ! i)) = tr_head (p_trees p ! i)"
  shows "\<exists>p'. pool_take data (set_item (last (cs ! i)) (\<lambda>y. y\<lparr> it_next := p_free p \<rparr>) (set_tree i f p)) = Some p' \<and>
    pool_inv p' fl (cs[i := cs ! i @ [x]]) \<and> p_trees p' = (p_trees p)[i := f (p_trees p ! i)] \<and>
    map it_data (p_items p') = (map it_data (p_items p))[x := data]"
proof -
  note hd = pool_inv_free_hd [OF inv]
  let ?l = "last (cs ! i)"
  let ?v = "(p_items p ! ?l)\<lparr> it_next := p_free p \<rparr>"
  let ?it = "(p_items p)[?l := ?v, x := \<lparr> it_next = max_idx, it_data = data \<rparr>]"
  let ?p' = "(set_tree i f p)\<lparr> p_items := ?it, p_free := it_next (p_items p ! x) \<rparr>"
  have len: "length (p_trees p) = size_trees" "length (p_items p) = size_items" "length cs = size_trees"
    using inv by (auto simp: pool_inv_def)
  have l: "?l \<in> set (cs ! i)" using ne by simp
  then have l': "?l < size_items" "?l \<noteq> x" "?l \<notin> set fl"
    using chain_index hd(5) [OF i] pool_inv_free_tree [OF inv i] inv i by (auto simp: pool_inv_def)
  have other: "?l \<notin> set (cs ! j)" if "j < size_trees" "j \<noteq> i" for j
    using pool_inv_tree_tree [OF inv that(1) i that(2)] l by auto
  have "pool_take data (set_item ?l (\<lambda>y. y\<lparr> it_next := p_free p \<rparr>) (set_tree i f p)) = Some ?p'"
    using hd len data l' by (simp add: pool_take_def set_item_def pool_simps)
  moreover have "pool_inv ?p' fl (cs[i := cs ! i @ [x]])"
    unfolding pool_inv_def
  proof (intro conjI allI impI)
    show "items_ok (p_items ?p')"
      using inv data l' len by (simp add: items_ok_update items_ok_nth pool_inv_def)
    show "chain (p_items ?p') (p_free ?p') fl" using hd l' by (simp add: chain_update)
    show "chain (p_items ?p') (tr_head (p_trees ?p' ! j)) (cs[i := cs ! i @ [x]] ! j)" if "j < size_trees" for j
    proof (cases "j = i")
      case True
      have "it_next ?v = of_nat x" "chain (p_items p) (tr_head (p_trees p ! i)) (cs ! i)"
        using inv i by (auto simp: pool_inv_def)
      then have "chain ?it (tr_head (p_trees p ! i)) (cs ! i @ [x])"
        using ne pool_inv_distinct_tree(1) [OF inv i] hd(1) hd(5) [OF i] len by (intro chain_snoc) simp_all
      then show ?thesis using True len i head by (simp add: pool_simps)
    next
      case False
      then show ?thesis using that inv hd(5) [OF that] len other [OF that False]
        by (simp add: pool_simps chain_update pool_inv_def)
    qed
    have "mset (concat (cs[i := cs ! i @ [x]])) = mset (concat cs) + {#x#}"
      using mset_concat_update [of i cs "cs ! i @ [x]"] i len by simp
    then show "mset (fl @ concat (cs[i := cs ! i @ [x]])) = mset [0..<size_items]"
      using inv by (simp add: pool_inv_def)
  qed (use len in \<open>simp_all add: pool_simps\<close>)
  moreover have "map it_data ?it = (map it_data (p_items p))[x := data]"
    by (simp add: map_update) (metis l'(1) len(2) list_update_id map_update nth_map)
  ultimately show ?thesis by (auto simp: pool_simps)
qed

text \<open>The walk to the tail reaches it.\<close>

lemma append_loop_walk:
  "chain (p_items p) h xs \<Longrightarrow> xs \<noteq> [] \<Longrightarrow> length xs \<le> n \<Longrightarrow> length (p_items p) = size_items \<Longrightarrow>
     append_loop n h ti data p = do {
       p' \<leftarrow> pool_take data (set_item (last xs) (\<lambda>i. i\<lparr> it_next := p_free p \<rparr>)
               (set_tree ti (\<lambda>t. t\<lparr> tr_to := can_timeout \<rparr>) p));
       Some (MsgAccepted, p') }"
proof (induction xs arbitrary: n h)
  case (Cons x xs)
  then obtain m where n: "n = Suc m" by (cases n) auto
  show ?case
  proof (cases "xs = []")
    case True
    then show ?thesis using Cons.prems n by (simp add: unat_index set_tree_fields)
  next
    case False
    then have "it_next (p_items p ! x) \<noteq> max_idx" using Cons.prems chain_Nil_iff by auto
    then show ?thesis using Cons n False by (simp add: unat_index)
  qed
qed simp

text \<open>\<open>space\<close> counts the free list.\<close>

lemma space_loop_chain:
  "chain items h xs \<Longrightarrow> length items = size_items \<Longrightarrow> space_loop items h n = Some (n + length xs)"
proof (induction xs arbitrary: h n)
  case Nil
  then show ?case by (subst space_loop.simps) simp
next
  case (Cons x xs)
  then show ?case by (subst space_loop.simps) (simp add: index_not_max unat_index)
qed

lemma pool_space_inv: "pool_inv p fl cs \<Longrightarrow> pool_space p = Some (length fl)"
  using space_loop_chain [of "p_items p" "p_free p" fl 0] by (simp add: pool_space_def pool_inv_def)

end
