(* ===== verification/Simulation.thy ===== *)
theory Simulation
  imports Main
begin

text \<open>
  Refinement of a component with state: a concrete step that may have no meaning (\<open>None\<close>: an
  access outside an array, a loop that does not end) against a total specification.  The locale
  lifts the simulation of one step to every sequence of inputs.
\<close>

subsection \<open>Runs\<close>

fun run_steps :: "('i \<Rightarrow> 's \<Rightarrow> ('o \<times> 's) option) \<Rightarrow> 'i list \<Rightarrow> 's \<Rightarrow> ('o list \<times> 's) option" where
  "run_steps step [] s = Some ([], s)"
| "run_steps step (i # is) s =
     (case step i s of
        None \<Rightarrow> None
      | Some (out, s) \<Rightarrow> map_option (\<lambda>(outs, s). (out # outs, s)) (run_steps step is s))"

fun run_spec :: "('i \<Rightarrow> 'a \<Rightarrow> 'o \<times> 'a) \<Rightarrow> 'i list \<Rightarrow> 'a \<Rightarrow> 'o list \<times> 'a" where
  "run_spec astep [] a = ([], a)"
| "run_spec astep (i # is) a =
     (let (out, a) = astep i a; (outs, a) = run_spec astep is a in (out # outs, a))"

lemma run_spec_append:
  "run_spec astep (xs @ ys) a =
     (let (outs, a) = run_spec astep xs a; (outs', a) = run_spec astep ys a in (outs @ outs', a))"
  by (induction xs arbitrary: a) (simp_all add: case_prod_beta Let_def)

lemma length_run_spec [simp]: "length (fst (run_spec astep is a)) = length is"
  by (induction "is" arbitrary: a) (simp_all add: case_prod_beta Let_def)

lemma run_spec_invariant:
  assumes "\<And>i a. ok i \<Longrightarrow> J a \<Longrightarrow> J (snd (astep i a))"
  shows "list_all ok is \<Longrightarrow> J a \<Longrightarrow> J (snd (run_spec astep is a))"
  by (induction "is" arbitrary: a) (simp_all add: case_prod_beta Let_def assms)

subsection \<open>Simulation\<close>

locale simulation =
  fixes ok :: "'i \<Rightarrow> bool"
    and step :: "'i \<Rightarrow> 's \<Rightarrow> ('o \<times> 's) option"
    and astep :: "'i \<Rightarrow> 'a \<Rightarrow> 'o \<times> 'a"
    and rep :: "'s \<Rightarrow> 'a \<Rightarrow> bool"
  assumes sim: "ok i \<Longrightarrow> rep s a \<Longrightarrow>
    \<exists>s'. step i s = Some (fst (astep i a), s') \<and> rep s' (snd (astep i a))"
begin

lemma run_sim:
  assumes "list_all ok is" "rep s a"
  shows "\<exists>s'. run_steps step is s = Some (fst (run_spec astep is a), s') \<and> rep s' (snd (run_spec astep is a))"
  using assms
proof (induction "is" arbitrary: s a)
  case Nil
  then show ?case by simp
next
  case (Cons i js)
  then obtain s1 where s1: "step i s = Some (fst (astep i a), s1)" "rep s1 (snd (astep i a))"
    using sim by fastforce
  obtain s' where "run_steps step js s1 = Some (fst (run_spec astep js (snd (astep i a))), s')"
    "rep s' (snd (run_spec astep js (snd (astep i a))))"
    using Cons.IH [OF _ s1(2)] Cons.prems(1) by auto
  then show ?case using s1 by (simp add: case_prod_beta Let_def)
qed

text \<open>An invariant of the specification and what it implies hold along every run.\<close>

lemma run_invariant:
  assumes "list_all ok is" "rep s a" "J a" "\<And>i a. ok i \<Longrightarrow> J a \<Longrightarrow> J (snd (astep i a))"
  shows "\<exists>outs s' a'. run_steps step is s = Some (outs, s') \<and> rep s' a' \<and> J a'"
  using run_sim [OF assms(1,2)] run_spec_invariant [of ok J astep, OF assms(4) assms(1,3)] by blast

end

end
