(* ===== verification/Can_Pool_Spec.thy ===== *)
theory Can_Pool_Spec
  imports Can_Pool_Inv Simulation
begin

text \<open>
  What the CAN pool promises, without its linked lists: eight slots, each empty or holding the
  frames received so far for one packet.  The concrete pool simulates this specification for every
  sequence of operations, so it never reads or writes outside its arrays and none of its loops
  hangs.
\<close>

unbundle bit_operations_syntax

subsection \<open>The specification\<close>

record slot =
  sl_extid :: extid_s
  sl_frames :: "bytes list"
  sl_dlc :: u8
  sl_to :: u8

type_synonym apool = "slot option list"

definition slot_frames :: "slot option \<Rightarrow> nat" where
  "slot_frames x = (case x of None \<Rightarrow> 0 | Some s \<Rightarrow> length (sl_frames s))"

definition a_used :: "apool \<Rightarrow> nat" where
  "a_used A = sum_list (map slot_frames A)"

definition a_space :: "apool \<Rightarrow> nat" where
  "a_space A = size_items - a_used A"

definition open_for :: "extid_s \<Rightarrow> slot option \<Rightarrow> bool" where
  "open_for e x = (case x of None \<Rightarrow> False | Some s \<Rightarrow> sl_dlc s = 0 \<and> same_id (sl_extid s) e)"

definition slot_remove :: "extid_s \<Rightarrow> slot option \<Rightarrow> slot option" where
  "slot_remove e x = (if open_for e x then None else x)"

definition slot_age :: "slot option \<Rightarrow> slot option" where
  "slot_age x = (case x of None \<Rightarrow> None
     | Some s \<Rightarrow> if sl_dlc s \<noteq> 0 then Some s
               else if sl_to s = 0 then None
               else Some (s\<lparr> sl_to := sl_to s - 1 \<rparr>))"

definition a_remove :: "extid_s \<Rightarrow> apool \<Rightarrow> apool" where
  "a_remove e A = map (slot_remove e) A"

definition a_timeout :: "apool \<Rightarrow> apool" where
  "a_timeout A = map slot_age A"

definition slot_expired :: "slot option \<Rightarrow> bool" where
  "slot_expired x = (case x of None \<Rightarrow> False | Some s \<Rightarrow> sl_dlc s = 0 \<and> sl_to s = 0)"

definition first_slot :: "(slot option \<Rightarrow> bool) \<Rightarrow> apool \<Rightarrow> nat option" where
  "first_slot P A = find (\<lambda>i. P (A ! i)) [0..<length A]"

definition a_push_new :: "extid_s \<Rightarrow> bytes \<Rightarrow> u8 \<Rightarrow> apool \<Rightarrow> error_type \<times> apool" where
  "a_push_new e d dlc A =
     (let A = a_remove e A
      in case first_slot (\<lambda>x. x = None) A of
           None \<Rightarrow> (ErrorTreeOverflow, a_timeout A)
         | Some i \<Rightarrow>
             (if dlc \<noteq> 0 then PacketAvailable else MsgAccepted,
              A[i := Some \<lparr> sl_extid = (if dlc \<noteq> 0 then e else extid_set_frm 0 e), sl_frames = [d],
                           sl_dlc = dlc, sl_to = can_timeout \<rparr>]))"

text \<open>The number expected before \<open>f\<close>, and the one after it.\<close>

definition prev_frm :: "u8 \<Rightarrow> u8" where
  "prev_frm f = (if f > 0 then f - 1 else frm_seq_max)"

definition next_frm :: "u8 \<Rightarrow> u8" where
  "next_frm f = (if f + 1 > frm_seq_max then 0 else f + 1)"

definition a_push_next :: "extid_s \<Rightarrow> bytes \<Rightarrow> u8 \<Rightarrow> apool \<Rightarrow> error_type \<times> apool" where
  "a_push_next e d dlc A =
     (case first_slot (open_for e) A of
        None \<Rightarrow> (ErrorOrphan, a_timeout (a_remove e A))
      | Some i \<Rightarrow>
          let s = the (A ! i); f = extid_frm (sl_extid s)
          in if dlc \<noteq> 0 then
               (PacketAvailable, A[i := Some (s\<lparr> sl_frames := sl_frames s @ [d], sl_dlc := dlc, sl_to := can_timeout \<rparr>)])
             else if extid_frm e = f then
               (MsgAccepted, A[i := Some (s\<lparr> sl_extid := extid_set_frm (next_frm f) (sl_extid s),
                                            sl_frames := sl_frames s @ [d], sl_to := can_timeout \<rparr>)])
             else if extid_frm e = prev_frm f then (MsgDropped, A)
             else (ErrorOrphan, a_timeout (a_remove e A)))"

definition a_push :: "extid_s \<Rightarrow> bytes \<Rightarrow> u8 \<Rightarrow> apool \<Rightarrow> error_type \<times> apool" where
  "a_push e d dlc A =
     (if a_space A = 0 then (ErrorSlotsOverflow, a_remove e (a_timeout A))
      else if extid_frm e = frm_end then
        if dlc = 0 then (ErrorDLC, A) else a_push_next e d dlc A
      else if extid_frm e = frm_start then
        if dlc \<noteq> 8 then (ErrorDLC, A) else a_push_new e d 0 A
      else if extid_frm e = frm_single then a_push_new e d (if dlc > 0 then dlc else 0xFF) A
      else if dlc \<noteq> 8 then (ErrorDLC, A) else a_push_next e d 0 A)"

text \<open>What a packet read leaves in a buffer of \<open>sz\<close> bytes.\<close>

fun frames_read :: "nat \<Rightarrow> u8 \<Rightarrow> bytes list \<Rightarrow> bytes \<Rightarrow> bytes" where
  "frames_read sz dlc [] acc = acc"
| "frames_read sz dlc [f] acc =
     (if dlc \<le> 8 \<and> length acc + unat dlc \<le> sz then acc @ take (unat dlc) f else acc)"
| "frames_read sz dlc (f # g # fs) acc =
     (if length acc + 8 > sz then acc else frames_read sz dlc (g # fs) (acc @ f))"

definition slot_read :: "nat \<Rightarrow> slot \<Rightarrow> bytes" where
  "slot_read sz s =
     frames_read sz (sl_dlc s) (sl_frames s) (if 2 \<le> sz then le_bytes 2 (extid_pid (sl_extid s)) else [])"

fun a_read_loop :: "nat list \<Rightarrow> nat \<Rightarrow> u8 \<Rightarrow> apool \<Rightarrow> bytes \<times> u8 \<times> apool" where
  "a_read_loop [] sz src A = ([], src, A)"
| "a_read_loop (i # is) sz src A =
     (case A ! i of
        None \<Rightarrow> a_read_loop is sz src A
      | Some s \<Rightarrow>
          if sl_dlc s = 0 then a_read_loop is sz src A
          else
            let bs = slot_read sz s; A = A[i := None]
            in if bs \<noteq> [] then (bs, extid_src (sl_extid s), A)
               else a_read_loop is sz (extid_src (sl_extid s)) A)"

definition a_read_packet :: "nat \<Rightarrow> u8 \<Rightarrow> apool \<Rightarrow> bytes \<times> u8 \<times> apool" where
  "a_read_packet sz src A = a_read_loop [0..<length A] sz src A"

subsection \<open>Abstraction\<close>

definition abs_slot :: "item list \<Rightarrow> tree \<Rightarrow> nat list \<Rightarrow> slot option" where
  "abs_slot it t c =
     (if c = [] then None
      else Some \<lparr> sl_extid = tr_extid t, sl_frames = map (\<lambda>x. it_data (it ! x)) c,
                  sl_dlc = tr_dlc t, sl_to = tr_to t \<rparr>)"

definition abs_pool :: "pool \<Rightarrow> nat list list \<Rightarrow> apool" where
  "abs_pool p cs = map (\<lambda>i. abs_slot (p_items p) (p_trees p ! i) (cs ! i)) [0..<size_trees]"

definition pool_rep :: "pool \<Rightarrow> apool \<Rightarrow> bool" where
  "pool_rep p A \<longleftrightarrow> (\<exists>fl cs. pool_inv p fl cs \<and> A = abs_pool p cs)"

lemma length_abs_pool [simp]: "length (abs_pool p cs) = size_trees"
  by (simp add: abs_pool_def)

lemma nth_abs_pool: "i < size_trees \<Longrightarrow> abs_pool p cs ! i = abs_slot (p_items p) (p_trees p ! i) (cs ! i)"
  by (simp add: abs_pool_def)

lemma pool_repI: "pool_inv p fl cs \<Longrightarrow> abs_pool p cs = A \<Longrightarrow> pool_rep p A"
  by (auto simp: pool_rep_def)

lemma rep_length: "pool_rep p A \<Longrightarrow> length A = size_trees"
  by (auto simp: pool_rep_def)

lemma rep_inv: "pool_rep p A \<Longrightarrow> \<exists>fl cs. pool_inv p fl cs"
  by (auto simp: pool_rep_def)

lemma rep_None: "pool_rep p A \<Longrightarrow> i < size_trees \<Longrightarrow> A ! i = None \<longleftrightarrow> tr_head (p_trees p ! i) = max_idx"
  by (auto simp: pool_rep_def nth_abs_pool abs_slot_def pool_inv_head split: if_splits)

lemma rep_Some:
  assumes "pool_rep p A" "i < size_trees" "A ! i = Some s"
  shows "tr_head (p_trees p ! i) \<noteq> max_idx" "tr_extid (p_trees p ! i) = sl_extid s"
    "tr_dlc (p_trees p ! i) = sl_dlc s" "tr_to (p_trees p ! i) = sl_to s"
  using assms by (auto simp: pool_rep_def nth_abs_pool abs_slot_def pool_inv_head split: if_splits)

lemma rep_range: "pool_rep p A \<Longrightarrow> tree_range p = [0..<size_trees]"
  by (auto simp: pool_rep_def tree_range)

lemma a_used_abs: "length cs = size_trees \<Longrightarrow> a_used (abs_pool p cs) = length (concat cs)"
proof -
  assume l: "length cs = size_trees"
  have "map slot_frames (abs_pool p cs) = map (\<lambda>i. length (cs ! i)) [0..<size_trees]"
    by (auto simp: abs_pool_def abs_slot_def slot_frames_def)
  also have "\<dots> = map length cs" using l by (intro nth_equalityI) simp_all
  finally show ?thesis by (simp add: a_used_def length_concat)
qed

lemma a_space_abs: "pool_inv p fl cs \<Longrightarrow> a_space (abs_pool p cs) = length fl"
  using pool_inv_count [of p fl cs] a_used_abs [of cs p] by (auto simp: pool_inv_def a_space_def)

lemma rep_space: "pool_rep p A \<Longrightarrow> p_free p = max_idx \<longleftrightarrow> a_space A = 0"
  by (auto simp: pool_rep_def a_space_abs pool_inv_free)

lemma abs_pool_cong:
  assumes "\<And>j. j < size_trees \<Longrightarrow> abs_slot (p_items p') (p_trees p' ! j) (cs' ! j) = A ! j" "length A = size_trees"
  shows "abs_pool p' cs' = A"
  using assms by (intro nth_equalityI) (simp_all add: abs_pool_def)

lemma abs_slot_cong:
  "(\<And>x. x \<in> set c \<Longrightarrow> it_data (it ! x) = it_data (it' ! x)) \<Longrightarrow> tr_extid t = tr_extid t' \<Longrightarrow>
     tr_dlc t = tr_dlc t' \<Longrightarrow> tr_to t = tr_to t' \<Longrightarrow> abs_slot it t c = abs_slot it' t' c"
  by (simp add: abs_slot_def)

subsection \<open>The operations simulate the specification\<close>

lemma rep_init: "pool_rep pool_init (replicate size_trees None)"
  unfolding pool_rep_def
  by (intro exI conjI, rule pool_init_inv) (auto simp: abs_pool_def abs_slot_def intro!: nth_equalityI)

lemma map_data_nth: "map it_data it = map it_data it' \<Longrightarrow> k < length it \<Longrightarrow> it_data (it ! k) = it_data (it' ! k)"
  by (metis length_map nth_map)

lemma rep_release:
  assumes "pool_rep p A" "i < size_trees"
  shows "\<exists>p'. release i p = Some p' \<and> pool_rep p' (A[i := None])"
proof -
  obtain fl cs where inv: "pool_inv p fl cs" and A: "A = abs_pool p cs" using assms(1) by (auto simp: pool_rep_def)
  then have len: "length cs = size_trees" "length (p_trees p) = size_trees" "length (p_items p) = size_items"
    by (auto simp: pool_inv_def)
  obtain p' where p': "release i p = Some p'" "pool_inv p' (rev (cs ! i) @ fl) (cs[i := []])"
    "p_trees p' = (p_trees p)[i := (p_trees p ! i)\<lparr> tr_head := max_idx \<rparr>]"
    "map it_data (p_items p') = map it_data (p_items p)"
    using release_spec [OF inv assms(2)] by blast
  have "abs_pool p' (cs[i := []]) = A[i := None]"
  proof (rule abs_pool_cong)
    fix j assume j: "j < size_trees"
    show "abs_slot (p_items p') (p_trees p' ! j) (cs[i := []] ! j) = A[i := None] ! j"
    proof (cases "j = i")
      case True
      then show ?thesis using j len A by (simp add: abs_slot_def)
    next
      case False
      have "it_data (p_items p' ! x) = it_data (p_items p ! x)" if "x \<in> set (cs ! j)" for x
        using that inv j chain_index len map_data_nth [OF p'(4) [symmetric]] by (metis pool_inv_def)
      then show ?thesis
        using False j len A p'(3) by (simp add: nth_abs_pool) (intro abs_slot_cong; simp)
    qed
  qed (simp add: A)
  then show ?thesis using p'(1) pool_repI [OF p'(2)] by blast
qed

text \<open>A change of a tree's header fields that leaves its list alone.\<close>

lemma rep_header:
  assumes "pool_rep p A" "i < size_trees" "A ! i = Some s"
    "tr_head (f (p_trees p ! i)) = tr_head (p_trees p ! i)"
  shows "pool_rep (set_tree i f p) (A[i := Some (s\<lparr> sl_extid := tr_extid (f (p_trees p ! i)),
    sl_dlc := tr_dlc (f (p_trees p ! i)), sl_to := tr_to (f (p_trees p ! i)) \<rparr>)])"
proof -
  obtain fl cs where inv: "pool_inv p fl cs" and A: "A = abs_pool p cs" using assms(1) by (auto simp: pool_rep_def)
  then have len: "length cs = size_trees" "length (p_trees p) = size_trees" by (auto simp: pool_inv_def)
  have s: "abs_slot (p_items p) (p_trees p ! i) (cs ! i) = Some s"
    using assms(2,3) by (simp add: A nth_abs_pool)
  have "abs_pool (set_tree i f p) cs = A[i := Some (s\<lparr> sl_extid := tr_extid (f (p_trees p ! i)),
    sl_dlc := tr_dlc (f (p_trees p ! i)), sl_to := tr_to (f (p_trees p ! i)) \<rparr>)]"
  proof (rule abs_pool_cong)
    fix j assume j: "j < size_trees"
    then show "abs_slot (p_items (set_tree i f p)) (p_trees (set_tree i f p) ! j) (cs ! j) = A[i := Some (s\<lparr>
      sl_extid := tr_extid (f (p_trees p ! i)), sl_dlc := tr_dlc (f (p_trees p ! i)),
      sl_to := tr_to (f (p_trees p ! i)) \<rparr>)] ! j"
      using s len A by (cases "j = i") (auto simp: pool_simps nth_abs_pool abs_slot_def split: if_splits)
  qed (simp add: A)
  then show ?thesis by (rule pool_repI [OF pool_inv_set_tree [of p fl cs f i, OF inv assms(4)]])
qed

lemma rep_free_item:
  assumes "pool_rep p A" "a_space A \<noteq> 0"
  obtains x fl cs where "pool_inv p (x # fl) cs" "A = abs_pool p cs"
proof -
  obtain fl cs where inv: "pool_inv p fl cs" and A: "A = abs_pool p cs" using assms(1) by (auto simp: pool_rep_def)
  then have "fl \<noteq> []" using assms(2) a_space_abs [OF inv] by auto
  then show ?thesis using that inv A by (cases fl) auto
qed

lemma rep_new:
  assumes "pool_rep p A" "i < size_trees" "A ! i = None" "a_space A \<noteq> 0" "length d = 8"
    "tr_head (f (p_trees p ! i)) = p_free p"
  shows "\<exists>p'. pool_take d (set_tree i f p) = Some p' \<and> p_trees p' ! i = f (p_trees p ! i) \<and>
    pool_rep p' (A[i := Some \<lparr> sl_extid = tr_extid (f (p_trees p ! i)), sl_frames = [d],
      sl_dlc = tr_dlc (f (p_trees p ! i)), sl_to = tr_to (f (p_trees p ! i)) \<rparr>])"
proof -
  obtain x fl cs where inv: "pool_inv p (x # fl) cs" and A: "A = abs_pool p cs"
    using rep_free_item [OF assms(1,4)] .
  then have len: "length cs = size_trees" "length (p_trees p) = size_trees" "length (p_items p) = size_items"
    by (auto simp: pool_inv_def)
  have empty: "cs ! i = []" using assms(2,3) A by (auto simp: nth_abs_pool abs_slot_def split: if_splits)
  obtain p' where p': "pool_take d (set_tree i f p) = Some p'" "pool_inv p' fl (cs[i := [x]])"
    "p_trees p' = (p_trees p)[i := f (p_trees p ! i)]"
    "p_items p' = (p_items p)[x := \<lparr> it_next = max_idx, it_data = d \<rparr>]"
    using pool_inv_new [of p x fl cs i d f, OF inv assms(2) empty assms(5,6)] by blast
  have x: "x < size_items" using pool_inv_free_hd [OF inv] by simp
  have "abs_pool p' (cs[i := [x]]) = A[i := Some \<lparr> sl_extid = tr_extid (f (p_trees p ! i)), sl_frames = [d],
      sl_dlc = tr_dlc (f (p_trees p ! i)), sl_to = tr_to (f (p_trees p ! i)) \<rparr>]" (is "_ = ?A")
  proof (rule abs_pool_cong)
    fix j assume j: "j < size_trees"
    show "abs_slot (p_items p') (p_trees p' ! j) (cs[i := [x]] ! j) = ?A ! j"
    proof (cases "j = i")
      case True
      then show ?thesis using j len A x p' by (simp add: abs_slot_def)
    next
      case False
      have "it_data (p_items p' ! y) = it_data (p_items p ! y)" if "y \<in> set (cs ! j)" for y
        using that pool_inv_free_hd(5) [OF inv j] p'(4) by (metis nth_list_update_neq)
      then show ?thesis
        using False j len A p'(3) by (simp add: nth_abs_pool) (intro abs_slot_cong; simp)
    qed
  qed (simp add: A)
  then have "pool_rep p' ?A" by (rule pool_repI [OF p'(2)])
  moreover have "p_trees p' ! i = f (p_trees p ! i)" using p'(3) len assms(2) by simp
  ultimately show ?thesis using p'(1) by blast
qed

lemma rep_append:
  assumes "pool_rep p A" "i < size_trees" "A ! i = Some s" "a_space A \<noteq> 0" "length d = 8"
  shows "\<exists>p'. push_next_tree i d p = Some (MsgAccepted, p') \<and>
    p_trees p' ! i = (p_trees p ! i)\<lparr> tr_to := can_timeout \<rparr> \<and>
    pool_rep p' (A[i := Some (s\<lparr> sl_frames := sl_frames s @ [d], sl_to := can_timeout \<rparr>)])"
proof -
  let ?f = "\<lambda>t. t\<lparr> tr_to := can_timeout \<rparr>"
  obtain x fl cs where inv: "pool_inv p (x # fl) cs" and A: "A = abs_pool p cs"
    using rep_free_item [OF assms(1,4)] .
  then have len: "length cs = size_trees" "length (p_trees p) = size_trees" "length (p_items p) = size_items"
    by (auto simp: pool_inv_def)
  have s: "abs_slot (p_items p) (p_trees p ! i) (cs ! i) = Some s"
    using assms(2,3) by (simp add: A nth_abs_pool)
  then have ne: "cs ! i \<noteq> []" by (auto simp: abs_slot_def)
  obtain p' where p': "pool_take d (set_item (last (cs ! i)) (\<lambda>y. y\<lparr> it_next := p_free p \<rparr>) (set_tree i ?f p)) = Some p'"
    "pool_inv p' fl (cs[i := cs ! i @ [x]])" "p_trees p' = (p_trees p)[i := ?f (p_trees p ! i)]"
    "map it_data (p_items p') = (map it_data (p_items p))[x := d]"
    using pool_inv_append [OF inv assms(2) ne assms(5), of ?f] by auto
  have x: "x < size_items" using pool_inv_free_hd [OF inv] by simp
  have "length (cs ! i) \<le> length (concat cs)"
    using len assms(2) by (metis length_concat elem_le_sum_list length_map nth_map)
  then have "length (cs ! i) \<le> max_seq_idx" using pool_inv_count [OF inv] by (simp add: max_seq_idx_def)
  moreover have "chain (p_items p) (tr_head (p_trees p ! i)) (cs ! i)" using inv assms(2) by (simp add: pool_inv_def)
  ultimately have push: "push_next_tree i d p = Some (MsgAccepted, p')"
    using append_loop_walk [of p _ "cs ! i" max_seq_idx i d] ne len p'(1) by (simp add: push_next_tree_def)
  have len': "length (p_items p') = size_items" using arg_cong [OF p'(4), of length] len by simp
  have data: "it_data (p_items p' ! y) = (if y = x then d else it_data (p_items p ! y))" if "y < size_items" for y
    using that p'(4) len len' x by (metis length_map nth_list_update nth_map)
  have "abs_pool p' (cs[i := cs ! i @ [x]]) = A[i := Some (s\<lparr> sl_frames := sl_frames s @ [d], sl_to := can_timeout \<rparr>)]"
    (is "_ = ?A")
  proof (rule abs_pool_cong)
    fix j assume j: "j < size_trees"
    have old: "it_data (p_items p' ! y) = it_data (p_items p ! y)" if "y \<in> set (cs ! j)" for y
    proof -
      have "y < size_items" using that inv j chain_index by (auto simp: pool_inv_def)
      then show ?thesis using data that pool_inv_free_hd(5) [OF inv j] by auto
    qed
    show "abs_slot (p_items p') (p_trees p' ! j) (cs[i := cs ! i @ [x]] ! j) = ?A ! j"
    proof (cases "j = i")
      case True
      then show ?thesis using j len A x p'(3) s old data [OF x] ne by (auto simp: abs_slot_def)
    next
      case False
      then show ?thesis
        using j len A p'(3) old by (simp add: nth_abs_pool) (intro abs_slot_cong; simp)
    qed
  qed (simp add: A)
  then have "pool_rep p' ?A" by (rule pool_repI [OF p'(2)])
  moreover have "p_trees p' ! i = (p_trees p ! i)\<lparr> tr_to := can_timeout \<rparr>" using p'(3) len assms(2) by simp
  ultimately show ?thesis using push by blast
qed

text \<open>A loop over the trees applies a function to the slots it visits.\<close>

definition upd_on :: "nat list \<Rightarrow> (slot option \<Rightarrow> slot option) \<Rightarrow> apool \<Rightarrow> apool" where
  "upd_on is f A = map (\<lambda>j. if j \<in> set is then f (A ! j) else A ! j) [0..<length A]"

lemma upd_on_Nil [simp]: "upd_on [] f A = A"
  by (simp add: upd_on_def map_nth)

lemma upd_on_all: "upd_on [0..<length A] f A = map f A"
  by (intro nth_equalityI) (simp_all add: upd_on_def)

lemma upd_on_Cons: "i \<notin> set is \<Longrightarrow> upd_on is f (A[i := f (A ! i)]) = upd_on (i # is) f A"
proof (intro nth_equalityI)
  fix j assume "i \<notin> set is" "j < length (upd_on is f (A[i := f (A ! i)]))"
  then show "upd_on is f (A[i := f (A ! i)]) ! j = upd_on (i # is) f A ! j"
    by (cases "j = i") (auto simp: upd_on_def)
qed (simp add: upd_on_def)

lemma upd_on_skip: "i \<notin> set is \<Longrightarrow> f (A ! i) = A ! i \<Longrightarrow> upd_on is f A = upd_on (i # is) f A"
  using upd_on_Cons [of i "is" f A] by (simp add: list_update_id)

lemma slot_remove_simps [simp]:
  "slot_remove e None = None"
  "slot_remove e (Some s) = (if sl_dlc s = 0 \<and> same_id (sl_extid s) e then None else Some s)"
  by (simp_all add: slot_remove_def open_for_def)

lemma slot_age_simps [simp]:
  "slot_age None = None"
  "slot_age (Some s) = (if sl_dlc s \<noteq> 0 then Some s else if sl_to s = 0 then None
     else Some (s\<lparr> sl_to := sl_to s - 1 \<rparr>))"
  by (simp_all add: slot_age_def)

lemma all_trees: "set [0..<size_trees] \<subseteq> {..<size_trees}"
  by auto

lemma rep_remove_loop:
  "pool_rep p A \<Longrightarrow> distinct is \<Longrightarrow> set is \<subseteq> {..<size_trees} \<Longrightarrow>
     \<exists>p'. remove_loop e is p = Some p' \<and> pool_rep p' (upd_on is (slot_remove e) A)"
proof (induction "is" arbitrary: p A)
  case (Cons i js)
  then have i: "i < size_trees" "i \<notin> set js" by auto
  have keep: "\<exists>p'. remove_loop e js p = Some p' \<and> pool_rep p' (upd_on (i # js) (slot_remove e) A)"
    if "slot_remove e (A ! i) = A ! i"
    using Cons.IH [OF Cons.prems(1)] Cons.prems(2,3) upd_on_skip [OF i(2), of "slot_remove e" A] that by simp
  show ?case
  proof (cases "A ! i")
    case None
    then show ?thesis using keep rep_None [OF Cons.prems(1) i(1)] by simp
  next
    case (Some s)
    note h = rep_Some [OF Cons.prems(1) i(1) Some]
    show ?thesis
    proof (cases "sl_dlc s = 0 \<and> same_id (sl_extid s) e")
      case False
      then show ?thesis using keep Some h by (auto simp: same_id_def Let_def)
    next
      case True
      obtain p1 where p1: "release i p = Some p1" "pool_rep p1 (A[i := None])"
        using rep_release [OF Cons.prems(1) i(1)] by blast
      obtain p' where "remove_loop e js p1 = Some p'" "pool_rep p' (upd_on js (slot_remove e) (A[i := None]))"
        using Cons.IH [OF p1(2)] Cons.prems(2,3) by auto
      then show ?thesis
        using True Some h p1(1) upd_on_Cons [OF i(2), of "slot_remove e" A]
        by (auto simp: same_id_def Let_def)
    qed
  qed
qed simp

lemma rep_remove:
  assumes "pool_rep p A"
  shows "\<exists>p'. pool_remove e p = Some p' \<and> pool_rep p' (a_remove e A)"
  using rep_remove_loop [OF assms distinct_upt all_trees, of e] upd_on_all [of A "slot_remove e"]
  by (auto simp: pool_remove_def a_remove_def rep_range [OF assms] rep_length [OF assms])

lemma rep_timeout_loop:
  "pool_rep p A \<Longrightarrow> distinct is \<Longrightarrow> set is \<subseteq> {..<size_trees} \<Longrightarrow>
     \<exists>p'. timeout_loop is rv p = Some (rv \<or> (\<exists>j \<in> set is. slot_expired (A ! j)), p') \<and>
       pool_rep p' (upd_on is slot_age A)"
proof (induction "is" arbitrary: p A rv)
  case (Cons i js)
  then have i: "i < size_trees" "i \<notin> set js" by auto
  have keep: "\<exists>p'. timeout_loop js rv p = Some (rv \<or> (\<exists>j \<in> set (i # js). slot_expired (A ! j)), p') \<and>
      pool_rep p' (upd_on (i # js) slot_age A)"
    if "slot_age (A ! i) = A ! i" "\<not> slot_expired (A ! i)"
    using Cons.IH [OF Cons.prems(1)] Cons.prems(2,3) upd_on_skip [OF i(2), of slot_age A] that by simp
  have other: "(\<exists>j \<in> set js. slot_expired (A[i := y] ! j)) \<longleftrightarrow> (\<exists>j \<in> set js. slot_expired (A ! j))" for y
    using i(2) by (metis nth_list_update_neq)
  show ?case
  proof (cases "A ! i")
    case None
    then show ?thesis using keep rep_None [OF Cons.prems(1) i(1)] by (simp add: slot_expired_def)
  next
    case (Some s)
    note h = rep_Some [OF Cons.prems(1) i(1) Some]
    consider "sl_dlc s \<noteq> 0" | "sl_dlc s = 0" "sl_to s = 0" | "sl_dlc s = 0" "sl_to s \<noteq> 0" by blast
    then show ?thesis
    proof cases
      case 1
      then show ?thesis using keep Some h by (simp add: Let_def slot_expired_def)
    next
      case 2
      obtain p1 where p1: "release i p = Some p1" "pool_rep p1 (A[i := None])"
        using rep_release [OF Cons.prems(1) i(1)] by blast
      obtain p' where "timeout_loop js True p1 = Some (True, p')" "pool_rep p' (upd_on js slot_age (A[i := None]))"
        using Cons.IH [OF p1(2), of True] Cons.prems(2,3) by auto
      then show ?thesis
        using 2 Some h p1(1) upd_on_Cons [OF i(2), of slot_age A] by (auto simp: Let_def slot_expired_def)
    next
      case 3
      let ?f = "\<lambda>t. t\<lparr> tr_to := tr_to t - 1 \<rparr>"
      have "pool_rep (set_tree i ?f p) (A[i := slot_age (A ! i)])"
        using rep_header [OF Cons.prems(1) i(1) Some, of ?f] 3 Some h by (cases s) simp
      then obtain p' where
        "timeout_loop js rv (set_tree i ?f p) = Some (rv \<or> (\<exists>j \<in> set js. slot_expired (A ! j)), p')"
        "pool_rep p' (upd_on js slot_age (A[i := slot_age (A ! i)]))"
        using Cons.IH [of "set_tree i ?f p" "A[i := slot_age (A ! i)]" rv] Cons.prems(2,3)
        unfolding other by auto
      then show ?thesis
        using 3 Some h upd_on_Cons [OF i(2), of slot_age A] by (auto simp: Let_def slot_expired_def)
    qed
  qed
qed simp

definition a_expired :: "apool \<Rightarrow> bool" where
  "a_expired A \<longleftrightarrow> (\<exists>x \<in> set A. slot_expired x)"

lemma rep_timeout:
  assumes "pool_rep p A"
  shows "\<exists>p'. pool_timeout p = Some (a_expired A, p') \<and> pool_rep p' (a_timeout A)"
proof -
  have "(\<exists>j \<in> set [0..<size_trees]. slot_expired (A ! j)) \<longleftrightarrow> a_expired A"
  proof -
    have "set A = (!) A ` set [0..<size_trees]" using rep_length [OF assms] by (metis list.set_map map_nth)
    then show ?thesis by (simp add: a_expired_def)
  qed
  then show ?thesis
    using rep_timeout_loop [OF assms distinct_upt all_trees, of False] upd_on_all [of A slot_age]
    by (auto simp: pool_timeout_def a_timeout_def rep_range [OF assms] rep_length [OF assms])
qed

lemma a_used_remove: "a_used (a_remove e A) \<le> a_used A"
  by (induction A) (auto simp: a_used_def a_remove_def slot_remove_def slot_frames_def)

lemma a_used_timeout: "a_used (a_timeout A) \<le> a_used A"
  by (induction A) (auto simp: a_used_def a_timeout_def slot_age_def slot_frames_def split: option.splits)

text \<open>\<open>push_new\<close>: the first empty slot.\<close>

lemma rep_push_new_loop:
  assumes "pool_rep p A" "a_space A \<noteq> 0" "length d = 8" "set is \<subseteq> {..<size_trees}"
  shows "\<exists>p'. push_new_loop e d dlc is p = Some (fst (case find (\<lambda>i. A ! i = None) is of
        None \<Rightarrow> (ErrorTreeOverflow, a_timeout A)
      | Some i \<Rightarrow> (if dlc \<noteq> 0 then PacketAvailable else MsgAccepted,
          A[i := Some \<lparr> sl_extid = (if dlc \<noteq> 0 then e else extid_set_frm 0 e), sl_frames = [d],
                        sl_dlc = dlc, sl_to = can_timeout \<rparr>])), p') \<and>
    pool_rep p' (snd (case find (\<lambda>i. A ! i = None) is of
        None \<Rightarrow> (ErrorTreeOverflow, a_timeout A)
      | Some i \<Rightarrow> (if dlc \<noteq> 0 then PacketAvailable else MsgAccepted,
          A[i := Some \<lparr> sl_extid = (if dlc \<noteq> 0 then e else extid_set_frm 0 e), sl_frames = [d],
                        sl_dlc = dlc, sl_to = can_timeout \<rparr>])))"
  using assms(4)
proof (induction "is")
  case Nil
  then show ?case using rep_timeout [OF assms(1)] by auto
next
  case (Cons i js)
  then have i: "i < size_trees" by auto
  show ?case
  proof (cases "A ! i = None")
    case False
    then obtain s where "A ! i = Some s" by auto
    then show ?thesis using Cons rep_None [OF assms(1) i] by simp
  next
    case True
    let ?f = "\<lambda>t. t\<lparr> tr_extid := e, tr_to := can_timeout, tr_dlc := dlc, tr_head := p_free p \<rparr>"
    let ?s = "\<lparr> sl_extid = e, sl_frames = [d], sl_dlc = dlc, sl_to = can_timeout \<rparr>"
    obtain p1 where p1: "pool_take d (set_tree i ?f p) = Some p1" "p_trees p1 ! i = ?f (p_trees p ! i)"
      "pool_rep p1 (A[i := Some ?s])"
      using rep_new [OF assms(1) i True assms(2,3), of ?f] by auto
    have hd: "tr_head (p_trees p ! i) = max_idx" using True rep_None [OF assms(1) i] by simp
    show ?thesis
    proof (cases "dlc \<noteq> 0")
      case dlc: True
      then show ?thesis using hd p1 True by simp
    next
      case dlc: False
      let ?g = "\<lambda>t. t\<lparr> tr_extid := extid_set_frm 0 (tr_extid t) \<rparr>"
      have "A[i := Some ?s] ! i = Some ?s" using i rep_length [OF assms(1)] by simp
      from rep_header [OF p1(3) i this, of ?g] have
        "pool_rep (set_tree i ?g p1) (A[i := Some (?s\<lparr> sl_extid := extid_set_frm 0 e \<rparr>)])"
        using p1(2) dlc by simp
      then show ?thesis using hd p1(1) True dlc by simp
    qed
  qed
qed

lemma rep_push_new:
  assumes "pool_rep p A" "a_space A \<noteq> 0" "length d = 8"
  shows "\<exists>p'. push_new e d dlc p = Some (fst (a_push_new e d dlc A), p') \<and> pool_rep p' (snd (a_push_new e d dlc A))"
proof -
  obtain p1 where p1: "pool_remove e p = Some p1" "pool_rep p1 (a_remove e A)"
    using rep_remove [OF assms(1)] by blast
  have "a_space (a_remove e A) \<noteq> 0" using assms(2) a_used_remove [of e A] by (simp add: a_space_def)
  from rep_push_new_loop [OF p1(2) this assms(3) all_trees, of e dlc] show ?thesis
    using p1(1) rep_range [OF p1(2)] rep_length [OF p1(2)]
    by (auto simp: push_new_def a_push_new_def first_slot_def Let_def)
qed

text \<open>\<open>push_next\<close>: the first unfinished slot of the packet.\<close>

lemma push_next_loop_find:
  assumes "pool_rep p A" "set is \<subseteq> {..<size_trees}"
  shows "push_next_loop e d dlc is p =
    (case find (\<lambda>i. open_for e (A ! i)) is of
       None \<Rightarrow> Some (False, ErrorOrphan, p)
     | Some i \<Rightarrow> push_next_loop e d dlc [i] p)"
  using assms(2)
proof (induction "is")
  case (Cons i js)
  then have i: "i < size_trees" by auto
  show ?case
  proof (cases "A ! i")
    case None
    then show ?thesis
      using Cons rep_None [OF assms(1) i] by (simp add: open_for_def split: option.splits)
  next
    case (Some s)
    note h = rep_Some [OF assms(1) i Some]
    show ?thesis
    proof (cases "open_for e (A ! i)")
      case True
      then have "sl_dlc s = 0" "(sl_extid s XOR e) AND mf_id_mask = 0"
        using Some by (simp_all add: open_for_def same_id_def)
      then show ?thesis using True h by (simp add: Let_def)
    next
      case False
      then have "sl_dlc s \<noteq> 0 \<or> (sl_extid s XOR e) AND mf_id_mask \<noteq> 0"
        using Some by (simp add: open_for_def same_id_def)
      then have "push_next_loop e d dlc (i # js) p = push_next_loop e d dlc js p"
        using h by (auto simp: Let_def)
      then show ?thesis using Cons False by simp
    qed
  qed
qed simp

lemma first_slot_Some: "first_slot P A = Some i \<Longrightarrow> i < length A \<and> P (A ! i) \<and> (\<forall>j<i. \<not> P (A ! j))"
  by (auto simp: first_slot_def find_Some_iff)

lemma rep_next_fail:
  assumes "pool_rep p A" "push_next_loop e d dlc (tree_range p) p = Some (False, rv, p)"
  shows "\<exists>p'. push_next e d dlc p = Some (rv, p') \<and> pool_rep p' (a_timeout (a_remove e A))"
proof -
  obtain p1 where p1: "pool_remove e p = Some p1" "pool_rep p1 (a_remove e A)"
    using rep_remove [OF assms(1)] by blast
  obtain x p2 where "pool_timeout p1 = Some (x, p2)" "pool_rep p2 (a_timeout (a_remove e A))"
    using rep_timeout [OF p1(2)] by blast
  then show ?thesis using assms(2) p1(1) by (simp add: push_next_def)
qed

lemma next_frm_bits: "next_frm f AND mask 3 = next_frm f"
proof -
  have "unat (next_frm f) \<le> 4"
    by (auto simp: next_frm_def frm_seq_max_def word_le_nat_alt not_less)
  then have "next_frm f \<in> {0, 1, 2, 3, 4}"
    by (auto simp: word_unat_eq_iff)
  then show ?thesis by (auto simp: mask_eq_exp_minus_1)
qed

lemma rep_push_next:
  assumes "pool_rep p A" "a_space A \<noteq> 0" "length d = 8"
  shows "\<exists>p'. push_next e d dlc p = Some (fst (a_push_next e d dlc A), p') \<and> pool_rep p' (snd (a_push_next e d dlc A))"
proof (cases "first_slot (open_for e) A")
  case None
  then have "push_next_loop e d dlc (tree_range p) p = Some (False, ErrorOrphan, p)"
    using push_next_loop_find [OF assms(1) all_trees, of e d dlc] rep_range [OF assms(1)] rep_length [OF assms(1)]
    by (simp add: first_slot_def)
  from rep_next_fail [OF assms(1) this] None show ?thesis by (simp add: a_push_next_def)
next
  case (Some i)
  then have i: "i < size_trees" "open_for e (A ! i)"
    using first_slot_Some [OF Some] rep_length [OF assms(1)] by auto
  then obtain s where s: "A ! i = Some s" "sl_dlc s = 0" "(sl_extid s XOR e) AND mf_id_mask = 0"
    by (auto simp: open_for_def same_id_def split: option.splits)
  note h = rep_Some [OF assms(1) i(1) s(1)]
  have loop: "push_next_loop e d dlc (tree_range p) p = push_next_loop e d dlc [i] p"
    using push_next_loop_find [OF assms(1) all_trees, of e d dlc] Some rep_range [OF assms(1)] rep_length [OF assms(1)]
    by (simp add: first_slot_def)
  let ?f = "extid_frm (sl_extid s)" and ?s1 = "s\<lparr> sl_frames := sl_frames s @ [d], sl_to := can_timeout \<rparr>"
  obtain p1 where p1: "push_next_tree i d p = Some (MsgAccepted, p1)"
    "p_trees p1 ! i = (p_trees p ! i)\<lparr> tr_to := can_timeout \<rparr>" "pool_rep p1 (A[i := Some ?s1])"
    using rep_append [OF assms(1) i(1) s(1) assms(2,3)] by blast
  have s1: "A[i := Some ?s1] ! i = Some ?s1" using i rep_length [OF assms(1)] by simp
  consider (fin) "dlc \<noteq> 0" | (step) "dlc = 0" "extid_frm e = ?f"
    | (again) "dlc = 0" "extid_frm e \<noteq> ?f" "extid_frm e = prev_frm ?f"
    | (orphan) "dlc = 0" "extid_frm e \<noteq> ?f" "extid_frm e \<noteq> prev_frm ?f" by blast
  then show ?thesis
  proof cases
    case fin
    have "pool_rep (set_tree i (\<lambda>t. t\<lparr> tr_dlc := dlc \<rparr>) p1) (A[i := Some (?s1\<lparr> sl_dlc := dlc \<rparr>)])"
      using rep_header [OF p1(3) i(1) s1, of "\<lambda>t. t\<lparr> tr_dlc := dlc \<rparr>"] p1(2) h by (cases s) simp
    moreover have "push_next e d dlc p = Some (PacketAvailable, set_tree i (\<lambda>t. t\<lparr> tr_dlc := dlc \<rparr>) p1)"
      unfolding push_next_def loop using fin h s p1(1) by (simp add: Let_def)
    moreover have "?s1\<lparr> sl_dlc := dlc \<rparr> = s\<lparr> sl_frames := sl_frames s @ [d], sl_dlc := dlc, sl_to := can_timeout \<rparr>"
      by simp
    ultimately show ?thesis using fin s Some by (simp add: a_push_next_def Let_def)
  next
    case step
    let ?g = "\<lambda>t. t\<lparr> tr_extid := extid_set_frm (next_frm ?f) (tr_extid t) \<rparr>"
    have "pool_rep (set_tree i ?g p1) (A[i := Some (?s1\<lparr> sl_extid := extid_set_frm (next_frm ?f) (sl_extid s) \<rparr>)])"
      using rep_header [OF p1(3) i(1) s1, of ?g] p1(2) h s by (cases s) simp
    moreover have "push_next e d dlc p = Some (MsgAccepted, set_tree i ?g p1)"
      unfolding push_next_def loop using step h s p1(1) by (simp add: Let_def next_frm_def)
    moreover have "?s1\<lparr> sl_extid := extid_set_frm (next_frm ?f) (sl_extid s) \<rparr>
        = s\<lparr> sl_extid := extid_set_frm (next_frm ?f) (sl_extid s), sl_frames := sl_frames s @ [d], sl_to := can_timeout \<rparr>"
      by simp
    ultimately show ?thesis using step s Some by (simp add: a_push_next_def Let_def)
  next
    case again
    then have "push_next e d dlc p = Some (MsgDropped, p)"
      unfolding push_next_def loop using h s by (simp add: Let_def prev_frm_def)
    then show ?thesis using again s Some assms(1) by (simp add: a_push_next_def Let_def)
  next
    case orphan
    then have "push_next_loop e d dlc (tree_range p) p = Some (False, ErrorOrphan, p)"
      unfolding loop using h s by (simp add: Let_def prev_frm_def)
    from rep_next_fail [OF assms(1) this] show ?thesis using orphan s Some by (simp add: a_push_next_def Let_def)
  qed
qed

lemma a_push_next_not_accepted: "dlc \<noteq> 0 \<Longrightarrow> fst (a_push_next e d dlc A) \<noteq> MsgAccepted"
  by (simp add: a_push_next_def Let_def split: option.splits)

lemma rep_push:
  assumes "pool_rep p A" "length d = 8"
  shows "\<exists>p'. pool_push e d dlc p = Some (fst (a_push e d dlc A), p') \<and> pool_rep p' (snd (a_push e d dlc A))"
proof (cases "a_space A = 0")
  case True
  obtain x p1 where p1: "pool_timeout p = Some (x, p1)" "pool_rep p1 (a_timeout A)"
    using rep_timeout [OF assms(1)] by blast
  obtain p2 where "pool_remove e p1 = Some p2" "pool_rep p2 (a_remove e (a_timeout A))"
    using rep_remove [OF p1(2)] by blast
  then show ?thesis using True p1(1) rep_space [OF assms(1)] by (simp add: pool_push_def a_push_def)
next
  case False
  then have free: "p_free p \<noteq> max_idx" using rep_space [OF assms(1)] by simp
  note new = rep_push_new [OF assms(1) False assms(2)] and nxt = rep_push_next [OF assms(1) False assms(2)]
  show ?thesis
  proof (cases "extid_frm e = frm_end \<and> dlc \<noteq> 0")
    case True
    then show ?thesis
      using nxt [of e dlc] a_push_next_not_accepted [of dlc e d A] free False
      by (auto simp: pool_push_def a_push_def)
  next
    case no_end: False
    then show ?thesis
      using new [of e 0] new [of e "if dlc > 0 then dlc else 0xFF"] nxt [of e 0] free False assms(1)
      by (auto simp: pool_push_def a_push_def)
  qed
qed

subsection \<open>Reading simulates the specification\<close>

text \<open>The stream over the caller's buffer after \<open>acc\<close> has been written.\<close>

definition stream_at :: "bytes \<Rightarrow> nat \<Rightarrow> bytes \<Rightarrow> writer" where
  "stream_at dest sz acc = \<lparr> w_buf = blit 0 acc dest, w_size = sz, w_pos = length acc \<rparr>"

lemma blit_0_more: "length acc + length bs \<le> length dest \<Longrightarrow> blit (length acc) bs (blit 0 acc dest) = blit 0 (acc @ bs) dest"
  using blit_blit [of 0 acc dest bs] by (simp add: blit_def)

lemma stream_at_ok: "length acc \<le> sz \<Longrightarrow> sz \<le> length dest \<Longrightarrow> length dest < mem_max \<Longrightarrow> writer_ok (stream_at dest sz acc)"
  by (simp add: writer_ok_def stream_at_def)

lemma stream_at_put:
  "length acc + length bs \<le> sz \<Longrightarrow> sz \<le> length dest \<Longrightarrow>
     w_put bs (stream_at dest sz acc) = Some (length bs, stream_at dest sz (acc @ bs))"
  by (simp add: w_put_def stream_at_def blit_0_more)

lemma stream_at_write:
  assumes "length acc + n \<le> sz" "sz \<le> length dest" "length dest < mem_max" "n \<le> length f"
  shows "write_mem f n (stream_at dest sz acc) = Some (n, stream_at dest sz (acc @ take n f))"
proof -
  have "min n (w_size (stream_at dest sz acc) - w_pos (stream_at dest sz acc)) = n"
    using assms(1) by (simp add: stream_at_def min_def)
  then show ?thesis
    using assms write_mem_ok [of "stream_at dest sz acc" n f] stream_at_ok [of acc sz dest]
      stream_at_put [of acc "take n f" sz dest] by simp
qed

lemma read_chain_frames:
  assumes "sz \<le> length dest" "length dest < mem_max" "items_ok items" "length items = size_items"
  shows "chain items h xs \<Longrightarrow> xs \<noteq> [] \<Longrightarrow> length acc \<le> sz \<Longrightarrow>
     read_chain sz dlc items h (stream_at dest sz acc) =
       Some (stream_at dest sz (frames_read sz dlc (map (\<lambda>x. it_data (items ! x)) xs) acc)) \<and>
     length (frames_read sz dlc (map (\<lambda>x. it_data (items ! x)) xs) acc) \<le> sz"
proof (induction xs arbitrary: h acc)
  case (Cons x xs)
  let ?d = "it_data (items ! x)"
  have x: "x < size_items" "h = of_nat x" "chain items (it_next (items ! x)) xs" "length ?d = 8"
    using Cons.prems(1) assms(3,4) by (auto intro: items_ok_nth)
  have add: "size_add (w_pos (stream_at dest sz acc)) n = length acc + n" if "n \<le> 8" for n
    using that Cons.prems(3) assms(1,2) by (simp add: stream_at_def)
  have lt: "unat dlc \<le> 8" if "dlc \<le> 8" using that by (simp add: word_le_nat_alt)
  show ?case
  proof (cases xs)
    case Nil
    then have "it_next (items ! x) = max_idx" using x(3) by simp
    then show ?thesis
      using Nil x assms Cons.prems(3) add lt stream_at_write [of acc "unat dlc" sz dest ?d]
      by (subst read_chain.simps) (auto simp: unat_index Let_def)
  next
    case (Cons y ys)
    then have nn: "it_next (items ! x) \<noteq> max_idx" using x(3) by (auto dest: index_not_max)
    show ?thesis
    proof (cases "length acc + 8 > sz")
      case True
      then show ?thesis
        using x assms(4) nn add [of 8] Cons Cons.prems(3) by (subst read_chain.simps) (simp add: unat_index Let_def)
    next
      case False
      have "read_chain sz dlc items h (stream_at dest sz acc)
          = read_chain sz dlc items (it_next (items ! x)) (stream_at dest sz (acc @ ?d))"
        using x assms nn add [of 8] False stream_at_write [of acc 8 sz dest ?d]
        by (subst read_chain.simps) (simp add: unat_index Let_def)
      then show ?thesis
        using Cons.IH [OF x(3), of "acc @ ?d"] Cons False x(4) by simp
    qed
  qed
qed simp

lemma rep_read_tree:
  assumes "pool_rep p A" "i < size_trees" "A ! i = Some s" "sz \<le> length dest" "length dest < mem_max"
  shows "\<exists>p'. read_tree i dest sz p = Some (length (slot_read sz s), blit 0 (slot_read sz s) dest, p') \<and>
    pool_rep p' (A[i := None]) \<and> length (slot_read sz s) \<le> sz"
proof -
  obtain fl cs where inv: "pool_inv p fl cs" and A: "A = abs_pool p cs" using assms(1) by (auto simp: pool_rep_def)
  then have len: "length (p_items p) = size_items" "items_ok (p_items p)"
    "chain (p_items p) (tr_head (p_trees p ! i)) (cs ! i)"
    using assms(2) by (auto simp: pool_inv_def)
  have s: "abs_slot (p_items p) (p_trees p ! i) (cs ! i) = Some s"
    using assms(2,3) by (simp add: A nth_abs_pool)
  then have ne: "cs ! i \<noteq> []" and fr: "sl_frames s = map (\<lambda>x. it_data (p_items p ! x)) (cs ! i)"
    by (auto simp: abs_slot_def split: if_splits)
  note h = rep_Some [OF assms(1-3)]
  let ?pid = "extid_pid (sl_extid s)"
  let ?acc = "if 2 \<le> sz then le_bytes 2 ?pid else []"
  have w0: "writer_make dest sz = stream_at dest sz []" by (simp add: writer_make_def stream_at_def)
  have "\<exists>n. write_u16 ?pid (writer_make dest sz) = Some (n, stream_at dest sz ?acc)"
  proof (cases "2 \<le> sz")
    case True
    then show ?thesis
      using stream_at_put [of "[]" "le_bytes 2 ?pid" sz dest] assms(4,5)
        write_le_ok [OF stream_at_ok [of "[]" sz dest], of 2 ?pid]
      by (simp add: write_u16_def w0) (simp add: stream_at_def)
  next
    case False
    then show ?thesis
      using assms(4,5) write_le_ok [OF stream_at_ok [of "[]" sz dest], of 2 ?pid]
      by (simp add: write_u16_def w0) (simp add: stream_at_def)
  qed
  then obtain n where n: "write_u16 ?pid (writer_make dest sz) = Some (n, stream_at dest sz ?acc)" ..
  have "length ?acc \<le> sz" by simp
  from read_chain_frames [OF assms(4,5) len(2,1,3) ne this, of "sl_dlc s"]
  have r: "read_chain sz (sl_dlc s) (p_items p) (tr_head (p_trees p ! i)) (stream_at dest sz ?acc)
      = Some (stream_at dest sz (slot_read sz s))" "length (slot_read sz s) \<le> sz"
    by (simp_all add: slot_read_def fr)
  obtain p' where "release i p = Some p'" "pool_rep p' (A[i := None])"
    using rep_release [OF assms(1,2)] by blast
  then show ?thesis using n r h by (simp add: read_tree_def Let_def) (simp add: stream_at_def)
qed

lemma rep_read_loop:
  assumes "sz \<le> length dest" "length dest < mem_max"
  shows "pool_rep p A \<Longrightarrow> set is \<subseteq> {..<size_trees} \<Longrightarrow> a_read_loop is sz src A = (bs, src', A') \<Longrightarrow>
     \<exists>p'. read_packet_loop is dest sz src p = Some (length bs, blit 0 bs dest, src', p') \<and> pool_rep p' A' \<and> length bs \<le> sz"
proof (induction "is" arbitrary: p A src)
  case Nil
  then show ?case by simp
next
  case (Cons i js)
  then have i: "i < size_trees" by auto
  show ?case
  proof (cases "A ! i")
    case None
    then show ?thesis using Cons rep_None [OF Cons.prems(1) i] by simp
  next
    case (Some s)
    note h = rep_Some [OF Cons.prems(1) i Some]
    show ?thesis
    proof (cases "sl_dlc s = 0")
      case True
      then show ?thesis using Cons Some h by (simp add: Let_def)
    next
      case False
      obtain p1 where p1: "read_tree i dest sz p = Some (length (slot_read sz s), blit 0 (slot_read sz s) dest, p1)"
        "pool_rep p1 (A[i := None])" "length (slot_read sz s) \<le> sz"
        using rep_read_tree [OF Cons.prems(1) i Some assms] by blast
      show ?thesis
      proof (cases "slot_read sz s = []")
        case True
        then show ?thesis
          using Cons.IH [OF p1(2), of "extid_src (sl_extid s)"] Cons.prems(2,3) False Some h p1(1)
          by (simp add: Let_def)
      next
        case ne: False
        then show ?thesis using Cons.prems(3) False Some h p1 by (simp add: Let_def)
      qed
    qed
  qed
qed

lemma rep_read_packet:
  assumes "pool_rep p A" "sz \<le> length dest" "length dest < mem_max" "a_read_packet sz src A = (bs, src', A')"
  shows "\<exists>p'. pool_read_packet dest sz src p = Some (length bs, blit 0 bs dest, src', p') \<and> pool_rep p' A'
    \<and> length bs \<le> sz"
  using rep_read_loop [OF assms(2,3,1) all_trees] assms(4) rep_range [OF assms(1)] rep_length [OF assms(1)]
  by (simp add: pool_read_packet_def a_read_packet_def)

subsection \<open>Runs of the pool\<close>

datatype can_op = OpPush extid_s bytes u8 | OpTimeout | OpRead bytes nat

datatype can_out = OutError error_type | OutTimeout bool | OutPacket bytes bytes u8

text \<open>A read reports the bytes of the packet, the caller's buffer afterwards and the source node.\<close>

fun can_op_ok :: "can_op \<Rightarrow> bool" where
  "can_op_ok (OpPush e d dlc) \<longleftrightarrow> length d = 8"
| "can_op_ok OpTimeout \<longleftrightarrow> True"
| "can_op_ok (OpRead dest sz) \<longleftrightarrow> sz \<le> length dest \<and> length dest < mem_max"

fun can_step :: "can_op \<Rightarrow> pool \<Rightarrow> (can_out \<times> pool) option" where
  "can_step (OpPush e d dlc) p = do { (rv, p) \<leftarrow> pool_push e d dlc p; Some (OutError rv, p) }"
| "can_step OpTimeout p = do { (rv, p) \<leftarrow> pool_timeout p; Some (OutTimeout rv, p) }"
| "can_step (OpRead dest sz) p = do {
     (cnt, dest, src, p) \<leftarrow> pool_read_packet dest sz 0 p;
     Some (OutPacket (take cnt dest) dest src, p) }"

fun can_spec :: "can_op \<Rightarrow> apool \<Rightarrow> can_out \<times> apool" where
  "can_spec (OpPush e d dlc) A = (let (rv, A) = a_push e d dlc A in (OutError rv, A))"
| "can_spec OpTimeout A = (OutTimeout (a_expired A), a_timeout A)"
| "can_spec (OpRead dest sz) A =
     (let (bs, src, A) = a_read_packet sz 0 A in (OutPacket bs (blit 0 bs dest) src, A))"

interpretation can_pool: simulation can_op_ok can_step can_spec pool_rep
proof
  fix i s a assume ok: "can_op_ok i" and rep: "pool_rep s a"
  show "\<exists>s'. can_step i s = Some (fst (can_spec i a), s') \<and> pool_rep s' (snd (can_spec i a))"
  proof (cases i)
    case (OpPush e d dlc)
    then show ?thesis using rep_push [OF rep, of d e dlc] ok by (auto simp: case_prod_beta Let_def)
  next
    case OpTimeout
    then show ?thesis using rep_timeout [OF rep] by auto
  next
    case (OpRead dest sz)
    obtain bs src A' where A': "a_read_packet sz 0 a = (bs, src, A')" by (metis prod_cases3)
    obtain p' where "pool_read_packet dest sz 0 s = Some (length bs, blit 0 bs dest, src, p')" "pool_rep p' A'"
      "length bs \<le> sz"
      using rep_read_packet [OF rep _ _ A', of dest] ok OpRead by auto
    then show ?thesis using OpRead A' by (simp add: blit_def)
  qed
qed

end
