(* ===== verification/Can_Codec.thy ===== *)
theory Can_Codec
  imports Can_Pool_Spec Crc32
begin

text \<open>
  \<open>xbus/can/CanCodec.h\<close> and \<open>CanCodec.cpp\<close>: packets split into CAN messages and put
  together again by the pool.  The virtual methods of \<open>Codec\<close> belong to its users; they are a
  record of functions over an environment \<open>'e\<close>, an argument of the model.
\<close>

unbundle bit_operations_syntax

subsection \<open>Codec\<close>

record 'e codec_virt =
  v_update_node_id :: "extid_s \<Rightarrow> 'e \<Rightarrow> extid_s \<times> 'e"
  v_send_message :: "xcan_msg \<Rightarrow> 'e \<Rightarrow> bool \<times> 'e"
  v_lock_push :: "bool \<Rightarrow> 'e \<Rightarrow> 'e"
  v_accept_filter :: "extid_s \<Rightarrow> 'e \<Rightarrow> bool \<times> 'e"

record codec =
  c_txmsg :: xcan_msg
  c_pool :: pool
  c_defaults :: extid_s

text \<open>The constructor sets the defaults only; \<open>pool\<close> and \<open>txmsg\<close> are what memory holds.\<close>

definition codec_make :: "xcan_msg \<Rightarrow> pool \<Rightarrow> codec" where
  "codec_make tx p = \<lparr> c_txmsg = tx, c_pool = p, c_defaults = 0 \<rparr>"

definition send_txmsg :: "'e codec_virt \<Rightarrow> xcan_msg \<Rightarrow> codec \<Rightarrow> 'e \<Rightarrow> bool \<times> codec \<times> 'e" where
  "send_txmsg v m c e = (let (ok, e) = v_send_message v m e in (ok, c\<lparr> c_txmsg := m \<rparr>, e))"

definition sendAddressing :: "'e codec_virt \<Rightarrow> codec \<Rightarrow> 'e \<Rightarrow> codec \<times> 'e" where
  "sendAddressing v c e =
     (let extid = c_defaults c;
          extid = extid_set_pid 0xFFFF extid;
          extid = extid_set_frm frm_single extid;
          (ok, c, e) = send_txmsg v ((c_txmsg c)\<lparr> m_id := extid, m_ext := True, m_dlc := 0 \<rparr>) c e
      in (c, e))"

definition push_message :: "'e codec_virt \<Rightarrow> xcan_msg \<Rightarrow> codec \<Rightarrow> 'e \<Rightarrow> (error_type \<times> codec \<times> 'e) option" where
  "push_message v msg c e =
     (let extid = m_id msg
      in if extid_src extid = extid_src (c_defaults c) then
           let (d, e) = v_update_node_id v (c_defaults c) e;
               (c, e) = sendAddressing v (c\<lparr> c_defaults := d \<rparr>) e
           in Some (MsgDropped, c, e)
         else
           let (acc, e) = v_accept_filter v extid e
           in if \<not> acc then Some (MsgAccepted, c, e)
              else do {
                (rv, p) \<leftarrow> pool_push extid (m_data msg) (m_dlc msg) (c_pool c);
                Some (rv, c\<lparr> c_pool := p \<rparr>, e)
              })"

text \<open>
  The checksum is computed in whole words over the user's buffer: \<open>far\<close> are the bytes that lie
  behind it, and the second result is where the reads of the check end (\<open>CRC32_SW_end\<close>).
\<close>

definition check_crc :: "(nat \<Rightarrow> u8) \<Rightarrow> bytes \<Rightarrow> nat \<Rightarrow> (nat \<times> nat) option" where
  "check_crc far dest sz =
     (let n = size_sub sz 2
      in if n + 2 \<le> length dest then
           let packet_crc = ucast (dest ! n) OR push_bit 8 (ucast (dest ! (n + 1)) :: u16);
               crc16 = ucast (crc32_mem far dest n crc32_init)
           in Some (if packet_crc \<noteq> crc16 then 0 else n, max (n + 2) (CRC32_SW_end 0 n))
         else None)"

text \<open>
  The loop over the packets of the pool, until one passes its check or none is left.  \<open>rd\<close> follows
  how far its checks have read.
\<close>

partial_function (option) codec_read_packet ::
  "'e codec_virt \<Rightarrow> (nat \<Rightarrow> u8) \<Rightarrow> nat \<Rightarrow> bytes \<Rightarrow> nat \<Rightarrow> u8 \<Rightarrow> codec \<Rightarrow> 'e \<Rightarrow>
     (nat \<times> bytes \<times> u8 \<times> codec \<times> 'e \<times> nat) option" where
  "codec_read_packet v far rd dest sz src c e = do {
     let e = v_lock_push v True e;
     (cnt, dest, src, p) \<leftarrow> pool_read_packet dest sz src (c_pool c);
     let e = v_lock_push v False e;
     let c = c\<lparr> c_pool := p \<rparr>;
     if cnt \<le> 2 + 8 then Some (cnt, dest, src, c, e, rd)
     else do {
       (cnt, stop) \<leftarrow> check_crc far dest cnt;
       let rd = max rd stop;
       if cnt \<noteq> 0 then Some (cnt, dest, src, c, e, rd)
       else codec_read_packet v far rd dest sz src c e
     }
   }"

subsection \<open>Sending\<close>

text \<open>\<open>memcpy\<close> of \<open>n\<close> bytes to the front of \<open>txmsg.data\<close>.\<close>

definition copy_data :: "nat \<Rightarrow> bytes \<Rightarrow> bytes \<Rightarrow> bytes option" where
  "copy_data n src d = (if n \<le> length src \<and> n \<le> length d then Some (blit 0 (take n src) d) else None)"

text \<open>The data of the next frame; \<open>cnt\<close> counts the bytes left with the CRC.\<close>

definition frame_data :: "nat \<Rightarrow> u16 \<Rightarrow> bytes \<Rightarrow> bytes \<Rightarrow> bytes option" where
  "frame_data cnt crc16 src d =
     (if cnt > 8 then
        if cnt = 9 then do { d \<leftarrow> copy_data 7 src d; Some (d[7 := ucast crc16]) }
        else copy_data 8 src d
      else if cnt > 2 then do {
        let sz = cnt - 2;
        d \<leftarrow> copy_data sz src d;
        Some (d[sz := ucast crc16, sz + 1 := ucast (drop_bit 8 crc16)])
      }
      else if cnt = 2 then Some (d[0 := ucast crc16, 1 := ucast (drop_bit 8 crc16)])
      else Some (d[0 := ucast (drop_bit 8 crc16)]))"

definition frame_dlc :: "nat \<Rightarrow> nat" where
  "frame_dlc cnt = (if cnt > 8 then 8 else cnt)"

definition frame_next :: "u8 \<Rightarrow> u8" where
  "frame_next frm = (if frm = frm_start \<or> frm \<ge> frm_seq_max then 0 else frm + 1)"

function send_loop ::
  "'e codec_virt \<Rightarrow> u16 \<Rightarrow> nat \<Rightarrow> u8 \<Rightarrow> extid_s \<Rightarrow> bytes \<Rightarrow> codec \<Rightarrow> 'e \<Rightarrow> (bool \<times> codec \<times> 'e) option" where
  "send_loop v crc16 cnt frm extid src c e =
     (if cnt = 0 then Some (True, c, e)
      else do {
        let extid = extid_set_frm (if cnt > 8 then frm else frm_end) extid;
        let frm = (if cnt > 8 then frame_next frm else frm);
        d \<leftarrow> frame_data cnt crc16 src (m_data (c_txmsg c));
        let m = (c_txmsg c)\<lparr> m_data := d, m_id := extid, m_dlc := of_nat (frame_dlc cnt) \<rparr>;
        let (ok, c, e) = send_txmsg v m c e;
        if \<not> ok then Some (False, c, e)
        else send_loop v crc16 (cnt - frame_dlc cnt) frm extid (drop (frame_dlc cnt) src) c e
      })"
  by pat_completeness auto
termination
  by (relation "measure (\<lambda>(v, crc16, cnt, frm, extid, src, c, e). cnt)") (auto simp: frame_dlc_def)

declare send_loop.simps [simp del]

definition send_packet :: "'e codec_virt \<Rightarrow> (nat \<Rightarrow> u8) \<Rightarrow> bytes \<Rightarrow> codec \<Rightarrow> 'e \<Rightarrow> (bool \<times> codec \<times> 'e) option" where
  "send_packet v far data c e =
     (if length data < 2 then Some (True, c, e)
      else do {
        (pid, stream) \<leftarrow> read_u16 (reader_make data (length data));
        let extid = extid_set_pid pid (c_defaults c);
        let cnt = r_available stream;
        let src = drop (r_pos stream) data;
        let c = c\<lparr> c_txmsg := (c_txmsg c)\<lparr> m_ext := True \<rparr> \<rparr>;
        if cnt \<le> 8 then do {
          let extid = extid_set_frm frm_single extid;
          d \<leftarrow> (if cnt > 0 then copy_data cnt src (m_data (c_txmsg c)) else Some (m_data (c_txmsg c)));
          Some (send_txmsg v ((c_txmsg c)\<lparr> m_id := extid, m_dlc := of_nat cnt, m_data := d \<rparr>) c e)
        }
        else
          let crc16 = ucast (crc32_mem far data (length data) crc32_init)
          in send_loop v crc16 (cnt + 2) frm_start extid src c e
      })"

end
