(* ===== verification/Can_Guarantees.thy ===== *)
theory Can_Guarantees
  imports Can_Pool_Spec
begin

text \<open>
  What the CAN pool guarantees along every run of its operations: it follows its specification,
  leaks no item, collects a packet in one slot, keeps finished packets and frees itself of
  unfinished ones.
\<close>

subsection \<open>Invariants of the specification\<close>

definition slot_below :: "nat \<Rightarrow> slot option \<Rightarrow> bool" where
  "slot_below n x = (case x of None \<Rightarrow> True | Some s \<Rightarrow> sl_dlc s \<noteq> 0 \<or> unat (sl_to s) < n)"

definition slot_done :: "slot option \<Rightarrow> bool" where
  "slot_done x = (case x of None \<Rightarrow> False | Some s \<Rightarrow> sl_dlc s \<noteq> 0)"

text \<open>At most one slot collects a packet.\<close>

definition one_open :: "apool \<Rightarrow> bool" where
  "one_open A \<longleftrightarrow> (\<forall>e i j. i < length A \<and> j < length A \<and> open_for e (A ! i) \<and> open_for e (A ! j) \<longrightarrow> i = j)"

definition pool_wf :: "apool \<Rightarrow> bool" where
  "pool_wf A \<longleftrightarrow> length A = size_trees \<and> list_all (slot_below 8) A \<and> one_open A"

lemma open_for_remove: "open_for f (slot_remove e x) \<longleftrightarrow> open_for f x \<and> \<not> open_for e x"
  by (simp add: slot_remove_def) (simp add: open_for_def)

lemma open_for_age: "open_for f (slot_age x) \<Longrightarrow> open_for f x"
  by (auto simp: slot_age_def open_for_def split: option.splits if_splits)

lemma open_for_same: "open_for e x \<Longrightarrow> same_id e f \<Longrightarrow> open_for f x"
  by (auto simp: open_for_def split: option.splits intro: same_id_trans)

lemma slot_below_remove: "slot_below n x \<Longrightarrow> slot_below n (slot_remove e x)"
  by (simp add: slot_remove_def) (simp add: slot_below_def)

lemma unat_pred: "x \<noteq> 0 \<Longrightarrow> unat (x - 1 :: u8) = unat x - 1"
  by (metis One_nat_def gr0I unat_gt_0 unat_minus_one)

lemma slot_below_age: "slot_below (Suc n) x \<Longrightarrow> slot_below n (slot_age x)"
proof (cases x)
  case (Some s)
  assume b: "slot_below (Suc n) x"
  show ?thesis
  proof (cases "sl_dlc s = 0 \<and> sl_to s \<noteq> 0")
    case True
    then have "0 < unat (sl_to s)" by (simp add: unat_gt_0)
    then show ?thesis using b Some True by (simp add: slot_age_def slot_below_def unat_pred)
  next
    case False
    then show ?thesis using Some by (auto simp: slot_age_def slot_below_def)
  qed
qed (simp add: slot_age_def slot_below_def)

lemma slot_below_mono: "slot_below n x \<Longrightarrow> n \<le> m \<Longrightarrow> slot_below m x"
  by (auto simp: slot_below_def split: option.splits)

lemma length_a_ops [simp]: "length (a_remove e A) = length A" "length (a_timeout A) = length A"
  by (simp_all add: a_remove_def a_timeout_def)

lemma nth_a_remove [simp]: "i < length A \<Longrightarrow> a_remove e A ! i = slot_remove e (A ! i)"
  by (simp add: a_remove_def)

lemma nth_a_timeout [simp]: "i < length A \<Longrightarrow> a_timeout A ! i = slot_age (A ! i)"
  by (simp add: a_timeout_def)

lemma below_remove: "list_all (slot_below n) A \<Longrightarrow> list_all (slot_below n) (a_remove e A)"
  by (auto simp: list_all_length slot_below_remove)

lemma below_timeout: "list_all (slot_below (Suc n)) A \<Longrightarrow> list_all (slot_below n) (a_timeout A)"
  by (auto simp: list_all_length slot_below_age)

lemma below_mono: "list_all (slot_below n) A \<Longrightarrow> n \<le> m \<Longrightarrow> list_all (slot_below m) A"
  by (auto simp: list_all_length intro: slot_below_mono)

lemma wf_remove: "pool_wf A \<Longrightarrow> pool_wf (a_remove e A)"
  by (auto simp: pool_wf_def below_remove one_open_def open_for_remove)

lemma wf_timeout: "pool_wf A \<Longrightarrow> pool_wf (a_timeout A)"
  using below_mono [OF below_timeout [of 7 A]] by (auto simp: pool_wf_def one_open_def dest!: open_for_age)

lemma wf_update:
  assumes "pool_wf A" "slot_below 8 x" "\<And>e j. open_for e x \<Longrightarrow> j < length A \<Longrightarrow> j \<noteq> i \<Longrightarrow> \<not> open_for e (A ! j)"
  shows "pool_wf (A[i := x])"
proof -
  have "one_open (A[i := x])"
    unfolding one_open_def
  proof (intro allI impI, elim conjE)
    fix e k j assume l: "k < length (A[i := x])" "j < length (A[i := x])"
      and o: "open_for e (A[i := x] ! k)" "open_for e (A[i := x] ! j)"
    show "k = j"
    proof (cases "k = i \<or> j = i")
      case True
      then show ?thesis using assms(3) l o by (cases "k = i"; cases "j = i") auto
    next
      case False
      then have "open_for e (A ! k)" "open_for e (A ! j)" using l o by auto
      then show ?thesis using assms(1) l by (simp add: pool_wf_def one_open_def)
    qed
  qed
  then show ?thesis
    using assms(1,2) set_update_subset_insert [of A i x] by (auto simp: pool_wf_def list_all_iff)
qed

lemma first_slot_None: "first_slot P A = None \<longleftrightarrow> (\<forall>i<length A. \<not> P (A ! i))"
  by (auto simp: first_slot_def find_None_iff)

lemma can_timeout_less: "unat can_timeout < 8"
  by (simp add: can_timeout_def)

lemma wf_push_new: "pool_wf A \<Longrightarrow> pool_wf (snd (a_push_new e d dlc A))"
proof -
  assume wf: "pool_wf A"
  show ?thesis
  proof (cases "first_slot (\<lambda>x. x = None) (a_remove e A)")
    case None
    then show ?thesis using wf by (simp add: a_push_new_def Let_def wf_remove wf_timeout)
  next
    case (Some i)
    let ?x = "Some \<lparr> sl_extid = (if dlc \<noteq> 0 then e else extid_set_frm 0 e), sl_frames = [d],
                           sl_dlc = dlc, sl_to = can_timeout \<rparr>"
    have "pool_wf ((a_remove e A)[i := ?x])"
    proof (rule wf_update)
      fix f j assume o: "open_for f ?x" and j: "j < length (a_remove e A)" "j \<noteq> i"
      have "same_id e f" using o by (simp add: open_for_def split: if_splits)
      then show "\<not> open_for f (a_remove e A ! j)"
        using j by (simp add: open_for_remove) (metis open_for_same same_id_sym)
    qed (auto simp: wf wf_remove slot_below_def can_timeout_less)
    then show ?thesis using Some by (simp add: a_push_new_def Let_def)
  qed
qed

lemma wf_push_next: "pool_wf A \<Longrightarrow> pool_wf (snd (a_push_next e d dlc A))"
proof -
  assume wf: "pool_wf A"
  have drop: "pool_wf (a_timeout (a_remove e A))" using wf by (simp add: wf_remove wf_timeout)
  show ?thesis
  proof (cases "first_slot (open_for e) A")
    case None
    then show ?thesis using drop by (simp add: a_push_next_def)
  next
    case (Some i)
    then obtain s where i: "i < length A" "open_for e (A ! i)" and s: "A ! i = Some s"
      using first_slot_Some [OF Some] by (auto simp: open_for_def split: option.splits)
    have upd: "pool_wf (A[i := Some t])"
      if t: "sl_dlc t \<noteq> 0 \<or> same_id (sl_extid t) (sl_extid s)" "sl_to t = can_timeout" for t
    proof (rule wf_update)
      fix f j assume o: "open_for f (Some t)" and j: "j < length A" "j \<noteq> i"
      have "open_for f (A ! i)"
        using o t i(2) s same_id_trans [of "sl_extid s" "sl_extid t" f] by (auto simp: open_for_def same_id_sym)
      then show "\<not> open_for f (A ! j)" using wf i j by (auto simp: pool_wf_def one_open_def)
    qed (auto simp: wf slot_below_def t can_timeout_less)
    show ?thesis using Some s drop wf upd by (auto simp: a_push_next_def Let_def)
  qed
qed

lemma wf_push: "pool_wf A \<Longrightarrow> pool_wf (snd (a_push e d dlc A))"
  by (simp add: a_push_def wf_push_new wf_push_next wf_remove wf_timeout)

lemma wf_empty_slot: "pool_wf A \<Longrightarrow> pool_wf (A[i := None])"
  by (rule wf_update) (simp_all add: slot_below_def open_for_def)

lemma wf_read_loop: "pool_wf A \<Longrightarrow> pool_wf (snd (snd (a_read_loop is sz src A)))"
  by (induction "is" sz src A rule: a_read_loop.induct) (auto simp: Let_def wf_empty_slot split: option.splits)

lemma wf_step: "pool_wf A \<Longrightarrow> pool_wf (snd (can_spec i A))"
  by (cases i) (simp_all add: case_prod_beta Let_def wf_push wf_timeout a_read_packet_def wf_read_loop)

lemma wf_init: "pool_wf (replicate size_trees None)"
  by (auto simp: pool_wf_def one_open_def open_for_def list_all_length slot_below_def)

lemma wf_run: "pool_wf A \<Longrightarrow> pool_wf (snd (run_spec can_spec is A))"
  using run_spec_invariant [of "\<lambda>_. True" pool_wf can_spec "is" A] wf_step by (simp add: list_all_iff)

subsection \<open>Runs from the initial pool\<close>

abbreviation no_slots :: apool where
  "no_slots \<equiv> replicate size_trees None"

lemma run_from_init:
  assumes "list_all can_op_ok ops"
  obtains p where "run_steps can_step ops pool_init = Some (fst (run_spec can_spec ops no_slots), p)"
    "pool_rep p (snd (run_spec can_spec ops no_slots))" "pool_wf (snd (run_spec can_spec ops no_slots))"
  using can_pool.run_sim [OF assms rep_init] wf_run [OF wf_init] by blast

lemma rep_pool_space: "pool_rep p A \<Longrightarrow> pool_space p = Some (a_space A)"
  by (auto simp: pool_rep_def a_space_abs pool_space_inv)

lemma rep_open_for: "pool_rep p A \<Longrightarrow> i < size_trees \<Longrightarrow> tr_head (p_trees p ! i) \<noteq> max_idx \<Longrightarrow> tr_dlc (p_trees p ! i) = 0 \<Longrightarrow>
   same_id (tr_extid (p_trees p ! i)) e \<Longrightarrow> open_for e (A ! i)"
  using rep_None [of p A i] rep_Some [of p A i] by (cases "A ! i") (auto simp: open_for_def)

text \<open>
  C2: from its initial state the pool executes every sequence of pushes, timeouts and reads (with
  eight data bytes per message, and a size that the destination has) without leaving its arrays or
  hanging; it answers as the specification of eight slots does; and its free list has exactly the
  items that no slot holds, so none is ever lost.
\<close>

theorem can_pool_refines:
  assumes "list_all can_op_ok ops"
  shows "\<exists>p. run_steps can_step ops pool_init = Some (fst (run_spec can_spec ops no_slots), p) \<and>
    pool_rep p (snd (run_spec can_spec ops no_slots)) \<and>
    pool_space p = Some (size_items - a_used (snd (run_spec can_spec ops no_slots)))"
proof -
  let ?A = "snd (run_spec can_spec ops no_slots)"
  obtain p where "run_steps can_step ops pool_init = Some (fst (run_spec can_spec ops no_slots), p)" "pool_rep p ?A"
    using run_from_init [OF assms] .
  then show ?thesis using rep_pool_space [of p ?A] unfolding a_space_def by blast
qed

lemma can_pool_refines_witness:
  "\<exists>p. run_steps can_step [OpPush 7 (replicate 8 1) 3, OpTimeout, OpRead (replicate 64 0) 64] pool_init
      = Some (fst (run_spec can_spec [OpPush 7 (replicate 8 1) 3, OpTimeout, OpRead (replicate 64 0) 64] no_slots), p) \<and>
    pool_rep p (snd (run_spec can_spec [OpPush 7 (replicate 8 1) 3, OpTimeout, OpRead (replicate 64 0) 64] no_slots)) \<and>
    pool_space p = Some (size_items -
      a_used (snd (run_spec can_spec [OpPush 7 (replicate 8 1) 3, OpTimeout, OpRead (replicate 64 0) 64] no_slots)))"
  by (rule can_pool_refines) simp

lemma push_not_SeqIdx: "fst (can_spec i A) \<noteq> OutError ErrorSeqIdx"
  by (cases i) (auto simp: a_push_def a_push_new_def a_push_next_def case_prod_beta Let_def split: option.splits)

lemma run_not_SeqIdx: "OutError ErrorSeqIdx \<notin> set (fst (run_spec can_spec is A))"
  by (induction "is" arbitrary: A) (auto simp: case_prod_beta Let_def push_not_SeqIdx [symmetric])

text \<open>
  C17: the frames of one packet (same identifier, source node and network) are never collected in
  two trees at a time, and the walk to the tail of a tree never gives up (\<open>ErrorSeqIdx\<close>).
\<close>

theorem can_one_collector:
  assumes "list_all can_op_ok ops"
  shows "\<exists>outs p. run_steps can_step ops pool_init = Some (outs, p) \<and> OutError ErrorSeqIdx \<notin> set outs \<and>
    (\<forall>i j. i < size_trees \<and> j < size_trees \<and>
      tr_head (p_trees p ! i) \<noteq> max_idx \<and> tr_dlc (p_trees p ! i) = 0 \<and>
      tr_head (p_trees p ! j) \<noteq> max_idx \<and> tr_dlc (p_trees p ! j) = 0 \<and>
      same_id (tr_extid (p_trees p ! i)) (tr_extid (p_trees p ! j)) \<longrightarrow> i = j)"
proof -
  let ?A = "snd (run_spec can_spec ops no_slots)"
  obtain p where p: "run_steps can_step ops pool_init = Some (fst (run_spec can_spec ops no_slots), p)"
    "pool_rep p ?A" "one_open ?A" "length ?A = size_trees"
    using run_from_init [OF assms] by (auto simp: pool_wf_def)
  have "i = j" if h: "i < size_trees \<and> j < size_trees \<and>
      tr_head (p_trees p ! i) \<noteq> max_idx \<and> tr_dlc (p_trees p ! i) = 0 \<and>
      tr_head (p_trees p ! j) \<noteq> max_idx \<and> tr_dlc (p_trees p ! j) = 0 \<and>
      same_id (tr_extid (p_trees p ! i)) (tr_extid (p_trees p ! j))" for i j
    using p(3,4) rep_open_for [OF p(2), of i "tr_extid (p_trees p ! j)"] rep_open_for [OF p(2), of j "tr_extid (p_trees p ! j)"] h
    unfolding one_open_def by (metis same_id_refl)
  then show ?thesis using p(1) run_not_SeqIdx by blast
qed

lemma can_one_collector_witness:
  "\<exists>outs p. run_steps can_step [OpPush 6 (replicate 8 1) 8, OpPush 6 (replicate 8 2) 8] pool_init = Some (outs, p) \<and>
    OutError ErrorSeqIdx \<notin> set outs \<and>
    (\<forall>i j. i < size_trees \<and> j < size_trees \<and>
      tr_head (p_trees p ! i) \<noteq> max_idx \<and> tr_dlc (p_trees p ! i) = 0 \<and>
      tr_head (p_trees p ! j) \<noteq> max_idx \<and> tr_dlc (p_trees p ! j) = 0 \<and>
      same_id (tr_extid (p_trees p ! i)) (tr_extid (p_trees p ! j)) \<longrightarrow> i = j)"
  by (rule can_one_collector) simp

subsection \<open>Recovery from overflow\<close>

text \<open>Slots without a finished packet, each dropped by the next \<open>n\<close> timeouts.\<close>

definition fading :: "nat \<Rightarrow> apool \<Rightarrow> bool" where
  "fading n A \<longleftrightarrow> list_all (\<lambda>x. slot_below n x \<and> \<not> slot_done x) A"

lemma fading_0: "fading 0 A \<Longrightarrow> a_used A = 0"
proof -
  assume f: "fading 0 A"
  have "slot_frames x = 0" if "x \<in> set A" for x
    using f that by (auto simp: fading_def list_all_iff slot_below_def slot_done_def slot_frames_def split: option.splits)
  then show ?thesis by (simp add: a_used_def)
qed

lemma done_ops: "slot_done (slot_remove e x) \<longleftrightarrow> slot_done x" "slot_done (slot_age x) \<longleftrightarrow> slot_done x"
  by (auto simp: slot_done_def slot_remove_def slot_age_def open_for_def split: option.splits)

lemma fading_overflow: "fading (Suc n) A \<Longrightarrow> fading n (a_remove e (a_timeout A))"
  by (auto simp: fading_def list_all_length slot_below_age slot_below_remove done_ops)

lemma push_overflow:
  "fst (a_push e d dlc A) = ErrorSlotsOverflow \<Longrightarrow> a_space A = 0 \<and> snd (a_push e d dlc A) = a_remove e (a_timeout A)"
  by (auto simp: a_push_def a_push_new_def a_push_next_def Let_def split: if_splits option.splits)

fun is_push :: "can_op \<Rightarrow> bool" where
  "is_push (OpPush e d dlc) \<longleftrightarrow> True"
| "is_push _ \<longleftrightarrow> False"

lemma overflow_ends:
  "fading n A \<Longrightarrow> length ops = Suc n \<Longrightarrow> list_all is_push ops \<Longrightarrow>
     \<exists>out\<in>set (fst (run_spec can_spec ops A)). out \<noteq> OutError ErrorSlotsOverflow"
proof (induction n arbitrary: A ops)
  case 0
  then obtain e d dlc where ops: "ops = [OpPush e d dlc]" by (cases ops; cases "hd ops") auto
  have "a_space A \<noteq> 0" using fading_0 [OF 0(1)] by (simp add: a_space_def size_items_def)
  then have "fst (a_push e d dlc A) \<noteq> ErrorSlotsOverflow" using push_overflow [of e d dlc A] by auto
  then show ?case by (simp add: ops case_prod_beta Let_def)
next
  case (Suc n)
  then obtain e d dlc ops' where ops: "ops = OpPush e d dlc # ops'" by (cases ops; cases "hd ops") auto
  show ?case
  proof (cases "fst (a_push e d dlc A) = ErrorSlotsOverflow")
    case True
    then have "fading n (snd (a_push e d dlc A))" using push_overflow [of e d dlc A] Suc.prems(1) fading_overflow by simp
    then show ?thesis using Suc.IH [of _ ops'] Suc.prems(2,3) by (auto simp: ops case_prod_beta Let_def)
  next
    case False
    then show ?thesis by (simp add: ops case_prod_beta Let_def)
  qed
qed

text \<open>
  C16: a pool that is full of unfinished packets recovers by itself: of any nine consecutive pushes
  at least one is not answered \<open>ErrorSlotsOverflow\<close>.
\<close>

theorem can_overflow_recovers:
  assumes "list_all can_op_ok (ops @ pushes)" "length pushes = 9" "list_all is_push pushes"
    "run_steps can_step ops pool_init = Some (outs, p)"
    "\<forall>i < size_trees. tr_head (p_trees p ! i) = max_idx \<or> tr_dlc (p_trees p ! i) = 0"
  shows "\<exists>outs' p'. run_steps can_step pushes p = Some (outs', p') \<and>
    (\<exists>out\<in>set outs'. out \<noteq> OutError ErrorSlotsOverflow)"
proof -
  let ?A = "snd (run_spec can_spec ops no_slots)"
  have A: "pool_rep p ?A" "pool_wf ?A" using run_from_init [of ops] assms(1,4) by auto
  have "\<not> slot_done (?A ! i)" if "i < size_trees" for i
    using rep_None [OF A(1) that] rep_Some [OF A(1) that] assms(5) that
    by (cases "?A ! i") (auto simp: slot_done_def)
  then have "fading 8 ?A" using A(2) by (auto simp: fading_def pool_wf_def list_all_length)
  then have "\<exists>out\<in>set (fst (run_spec can_spec pushes ?A)). out \<noteq> OutError ErrorSlotsOverflow"
    using overflow_ends [of 8 ?A pushes] assms(2,3) by simp
  then show ?thesis using can_pool.run_sim [OF _ A(1), of pushes] assms(1) by fastforce
qed

lemma can_overflow_recovers_witness:
  "\<exists>outs' p'. run_steps can_step (replicate 9 (OpPush 6 (replicate 8 1) 8)) pool_init = Some (outs', p') \<and>
    (\<exists>out\<in>set outs'. out \<noteq> OutError ErrorSlotsOverflow)"
  by (rule can_overflow_recovers [of "[]"]) (simp_all add: list_all_iff pool_init_def size_trees_def)

subsection \<open>Finished packets\<close>

lemma done_not_open: "slot_done x \<Longrightarrow> \<not> open_for e x"
  by (auto simp: slot_done_def open_for_def split: option.splits)

lemma done_kept: "slot_done x \<Longrightarrow> slot_remove e x = x" "slot_done x \<Longrightarrow> slot_age x = x"
  by (auto simp: slot_remove_def done_not_open slot_age_def slot_done_def split: option.splits)

lemma done_kept_push:
  assumes "i < length A" "slot_done (A ! i)"
  shows "snd (a_push e d dlc A) ! i = A ! i"
proof -
  have not_empty: "j \<noteq> i" if "first_slot (\<lambda>x. x = None) (a_remove e A) = Some j" for j
    using first_slot_Some [OF that] assms done_kept(1) [OF assms(2)] by (auto simp: slot_done_def)
  have not_open: "j \<noteq> i" if "first_slot (open_for e) A = Some j" for j
    using first_slot_Some [OF that] done_not_open [OF assms(2)] by auto
  have "snd (a_push_new e d dlc' A) ! i = A ! i" for dlc'
    using assms done_kept [OF assms(2)] not_empty by (auto simp: a_push_new_def Let_def split: option.splits)
  moreover have "snd (a_push_next e d dlc' A) ! i = A ! i" for dlc'
    using assms done_kept [OF assms(2)] not_open by (auto simp: a_push_next_def Let_def split: option.splits)
  ultimately show ?thesis using assms done_kept [OF assms(2)] by (auto simp: a_push_def)
qed

fun is_read :: "can_op \<Rightarrow> bool" where
  "is_read (OpRead dest sz) \<longleftrightarrow> True"
| "is_read _ \<longleftrightarrow> False"

lemma length_can_spec: "pool_wf A \<Longrightarrow> length (snd (can_spec op A)) = size_trees"
  using wf_step [of A op] by (simp add: pool_wf_def)

lemma done_kept_run:
  "pool_wf A \<Longrightarrow> i < size_trees \<Longrightarrow> slot_done (A ! i) \<Longrightarrow> list_all (\<lambda>op. \<not> is_read op) ops \<Longrightarrow>
     snd (run_spec can_spec ops A) ! i = A ! i"
proof (induction ops arbitrary: A)
  case (Cons op ops)
  have "snd (can_spec op A) ! i = A ! i"
    using Cons.prems done_kept_push [of i A] done_kept(2) [OF Cons.prems(3)]
    by (cases op) (auto simp: case_prod_beta Let_def pool_wf_def)
  then show ?case using Cons.IH [OF wf_step [OF Cons.prems(1)], of op] Cons.prems by (simp add: case_prod_beta Let_def)
qed simp

text \<open>
  C18: a finished packet waits for its reader: no push and no timeout changes it, so reading its
  tree yields the same bytes whenever it is done.
\<close>

theorem can_finished_kept:
  assumes "list_all can_op_ok (ops @ ops')" "list_all (\<lambda>op. \<not> is_read op) ops'"
    "run_steps can_step ops pool_init = Some (outs, p)" "run_steps can_step ops' p = Some (outs', p')"
    "i < size_trees" "tr_head (p_trees p ! i) \<noteq> max_idx" "tr_dlc (p_trees p ! i) \<noteq> 0"
    "sz \<le> length dest" "length dest < mem_max"
  shows "\<exists>cnt dest' q q'. read_tree i dest sz p = Some (cnt, dest', q) \<and> read_tree i dest sz p' = Some (cnt, dest', q')"
proof -
  let ?A = "snd (run_spec can_spec ops no_slots)"
  have A: "pool_rep p ?A" "pool_wf ?A" using run_from_init [of ops] assms(1,3) by auto
  obtain s where s: "?A ! i = Some s" "sl_dlc s \<noteq> 0"
    using rep_None [OF A(1) assms(5)] rep_Some [OF A(1) assms(5)] assms(6,7) by (cases "?A ! i") auto
  have A': "pool_rep p' (snd (run_spec can_spec ops' ?A))"
    using can_pool.run_sim [OF _ A(1), of ops'] assms(1,4) by auto
  have "snd (run_spec can_spec ops' ?A) ! i = Some s"
    using done_kept_run [OF A(2) assms(5) _ assms(2)] s by (simp add: slot_done_def)
  then show ?thesis
    using rep_read_tree [OF A(1) assms(5) s(1) assms(8,9)] rep_read_tree [OF A' assms(5) _ assms(8,9)] by blast
qed

lemma can_finished_kept_witness:
  "\<exists>outs p outs' p' cnt dest' q q'.
    run_steps can_step [OpPush 7 (replicate 8 1) 3] pool_init = Some (outs, p) \<and>
    run_steps can_step [OpTimeout] p = Some (outs', p') \<and>
    read_tree 0 (replicate 8 0) 8 p = Some (cnt, dest', q) \<and> read_tree 0 (replicate 8 0) 8 p' = Some (cnt, dest', q')"
proof -
  let ?ops = "[OpPush 7 (replicate 8 1) 3]"
  have ok: "list_all can_op_ok (?ops @ [OpTimeout])" by simp
  obtain p where p: "run_steps can_step ?ops pool_init = Some (fst (run_spec can_spec ?ops no_slots), p)"
    "pool_rep p (snd (run_spec can_spec ?ops no_slots))"
    using run_from_init [of ?ops] by auto
  have A: "snd (run_spec can_spec ?ops no_slots) ! 0
      = Some \<lparr> sl_extid = 7, sl_frames = [replicate 8 1], sl_dlc = 3, sl_to = can_timeout \<rparr>"
    by code_simp
  obtain outs' p' where p': "run_steps can_step [OpTimeout] p = Some (outs', p')"
    using can_pool.run_sim [OF _ p(2), of "[OpTimeout]"] by auto
  have "tr_head (p_trees p ! 0) \<noteq> max_idx" "tr_dlc (p_trees p ! 0) \<noteq> 0"
    using rep_Some [OF p(2) _ A] by (simp_all add: size_trees_def)
  then have "\<exists>cnt dest' q q'. read_tree 0 (replicate 8 0) 8 p = Some (cnt, dest', q) \<and>
      read_tree 0 (replicate 8 0) 8 p' = Some (cnt, dest', q')"
    by (intro can_finished_kept [OF ok _ p(1) p']) (simp_all add: size_trees_def)
  then show ?thesis using p(1) p' by blast
qed

subsection \<open>Ageing\<close>

definition not_aged :: "slot option \<Rightarrow> slot option \<Rightarrow> bool" where
  "not_aged x y = (case y of None \<Rightarrow> True | Some t \<Rightarrow> sl_to t = can_timeout \<or> y = x)"

lemma not_aged_simps [simp]: "not_aged x x" "not_aged x (slot_remove e x)" "not_aged x None"
  by (auto simp: not_aged_def slot_remove_def split: option.splits)

lemma not_aged_update:
  "i < length B \<Longrightarrow> not_aged x (B ! i) \<Longrightarrow> sl_to t = can_timeout \<Longrightarrow> not_aged x (B[j := Some t] ! i)"
  by (cases "i = j") (auto simp: not_aged_def)

lemma push_not_aged:
  assumes "fst (a_push e d dlc A) \<in> {MsgAccepted, PacketAvailable, MsgDropped}" "i < length A"
  shows "not_aged (A ! i) (snd (a_push e d dlc A) ! i)"
proof -
  have new: "not_aged (A ! i) (snd (a_push_new e d dlc' A) ! i)" if "fst (a_push_new e d dlc' A) \<noteq> ErrorTreeOverflow" for dlc'
    using that assms(2) by (auto simp: a_push_new_def Let_def not_aged_update split: option.splits)
  have nxt: "not_aged (A ! i) (snd (a_push_next e d dlc' A) ! i)" if "fst (a_push_next e d dlc' A) \<noteq> ErrorOrphan" for dlc'
    using that assms(2)
    by (auto simp: a_push_next_def Let_def not_aged_update split: option.splits if_splits)
  show ?thesis using assms new nxt
    by (auto simp: a_push_def split: if_splits)
qed

text \<open>
  Messages that are accepted age no tree: the counter of a tree in use is what it was or is
  set anew.  Old orphans go only when messages fail.
\<close>

theorem can_valid_no_ageing:
  assumes "list_all can_op_ok ops" "run_steps can_step ops pool_init = Some (outs, p)" "length d = 8"
    "pool_push e d dlc p = Some (rv, p')" "rv \<in> {MsgAccepted, PacketAvailable, MsgDropped}" "i < size_trees"
  shows "tr_head (p_trees p' ! i) = max_idx \<or> tr_to (p_trees p' ! i) = can_timeout \<or>
    tr_to (p_trees p' ! i) = tr_to (p_trees p ! i)"
proof -
  let ?A = "snd (run_spec can_spec ops no_slots)"
  let ?A' = "snd (a_push e d dlc ?A)"
  have A: "pool_rep p ?A" using run_from_init [of ops] assms(1,2) by auto
  have A': "pool_rep p' ?A'" "rv = fst (a_push e d dlc ?A)" using rep_push [OF A assms(3), of e dlc] assms(4) by auto
  have "not_aged (?A ! i) (?A' ! i)" using push_not_aged assms(5,6) A'(2) rep_length [OF A] by simp
  then consider "?A' ! i = None" | t where "?A' ! i = Some t" "sl_to t = can_timeout" | t where "?A' ! i = Some t" "?A ! i = Some t"
    by (cases "?A' ! i") (auto simp: not_aged_def)
  then show ?thesis
    using rep_None [OF A'(1) assms(6)] rep_Some(4) [OF A'(1) assms(6)] rep_Some(4) [OF A assms(6)] by cases auto
qed

lemma can_valid_no_ageing_witness:
  "\<exists>p'. pool_push 7 (replicate 8 0) 1 pool_init = Some (PacketAvailable, p') \<and>
    (tr_head (p_trees p' ! 0) = max_idx \<or> tr_to (p_trees p' ! 0) = can_timeout \<or>
     tr_to (p_trees p' ! 0) = tr_to (p_trees pool_init ! 0))"
proof -
  have "fst (a_push 7 (replicate 8 0) 1 no_slots) = PacketAvailable" by code_simp
  then obtain p' where "pool_push 7 (replicate 8 0) 1 pool_init = Some (PacketAvailable, p')"
    using rep_push [OF rep_init, of "replicate 8 0" 7 1] by auto
  then show ?thesis using can_valid_no_ageing [of "[]" "[]" pool_init "replicate 8 0" 7 1 PacketAvailable p' 0]
    by (simp add: size_trees_def)
qed

end
