(* ===== verification/Can_Transport.thy ===== *)
theory Can_Transport
  imports Can_Codec Can_Guarantees
begin

text \<open>
  The CAN transport end to end: what \<open>send_packet\<close> puts on the bus, how the pool of a receiver
  collects it, and what \<open>read_packet\<close> hands to its user.
\<close>

unbundle bit_operations_syntax

subsection \<open>The frames of a packet\<close>

text \<open>A stream is cut into frames of eight bytes; the last one has the rest.\<close>

function chunks :: "u8 \<Rightarrow> bytes \<Rightarrow> (u8 \<times> bytes) list" where
  "chunks frm st =
     (if 8 < length st then (frm, take 8 st) # chunks (frame_next frm) (drop 8 st)
      else if st = [] then [] else [(frm_end, st)])"
  by pat_completeness auto
termination
  by (relation "measure (\<lambda>(frm, st). length st)") auto

declare chunks.simps [simp del]

lemma chunks_long: "8 < length st \<Longrightarrow> chunks frm st = (frm, take 8 st) # chunks (frame_next frm) (drop 8 st)"
  by (subst chunks.simps) simp

lemma chunks_last: "length st \<le> 8 \<Longrightarrow> st \<noteq> [] \<Longrightarrow> chunks frm st = [(frm_end, st)]"
  by (subst chunks.simps) simp

text \<open>A message carries a frame of the packet with identifier \<open>e\<close>.\<close>

definition carries :: "extid_s \<Rightarrow> u8 \<times> bytes \<Rightarrow> xcan_msg \<Rightarrow> bool" where
  "carries e fc m \<longleftrightarrow> m_id m = extid_set_frm (fst fc) e \<and> m_ext m \<and> m_dlc m = of_nat (length (snd fc)) \<and>
     length (m_data m) = 8 \<and> take (length (snd fc)) (m_data m) = snd fc"

subsection \<open>Sending produces the frames\<close>

text \<open>A bus on which every message is sent, in order.\<close>

definition logs :: "xcan_msg list codec_virt \<Rightarrow> bool" where
  "logs v \<longleftrightarrow> v_send_message v = (\<lambda>m e. (True, e @ [m]))"

definition crc_bytes :: "u16 \<Rightarrow> bytes" where
  "crc_bytes w = [ucast w, ucast (drop_bit 8 w)]"

text \<open>The stream that is left: payload \<open>src\<close> and CRC, or the CRC's last byte.\<close>

definition left_over :: "u16 \<Rightarrow> bytes \<Rightarrow> nat \<Rightarrow> bytes \<Rightarrow> bool" where
  "left_over crc16 src cnt st \<longleftrightarrow>
     (2 \<le> cnt \<and> length src = cnt - 2 \<and> st = src @ crc_bytes crc16) \<or>
     (cnt = 1 \<and> st = [ucast (drop_bit 8 crc16)])"

lemma left_over_length: "left_over crc16 src cnt st \<Longrightarrow> length st = cnt"
  by (auto simp: left_over_def crc_bytes_def)

lemma take_put1:
  "length xs < length d \<Longrightarrow> take (Suc (length xs)) ((blit 0 xs d)[length xs := a]) = xs @ [a]"
  by (simp add: blit_def take_Suc_conv_app_nth)

lemma take_put2:
  "Suc (length xs) < length d \<Longrightarrow>
     take (Suc (Suc (length xs))) ((blit 0 xs d)[length xs := a, Suc (length xs) := b]) = xs @ [a, b]"
  by (simp add: blit_def take_Suc_conv_app_nth)

lemma left_over_cases:
  assumes "left_over crc16 src cnt st"
  obtains "2 \<le> cnt" "length src = cnt - 2" "st = src @ [ucast crc16, ucast (drop_bit 8 crc16)]"
  | "cnt = 1" "st = [ucast (drop_bit 8 crc16)]"
  using assms by (auto simp: left_over_def crc_bytes_def)

definition frame_written :: "nat \<Rightarrow> u16 \<Rightarrow> bytes \<Rightarrow> bytes \<Rightarrow> bytes \<Rightarrow> bool" where
  "frame_written cnt crc16 src d st \<longleftrightarrow>
     (\<exists>d'. frame_data cnt crc16 src d = Some d' \<and> length d' = 8 \<and> take (frame_dlc cnt) d' = take 8 st)"

lemma frame_written_body:
  assumes "10 \<le> cnt" "length src = cnt - 2" "length d = 8"
  shows "frame_written cnt crc16 src d (src @ zs)"
proof -
  have "frame_data cnt crc16 src d = Some (take 8 src)"
    using assms by (simp add: frame_data_def copy_data_def blit_def)
  then show ?thesis using assms by (simp add: frame_written_def frame_dlc_def)
qed

lemma frame_written_9:
  assumes "length src = 7" "length d = 8"
  shows "frame_written 9 crc16 src d (src @ [ucast crc16, b])"
proof -
  have "frame_data 9 crc16 src d = Some ((blit 0 src d)[7 := ucast crc16])"
    using assms by (simp add: frame_data_def copy_data_def)
  moreover have "take 8 ((blit 0 src d)[7 := ucast crc16]) = src @ [ucast crc16]"
    using take_put1 [of src d "ucast crc16"] assms by simp
  ultimately show ?thesis using assms by (simp add: frame_written_def frame_dlc_def)
qed

lemma frame_written_end:
  assumes "length src \<le> 6" "length d = 8" "src \<noteq> []"
  shows "frame_written (length src + 2) crc16 src d (src @ [ucast crc16, ucast (drop_bit 8 crc16)])"
proof -
  let ?d = "(blit 0 src d)[length src := ucast crc16, Suc (length src) := ucast (drop_bit 8 crc16)]"
  have "frame_data (length src + 2) crc16 src d = Some ?d"
    using assms by (simp add: frame_data_def copy_data_def Let_def)
  moreover have "take (length src + 2) ?d = src @ [ucast crc16, ucast (drop_bit 8 crc16)]"
    using take_put2 [of src d "ucast crc16" "ucast (drop_bit 8 crc16)"] assms by simp
  moreover have "length ?d = 8" using assms by simp
  moreover have "frame_dlc (length src + 2) = length src + 2" using assms by (simp add: frame_dlc_def)
  moreover have "take 8 (src @ [ucast crc16, ucast (drop_bit 8 crc16)]) = src @ [ucast crc16, ucast (drop_bit 8 crc16)]"
    using assms by (intro take_all) simp
  ultimately show ?thesis unfolding frame_written_def by metis
qed

lemma frame_written_crc:
  assumes "length d = 8"
  shows "frame_written 2 crc16 src d [ucast crc16, ucast (drop_bit 8 crc16)]"
    "frame_written 1 crc16 src d [ucast (drop_bit 8 crc16)]"
proof -
  obtain a b ds where d: "d = a # b # ds" using assms by (cases d rule: remdups_adj.cases) auto
  show "frame_written 2 crc16 src d [ucast crc16, ucast (drop_bit 8 crc16)]"
    "frame_written 1 crc16 src d [ucast (drop_bit 8 crc16)]"
    using assms by (simp_all add: d frame_written_def frame_data_def frame_dlc_def)
qed

lemma frame_data_spec:
  assumes "left_over crc16 src cnt st" "length d = 8"
  shows "frame_written cnt crc16 src d st"
  using assms(1)
proof (cases rule: left_over_cases)
  case 1
  then have cnt: "cnt = length src + 2" by arith
  consider (body) "8 \<le> length src" | (nine) "length src = 7" | (fin) "length src \<le> 6" "src \<noteq> []" | (crc) "src = []"
    by fastforce
  then show ?thesis
  proof cases
    case body
    then show ?thesis using frame_written_body [OF _ 1(2) assms(2)] cnt 1(3) by simp
  next
    case nine
    then show ?thesis using frame_written_9 [OF nine assms(2)] cnt 1(3) by simp
  next
    case fin
    show ?thesis using frame_written_end [OF fin(1) assms(2) fin(2)] unfolding cnt 1(3) .
  next
    case crc
    then have "cnt = 2" using cnt by simp
    then show ?thesis using frame_written_crc(1) [OF assms(2)] crc 1(3) by (simp only: append.simps)
  qed
next
  case 2
  show ?thesis using frame_written_crc(2) [OF assms(2)] unfolding 2 .
qed

lemma left_over_next:
  assumes "left_over crc16 src cnt st" "8 < cnt"
  shows "left_over crc16 (drop 8 src) (cnt - 8) (drop 8 st)"
proof (cases "cnt = 9")
  case True
  then show ?thesis using assms by (auto simp: left_over_def crc_bytes_def)
next
  case False
  then show ?thesis using assms by (auto simp: left_over_def)
qed

lemma send_loop_frames:
  assumes "logs v"
  shows "left_over crc16 src cnt st \<Longrightarrow> length (m_data (c_txmsg c)) = 8 \<Longrightarrow> m_ext (c_txmsg c) \<Longrightarrow>
     \<exists>c' ms. send_loop v crc16 cnt frm e src c env = Some (True, c', env @ ms) \<and>
       list_all2 (carries e) (chunks frm st) ms"
proof (induction cnt arbitrary: frm e src st c env rule: less_induct)
  case (less cnt)
  obtain d where d: "frame_data cnt crc16 src (m_data (c_txmsg c)) = Some d" "length d = 8"
    "take (frame_dlc cnt) d = take 8 st"
    using frame_data_spec [OF less.prems(1,2)] unfolding frame_written_def by blast
  have len: "length st = cnt" "st \<noteq> []" using left_over_length [OF less.prems(1)] less.prems(1)
    by (auto simp: left_over_def crc_bytes_def)
  then have cnt: "cnt \<noteq> 0" by auto
  show ?case
  proof (cases "8 < cnt")
    case True
    let ?m = "(c_txmsg c)\<lparr> m_data := d, m_id := extid_set_frm frm e, m_dlc := 8 \<rparr>"
    let ?c = "c\<lparr> c_txmsg := ?m \<rparr>"
    obtain c' ms where ms: "send_loop v crc16 (cnt - 8) (frame_next frm) (extid_set_frm frm e) (drop 8 src) ?c (env @ [?m])
        = Some (True, c', (env @ [?m]) @ ms)"
      "list_all2 (carries (extid_set_frm frm e)) (chunks (frame_next frm) (drop 8 st)) ms"
      using less.IH [of "cnt - 8" "drop 8 src" "drop 8 st" ?c] True left_over_next [OF less.prems(1) True]
        less.prems(3) d(2) by fastforce
    have "send_loop v crc16 cnt frm e src c env
        = send_loop v crc16 (cnt - 8) (frame_next frm) (extid_set_frm frm e) (drop 8 src) ?c (env @ [?m])"
      using True assms d(1) by (subst send_loop.simps) (simp add: send_txmsg_def logs_def frame_dlc_def Let_def)
    moreover have "carries e (frm, take 8 st) ?m"
      using True d len less.prems(3) by (simp add: carries_def frame_dlc_def)
    moreover have "carries (extid_set_frm frm e) = carries e"
      by (rule ext)+ (simp add: carries_def)
    ultimately show ?thesis using ms True len by (simp add: chunks_long)
  next
    case False
    let ?m = "(c_txmsg c)\<lparr> m_data := d, m_id := extid_set_frm frm_end e, m_dlc := of_nat cnt \<rparr>"
    have "send_loop v crc16 cnt frm e src c env = Some (True, c\<lparr> c_txmsg := ?m \<rparr>, env @ [?m])"
      using False cnt assms d(1) by (simp add: send_loop.simps [of v crc16 cnt] send_loop.simps [of v crc16 0] send_txmsg_def logs_def
          frame_dlc_def Let_def)
    moreover have "carries e (frm_end, st) ?m"
      using False d len less.prems(3) by (simp add: carries_def frame_dlc_def)
    ultimately show ?thesis using False len by (simp add: chunks_last)
  qed
qed

subsection \<open>The pool collects the frames\<close>

definition push_op :: "xcan_msg \<Rightarrow> can_op" where
  "push_op m = OpPush (m_id m) (m_data m) (m_dlc m)"

text \<open>Slot \<open>i\<close> collects packet \<open>e\<close>, has \<open>fs\<close> and waits for frame \<open>k\<close>; no other slot has it or is finished.\<close>

definition collecting :: "extid_s \<Rightarrow> nat \<Rightarrow> bytes list \<Rightarrow> u8 \<Rightarrow> apool \<Rightarrow> bool" where
  "collecting e i fs k A \<longleftrightarrow> i < length A \<and>
     (\<exists>n. A ! i = Some \<lparr> sl_extid = extid_set_frm k e, sl_frames = fs, sl_dlc = 0, sl_to = n \<rparr>) \<and>
     (\<forall>j<length A. j \<noteq> i \<longrightarrow> \<not> open_for e (A ! j) \<and> \<not> slot_done (A ! j))"

definition collected :: "extid_s \<Rightarrow> nat \<Rightarrow> bytes list \<Rightarrow> u8 \<Rightarrow> apool \<Rightarrow> bool" where
  "collected e i fs dlc A \<longleftrightarrow> i < length A \<and>
     (\<exists>k n. A ! i = Some \<lparr> sl_extid = extid_set_frm k e, sl_frames = fs, sl_dlc = dlc, sl_to = n \<rparr>) \<and>
     (\<forall>j<length A. j \<noteq> i \<longrightarrow> \<not> slot_done (A ! j))"

lemma first_slotI: "i < length A \<Longrightarrow> P (A ! i) \<Longrightarrow> (\<And>j. j < length A \<Longrightarrow> j \<noteq> i \<Longrightarrow> \<not> P (A ! j)) \<Longrightarrow> first_slot P A = Some i"
  by (auto simp: first_slot_def find_Some_iff intro!: exI [of _ i])

lemma a_used_update: "i < length A \<Longrightarrow> a_used (A[i := x]) + slot_frames (A ! i) = a_used A + slot_frames x"
  unfolding a_used_def
proof (induction A arbitrary: i)
  case (Cons y A)
  then show ?case by (cases i) simp_all
qed simp

lemma a_space_add: "i < length A \<Longrightarrow> slot_frames x \<le> Suc (slot_frames (A ! i)) \<Longrightarrow> n < a_space A \<Longrightarrow> n \<le> a_space (A[i := x])"
  using a_used_update [of i A x] by (simp add: a_space_def)

lemma frm_mask [simp]: "unat (v :: u8) < 8 \<Longrightarrow> v AND mask 3 = v"
  by (simp add: word_unat_eq_iff unsigned_take_bit_eq take_bit_nat_eq_self flip: take_bit_eq_mask)

lemma collecting_push:
  assumes "collecting e i fs k A" "k \<le> frm_seq_max" "a_space A \<noteq> 0"
  shows "fst (a_push (extid_set_frm k e) d 8 A) = MsgAccepted"
    "collecting e i (fs @ [d]) (next_frm k) (snd (a_push (extid_set_frm k e) d 8 A))"
    "n < a_space A \<Longrightarrow> n \<le> a_space (snd (a_push (extid_set_frm k e) d 8 A))"
proof -
  obtain to where i: "i < length A" "A ! i = Some \<lparr> sl_extid = extid_set_frm k e, sl_frames = fs, sl_dlc = 0, sl_to = to \<rparr>"
    and other: "\<And>j. j < length A \<Longrightarrow> j \<noteq> i \<Longrightarrow> \<not> open_for e (A ! j) \<and> \<not> slot_done (A ! j)"
    using assms(1) by (auto simp: collecting_def)
  let ?id = "extid_set_frm k e"
  have same: "open_for ?id = open_for e"
    by (rule ext) (simp add: open_for_def split: option.splits)
  have first: "first_slot (open_for ?id) A = Some i"
    unfolding same using other i by (intro first_slotI) (auto simp: open_for_def)
  have k: "extid_frm ?id = k" "k \<noteq> frm_end" "k \<noteq> frm_start" "k \<noteq> frm_single"
    using assms(2) by (auto simp: frm_seq_max_def frm_end_def frm_start_def frm_single_def word_le_nat_alt)
  let ?A = "A[i := Some \<lparr> sl_extid = extid_set_frm (next_frm k) e, sl_frames = fs @ [d], sl_dlc = 0, sl_to = can_timeout \<rparr>]"
  have push: "a_push ?id d 8 A = (MsgAccepted, ?A)"
    using assms(3) k first i by (simp add: a_push_def a_push_next_def Let_def)
  show "fst (a_push ?id d 8 A) = MsgAccepted" by (simp add: push)
  show "collecting e i (fs @ [d]) (next_frm k) (snd (a_push ?id d 8 A))"
    using i other by (simp add: push collecting_def)
  show "n < a_space A \<Longrightarrow> n \<le> a_space (snd (a_push ?id d 8 A))"
    using a_space_add i by (simp add: push slot_frames_def)
qed

lemma collecting_end:
  assumes "collecting e i fs k A" "dlc \<noteq> 0" "a_space A \<noteq> 0"
  shows "fst (a_push (extid_set_frm frm_end e) d dlc A) = PacketAvailable"
    "collected e i (fs @ [d]) dlc (snd (a_push (extid_set_frm frm_end e) d dlc A))"
proof -
  obtain to where i: "i < length A" "A ! i = Some \<lparr> sl_extid = extid_set_frm k e, sl_frames = fs, sl_dlc = 0, sl_to = to \<rparr>"
    and other: "\<And>j. j < length A \<Longrightarrow> j \<noteq> i \<Longrightarrow> \<not> open_for e (A ! j) \<and> \<not> slot_done (A ! j)"
    using assms(1) by (auto simp: collecting_def)
  let ?id = "extid_set_frm frm_end e"
  have same: "open_for ?id = open_for e"
    by (rule ext) (simp add: open_for_def split: option.splits)
  have first: "first_slot (open_for ?id) A = Some i"
    unfolding same using other i by (intro first_slotI) (auto simp: open_for_def)
  have frm: "extid_frm ?id = frm_end" by (simp add: frm_end_def)
  let ?A = "A[i := Some \<lparr> sl_extid = extid_set_frm k e, sl_frames = fs @ [d], sl_dlc = dlc, sl_to = can_timeout \<rparr>]"
  have push: "a_push ?id d dlc A = (PacketAvailable, ?A)"
    using assms(2,3) frm first i by (simp add: a_push_def a_push_next_def Let_def)
  show "fst (a_push ?id d dlc A) = PacketAvailable" by (simp add: push)
  show "collected e i (fs @ [d]) dlc (snd (a_push ?id d dlc A))"
    using i other by (auto simp: push collected_def)
qed

text \<open>The start frame opens the slot; older unfinished frames of the packet are dropped.\<close>

lemma collecting_start:
  assumes "first_slot (\<lambda>x. x = None) (a_remove e A) = Some i" "\<not> list_ex slot_done A" "a_space A \<noteq> 0"
  shows "fst (a_push (extid_set_frm frm_start e) d 8 A) = MsgAccepted"
    "collecting e i [d] 0 (snd (a_push (extid_set_frm frm_start e) d 8 A))"
    "n < a_space A \<Longrightarrow> n \<le> a_space (snd (a_push (extid_set_frm frm_start e) d 8 A))"
proof -
  let ?id = "extid_set_frm frm_start e" and ?B = "a_remove e A"
  have same: "open_for ?id = open_for e"
    by (rule ext) (simp add: open_for_def split: option.splits)
  then have rem: "a_remove ?id A = ?B" by (simp add: a_remove_def slot_remove_def)
  have i: "i < length A" "?B ! i = None" using first_slot_Some [OF assms(1)] by auto
  have frm: "extid_frm ?id = frm_start" "frm_start \<noteq> frm_end" by (simp_all add: frm_start_def frm_end_def)
  let ?A = "?B[i := Some \<lparr> sl_extid = extid_set_frm 0 e, sl_frames = [d], sl_dlc = 0, sl_to = can_timeout \<rparr>]"
  have push: "a_push ?id d 8 A = (MsgAccepted, ?A)"
    using assms(1,3) frm rem by (simp add: a_push_def a_push_new_def Let_def)
  have other: "\<not> open_for e (?B ! j) \<and> \<not> slot_done (?B ! j)" if "j < length A" for j
    using that assms(2) by (simp add: open_for_remove done_ops list_ex_length)
  show "fst (a_push ?id d 8 A) = MsgAccepted" by (simp add: push)
  show "collecting e i [d] 0 (snd (a_push ?id d 8 A))"
    using i other by (simp add: push collecting_def)
  show "n < a_space A \<Longrightarrow> n \<le> a_space (snd (a_push ?id d 8 A))"
    using a_space_add [of i ?B _ n] i a_used_remove [of e A] by (simp add: push slot_frames_def) (simp add: a_space_def)
qed

lemma frame_next_seq: "k \<le> frm_seq_max \<Longrightarrow> frame_next k = next_frm k \<and> next_frm k \<le> frm_seq_max"
proof -
  assume k: "k \<le> frm_seq_max"
  then have "unat k \<le> 4" by (simp add: frm_seq_max_def word_le_nat_alt)
  then have "unat (k + 1) = unat k + 1" by (simp add: unat_word_ariths)
  then show ?thesis
    using k by (auto simp: frame_next_def next_frm_def frm_start_def frm_seq_max_def word_le_nat_alt word_less_nat_alt)
qed

lemma chunks_ne: "st \<noteq> [] \<Longrightarrow> chunks k st \<noteq> []"
  by (subst chunks.simps) simp

lemma replicate_ne: "xs \<noteq> [] \<Longrightarrow> replicate (length xs) x = x # replicate (length xs - 1) x"
  by (cases xs) simp_all

lemma collect_rest:
  "list_all2 (carries e) (chunks k st) ms \<Longrightarrow> st \<noteq> [] \<Longrightarrow> k \<le> frm_seq_max \<Longrightarrow> length ms \<le> a_space A \<Longrightarrow>
     collecting e i fs k A \<Longrightarrow>
     fst (run_spec can_spec (map push_op ms) A)
       = replicate (length ms - 1) (OutError MsgAccepted) @ [OutError PacketAvailable] \<and>
     collected e i (fs @ map m_data ms) (m_dlc (last ms)) (snd (run_spec can_spec (map push_op ms) A))"
proof (induction k st arbitrary: ms A fs rule: chunks.induct)
  case (1 k st)
  show ?case
  proof (cases "8 < length st")
    case True
    then obtain m ms' where ms: "ms = m # ms'" and m: "carries e (k, take 8 st) m"
      and ms': "list_all2 (carries e) (chunks (frame_next k) (drop 8 st)) ms'"
      using 1(2) by (auto simp: chunks_long list_all2_Cons1)
    have m': "m_id m = extid_set_frm k e" "m_dlc m = 8" using m True by (simp_all add: carries_def)
    have ne: "drop 8 st \<noteq> []" using True by simp
    then have ms'_ne: "ms' \<noteq> []" using ms' chunks_ne by fastforce
    have space: "a_space A \<noteq> 0" "length ms' < a_space A" using 1(5) ms by auto
    let ?p = "a_push (extid_set_frm k e) (m_data m) 8 A"
    note c = collecting_push [OF 1(6,4) space(1), where d = "m_data m"]
    have "fst (run_spec can_spec (map push_op ms') (snd ?p))
       = replicate (length ms' - 1) (OutError MsgAccepted) @ [OutError PacketAvailable] \<and>
     collected e i ((fs @ [m_data m]) @ map m_data ms') (m_dlc (last ms')) (snd (run_spec can_spec (map push_op ms') (snd ?p)))"
      using frame_next_seq [OF 1(4)] c(2) by (intro 1(1) [OF True ms' ne]) (simp_all add: c(3) [OF space(2)])
    then show ?thesis
      using c(1) ms'_ne replicate_ne [OF ms'_ne, of "OutError MsgAccepted"]
      by (simp add: ms push_op_def [of m] m' case_prod_beta Let_def)
  next
    case False
    then obtain m where ms: "ms = [m]" and m: "carries e (frm_end, st) m"
      using 1(2,3) by (auto simp: chunks_last list_all2_Cons1)
    have len: "0 < length st" "length st \<le> 8" using False 1(3) by auto
    have m': "m_id m = extid_set_frm frm_end e" "m_dlc m = of_nat (length st)" using m by (simp_all add: carries_def)
    have "unat (m_dlc m) = length st" using len by (simp add: m' unat_of_nat)
    then have "m_dlc m \<noteq> 0" using len by auto
    then show ?thesis
      using collecting_end [OF 1(6), of "m_dlc m" "m_data m"] 1(5)
      by (simp add: ms push_op_def [of m] m' case_prod_beta Let_def)
  qed
qed

text \<open>So the messages of a packet that has more than one frame are collected in one slot.\<close>

lemma collect_packet:
  assumes "list_all2 (carries e) (chunks frm_start st) ms" "8 < length st"
    "first_slot (\<lambda>x. x = None) (a_remove e A) = Some i" "\<not> list_ex slot_done A" "length ms \<le> a_space A"
  shows "fst (run_spec can_spec (map push_op ms) A)
       = replicate (length ms - 1) (OutError MsgAccepted) @ [OutError PacketAvailable] \<and>
     collected e i (map m_data ms) (m_dlc (last ms)) (snd (run_spec can_spec (map push_op ms) A))"
proof -
  obtain m ms' where ms: "ms = m # ms'" and m: "carries e (frm_start, take 8 st) m"
    and ms': "list_all2 (carries e) (chunks (frame_next frm_start) (drop 8 st)) ms'"
    using assms(1,2) by (auto simp: chunks_long list_all2_Cons1)
  have m': "m_id m = extid_set_frm frm_start e" "m_dlc m = 8" using m assms(2) by (simp_all add: carries_def)
  have ne: "drop 8 st \<noteq> []" using assms(2) by simp
  then have ms'_ne: "ms' \<noteq> []" using ms' chunks_ne by fastforce
  have start: "frame_next frm_start = 0" "0 \<le> frm_seq_max" by (simp_all add: frame_next_def)
  have space: "a_space A \<noteq> 0" "length ms' < a_space A" using assms(5) ms by auto
  let ?p = "a_push (extid_set_frm frm_start e) (m_data m) 8 A"
  note c = collecting_start [OF assms(3,4) space(1), where d = "m_data m"]
  have "fst (run_spec can_spec (map push_op ms') (snd ?p))
     = replicate (length ms' - 1) (OutError MsgAccepted) @ [OutError PacketAvailable] \<and>
   collected e i ([m_data m] @ map m_data ms') (m_dlc (last ms')) (snd (run_spec can_spec (map push_op ms') (snd ?p)))"
    using collect_rest [of e 0 "drop 8 st" ms' "snd ?p" i "[m_data m]"] ms' ne start c(2) c(3) [OF space(2)] by simp
  then show ?thesis
    using c(1) ms'_ne replicate_ne [OF ms'_ne, of "OutError MsgAccepted"]
      by (simp add: ms push_op_def [of m] m' case_prod_beta Let_def)
qed

lemma frames_read_chunks:
  "list_all2 (carries e) (chunks k st) ms \<Longrightarrow> st \<noteq> [] \<Longrightarrow> length acc + length st \<le> sz \<Longrightarrow>
     frames_read sz (m_dlc (last ms)) (map m_data ms) acc = acc @ st \<and> m_dlc (last ms) \<noteq> 0"
proof (induction k st arbitrary: ms acc rule: chunks.induct)
  case (1 k st)
  show ?case
  proof (cases "8 < length st")
    case True
    then obtain m ms' where ms: "ms = m # ms'" and m: "carries e (k, take 8 st) m"
      and ms': "list_all2 (carries e) (chunks (frame_next k) (drop 8 st)) ms'"
      using 1(2) by (auto simp: chunks_long list_all2_Cons1)
    have ne: "drop 8 st \<noteq> []" using True by simp
    then have ms'_ne: "ms' \<noteq> []" using ms' chunks_ne by fastforce
    have d: "m_data m = take 8 st" using m True take_all [of "m_data m" 8] by (simp add: carries_def)
    show ?thesis
      using 1(1) [OF True ms' ne, of "acc @ take 8 st"] 1(4) ms'_ne True by (cases ms') (simp_all add: ms d)
  next
    case False
    then obtain m where ms: "ms = [m]" and m: "carries e (frm_end, st) m"
      using 1(2,3) by (auto simp: chunks_last list_all2_Cons1)
    then have d: "m_dlc m = of_nat (length st)" "take (length st) (m_data m) = st" by (simp_all add: carries_def)
    have u: "unat (m_dlc m) = length st" using False by (simp add: d unat_of_nat)
    then have "m_dlc m \<le> 8" using False by (simp add: word_le_nat_alt)
    moreover have "m_dlc m \<noteq> 0" using u 1(3) by auto
    ultimately show ?thesis using 1(4) u d(2) by (simp add: ms)
  qed
qed

end
