(* ===== verification/Can_Link.thy ===== *)
theory Can_Link
  imports Can_Transport
begin

text \<open>
  The CAN transport from codec to codec: a packet sent by one and pushed into another is read
  there unchanged, and no packet of several frames is handed out unless its checksum is right.
\<close>

unbundle bit_operations_syntax

subsection \<open>What a packet becomes on the bus\<close>

definition pid_of :: "bytes \<Rightarrow> u16" where
  "pid_of data = of_le (take 2 data)"

definition packet_crc :: "bytes \<Rightarrow> u16" where
  "packet_crc data = ucast (crc32 data crc32_init)"

definition packet_msgs :: "extid_s \<Rightarrow> bytes \<Rightarrow> xcan_msg list \<Rightarrow> bool" where
  "packet_msgs e data ms \<longleftrightarrow>
     (if length data \<le> 10 then \<exists>m. ms = [m] \<and> carries e (frm_single, drop 2 data) m
      else list_all2 (carries e) (chunks frm_start (drop 2 data @ crc_bytes (packet_crc data))) ms)"

lemma pid_of_bytes: "2 \<le> length data \<Longrightarrow> le_bytes 2 (pid_of data) @ drop 2 data = data"
  using le_bytes_of_le [of "take 2 data", where 'a = 16] append_take_drop_id [of 2 data] by (simp add: pid_of_def)

lemma read_pid:
  assumes "2 \<le> length data" "length data < mem_max"
  shows "read_u16 (reader_make data (length data)) = Some (pid_of data, \<lparr> r_buf = data, r_size = length data, r_pos = 2 \<rparr>)"
  using read_le_rest [OF reader_ok_make [of "length data" data], of 2, where 'a = 16] assms
  by (simp add: read_u16_def pid_of_def) (simp add: reader_make_def)

lemma send_packet_msgs:
  assumes "logs v" "2 \<le> length data" "length data < mem_max" "length (m_data (c_txmsg c)) = 8"
  shows "\<exists>c' ms. send_packet v far data c env = Some (True, c', env @ ms) \<and>
    packet_msgs (extid_set_pid (pid_of data) (c_defaults c)) data ms"
proof -
  let ?e = "extid_set_pid (pid_of data) (c_defaults c)" and ?src = "drop 2 data"
  let ?c = "c\<lparr> c_txmsg := (c_txmsg c)\<lparr> m_ext := True \<rparr> \<rparr>"
  have avail: "r_available \<lparr> r_buf = data, r_size = length data, r_pos = 2 \<rparr> = length data - 2"
    using assms(2,3) by (simp add: r_available_def)
  note r = read_pid [OF assms(2,3)] avail
  show ?thesis
  proof (cases "length data \<le> 10")
    case True
    then have le: "length data - 2 \<le> 8" by simp
    let ?d = "if length data - 2 > 0 then blit 0 (take (length data - 2) ?src) (m_data (c_txmsg c)) else m_data (c_txmsg c)"
    let ?m = "(c_txmsg ?c)\<lparr> m_id := extid_set_frm frm_single ?e, m_dlc := of_nat (length data - 2), m_data := ?d \<rparr>"
    have "send_packet v far data c env = Some (True, ?c\<lparr> c_txmsg := ?m \<rparr>, env @ [?m])"
      using assms le unfolding send_packet_def
      by (simp add: r copy_data_def send_txmsg_def logs_def Let_def del: diff_is_0_eq')
    moreover have "carries ?e (frm_single, ?src) ?m"
      using assms(2,4) True by (simp add: carries_def blit_def)
    ultimately show ?thesis using True by (auto simp: packet_msgs_def)
  next
    case False
    have gt: "\<not> length data - 2 \<le> 8" using False by arith
    have left: "left_over (packet_crc data) ?src (length data - 2 + 2) (?src @ crc_bytes (packet_crc data))"
      by (simp add: left_over_def)
    obtain c' ms where ms: "send_loop v (packet_crc data) (length data - 2 + 2) frm_start ?e ?src ?c env = Some (True, c', env @ ms)"
      "list_all2 (carries ?e) (chunks frm_start (?src @ crc_bytes (packet_crc data))) ms"
      using send_loop_frames [OF assms(1) left, of ?c frm_start ?e env] assms(4) by auto
    have "send_packet v far data c env = send_loop v (packet_crc data) (length data - 2 + 2) frm_start ?e ?src ?c env"
      using assms False gt unfolding send_packet_def by (simp add: r packet_crc_def crc32_mem_take Let_def)
    then show ?thesis using ms False by (auto simp: packet_msgs_def)
  qed
qed

lemma seven_div: "0 < n \<Longrightarrow> n \<le> 8 \<Longrightarrow> (n + 7) div 8 = (1 :: nat)"
  by (rule div_nat_eqI) simp_all

lemma length_chunks: "length (chunks k st) = (length st + 7) div 8"
proof (induction k st rule: chunks.induct)
  case (1 k st)
  show ?case
  proof (cases "8 < length st")
    case True
    then have "length st + 7 = (length st - 8 + 7) + 8" by simp
    then have "(length st + 7) div 8 = Suc ((length st - 8 + 7) div 8)" by (metis div_add_self2 Suc_eq_plus1 zero_neq_numeral)
    then show ?thesis using 1 [OF True] True by (simp add: chunks_long)
  next
    case False
    then show ?thesis
    proof (cases "st = []")
      case True
      then show ?thesis by (simp add: chunks.simps [of k "[]"])
    next
      case ne: False
      then have "(length st + 7) div 8 = 1" using False by (intro seven_div) simp_all
      then show ?thesis using False ne by (simp add: chunks_last)
    qed
  qed
qed

lemma packet_msgs_length:
  assumes "packet_msgs e data ms" "2 \<le> length data"
  shows "length ms \<le> (length data + 7) div 8" "ms \<noteq> []"
  using assms list_all2_lengthD [of "carries e" "chunks frm_start (drop 2 data @ crc_bytes (packet_crc data))" ms]
    length_chunks [of frm_start "drop 2 data @ crc_bytes (packet_crc data)"]
    chunks_ne [of "drop 2 data @ crc_bytes (packet_crc data)" frm_start]
  by (auto simp: packet_msgs_def crc_bytes_def split: if_splits)

lemma list_all2_in_right: "list_all2 P xs ys \<Longrightarrow> y \<in> set ys \<Longrightarrow> \<exists>x. P x y"
  by (auto simp: list_all2_conv_all_nth in_set_conv_nth)

lemma packet_msgs_carry:
  assumes "packet_msgs e data ms" "m \<in> set ms"
  shows "length (m_data m) = 8" "extid_src (m_id m) = extid_src e"
proof -
  have "\<exists>fc. carries e fc m"
    using assms unfolding packet_msgs_def by (auto simp del: split_paired_Ex dest!: list_all2_in_right split: if_splits)
  then show "length (m_data m) = 8" "extid_src (m_id m) = extid_src e" by (auto simp: carries_def)
qed

subsection \<open>The receiver\<close>

fun push_messages :: "'e codec_virt \<Rightarrow> xcan_msg list \<Rightarrow> codec \<Rightarrow> 'e \<Rightarrow> (error_type list \<times> codec \<times> 'e) option" where
  "push_messages v [] c e = Some ([], c, e)"
| "push_messages v (m # ms) c e = do {
     (rv, c, e) \<leftarrow> push_message v m c e;
     (rvs, c, e) \<leftarrow> push_messages v ms c e;
     Some (rv # rvs, c, e)
   }"

text \<open>A receiver that filters no message out.\<close>

definition accepts :: "'e codec_virt \<Rightarrow> bool" where
  "accepts v \<longleftrightarrow> (\<forall>x e. fst (v_accept_filter v x e))"

lemma push_messages_pool:
  assumes "accepts v" "pool_rep (c_pool c) A"
    "\<And>m. m \<in> set ms \<Longrightarrow> length (m_data m) = 8 \<and> extid_src (m_id m) \<noteq> extid_src (c_defaults c)"
  shows "\<exists>rvs p' e'. push_messages v ms c e = Some (rvs, c\<lparr> c_pool := p' \<rparr>, e') \<and>
    map OutError rvs = fst (run_spec can_spec (map push_op ms) A) \<and>
    pool_rep p' (snd (run_spec can_spec (map push_op ms) A))"
  using assms(2,3)
proof (induction ms arbitrary: c A e)
  case Nil
  then show ?case by (intro exI [of _ "[]"] exI [of _ "c_pool c"] exI [of _ e]) simp
next
  case (Cons m ms)
  obtain p1 where p1: "pool_push (m_id m) (m_data m) (m_dlc m) (c_pool c)
      = Some (fst (a_push (m_id m) (m_data m) (m_dlc m) A), p1)"
    "pool_rep p1 (snd (a_push (m_id m) (m_data m) (m_dlc m) A))"
    using rep_push [OF Cons.prems(1), of "m_data m" "m_id m" "m_dlc m"] Cons.prems(2) [of m] by auto
  obtain e1 where "v_accept_filter v (m_id m) e = (True, e1)"
    using assms(1) by (metis accepts_def prod.collapse)
  then have push: "push_message v m c e = Some (fst (a_push (m_id m) (m_data m) (m_dlc m) A), c\<lparr> c_pool := p1 \<rparr>, e1)"
    using p1(1) Cons.prems(2) [of m] by (simp add: push_message_def Let_def)
  obtain rvs p' e' where "push_messages v ms (c\<lparr> c_pool := p1 \<rparr>) e1 = Some (rvs, c\<lparr> c_pool := p' \<rparr>, e')"
    "map OutError rvs = fst (run_spec can_spec (map push_op ms) (snd (a_push (m_id m) (m_data m) (m_dlc m) A)))"
    "pool_rep p' (snd (run_spec can_spec (map push_op ms) (snd (a_push (m_id m) (m_data m) (m_dlc m) A))))"
    using Cons.IH [of "c\<lparr> c_pool := p1 \<rparr>" "snd (a_push (m_id m) (m_data m) (m_dlc m) A)" e1] p1(2) Cons.prems(2)
    by auto
  then show ?case using push
    by (intro exI [of _ "fst (a_push (m_id m) (m_data m) (m_dlc m) A) # rvs"] exI [of _ p'] exI [of _ e'])
      (simp add: push_op_def [of m] case_prod_beta Let_def)
qed

text \<open>What the slot has after the last message, as read by \<open>read_packet\<close>.\<close>

definition wire_packet :: "bytes \<Rightarrow> bytes" where
  "wire_packet data = (if length data \<le> 10 then data else data @ crc_bytes (packet_crc data))"

lemma first_finished:
  assumes "i < length A" "A ! i = Some s" "sl_dlc s \<noteq> 0" "slot_read sz s \<noteq> []"
    "\<And>j. j < i \<Longrightarrow> \<not> slot_done (A ! j)"
  shows "a_read_packet sz src A = (slot_read sz s, extid_src (sl_extid s), A[i := None])"
proof -
  have skip: "a_read_loop (xs @ i # ys) sz src A = (slot_read sz s, extid_src (sl_extid s), A[i := None])"
    if "\<And>j. j \<in> set xs \<Longrightarrow> \<not> slot_done (A ! j)" for xs ys
    using that
  proof (induction xs)
    case Nil
    then show ?case using assms(2,3,4) by (simp add: Let_def)
  next
    case (Cons x xs)
    have "a_read_loop (xs @ i # ys) sz src A = (slot_read sz s, extid_src (sl_extid s), A[i := None])"
      using Cons.prems by (intro Cons.IH) simp
    then show ?case using Cons.prems [of x] by (cases "A ! x") (simp_all add: slot_done_def)
  qed
  have "[0..<length A] = [0..<i] @ i # [Suc i..<length A]"
    using assms(1) upt_add_eq_append [of 0 i "length A - i"] upt_conv_Cons [OF assms(1)] by simp
  then show ?thesis using skip [of "[0..<i]"] assms(5) by (simp add: a_read_packet_def)
qed

lemma collected_single:
  assumes "carries e (frm_single, bs) m" "length bs \<le> 8" "first_slot (\<lambda>x. x = None) (a_remove e A) = Some i"
    "\<not> list_ex slot_done A" "a_space A \<noteq> 0"
  shows "fst (run_spec can_spec [push_op m] A) = [OutError PacketAvailable]"
    "collected e i [m_data m] (if m_dlc m > 0 then m_dlc m else 0xFF) (snd (run_spec can_spec [push_op m] A))"
proof -
  let ?id = "extid_set_frm frm_single e" and ?B = "a_remove e A" and ?dlc = "if m_dlc m > 0 then m_dlc m else 0xFF"
  have "open_for ?id = open_for e"
    by (rule ext) (simp add: open_for_def split: option.splits)
  then have rem: "a_remove ?id A = ?B" by (simp add: a_remove_def slot_remove_def)
  have i: "i < length A" "?B ! i = None" using first_slot_Some [OF assms(3)] by auto
  have frm: "extid_frm ?id = frm_single" "frm_single \<noteq> frm_end" "frm_single \<noteq> frm_start"
    by (simp_all add: frm_start_def frm_end_def frm_single_def)
  have id: "m_id m = ?id" using assms(1) by (simp add: carries_def)
  have d: "?dlc \<noteq> 0" by (auto simp: word_gt_0)
  let ?A = "?B[i := Some \<lparr> sl_extid = ?id, sl_frames = [m_data m], sl_dlc = ?dlc, sl_to = can_timeout \<rparr>]"
  have push: "a_push ?id (m_data m) (m_dlc m) A = (PacketAvailable, ?A)"
    using assms(3,5) frm rem d by (simp add: a_push_def a_push_new_def Let_def)
  have other: "\<not> slot_done (?B ! j)" if "j < length A" for j
    using that assms(4) by (simp add: done_ops list_ex_length)
  show "fst (run_spec can_spec [push_op m] A) = [OutError PacketAvailable]"
    by (simp add: push_op_def id push)
  show "collected e i [m_data m] ?dlc (snd (run_spec can_spec [push_op m] A))"
    using i other by (auto simp: push_op_def id push collected_def)
qed

lemma collected_read:
  assumes "collected e i fs dlc A" "dlc \<noteq> 0" "2 \<le> sz"
    "frames_read sz dlc fs (le_bytes 2 (extid_pid e)) = bs" "bs \<noteq> []"
  shows "a_read_packet sz src A = (bs, extid_src e, A[i := None])"
proof -
  obtain k n where i: "i < length A" "A ! i = Some \<lparr> sl_extid = extid_set_frm k e, sl_frames = fs, sl_dlc = dlc, sl_to = n \<rparr>"
    and o: "\<And>j. j < length A \<Longrightarrow> j \<noteq> i \<Longrightarrow> \<not> slot_done (A ! j)"
    using assms(1) by (auto simp: collected_def)
  let ?s = "\<lparr> sl_extid = extid_set_frm k e, sl_frames = fs, sl_dlc = dlc, sl_to = n \<rparr>"
  have "slot_read sz ?s = bs" using assms(3,4) by (simp add: slot_read_def)
  then show ?thesis using first_finished [OF i, of sz src] assms(2,5) o i(1) by simp
qed

lemma wire_packet_read:
  assumes "packet_msgs e data ms" "extid_pid e = pid_of data" "2 \<le> length data" "length data + 2 \<le> sz"
    "length ms \<le> a_space A" "first_slot (\<lambda>x. x = None) (a_remove e A) = Some i" "\<not> list_ex slot_done A"
  shows "fst (run_spec can_spec (map push_op ms) A)
       = replicate (length ms - 1) (OutError MsgAccepted) @ [OutError PacketAvailable]"
    "a_read_packet sz src (snd (run_spec can_spec (map push_op ms) A))
       = (wire_packet data, extid_src e, (snd (run_spec can_spec (map push_op ms) A))[i := None])"
proof -
  let ?A = "snd (run_spec can_spec (map push_op ms) A)" and ?st = "drop 2 data @ crc_bytes (packet_crc data)"
  have ne: "data \<noteq> []" using assms(3) by auto
  have "fst (run_spec can_spec (map push_op ms) A)
       = replicate (length ms - 1) (OutError MsgAccepted) @ [OutError PacketAvailable] \<and>
    a_read_packet sz src ?A = (wire_packet data, extid_src e, ?A[i := None])"
  proof (cases "length data \<le> 10")
    case True
    then obtain m where m: "ms = [m]" "carries e (frm_single, drop 2 data) m"
      using assms(1) by (auto simp: packet_msgs_def)
    have len: "length (drop 2 data) \<le> 8" "a_space A \<noteq> 0" using True assms(5) m(1) by auto
    let ?dlc = "if m_dlc m > 0 then m_dlc m else 0xFF"
    note c = collected_single [OF m(2) len(1) assms(6,7) len(2)]
    have d: "unat (m_dlc m) = length data - 2" "take (length data - 2) (m_data m) = drop 2 data"
      using m(2) len(1) by (simp_all add: carries_def unat_of_nat)
    have "frames_read sz ?dlc [m_data m] (le_bytes 2 (pid_of data)) = data"
    proof (cases "m_dlc m = 0")
      case True
      then have "drop 2 data = []" using d(1) by simp
      then show ?thesis using True pid_of_bytes [OF assms(3)] by simp
    next
      case False
      have "m_dlc m \<le> 8" using d(1) len(1) by (simp add: word_le_nat_alt)
      moreover have "2 + (length data - 2) \<le> sz" using assms(3,4) by arith
      ultimately show ?thesis
        using False d pid_of_bytes [OF assms(3)] by (simp add: word_gt_0 del: add_2_eq_Suc)
    qed
    then have "a_read_packet sz src ?A = (data, extid_src e, ?A[i := None])"
      using collected_read [of e i "[m_data m]" ?dlc ?A sz data src] c(2) assms(2,4) ne
      by (simp add: m(1) word_gt_0)
    then show ?thesis using c(1) True by (simp add: m(1) wire_packet_def)
  next
    case False
    then have l: "list_all2 (carries e) (chunks frm_start ?st) ms" "8 < length ?st"
      using assms(1) by (simp_all add: packet_msgs_def crc_bytes_def)
    note c = collect_packet [OF l assms(6,7,5)]
    have st: "le_bytes 2 (pid_of data) @ ?st = wire_packet data"
      using pid_of_bytes [OF assms(3)] False by (simp add: wire_packet_def flip: append_assoc)
    have "?st \<noteq> []" "length (le_bytes 2 (pid_of data)) + length ?st \<le> sz"
      using assms(3,4) by (simp_all add: crc_bytes_def)
    then have r: "frames_read sz (m_dlc (last ms)) (map m_data ms) (le_bytes 2 (pid_of data)) = wire_packet data"
      and d: "m_dlc (last ms) \<noteq> 0"
      using frames_read_chunks [OF l(1), of "le_bytes 2 (pid_of data)" sz] st by simp_all
    have "wire_packet data \<noteq> []" using ne by (simp add: wire_packet_def)
    then show ?thesis using collected_read [OF _ d _ _ , of e i "map m_data ms" ?A sz "wire_packet data" src] c r assms(2,4) by simp
  qed
  then show "fst (run_spec can_spec (map push_op ms) A)
       = replicate (length ms - 1) (OutError MsgAccepted) @ [OutError PacketAvailable]"
    "a_read_packet sz src ?A = (wire_packet data, extid_src e, ?A[i := None])" by simp_all
qed

subsection \<open>Checksums of received packets\<close>

lemma byte_pair_word: "ucast (a :: u8) OR push_bit 8 (ucast (b :: u8) :: u16) = of_le [a, b]"
  by simp

lemma crc_bytes_of_le: "crc_bytes w = [a, b] \<longleftrightarrow> w = of_le [a, b]"
proof -
  have c: "crc_bytes w = le_bytes 2 w" by (simp add: crc_bytes_def numeral_2_eq_2 le_bytes_Suc)
  have "le_bytes 2 (of_le [a, b] :: u16) = [a, b]" "of_le (le_bytes 2 w) = w"
    using le_bytes_of_le [of "[a, b]", where 'a = 16] of_le_le_bytes [of 2 w]
    by (simp_all only: length_Cons list.size numeral_2_eq_2) simp_all
  then show ?thesis unfolding c by metis
qed

text \<open>The check passes iff the packet is followed by its checksum.\<close>

lemma take_2_drop: "n + 2 \<le> length xs \<Longrightarrow> take 2 (drop n xs) = [xs ! n, xs ! (n + 1)]"
  by (rule nth_equalityI) (auto simp: less_2_cases_iff)

text \<open>Where the reads of a check end: one byte behind the checksum for one remainder.\<close>

definition check_end :: "nat \<Rightarrow> nat" where
  "check_end n = (if n mod 4 = 1 then n + 3 else n + 2)"

lemma check_end_words: "max (n + 2) (CRC32_SW_end 0 n) = check_end n"
  using CRC32_SW_end_tail [of n] by (auto simp: check_end_def)

lemma check_crc_spec:
  assumes "n + 2 \<le> length dest" "length dest < mem_max"
  shows "check_crc far dest (n + 2) = Some (if crc_bytes (packet_crc (take n dest)) = take 2 (drop n dest) then n else 0, check_end n)"
proof -
  have sz: "size_sub (n + 2) 2 = n" using assms size_sub_small [of 2 "n + 2"] by simp
  have crc: "crc32_mem far dest n crc32_init = crc32 (take n dest) crc32_init"
    using assms(1) by (intro crc32_mem_take) simp
  have "check_crc far dest (n + 2)
      = Some (if (of_le [dest ! n, dest ! (n + 1)] :: u16) \<noteq> packet_crc (take n dest) then 0 else n, check_end n)"
    using assms(1) unfolding check_crc_def sz byte_pair_word packet_crc_def crc check_end_words Let_def by (simp only: if_True)
  then show ?thesis unfolding take_2_drop [OF assms(1)] crc_bytes_of_le
    by (simp only: eq_commute [of "packet_crc _"] if_not_P split: if_split) blast
qed

text \<open>How far the checks of a packet read; packets of one frame have none.\<close>

definition packet_reads :: "nat \<Rightarrow> nat" where
  "packet_reads n = (if n \<le> 10 then 0 else check_end n)"

lemma codec_read_first:
  assumes "pool_rep (c_pool c) A" "sz \<le> length dest" "length dest < mem_max"
    "a_read_packet sz src A = (wire_packet data, s, A')" "length data \<noteq> 0"
  shows "\<exists>c' e' dest'. codec_read_packet v far 0 dest sz src c e
      = Some (length data, dest', s, c', e', packet_reads (length data)) \<and>
    take (length data) dest' = data"
proof -
  obtain p' where p': "pool_read_packet dest sz src (c_pool c)
      = Some (length (wire_packet data), blit 0 (wire_packet data) dest, s, p')" "length (wire_packet data) \<le> sz"
    using rep_read_packet [OF assms(1-4)] by blast
  let ?d = "blit 0 (wire_packet data) dest"
  show ?thesis
  proof (cases "length data \<le> 10")
    case True
    then have "wire_packet data = data" by (simp add: wire_packet_def)
    then show ?thesis using p' True by (subst codec_read_packet.simps) (simp add: blit_def packet_reads_def Let_def)
  next
    case False
    then have w: "wire_packet data = data @ crc_bytes (packet_crc data)" "length (wire_packet data) = length data + 2"
      by (simp_all add: wire_packet_def crc_bytes_def)
    have "take (length data) ?d = data" "take 2 (drop (length data) ?d) = crc_bytes (packet_crc data)"
      by (simp_all add: w(1) blit_def) (simp add: crc_bytes_def)
    then have "check_crc far ?d (length data + 2) = Some (length data, check_end (length data))"
      using check_crc_spec [of "length data" ?d] p'(2) assms(2,3) w(2) by simp
    moreover have "\<not> length data + 2 \<le> 2 + 8" "length data \<noteq> 0" "take (length data) ?d = data"
      "max 0 (check_end (length data)) = packet_reads (length data)"
      using False by (auto simp: w(1) blit_def packet_reads_def)
    ultimately show ?thesis
      using p' unfolding w(2) by (subst codec_read_packet.simps, simp only: Let_def Option.bind.simps case_prod_conv if_False if_True not_False_eq_True option.inject prod.inject ex_simps simp_thms) blast
  qed
qed

text \<open>
  C1: a packet sent by one codec arrives at another.  The receiver has run any sequence of pool
  operations, holds no finished packet, and has an empty tree and room for the frames; it is not
  the sender's node and filters nothing.  Then every message of the packet is accepted, the last
  one completes it, and \<open>read_packet\<close> returns its bytes and the sender's node.  The buffer must
  have two bytes more than the packet: the checksum passes through it.  Whatever lies behind the
  sender's packet and the receiver's buffer (\<open>far\<close>, \<open>far'\<close>) does not matter, although the check
  of a packet of one byte more than a multiple of four reads one byte behind its checksum.
\<close>

theorem can_roundtrip:
  assumes "logs vs" "length (m_data (c_txmsg cs)) = 8" "2 \<le> length data" "length data < mem_max"
    "list_all can_op_ok ops" "run_steps can_step ops pool_init = Some (outs, c_pool cr)"
    "\<forall>i < size_trees. tr_head (p_trees (c_pool cr) ! i) = max_idx \<or> tr_dlc (p_trees (c_pool cr) ! i) = 0"
    "\<exists>i < size_trees. tr_head (p_trees (c_pool cr) ! i) = max_idx"
    "pool_space (c_pool cr) = Some n" "length data + 7 \<le> 8 * n"
    "accepts vr" "extid_src (c_defaults cs) \<noteq> extid_src (c_defaults cr)"
    "length data + 2 \<le> sz" "sz \<le> length dest" "length dest < mem_max"
  shows "\<exists>cs' ms rvs cr1 e1 dest' cr2 e2.
    send_packet vs far data cs [] = Some (True, cs', ms) \<and>
    push_messages vr ms cr e = Some (rvs, cr1, e1) \<and>
    rvs = replicate (length ms - 1) MsgAccepted @ [PacketAvailable] \<and>
    codec_read_packet vr far' 0 dest sz src cr1 e1
      = Some (length data, dest', extid_src (c_defaults cs), cr2, e2, packet_reads (length data)) \<and>
    take (length data) dest' = data"
proof -
  let ?A = "snd (run_spec can_spec ops no_slots)" and ?e = "extid_set_pid (pid_of data) (c_defaults cs)"
  have A: "pool_rep (c_pool cr) ?A" "length ?A = size_trees"
    using run_from_init [OF assms(5)] assms(6) rep_length by auto
  have undone: "\<not> slot_done (?A ! i)" if "i < size_trees" for i
    using rep_None [OF A(1) that] rep_Some [OF A(1) that] assms(7) that
    by (cases "?A ! i") (auto simp: slot_done_def)
  then have nd: "\<not> list_ex slot_done ?A" by (simp add: list_ex_length A(2))
  obtain j where "j < size_trees" "?A ! j = None" using assms(8) rep_None [OF A(1)] by auto
  then have "a_remove ?e ?A ! j = None" "j < length (a_remove ?e ?A)" by (simp_all add: A(2) slot_remove_def)
  then obtain i where i: "first_slot (\<lambda>x. x = None) (a_remove ?e ?A) = Some i"
    using first_slot_None [of "\<lambda>x. x = None" "a_remove ?e ?A"] by (cases "first_slot (\<lambda>x. x = None) (a_remove ?e ?A)") auto
  obtain cs' ms where ms: "send_packet vs far data cs [] = Some (True, cs', ms)" "packet_msgs ?e data ms"
    using send_packet_msgs [OF assms(1,3,4,2), where far = far and env = "[]"] by auto
  have "a_space ?A = n" using rep_pool_space [OF A(1)] assms(9) by simp
  then have space: "length ms \<le> a_space ?A" using packet_msgs_length(1) [OF ms(2) assms(3)] assms(10) by simp
  note w = wire_packet_read [OF ms(2) _ assms(3,13) space i nd]
  obtain rvs p1 e1 where p1: "push_messages vr ms cr e = Some (rvs, cr\<lparr> c_pool := p1 \<rparr>, e1)"
    "map OutError rvs = fst (run_spec can_spec (map push_op ms) ?A)"
    "pool_rep p1 (snd (run_spec can_spec (map push_op ms) ?A))"
    using push_messages_pool [OF assms(11) A(1), of ms e] packet_msgs_carry [OF ms(2)] assms(12) by auto
  have "map OutError rvs = map OutError (replicate (length ms - 1) MsgAccepted @ [PacketAvailable])"
    using p1(2) w(1) by simp
  then have rvs: "rvs = replicate (length ms - 1) MsgAccepted @ [PacketAvailable]"
    by (rule list.inj_map_strong [rotated]) simp
  have ne: "length data \<noteq> 0" using assms(3) by linarith
  have rd: "a_read_packet sz src (snd (run_spec can_spec (map push_op ms) ?A))
      = (wire_packet data, extid_src (c_defaults cs), (snd (run_spec can_spec (map push_op ms) ?A))[i := None])"
    using w(2) by simp
  have pool: "pool_rep (c_pool (cr\<lparr> c_pool := p1 \<rparr>)) (snd (run_spec can_spec (map push_op ms) ?A))"
    using p1(3) by simp
  obtain cr2 e2 dest' where "codec_read_packet vr far' 0 dest sz src (cr\<lparr> c_pool := p1 \<rparr>) e1
      = Some (length data, dest', extid_src (c_defaults cs), cr2, e2, packet_reads (length data))" "take (length data) dest' = data"
    using codec_read_first [OF pool assms(14,15) rd ne, of vr far' e1] by blast
  then show ?thesis using ms(1) p1(1) rvs by blast
qed

definition bus_virt :: "xcan_msg list codec_virt" where
  "bus_virt = \<lparr> v_update_node_id = (\<lambda>d e. (d, e)), v_send_message = (\<lambda>m e. (True, e @ [m])),
     v_lock_push = (\<lambda>b e. e), v_accept_filter = (\<lambda>x e. (True, e)) \<rparr>"

definition new_codec :: "extid_s \<Rightarrow> codec" where
  "new_codec d = (codec_make \<lparr> m_id = 0, m_dlc = 0, m_ext = False, m_data = replicate 8 0 \<rparr> pool_init)\<lparr> c_defaults := d \<rparr>"

lemma pool_init_space: "pool_space pool_init = Some 76"
  using rep_pool_space [OF rep_init] by (simp add: a_space_def a_used_def slot_frames_def size_items_def sum_list_replicate)

lemma can_roundtrip_witness:
  "\<exists>cs' ms rvs cr1 e1 dest' cr2 e2.
    send_packet bus_virt (\<lambda>i. 1) [1, 2, 3, 4, 5, 6, 7, 8, 9, 10, 11, 12] (new_codec 0) [] = Some (True, cs', ms) \<and>
    push_messages bus_virt ms (new_codec 0x80000) [] = Some (rvs, cr1, e1) \<and>
    rvs = replicate (length ms - 1) MsgAccepted @ [PacketAvailable] \<and>
    codec_read_packet bus_virt (\<lambda>i. 2) 0 (replicate 64 0) 64 0 cr1 e1
      = Some (length [1, 2, 3, 4, 5, 6, 7, 8, 9, 10, 11, 12 :: u8], dest', extid_src (c_defaults (new_codec 0)), cr2, e2,
          packet_reads (length [1, 2, 3, 4, 5, 6, 7, 8, 9, 10, 11, 12 :: u8])) \<and>
    take (length [1, 2, 3, 4, 5, 6, 7, 8, 9, 10, 11, 12 :: u8]) dest' = [1, 2, 3, 4, 5, 6, 7, 8, 9, 10, 11, 12]"
proof (rule can_roundtrip [where ops = "[]" and outs = "[]" and n = 76])
  show "extid_src (c_defaults (new_codec 0)) \<noteq> extid_src (c_defaults (new_codec 0x80000))"
    by (simp add: new_codec_def codec_make_def) code_simp
  show "pool_space (c_pool (new_codec 0x80000)) = Some 76"
    by (simp add: new_codec_def codec_make_def pool_init_space)
  show "\<exists>i < size_trees. tr_head (p_trees (c_pool (new_codec 0x80000)) ! i) = max_idx"
    by (rule exI [of _ 0]) (simp add: new_codec_def codec_make_def pool_init_def size_trees_def)
qed (simp_all add: bus_virt_def logs_def accepts_def new_codec_def codec_make_def pool_init_def size_trees_def)

subsection \<open>Reading always ends\<close>

definition ndone :: "apool \<Rightarrow> nat" where
  "ndone A = card {i. i < length A \<and> slot_done (A ! i)}"

lemma ndone_clear: "i < length A \<Longrightarrow> slot_done (A ! i) \<Longrightarrow> ndone (A[i := None]) < ndone A"
  unfolding ndone_def
  by (rule psubset_card_mono) (auto simp: nth_list_update slot_done_def split: if_splits)

lemma read_loop_ndone:
  "a_read_loop is sz src A = (bs, s, A') \<Longrightarrow> set is \<subseteq> {..<length A} \<Longrightarrow>
     ndone A' \<le> ndone A \<and> (bs \<noteq> [] \<longrightarrow> ndone A' < ndone A)"
proof (induction "is" sz src A rule: a_read_loop.induct)
  case (2 i js sz src A)
  show ?case
  proof (cases "A ! i")
    case None
    then show ?thesis using 2 by simp
  next
    case (Some x)
    show ?thesis
    proof (cases "sl_dlc x = 0")
      case True
      then show ?thesis using 2 Some by simp
    next
      case False
      then have "ndone (A[i := None]) < ndone A"
        using 2(5) Some by (intro ndone_clear) (auto simp: slot_done_def)
      then show ?thesis using 2 Some False by (fastforce simp: Let_def split: if_splits)
    qed
  qed
qed simp

text \<open>What \<open>codec_read_packet\<close> may return.\<close>

definition checked :: "nat \<Rightarrow> bytes \<Rightarrow> bool" where
  "checked cnt dest \<longleftrightarrow> cnt \<le> 10 \<or> crc_bytes (packet_crc (take cnt dest)) = take 2 (drop cnt dest)"

text \<open>How far the checks read into a buffer of \<open>sz\<close> bytes.\<close>

definition read_bound :: "nat \<Rightarrow> nat" where
  "read_bound sz = (if sz mod 4 = 3 then sz + 1 else sz)"

lemma check_end_bound:
  assumes "n + 2 \<le> sz"
  shows "check_end n \<le> read_bound sz"
proof (cases "n mod 4 = 1 \<and> n + 2 = sz")
  case True
  then have "sz mod 4 = 3" by presburger
  then show ?thesis using True by (simp add: check_end_def read_bound_def)
next
  case False
  then show ?thesis using assms by (auto simp: check_end_def read_bound_def)
qed

lemma codec_read_ends:
  assumes "pool_rep (c_pool c) A" "sz \<le> length dest" "length dest < mem_max"
  shows "\<exists>cnt dest' s c' e' rd'. codec_read_packet v far rd dest sz src c e = Some (cnt, dest', s, c', e', rd') \<and>
    length dest' = length dest \<and> drop sz dest' = drop sz dest \<and> cnt \<le> sz \<and> checked cnt dest' \<and>
    rd' \<le> max rd (read_bound sz)"
  using assms
proof (induction "ndone A" arbitrary: c A dest src e rd rule: less_induct)
  case less
  obtain bs s A' where r: "a_read_packet sz src A = (bs, s, A')" by (metis prod_cases3)
  obtain p' where p': "pool_read_packet dest sz src (c_pool c) = Some (length bs, blit 0 bs dest, s, p')"
    "pool_rep p' A'" "length bs \<le> sz"
    using rep_read_packet [OF less.prems r] by blast
  let ?d = "blit 0 bs dest" and ?e = "v_lock_push v False (v_lock_push v True e)" and ?c = "c\<lparr> c_pool := p' \<rparr>"
  have len: "length ?d = length dest" "drop sz ?d = drop sz dest" using p'(3) less.prems(2) by (simp_all add: blit_def)
  show ?case
  proof (cases "length bs \<le> 2 + 8")
    case True
    then have "codec_read_packet v far rd dest sz src c e = Some (length bs, ?d, s, ?c, ?e, rd)"
      using p'(1) by (subst codec_read_packet.simps) (simp add: Let_def)
    then show ?thesis using len p'(3) True by (auto simp: checked_def)
  next
    case False
    define n where "n = length bs - 2"
    have n: "length bs = n + 2" "n \<noteq> 0" using False by (simp_all add: n_def)
    have "n + 2 \<le> sz" using n p'(3) by simp
    from check_end_bound [OF this] have stop: "max rd (check_end n) \<le> max rd (read_bound sz)" by simp
    have chk: "check_crc far ?d (n + 2) = Some (if crc_bytes (packet_crc (take n ?d)) = take 2 (drop n ?d) then n else 0, check_end n)"
      using check_crc_spec [of n ?d] len less.prems(2,3) p'(3) n(1) by simp
    show ?thesis
    proof (cases "crc_bytes (packet_crc (take n ?d)) = take 2 (drop n ?d)")
      case True
      then have "codec_read_packet v far rd dest sz src c e = Some (n, ?d, s, ?c, ?e, max rd (check_end n))"
        using p'(1) chk n False by (subst codec_read_packet.simps) (simp add: Let_def del: add_2_eq_Suc add_2_eq_Suc')
      then show ?thesis using len p'(3) n True stop by (auto simp: checked_def)
    next
      case bad: False
      then have eq: "codec_read_packet v far rd dest sz src c e = codec_read_packet v far (max rd (check_end n)) ?d sz s ?c ?e"
        using p'(1) chk n False
        by (subst codec_read_packet.simps) (simp add: Let_def del: add_2_eq_Suc add_2_eq_Suc')
      have "bs \<noteq> []" using n by auto
      then have "ndone A' < ndone A" using read_loop_ndone [OF r [unfolded a_read_packet_def]]
        by (simp add: lessThan_atLeast0)
      then obtain cnt dest' s' c' e' rd' where
        "codec_read_packet v far (max rd (check_end n)) ?d sz s ?c ?e = Some (cnt, dest', s', c', e', rd')"
        "length dest' = length ?d \<and> drop sz dest' = drop sz ?d \<and> cnt \<le> sz \<and> checked cnt dest' \<and>
         rd' \<le> max (max rd (check_end n)) (read_bound sz)"
        using less.hyps [of A' ?c ?d "max rd (check_end n)" s ?e] p'(2) len less.prems(2,3) by auto
      then show ?thesis using eq len stop by auto
    qed
  qed
qed

text \<open>
  C15: in every state that pool operations reach, and whatever lies behind the buffer,
  \<open>read_packet\<close> of the codec ends; it stores into the first \<open>sz\<close> bytes only; what it returns of
  more than ten bytes is followed there by its own checksum; and its checks read no byte behind
  the buffer, except that one byte is read there when \<open>sz\<close> is one less than a multiple of four
  and a packet fills it.
\<close>

theorem can_read_checked:
  assumes "list_all can_op_ok ops" "run_steps can_step ops pool_init = Some (outs, c_pool c)"
    "sz \<le> length dest" "length dest < mem_max"
  shows "\<exists>cnt dest' s c' e' rd. codec_read_packet v far 0 dest sz src c e = Some (cnt, dest', s, c', e', rd) \<and>
    length dest' = length dest \<and> drop sz dest' = drop sz dest \<and> cnt \<le> sz \<and> checked cnt dest' \<and>
    rd \<le> (if sz mod 4 = 3 then sz + 1 else sz)"
proof -
  have "pool_rep (c_pool c) (snd (run_spec can_spec ops no_slots))"
    using run_from_init [OF assms(1)] assms(2) by auto
  from codec_read_ends [OF this assms(3,4), of v far 0 src e] show ?thesis by (simp add: read_bound_def)
qed

lemma can_read_checked_witness:
  "\<exists>cnt dest' s c' e' rd. codec_read_packet bus_virt (\<lambda>i. 1) 0 (replicate 64 0) 64 0 (new_codec 0) []
      = Some (cnt, dest', s, c', e', rd) \<and>
    length dest' = length (replicate 64 (0 :: u8)) \<and> drop 64 dest' = drop 64 (replicate 64 0) \<and> cnt \<le> 64 \<and>
    checked cnt dest' \<and> rd \<le> (if (64 :: nat) mod 4 = 3 then 64 + 1 else 64)"
  by (rule can_read_checked [of "[]" "[]"]) (simp_all add: new_codec_def codec_make_def)

end
