(* ===== verification/Soft_Float.thy ===== *)
theory Soft_Float
  imports Apx_Prelude
begin

text \<open>
  IEEE 754 binary floating point as the sources use it: single (\<open>float\<close>) and double
  precision, round to nearest even, every operation rounded to its type.  A finite number is read
  as an exact fraction, the operation is exact, and \<open>fl_round\<close> finds the nearest number of the
  format.  Conversions to integer types that C leaves undefined are \<open>None\<close>.
\<close>

unbundle bit_operations_syntax

subsection \<open>Numbers\<close>

text \<open>\<open>Fin s p q\<close> is the fraction \<open>p / q\<close> with sign \<open>s\<close>; \<open>p\<close> is not negative and \<open>q\<close> positive.\<close>

datatype fl = NaN | Inf bool | Fin bool int int

fun ilog2 :: "int \<Rightarrow> nat" where
  "ilog2 n = (if n \<le> 1 then 0 else Suc (ilog2 (n div 2)))"

declare ilog2.simps [simp del]

text \<open>The quotient rounded to the nearest integer, ties to even.\<close>

definition round_even :: "int \<Rightarrow> int \<Rightarrow> int" where
  "round_even p q =
     (let d = p div q; r = 2 * (p mod q)
      in if r > q \<or> (r = q \<and> odd d) then d + 1 else d)"

definition pow2 :: "int \<Rightarrow> int" where
  "pow2 k = (if 0 \<le> k then 2 ^ nat k else 1)"

text \<open>
  The encoding of \<open>p / q\<close> with \<open>P\<close> fraction bits and \<open>E\<close> exponent bits, without its sign: the
  exponent \<open>u\<close> of the last place is that of the leading bit less \<open>P\<close>, or that of the subnormal
  numbers; a carry of the rounded fraction runs into the exponent by itself.
\<close>

definition fl_round :: "nat \<Rightarrow> nat \<Rightarrow> int \<Rightarrow> int \<Rightarrow> int" where
  "fl_round P E p q =
     (let low = 2 - 2 ^ (E - 1) - int P;
          k = int (ilog2 p) - int (ilog2 q);
          e = (if p * pow2 (- k) < q * pow2 k then k - 1 else k);
          u = max (e - int P) low;
          m = round_even (p * pow2 (- u)) (q * pow2 u);
          top = (2 ^ E - 1) * 2 ^ P;
          bits = (u - low) * 2 ^ P + m
      in if bits \<ge> top then top else bits)"

definition fl_sign :: "nat \<Rightarrow> nat \<Rightarrow> bool \<Rightarrow> int" where
  "fl_sign P E s = (if s then 2 ^ (P + E) else 0)"

fun fl_enc :: "nat \<Rightarrow> nat \<Rightarrow> fl \<Rightarrow> int" where
  "fl_enc P E NaN = (2 ^ E - 1) * 2 ^ P + 2 ^ (P - 1)"
| "fl_enc P E (Inf s) = fl_sign P E s + (2 ^ E - 1) * 2 ^ P"
| "fl_enc P E (Fin s p q) = (if p = 0 then fl_sign P E s else fl_sign P E s + fl_round P E p q)"

definition fl_dec :: "nat \<Rightarrow> nat \<Rightarrow> int \<Rightarrow> fl" where
  "fl_dec P E bits =
     (let s = (bits div 2 ^ (P + E) mod 2 = 1);
          be = bits div 2 ^ P mod 2 ^ E;
          fr = bits mod 2 ^ P;
          u = (if be = 0 then 0 else be - 1) + 2 - 2 ^ (E - 1) - int P;
          m = (if be = 0 then fr else 2 ^ P + fr)
      in if be = 2 ^ E - 1 then if fr = 0 then Inf s else NaN
         else Fin s (m * pow2 u) (pow2 (- u)))"

subsection \<open>Exact operations\<close>

fun fl_mul :: "fl \<Rightarrow> fl \<Rightarrow> fl" where
  "fl_mul (Fin s p q) (Fin s' p' q') = Fin (s \<noteq> s') (p * p') (q * q')"
| "fl_mul (Fin s p q) (Inf s') = (if p = 0 then NaN else Inf (s \<noteq> s'))"
| "fl_mul (Inf s) (Fin s' p q) = (if p = 0 then NaN else Inf (s \<noteq> s'))"
| "fl_mul (Inf s) (Inf s') = Inf (s \<noteq> s')"
| "fl_mul _ _ = NaN"

fun fl_div :: "fl \<Rightarrow> fl \<Rightarrow> fl" where
  "fl_div (Fin s p q) (Fin s' p' q') =
     (if p' = 0 then if p = 0 then NaN else Inf (s \<noteq> s') else Fin (s \<noteq> s') (p * q') (q * p'))"
| "fl_div (Fin s p q) (Inf s') = Fin (s \<noteq> s') 0 1"
| "fl_div (Inf s) (Fin s' p q) = Inf (s \<noteq> s')"
| "fl_div _ _ = NaN"

fun fl_add :: "fl \<Rightarrow> fl \<Rightarrow> fl" where
  "fl_add (Fin s p q) (Fin s' p' q') =
     (let a = (if s then - p else p) * q' + (if s' then - p' else p') * q
      in if a = 0 then Fin (s \<and> s') 0 1 else Fin (a < 0) \<bar>a\<bar> (q * q'))"
| "fl_add (Fin s p q) (Inf s') = Inf s'"
| "fl_add (Inf s) (Fin s' p q) = Inf s"
| "fl_add (Inf s) (Inf s') = (if s = s' then Inf s else NaN)"
| "fl_add _ _ = NaN"

fun fl_neg :: "fl \<Rightarrow> fl" where
  "fl_neg (Fin s p q) = Fin (\<not> s) p q"
| "fl_neg (Inf s) = Inf (\<not> s)"
| "fl_neg NaN = NaN"

fun fl_floor :: "fl \<Rightarrow> fl" where
  "fl_floor (Fin s p q) = Fin s (if s then (p + q - 1) div q else p div q) 1"
| "fl_floor x = x"

text \<open>Conversion to an integer drops the fraction.\<close>

fun fl_trunc :: "fl \<Rightarrow> int option" where
  "fl_trunc (Fin s p q) = Some (if s then - (p div q) else p div q)"
| "fl_trunc _ = None"

definition fl_of_int :: "int \<Rightarrow> fl" where
  "fl_of_int i = Fin (i < 0) \<bar>i\<bar> 1"

fun fl_negative :: "fl \<Rightarrow> bool" where
  "fl_negative (Fin s p q) \<longleftrightarrow> s \<and> p \<noteq> 0"
| "fl_negative (Inf s) \<longleftrightarrow> s"
| "fl_negative NaN \<longleftrightarrow> False"

fun fl_zero :: "fl \<Rightarrow> bool" where
  "fl_zero (Fin s p q) \<longleftrightarrow> p = 0"
| "fl_zero _ \<longleftrightarrow> False"

subsection \<open>Single and double precision\<close>

type_synonym f32 = u32
type_synonym f64 = u64

definition f32_dec :: "f32 \<Rightarrow> fl" where "f32_dec w = fl_dec 23 8 (uint w)"
definition f32_enc :: "fl \<Rightarrow> f32" where "f32_enc x = word_of_int (fl_enc 23 8 x)"
definition f64_dec :: "f64 \<Rightarrow> fl" where "f64_dec w = fl_dec 52 11 (uint w)"
definition f64_enc :: "fl \<Rightarrow> f64" where "f64_enc x = word_of_int (fl_enc 52 11 x)"

definition f32_mul :: "f32 \<Rightarrow> f32 \<Rightarrow> f32" where "f32_mul a b = f32_enc (fl_mul (f32_dec a) (f32_dec b))"
definition f32_div :: "f32 \<Rightarrow> f32 \<Rightarrow> f32" where "f32_div a b = f32_enc (fl_div (f32_dec a) (f32_dec b))"
definition f32_add :: "f32 \<Rightarrow> f32 \<Rightarrow> f32" where "f32_add a b = f32_enc (fl_add (f32_dec a) (f32_dec b))"
definition f32_sub :: "f32 \<Rightarrow> f32 \<Rightarrow> f32" where "f32_sub a b = f32_enc (fl_add (f32_dec a) (fl_neg (f32_dec b)))"
definition f32_floor :: "f32 \<Rightarrow> f32" where "f32_floor a = f32_enc (fl_floor (f32_dec a))"
definition f32_of_int :: "int \<Rightarrow> f32" where "f32_of_int i = f32_enc (fl_of_int i)"
definition f32_trunc :: "f32 \<Rightarrow> int option" where "f32_trunc a = fl_trunc (f32_dec a)"
definition f32_isnan :: "f32 \<Rightarrow> bool" where "f32_isnan a \<longleftrightarrow> f32_dec a = NaN"

definition f64_mul :: "f64 \<Rightarrow> f64 \<Rightarrow> f64" where "f64_mul a b = f64_enc (fl_mul (f64_dec a) (f64_dec b))"
definition f64_div :: "f64 \<Rightarrow> f64 \<Rightarrow> f64" where "f64_div a b = f64_enc (fl_div (f64_dec a) (f64_dec b))"
definition f64_of_int :: "int \<Rightarrow> f64" where "f64_of_int i = f64_enc (fl_of_int i)"
definition f64_trunc :: "f64 \<Rightarrow> int option" where "f64_trunc a = fl_trunc (f64_dec a)"

lemma f32_examples:
  "f32_mul 0x40400000 0x40800000 = 0x41400000"
  "f32_div 0x3F800000 0x41200000 = 0x3DCCCCCD"
  "f32_of_int 16777217 = 0x4B800000"
  "f32_add 0x3F800000 0x33800000 = 0x3F800000"
  by code_simp+

end
