(* ===== verification/Mandala_Base.thy ===== *)
theory Mandala_Base
  imports Soft_Float Xbus_Wire
begin

text \<open>
  \<open>mandala/MandalaMetaBase.h\<close>, \<open>MandalaPackBase.h\<close> and \<open>MandalaTreeBase.h\<close>: the data types of
  the Mandala tree, the formats of telemetry elements and the lookup in the table of formats.  The
  table itself, and all uids, are generated from the dictionary; they are parameters here.
\<close>

unbundle bit_operations_syntax

subsection \<open>Types and raw values\<close>

type_synonym uid_t = u16
type_synonym byte_t = u8
type_synonym word_t = u16
type_synonym dword_t = u32
type_synonym real_t = f32
type_synonym raw_t = u32

datatype type_id_e = type_byte | type_word | type_dword | type_real

fun type_code :: "type_id_e \<Rightarrow> u8" where
  "type_code type_byte = 0"
| "type_code type_word = 1"
| "type_code type_dword = 2"
| "type_code type_real = 3"

text \<open>The enumerator in a bit field of two bits, which holds nothing else.\<close>

definition type_of_code :: "u8 \<Rightarrow> type_id_e" where
  "type_of_code c =
     (let c = c AND 3
      in if c = 0 then type_byte else if c = 1 then type_word else if c = 2 then type_dword else type_real)"

fun type_string :: "type_id_e \<Rightarrow> string" where
  "type_string type_byte = ''byte''"
| "type_string type_word = ''word''"
| "type_string type_dword = ''dword''"
| "type_string type_real = ''real''"

fun type_size :: "type_id_e \<Rightarrow> nat" where
  "type_size type_byte = 1"
| "type_size type_word = 2"
| "type_size type_dword = 4"
| "type_size type_real = 4"

text \<open>The conversions of C between \<open>float\<close> and unsigned integers; out of range they are undefined.\<close>

definition f32_to_word :: "f32 \<Rightarrow> 'a::len word option" where
  "f32_to_word v = (case f32_trunc v of
     None \<Rightarrow> None
   | Some i \<Rightarrow> if 0 \<le> i \<and> i < 2 ^ LENGTH('a) then Some (word_of_int i) else None)"

definition word_to_f32 :: "'a::len word \<Rightarrow> f32" where
  "word_to_f32 w = f32_of_int (uint w)"

text \<open>
  The templates \<open>read\<close>, \<open>write\<close> and \<open>from_raw\<close> for the two instances that the library's values
  have, \<open>T = dword_t\<close> and \<open>T = real_t\<close>.
\<close>

fun mandala_read_dword :: "type_id_e \<Rightarrow> reader \<Rightarrow> (dword_t \<times> reader) option" where
  "mandala_read_dword type_byte s = do { (v, s) \<leftarrow> read_u8 s; Some (ucast v, s) }"
| "mandala_read_dword type_word s = do { (v, s) \<leftarrow> read_u16 s; Some (ucast v, s) }"
| "mandala_read_dword type_dword s = read_u32 s"
| "mandala_read_dword type_real s = do { (v, s) \<leftarrow> read_u32 s; v \<leftarrow> f32_to_word v; Some (v, s) }"

fun mandala_read_real :: "type_id_e \<Rightarrow> reader \<Rightarrow> (real_t \<times> reader) option" where
  "mandala_read_real type_byte s = do { (v, s) \<leftarrow> read_u8 s; Some (word_to_f32 v, s) }"
| "mandala_read_real type_word s = do { (v, s) \<leftarrow> read_u16 s; Some (word_to_f32 v, s) }"
| "mandala_read_real type_dword s = do { (v, s) \<leftarrow> read_u32 s; Some (word_to_f32 v, s) }"
| "mandala_read_real type_real s = read_u32 s"

fun mandala_write_dword :: "dword_t \<Rightarrow> type_id_e \<Rightarrow> writer \<Rightarrow> (nat \<times> writer) option" where
  "mandala_write_dword v type_byte s = write_u8 (ucast v) s"
| "mandala_write_dword v type_word s = write_u16 (ucast v) s"
| "mandala_write_dword v type_dword s = write_u32 v s"
| "mandala_write_dword v type_real s = write_u32 (word_to_f32 v) s"

fun mandala_write_real :: "real_t \<Rightarrow> type_id_e \<Rightarrow> writer \<Rightarrow> (nat \<times> writer) option" where
  "mandala_write_real v type_byte s = do { v \<leftarrow> f32_to_word v; write_u8 v s }"
| "mandala_write_real v type_word s = do { v \<leftarrow> f32_to_word v; write_u16 v s }"
| "mandala_write_real v type_dword s = do { v \<leftarrow> f32_to_word v; write_u32 v s }"
| "mandala_write_real v type_real s = write_u32 v s"

text \<open>\<open>to_raw\<close> stores the value in the low bytes of a zeroed union; \<open>from_raw\<close> reads them.\<close>

definition to_raw :: "'a::len word \<Rightarrow> raw_t" where
  "to_raw v = ucast v"

definition from_raw :: "raw_t \<Rightarrow> 'a::len word" where
  "from_raw r = ucast r"

fun from_raw_dword :: "raw_t \<Rightarrow> type_id_e \<Rightarrow> dword_t option" where
  "from_raw_dword r type_byte = Some (ucast (from_raw r :: byte_t))"
| "from_raw_dword r type_word = Some (ucast (from_raw r :: word_t))"
| "from_raw_dword r type_dword = Some (from_raw r)"
| "from_raw_dword r type_real = f32_to_word (from_raw r)"

fun from_raw_real :: "raw_t \<Rightarrow> type_id_e \<Rightarrow> real_t" where
  "from_raw_real r type_byte = word_to_f32 (from_raw r :: byte_t)"
| "from_raw_real r type_word = word_to_f32 (from_raw r :: word_t)"
| "from_raw_real r type_dword = word_to_f32 (from_raw r :: dword_t)"
| "from_raw_real r type_real = from_raw r"

subsection \<open>Data specifier, meta data and the tree\<close>

type_synonym spec_s = u8

definition spec_type :: "spec_s \<Rightarrow> u8" where
  "spec_type s = s AND 0xF"

definition spec_set_type :: "type_id_e \<Rightarrow> spec_s \<Rightarrow> spec_s" where
  "spec_set_type t s = (s AND 0xF0) OR type_code t"

definition spec_init :: spec_s where
  "spec_init = 0"

definition spec_psize :: nat where
  "spec_psize = 1"

definition spec_read :: "spec_s \<Rightarrow> reader \<Rightarrow> (spec_s \<times> reader) option" where
  "spec_read old s = do { (raw, s) \<leftarrow> read_u8 s; Some (raw, s) }"

definition spec_write :: "spec_s \<Rightarrow> writer \<Rightarrow> (unit \<times> writer) option" where
  "spec_write x s = do { (_, s) \<leftarrow> write_u8 x s; Some ((), s) }"

record meta_s =
  meta_name :: string
  meta_title :: string
  meta_descr :: string
  meta_units :: string
  meta_path :: string
  meta_uid :: uid_t
  meta_mask :: uid_t
  meta_level :: u8
  meta_group :: bool
  meta_type_id :: type_id_e
  meta_units_cnt :: u8

text \<open>\<open>tree_base_t<_Tree>::match\<close> for the node with the uid and mask of its meta data.\<close>

definition tree_match :: "meta_s \<Rightarrow> uid_t \<Rightarrow> bool" where
  "tree_match tree uid \<longleftrightarrow> uid AND meta_mask tree = meta_uid tree"

subsection \<open>Formats of telemetry elements\<close>

datatype fmt_e = fmt_none | fmt_u8 | fmt_u16 | fmt_u32 | fmt_f32 | fmt_bit | fmt_u4 | fmt_a32
  | fmt_f16 | fmt_s8 | fmt_s8_10 | fmt_s8_01 | fmt_s8_001 | fmt_u8_10 | fmt_u8_01 | fmt_u8_001
  | fmt_s16_rad | fmt_s16_rad2 | fmt_u8_u | fmt_s8_u | fmt_u16_10 | fmt_s8_rad

definition fmt_enum :: "fmt_e list" where
  "fmt_enum = [fmt_none, fmt_u8, fmt_u16, fmt_u32, fmt_f32, fmt_bit, fmt_u4, fmt_a32, fmt_f16, fmt_s8, fmt_s8_10,
     fmt_s8_01, fmt_s8_001, fmt_u8_10, fmt_u8_01, fmt_u8_001, fmt_s16_rad, fmt_s16_rad2, fmt_u8_u, fmt_s8_u,
     fmt_u16_10, fmt_s8_rad]"

fun fmt_code :: "fmt_e \<Rightarrow> u8" where
  "fmt_code fmt_none = 0"
| "fmt_code fmt_u8 = 1"
| "fmt_code fmt_u16 = 2"
| "fmt_code fmt_u32 = 3"
| "fmt_code fmt_f32 = 4"
| "fmt_code fmt_bit = 5"
| "fmt_code fmt_u4 = 6"
| "fmt_code fmt_a32 = 7"
| "fmt_code fmt_f16 = 8"
| "fmt_code fmt_s8 = 9"
| "fmt_code fmt_s8_10 = 10"
| "fmt_code fmt_s8_01 = 11"
| "fmt_code fmt_s8_001 = 12"
| "fmt_code fmt_u8_10 = 13"
| "fmt_code fmt_u8_01 = 14"
| "fmt_code fmt_u8_001 = 15"
| "fmt_code fmt_s16_rad = 16"
| "fmt_code fmt_s16_rad2 = 17"
| "fmt_code fmt_u8_u = 18"
| "fmt_code fmt_s8_u = 19"
| "fmt_code fmt_u16_10 = 20"
| "fmt_code fmt_s8_rad = 21"

text \<open>The case of a \<open>switch\<close> that a stored format selects; a value outside the enumeration selects none.\<close>

definition fmt_of_code :: "u8 \<Rightarrow> fmt_e option" where
  "fmt_of_code c = (if unat c < length fmt_enum then Some (fmt_enum ! unat c) else None)"

datatype seq_e = seq_always | seq_skip | seq_rare | seq_scheduled

fun seq_code :: "seq_e \<Rightarrow> u8" where
  "seq_code seq_always = 0"
| "seq_code seq_skip = 1"
| "seq_code seq_rare = 2"
| "seq_code seq_scheduled = 3"

definition seq_of_code :: "u8 \<Rightarrow> seq_e" where
  "seq_of_code c =
     (let c = c AND 3
      in if c = 0 then seq_always else if c = 1 then seq_skip else if c = 2 then seq_rare else seq_scheduled)"

datatype dataset_e = ds_aux | ds_minimal | ds_normal | ds_heavy | ds_auto

fun ds_code :: "dataset_e \<Rightarrow> u8" where
  "ds_code ds_aux = 0"
| "ds_code ds_minimal = 1"
| "ds_code ds_normal = 2"
| "ds_code ds_heavy = 3"
| "ds_code ds_auto = 4"

fun fmt_string :: "fmt_e \<Rightarrow> string" where
  "fmt_string fmt_none = ''none''"
| "fmt_string fmt_u8 = ''u8''"
| "fmt_string fmt_u16 = ''u16''"
| "fmt_string fmt_u32 = ''u32''"
| "fmt_string fmt_f32 = ''f32''"
| "fmt_string fmt_a32 = ''a32''"
| "fmt_string fmt_bit = ''bit''"
| "fmt_string fmt_u4 = ''u4''"
| "fmt_string fmt_f16 = ''f16''"
| "fmt_string fmt_s8 = ''s8''"
| "fmt_string fmt_s8_10 = ''s8_10''"
| "fmt_string fmt_s8_01 = ''s8_01''"
| "fmt_string fmt_s8_001 = ''s8_001''"
| "fmt_string fmt_u8_10 = ''u8_10''"
| "fmt_string fmt_u8_01 = ''u8_01''"
| "fmt_string fmt_u8_001 = ''u8_001''"
| "fmt_string fmt_s16_rad = ''s16_rad''"
| "fmt_string fmt_s16_rad2 = ''s16_rad2''"
| "fmt_string fmt_u8_u = ''u8_u''"
| "fmt_string fmt_s8_u = ''s8_u''"
| "fmt_string fmt_u16_10 = ''u16_10''"
| "fmt_string fmt_s8_rad = ''s8_rad''"

text \<open>\<open>units_e\<close> is generated; these are its enumerators, as \<open>default_fmt\<close> lists them.\<close>

datatype units_e = units_none | units_bit | units_opt | units_A | units_Ah | units_bar | units_C
  | units_kg | units_rad | units_radps | units_radps_sq | units_K | units_kgpm_cb | units_kPa
  | units_LpD | units_m | units_km | units_mbar | units_mps | units_mps_sq | units_ms | units_N
  | units_Nm | units_Pa | units_percent | units_percentph | units_rad_sq | units_rpm | units_rpmps
  | units_s | units_min | units_su | units_u | units_V | units_gps

text \<open>The first \<open>switch\<close>; \<open>None\<close> is a \<open>break\<close>.\<close>

fun units_fmt :: "units_e \<Rightarrow> fmt_e option" where
  "units_fmt units_none = None"
| "units_fmt units_bit = Some fmt_bit"
| "units_fmt units_opt = Some fmt_u4"
| "units_fmt units_A = Some fmt_f16"
| "units_fmt units_Ah = Some fmt_u8"
| "units_fmt units_bar = Some fmt_u8_01"
| "units_fmt units_C = Some fmt_s8"
| "units_fmt units_kg = Some fmt_f16"
| "units_fmt units_rad = Some fmt_s16_rad"
| "units_fmt units_radps = Some fmt_s8_001"
| "units_fmt units_radps_sq = Some fmt_s8_001"
| "units_fmt units_K = Some fmt_f16"
| "units_fmt units_kgpm_cb = Some fmt_f16"
| "units_fmt units_kPa = Some fmt_f16"
| "units_fmt units_LpD = Some fmt_f16"
| "units_fmt units_m = Some fmt_f16"
| "units_fmt units_km = None"
| "units_fmt units_mbar = Some fmt_f16"
| "units_fmt units_mps = Some fmt_f16"
| "units_fmt units_mps_sq = Some fmt_s8"
| "units_fmt units_ms = None"
| "units_fmt units_N = Some fmt_f16"
| "units_fmt units_Nm = Some fmt_u8"
| "units_fmt units_Pa = Some fmt_f16"
| "units_fmt units_percent = Some fmt_u8"
| "units_fmt units_percentph = Some fmt_u8"
| "units_fmt units_rad_sq = Some fmt_u8_01"
| "units_fmt units_rpm = Some fmt_u16_10"
| "units_fmt units_rpmps = Some fmt_f16"
| "units_fmt units_s = None"
| "units_fmt units_min = None"
| "units_fmt units_su = Some fmt_s8_u"
| "units_fmt units_u = Some fmt_u8_u"
| "units_fmt units_V = Some fmt_f16"
| "units_fmt units_gps = Some fmt_a32"

fun type_fmt :: "type_id_e \<Rightarrow> fmt_e" where
  "type_fmt type_byte = fmt_u8"
| "type_fmt type_word = fmt_u16"
| "type_fmt type_dword = fmt_u32"
| "type_fmt type_real = fmt_f16"

definition default_fmt :: "type_id_e \<Rightarrow> units_e \<Rightarrow> fmt_e" where
  "default_fmt t u = (case units_fmt u of Some f \<Rightarrow> f | None \<Rightarrow> type_fmt t)"

definition default_seq :: "type_id_e \<Rightarrow> units_e \<Rightarrow> seq_e" where
  "default_seq t u = (case u of units_C \<Rightarrow> seq_rare | _ \<Rightarrow> seq_always)"

subsection \<open>The table of formats\<close>

text \<open>The bit fields of \<open>fmt_s\<close>, low bits first: uid 16, type 2, dataset 3, reserved 3, format 6, seq 2.\<close>

type_synonym fmt_s = u32

definition fmt_s_make :: "uid_t \<Rightarrow> u8 \<Rightarrow> u8 \<Rightarrow> u8 \<Rightarrow> u8 \<Rightarrow> fmt_s" where
  "fmt_s_make uid t ds f sq =
     ucast uid OR push_bit 16 (ucast t AND 3) OR push_bit 18 (ucast ds AND 7) OR push_bit 24 (ucast f AND 0x3F)
       OR push_bit 30 (ucast sq AND 3)"

definition fmts_uid :: "fmt_s \<Rightarrow> uid_t" where "fmts_uid x = ucast x"
definition fmts_type :: "fmt_s \<Rightarrow> u8" where "fmts_type x = ucast (drop_bit 16 x AND 3)"
definition fmts_ds :: "fmt_s \<Rightarrow> u8" where "fmts_ds x = ucast (drop_bit 18 x AND 7)"
definition fmts_fmt :: "fmt_s \<Rightarrow> u8" where "fmts_fmt x = ucast (drop_bit 24 x AND 0x3F)"
definition fmts_seq :: "fmt_s \<Rightarrow> u8" where "fmts_seq x = ucast (drop_bit 30 x AND 3)"

text \<open>The binary search; an access outside the list is \<open>None\<close>.\<close>

function lookup_loop :: "uid_t \<Rightarrow> fmt_s list \<Rightarrow> int \<Rightarrow> int \<Rightarrow> fmt_s option" where
  "lookup_loop uid xs l r =
     (if l \<le> r then
        let m = l + (r - l) div 2
        in if 0 \<le> m \<and> nat m < length xs then
             let vuid = fmts_uid (xs ! nat m)
             in if vuid = uid then Some (xs ! nat m)
                else if vuid < uid then lookup_loop uid xs (m + 1) r
                else lookup_loop uid xs l (m - 1)
           else None
      else if xs = [] then None else Some (xs ! 0))"
  by pat_completeness auto
termination
  by (relation "measure (\<lambda>(uid, xs, l, r). nat (r - l + 1))") auto

declare lookup_loop.simps [simp del]

definition fmt_lookup :: "uid_t \<Rightarrow> fmt_s list \<Rightarrow> int \<Rightarrow> fmt_s option" where
  "fmt_lookup uid xs sz = lookup_loop uid xs 0 (sz - 1)"

subsection \<open>Degrees\<close>

definition f64_1e_7 :: f64 where
  "f64_1e_7 = 0x3E7AD7F29ABCAF48"

definition f64_to_int32 :: "f64 \<Rightarrow> int option" where
  "f64_to_int32 v = (case f64_trunc v of
     None \<Rightarrow> None
   | Some i \<Rightarrow> if - (2 ^ 31) \<le> i \<and> i < 2 ^ 31 then Some i else None)"

definition deg_to_a32 :: "f64 \<Rightarrow> u32 option" where
  "deg_to_a32 v = map_option word_of_int (f64_to_int32 (f64_div v f64_1e_7))"

definition a32_to_deg :: "u32 \<Rightarrow> f64" where
  "a32_to_deg v = f64_mul (f64_of_int (sint v)) f64_1e_7"

end
