(* ===== verification/Mandala_Laws.thy ===== *)
theory Mandala_Laws
  imports Mandala_Base
begin

text \<open>
  What the Mandala data types promise: the binary search finds an element of a sorted table, an
  entry of the table keeps what was put into its bit fields, and values are transferred unchanged.
\<close>

unbundle bit_operations_syntax

subsection \<open>Enumerations\<close>

lemma type_of_code_inverse [simp]: "type_of_code (type_code t) = t"
  by (cases t) (simp_all add: type_of_code_def)

lemma seq_of_code_inverse [simp]: "seq_of_code (seq_code s) = s"
  by (cases s) (simp_all add: seq_of_code_def)

lemma fmt_of_code_inverse [simp]: "fmt_of_code (fmt_code f) = Some f"
  by (cases f) (simp_all add: fmt_of_code_def fmt_enum_def)

lemma fmt_code_small: "unat (fmt_code f) < 22"
  by (cases f) simp_all

lemma type_code_small: "type_code t AND 3 = type_code t"
  by (cases t) simp_all

lemma seq_code_small: "seq_code t AND 3 = seq_code t"
  by (cases t) simp_all

lemma fmt_code_mask: "fmt_code f AND 0x3F = fmt_code f"
  by (cases f) simp_all

lemma default_fmt_not_none: "default_fmt t u \<noteq> fmt_none"
  by (cases u; cases t) (simp_all add: default_fmt_def)

subsection \<open>Entries of the table\<close>

lemma mask_numerals: "(3 :: 'a::len word) = mask 2" "(7 :: 'a::len word) = mask 3" "(0x3F :: 'a::len word) = mask 6"
  by (simp_all add: mask_eq_exp_minus_1)

lemma fmts_uid_make [simp]: "fmts_uid (fmt_s_make uid t ds f sq) = uid"
  unfolding fmts_uid_def fmt_s_make_def mask_numerals by (rule bit_word_eqI) (auto simp: bit_simps)

lemma fmts_type_make [simp]: "fmts_type (fmt_s_make uid t ds f sq) = t AND 3"
  unfolding fmts_type_def fmt_s_make_def mask_numerals
  by (rule bit_word_eqI) (auto simp: bit_simps dest: bit_imp_le_length)

lemma fmts_ds_make [simp]: "fmts_ds (fmt_s_make uid t ds f sq) = ds AND 7"
  unfolding fmts_ds_def fmt_s_make_def mask_numerals
  by (rule bit_word_eqI) (auto simp: bit_simps dest: bit_imp_le_length)

lemma fmts_fmt_make [simp]: "fmts_fmt (fmt_s_make uid t ds f sq) = f AND 0x3F"
  unfolding fmts_fmt_def fmt_s_make_def mask_numerals
  by (rule bit_word_eqI) (auto simp: bit_simps dest: bit_imp_le_length)

lemma fmts_seq_make [simp]: "fmts_seq (fmt_s_make uid t ds f sq) = sq AND 3"
  unfolding fmts_seq_def fmt_s_make_def mask_numerals
  by (rule bit_word_eqI) (auto simp: bit_simps dest: bit_imp_le_length)

text \<open>
  An entry of the format table, as the generator builds it from a type and its units, gives
  back the uid, the type, the dataset, the format and the schedule, and the format is never
  \<open>fmt_none\<close>.
\<close>

theorem fmt_entry_fields:
  "let x = fmt_s_make uid (type_code t) (ds_code ds) (fmt_code (default_fmt t u)) (seq_code (default_seq t u))
   in fmts_uid x = uid \<and> type_of_code (fmts_type x) = t \<and> fmts_ds x = ds_code ds \<and>
      fmt_of_code (fmts_fmt x) = Some (default_fmt t u) \<and> default_fmt t u \<noteq> fmt_none \<and>
      seq_of_code (fmts_seq x) = default_seq t u"
  by (cases ds) (simp_all add: Let_def type_code_small seq_code_small fmt_code_mask default_fmt_not_none)

subsection \<open>The binary search\<close>

lemma sorted_uid_mono:
  "sorted (map fmts_uid xs) \<Longrightarrow> i \<le> j \<Longrightarrow> j < length xs \<Longrightarrow> fmts_uid (xs ! i) \<le> fmts_uid (xs ! j)"
  using sorted_nth_mono [of "map fmts_uid xs" i j] by simp

lemma lookup_loop_spec:
  assumes "sorted (map fmts_uid xs)" "xs \<noteq> []"
  shows "0 \<le> l \<Longrightarrow> r < int (length xs) \<Longrightarrow>
     \<forall>i<length xs. (int i < l \<longrightarrow> fmts_uid (xs ! i) < uid) \<and> (r < int i \<longrightarrow> uid < fmts_uid (xs ! i)) \<Longrightarrow>
     \<exists>x. lookup_loop uid xs l r = Some x \<and>
       (if uid \<in> fmts_uid ` set xs then x \<in> set xs \<and> fmts_uid x = uid else x = xs ! 0)"
proof (induction "nat (r - l + 1)" arbitrary: l r rule: less_induct)
  case less
  show ?case
  proof (cases "l \<le> r")
    case True
    define k where "k = nat (l + (r - l) div 2)"
    have k: "l + (r - l) div 2 = int k" "l \<le> int k" "int k \<le> r" "k < length xs"
      using True less.prems(1,2) by (auto simp: k_def)
    have step: "lookup_loop uid xs l r =
        (if fmts_uid (xs ! k) = uid then Some (xs ! k)
         else if fmts_uid (xs ! k) < uid then lookup_loop uid xs (int k + 1) r else lookup_loop uid xs l (int k - 1))"
      using True k(4) by (subst lookup_loop.simps) (simp add: k(1) Let_def)
    have mono: "i \<le> j \<Longrightarrow> j < length xs \<Longrightarrow> fmts_uid (xs ! i) \<le> fmts_uid (xs ! j)" for i j
      using sorted_uid_mono [OF assms(1)] .
    consider "fmts_uid (xs ! k) = uid" | "fmts_uid (xs ! k) < uid" | "uid < fmts_uid (xs ! k)" by (metis linorder_neqE)
    then show ?thesis
    proof cases
      case 1
      then show ?thesis using k(4) by (auto simp: step intro!: nth_mem)
    next
      case 2
      have low: "fmts_uid (xs ! i) < uid" if "int i < int k + 1" for i
        using mono [of i k] that 2 k(4) by simp
      have "\<exists>x. lookup_loop uid xs (int k + 1) r = Some x \<and>
         (if uid \<in> fmts_uid ` set xs then x \<in> set xs \<and> fmts_uid x = uid else x = xs ! 0)"
        using less.prems low k by (intro less.hyps) auto
      then show ?thesis using 2 by (simp add: step)
    next
      case 3
      have high: "uid < fmts_uid (xs ! i)" if "i < length xs" "int k - 1 < int i" for i
        using mono [of k i] that 3 by simp
      have "\<exists>x. lookup_loop uid xs l (int k - 1) = Some x \<and>
         (if uid \<in> fmts_uid ` set xs then x \<in> set xs \<and> fmts_uid x = uid else x = xs ! 0)"
        using less.prems high k by (intro less.hyps) auto
      moreover have "\<not> fmts_uid (xs ! k) < uid" "fmts_uid (xs ! k) \<noteq> uid" using 3 by auto
      ultimately show ?thesis by (simp only: step if_False)
    qed
  next
    case False
    have "fmts_uid (xs ! i) \<noteq> uid" if "i < length xs" for i
      using less.prems(3) that False by (cases "int i < l") auto
    then have "uid \<notin> fmts_uid ` set xs" by (metis imageE in_set_conv_nth)
    then show ?thesis using False assms(2) by (subst lookup_loop.simps) simp
  qed
qed

text \<open>
  C30: on a table sorted by uid the binary search stays inside the table and ends; it returns an
  element with the uid it looks for when there is one, and the first (dummy) element otherwise.
\<close>

theorem fmt_lookup_correct:
  assumes "xs \<noteq> []" "sorted (map fmts_uid xs)"
  shows "\<exists>x. fmt_lookup uid xs (int (length xs)) = Some x \<and>
    (if uid \<in> fmts_uid ` set xs then x \<in> set xs \<and> fmts_uid x = uid else x = xs ! 0)"
  unfolding fmt_lookup_def
  by (rule lookup_loop_spec [OF assms(2,1)]) auto

lemma fmt_lookup_correct_witness:
  "\<exists>x. fmt_lookup 7 [0, 5, 0x10007] (int (length [0, 5, 0x10007 :: fmt_s])) = Some x \<and>
    (if 7 \<in> fmts_uid ` set [0, 5, 0x10007] then x \<in> set [0, 5, 0x10007] \<and> fmts_uid x = 7 else x = [0, 5, 0x10007] ! 0)"
  by (rule fmt_lookup_correct) (simp_all add: fmts_uid_def)

subsection \<open>Values in streams\<close>

lemma ucast_down_up: "unat (v :: u32) < 2 ^ LENGTH('a::len) \<Longrightarrow> ucast (ucast v :: 'a word) = v"
  by (simp add: word_unat_eq_iff unsigned_ucast_eq take_bit_nat_eq_self unsigned_take_bit_eq)

lemma le_bytes_ucast:
  "8 * n \<le> LENGTH('a::len) \<Longrightarrow> le_bytes n (ucast (v :: 'b::len word) :: 'a word) = le_bytes n v"
proof (rule nth_equalityI)
  fix i assume n: "8 * n \<le> LENGTH('a)" and i: "i < length (le_bytes n (ucast v :: 'a word))"
  have "ucast (drop_bit (8 * i) (ucast v :: 'a word)) = (ucast (drop_bit (8 * i) v) :: u8)"
    using n i by (intro bit_word_eqI) (auto simp: bit_simps)
  then show "le_bytes n (ucast v :: 'a word) ! i = le_bytes n v ! i" using i by simp
qed simp

lemma gets_u8_cast: "gets (\<lambda>s. read_u8 s \<bind> (\<lambda>(v, s). Some (f v, s))) [v] (f v)"
  by (rule gets_last [OF gets_u8])

lemma gets_u16_cast: "gets (\<lambda>s. read_u16 s \<bind> (\<lambda>(v, s). Some (f v, s))) (le_bytes 2 v) (f v)"
  by (rule gets_last [OF gets_u16])

text \<open>
  C29: a value that its type can hold is written in as many bytes as the type has and read back
  unchanged, as \<open>dword_t\<close> for the integer types and as \<open>real_t\<close> for reals.
\<close>

theorem mandala_values_roundtrip:
  assumes "t \<noteq> type_real" "unat v < 2 ^ (8 * type_size t)"
  shows "puts (mandala_write_dword v t) (le_bytes (type_size t) v) \<and>
    gets (mandala_read_dword t) (le_bytes (type_size t) v) v \<and>
    puts (mandala_write_real x type_real) (le_bytes (type_size type_real) x) \<and>
    gets (mandala_read_real type_real) (le_bytes (type_size type_real) x) x"
proof -
  have eqs: "mandala_write_dword v type_byte = write_u8 (ucast v)" "mandala_write_dword v type_word = write_u16 (ucast v)"
    "mandala_write_dword v type_dword = write_u32 v" "mandala_write_real x type_real = write_u32 x"
    "mandala_read_dword type_byte = (\<lambda>s. read_u8 s \<bind> (\<lambda>(v, s). Some (ucast v, s)))"
    "mandala_read_dword type_word = (\<lambda>s. read_u16 s \<bind> (\<lambda>(v, s). Some (ucast v, s)))"
    "mandala_read_dword type_dword = read_u32" "mandala_read_real type_real = read_u32"
    by (rule ext, simp)+
  have "puts (mandala_write_dword v t) (le_bytes (type_size t) v) \<and> gets (mandala_read_dword t) (le_bytes (type_size t) v) v"
  proof (cases t)
    case type_byte
    have "ucast (ucast v :: u8) = v" using assms(2) type_byte by (intro ucast_down_up) simp
    moreover have "le_bytes 1 v = [ucast v]" by (simp add: le_bytes_def)
    ultimately show ?thesis
      using gets_u8_cast [of "ucast :: u8 \<Rightarrow> u32" "ucast v"] by (simp add: type_byte eqs puts_u8)
  next
    case type_word
    have "ucast (ucast v :: u16) = v" using assms(2) type_word by (intro ucast_down_up) simp
    moreover have "le_bytes 2 (ucast v :: u16) = le_bytes 2 v" by (rule le_bytes_ucast) simp
    ultimately show ?thesis
      using gets_u16_cast [of "ucast :: u16 \<Rightarrow> u32" "ucast v"] puts_u16 [of "ucast v"] by (simp add: type_word eqs)
  next
    case type_dword
    then show ?thesis by (simp add: eqs puts_u32 gets_u32)
  next
    case type_real
    then show ?thesis using assms(1) by simp
  qed
  then show ?thesis by (simp add: eqs puts_u32 gets_u32)
qed

lemma mandala_values_roundtrip_witness:
  "puts (mandala_write_dword 300 type_word) (le_bytes (type_size type_word) (300 :: u32)) \<and>
    gets (mandala_read_dword type_word) (le_bytes (type_size type_word) (300 :: u32)) 300 \<and>
    puts (mandala_write_real 0x3F800000 type_real) (le_bytes (type_size type_real) (0x3F800000 :: u32)) \<and>
    gets (mandala_read_real type_real) (le_bytes (type_size type_real) (0x3F800000 :: u32)) 0x3F800000"
  by (rule mandala_values_roundtrip) simp_all

subsection \<open>Degrees\<close>

text \<open>
  The conversion to \<open>a32\<close> truncates instead of rounding, so it is not the inverse of the
  conversion to degrees: 13 units come back as 12.
\<close>

theorem a32_drift: "deg_to_a32 (a32_to_deg 13) = Some 12"
  by code_simp

end
