(* ===== verification/Value_Pack.thy ===== *)
theory Value_Pack
  imports Mandala_Base
begin

text \<open>
  \<open>xbus/telemetry/TelemetryValuePack.h\<close> and \<open>TelemetryValueUnpack.h\<close>: the packed forms of the
  values in a telemetry stream.  A conversion that C leaves undefined (a real number out of the
  range of the integer type) is \<open>None\<close>.
\<close>

unbundle bit_operations_syntax

subsection \<open>Casts with limits\<close>

text \<open>A value of an integer type, or of type \<open>float\<close>.\<close>

datatype num = NInt int | NReal f32

definition limit :: "int \<Rightarrow> int \<Rightarrow> int \<Rightarrow> int" where
  "limit v vmin vmax = (if v < vmin then vmin else if v > vmax then vmax else v)"

definition in_range :: "int \<Rightarrow> int \<Rightarrow> int \<Rightarrow> int option" where
  "in_range lo hi i = (if lo \<le> i \<and> i \<le> hi then Some i else None)"

text \<open>\<open>(int32_t) v\<close>: unsigned values wrap, reals lose their fraction.\<close>

fun to_int32 :: "num \<Rightarrow> int option" where
  "to_int32 (NInt i) = Some (sint (word_of_int i :: u32))"
| "to_int32 (NReal f) = do { i \<leftarrow> f32_trunc f; in_range (- 2147483648) 2147483647 i }"

definition cast_s8 :: "num \<Rightarrow> u8 option" where
  "cast_s8 v = do { i \<leftarrow> to_int32 v; Some (word_of_int (limit i (- 128) 127)) }"

definition cast_u8 :: "num \<Rightarrow> u8 option" where
  "cast_u8 v = do { i \<leftarrow> to_int32 v; Some (word_of_int (limit i 0 255)) }"

definition cast_u16 :: "num \<Rightarrow> u16 option" where
  "cast_u16 v = do { i \<leftarrow> to_int32 v; Some (word_of_int (limit i 0 65535)) }"

fun cast_u32 :: "num \<Rightarrow> u32 option" where
  "cast_u32 (NInt i) = Some (if i < 0 then 0 else word_of_int i)"
| "cast_u32 (NReal f) = (if fl_negative (f32_dec f) then Some 0 else f32_to_word f)"

fun cast_float :: "num \<Rightarrow> f32" where
  "cast_float (NInt i) = f32_of_int i"
| "cast_float (NReal f) = (if f32_isnan f then 0 else f)"

fun raw_num :: "raw_t \<Rightarrow> type_id_e \<Rightarrow> num" where
  "raw_num raw type_byte = NInt (uint (ucast raw :: byte_t))"
| "raw_num raw type_word = NInt (uint (ucast raw :: word_t))"
| "raw_num raw type_dword = NInt (uint raw)"
| "raw_num raw type_real = NReal raw"

subsection \<open>Half precision\<close>

text \<open>\<open>float_to_f16\<close>; its argument is given by its bits.\<close>

definition float_to_f16 :: "f32 \<Rightarrow> u16" where
  "float_to_f16 v =
     (if fl_zero (f32_dec v) then 0
      else
        let x = (if f32_isnan v then 0 else v)
        in if x AND 0x7FFFFFFF = 0 then ucast (drop_bit 16 x)
           else
             let xs = x AND 0x80000000; xe = x AND 0x7F800000; xm = x AND 0x007FFFFF
             in if xe = 0 then ucast (drop_bit 16 xs)
                else if xe = 0x7F800000 then
                  if xm = 0 then ucast (drop_bit 16 xs OR 0x7C00) else 0xFE00
                else
                  let hs = ucast (drop_bit 16 xs) :: u16;
                      hes = sint (ucast (drop_bit 23 xe - 127 + 15) :: u16)
                  in if hes \<ge> 0x1F then ucast (drop_bit 16 xs OR 0x7C00)
                     else if hes \<le> 0 then
                       if 14 - hes > 24 then hs
                       else
                         let xm = xm OR 0x00800000;
                             hm = ucast (drop_bit (nat (14 - hes)) xm) :: u16;
                             hm = (if drop_bit (nat (13 - hes)) xm AND 1 \<noteq> 0 then hm + 1 else hm)
                         in hs OR hm
                     else
                       let he = word_of_int (hes * 1024) :: u16; hm = ucast (drop_bit 13 xm) :: u16
                       in if xm AND 0x1000 \<noteq> 0 then (hs OR he OR hm) + 1 else hs OR he OR hm)"

text \<open>The loop of \<open>float_from_f16\<close> that shifts the leading bit of a denormal into place.\<close>

partial_function (option) f16_shift :: "int \<Rightarrow> u16 \<Rightarrow> (int \<times> u16) option" where
  "f16_shift e hm =
     (let e = e + 1; hm = push_bit 1 hm
      in if hm AND 0x0400 = 0 then f16_shift e hm else Some (e, hm))"

definition f16_bits :: "u16 \<Rightarrow> u32 option" where
  "f16_bits v =
     (if v AND 0x7FFF = 0 then Some (push_bit 16 (ucast v))
      else
        let hs = v AND 0x8000; he = v AND 0x7C00; hm = v AND 0x03FF; xs = push_bit 16 (ucast hs) :: u32
        in if he = 0 then do {
             (e, hm) \<leftarrow> f16_shift (- 1) hm;
             let xes = uint (drop_bit 10 he) - 15 + 127 - e;
             let xe = (push_bit 23 (word_of_int xes) :: u32);
             let xm = (push_bit 13 (ucast (hm AND 0x03FF)) :: u32);
             Some (xs OR xe OR xm)
           }
           else if he = 0x7C00 then Some (if hm = 0 then xs OR 0x7F800000 else 0xFFC00000)
           else
             let xes = uint (drop_bit 10 he) - 15 + 127;
                 xe = push_bit 23 (word_of_int xes) :: u32;
                 xm = push_bit 13 (ucast hm) :: u32
             in Some (xs OR xe OR xm))"

definition float_from_f16 :: "u16 \<Rightarrow> f32 option" where
  "float_from_f16 v =
     (if v = 0 then Some 0
      else do { f \<leftarrow> f16_bits v; Some (if f32_isnan f then 0 else f) })"

subsection \<open>Angles\<close>

definition f32_PI :: f32 where "f32_PI = 0x40490FDB"
definition f32_PI_2 :: f32 where "f32_PI_2 = 0x3FC90FDB"

text \<open>\<open>float_to_angle<T>\<close> for an integer type with the limits \<open>lo\<close> and \<open>hi\<close>.\<close>

definition float_to_angle :: "int \<Rightarrow> int \<Rightarrow> f32 \<Rightarrow> f32 \<Rightarrow> int option" where
  "float_to_angle lo hi v span = do {
     let dspan = f32_mul span (f32_of_int 2);
     let a = f32_sub v (f32_mul (f32_floor (f32_add (f32_div v dspan) 0x3F000000)) dspan);
     i \<leftarrow> f32_trunc (f32_mul a (f32_div (f32_of_int hi) span));
     in_range lo hi i
   }"

definition float_from_angle :: "int \<Rightarrow> int \<Rightarrow> f32 \<Rightarrow> f32" where
  "float_from_angle hi v span = f32_div (f32_of_int v) (f32_div (f32_of_int hi) span)"

subsection \<open>pack_value\<close>

text \<open>The quotient of \<open>int32_t\<close> values, rounded towards zero.\<close>

definition quot :: "int \<Rightarrow> int \<Rightarrow> int" where
  "quot a b = (if a < 0 then - ((- a) div b) else a div b)"

definition pack8 :: "u8 option \<Rightarrow> bytes option" where
  "pack8 v = map_option (\<lambda>x. [x]) v"

definition pack16 :: "u16 option \<Rightarrow> bytes option" where
  "pack16 v = map_option (le_bytes 2) v"

definition pack32 :: "u32 option \<Rightarrow> bytes option" where
  "pack32 v = map_option (le_bytes 4) v"

definition scaled :: "raw_t \<Rightarrow> type_id_e \<Rightarrow> int \<Rightarrow> num" where
  "scaled raw t k = NReal (f32_mul (cast_float (raw_num raw t)) (f32_of_int k))"

definition quot10 :: "raw_t \<Rightarrow> type_id_e \<Rightarrow> num option" where
  "quot10 raw t = do { i \<leftarrow> to_int32 (raw_num raw t); Some (NInt (quot i 10)) }"

text \<open>The bytes stored at \<open>dest\<close>; their number is the result of the function.\<close>

fun pack_fmt :: "raw_t \<Rightarrow> type_id_e \<Rightarrow> fmt_e \<Rightarrow> bytes option" where
  "pack_fmt raw t fmt_none = Some []"
| "pack_fmt raw t fmt_bit = Some []"
| "pack_fmt raw t fmt_f32 = pack32 (Some (cast_float (raw_num raw t)))"
| "pack_fmt raw t fmt_u32 = pack32 (cast_u32 (raw_num raw t))"
| "pack_fmt raw t fmt_a32 = pack32 (cast_u32 (raw_num raw t))"
| "pack_fmt raw t fmt_u16 = pack16 (cast_u16 (raw_num raw t))"
| "pack_fmt raw t fmt_u4 = pack8 (cast_u8 (raw_num raw t))"
| "pack_fmt raw t fmt_u8 = pack8 (cast_u8 (raw_num raw t))"
| "pack_fmt raw t fmt_f16 = pack16 (Some (float_to_f16 (cast_float (raw_num raw t))))"
| "pack_fmt raw t fmt_s8 = pack8 (cast_s8 (raw_num raw t))"
| "pack_fmt raw t fmt_s8_10 = pack8 (obind (quot10 raw t) cast_s8)"
| "pack_fmt raw t fmt_s8_01 = pack8 (cast_s8 (scaled raw t 10))"
| "pack_fmt raw t fmt_s8_001 = pack8 (cast_s8 (scaled raw t 100))"
| "pack_fmt raw t fmt_u8_10 = pack8 (obind (quot10 raw t) cast_u8)"
| "pack_fmt raw t fmt_u8_01 = pack8 (cast_u8 (scaled raw t 10))"
| "pack_fmt raw t fmt_u8_001 = pack8 (cast_u8 (scaled raw t 100))"
| "pack_fmt raw t fmt_s16_rad =
     pack16 (map_option word_of_int (float_to_angle (- 32768) 32767 (cast_float (raw_num raw t)) f32_PI))"
| "pack_fmt raw t fmt_s16_rad2 =
     pack16 (map_option word_of_int (float_to_angle (- 32768) 32767 (cast_float (raw_num raw t)) f32_PI_2))"
| "pack_fmt raw t fmt_s8_rad =
     pack8 (map_option word_of_int (float_to_angle (- 128) 127 (cast_float (raw_num raw t)) f32_PI))"
| "pack_fmt raw t fmt_u8_u = pack8 (cast_u8 (scaled raw t 255))"
| "pack_fmt raw t fmt_s8_u = pack8 (cast_s8 (scaled raw t 127))"
| "pack_fmt raw t fmt_u16_10 =
     pack16 (obind (cast_u32 (raw_num raw t)) (\<lambda>w. cast_u16 (NInt (uint (w div 10)))))"

definition pack_value :: "raw_t \<Rightarrow> type_id_e \<Rightarrow> u8 \<Rightarrow> bytes option" where
  "pack_value raw t fmt = (case fmt_of_code fmt of None \<Rightarrow> Some [] | Some f \<Rightarrow> pack_fmt raw t f)"

subsection \<open>unpack_value\<close>

text \<open>
  \<open>n\<close> bytes are taken from the memory \<open>mem\<close> at \<open>src\<close> when \<open>sz\<close> (\<open>size\<close>) has them; the result is the
  number of bytes used, the new value and its type.
\<close>

type_synonym unpacked = "nat \<times> raw_t \<times> type_id_e"

definition unpack_bytes ::
  "nat \<Rightarrow> bytes \<Rightarrow> nat \<Rightarrow> raw_t \<Rightarrow> type_id_e \<Rightarrow> (bytes \<Rightarrow> raw_t option) \<Rightarrow> unpacked option" where
  "unpack_bytes n mem sz dest t f =
     (if sz < n then Some (0, dest, t)
      else if n \<le> length mem then map_option (\<lambda>v. (n, v, t)) (f (take n mem)) else None)"

text \<open>A value narrower than \<open>raw_t\<close> replaces the low bytes of \<open>dest\<close>.\<close>

definition put_low :: "nat \<Rightarrow> raw_t \<Rightarrow> raw_t \<Rightarrow> raw_t" where
  "put_low n v dest = (dest AND NOT (mask (8 * n))) OR (v AND mask (8 * n))"

definition s8_of :: "bytes \<Rightarrow> int" where "s8_of bs = sint (of_le bs :: u8)"
definition u8_of :: "bytes \<Rightarrow> int" where "u8_of bs = uint (of_le bs :: u8)"
definition s16_of :: "bytes \<Rightarrow> int" where "s16_of bs = sint (of_le bs :: u16)"
definition u16_of :: "bytes \<Rightarrow> int" where "u16_of bs = uint (of_le bs :: u16)"

text \<open>\<open>1.f / k\<close>\<close>

definition per :: "int \<Rightarrow> f32" where
  "per k = f32_div (f32_of_int 1) (f32_of_int k)"

fun unpack_fmt :: "bytes \<Rightarrow> raw_t \<Rightarrow> type_id_e \<Rightarrow> nat \<Rightarrow> fmt_e \<Rightarrow> unpacked option" where
  "unpack_fmt mem dest t sz fmt_none = Some (0, dest, t)"
| "unpack_fmt mem dest t sz fmt_bit = Some (0, dest, t)"
| "unpack_fmt mem dest t sz fmt_f32 = unpack_bytes 4 mem sz dest type_real (\<lambda>bs. Some (of_le bs))"
| "unpack_fmt mem dest t sz fmt_u32 = unpack_bytes 4 mem sz dest type_dword (\<lambda>bs. Some (of_le bs))"
| "unpack_fmt mem dest t sz fmt_a32 = unpack_bytes 4 mem sz dest type_dword (\<lambda>bs. Some (of_le bs))"
| "unpack_fmt mem dest t sz fmt_u16 = unpack_bytes 2 mem sz dest type_word (\<lambda>bs. Some (put_low 2 (of_le bs) dest))"
| "unpack_fmt mem dest t sz fmt_u4 = unpack_bytes 1 mem sz dest type_byte (\<lambda>bs. Some (put_low 1 (of_le bs) dest))"
| "unpack_fmt mem dest t sz fmt_u8 = unpack_bytes 1 mem sz dest type_byte (\<lambda>bs. Some (put_low 1 (of_le bs) dest))"
| "unpack_fmt mem dest t sz fmt_f16 = unpack_bytes 2 mem sz dest type_real (\<lambda>bs. float_from_f16 (of_le bs))"
| "unpack_fmt mem dest t sz fmt_s8 = unpack_bytes 1 mem sz dest type_real (\<lambda>bs. Some (f32_of_int (s8_of bs)))"
| "unpack_fmt mem dest t sz fmt_s8_10 =
     unpack_bytes 1 mem sz dest type_real (\<lambda>bs. Some (f32_mul (f32_of_int (s8_of bs)) (f32_of_int 10)))"
| "unpack_fmt mem dest t sz fmt_s8_01 =
     unpack_bytes 1 mem sz dest type_real (\<lambda>bs. Some (f32_mul (f32_of_int (s8_of bs)) (per 10)))"
| "unpack_fmt mem dest t sz fmt_s8_001 =
     unpack_bytes 1 mem sz dest type_real (\<lambda>bs. Some (f32_mul (f32_of_int (s8_of bs)) (per 100)))"
| "unpack_fmt mem dest t sz fmt_u8_10 =
     unpack_bytes 1 mem sz dest type_dword (\<lambda>bs. Some (of_le bs * 10))"
| "unpack_fmt mem dest t sz fmt_u8_01 =
     unpack_bytes 1 mem sz dest type_real (\<lambda>bs. Some (f32_mul (f32_of_int (u8_of bs)) (per 10)))"
| "unpack_fmt mem dest t sz fmt_u8_001 =
     unpack_bytes 1 mem sz dest type_real (\<lambda>bs. Some (f32_mul (f32_of_int (u8_of bs)) (per 100)))"
| "unpack_fmt mem dest t sz fmt_s16_rad =
     unpack_bytes 2 mem sz dest type_real (\<lambda>bs. Some (float_from_angle 32767 (s16_of bs) f32_PI))"
| "unpack_fmt mem dest t sz fmt_s16_rad2 =
     unpack_bytes 2 mem sz dest type_real (\<lambda>bs. Some (float_from_angle 32767 (s16_of bs) f32_PI_2))"
| "unpack_fmt mem dest t sz fmt_s8_rad =
     unpack_bytes 1 mem sz dest type_real (\<lambda>bs. Some (float_from_angle 127 (s8_of bs) f32_PI))"
| "unpack_fmt mem dest t sz fmt_u8_u =
     unpack_bytes 1 mem sz dest type_real (\<lambda>bs. Some (f32_mul (f32_of_int (u8_of bs)) (per 255)))"
| "unpack_fmt mem dest t sz fmt_s8_u =
     unpack_bytes 1 mem sz dest type_real (\<lambda>bs. Some (f32_mul (f32_of_int (s8_of bs)) (per 127)))"
| "unpack_fmt mem dest t sz fmt_u16_10 =
     unpack_bytes 2 mem sz dest type_dword (\<lambda>bs. Some (of_le bs * 10))"

definition unpack_value :: "bytes \<Rightarrow> raw_t \<Rightarrow> type_id_e \<Rightarrow> u8 \<Rightarrow> nat \<Rightarrow> unpacked option" where
  "unpack_value mem dest t fmt sz =
     (case fmt_of_code fmt of None \<Rightarrow> Some (0, dest, t) | Some f \<Rightarrow> unpack_fmt mem dest t sz f)"

end
