(* ===== verification/Telemetry_Format.thy ===== *)
theory Telemetry_Format
  imports Value_Pack Crc32
begin

text \<open>
  \<open>xbus/telemetry/TelemetryFormat.h\<close>: the constants of the stream, the field descriptor, the
  headers, and the dataset of the transponder.  What the build generates from the dictionary (the
  table of formats and the uids) is a record of parameters.
\<close>

unbundle bit_operations_syntax

subsection \<open>Generated parameters\<close>

record dictionary =
  g_entries :: "fmt_s list"
  g_lat :: uid_t
  g_lon :: uid_t
  g_hmsl :: uid_t
  g_speed :: uid_t
  g_bearing :: uid_t
  g_vspeed :: uid_t
  g_mode :: uid_t
  g_xpdr :: uid_t

text \<open>The table starts with an empty element; \<open>mandala::fmt(uid)\<close> searches it.\<close>

definition fmt_list :: "dictionary \<Rightarrow> fmt_s list" where
  "fmt_list D = 0 # g_entries D"

definition mandala_fmt :: "dictionary \<Rightarrow> uid_t \<Rightarrow> fmt_s option" where
  "mandala_fmt D uid = fmt_lookup uid (fmt_list D) (int (length (fmt_list D)))"

subsection \<open>Constants and field descriptors\<close>

definition fmt_version :: u8 where "fmt_version = 2"
definition fmt_block_size :: nat where "fmt_block_size = 64"
definition slots_size :: nat where "slots_size = 240"

record field_s =
  f_pid :: pid_s
  f_fmt :: u8

definition field_size :: nat where "field_size = 3"

text \<open>The packed structure in memory.\<close>

definition field_bytes :: "field_s \<Rightarrow> bytes" where
  "field_bytes f = le_bytes 2 (f_pid f) @ [f_fmt f]"

definition field_of_bytes :: "bytes \<Rightarrow> field_s" where
  "field_of_bytes bs = \<lparr> f_pid = of_le (take 2 bs), f_fmt = bs ! 2 \<rparr>"

definition fields_bytes :: "field_s list \<Rightarrow> bytes" where
  "fields_bytes fs = concat (map field_bytes fs)"

definition field_uid :: "field_s \<Rightarrow> u16" where "field_uid f = pid_uid (f_pid f)"

definition is_fmt :: "fmt_e \<Rightarrow> field_s \<Rightarrow> bool" where
  "is_fmt fmt f \<longleftrightarrow> f_fmt f = fmt_code fmt"

text \<open>\<open>hash_s\<close> is the word and its bytes.\<close>

definition hash_byte :: "u32 \<Rightarrow> u8 \<Rightarrow> u8" where
  "hash_byte h i = ucast (drop_bit (8 * unat i) h)"

definition hash_set_byte :: "u8 \<Rightarrow> u8 \<Rightarrow> u32 \<Rightarrow> u32" where
  "hash_set_byte i v h = (h AND NOT (push_bit (8 * unat i) 0xFF)) OR push_bit (8 * unat i) (ucast v)"

text \<open>The fields that are due in a frame with the sequence number \<open>pseq\<close>.\<close>

definition seq_skipped :: "u8 \<Rightarrow> field_s \<Rightarrow> bool" where
  "seq_skipped pseq f = (case seq_of_code (pid_seq (f_pid f)) of
     seq_always \<Rightarrow> False
   | seq_skip \<Rightarrow> pseq AND 1 \<noteq> 0
   | seq_rare \<Rightarrow> pseq AND 3 \<noteq> 0
   | seq_scheduled \<Rightarrow> False)"

subsection \<open>Headers\<close>

record hdr_s =
  hdr_ts :: u16
  hdr_feed_hash :: u8

definition ts2ms :: nat where "ts2ms = 20"
definition hdr_psize :: nat where "hdr_psize = 3"

definition hdr_read :: "hdr_s \<Rightarrow> reader \<Rightarrow> (hdr_s \<times> reader) option" where
  "hdr_read old s = do {
     (a, s) \<leftarrow> read_u16 s;
     (b, s) \<leftarrow> read_u8 s;
     Some (old\<lparr> hdr_ts := a, hdr_feed_hash := b \<rparr>, s) }"

definition hdr_write :: "hdr_s \<Rightarrow> writer \<Rightarrow> (unit \<times> writer) option" where
  "hdr_write x s = do {
     (_, s) \<leftarrow> write_u16 (hdr_ts x) s;
     (_, s) \<leftarrow> write_u8 (hdr_feed_hash x) s;
     Some ((), s) }"

record format_req_s =
  req_version :: u8
  req_part :: u8

definition req_psize :: nat where "req_psize = 2"

definition req_read :: "format_req_s \<Rightarrow> reader \<Rightarrow> (format_req_s \<times> reader) option" where
  "req_read old s = do {
     (a, s) \<leftarrow> read_u8 s;
     (b, s) \<leftarrow> read_u8 s;
     Some (old\<lparr> req_version := a, req_part := b \<rparr>, s) }"

definition req_write :: "format_req_s \<Rightarrow> writer \<Rightarrow> (unit \<times> writer) option" where
  "req_write x s = do {
     (_, s) \<leftarrow> write_u8 (req_version x) s;
     (_, s) \<leftarrow> write_u8 (req_part x) s;
     Some ((), s) }"

record format_resp_hdr_s =
  resp_version :: u8
  resp_part :: u8
  resp_pcnt :: u8
  resp_psz :: u8
  resp_hash :: u32

definition resp_psize :: nat where "resp_psize = 8"

definition resp_read :: "format_resp_hdr_s \<Rightarrow> reader \<Rightarrow> (format_resp_hdr_s \<times> reader) option" where
  "resp_read old s = do {
     (a, s) \<leftarrow> read_u8 s;
     (b, s) \<leftarrow> read_u8 s;
     (c, s) \<leftarrow> read_u8 s;
     (d, s) \<leftarrow> read_u8 s;
     (e, s) \<leftarrow> read_u32 s;
     Some (old\<lparr> resp_version := a, resp_part := b, resp_pcnt := c, resp_psz := d, resp_hash := e \<rparr>, s) }"

definition resp_write :: "format_resp_hdr_s \<Rightarrow> writer \<Rightarrow> (unit \<times> writer) option" where
  "resp_write x s = do {
     (_, s) \<leftarrow> write_u8 (resp_version x) s;
     (_, s) \<leftarrow> write_u8 (resp_part x) s;
     (_, s) \<leftarrow> write_u8 (resp_pcnt x) s;
     (_, s) \<leftarrow> write_u8 (resp_psz x) s;
     (_, s) \<leftarrow> write_u32 (resp_hash x) s;
     Some ((), s) }"

subsection \<open>Transponder data\<close>

definition xpdr_version :: u8 where "xpdr_version = 1"

definition xpdr_size :: nat where "xpdr_size = 7"

definition xpdr_uids :: "dictionary \<Rightarrow> uid_t list" where
  "xpdr_uids D = [g_lat D, g_lon D, g_hmsl D, g_speed D, g_bearing D, g_vspeed D, g_mode D]"

text \<open>The formats: those of the table, but for bearing and vertical speed.\<close>

definition xpdr_fmts :: "dictionary \<Rightarrow> u8 list option" where
  "xpdr_fmts D = do {
     a \<leftarrow> mandala_fmt D (g_lat D);
     b \<leftarrow> mandala_fmt D (g_lon D);
     c \<leftarrow> mandala_fmt D (g_hmsl D);
     d \<leftarrow> mandala_fmt D (g_speed D);
     g \<leftarrow> mandala_fmt D (g_mode D);
     Some [fmts_fmt a, fmts_fmt b, fmts_fmt c, fmts_fmt d, fmt_code fmt_s8_rad, fmt_code fmt_s8, fmts_fmt g]
   }"

end
