(* ===== verification/Telemetry_Encoder.thy ===== *)
theory Telemetry_Encoder
  imports Telemetry_Format
begin

text \<open>
  \<open>xbus/telemetry/TelemetryEncoder.h\<close> and \<open>TelemetryEncoder.cpp\<close>.  The arrays of 240 slots are
  lists; an access past their end is \<open>None\<close>, as is a store past the end of the stream's memory.
  Pointers into the stream are offsets in its buffer.
\<close>

unbundle bit_operations_syntax

subsection \<open>The encoder\<close>

record enc_flags_s =
  ef_type :: type_id_e
  ef_upd :: bool
  ef_aux :: bool
  ef_to :: u8

record encoder =
  e_hash :: u32
  e_fields :: "field_s list"
  e_flags :: "enc_flags_s list"
  e_value :: "raw_t list"
  e_packed :: "raw_t list"
  e_cnt :: nat
  e_upd_cnt :: nat
  e_enforced :: nat
  e_sync :: nat
  e_inserted :: int
  e_xpdr :: bytes

definition no_flags :: enc_flags_s where
  "no_flags = \<lparr> ef_type = type_byte, ef_upd = False, ef_aux = False, ef_to = 0 \<rparr>"

definition no_field :: field_s where
  "no_field = \<lparr> f_pid = 0, f_fmt = 0 \<rparr>"

text \<open>\<open>_update_feeds\<close>: the checksum of the descriptors in use.\<close>

definition update_feeds :: "encoder \<Rightarrow> encoder" where
  "update_feeds e = e\<lparr> e_hash := crc32 (fields_bytes (take (e_cnt e) (e_fields e))) (ucast fmt_version) \<rparr>"

definition enc_clear :: "encoder \<Rightarrow> encoder" where
  "enc_clear e =
     (let e = e\<lparr> e_cnt := 0, e_upd_cnt := 0, e_sync := 0,
                e_fields := replicate slots_size no_field, e_flags := replicate slots_size no_flags,
                e_value := replicate slots_size 0, e_packed := replicate slots_size 0 \<rparr>
      in (update_feeds e)\<lparr> e_xpdr := replicate xpdr_size 0xFF \<rparr>)"

text \<open>The constructor clears; \<open>_inserted_index\<close> is what memory holds.\<close>

definition enc_make :: "int \<Rightarrow> encoder" where
  "enc_make ins = enc_clear \<lparr> e_hash = 0, e_fields = [], e_flags = [], e_value = [], e_packed = [], e_cnt = 0,
     e_upd_cnt = 0, e_enforced = 0, e_sync = 0, e_inserted = ins, e_xpdr = [] \<rparr>"

fun lookup_from :: "uid_t \<Rightarrow> field_s list \<Rightarrow> nat list \<Rightarrow> int" where
  "lookup_from uid fs [] = - 1"
| "lookup_from uid fs (i # is) = (if field_uid (fs ! i) = uid then int i else lookup_from uid fs is)"

definition slot_lookup :: "uid_t \<Rightarrow> encoder \<Rightarrow> int" where
  "slot_lookup uid e = lookup_from uid (e_fields e) [0..<e_cnt e]"

subsection \<open>Adding a field\<close>

text \<open>The loops of \<open>add\<close> step \<open>index\<close> up to the first field that stops them.\<close>

function scan :: "(field_s \<Rightarrow> bool) \<Rightarrow> field_s list \<Rightarrow> nat \<Rightarrow> nat \<Rightarrow> nat" where
  "scan stop fs cnt index =
     (if index < cnt then if stop (fs ! index) then index else scan stop fs cnt (index + 1) else index)"
  by pat_completeness auto
termination
  by (relation "measure (\<lambda>(stop, fs, cnt, index). cnt - index)") auto

declare scan.simps [simp del]

definition sorted_index :: "field_s \<Rightarrow> field_s list \<Rightarrow> nat \<Rightarrow> nat" where
  "sorted_index field fs cnt =
     (if is_fmt fmt_bit field then
        let index = scan (is_fmt fmt_bit) fs cnt 0
        in scan (\<lambda>f. field_uid f > field_uid field) fs cnt index
      else if is_fmt fmt_u4 field then
        let index = scan (\<lambda>f. is_fmt fmt_bit f \<or> is_fmt fmt_u4 f) fs cnt 0
        in scan (\<lambda>f. is_fmt fmt_bit f \<or> field_uid f > field_uid field) fs cnt index
      else scan (\<lambda>f. is_fmt fmt_bit f \<or> is_fmt fmt_u4 f \<or> field_uid f > field_uid field) fs cnt 0)"

text \<open>The upper half moves up by one, from \<open>dest\<close> down to \<open>index + 1\<close>.\<close>

fun shift_up :: "nat \<Rightarrow> nat \<Rightarrow> 'a list \<Rightarrow> 'a list" where
  "shift_up index 0 xs = xs"
| "shift_up index (Suc dest) xs =
     (if Suc dest > index then shift_up index dest (xs[Suc dest := xs ! dest]) else xs)"

definition enc_insert :: "nat \<Rightarrow> field_s \<Rightarrow> encoder \<Rightarrow> encoder" where
  "enc_insert index field e =
     (let e = (if index < e_cnt e then
                 e\<lparr> e_fields := shift_up index (e_cnt e) (e_fields e), e_flags := shift_up index (e_cnt e) (e_flags e),
                    e_value := shift_up index (e_cnt e) (e_value e), e_packed := shift_up index (e_cnt e) (e_packed e) \<rparr>
               else e);
          e = e\<lparr> e_fields := (e_fields e)[index := field], e_flags := (e_flags e)[index := no_flags],
                e_value := (e_value e)[index := 0], e_packed := (e_packed e)[index := 0], e_cnt := e_cnt e + 1 \<rparr>
      in update_feeds e)"

text \<open>The index of the slot with a uid of the transponder's dataset; what it was when there is none.\<close>

definition xpdr_index :: "encoder \<Rightarrow> uid_t \<Rightarrow> u8 \<Rightarrow> u8" where
  "xpdr_index e uid old = (let j = slot_lookup uid e in if j < 0 then old else word_of_int j)"

definition enc_add :: "dictionary \<Rightarrow> field_s \<Rightarrow> encoder \<Rightarrow> bool \<times> encoder" where
  "enc_add D field e =
     (let e = e\<lparr> e_inserted := - 1 \<rparr>
      in if e_cnt e \<ge> slots_size then (False, e)
         else if slot_lookup (field_uid field) e \<ge> 0 then (True, e)
         else
           let index = sorted_index field (e_fields e) (e_cnt e);
               e = (enc_insert index field e)\<lparr> e_inserted := int index \<rparr>;
               e = e\<lparr> e_upd_cnt := scan (is_fmt fmt_bit) (e_fields e) (e_cnt e) 0 \<rparr>
           in (True, e\<lparr> e_xpdr := map2 (xpdr_index e) (xpdr_uids D) (e_xpdr e) \<rparr>))"

subsection \<open>Updating values\<close>

definition set_data :: "nat \<Rightarrow> raw_t \<Rightarrow> type_id_e \<Rightarrow> encoder \<Rightarrow> encoder option" where
  "set_data n raw t e =
     (if n < slots_size then
        let flags = (e_flags e ! n)\<lparr> ef_to := 0 \<rparr>
        in if e_value e ! n = raw \<and> ef_type flags = t then Some (e\<lparr> e_flags := (e_flags e)[n := flags] \<rparr>)
           else
             let flags = flags\<lparr> ef_type := t \<rparr>;
                 flags = (if pid_seq (f_pid (e_fields e ! n)) \<noteq> seq_code seq_scheduled
                          then flags\<lparr> ef_upd := True \<rparr> else flags)
             in Some (e\<lparr> e_value := (e_value e)[n := raw], e_flags := (e_flags e)[n := flags] \<rparr>)
      else None)"

datatype result_e = ok | skipped | synced | sync_ovf

definition enc_update :: "dictionary \<Rightarrow> pid_s \<Rightarrow> raw_t \<Rightarrow> type_id_e \<Rightarrow> bool \<Rightarrow> encoder \<Rightarrow> (result_e \<times> encoder) option" where
  "enc_update D pid raw t sync e =
     (let uid = pid_uid pid; idx = slot_lookup uid e
      in if idx \<ge> 0 then do { e \<leftarrow> set_data (nat idx) raw t e; Some (ok, e) }
         else if \<not> sync then Some (skipped, e)
         else
           let pos = e_cnt e + e_sync e;
               i = lookup_from uid (e_fields e) [e_cnt e..<min pos slots_size]
           in if i \<ge> 0 then do {
                e \<leftarrow> set_data (nat i) raw t e;
                Some (if pos \<ge> slots_size then sync_ovf else skipped, e)
              }
              else if pos > slots_size then None
              else if pos \<ge> slots_size then Some (sync_ovf, e)
              else do {
                fmt \<leftarrow> mandala_fmt D uid;
                if fmts_ds fmt = ds_code ds_aux then Some (skipped, e)
                else do {
                  let pos = pos + 1;
                  let e = e\<lparr> e_sync := e_sync e + 1 \<rparr>;
                  let f = \<lparr> f_pid = pid_make uid (pri_code pri_final) (fmts_seq fmt), f_fmt = fmts_fmt fmt \<rparr>;
                  e \<leftarrow> (if pos < slots_size then Some (e\<lparr> e_fields := (e_fields e)[pos := f] \<rparr>) else None);
                  e \<leftarrow> set_data pos raw t e;
                  Some (if pos \<ge> slots_size then sync_ovf else synced, e)
                }
              })"

fun flush_loop :: "dictionary \<Rightarrow> nat list \<Rightarrow> encoder \<Rightarrow> encoder option" where
  "flush_loop D [] e = Some e"
| "flush_loop D (i # is) e =
     (if i < slots_size then
        let f = e_fields e ! i; flags = e_flags e ! i; val = e_value e ! i; packed = e_packed e ! i;
            (added, e) = enc_add D f e
        in if \<not> added then Some e
           else
             let dest = nat (e_inserted e)
             in flush_loop D is
                  (if e_inserted e \<ge> 0
                   then e\<lparr> e_flags := (e_flags e)[dest := flags], e_value := (e_value e)[dest := val],
                          e_packed := (e_packed e)[dest := packed] \<rparr>
                   else e)
      else None)"

definition sync_flush :: "dictionary \<Rightarrow> encoder \<Rightarrow> encoder option" where
  "sync_flush D e = do {
     e \<leftarrow> flush_loop D [e_cnt e..<e_cnt e + e_sync e] e;
     Some (e\<lparr> e_sync := 0 \<rparr>)
   }"

subsection \<open>Encoding\<close>

text \<open>
  The state of \<open>encode_values\<close>.  The local \<open>raw\<close> of the loop is not initialised, and \<open>pack_value\<close>
  stores the low bytes only: the argument \<open>junk\<close> is what the others hold in the pass of a slot.
\<close>

record enc_loop =
  l_w :: writer
  l_count :: nat
  l_data :: nat
  l_code :: nat
  l_bit :: u8
  l_zero :: u8
  l_first :: u8
  l_nibble :: nat
  l_nibble_n :: u8

text \<open>A store through a pointer into the stream's buffer.\<close>

definition poke :: "nat \<Rightarrow> (u8 \<Rightarrow> u8) \<Rightarrow> writer \<Rightarrow> writer option" where
  "poke i f w = (if i < length (w_buf w) then Some (w\<lparr> w_buf := (w_buf w)[i := f (w_buf w ! i)] \<rparr>) else None)"

definition with_junk :: "bytes \<Rightarrow> raw_t \<Rightarrow> raw_t" where
  "with_junk bs r = of_le (bs @ drop (length bs) (le_bytes 4 r))"

text \<open>The loop that writes the offsets of a skip.\<close>

function offset_loop :: "u8 \<Rightarrow> u8 \<Rightarrow> writer \<Rightarrow> writer option" where
  "offset_loop dindex offset w =
     (if dindex > 0 \<or> offset = 0x7F then do {
        let offset = dindex;
        let offset = (if offset > 0x7F then 0x7F else offset);
        (_, w) \<leftarrow> write_u8 (offset OR 0x80) w;
        offset_loop (dindex - offset) offset w
      } else Some w)"
  by pat_completeness auto
termination
proof (relation "measure (\<lambda>(dindex, offset, w). 2 * unat dindex + (if offset = 0x7F then 1 else 0))", goal_cases)
  case 2
  then show ?case
    by (auto simp: unat_sub word_le_nat_alt word_less_nat_alt word_gt_0 unat_gt_0 split: if_splits)
qed simp

declare offset_loop.simps [simp del]

text \<open>One pass for the slot \<open>i\<close> that is due in this frame.\<close>

definition enc_code :: "nat \<Rightarrow> enc_loop \<Rightarrow> enc_loop option" where
  "enc_code i s =
     (if l_bit s = 0x40 then do {
        let s = (if l_zero s = 0 then s\<lparr> l_first := of_nat i \<rparr> else s);
        let s = s\<lparr> l_zero := l_zero s + 1, l_bit := 1, l_code := w_pos (l_w s) \<rparr>;
        (_, w) \<leftarrow> write_u8 0 (l_w s);
        Some (s\<lparr> l_w := w, l_nibble_n := 0 \<rparr>)
      } else Some (s\<lparr> l_bit := push_bit 1 (l_bit s) \<rparr>))"

definition enc_mark :: "nat \<Rightarrow> enc_loop \<Rightarrow> enc_loop option" where
  "enc_mark i s =
     (if l_zero s \<ge> 2 then do {
        let w = w_reset (size_sub (w_pos (l_w s)) (unat (l_zero s))) (l_w s);
        let dindex = of_nat i - l_first s;
        w \<leftarrow> offset_loop dindex dindex w;
        Some (s\<lparr> l_w := w, l_bit := 0x40 \<rparr>)
      } else do {
        w \<leftarrow> poke (l_code s) (\<lambda>c. c OR l_bit s) (l_w s);
        Some (s\<lparr> l_w := w \<rparr>)
      })"

definition enc_payload :: "u8 \<Rightarrow> raw_t \<Rightarrow> nat \<Rightarrow> enc_loop \<Rightarrow> enc_loop option" where
  "enc_payload fmt buf sz s =
     (if fmt = fmt_code fmt_u4 then
        let v = ucast buf AND 0x0F
        in if l_nibble_n s = 0 then do {
             let s = s\<lparr> l_nibble_n := 1, l_nibble := w_pos (l_w s) \<rparr>;
             (_, w) \<leftarrow> write_u8 v (l_w s);
             Some (s\<lparr> l_w := w, l_data := w_pos w \<rparr>)
           } else do {
             w \<leftarrow> poke (l_nibble s) (\<lambda>c. c OR push_bit 4 v) (l_w s);
             Some (s\<lparr> l_w := w, l_nibble_n := 0 \<rparr>)
           }
      else do {
        (_, w) \<leftarrow> write_mem (le_bytes 4 buf) sz (l_w s);
        Some (s\<lparr> l_w := w, l_nibble_n := 0, l_data := w_pos w \<rparr>)
      })"

definition enc_slot :: "(nat \<Rightarrow> raw_t) \<Rightarrow> nat \<Rightarrow> encoder \<Rightarrow> enc_loop \<Rightarrow> (encoder \<times> enc_loop) option" where
  "enc_slot junk i e s = do {
     s \<leftarrow> enc_code i s;
     let flags = e_flags e ! i;
     if \<not> ef_upd flags then Some (e, s)
     else do {
       let e = e\<lparr> e_flags := (e_flags e)[i := flags\<lparr> ef_upd := False \<rparr>] \<rparr>;
       let fmt = f_fmt (e_fields e ! i);
       bs \<leftarrow> pack_value (e_value e ! i) (ef_type flags) fmt;
       let raw = with_junk bs (junk i);
       if e_packed e ! i = raw then Some (e, s)
       else do {
         let e = e\<lparr> e_packed := (e_packed e)[i := raw] \<rparr>;
         s \<leftarrow> enc_mark i s;
         s \<leftarrow> enc_payload fmt raw (length bs) s;
         w \<leftarrow> poke (l_count s) (\<lambda>c. c + 1) (l_w s);
         Some (e, s\<lparr> l_w := w, l_zero := 0 \<rparr>)
       }
     }
   }"

function enc_slots :: "(nat \<Rightarrow> raw_t) \<Rightarrow> u8 \<Rightarrow> nat \<Rightarrow> encoder \<Rightarrow> enc_loop \<Rightarrow> (nat \<times> encoder \<times> enc_loop) option" where
  "enc_slots junk pseq i e s =
     (if i < slots_size \<and> i < e_cnt e then
        let f = e_fields e ! i
        in if is_fmt fmt_bit f then Some (i, e, s)
           else if seq_skipped pseq f then enc_slots junk pseq (i + 1) e s
           else do { (e, s) \<leftarrow> enc_slot junk i e s; enc_slots junk pseq (i + 1) e s }
      else Some (i, e, s))"
  by pat_completeness auto
termination
  by (relation "measure (\<lambda>(junk, pseq, i, e, s). slots_size - i)") auto

declare enc_slots.simps [simp del]

text \<open>The bit fields at the end.\<close>

function enc_bits :: "nat \<Rightarrow> encoder \<Rightarrow> nat \<Rightarrow> u8 \<Rightarrow> writer \<Rightarrow> writer option" where
  "enc_bits i e code code_bit w =
     (if i < e_cnt e then do {
        (code, code_bit, w) \<leftarrow>
          (if code_bit = 0x80 then do { let code = w_pos w; (_, w) \<leftarrow> write_u8 0 w; Some (code, 1, w) }
           else Some (code, push_bit 1 code_bit, w));
        w \<leftarrow> (if e_value e ! i \<noteq> 0 then poke code (\<lambda>c. c OR code_bit) w else Some w);
        enc_bits (i + 1) e code code_bit w
      } else Some w)"
  by pat_completeness auto
termination
  by (relation "measure (\<lambda>(i, e, code, code_bit, w). e_cnt e - i)") auto

declare enc_bits.simps [simp del]

text \<open>One slot is scheduled for an update in every frame.\<close>

definition enforce :: "encoder \<Rightarrow> encoder" where
  "enforce e =
     (let i = e_enforced e;
          e = e\<lparr> e_flags := (e_flags e)[i := (e_flags e ! i)\<lparr> ef_upd := True \<rparr>],
                e_packed := (e_packed e)[i := e_packed e ! i + 0x01010101] \<rparr>;
          i = i + 1
      in e\<lparr> e_enforced := (if i \<ge> e_cnt e then 0 else if i \<ge> e_upd_cnt e then 0 else i) \<rparr>)"

definition encode_values :: "(nat \<Rightarrow> raw_t) \<Rightarrow> u8 \<Rightarrow> encoder \<Rightarrow> writer \<Rightarrow> (encoder \<times> writer) option" where
  "encode_values junk pseq e w = do {
     let code_cnt = w_pos w;
     (_, w) \<leftarrow> write_u8 0 w;
     let s = \<lparr> l_w = w, l_count = code_cnt, l_data = w_pos w, l_code = w_pos w, l_bit = 0x40, l_zero = 0,
               l_first = 0, l_nibble = 0, l_nibble_n = 0 \<rparr>;
     (i, e, s) \<leftarrow> enc_slots junk pseq 0 (enforce e) s;
     let w = w_reset (l_data s) (l_w s);
     w \<leftarrow> enc_bits i e (l_code s) 0x80 w;
     Some (e, w)
   }"

definition encode :: "(nat \<Rightarrow> raw_t) \<Rightarrow> u8 \<Rightarrow> u64 \<Rightarrow> encoder \<Rightarrow> writer \<Rightarrow> (bool \<times> encoder \<times> writer) option" where
  "encode junk pseq timestamp_ms e w = do {
     (_, w) \<leftarrow> hdr_write \<lparr> hdr_ts = ucast (timestamp_ms div of_nat ts2ms),
                          hdr_feed_hash = hash_byte (e_hash e) (pseq AND 3) \<rparr> w;
     (e, w) \<leftarrow> encode_values junk pseq e w;
     Some (True, e, w)
   }"

fun xpdr_loop :: "encoder \<Rightarrow> (u8 \<times> u8) list \<Rightarrow> writer \<Rightarrow> (bool \<times> writer) option" where
  "xpdr_loop e [] w = Some (True, w)"
| "xpdr_loop e ((idx, fmt) # ds) w =
     (let index = unat idx
      in if index \<ge> e_cnt e then xpdr_loop e ds w
         else do {
           bs \<leftarrow> pack_value (e_value e ! index) (ef_type (e_flags e ! index)) fmt;
           if bs = [] then Some (False, w)
           else do { (_, w) \<leftarrow> write_mem bs (length bs) w; xpdr_loop e ds w }
         })"

definition encode_xpdr :: "dictionary \<Rightarrow> u64 \<Rightarrow> encoder \<Rightarrow> writer \<Rightarrow> (bool \<times> writer) option" where
  "encode_xpdr D timestamp_ms e w = do {
     (_, w) \<leftarrow> hdr_write \<lparr> hdr_ts = ucast (timestamp_ms div of_nat ts2ms), hdr_feed_hash = xpdr_version \<rparr> w;
     fmts \<leftarrow> xpdr_fmts D;
     xpdr_loop e (zip (e_xpdr e) fmts) w
   }"

text \<open>A block of the descriptors; \<open>size\<close> zero divides by zero.\<close>

definition encode_format :: "u8 \<Rightarrow> u8 \<Rightarrow> encoder \<Rightarrow> writer \<Rightarrow> writer option" where
  "encode_format part psz e w =
     (if psz = 0 then None
      else do {
        let cnt = e_cnt e * field_size;
        let pcnt = (of_nat (cnt div unat psz) :: u8);
        let pcnt = (if cnt mod unat psz \<noteq> 0 then pcnt + 1 else pcnt);
        let sz = (if part < pcnt then size_sub cnt (unat part * unat psz) else 0);
        let sz = (if sz > unat psz then unat psz else sz);
        (_, w) \<leftarrow> resp_write \<lparr> resp_version = fmt_version, resp_part = part, resp_pcnt = pcnt, resp_psz = psz,
                               resp_hash = e_hash e \<rparr> w;
        if sz > 0 then do {
          (_, w) \<leftarrow> write_mem (drop (unat part * unat psz) (fields_bytes (e_fields e))) sz w;
          Some w
        } else Some w
      })"

end
