(* ===== verification/Telemetry_Layout.thy ===== *)
theory Telemetry_Layout
  imports Telemetry_Encoder "HOL-Library.Multiset"
begin

text \<open>
  The layout of the encoder's slots: values before options before bit fields, each group sorted by
  the dictionary index.  \<open>add\<close> keeps it, moves the data of the slots along, and keeps the derived
  state (the hash, the number of updated slots, the indices of the transponder's dataset) true to it.
\<close>

unbundle bit_operations_syntax

subsection \<open>The order of fields\<close>

definition field_rank :: "field_s \<Rightarrow> nat" where
  "field_rank f = (if is_fmt fmt_bit f then 2 else if is_fmt fmt_u4 f then 1 else 0)"

definition field_less :: "field_s \<Rightarrow> field_s \<Rightarrow> bool" where
  "field_less f g \<longleftrightarrow> field_rank f < field_rank g \<or> field_rank f = field_rank g \<and> field_uid f < field_uid g"

definition used :: "encoder \<Rightarrow> field_s list" where
  "used e = take (e_cnt e) (e_fields e)"

text \<open>A field with the data kept for it.\<close>

type_synonym slot = "field_s \<times> enc_flags_s \<times> raw_t \<times> raw_t"

definition enc_slot_list :: "encoder \<Rightarrow> slot list" where
  "enc_slot_list e = zip (used e) (zip (take (e_cnt e) (e_flags e))
     (zip (take (e_cnt e) (e_value e)) (take (e_cnt e) (e_packed e))))"

definition enc_arrays :: "encoder \<Rightarrow> bool" where
  "enc_arrays e \<longleftrightarrow> length (e_fields e) = slots_size \<and> length (e_flags e) = slots_size \<and>
     length (e_value e) = slots_size \<and> length (e_packed e) = slots_size \<and> e_cnt e \<le> slots_size \<and>
     e_enforced e < slots_size"

definition bit_start :: "field_s list \<Rightarrow> nat" where
  "bit_start fs = length (takeWhile (\<lambda>f. \<not> is_fmt fmt_bit f) fs)"

definition xpdr_view :: "dictionary \<Rightarrow> encoder \<Rightarrow> u8 list" where
  "xpdr_view D e = map (\<lambda>uid. xpdr_index e uid 0xFF) (xpdr_uids D)"

definition enc_wf :: "dictionary \<Rightarrow> encoder \<Rightarrow> bool" where
  "enc_wf D e \<longleftrightarrow> enc_arrays e \<and> distinct (map field_uid (used e)) \<and> sorted_wrt field_less (used e) \<and>
     e_upd_cnt e = bit_start (used e) \<and> e_hash e = crc32 (fields_bytes (used e)) (ucast fmt_version) \<and>
     e_xpdr e = xpdr_view D e"

lemma slots_size_eq: "slots_size = 240"
  by (simp add: slots_size_def)

lemma field_less_trans: "field_less f g \<Longrightarrow> field_less g h \<Longrightarrow> field_less f h"
  by (auto simp: field_less_def)

lemma fmt_bit_u4: "is_fmt fmt_bit f \<Longrightarrow> \<not> is_fmt fmt_u4 f"
  by (simp add: is_fmt_def)

lemma field_rank_cases:
  "field_rank f = 2 \<longleftrightarrow> is_fmt fmt_bit f" "field_rank f = 1 \<longleftrightarrow> is_fmt fmt_u4 f" "field_rank f \<le> 2"
  by (auto simp: field_rank_def is_fmt_def)

subsection \<open>Looking up\<close>

lemma lookup_from_spec:
  "lookup_from uid fs is = (case find (\<lambda>i. field_uid (fs ! i) = uid) is of None \<Rightarrow> - 1 | Some i \<Rightarrow> int i)"
  by (induction "is") auto

lemma used_nth: "i < e_cnt e \<Longrightarrow> e_cnt e \<le> length (e_fields e) \<Longrightarrow> used e ! i = e_fields e ! i"
  by (simp add: used_def)

lemma length_used [simp]: "e_cnt e \<le> length (e_fields e) \<Longrightarrow> length (used e) = e_cnt e"
  by (simp add: used_def)

lemma slot_lookup_neg:
  assumes "e_cnt e \<le> length (e_fields e)"
  shows "slot_lookup uid e < 0 \<longleftrightarrow> uid \<notin> field_uid ` set (used e)"
proof -
  have "slot_lookup uid e < 0 \<longleftrightarrow> (\<forall>i<e_cnt e. field_uid (e_fields e ! i) \<noteq> uid)"
    unfolding slot_lookup_def lookup_from_spec
    by (auto simp: find_None_iff split: option.splits) (auto simp: find_Some_iff)
  moreover have "set (used e) = {e_fields e ! i | i. i < e_cnt e}"
    using assms by (auto simp: used_def set_conv_nth) (metis nth_take)
  ultimately show ?thesis by auto
qed

lemma slot_lookup_pos:
  assumes "slot_lookup uid e \<ge> 0"
  shows "nat (slot_lookup uid e) < e_cnt e \<and> field_uid (e_fields e ! nat (slot_lookup uid e)) = uid"
proof -
  obtain i where i: "find (\<lambda>i. field_uid (e_fields e ! i) = uid) [0..<e_cnt e] = Some i"
    using assms by (auto simp: slot_lookup_def lookup_from_spec split: option.splits)
  then have "slot_lookup uid e = int i" by (simp add: slot_lookup_def lookup_from_spec)
  moreover have "i < e_cnt e \<and> field_uid (e_fields e ! i) = uid" using i by (auto simp: find_Some_iff)
  ultimately show ?thesis by simp
qed

subsection \<open>The loops of \<open>add\<close>\<close>

lemma scan_spec:
  assumes "index \<le> cnt" "cnt \<le> length fs"
  shows "index \<le> scan stop fs cnt index \<and> scan stop fs cnt index \<le> cnt \<and>
    (\<forall>j. index \<le> j \<longrightarrow> j < scan stop fs cnt index \<longrightarrow> \<not> stop (fs ! j)) \<and>
    (scan stop fs cnt index < cnt \<longrightarrow> stop (fs ! scan stop fs cnt index))"
  using assms
proof (induction stop fs cnt index rule: scan.induct)
  case (1 stop fs cnt index)
  show ?case
  proof (cases "index < cnt \<and> \<not> stop (fs ! index)")
    case True
    then have eq: "scan stop fs cnt index = scan stop fs cnt (index + 1)" by (simp add: scan.simps [of stop fs cnt index])
    have IH: "index + 1 \<le> scan stop fs cnt (index + 1) \<and> scan stop fs cnt (index + 1) \<le> cnt \<and>
      (\<forall>j. index + 1 \<le> j \<longrightarrow> j < scan stop fs cnt (index + 1) \<longrightarrow> \<not> stop (fs ! j)) \<and>
      (scan stop fs cnt (index + 1) < cnt \<longrightarrow> stop (fs ! scan stop fs cnt (index + 1)))"
      using 1 True by simp
    have "\<not> stop (fs ! j)" if "index \<le> j" "j < scan stop fs cnt (index + 1)" for j
      using that IH True by (cases "j = index") auto
    then show ?thesis unfolding eq using IH by auto
  next
    case False
    then show ?thesis using 1 by (auto simp: scan.simps [of stop fs cnt index])
  qed
qed

lemma scan_bit_start:
  assumes "cnt \<le> length fs"
  shows "scan (is_fmt fmt_bit) fs cnt 0 = bit_start (take cnt fs)"
proof -
  let ?n = "scan (is_fmt fmt_bit) fs cnt 0"
  have n: "?n \<le> cnt" "\<forall>j<?n. \<not> is_fmt fmt_bit (fs ! j)" "?n < cnt \<longrightarrow> is_fmt fmt_bit (fs ! ?n)"
    using scan_spec [of 0 cnt fs "is_fmt fmt_bit"] assms by auto
  have "takeWhile (\<lambda>f. \<not> is_fmt fmt_bit f) (take cnt fs) = take ?n (take cnt fs)"
    by (rule takeWhile_eq_take_P_nth) (use n assms in auto)
  then show ?thesis using n assms by (simp add: bit_start_def)
qed

lemma sorted_above:
  assumes "sorted_wrt field_less fs" "n < length fs" "field_less f (fs ! n)" "n \<le> j" "j < length fs"
  shows "field_less f (fs ! j)"
  using assms sorted_wrt_nth_less [of field_less fs n j] field_less_trans by (cases "n = j") auto

lemma rank_mono:
  assumes "sorted_wrt field_less fs" "i \<le> j" "j < length fs"
  shows "field_rank (fs ! i) \<le> field_rank (fs ! j)"
proof (cases "i = j")
  case False
  then have "field_less (fs ! i) (fs ! j)" using sorted_wrt_nth_less [OF assms(1), of i j] assms(2,3) by simp
  then show ?thesis by (auto simp: field_less_def)
qed simp

lemma sorted_index_spec:
  assumes "sorted_wrt field_less (take cnt fs)" "cnt \<le> length fs" "field_uid f \<notin> field_uid ` set (take cnt fs)"
  defines "n \<equiv> sorted_index f fs cnt"
  shows "n \<le> cnt \<and> (\<forall>j<n. field_less (fs ! j) f) \<and> (\<forall>j. n \<le> j \<longrightarrow> j < cnt \<longrightarrow> field_less f (fs ! j))"
proof -
  have new: "field_uid (fs ! j) \<noteq> field_uid f" if "j < cnt" for j
    using assms(3) that assms(2) by (auto simp: image_iff set_conv_nth)
  have above: "\<forall>j. k \<le> j \<longrightarrow> j < cnt \<longrightarrow> field_less f (fs ! j)" if "k < cnt \<longrightarrow> field_less f (fs ! k)" for k
    using sorted_above [OF assms(1), of k f] that assms(2) by auto
  have mono: "field_rank (fs ! i) \<le> field_rank (fs ! j)" if "i \<le> j" "j < cnt" for i j
    using rank_mono [OF assms(1), of i j] that assms(2) by simp
  note rank = field_rank_cases(1,2) [symmetric]
  have upto: "n \<le> cnt \<and> (\<forall>j<n. field_less (fs ! j) f) \<and> (n < cnt \<longrightarrow> field_less f (fs ! n))"
  proof (cases "is_fmt fmt_bit f \<or> is_fmt fmt_u4 f")
    case False
    define stop where "stop = (\<lambda>g. is_fmt fmt_bit g \<or> is_fmt fmt_u4 g \<or> field_uid g > field_uid f)"
    have n: "n = scan stop fs cnt 0" using False by (simp add: n_def sorted_index_def stop_def)
    then have *: "n \<le> cnt" "\<And>j. j < n \<Longrightarrow> \<not> stop (fs ! j)" "n < cnt \<longrightarrow> stop (fs ! n)"
      using scan_spec [of 0 cnt fs stop] assms(2) by auto
    have "field_less (fs ! j) f" if "j < n" for j
      using *(2) [OF that] new [of j] that *(1) False by (auto simp: stop_def field_less_def field_rank_def)
    moreover have "n < cnt \<longrightarrow> field_less f (fs ! n)"
      using *(3) False by (auto simp: stop_def field_less_def field_rank_def)
    ultimately show ?thesis using *(1) by blast
  next
    case True
    define r where "r = field_rank f"
    define n1 where "n1 = scan (\<lambda>g. field_rank g \<ge> r) fs cnt 0"
    define stop where "stop = (\<lambda>g. field_rank g > r \<or> field_uid g > field_uid f)"
    have r: "r \<noteq> 0" "r \<le> 2" using True by (auto simp: r_def field_rank_def)
    have bit: "is_fmt fmt_bit = (\<lambda>g. field_rank g \<ge> 2)"
      and u4: "(\<lambda>g. is_fmt fmt_bit g \<or> is_fmt fmt_u4 g) = (\<lambda>g. field_rank g \<ge> 1)"
      by (auto simp: field_rank_def)
    have "n = scan stop fs cnt n1"
    proof (cases "is_fmt fmt_bit f")
      case b: True
      then have "r = 2" by (simp add: r_def field_rank_def)
      moreover have "stop = (\<lambda>g. field_uid g > field_uid f)"
        using field_rank_cases(3) by (auto simp: stop_def \<open>r = 2\<close> not_less [symmetric])
      ultimately show ?thesis using b by (simp add: n_def sorted_index_def n1_def bit Let_def)
    next
      case b: False
      then have "r = 1" using True by (simp add: r_def field_rank_def)
      moreover have "stop = (\<lambda>g. is_fmt fmt_bit g \<or> field_uid g > field_uid f)"
        by (auto simp: stop_def \<open>r = 1\<close> field_rank_def)
      ultimately show ?thesis using b True by (simp add: n_def sorted_index_def n1_def u4 Let_def)
    qed
    moreover have n1: "n1 \<le> cnt" "\<And>j. j < n1 \<Longrightarrow> field_rank (fs ! j) < r" "n1 < cnt \<longrightarrow> field_rank (fs ! n1) \<ge> r"
      using scan_spec [of 0 cnt fs "\<lambda>g. field_rank g \<ge> r"] assms(2) by (auto simp: n1_def not_le)
    ultimately have n: "n1 \<le> n" "n \<le> cnt" "\<And>j. n1 \<le> j \<Longrightarrow> j < n \<Longrightarrow> \<not> stop (fs ! j)" "n < cnt \<longrightarrow> stop (fs ! n)"
      using scan_spec [of n1 cnt fs stop] assms(2) by auto
    have ge: "field_rank (fs ! j) \<ge> r" if "n1 \<le> j" "j < cnt" for j
      using mono [OF that] n1(3) that by auto
    have "field_less (fs ! j) f" if "j < n" for j
    proof (cases "j < n1")
      case True
      then show ?thesis using n1(2) by (simp add: field_less_def r_def)
    next
      case False
      then show ?thesis using n(2) n(3) [of j] ge [of j] new [of j] that by (auto simp: stop_def field_less_def r_def)
    qed
    moreover have "n < cnt \<longrightarrow> field_less f (fs ! n)"
      using n(1,4) ge [of n] by (auto simp: stop_def field_less_def r_def)
    ultimately show ?thesis using n(2) by blast
  qed
  then show ?thesis using above [of n] by blast
qed

lemma shift_up_spec:
  assumes "index \<le> cnt" "cnt < length xs"
  shows "shift_up index cnt xs = take index xs @ [xs ! index] @ drop index (take cnt xs) @ drop (Suc cnt) xs"
  using assms
proof (induction cnt arbitrary: xs)
  case 0
  then show ?case by (cases xs) auto
next
  case (Suc cnt)
  show ?case
  proof (cases "index = Suc cnt")
    case True
    then show ?thesis using Suc.prems by (simp add: id_take_nth_drop [symmetric])
  next
    case False
    let ?ys = "xs[Suc cnt := xs ! cnt]"
    have "shift_up index (Suc cnt) xs = shift_up index cnt ?ys" using False Suc.prems by simp
    also have "\<dots> = take index ?ys @ [?ys ! index] @ drop index (take cnt ?ys) @ drop (Suc cnt) ?ys"
      by (rule Suc.IH) (use False Suc.prems in auto)
    finally have "shift_up index (Suc cnt) xs = take index ?ys @ [?ys ! index] @ drop index (take cnt ?ys) @ drop (Suc cnt) ?ys" .
    moreover have "drop (Suc cnt) ?ys = xs ! cnt # drop (Suc (Suc cnt)) xs"
      using Suc.prems by (simp add: drop_update_swap Cons_nth_drop_Suc [symmetric])
    moreover have "take index ?ys = take index xs" "take cnt ?ys = take cnt xs" "?ys ! index = xs ! index"
      using False Suc.prems by (simp_all add: take_update_cancel)
    ultimately show ?thesis using False Suc.prems by (simp add: take_Suc_conv_app_nth)
  qed
qed

definition place :: "nat \<Rightarrow> nat \<Rightarrow> 'a \<Rightarrow> 'a list \<Rightarrow> 'a list" where
  "place index cnt x xs = (if index < cnt then shift_up index cnt xs else xs)[index := x]"

lemma place_spec:
  assumes "index \<le> cnt" "cnt < length xs"
  shows "length (place index cnt x xs) = length xs \<and>
    take (Suc cnt) (place index cnt x xs) = take index (take cnt xs) @ x # drop index (take cnt xs)"
proof -
  have "place index cnt x xs = take index xs @ x # drop index (take cnt xs) @ drop (Suc cnt) xs"
  proof (cases "index < cnt")
    case True
    then show ?thesis using assms by (simp add: place_def shift_up_spec list_update_append)
  next
    case False
    then show ?thesis using assms by (simp add: place_def upd_conv_take_nth_drop)
  qed
  moreover have "Suc (length xs - Suc 0) = length xs" using assms by simp
  ultimately show ?thesis using assms by (simp add: Suc_diff_le)
qed

lemma enc_insert_place:
  "enc_insert index field e = update_feeds (e\<lparr> e_fields := place index (e_cnt e) field (e_fields e),
     e_flags := place index (e_cnt e) no_flags (e_flags e), e_value := place index (e_cnt e) 0 (e_value e),
     e_packed := place index (e_cnt e) 0 (e_packed e), e_cnt := e_cnt e + 1 \<rparr>)"
  by (simp add: enc_insert_def place_def)

lemma zip_insert:
  assumes "length xs = length ys"
  shows "zip (take n xs @ x # drop n xs) (take n ys @ y # drop n ys) =
    take n (zip xs ys) @ (x, y) # drop n (zip xs ys)"
  using assms by (simp add: zip_append take_zip drop_zip)

lemma set_insert_at: "set (take n xs @ x # drop n xs) = insert x (set xs)"
  by (metis Un_insert_right append_take_drop_id list.simps(15) set_append)

lemma mset_insert_at: "mset (take n xs @ x # drop n xs) = add_mset x (mset xs)"
  by (metis append_take_drop_id mset.simps(2) mset_append union_mset_add_mset_right)

lemma sorted_insert_at:
  assumes "sorted_wrt P xs" "\<forall>j<n. P (xs ! j) x" "\<forall>j. n \<le> j \<longrightarrow> j < length xs \<longrightarrow> P x (xs ! j)"
    "\<And>a b c. P a b \<Longrightarrow> P b c \<Longrightarrow> P a c" "n \<le> length xs"
  shows "sorted_wrt P (take n xs @ x # drop n xs)"
proof -
  have "\<forall>a\<in>set (take n xs). P a x" using assms(2,5) by (auto simp: in_set_conv_nth)
  moreover have "\<forall>b\<in>set (drop n xs). P x b" using assms(3) by (auto simp: in_set_conv_nth)
  ultimately show ?thesis
    using assms(1,4) by (auto simp: sorted_wrt_append sorted_wrt_take sorted_wrt_drop)
qed

lemma distinct_insert_at:
  assumes "distinct (map f xs)" "f x \<notin> f ` set xs"
  shows "distinct (map f (take n xs @ x # drop n xs))"
proof -
  have "distinct (map f (take n xs) @ map f (drop n xs))"
    using assms(1) by (metis append_take_drop_id map_append)
  then show ?thesis using assms(2) by (auto dest: in_set_takeD in_set_dropD)
qed

subsection \<open>The invariant\<close>

lemma enc_wf_arrays: "enc_wf D e \<Longrightarrow> enc_arrays e"
  by (simp add: enc_wf_def)

lemma enc_arrays_used: "enc_arrays e \<Longrightarrow> length (used e) = e_cnt e \<and> e_cnt e \<le> length (e_fields e)"
  by (simp add: enc_arrays_def slots_size_def)

lemma slot_lookup_cong:
  "e_cnt e' = e_cnt e \<Longrightarrow> e_fields e' = e_fields e \<Longrightarrow> slot_lookup uid e' = slot_lookup uid e"
  by (simp add: slot_lookup_def)

lemma xpdr_index_new:
  assumes "enc_arrays e'" "set (used e) \<subseteq> set (used e')" "enc_arrays e"
  shows "xpdr_index e' uid (xpdr_index e uid 0xFF) = xpdr_index e' uid 0xFF"
  using assms slot_lookup_neg [of e uid] slot_lookup_neg [of e' uid] enc_arrays_used
  by (auto simp: xpdr_index_def Let_def)

lemma used_update [simp]:
  "used (e\<lparr> e_upd_cnt := a \<rparr>) = used e" "used (e\<lparr> e_xpdr := b \<rparr>) = used e" "used (e\<lparr> e_inserted := c \<rparr>) = used e"
  "used (e\<lparr> e_flags := d \<rparr>) = used e" "used (e\<lparr> e_value := f \<rparr>) = used e" "used (e\<lparr> e_packed := g \<rparr>) = used e"
  "used (e\<lparr> e_sync := h \<rparr>) = used e" "used (e\<lparr> e_enforced := k \<rparr>) = used e" "used (e\<lparr> e_hash := l \<rparr>) = used e"
  by (simp_all add: used_def)

lemma enc_wf_cong:
  assumes "enc_wf D e" "enc_arrays e'" "e_cnt e' = e_cnt e" "e_fields e' = e_fields e" "e_upd_cnt e' = e_upd_cnt e"
    "e_hash e' = e_hash e" "e_xpdr e' = e_xpdr e"
  shows "enc_wf D e'"
proof -
  have "xpdr_view D e' = xpdr_view D e"
    using assms(3,4) by (simp add: xpdr_view_def xpdr_index_def slot_lookup_cong [of e' e])
  then show ?thesis using assms by (simp add: enc_wf_def used_def)
qed

lemma enc_make_wf: "enc_wf D (enc_make ins)"
  by (simp add: enc_make_def enc_clear_def update_feeds_def enc_wf_def enc_arrays_def used_def bit_start_def
      slots_size_def xpdr_view_def xpdr_index_def slot_lookup_def xpdr_uids_def xpdr_size_def numeral_eq_Suc)

lemma enc_insert_spec:
  assumes wf: "enc_wf D e" and room: "e_cnt e < slots_size" and new: "field_uid f \<notin> field_uid ` set (used e)"
    and n_def: "n = sorted_index f (e_fields e) (e_cnt e)" and e'_def: "e' = enc_insert n f e"
  shows "n \<le> e_cnt e \<and> enc_arrays e' \<and> e_cnt e' = e_cnt e + 1 \<and> used e' = take n (used e) @ f # drop n (used e) \<and>
    sorted_wrt field_less (used e') \<and> distinct (map field_uid (used e')) \<and>
    enc_slot_list e' = take n (enc_slot_list e) @ (f, no_flags, 0, 0) # drop n (enc_slot_list e) \<and>
    e_hash e' = crc32 (fields_bytes (used e')) (ucast fmt_version) \<and> e_xpdr e' = e_xpdr e \<and> e_inserted e' = e_inserted e"
proof -
  have arr: "enc_arrays e" "length (used e) = e_cnt e" using wf enc_arrays_used by (auto simp: enc_wf_def)
  then have len: "e_cnt e < length (e_fields e)" "e_cnt e < length (e_flags e)" "e_cnt e < length (e_value e)"
    "e_cnt e < length (e_packed e)" using room by (auto simp: enc_arrays_def)
  have sorted: "sorted_wrt field_less (used e)" and dist: "distinct (map field_uid (used e))"
    using wf by (auto simp: enc_wf_def)
  have n: "n \<le> e_cnt e" "\<forall>j<n. field_less (e_fields e ! j) f"
    "\<forall>j. n \<le> j \<longrightarrow> j < e_cnt e \<longrightarrow> field_less f (e_fields e ! j)"
    using sorted_index_spec [of "e_cnt e" "e_fields e" f] sorted new len(1) by (auto simp: n_def used_def)
  have e': "e' = update_feeds (e\<lparr> e_fields := place n (e_cnt e) f (e_fields e),
     e_flags := place n (e_cnt e) no_flags (e_flags e), e_value := place n (e_cnt e) 0 (e_value e),
     e_packed := place n (e_cnt e) 0 (e_packed e), e_cnt := e_cnt e + 1 \<rparr>)"
    by (simp add: e'_def enc_insert_place)
  note place = place_spec [OF n(1) len(1), of f] place_spec [OF n(1) len(2), of no_flags]
    place_spec [OF n(1) len(3), of 0] place_spec [OF n(1) len(4), of 0]
  have used: "used e' = take n (used e) @ f # drop n (used e)"
    using place by (simp add: used_def e' update_feeds_def)
  have arr': "enc_arrays e'"
    using arr(1) room place by (simp add: enc_arrays_def e' update_feeds_def)
  have "sorted_wrt field_less (used e')"
    unfolding used using sorted n arr(2) len(1)
    by (intro sorted_insert_at) (auto simp: used_nth intro: field_less_trans)
  moreover have "distinct (map field_uid (used e'))"
    unfolding used by (rule distinct_insert_at [OF dist new])
  moreover have "enc_slot_list e' = take n (enc_slot_list e) @ (f, no_flags, 0, 0) # drop n (enc_slot_list e)"
  proof -
    have arrays: "e_cnt e' = Suc (e_cnt e)" "e_fields e' = place n (e_cnt e) f (e_fields e)"
      "e_flags e' = place n (e_cnt e) no_flags (e_flags e)" "e_value e' = place n (e_cnt e) 0 (e_value e)"
      "e_packed e' = place n (e_cnt e) 0 (e_packed e)" by (simp_all add: e' update_feeds_def)
    have lens: "length (take (e_cnt e) (e_fields e)) = e_cnt e" "length (take (e_cnt e) (e_flags e)) = e_cnt e"
      "length (take (e_cnt e) (e_value e)) = e_cnt e" "length (take (e_cnt e) (e_packed e)) = e_cnt e"
      using len by simp_all
    show ?thesis
      unfolding enc_slot_list_def used_def arrays place [THEN conjunct2]
      by (simp only: zip_insert length_zip lens min.idem)
  qed
  moreover have "e_hash e' = crc32 (fields_bytes (used e')) (ucast fmt_version)"
    by (simp add: used_def e' update_feeds_def)
  moreover have "e_cnt e' = e_cnt e + 1" "e_xpdr e' = e_xpdr e" "e_inserted e' = e_inserted e" by (simp_all add: e' update_feeds_def)
  ultimately show ?thesis using n(1) arr' used by blast
qed

lemma enc_slot_list_cong:
  "e_cnt e' = e_cnt e \<Longrightarrow> e_fields e' = e_fields e \<Longrightarrow> e_flags e' = e_flags e \<Longrightarrow> e_value e' = e_value e \<Longrightarrow>
    e_packed e' = e_packed e \<Longrightarrow> enc_slot_list e' = enc_slot_list e"
  by (simp add: enc_slot_list_def used_def)

lemma enc_add_refused:
  assumes "enc_wf D e" "e_cnt e \<ge> slots_size \<or> field_uid f \<in> field_uid ` set (used e)"
  shows "enc_add D f e = (e_cnt e < slots_size, e\<lparr> e_inserted := - 1 \<rparr>)"
proof -
  have "slot_lookup (field_uid f) (e\<lparr> e_inserted := - 1 \<rparr>) = slot_lookup (field_uid f) e"
    by (rule slot_lookup_cong) simp_all
  then show ?thesis
    using assms slot_lookup_neg [of e "field_uid f"] enc_arrays_used [of e]
    by (auto simp: enc_add_def Let_def enc_wf_def)
qed

lemma enc_add_inserted:
  assumes wf: "enc_wf D e" and room: "e_cnt e < slots_size" and new: "field_uid f \<notin> field_uid ` set (used e)"
  obtains e' n where "enc_add D f e = (True, e')" "enc_wf D e'" "n \<le> e_cnt e" "e_cnt e' = e_cnt e + 1"
    "e_inserted e' = int n" "used e' = take n (used e) @ f # drop n (used e)"
    "enc_slot_list e' = take n (enc_slot_list e) @ (f, no_flags, 0, 0) # drop n (enc_slot_list e)"
proof -
  define e0 where "e0 = e\<lparr> e_inserted := - 1 \<rparr>"
  define n where "n = sorted_index f (e_fields e0) (e_cnt e0)"
  define e1 where "e1 = (enc_insert n f e0)"
  define e2 where "e2 = e1\<lparr> e_inserted := int n, e_upd_cnt := scan (is_fmt fmt_bit) (e_fields e1) (e_cnt e1) 0 \<rparr>"
  define e' where "e' = e2\<lparr> e_xpdr := map2 (xpdr_index e2) (xpdr_uids D) (e_xpdr e2) \<rparr>"
  have arr: "enc_arrays e" using wf by (simp add: enc_wf_def)
  have e0: "enc_wf D e0" by (rule enc_wf_cong [OF wf]) (use arr in \<open>auto simp: e0_def enc_arrays_def\<close>)
  have same: "used e0 = used e" "e_cnt e0 = e_cnt e" "enc_slot_list e0 = enc_slot_list e" "e_xpdr e0 = e_xpdr e"
    by (auto simp: e0_def intro: enc_slot_list_cong)
  have "slot_lookup (field_uid f) e0 < 0"
    using slot_lookup_neg [of e0 "field_uid f"] new enc_arrays_used [of e0] e0 same by (simp add: enc_wf_def)
  then have "enc_add D f e = (True, e')"
    using room by (simp add: enc_add_def Let_def e'_def e2_def e1_def n_def e0_def)
  moreover note ins = enc_insert_spec [OF e0 _ _ n_def e1_def, unfolded same, OF room new]
  moreover have e': "e_cnt e' = e_cnt e1" "e_fields e' = e_fields e1" "used e' = used e1" "enc_slot_list e' = enc_slot_list e1"
    "e_inserted e' = int n" "enc_arrays e' = enc_arrays e1" "e_hash e' = e_hash e1"
    by (auto simp: e'_def e2_def enc_arrays_def intro: enc_slot_list_cong)
  moreover have "e_upd_cnt e' = bit_start (used e1)"
  proof -
    have "e_cnt e1 \<le> length (e_fields e1)" using ins enc_arrays_used by blast
    then show ?thesis by (simp add: e'_def e2_def scan_bit_start used_def)
  qed
  moreover have "e_xpdr e' = xpdr_view D e'"
  proof -
    have idx: "xpdr_index e' uid = xpdr_index e2 uid" for uid
      by (simp add: e'_def xpdr_index_def slot_lookup_def fun_eq_iff)
    have "e_xpdr e2 = xpdr_view D e" using ins same wf by (simp add: e2_def enc_wf_def)
    then have "e_xpdr e' = map (\<lambda>uid. xpdr_index e2 uid (xpdr_index e uid 0xFF)) (xpdr_uids D)"
      by (simp add: e'_def xpdr_view_def zip_map2 zip_same_conv_map comp_def)
    moreover have "set (used e) \<subseteq> set (used e')" using ins e' set_insert_at [of n "used e" f] by auto
    ultimately show ?thesis
      using xpdr_index_new [of e' e] ins e'(6) arr by (simp add: xpdr_view_def idx [symmetric])
  qed
  ultimately show thesis
    by (intro that [of e' n]) (unfold enc_wf_def, metis+)
qed

lemma sorted_field_unique:
  assumes "sorted_wrt field_less xs" "sorted_wrt field_less ys" "set xs = set ys"
  shows "xs = ys"
  using assms
proof (induction xs arbitrary: ys)
  case Nil
  then show ?case by simp
next
  case (Cons x xs)
  have irrefl: "\<not> field_less f f" and asym: "field_less f g \<Longrightarrow> \<not> field_less g f" for f g
    by (auto simp: field_less_def)
  obtain y ys' where ys: "ys = y # ys'" using Cons.prems(3) by (cases ys) auto
  have "x = y"
    using Cons.prems ys asym by (metis list.set_intros(1) set_ConsD sorted_wrt.simps(2))
  moreover have "x \<notin> set xs" "y \<notin> set ys'" using Cons.prems(1,2) ys irrefl by auto
  ultimately have "set xs = set ys'" using Cons.prems(3) ys by auto
  then show ?case using Cons \<open>x = y\<close> ys by simp
qed

subsection \<open>Properties\<close>

text \<open>
  C8: adding a field keeps the layout and everything derived from it.  A new field gets a cleared
  slot at the index \<open>_inserted_index\<close>, and the data of the other slots stay with their fields; a
  known field changes nothing; the result is false only when all slots are taken.
\<close>

theorem add_keeps_layout:
  assumes "enc_wf D e" "enc_add D f e = (added, e')"
  shows "enc_wf D e' \<and> added = (e_cnt e < slots_size) \<and>
    (if e_cnt e < slots_size \<and> field_uid f \<notin> field_uid ` set (used e)
     then mset (enc_slot_list e') = add_mset (f, no_flags, 0, 0) (mset (enc_slot_list e)) \<and>
       0 \<le> e_inserted e' \<and> enc_slot_list e' ! nat (e_inserted e') = (f, no_flags, 0, 0)
     else enc_slot_list e' = enc_slot_list e \<and> e_inserted e' = - 1)"
proof (cases "e_cnt e < slots_size \<and> field_uid f \<notin> field_uid ` set (used e)")
  case True
  then obtain e'' n where e'': "enc_add D f e = (True, e'')" "enc_wf D e''" "n \<le> e_cnt e" "e_inserted e'' = int n"
    "enc_slot_list e'' = take n (enc_slot_list e) @ (f, no_flags, 0, 0) # drop n (enc_slot_list e)"
    using enc_add_inserted [OF assms(1)] by metis
  have "length (enc_slot_list e) = e_cnt e"
    using assms(1) by (simp add: enc_slot_list_def enc_wf_def enc_arrays_def used_def slots_size_def)
  then have "enc_slot_list e'' ! n = (f, no_flags, 0, 0)" using e''(3) by (simp add: e''(5) nth_append)
  moreover have "mset (enc_slot_list e'') = add_mset (f, no_flags, 0, 0) (mset (enc_slot_list e))"
    unfolding e''(5) by (rule mset_insert_at)
  moreover have "e' = e''" "added = True" using e''(1) assms(2) by auto
  ultimately show ?thesis using e''(2,4) True by simp
next
  case False
  have "e' = e\<lparr> e_inserted := - 1 \<rparr>" "added = (e_cnt e < slots_size)"
    using enc_add_refused [OF assms(1), of f] False assms(2) by auto
  moreover have "enc_wf D (e\<lparr> e_inserted := - 1 \<rparr>)"
    by (rule enc_wf_cong [OF assms(1)]) (use assms(1) in \<open>auto simp: enc_wf_def enc_arrays_def\<close>)
  moreover have "enc_slot_list (e\<lparr> e_inserted := - 1 \<rparr>) = enc_slot_list e" by (rule enc_slot_list_cong) simp_all
  ultimately show ?thesis using False by simp
qed

fun enc_add_all :: "dictionary \<Rightarrow> field_s list \<Rightarrow> encoder \<Rightarrow> encoder" where
  "enc_add_all D [] e = e"
| "enc_add_all D (f # fs) e = enc_add_all D fs (snd (enc_add D f e))"

lemma enc_add_all_spec:
  assumes "enc_wf D e" "distinct (map field_uid (used e @ fs))" "e_cnt e + length fs \<le> slots_size"
  shows "enc_wf D (enc_add_all D fs e) \<and> set (used (enc_add_all D fs e)) = set (used e) \<union> set fs"
  using assms
proof (induction fs arbitrary: e)
  case Nil
  then show ?case by simp
next
  case (Cons f fs)
  have "e_cnt e < slots_size" "field_uid f \<notin> field_uid ` set (used e)" using Cons.prems(2,3) by auto
  then obtain e' n where e': "enc_add D f e = (True, e')" "enc_wf D e'" "n \<le> e_cnt e" "e_cnt e' = e_cnt e + 1"
    "used e' = take n (used e) @ f # drop n (used e)"
    using enc_add_inserted [OF Cons.prems(1)] by metis
  have set: "set (used e') = insert f (set (used e))" unfolding e'(5) by (rule set_insert_at)
  have "distinct (map field_uid (used e'))" using e'(2) by (simp add: enc_wf_def)
  then have "distinct (map field_uid (used e' @ fs))" using Cons.prems(2) set by auto
  then have "enc_wf D (enc_add_all D fs e') \<and> set (used (enc_add_all D fs e')) = set (used e') \<union> set fs"
    using Cons.prems(3) e'(2,4) by (intro Cons.IH) auto
  then show ?case using e'(1) set by auto
qed

text \<open>
  C20: the layout does not depend on the order in which fields are added: encoders that were given
  the same fields agree on the descriptors and on the hash of the format.
\<close>

theorem layout_order_independent:
  fixes D :: dictionary and i j :: int
  assumes "distinct (map field_uid fs)" "distinct (map field_uid gs)" "set fs = set gs" "length fs \<le> slots_size"
  defines "a \<equiv> enc_add_all D fs (enc_make i)" and "b \<equiv> enc_add_all D gs (enc_make j)"
  shows "used a = used b \<and> e_hash a = e_hash b \<and> e_upd_cnt a = e_upd_cnt b \<and> set (used a) = set fs"
proof -
  have len: "length gs = length fs"
    using assms(1-3) by (metis distinct_card distinct_map)
  have make: "used (enc_make k) = []" "e_cnt (enc_make k) = 0" for k
    by (simp_all add: used_def enc_make_def enc_clear_def update_feeds_def)
  have a: "enc_wf D a \<and> set (used a) = set fs"
    using enc_add_all_spec [OF enc_make_wf, of i fs D] assms(1,4) by (simp add: a_def make)
  have b: "enc_wf D b \<and> set (used b) = set gs"
    using enc_add_all_spec [OF enc_make_wf, of j gs D] assms(2,4) len by (simp add: b_def make)
  have "used a = used b"
    by (rule sorted_field_unique) (use a b assms(3) in \<open>auto simp: enc_wf_def\<close>)
  then show ?thesis using a b by (auto simp: enc_wf_def)
qed

text \<open>A small dictionary for examples.\<close>

definition field_of :: "u16 \<Rightarrow> fmt_e \<Rightarrow> field_s" where
  "field_of uid fmt = \<lparr> f_pid = pid_make uid (pri_code pri_final) 0, f_fmt = fmt_code fmt \<rparr>"

definition sample_dict :: dictionary where
  "sample_dict = \<lparr>
     g_entries = [fmt_s_make 5 (type_code type_byte) (ds_code ds_aux) (fmt_code fmt_u4) 0,
                  fmt_s_make 7 (type_code type_real) (ds_code ds_normal) (fmt_code fmt_f32) 0],
     g_lat = 1, g_lon = 2, g_hmsl = 3, g_speed = 4, g_bearing = 7, g_vspeed = 8, g_mode = 5, g_xpdr = 9 \<rparr>"

lemma add_keeps_layout_witness:
  "let e = enc_make 0; r = enc_add sample_dict (field_of 7 fmt_f32) e
   in enc_wf sample_dict (snd r) \<and> fst r = (e_cnt e < slots_size) \<and>
    (if e_cnt e < slots_size \<and> field_uid (field_of 7 fmt_f32) \<notin> field_uid ` set (used e)
     then mset (enc_slot_list (snd r)) = add_mset (field_of 7 fmt_f32, no_flags, 0, 0) (mset (enc_slot_list e)) \<and>
       0 \<le> e_inserted (snd r) \<and> enc_slot_list (snd r) ! nat (e_inserted (snd r)) = (field_of 7 fmt_f32, no_flags, 0, 0)
     else enc_slot_list (snd r) = enc_slot_list e \<and> e_inserted (snd r) = - 1)"
  unfolding Let_def by (rule add_keeps_layout [OF enc_make_wf]) simp

lemma layout_order_independent_witness:
  "let fs = [field_of 7 fmt_f32, field_of 5 fmt_u4, field_of 3 fmt_bit]; a = enc_add_all sample_dict fs (enc_make 0);
       b = enc_add_all sample_dict (rev fs) (enc_make 1)
   in used a = used b \<and> e_hash a = e_hash b \<and> e_upd_cnt a = e_upd_cnt b \<and> set (used a) = set fs"
  unfolding Let_def
  by (rule layout_order_independent) (simp_all add: field_of_def field_uid_def pid_uid_make slots_size_def insert_commute)

end
