(* ===== verification/Telemetry_Update.thy ===== *)
theory Telemetry_Update
  imports Telemetry_Layout
begin

text \<open>
  \<open>TelemetryEncoder::update\<close> and \<open>sync_flush\<close>: what a value does to a known slot, and what becomes
  of the slots that are pending.
\<close>

lemma slot_lookup_used:
  assumes "used e' = used e" "e_cnt e' = e_cnt e" "e_cnt e \<le> length (e_fields e)" "e_cnt e \<le> length (e_fields e')"
  shows "slot_lookup uid e' = slot_lookup uid e"
proof -
  have "find (\<lambda>i. field_uid (e_fields e' ! i) = uid) [0..<e_cnt e] = find (\<lambda>i. field_uid (e_fields e ! i) = uid) [0..<e_cnt e]"
    by (rule find_cong) (use assms in \<open>auto simp: used_def\<close>, (metis nth_take)+)
  then show ?thesis by (simp add: slot_lookup_def lookup_from_spec assms(2))
qed

lemma enc_wf_used:
  assumes "enc_wf D e" "enc_arrays e'" "e_cnt e' = e_cnt e" "used e' = used e" "e_upd_cnt e' = e_upd_cnt e"
    "e_hash e' = e_hash e" "e_xpdr e' = e_xpdr e"
  shows "enc_wf D e'"
proof -
  have "slot_lookup uid e' = slot_lookup uid e" for uid
    by (rule slot_lookup_used) (use assms enc_arrays_used [of e'] enc_arrays_used [of e] in \<open>auto simp: enc_wf_def\<close>)
  then have "xpdr_view D e' = xpdr_view D e" by (simp add: xpdr_view_def xpdr_index_def)
  then show ?thesis using assms by (simp add: enc_wf_def)
qed

definition stored_flags :: "raw_t \<Rightarrow> type_id_e \<Rightarrow> field_s \<Rightarrow> raw_t \<Rightarrow> enc_flags_s \<Rightarrow> enc_flags_s" where
  "stored_flags raw t f old flags =
     flags\<lparr> ef_to := 0, ef_type := t,
       ef_upd := (ef_upd flags \<or> (old \<noteq> raw \<or> ef_type flags \<noteq> t) \<and> pid_seq (f_pid f) \<noteq> seq_code seq_scheduled) \<rparr>"

lemma set_data_spec:
  assumes "n < slots_size"
  shows "set_data n raw t e = Some (e\<lparr> e_value := (e_value e)[n := raw],
    e_flags := (e_flags e)[n := stored_flags raw t (e_fields e ! n) (e_value e ! n) (e_flags e ! n)] \<rparr>)"
proof -
  have [simp]: "(e_value e)[n := e_value e ! n] = e_value e" by simp
  show ?thesis using assms by (auto simp: set_data_def stored_flags_def Let_def)
qed

text \<open>
  C21: a value for a known field is stored with its type in the field's slot, which is marked for
  transmission when the value or the type is new (a scheduled slot is not); no other slot is
  touched.
\<close>

theorem update_known_slot:
  assumes "enc_wf D e" "pid_uid pid \<in> field_uid ` set (used e)"
  shows "\<exists>i e'. enc_update D pid raw t sync e = Some (ok, e') \<and> enc_wf D e' \<and>
    i < e_cnt e \<and> field_uid (used e ! i) = pid_uid pid \<and> e_fields e' = e_fields e \<and> e_packed e' = e_packed e \<and>
    e_value e' = (e_value e)[i := raw] \<and>
    e_flags e' = (e_flags e)[i := stored_flags raw t (used e ! i) (e_value e ! i) (e_flags e ! i)]"
proof -
  define i where "i = nat (slot_lookup (pid_uid pid) e)"
  have arr: "enc_arrays e" using assms(1) by (simp add: enc_wf_def)
  note len = enc_arrays_used [OF arr]
  have pos: "slot_lookup (pid_uid pid) e \<ge> 0" using slot_lookup_neg [of e "pid_uid pid"] len assms(2) by (simp add: not_less [symmetric])
  have i: "i < e_cnt e" "field_uid (e_fields e ! i) = pid_uid pid" using slot_lookup_pos [OF pos] by (simp_all add: i_def)
  then have "i < slots_size" using arr by (simp add: enc_arrays_def)
  then obtain e' where e': "enc_update D pid raw t sync e = Some (ok, e')"
    "e' = e\<lparr> e_value := (e_value e)[i := raw],
      e_flags := (e_flags e)[i := stored_flags raw t (e_fields e ! i) (e_value e ! i) (e_flags e ! i)] \<rparr>"
    using pos by (simp add: enc_update_def Let_def i_def [symmetric] set_data_spec)
  have "enc_wf D e'"
    by (rule enc_wf_cong [OF assms(1)]) (use arr in \<open>auto simp: e'(2) enc_arrays_def\<close>)
  then show ?thesis using e' i len by (intro exI [of _ i] exI [of _ e']) (simp add: used_nth)
qed

lemma update_known_slot_witness:
  "let e = snd (enc_add sample_dict (field_of 7 fmt_f32) (enc_make 0))
   in \<exists>i e'. enc_update sample_dict 7 0x3F800000 type_real False e = Some (ok, e') \<and> enc_wf sample_dict e' \<and>
    i < e_cnt e \<and> field_uid (used e ! i) = pid_uid 7 \<and> e_fields e' = e_fields e \<and> e_packed e' = e_packed e \<and>
    e_value e' = (e_value e)[i := 0x3F800000] \<and>
    e_flags e' = (e_flags e)[i := stored_flags 0x3F800000 type_real (used e ! i) (e_value e ! i) (e_flags e ! i)]"
  unfolding Let_def
proof (rule update_known_slot)
  let ?f = "field_of 7 fmt_f32"
  have "enc_wf sample_dict (enc_add_all sample_dict [?f] (enc_make 0)) \<and>
      set (used (enc_add_all sample_dict [?f] (enc_make 0))) = set (used (enc_make 0)) \<union> set [?f]"
    by (rule enc_add_all_spec [OF enc_make_wf])
      (simp_all add: used_def enc_make_def enc_clear_def update_feeds_def slots_size_def)
  then show "enc_wf sample_dict (snd (enc_add sample_dict ?f (enc_make 0)))"
    "pid_uid 7 \<in> field_uid ` set (used (snd (enc_add sample_dict ?f (enc_make 0))))"
    by (auto simp: field_of_def field_uid_def pid_uid_make) (simp add: pid_uid_def)
qed

subsection \<open>Pending slots\<close>

definition pending_field :: "uid_t \<Rightarrow> fmt_s \<Rightarrow> field_s" where
  "pending_field uid fmt = \<lparr> f_pid = pid_make uid (pri_code pri_final) (fmts_seq fmt), f_fmt = fmts_fmt fmt \<rparr>"

lemma lookup_from_neg: "lookup_from uid fs is = - 1 \<longleftrightarrow> (\<forall>i\<in>set is. field_uid (fs ! i) \<noteq> uid)"
  by (induction "is") auto

lemma update_pending:
  assumes "enc_wf D e" "pid_uid pid \<notin> field_uid ` set (used e)" "e_cnt e + e_sync e < slots_size"
    "\<forall>i\<in>{e_cnt e..<e_cnt e + e_sync e}. field_uid (e_fields e ! i) \<noteq> pid_uid pid"
    "mandala_fmt D (pid_uid pid) = Some fmt" "fmts_ds fmt \<noteq> ds_code ds_aux"
  defines "pos \<equiv> e_cnt e + e_sync e + 1" and "f \<equiv> pending_field (pid_uid pid) fmt"
  shows "enc_update D pid raw t True e =
    (if pos < slots_size then Some (synced, e\<lparr> e_sync := e_sync e + 1, e_fields := (e_fields e)[pos := f],
        e_value := (e_value e)[pos := raw],
        e_flags := (e_flags e)[pos := stored_flags raw t ((e_fields e)[pos := f] ! pos) (e_value e ! pos) (e_flags e ! pos)] \<rparr>)
     else None)"
proof -
  have "slot_lookup (pid_uid pid) e < 0"
    using slot_lookup_neg [of e] enc_arrays_used [of e] assms(1,2) by (simp add: enc_wf_def)
  moreover have "lookup_from (pid_uid pid) (e_fields e) [e_cnt e..<e_cnt e + e_sync e] = - 1"
    unfolding lookup_from_neg using assms(4) by simp
  ultimately show ?thesis
    using assms(3,5,6) by (simp add: enc_update_def Let_def pos_def f_def pending_field_def set_data_spec)
qed

text \<open>
  A new value is put one slot behind the end of the pending ones, because \<open>pos\<close> is stepped
  before it is used.  The first value that is pending after a flush is therefore not the one that
  the next flush adds: the flush adds the untouched slot before it, a field with the index zero,
  and the value is lost.
\<close>

theorem pending_slot_lost:
  assumes "enc_wf D e" "e_sync e = 0" "e_cnt e + 1 < slots_size" "e_fields e ! e_cnt e = no_field"
    "pid_uid pid \<notin> field_uid ` set (used e)" "0 \<notin> field_uid ` set (used e)" "pid_uid pid \<noteq> 0"
    "mandala_fmt D (pid_uid pid) = Some fmt" "fmts_ds fmt \<noteq> ds_code ds_aux"
  shows "\<exists>e1 e2. enc_update D pid raw t True e = Some (synced, e1) \<and> sync_flush D e1 = Some e2 \<and>
    set (used e2) = insert no_field (set (used e)) \<and> pid_uid pid \<notin> field_uid ` set (used e2)"
proof -
  have arr: "enc_arrays e" using assms(1) by (simp add: enc_wf_def)
  let ?pos = "e_cnt e + 1"
  let ?fs = "(e_fields e)[?pos := pending_field (pid_uid pid) fmt]"
  define e1 where "e1 = e\<lparr> e_sync := 1, e_fields := ?fs, e_value := (e_value e)[?pos := raw],
    e_flags := (e_flags e)[?pos := stored_flags raw t (?fs ! ?pos) (e_value e ! ?pos) (e_flags e ! ?pos)] \<rparr>"
  have upd: "enc_update D pid raw t True e = Some (synced, e1)"
    using update_pending [OF assms(1,5) _ _ assms(8,9)] assms(2,3) by (simp add: e1_def)
  have same: "e_cnt e1 = e_cnt e" "used e1 = used e" "e_sync e1 = 1" "e_fields e1 ! e_cnt e = no_field"
    using assms(4) by (simp_all add: e1_def used_def)
  have wf1: "enc_wf D e1"
    by (rule enc_wf_used [OF assms(1)]) (use arr same in \<open>auto simp: e1_def enc_arrays_def\<close>)
  have uid0: "field_uid no_field = 0" by (simp add: field_uid_def no_field_def pid_uid_def)
  have "e_cnt e1 < slots_size" "field_uid no_field \<notin> field_uid ` set (used e1)"
    using assms(3,6) same uid0 by simp_all
  then obtain e' n where e': "enc_add D no_field e1 = (True, e')" "n \<le> e_cnt e1"
    "used e' = take n (used e1) @ no_field # drop n (used e1)"
    using enc_add_inserted [OF wf1, of no_field] by metis
  have used': "set (used e') = insert no_field (set (used e))" unfolding e'(3) same by (rule set_insert_at)
  obtain e2 where e2: "sync_flush D e1 = Some e2" "used e2 = used e'"
    using e'(1) same assms(3) by (auto simp: sync_flush_def Let_def)
  have "pid_uid pid \<notin> field_uid ` set (used e2)" using assms(5,7) used' uid0 e2(2) by auto
  then show ?thesis using upd e2 used' by auto
qed

lemma sample_fmt_7: "mandala_fmt sample_dict 7 = Some (fmt_s_make 7 (type_code type_real) (ds_code ds_normal) (fmt_code fmt_f32) 0)"
  by code_simp

lemma pending_slot_lost_witness:
  "\<exists>e1 e2. enc_update sample_dict 7 5 type_real True (enc_make 0) = Some (synced, e1) \<and> sync_flush sample_dict e1 = Some e2 \<and>
    set (used e2) = insert no_field (set (used (enc_make 0))) \<and> pid_uid 7 \<notin> field_uid ` set (used e2)"
proof (rule pending_slot_lost [OF enc_make_wf])
  have "pid_uid 7 = 7" by (simp add: pid_uid_def)
  then show "mandala_fmt sample_dict (pid_uid 7) =
    Some (fmt_s_make 7 (type_code type_real) (ds_code ds_normal) (fmt_code fmt_f32) 0)" by (simp add: sample_fmt_7)
  show "fmts_ds (fmt_s_make 7 (type_code type_real) (ds_code ds_normal) (fmt_code fmt_f32) 0) \<noteq> ds_code ds_aux"
    by code_simp
qed (simp_all add: enc_make_def enc_clear_def update_feeds_def used_def slots_size_def pid_uid_def)

text \<open>
  C25: the same step leaves the arrays when one slot is left: the new value is stored behind the
  last slot.
\<close>

theorem pending_slot_overflow:
  assumes "enc_wf D e" "e_cnt e + e_sync e + 1 = slots_size" "pid_uid pid \<notin> field_uid ` set (used e)"
    "\<forall>i\<in>{e_cnt e..<e_cnt e + e_sync e}. field_uid (e_fields e ! i) \<noteq> pid_uid pid"
    "mandala_fmt D (pid_uid pid) = Some fmt" "fmts_ds fmt \<noteq> ds_code ds_aux"
  shows "enc_update D pid raw t True e = None"
  using update_pending [OF assms(1,3) _ assms(4-6)] assms(2) by simp

lemma pending_slot_overflow_witness:
  "enc_update sample_dict 7 5 type_real True ((enc_make 0)\<lparr> e_sync := 239 \<rparr>) = None"
proof (rule pending_slot_overflow)
  show "enc_wf sample_dict ((enc_make 0)\<lparr> e_sync := 239 \<rparr>)"
    by (rule enc_wf_cong [OF enc_make_wf [of _ 0]])
      (simp_all add: enc_arrays_def enc_make_def enc_clear_def update_feeds_def slots_size_def)
  have "pid_uid 7 = 7" by (simp add: pid_uid_def)
  then show "mandala_fmt sample_dict (pid_uid 7) =
    Some (fmt_s_make 7 (type_code type_real) (ds_code ds_normal) (fmt_code fmt_f32) 0)" by (simp add: sample_fmt_7)
  show "fmts_ds (fmt_s_make 7 (type_code type_real) (ds_code ds_normal) (fmt_code fmt_f32) 0) \<noteq> ds_code ds_aux"
    by code_simp
qed (simp_all add: enc_make_def enc_clear_def update_feeds_def used_def slots_size_def pid_uid_def field_uid_def no_field_def)

end
