(* ===== verification/Telemetry_Blocks.thy ===== *)
theory Telemetry_Blocks
  imports Telemetry_Encoder
begin

text \<open>
  The format of the values in a frame, as a function of what the frame carries.  The slots that are
  due are taken seven at a time: a code byte with a bit per slot, and the packed values of those
  that are sent, two options to a byte.  A run of blocks with nothing to send becomes the distance to
  the next value, which starts a block of its own.
\<close>

unbundle bit_operations_syntax

subsection \<open>Items\<close>

text \<open>A slot that is due: its index, whether it is an option, and the packed value that is sent.\<close>

type_synonym item = "nat \<times> bool \<times> bytes option"

fun pays :: "item list \<Rightarrow> (bool \<times> bytes) list" where
  "pays [] = []"
| "pays ((i, u, None) # xs) = pays xs"
| "pays ((i, u, Some bs) # xs) = (u, bs) # pays xs"

fun code_bits :: "nat \<Rightarrow> item list \<Rightarrow> u8" where
  "code_bits m [] = 0"
| "code_bits m ((i, u, p) # xs) = (if p = None then 0 else push_bit m 1) OR code_bits (Suc m) xs"

definition nib :: "bytes \<Rightarrow> u8" where
  "nib bs = bs ! 0 AND 0x0F"

text \<open>The values of a block; the first argument is an option that waits for its other half.\<close>

fun payload :: "u8 option \<Rightarrow> (bool \<times> bytes) list \<Rightarrow> bytes" where
  "payload None [] = []"
| "payload (Some v) [] = [v]"
| "payload None ((True, bs) # xs) = payload (Some (nib bs)) xs"
| "payload (Some v) ((True, bs) # xs) = (v OR push_bit 4 (nib bs)) # payload None xs"
| "payload None ((False, bs) # xs) = bs @ payload None xs"
| "payload (Some v) ((False, bs) # xs) = v # bs @ payload None xs"

fun offsets :: "nat \<Rightarrow> bytes" where
  "offsets n = (if n < 127 then [of_nat n OR 0x80] else 0xFF # offsets (n - 127))"

declare offsets.simps [simp del]

definition unsent :: "item \<Rightarrow> bool" where
  "unsent x \<longleftrightarrow> snd (snd x) = None"

text \<open>\<open>start\<close> is the index where the run of empty blocks before the items began.\<close>

function body :: "nat option \<Rightarrow> item list \<Rightarrow> bytes" where
  "body start items =
     (if items = [] then []
      else if list_all unsent (take 7 items)
      then body (Some (case start of None \<Rightarrow> fst (hd items) | Some c \<Rightarrow> c)) (drop 7 items)
      else
        (case start of
           None \<Rightarrow> code_bits 0 (take 7 items) # payload None (pays (take 7 items)) @ body None (drop 7 items)
         | Some c \<Rightarrow>
             (case dropWhile unsent items of
                [] \<Rightarrow> []
              | x # xs \<Rightarrow> offsets (fst x - c) @ payload None (pays [x]) @ body None xs)))"
  by pat_completeness auto
termination
proof (relation "measure (\<lambda>(start, items). length items)", goal_cases)
  case (4 start items c x xs)
  then show ?case using length_dropWhile_le [of unsent items] by simp
qed auto

declare body.simps [simp del]

subsection \<open>Appending\<close>

lemma pays_append: "pays (xs @ ys) = pays xs @ pays ys"
  by (induction xs rule: pays.induct) auto

lemma pays_unsent: "list_all unsent xs \<longleftrightarrow> pays xs = []"
  by (induction xs rule: pays.induct) (auto simp: unsent_def)

lemma code_bits_append: "code_bits m (xs @ ys) = code_bits m xs OR code_bits (m + length xs) ys"
  by (induction m xs rule: code_bits.induct) (auto simp: or.assoc)

lemma code_bits_unsent: "list_all unsent xs \<Longrightarrow> code_bits m xs = 0"
  by (induction m xs rule: code_bits.induct) (auto simp: unsent_def)

lemma bit_code_bits:
  "bit (code_bits m xs) j \<longleftrightarrow> m \<le> j \<and> j < 8 \<and> j - m < length xs \<and> \<not> unsent (xs ! (j - m))"
proof (induction m xs rule: code_bits.induct)
  case (2 m i u p xs)
  show ?case
  proof (cases "j = m")
    case False
    then show ?thesis using 2
      by (cases "m < j") (auto simp: bit_simps Suc_diff_Suc [symmetric] nth_Cons Suc_le_eq split: nat.splits)
  qed (use 2 in \<open>auto simp: bit_simps unsent_def\<close>)
qed simp

fun waiting :: "u8 option \<Rightarrow> (bool \<times> bytes) list \<Rightarrow> u8 option" where
  "waiting p [] = p"
| "waiting p ((u, bs) # xs) = waiting (if u \<and> p = None then Some (nib bs) else None) xs"

fun settled :: "u8 option \<Rightarrow> (bool \<times> bytes) list \<Rightarrow> bytes" where
  "settled p [] = []"
| "settled None ((True, bs) # xs) = settled (Some (nib bs)) xs"
| "settled (Some v) ((True, bs) # xs) = (v OR push_bit 4 (nib bs)) # settled None xs"
| "settled None ((False, bs) # xs) = bs @ settled None xs"
| "settled (Some v) ((False, bs) # xs) = v # bs @ settled None xs"

lemma payload_append: "payload p (xs @ ys) = settled p xs @ payload (waiting p xs) ys"
  by (induction p xs rule: settled.induct) auto

lemma payload_settled: "payload p xs = settled p xs @ (case waiting p xs of None \<Rightarrow> [] | Some v \<Rightarrow> [v])"
  using payload_append [of p xs "[]"] by (cases "waiting p xs") auto

lemma waiting_append: "waiting p (xs @ ys) = waiting (waiting p xs) ys"
  by (induction p xs rule: waiting.induct) auto

lemma settled_append: "settled p (xs @ ys) = settled p xs @ settled (waiting p xs) ys"
  by (induction p xs rule: settled.induct) auto

subsection \<open>Item by item\<close>

text \<open>
  What is written, how many empty code bytes follow it, the index where they began, and the items of
  the block that is being filled.
\<close>

type_synonym packer = "bytes \<times> nat \<times> nat \<times> item list"

definition close_block :: "bytes \<Rightarrow> item list \<Rightarrow> bytes" where
  "close_block pre blk = (if list_all unsent blk then pre else pre @ code_bits 0 blk # payload None (pays blk))"

fun pk_step :: "item \<Rightarrow> packer \<Rightarrow> packer" where
  "pk_step x (pre, z, c, blk) =
     (let c = (if z = 0 \<and> blk = [] then fst x else c)
      in if \<not> unsent x \<and> z > 0 then (pre @ offsets (fst x - c) @ payload None (pays [x]), 0, c, [])
         else if length blk = 6 then
           (if list_all unsent (blk @ [x]) then (pre, z + 1, c, []) else (close_block pre (blk @ [x]), 0, c, []))
         else (pre, z, c, blk @ [x]))"

fun pk_out :: "packer \<Rightarrow> bytes" where
  "pk_out (pre, z, c, blk) = close_block pre blk"

lemma pk_fill:
  assumes "length blk + length xs < 7" "z = 0 \<or> list_all unsent xs"
  shows "fold pk_step xs (pre, z, c, blk) = (pre, z, if z = 0 \<and> blk = [] \<and> xs \<noteq> [] then fst (hd xs) else c, blk @ xs)"
  using assms by (induction xs arbitrary: blk c) auto

lemma pk_block:
  assumes "length xs = 7" "z = 0 \<or> list_all unsent xs"
    and c'_def: "c' = (if z = 0 then fst (hd xs) else c)"
  shows "fold pk_step xs (pre, z, c, []) =
    (if list_all unsent xs then (pre, z + 1, c', []) else (close_block pre xs, 0, c', []))"
proof -
  define ys y where "ys = butlast xs" "y = last xs"
  have "xs \<noteq> []" using assms(1) by auto
  then have xs: "xs = ys @ [y]" "length ys = 6" using assms(1) by (simp_all add: ys_y_def)
  have "fold pk_step ys (pre, z, c, []) = (pre, z, if z = 0 \<and> ys \<noteq> [] then fst (hd ys) else c, ys)"
    using pk_fill [of "[]" ys z pre c] assms(2) xs by auto
  moreover have "ys \<noteq> []" using xs(2) by auto
  moreover from this have "hd xs = hd ys" using xs(1) by simp
  ultimately show ?thesis using assms(2) xs by (auto simp: c'_def)
qed

lemma pk_unsent_run:
  assumes "list_all unsent xs" "z > 0" "list_all unsent blk" "length blk < 7"
  shows "\<exists>z' blk'. fold pk_step xs (pre, z, c, blk) = (pre, z', c, blk') \<and> z' > 0 \<and> list_all unsent blk' \<and> length blk' < 7"
  using assms
proof (induction xs arbitrary: z blk)
  case Nil
  then show ?case by auto
next
  case (Cons x xs)
  have "\<exists>z1 blk1. pk_step x (pre, z, c, blk) = (pre, z1, c, blk1) \<and> z1 > 0 \<and> list_all unsent blk1 \<and> length blk1 < 7"
    using Cons.prems by auto
  then show ?case using Cons.IH Cons.prems(1) by auto
qed

lemma pk_body:
  "pk_out (fold pk_step items (pre, z, c, [])) = pre @ body (if z = 0 then None else Some c) items"
proof (induction "length items" arbitrary: items pre z c rule: less_induct)
  case less
  let ?start = "if z = 0 then None else Some c"
  let ?c = "if z = 0 then fst (hd items) else c"
  consider "items = []" | "items \<noteq> []" "list_all unsent (take 7 items)"
    | "\<not> list_all unsent (take 7 items)" "z = 0" | "\<not> list_all unsent (take 7 items)" "z > 0" by fastforce
  then show ?case
  proof cases
    case 1
    then show ?thesis by (simp add: body.simps close_block_def)
  next
    case 2
    have body: "body ?start items = body (Some ?c) (drop 7 items)"
      using 2 by (simp add: body.simps [of ?start items])
    show ?thesis
    proof (cases "length items < 7")
      case True
      then have "fold pk_step items (pre, z, c, []) = (pre, z, ?c, items)"
        using pk_fill [of "[]" items z pre c] 2 by simp
      then show ?thesis unfolding body using 2 True by (simp add: close_block_def body.simps)
    next
      case False
      have hd: "hd (take 7 items) = hd items" using 2(1) by simp
      have "fold pk_step (take 7 items) (pre, z, c, []) = (pre, z + 1, ?c, [])"
        using pk_block [of "take 7 items" z _ c pre, OF _ _ refl] 2 False hd by auto
      then have "fold pk_step items (pre, z, c, []) = fold pk_step (drop 7 items) (pre, z + 1, ?c, [])"
        by (metis append_take_drop_id fold_append comp_apply)
      then show ?thesis unfolding body using less [of "drop 7 items" pre "z + 1" ?c] False by simp
    qed
  next
    case 3
    then have body: "body ?start items =
        code_bits 0 (take 7 items) # payload None (pays (take 7 items)) @ body None (drop 7 items)"
      by (auto simp: body.simps [of None items])
    show ?thesis
    proof (cases "length items < 7")
      case True
      then have "fold pk_step items (pre, z, c, []) = (pre, z, ?c, items)"
        using pk_fill [of "[]" items z pre c] 3 by auto
      then show ?thesis unfolding body using 3 True by (simp add: close_block_def body.simps)
    next
      case False
      have "fold pk_step (take 7 items) (pre, z, c, []) = (close_block pre (take 7 items), 0, fst (hd (take 7 items)), [])"
        using pk_block [of "take 7 items" z _ c pre, OF _ _ refl] 3 False by auto
      then have "fold pk_step items (pre, z, c, []) =
          fold pk_step (drop 7 items) (close_block pre (take 7 items), 0, fst (hd (take 7 items)), [])"
        by (metis append_take_drop_id fold_append comp_apply)
      then show ?thesis
        unfolding body using less [of "drop 7 items" "close_block pre (take 7 items)" 0] False 3 by (simp add: close_block_def)
    qed
  next
    case 4
    obtain x xs where split: "dropWhile unsent items = x # xs"
      using 4(1) by (cases "dropWhile unsent items") (auto simp: list_all_iff dest: in_set_takeD)
    have sent: "\<not> unsent x" using hd_dropWhile [of unsent items] split by auto
    have items: "items = takeWhile unsent items @ x # xs" by (simp add: split [symmetric])
    have body: "body ?start items = offsets (fst x - c) @ payload None (pays [x]) @ body None xs"
      using 4 split by (auto simp: body.simps [of "Some c" items])
    have "list_all unsent (takeWhile unsent items)" by (auto simp: list_all_iff dest: set_takeWhileD)
    then obtain z' blk where run: "fold pk_step (takeWhile unsent items) (pre, z, c, []) = (pre, z', c, blk)" "z' > 0"
      using pk_unsent_run [of "takeWhile unsent items" z "[]" pre c] 4(2) by auto
    have "fold pk_step items (pre, z, c, []) = fold pk_step xs (pk_step x (fold pk_step (takeWhile unsent items) (pre, z, c, [])))"
      by (subst items) simp
    also have "\<dots> = fold pk_step xs (pre @ offsets (fst x - c) @ payload None (pays [x]), 0, c, [])"
      using run sent by simp
    finally have "fold pk_step items (pre, z, c, []) = \<dots>" .
    moreover have "length xs < length items" by (subst items) simp
    ultimately show ?thesis unfolding body using less [of xs "pre @ offsets (fst x - c) @ payload None (pays [x])" 0 c] by simp
  qed
qed

end
