(* ===== verification/Telemetry_Packing.thy ===== *)
theory Telemetry_Packing
  imports Telemetry_Blocks Telemetry_Layout
begin

text \<open>
  The loop of \<open>encode_values\<close> writes the values in the format of \<open>Telemetry_Blocks\<close>, and its
  stores stay inside the stream when there is room for five bytes a slot.
\<close>

unbundle bit_operations_syntax

subsection \<open>Packed values\<close>

lemma length_packs: "pack8 v = Some bs \<Longrightarrow> length bs = 1" "pack16 w = Some bs \<Longrightarrow> length bs = 2"
    "pack32 u = Some bs \<Longrightarrow> length bs = 4"
  by (auto simp: pack8_def pack16_def pack32_def)

text \<open>The bytes of a format.\<close>

fun fmt_width :: "fmt_e \<Rightarrow> nat" where
  "fmt_width fmt_none = 0"
| "fmt_width fmt_bit = 0"
| "fmt_width fmt_f32 = 4"
| "fmt_width fmt_u32 = 4"
| "fmt_width fmt_a32 = 4"
| "fmt_width fmt_u16 = 2"
| "fmt_width fmt_f16 = 2"
| "fmt_width fmt_s16_rad = 2"
| "fmt_width fmt_s16_rad2 = 2"
| "fmt_width fmt_u16_10 = 2"
| "fmt_width _ = 1"

definition width_of :: "u8 \<Rightarrow> nat" where
  "width_of fmt = (case fmt_of_code fmt of None \<Rightarrow> 0 | Some f \<Rightarrow> fmt_width f)"

lemma length_pack_fmt: "pack_fmt raw t f = Some bs \<Longrightarrow> length bs = fmt_width f"
  by (cases f) (auto dest!: length_packs)

lemma length_pack_value: "pack_value raw t fmt = Some bs \<Longrightarrow> length bs = width_of fmt"
  by (auto simp: pack_value_def width_of_def dest: length_pack_fmt split: option.splits)

lemma fmt_width_le: "fmt_width f \<le> 4"
  by (cases f) auto

lemma width_of_le: "width_of fmt \<le> 4"
  by (simp add: width_of_def fmt_width_le split: option.split)

lemma with_junk_bytes:
  assumes "length bs \<le> 4"
  shows "le_bytes 4 (with_junk bs r) = bs @ drop (length bs) (le_bytes 4 r)"
  using le_bytes_of_le [of "bs @ drop (length bs) (le_bytes 4 r)", where 'a = 32] assms by (simp add: with_junk_def)

lemma take_with_junk: "length bs \<le> 4 \<Longrightarrow> take (length bs) (le_bytes 4 (with_junk bs r)) = bs"
  by (simp add: with_junk_bytes)

lemma ucast_with_junk:
  assumes "length bs \<le> 4" "bs \<noteq> []"
  shows "ucast (with_junk bs r) = (bs ! 0 :: u8)"
proof -
  have "ucast (with_junk bs r) = le_bytes 4 (with_junk bs r) ! 0" by simp
  also have "\<dots> = bs ! 0" using assms unfolding with_junk_bytes [OF assms(1)] by (simp add: nth_append)
  finally show ?thesis .
qed

subsection \<open>What a slot sends\<close>

definition sent_bytes :: "(nat \<Rightarrow> raw_t) \<Rightarrow> encoder \<Rightarrow> nat \<Rightarrow> bytes option" where
  "sent_bytes junk e i =
     (if ef_upd (e_flags e ! i)
      then case pack_value (e_value e ! i) (ef_type (e_flags e ! i)) (f_fmt (e_fields e ! i)) of
             None \<Rightarrow> None
           | Some bs \<Rightarrow> if e_packed e ! i = with_junk bs (junk i) then None else Some bs
      else None)"

definition item_at :: "(nat \<Rightarrow> raw_t) \<Rightarrow> encoder \<Rightarrow> nat \<Rightarrow> item" where
  "item_at junk e i = (i, is_fmt fmt_u4 (e_fields e ! i), sent_bytes junk e i)"

definition packable :: "encoder \<Rightarrow> nat \<Rightarrow> bool" where
  "packable e i \<longleftrightarrow> ef_upd (e_flags e ! i) \<longrightarrow>
     pack_value (e_value e ! i) (ef_type (e_flags e ! i)) (f_fmt (e_fields e ! i)) \<noteq> None \<and>
     width_of (f_fmt (e_fields e ! i)) > 0"

text \<open>The encoder after the pass of a slot.\<close>

definition sent_state :: "(nat \<Rightarrow> raw_t) \<Rightarrow> nat \<Rightarrow> encoder \<Rightarrow> encoder" where
  "sent_state junk i e =
     e\<lparr> e_flags := (e_flags e)[i := (e_flags e ! i)\<lparr> ef_upd := False \<rparr>],
        e_packed := (case sent_bytes junk e i of None \<Rightarrow> e_packed e
                     | Some bs \<Rightarrow> (e_packed e)[i := with_junk bs (junk i)]) \<rparr>"

subsection \<open>The stream\<close>

lemma poke_out:
  assumes "writer_ok w" "i < length (w_out w)"
  shows "\<exists>w'. poke i f w = Some w' \<and> writer_ok w' \<and> w_size w' = w_size w \<and> w_out w' = (w_out w)[i := f (w_out w ! i)]"
  using assms by (auto simp: poke_def writer_ok_def w_out_def take_update_swap)

lemma w_reset_out:
  assumes "writer_ok w" "p \<le> length (w_out w)"
  shows "writer_ok (w_reset p w) \<and> w_size (w_reset p w) = w_size w \<and> w_out (w_reset p w) = take p (w_out w)"
proof -
  have "p \<le> w_pos w" using assms length_w_out by simp
  then show ?thesis using assms(1) by (auto simp: w_reset_def writer_ok_def w_out_def)
qed

lemma write_u8_out:
  assumes "writer_ok w" "length (w_out w) < w_size w"
  shows "\<exists>n w'. write_u8 v w = Some (n, w') \<and> writer_ok w' \<and> w_size w' = w_size w \<and> w_out w' = w_out w @ [v]"
proof -
  have "w_pos w + length [v] \<le> w_size w" using assms length_w_out by simp
  then show ?thesis using puts_u8 [of v] assms(1) unfolding puts_def by blast
qed

lemma write_mem_out:
  assumes "writer_ok w" "length (w_out w) + n \<le> w_size w" "n \<le> length src"
  shows "\<exists>k w'. write_mem src n w = Some (k, w') \<and> writer_ok w' \<and> w_size w' = w_size w \<and> w_out w' = w_out w @ take n src"
proof -
  have "write_mem src n w = write_mem (take n src) n w" using assms(3) by (simp add: write_mem_def Let_def min_def)
  moreover have "w_pos w + length (take n src) \<le> w_size w" "puts (write_mem (take n src) n) (take n src)"
    using assms length_w_out by (simp_all add: puts_mem)
  ultimately show ?thesis using assms(1) unfolding puts_def by metis
qed

lemma length_offsets: "n < 254 \<Longrightarrow> length (offsets n) \<le> 2"
proof (cases "n < 127")
  case False
  assume "n < 254"
  then have "n - 127 < 127" by simp
  then show ?thesis using False by (simp add: offsets.simps [of n] offsets.simps [of "n - 127"])
qed (simp add: offsets.simps [of n])

lemma offset_loop_out:
  assumes "writer_ok w" "n < 256" "n > 0 \<or> off = 0x7F" "length (w_out w) + length (offsets n) \<le> w_size w"
  shows "\<exists>w'. offset_loop (of_nat n) off w = Some w' \<and> writer_ok w' \<and> w_size w' = w_size w \<and> w_out w' = w_out w @ offsets n"
  using assms
proof (induction n arbitrary: off w rule: less_induct)
  case (less n)
  have cond: "(of_nat n :: u8) > 0 \<or> off = 0x7F"
    using less.prems(2,3) by (auto simp: word_gt_0 word_unat_eq_iff unat_of_nat)
  show ?case
  proof (cases "n < 127")
    case True
    then have off: "\<not> (of_nat n :: u8) > 0x7F" "(of_nat n :: u8) \<noteq> 0x7F"
      by (auto simp: word_less_nat_alt unat_of_nat word_unat_eq_iff take_bit_nat_eq_self)
    obtain k w' where w': "write_u8 (of_nat n OR 0x80) w = Some (k, w')" "writer_ok w'" "w_size w' = w_size w"
      "w_out w' = w_out w @ [of_nat n OR 0x80]"
      using write_u8_out [OF less.prems(1), of "of_nat n OR 0x80"] less.prems(4) True by (auto simp: offsets.simps [of n])
    have "offset_loop 0 (of_nat n) w' = Some w'" using off by (simp add: offset_loop.simps)
    then have "offset_loop (of_nat n) off w = Some w'"
      using cond off w' by (simp add: offset_loop.simps [of "of_nat n"])
    then show ?thesis using w' True by (simp add: offsets.simps [of n])
  next
    case False
    have off: "(if (of_nat n :: u8) > 0x7F then 0x7F else of_nat n) = (0x7F :: u8)"
      using False less.prems(2) by (auto simp: word_less_nat_alt unat_of_nat word_unat_eq_iff)
    have sub: "(of_nat n :: u8) - 0x7F = of_nat (n - 127)" using False by simp
    obtain k w' where w': "write_u8 0xFF w = Some (k, w')" "writer_ok w'" "w_size w' = w_size w" "w_out w' = w_out w @ [0xFF]"
      using write_u8_out [OF less.prems(1), of "0xFF"] less.prems(4) False by (auto simp: offsets.simps [of n])
    have small: "n - 127 < 256" using less.prems(2) by simp
    obtain w'' where w'': "offset_loop (of_nat (n - 127)) 0x7F w' = Some w''" "writer_ok w''" "w_size w'' = w_size w'"
      "w_out w'' = w_out w' @ offsets (n - 127)"
      using less.IH [of "n - 127" w' "0x7F"] w' less.prems small False by (auto simp: offsets.simps [of n])
    have "(0x7F :: u8) OR 0x80 = 0xFF" by simp
    then have "offset_loop (of_nat n) off w = Some w''"
      using cond w' w''(1) by (simp add: offset_loop.simps [of "of_nat n" off] off sub)
    then show ?thesis using w' w'' False by (simp add: offsets.simps [of n])
  qed
qed

subsection \<open>The state of the loop\<close>

definition room :: "nat \<Rightarrow> bytes \<Rightarrow> nat \<Rightarrow> enc_loop \<Rightarrow> bool" where
  "room N base i s \<longleftrightarrow> writer_ok (l_w s) \<and> w_size (l_w s) = N \<and> l_count s = length base \<and> i \<le> 240 \<and>
     length (w_out (l_w s)) \<le> length base + 1 + 5 * i"

text \<open>
  Before the slot \<open>i\<close>, with \<open>k\<close> values sent; \<open>coded\<close> is the state when the code byte for the slot
  is there, and \<open>blk\<close> the items in it so far.
\<close>

definition packing :: "nat \<Rightarrow> bytes \<Rightarrow> nat \<Rightarrow> nat \<Rightarrow> enc_loop \<Rightarrow> packer \<Rightarrow> bool" where
  "packing N base k i s A \<longleftrightarrow> room N base i s \<and>
     (case A of (pre, z, c, blk) \<Rightarrow>
        length blk < 7 \<and> (z = 0 \<or> list_all unsent blk) \<and> z \<le> i \<and>
        w_out (l_w s) = base @ of_nat k # pre @ replicate z 0 @ (if blk = [] then [] else code_bits 0 blk # payload None (pays blk)) \<and>
        l_bit s = (if blk = [] then 0x40 else push_bit (length blk - 1) 1) \<and>
        l_zero s = of_nat (if blk \<noteq> [] \<and> list_all unsent blk then z + 1 else z) \<and>
        l_data s = length base + 1 + length (close_block pre blk) \<and>
        (z > 0 \<or> blk \<noteq> [] \<and> list_all unsent blk \<longrightarrow> l_first s = of_nat c \<and> c < i) \<and>
        (blk \<noteq> [] \<longrightarrow> z < i \<and> l_code s = length base + 1 + length pre + z \<and>
           l_nibble_n s = (if waiting None (pays blk) = None then 0 else 1) \<and>
           (waiting None (pays blk) \<noteq> None \<longrightarrow> l_nibble s = length (w_out (l_w s)) - 1)))"

definition coded :: "nat \<Rightarrow> bytes \<Rightarrow> nat \<Rightarrow> nat \<Rightarrow> enc_loop \<Rightarrow> packer \<Rightarrow> bool" where
  "coded N base k i s A \<longleftrightarrow> writer_ok (l_w s) \<and> w_size (l_w s) = N \<and> l_count s = length base \<and> i < 240 \<and>
     length (w_out (l_w s)) \<le> length base + 1 + 5 * i + 1 \<and>
     (case A of (pre, z, c, blk) \<Rightarrow>
        length blk < 7 \<and> (z = 0 \<or> list_all unsent blk) \<and> z \<le> i \<and>
        w_out (l_w s) = base @ of_nat k # pre @ replicate z 0 @ code_bits 0 blk # payload None (pays blk) \<and>
        l_bit s = push_bit (length blk) 1 \<and>
        l_zero s = of_nat (if list_all unsent blk then z + 1 else z) \<and>
        l_data s = length base + 1 + length (close_block pre blk) \<and>
        (list_all unsent blk \<longrightarrow> l_first s = of_nat c \<and> c \<le> i \<and> (z > 0 \<longrightarrow> c < i)) \<and>
        l_code s = length base + 1 + length pre + z \<and>
        l_nibble_n s = (if waiting None (pays blk) = None then 0 else 1) \<and>
        (waiting None (pays blk) \<noteq> None \<longrightarrow> l_nibble s = length (w_out (l_w s)) - 1))"

lemma push_bit_40: "n < 6 \<Longrightarrow> push_bit n (1 :: u8) \<noteq> 0x40"
proof -
  assume "n < 6"
  then have "n \<in> {0, 1, 2, 3, 4, 5}" by auto
  then show ?thesis by auto
qed

lemma of_nat_u8_eq_0: "n < 256 \<Longrightarrow> (of_nat n :: u8) = 0 \<longleftrightarrow> n = 0"
  by (simp add: word_unat_eq_iff unat_of_nat)

lemma enc_code_coded:
  assumes "packing N base k i s (pre, z, c, blk)" "i < 240" "length base + 1 + 5 * i < N"
  defines "c' \<equiv> if z = 0 \<and> blk = [] then i else c"
  shows "\<exists>s'. enc_code i s = Some s' \<and> coded N base k i s' (pre, z, c', blk)"
proof (cases "blk = []")
  case True
  have p: "writer_ok (l_w s)" "w_size (l_w s) = N" "l_count s = length base" "z \<le> i"
    "length (w_out (l_w s)) \<le> length base + 1 + 5 * i" "l_zero s = of_nat z" "l_bit s = 0x40"
    "w_out (l_w s) = base @ of_nat k # pre @ replicate z 0" "l_data s = length base + 1 + length pre"
    "z > 0 \<longrightarrow> l_first s = of_nat c \<and> c < i"
    using assms(1) True by (auto simp: packing_def room_def close_block_def)
  obtain n w' where w': "write_u8 0 (l_w s) = Some (n, w')" "writer_ok w'" "w_size w' = N" "w_out w' = w_out (l_w s) @ [0]"
    using write_u8_out [OF p(1), of 0] p(2,5) assms(3) by auto
  have pos: "w_pos (l_w s) = length base + 1 + length pre + z" using length_w_out [OF p(1)] p(8) by simp
  have z: "(of_nat z :: u8) = 0 \<longleftrightarrow> z = 0" using p(4) assms(2) by (intro of_nat_u8_eq_0) simp
  show ?thesis
    using p w' pos z True assms(2) by (auto simp: enc_code_def coded_def c'_def close_block_def)
next
  case False
  have "length blk - 1 < 6" using assms(1) False by (cases blk) (auto simp: packing_def)
  then have "l_bit s \<noteq> 0x40" using assms(1) False push_bit_40 [of "length blk - 1"] by (simp add: packing_def)
  then have "enc_code i s = Some (s\<lparr> l_bit := push_bit 1 (l_bit s) \<rparr>)" by (simp add: enc_code_def)
  moreover have "push_bit 1 (push_bit (length blk - 1) (1 :: u8)) = push_bit (length blk) 1"
    using False by (cases blk) simp_all
  ultimately show ?thesis
    using assms(1,2) False by (auto simp: packing_def room_def coded_def c'_def)
qed

lemma coded_unsent:
  assumes "coded N base k i s (pre, z, if z = 0 \<and> blk = [] then i else c, blk)" "unsent x" "fst x = i"
  shows "packing N base k (i + 1) s (pk_step x (pre, z, c, blk))"
proof -
  have x: "pays [x] = []" "code_bits m [x] = 0" for m
    using assms(2) pays_unsent [of "[x]"] code_bits_unsent [of "[x]"] by simp_all
  have app: "pays (blk @ [x]) = pays blk" "code_bits 0 (blk @ [x]) = code_bits 0 blk"
    "list_all unsent (blk @ [x]) = list_all unsent blk" "close_block pre (blk @ [x]) = close_block pre blk"
    using assms(2) x by (simp_all add: pays_append code_bits_append close_block_def)
  have step: "pk_step x (pre, z, c, blk) =
    (let c = if z = 0 \<and> blk = [] then i else c
     in if length blk = 6 then (if list_all unsent blk then (pre, z + 1, c, []) else (close_block pre blk, 0, c, []))
        else (pre, z, c, blk @ [x]))"
    using assms(2,3) by (simp add: Let_def app)
  show ?thesis
  proof (cases "length blk = 6")
    case True
    then have ne: "blk \<noteq> []" by auto
    show ?thesis
    proof (cases "list_all unsent blk")
      case u: True
      then have "pays blk = []" "code_bits 0 blk = 0" by (simp_all add: pays_unsent code_bits_unsent)
      then show ?thesis
        using assms(1) True ne u unfolding step
        by (auto simp: packing_def room_def coded_def close_block_def replicate_append_same)
    next
      case s: False
      then show ?thesis
        using assms(1) True ne unfolding step by (auto simp: packing_def room_def coded_def close_block_def)
    qed
  next
    case False
    then show ?thesis
      using assms(1,2) unfolding step by (auto simp: packing_def room_def coded_def app)
  qed
qed

subsection \<open>A value that is sent\<close>

definition nib_state :: "enc_loop \<Rightarrow> u8 option \<Rightarrow> bool" where
  "nib_state s p \<longleftrightarrow> l_nibble_n s = (if p = None then 0 else 1) \<and>
     (p \<noteq> None \<longrightarrow> l_nibble s = length (w_out (l_w s)) - 1)"

definition half :: "u8 option \<Rightarrow> bytes" where
  "half p = (case p of None \<Rightarrow> [] | Some v \<Rightarrow> [v])"

lemma payload_half: "payload p xs = settled p xs @ half (waiting p xs)"
  by (simp add: payload_settled half_def)

lemma enc_payload_out:
  assumes "writer_ok (l_w s)" "w_out (l_w s) = pre @ half p" "nib_state s p" "length (w_out (l_w s)) + 4 \<le> w_size (l_w s)"
    "length bs \<le> 4" "bs \<noteq> []" "length bs = n" "u = (fmt = fmt_code fmt_u4)"
    "p \<noteq> None \<longrightarrow> l_data s = length (w_out (l_w s))"
  shows "\<exists>s'. enc_payload fmt (with_junk bs r) n s = Some s' \<and> writer_ok (l_w s') \<and> w_size (l_w s') = w_size (l_w s) \<and>
    w_out (l_w s') = pre @ payload p [(u, bs)] \<and> nib_state s' (waiting p [(u, bs)]) \<and>
    l_data s' = length (w_out (l_w s')) \<and> l_count s' = l_count s \<and> l_bit s' = l_bit s \<and> l_code s' = l_code s"
proof (cases u)
  case False
  obtain k w' where w': "write_mem (le_bytes 4 (with_junk bs r)) n (l_w s) = Some (k, w')" "writer_ok w'"
    "w_size w' = w_size (l_w s)" "w_out w' = w_out (l_w s) @ take n (le_bytes 4 (with_junk bs r))"
    using write_mem_out [OF assms(1), of n "le_bytes 4 (with_junk bs r)"] assms(4,5,7) by auto
  have "w_pos w' = length (w_out w')" using length_w_out [OF w'(2)] by simp
  then show ?thesis
    using w' assms False take_with_junk [OF assms(5)]
    by (cases p) (auto simp: enc_payload_def half_def nib_state_def)
next
  case True
  have v: "ucast (with_junk bs r) AND 0x0F = nib bs" using ucast_with_junk [OF assms(5,6)] by (simp add: nib_def)
  show ?thesis
  proof (cases p)
    case None
    obtain k w' where w': "write_u8 (nib bs) (l_w s) = Some (k, w')" "writer_ok w'" "w_size w' = w_size (l_w s)"
      "w_out w' = w_out (l_w s) @ [nib bs]"
      using write_u8_out [OF assms(1), of "nib bs"] assms(4) by auto
    have "w_pos w' = length (w_out w')" "w_pos (l_w s) = length (w_out (l_w s))"
      using length_w_out [OF w'(2)] length_w_out [OF assms(1)] by simp_all
    then show ?thesis using w' assms True None v by (auto simp: enc_payload_def half_def nib_state_def)
  next
    case (Some a)
    obtain w' where w': "poke (l_nibble s) (\<lambda>c. c OR push_bit 4 (nib bs)) (l_w s) = Some w'" "writer_ok w'"
      "w_size w' = w_size (l_w s)" "w_out w' = (w_out (l_w s))[l_nibble s := w_out (l_w s) ! l_nibble s OR push_bit 4 (nib bs)]"
      using poke_out [OF assms(1), of "l_nibble s" "\<lambda>c. c OR push_bit 4 (nib bs)"] assms(2,3) Some
      by (auto simp: nib_state_def half_def)
    then show ?thesis using assms True Some v by (auto simp: enc_payload_def half_def nib_state_def list_update_append nth_append)
  qed
qed

lemma enc_mark_block:
  assumes "coded N base k i s (pre, 0, c, blk)"
  shows "\<exists>w. enc_mark i s = Some (s\<lparr> l_w := w \<rparr>) \<and> writer_ok w \<and> w_size w = N \<and>
    w_out w = base @ of_nat k # pre @ (code_bits 0 blk OR push_bit (length blk) 1) # payload None (pays blk)"
proof -
  have c: "writer_ok (l_w s)" "w_size (l_w s) = N" "l_zero s = of_nat (if list_all unsent blk then 1 else 0)"
    "w_out (l_w s) = base @ of_nat k # pre @ code_bits 0 blk # payload None (pays blk)"
    "l_code s = length base + 1 + length pre" "l_bit s = push_bit (length blk) 1"
    using assms(1) by (auto simp: coded_def)
  have "\<not> l_zero s \<ge> 2" using c(3) by (auto simp: word_le_nat_alt)
  moreover obtain w where "poke (l_code s) (\<lambda>c. c OR l_bit s) (l_w s) = Some w" "writer_ok w" "w_size w = w_size (l_w s)"
    "w_out w = (w_out (l_w s))[l_code s := w_out (l_w s) ! l_code s OR l_bit s]"
    using poke_out [OF c(1), of "l_code s" "\<lambda>c. c OR l_bit s"] c(4,5) by auto
  ultimately show ?thesis
    using c by (auto simp: enc_mark_def list_update_append nth_append)
qed

lemma enc_mark_offset:
  assumes "coded N base k i s (pre, z, c, blk)" "z > 0" "length base + 1 + 5 * i + 5 \<le> N"
  shows "\<exists>w. enc_mark i s = Some (s\<lparr> l_w := w, l_bit := 0x40 \<rparr>) \<and> writer_ok w \<and> w_size w = N \<and>
    w_out w = base @ of_nat k # pre @ offsets (i - c) \<and> length pre + length (offsets (i - c)) \<le> 5 * i + 1"
proof -
  have c: "writer_ok (l_w s)" "w_size (l_w s) = N" "l_zero s = of_nat (z + 1)" "i < 240" "z \<le> i" "c < i" "l_first s = of_nat c"
    "w_out (l_w s) = base @ of_nat k # pre @ replicate (z + 1) 0"
    "length (w_out (l_w s)) \<le> length base + 1 + 5 * i + 1"
    using assms(1,2) by (auto simp: coded_def pays_unsent code_bits_unsent replicate_append_same)
  have zero: "unat (l_zero s) = z + 1" using c(3-5) by (simp add: unat_of_nat del: of_nat_add of_nat_Suc)
  then have ge: "l_zero s \<ge> 2" using assms(2) by (simp add: word_le_nat_alt)
  have small: "length (w_out (l_w s)) < 2 ^ 64" "z + 1 \<le> length (w_out (l_w s))"
    using c(1,8) length_w_out [OF c(1)] by (auto simp: writer_ok_def)
  have pos: "size_sub (w_pos (l_w s)) (unat (l_zero s)) = length base + 1 + length pre"
    using small length_w_out [OF c(1)] c(8) zero by simp
  define w1 where "w1 = w_reset (length base + 1 + length pre) (l_w s)"
  have w1: "writer_ok w1" "w_size w1 = N" "w_out w1 = base @ of_nat k # pre"
    using w_reset_out [OF c(1), of "length base + 1 + length pre"] c(2,8) by (auto simp: w1_def)
  have d: "of_nat i - l_first s = (of_nat (i - c) :: u8)" using c(6,7) by simp
  have small_d: "i - c < 256" using c(4) by simp
  have len: "length (offsets (i - c)) \<le> 2" using c(4) by (intro length_offsets) simp
  then have fits: "length pre + length (offsets (i - c)) \<le> 5 * i + 1" using c(8,9) assms(2) by simp
  obtain w where "offset_loop (of_nat (i - c)) (of_nat (i - c)) w1 = Some w" "writer_ok w" "w_size w = w_size w1"
    "w_out w = w_out w1 @ offsets (i - c)"
    using offset_loop_out [OF w1(1), of "i - c" "of_nat (i - c)"] w1(2,3) c(6) small_d fits assms(3) by auto
  then show ?thesis
    using w1 ge fits unfolding enc_mark_def pos d Let_def w1_def [symmetric] by (auto simp: d Let_def simp del: of_nat_diff)
qed

lemma packing_sent:
  assumes "writer_ok w" "w_size w = N" "w_out w = base @ of_nat k # out" "l_count s = length base" "l_w s = w"
  shows "\<exists>w'. poke (l_count s) (\<lambda>c. c + 1) w = Some w' \<and> writer_ok w' \<and> w_size w' = N \<and>
    w_out w' = base @ of_nat (Suc k) # out"
proof -
  obtain w' where "poke (l_count s) (\<lambda>c. c + 1) w = Some w'" "writer_ok w'" "w_size w' = w_size w"
    "w_out w' = (w_out w)[l_count s := w_out w ! l_count s + 1]"
    using poke_out [OF assms(1), of "l_count s" "\<lambda>c. c + 1"] assms(3,4) by auto
  then show ?thesis using assms by (auto simp: list_update_append nth_append add.commute)
qed

lemma pk_step_sent:
  assumes "\<not> unsent x" "z = 0 \<or> list_all unsent blk" "length blk < 7"
    and c'_def: "c' = (if z = 0 \<and> blk = [] then fst x else c)"
  shows "pk_step x (pre, z, c, blk) =
    (if z > 0 then (pre @ offsets (fst x - c) @ payload None (pays [x]), 0, c, [])
     else if length blk = 6 then (pre @ code_bits 0 (blk @ [x]) # payload None (pays (blk @ [x])), 0, c', [])
     else (pre, 0, c', blk @ [x]))"
  using assms by (auto simp: Let_def close_block_def)

lemma enc_slot_sent:
  assumes cd: "coded N base k i s (pre, z, if z = 0 \<and> blk = [] then i else c, blk)"
    and space: "length base + 1 + 5 * (i + 1) \<le> N" and bs: "length bs \<le> 4" "bs \<noteq> []"
    and u: "u = (fmt = fmt_code fmt_u4)"
  shows "\<exists>s1 s2 w. enc_mark i s = Some s1 \<and> enc_payload fmt (with_junk bs r) (length bs) s1 = Some s2 \<and>
    poke (l_count s2) (\<lambda>c. c + 1) (l_w s2) = Some w \<and>
    packing N base (k + 1) (i + 1) (s2\<lparr> l_w := w, l_zero := 0 \<rparr>) (pk_step (i, u, Some bs) (pre, z, c, blk))"
proof (cases "z > 0")
  case True
  let ?x = "(i, u, Some bs)"
  have un: "list_all unsent blk" and i: "i < 240" using cd True by (auto simp: coded_def)
  have cd': "coded N base k i s (pre, z, c, blk)" using cd True by simp
  obtain w where w: "enc_mark i s = Some (s\<lparr> l_w := w, l_bit := 0x40 \<rparr>)" "writer_ok w" "w_size w = N"
    "w_out w = base @ of_nat k # pre @ offsets (i - c)" "length pre + length (offsets (i - c)) \<le> 5 * i + 1"
    using enc_mark_offset [OF cd' True] space by auto
  let ?s1 = "s\<lparr> l_w := w, l_bit := 0x40 \<rparr>"
  have nib: "nib_state ?s1 None" using cd' un by (auto simp: coded_def nib_state_def pays_unsent)
  obtain s2 where s2: "enc_payload fmt (with_junk bs r) (length bs) ?s1 = Some s2" "writer_ok (l_w s2)" "w_size (l_w s2) = N"
    "w_out (l_w s2) = w_out w @ payload None [(u, bs)]" "l_data s2 = length (w_out (l_w s2))" "l_count s2 = l_count s"
    "l_bit s2 = 0x40"
    using enc_payload_out [OF _ _ nib _ bs refl u, of "w_out w" r] w space by (auto simp: half_def)
  obtain w' where w': "poke (l_count s2) (\<lambda>c. c + 1) (l_w s2) = Some w'" "writer_ok w'" "w_size w' = N"
    "w_out w' = base @ of_nat (Suc k) # pre @ offsets (i - c) @ payload None [(u, bs)]"
    using packing_sent [OF s2(2,3), of base k _ s2] s2(4,6) w(4) cd by (auto simp: coded_def)
  have len: "length (payload None [(u, bs)]) \<le> 4" using bs by (cases u) auto
  have step: "pk_step ?x (pre, z, c, blk) = (pre @ offsets (i - c) @ payload None (pays [?x]), 0, c, [])"
    using pk_step_sent [of ?x z blk _ c pre, OF _ _ _ refl] True un cd by (simp add: coded_def unsent_def)
  have "packing N base (k + 1) (i + 1) (s2\<lparr> l_w := w', l_zero := 0 \<rparr>) (pk_step ?x (pre, z, c, blk))"
    unfolding step using s2 w' w(4,5) i len cd by (auto simp: packing_def room_def close_block_def coded_def)
  then show ?thesis using w(1) s2(1) w'(1) by blast
next
  case False
  let ?x = "(i, u, Some bs)"
  let ?c = "if z = 0 \<and> blk = [] then i else c"
  have cd': "coded N base k i s (pre, 0, ?c, blk)" using cd False by simp
  have cd_facts: "l_data s = length base + 1 + length (close_block pre blk)" "l_bit s = push_bit (length blk) 1" "length blk < 7"
    "l_code s = length base + 1 + length pre" "l_count s = length base" "i < 240"
    "length (w_out (l_w s)) \<le> length base + 1 + 5 * i + 1"
    "w_out (l_w s) = base @ of_nat k # pre @ code_bits 0 blk # payload None (pays blk)"
    "l_nibble_n s = (if waiting None (pays blk) = None then 0 else 1)"
    "waiting None (pays blk) \<noteq> None \<longrightarrow> l_nibble s = length (w_out (l_w s)) - 1"
    using cd' unfolding coded_def prod.case replicate_0 append_Nil add_0_right by (blast | simp)+
  let ?code = "code_bits 0 blk OR push_bit (length blk) 1"
  have code: "code_bits 0 (blk @ [?x]) = ?code" by (simp add: code_bits_append)
  obtain w where w: "enc_mark i s = Some (s\<lparr> l_w := w \<rparr>)" "writer_ok w" "w_size w = N"
    "w_out w = base @ of_nat k # pre @ ?code # payload None (pays blk)"
    using enc_mark_block [OF cd'] by auto
  let ?s1 = "s\<lparr> l_w := w \<rparr>" and ?p = "waiting None (pays blk)"
  have same: "length (w_out w) = length (w_out (l_w s))" using w(4) cd_facts(8) by simp
  have nib: "nib_state ?s1 ?p" using cd_facts(9,10) same by (simp add: nib_state_def)
  have pre: "w_out w = (base @ of_nat k # pre @ ?code # settled None (pays blk)) @ half ?p"
    using w(4) by (simp add: payload_half)
  have data: "?p \<noteq> None \<longrightarrow> l_data ?s1 = length (w_out w)"
  proof
    assume "?p \<noteq> None"
    then have "\<not> list_all unsent blk" by (auto simp: pays_unsent)
    then show "l_data ?s1 = length (w_out w)" using cd_facts(1) w(4) by (simp add: close_block_def)
  qed
  obtain s2 where s2: "enc_payload fmt (with_junk bs r) (length bs) ?s1 = Some s2" "writer_ok (l_w s2)" "w_size (l_w s2) = N"
    "w_out (l_w s2) = (base @ of_nat k # pre @ ?code # settled None (pays blk)) @ payload ?p [(u, bs)]"
    "nib_state s2 (waiting ?p [(u, bs)])" "l_data s2 = length (w_out (l_w s2))" "l_count s2 = l_count s"
    "l_bit s2 = l_bit s" "l_code s2 = l_code s"
    using enc_payload_out [OF _ _ nib _ bs refl u, of _ r] w(2,3) pre data cd_facts(7) same space by auto
  have pays: "pays (blk @ [?x]) = pays blk @ [(u, bs)]" by (simp add: pays_append)
  have out2: "w_out (l_w s2) = base @ of_nat k # pre @ ?code # payload None (pays (blk @ [?x]))"
    unfolding pays payload_append using s2(4) by simp
  obtain w' where w': "poke (l_count s2) (\<lambda>c. c + 1) (l_w s2) = Some w'" "writer_ok w'" "w_size w' = N"
    "w_out w' = base @ of_nat (Suc k) # pre @ ?code # payload None (pays (blk @ [?x]))"
    using packing_sent [OF s2(2,3) out2, of s2] s2(7) cd_facts(5) by auto
  have len: "length (w_out (l_w s2)) \<le> length (w_out (l_w s)) + 4"
    using same pre s2(4) bs by (cases ?p; cases u) (auto simp: half_def)
  have ne: "\<not> list_all unsent (blk @ [?x])" by (simp add: unsent_def)
  have step: "pk_step ?x (pre, z, c, blk) =
      (if length blk = 6 then (pre @ ?code # payload None (pays (blk @ [?x])), 0, ?c, []) else (pre, 0, ?c, blk @ [?x]))"
    using pk_step_sent [of ?x z blk _ c pre, OF _ _ _ refl] False cd_facts(3) code by (auto simp: unsent_def)
  have close: "close_block pre (blk @ [?x]) = pre @ ?code # payload None (pays (blk @ [?x]))"
    using ne code by (simp add: close_block_def)
  have "packing N base (k + 1) (i + 1) (s2\<lparr> l_w := w', l_zero := 0 \<rparr>) (pk_step ?x (pre, z, c, blk))"
  proof (cases "length blk = 6")
    case True
    then show ?thesis
      unfolding step using s2 w' cd_facts len out2 by (auto simp: packing_def room_def close_block_def)
  next
    case 6: False
    have wait: "waiting None (pays (blk @ [?x])) = waiting ?p [(u, bs)]" unfolding pays waiting_append ..
    have "length (w_out w') = length (w_out (l_w s2))" using w'(4) out2 by simp
    then show ?thesis
      unfolding step if_not_P [OF 6] packing_def prod.case close wait
      using s2 w' cd_facts len out2 6 ne code by (auto simp: room_def nib_state_def)
  qed
  then show ?thesis using w(1) s2(1) w'(1) by blast
qed

lemma enc_slot_step:
  assumes pk: "packing N base k i s A" and i: "i < 240" and ok: "packable e i"
    and space: "length base + 1 + 5 * (i + 1) \<le> N"
  shows "\<exists>s'. enc_slot junk i e s = Some (sent_state junk i e, s') \<and>
    packing N base (k + length (pays [item_at junk e i])) (i + 1) s' (pk_step (item_at junk e i) A)"
proof -
  obtain pre z c blk where A: "A = (pre, z, c, blk)" by (cases A)
  let ?c = "if z = 0 \<and> blk = [] then i else c"
  obtain s0 where s0: "enc_code i s = Some s0" "coded N base k i s0 (pre, z, ?c, blk)"
    using enc_code_coded [OF pk [unfolded A] i] space by auto
  let ?fl = "e_flags e ! i" and ?f = "e_fields e ! i"
  have unsent_case: "packing N base (k + length (pays [item_at junk e i])) (i + 1) s0 (pk_step (item_at junk e i) A)"
    if "sent_bytes junk e i = None"
    using coded_unsent [OF s0(2), of "item_at junk e i"] that unfolding A by (simp add: item_at_def unsent_def)
  show ?thesis
  proof (cases "ef_upd ?fl")
    case False
    then have "?fl\<lparr> ef_upd := False \<rparr> = ?fl" by (cases ?fl) simp
    then have "(e_flags e)[i := ?fl\<lparr> ef_upd := False \<rparr>] = e_flags e" by (simp only: list_update_id)
    then have "sent_bytes junk e i = None" "sent_state junk i e = e"
      using False by (simp_all add: sent_bytes_def sent_state_def)
    then show ?thesis using unsent_case s0(1) False by (simp add: enc_slot_def)
  next
    case True
    then obtain bs where bs: "pack_value (e_value e ! i) (ef_type ?fl) (f_fmt ?f) = Some bs" "width_of (f_fmt ?f) > 0"
      using ok by (auto simp: packable_def)
    then have len: "length bs \<le> 4" "bs \<noteq> []" using length_pack_value [OF bs(1)] width_of_le by auto
    show ?thesis
    proof (cases "e_packed e ! i = with_junk bs (junk i)")
      case same: True
      then have none: "sent_bytes junk e i = None" using True bs by (simp add: sent_bytes_def)
      then show ?thesis
        using unsent_case [OF none] s0(1) True bs same by (simp add: enc_slot_def sent_state_def Let_def)
    next
      case False
      then have sent: "sent_bytes junk e i = Some bs" using True bs by (simp add: sent_bytes_def)
      obtain s1 s2 w where s: "enc_mark i s0 = Some s1" "enc_payload (f_fmt ?f) (with_junk bs (junk i)) (length bs) s1 = Some s2"
        "poke (l_count s2) (\<lambda>c. c + 1) (l_w s2) = Some w"
        "packing N base (k + 1) (i + 1) (s2\<lparr> l_w := w, l_zero := 0 \<rparr>) (pk_step (i, is_fmt fmt_u4 ?f, Some bs) (pre, z, c, blk))"
        using enc_slot_sent [OF s0(2) space len, of "is_fmt fmt_u4 ?f" "f_fmt ?f" "junk i"] by (auto simp: is_fmt_def)
      then show ?thesis
        unfolding A using s0(1) True bs False sent
        by (simp add: enc_slot_def sent_state_def Let_def item_at_def)
    qed
  qed
qed

subsection \<open>All slots\<close>

definition due_from :: "u8 \<Rightarrow> field_s list \<Rightarrow> nat \<Rightarrow> nat \<Rightarrow> nat list" where
  "due_from pseq fs i n = filter (\<lambda>j. \<not> seq_skipped pseq (fs ! j)) [i..<n]"

lemma due_from_step:
  "i < n \<Longrightarrow> due_from pseq fs i n =
     (if seq_skipped pseq (fs ! i) then due_from pseq fs (i + 1) n else i # due_from pseq fs (i + 1) n)"
  by (simp add: due_from_def upt_conv_Cons)

lemma due_from_end [simp]: "n \<le> i \<Longrightarrow> due_from pseq fs i n = []"
  by (simp add: due_from_def)

lemma set_due_from: "set (due_from pseq fs i n) = {j. i \<le> j \<and> j < n \<and> \<not> seq_skipped pseq (fs ! j)}"
  by (auto simp: due_from_def)

lemma bit_start_le: "bit_start fs \<le> length fs"
  by (simp add: bit_start_def length_takeWhile_le)

lemma bit_start_spec:
  shows "i < bit_start fs \<Longrightarrow> \<not> is_fmt fmt_bit (fs ! i)" "bit_start fs < length fs \<Longrightarrow> is_fmt fmt_bit (fs ! bit_start fs)"
  using nth_length_takeWhile [of "\<lambda>f. \<not> is_fmt fmt_bit f" fs] set_takeWhileD [of _ "\<lambda>f. \<not> is_fmt fmt_bit f" fs]
  by (auto simp: bit_start_def takeWhile_nth [symmetric] dest: nth_mem)

lemma sent_state_fields [simp]:
  "e_fields (sent_state junk i e) = e_fields e" "e_cnt (sent_state junk i e) = e_cnt e" "e_value (sent_state junk i e) = e_value e"
  "used (sent_state junk i e) = used e"
  by (simp_all add: sent_state_def used_def)

lemma sent_state_other:
  assumes "j \<noteq> i"
  shows "item_at junk (sent_state junk i e) j = item_at junk e j" "packable (sent_state junk i e) j = packable e j"
  using assms by (auto simp: item_at_def sent_bytes_def packable_def sent_state_def split: option.splits)

lemma enc_slots_spec:
  assumes "packing N base k i s A" "i \<le> n" "n = bit_start (used e)" "e_cnt e \<le> 240" "e_cnt e \<le> length (e_fields e)"
    "\<forall>j\<in>set (due_from pseq (e_fields e) i n). packable e j" "length base + 1 + 5 * n \<le> N"
    "js = due_from pseq (e_fields e) i n"
  shows "\<exists>s'. enc_slots junk pseq i e s = Some (n, fold (sent_state junk) js e, s') \<and>
    packing N base (k + length (pays (map (item_at junk e) js))) n s' (fold pk_step (map (item_at junk e) js) A)"
  using assms
proof (induction "n - i" arbitrary: k i s A e js)
  case 0
  then have i: "i = n" and len: "length (used e) = e_cnt e" by (simp_all add: used_def)
  have "i < e_cnt e \<longrightarrow> is_fmt fmt_bit (e_fields e ! i)"
    using bit_start_spec(2) [of "used e"] 0(4,6) i len by (auto simp: used_nth)
  then have "enc_slots junk pseq i e s = Some (i, e, s)"
    by (auto simp: enc_slots.simps [of junk pseq i])
  then show ?case using 0(2,9) i by (simp add: due_from_def)
next
  case (Suc m)
  then have i: "i < n" by simp
  have len: "length (used e) = e_cnt e" using Suc.prems(5) by (simp add: used_def)
  have cnt: "i < e_cnt e" using i Suc.prems(3) bit_start_le [of "used e"] len by simp
  have nobit: "\<not> is_fmt fmt_bit (e_fields e ! i)"
    using bit_start_spec(1) [of i "used e"] i Suc.prems(3,5) cnt by (simp add: used_nth)
  have small: "i < 240" using cnt Suc.prems(4) by simp
  show ?case
  proof (cases "seq_skipped pseq (e_fields e ! i)")
    case True
    have pk: "packing N base k (i + 1) s A"
      using Suc.prems(1) small by (cases A) (auto simp: packing_def room_def)
    have eq: "enc_slots junk pseq i e s = enc_slots junk pseq (i + 1) e s"
      using cnt nobit True small by (simp add: enc_slots.simps [of junk pseq i] slots_size_def)
    have js: "js = due_from pseq (e_fields e) (i + 1) n" using True by (simp add: Suc.prems(8) due_from_step [OF i])
    have "m = n - (i + 1)" "i + 1 \<le> n" using Suc.hyps(2) i by simp_all
    moreover have "\<forall>j\<in>set (due_from pseq (e_fields e) (i + 1) n). packable e j"
      using Suc.prems(6,8) js by simp
    ultimately show ?thesis unfolding eq by (intro Suc.hyps(1) pk Suc.prems(3-5,7) js)
  next
    case False
    have js: "js = i # due_from pseq (e_fields e) (i + 1) n" using False by (simp add: Suc.prems(8) due_from_step [OF i])
    obtain s1 where s1: "enc_slot junk i e s = Some (sent_state junk i e, s1)"
      "packing N base (k + length (pays [item_at junk e i])) (i + 1) s1 (pk_step (item_at junk e i) A)"
      using enc_slot_step [OF Suc.prems(1) small, of e junk] Suc.prems(6,7) i False by (auto simp: set_due_from)
    let ?e = "sent_state junk i e" and ?js = "due_from pseq (e_fields e) (i + 1) n"
    have eq: "enc_slots junk pseq i e s = enc_slots junk pseq (i + 1) ?e s1"
      using cnt nobit False small s1(1) by (simp add: enc_slots.simps [of junk pseq i] slots_size_def)
    have items: "map (item_at junk ?e) ?js = map (item_at junk e) ?js"
      by (rule map_cong) (auto simp: set_due_from sent_state_other)
    have "\<forall>j\<in>set (due_from pseq (e_fields ?e) (i + 1) n). packable ?e j"
      using Suc.prems(6) by (auto simp: set_due_from sent_state_other)
    moreover have "m = n - (i + 1)" "i + 1 \<le> n" using Suc.hyps(2) i by simp_all
    ultimately obtain s' where s': "enc_slots junk pseq (i + 1) ?e s1 = Some (n, fold (sent_state junk) ?js ?e, s')"
      "packing N base (k + length (pays [item_at junk e i]) + length (pays (map (item_at junk ?e) ?js))) n s'
        (fold pk_step (map (item_at junk ?e) ?js) (pk_step (item_at junk e i) A))"
      using Suc.hyps(1) [OF _ s1(2) _ _ _ _ _ Suc.prems(7) refl, of ?e] Suc.prems(3-5) by auto
    have "pays (map (item_at junk e) js) = pays [item_at junk e i] @ pays (map (item_at junk e) ?js)"
      using pays_append [of "[item_at junk e i]" "map (item_at junk e) ?js"] by (simp add: js)
    then show ?thesis using s' unfolding eq items by (simp add: js add.assoc)
  qed
qed

subsection \<open>Bit fields\<close>

fun flag_bits :: "nat \<Rightarrow> bool list \<Rightarrow> u8" where
  "flag_bits m [] = 0"
| "flag_bits m (b # bs) = (if b then push_bit m 1 else 0) OR flag_bits (Suc m) bs"

function bit_bytes :: "bool list \<Rightarrow> bytes" where
  "bit_bytes bs = (if bs = [] then [] else flag_bits 0 (take 8 bs) # bit_bytes (drop 8 bs))"
  by pat_completeness auto
termination
  by (relation "measure length") auto

declare bit_bytes.simps [simp del]

lemma flag_bits_append: "flag_bits m (xs @ ys) = flag_bits m xs OR flag_bits (m + length xs) ys"
  by (induction m xs rule: flag_bits.induct) (auto simp: or.assoc)

lemma bit_flag_bits: "bit (flag_bits m bs) j \<longleftrightarrow> m \<le> j \<and> j < 8 \<and> j - m < length bs \<and> bs ! (j - m)"
proof (induction m bs rule: flag_bits.induct)
  case (2 m b bs)
  show ?case
  proof (cases "j = m")
    case False
    then show ?thesis using 2
      by (cases "m < j") (auto simp: bit_simps Suc_diff_Suc [symmetric] nth_Cons Suc_le_eq split: nat.splits)
  qed (use 2 in \<open>auto simp: bit_simps\<close>)
qed simp

lemma length_bit_bytes: "length (bit_bytes bs) \<le> length bs"
proof (induction bs rule: bit_bytes.induct)
  case (1 bs)
  then have "bs \<noteq> [] \<Longrightarrow> length (bit_bytes (drop 8 bs)) < length bs"
    by (cases bs) (auto intro: le_less_trans)
  then show ?case by (subst bit_bytes.simps) (auto simp: Suc_le_eq)
qed

lemma bit_bytes_small: "bs \<noteq> [] \<Longrightarrow> length bs \<le> 8 \<Longrightarrow> bit_bytes bs = [flag_bits 0 bs]"
  by (simp add: bit_bytes.simps [of bs] bit_bytes.simps [of "[]"])

lemma bit_bytes_8: "length bs = 8 \<Longrightarrow> bit_bytes (bs @ cs) = flag_bits 0 bs # bit_bytes cs"
  by (subst bit_bytes.simps) auto

lemma push_bit_80: "n < 7 \<Longrightarrow> push_bit n (1 :: u8) \<noteq> 0x80"
proof -
  assume "n < 7"
  then have "n \<in> {0, 1, 2, 3, 4, 5, 6}" by auto
  then show ?thesis by auto
qed

text \<open>A byte that is being filled with the bits \<open>done\<close>.\<close>

definition filling :: "bytes \<Rightarrow> bool list \<Rightarrow> nat \<Rightarrow> u8 \<Rightarrow> bytes \<Rightarrow> bool" where
  "filling out bs code cb w \<longleftrightarrow> length bs < 8 \<and> w = out @ (if bs = [] then [] else [flag_bits 0 bs]) \<and>
     cb = (if bs = [] then 0x80 else push_bit (length bs - 1) 1) \<and> (bs \<noteq> [] \<longrightarrow> code = length out)"

lemma enc_bits_step:
  assumes "writer_ok w" "w_size w = N" "filling out bs code cb (w_out w)" "i < e_cnt e" "length out < N"
  defines "b \<equiv> e_value e ! i \<noteq> 0"
  shows "\<exists>code' cb' w'. enc_bits i e code cb w = enc_bits (i + 1) e code' cb' w' \<and> writer_ok w' \<and> w_size w' = N \<and>
    (if length bs = 7 then filling (out @ [flag_bits 0 (bs @ [b])]) [] code' cb' (w_out w')
     else filling out (bs @ [b]) code' cb' (w_out w'))"
proof -
  define n where "n = length bs"
  have n: "n < 8" using assms(3) by (simp add: filling_def n_def)
  obtain w1 where w1: "writer_ok w1" "w_size w1 = N" "w_out w1 = out @ [flag_bits 0 bs]"
    "enc_bits i e code cb w = (do { w \<leftarrow> (if b then poke (length out) (\<lambda>c. c OR push_bit n 1) w1 else Some w1);
       enc_bits (i + 1) e (length out) (push_bit n 1) w })"
  proof (cases "bs = []")
    case True
    then have f: "cb = 0x80" "w_out w = out" using assms(3) by (simp_all add: filling_def)
    obtain k w1 where "write_u8 0 w = Some (k, w1)" "writer_ok w1" "w_size w1 = w_size w" "w_out w1 = w_out w @ [0]"
      using write_u8_out [OF assms(1), of 0] assms(2,5) f(2) by auto
    then show thesis
      using True f assms(2,4) length_w_out [OF assms(1)]
      by (intro that [of w1]) (auto simp: enc_bits.simps [of i] b_def n_def)
  next
    case False
    then have f: "cb = push_bit (n - 1) 1" "w_out w = out @ [flag_bits 0 bs]" "code = length out" "n - 1 < 7" "n > 0"
      using assms(3) n by (auto simp: filling_def n_def)
    have "cb \<noteq> 0x80" using push_bit_80 [OF f(4)] f(1) by simp
    moreover have "push_bit 1 cb = push_bit n 1" using f(1,5) by (cases n) simp_all
    ultimately show thesis
      using f assms(1,2,4) by (intro that [of w]) (auto simp: enc_bits.simps [of i] b_def)
  qed
  obtain w2 where w2: "writer_ok w2" "w_size w2 = N" "w_out w2 = out @ [flag_bits 0 (bs @ [b])]"
    "enc_bits i e code cb w = enc_bits (i + 1) e (length out) (push_bit n 1) w2"
  proof (cases b)
    case True
    obtain w2 where "poke (length out) (\<lambda>c. c OR push_bit n 1) w1 = Some w2" "writer_ok w2" "w_size w2 = w_size w1"
      "w_out w2 = (w_out w1)[length out := w_out w1 ! length out OR push_bit n 1]"
      using poke_out [OF w1(1), of "length out" "\<lambda>c. c OR push_bit n 1"] w1(3) by auto
    then show thesis using w1 True by (intro that [of w2]) (auto simp: flag_bits_append n_def)
  next
    case False
    then show thesis using w1 by (intro that [of w1]) (auto simp: flag_bits_append)
  qed
  show ?thesis
    using w2 n by (intro exI [of _ "length out"] exI [of _ "push_bit n 1"] exI [of _ w2]) (auto simp: filling_def n_def)
qed

lemma enc_bits_spec:
  assumes "writer_ok w" "w_size w = N" "filling out bs code cb (w_out w)" "i \<le> e_cnt e"
    "length out + length bs + (e_cnt e - i) \<le> N"
  shows "\<exists>w'. enc_bits i e code cb w = Some w' \<and> writer_ok w' \<and> w_size w' = N \<and>
    w_out w' = out @ bit_bytes (bs @ map (\<lambda>i. e_value e ! i \<noteq> 0) [i..<e_cnt e])"
  using assms
proof (induction "e_cnt e - i" arbitrary: i out bs code cb w)
  case 0
  have "bit_bytes bs = (if bs = [] then [] else [flag_bits 0 bs])"
    using 0(4) bit_bytes_small by (auto simp: filling_def bit_bytes.simps [of "[]"])
  then show ?case using 0 by (auto simp: enc_bits.simps [of i] filling_def)
next
  case (Suc m)
  let ?b = "e_value e ! i \<noteq> 0"
  have i: "i < e_cnt e" and m: "m = e_cnt e - (i + 1)" using Suc.hyps(2) by simp_all
  have map: "map (\<lambda>i. e_value e ! i \<noteq> 0) [i..<e_cnt e] = ?b # map (\<lambda>i. e_value e ! i \<noteq> 0) [i + 1..<e_cnt e]"
    using i by (simp add: upt_conv_Cons)
  have "length out < N" using Suc.prems(5) i by simp
  then obtain code' cb' w' where w': "enc_bits i e code cb w = enc_bits (i + 1) e code' cb' w'" "writer_ok w'" "w_size w' = N"
    "if length bs = 7 then filling (out @ [flag_bits 0 (bs @ [?b])]) [] code' cb' (w_out w')
     else filling out (bs @ [?b]) code' cb' (w_out w')"
    using enc_bits_step [OF Suc.prems(1-3) i] by auto
  show ?case
  proof (cases "length bs = 7")
    case True
    have "\<exists>w''. enc_bits (i + 1) e code' cb' w' = Some w'' \<and> writer_ok w'' \<and> w_size w'' = N \<and>
        w_out w'' = (out @ [flag_bits 0 (bs @ [?b])]) @ bit_bytes ([] @ map (\<lambda>i. e_value e ! i \<noteq> 0) [i + 1..<e_cnt e])"
      by (rule Suc.hyps(1) [OF m w'(2,3)]) (use w'(4) True i Suc.prems(5) in auto)
    then show ?thesis
      using bit_bytes_8 [of "bs @ [?b]" "map (\<lambda>i. e_value e ! i \<noteq> 0) [i + 1..<e_cnt e]"] True
      unfolding w'(1) map by simp
  next
    case False
    have "\<exists>w''. enc_bits (i + 1) e code' cb' w' = Some w'' \<and> writer_ok w'' \<and> w_size w'' = N \<and>
        w_out w'' = out @ bit_bytes ((bs @ [?b]) @ map (\<lambda>i. e_value e ! i \<noteq> 0) [i + 1..<e_cnt e])"
      by (rule Suc.hyps(1) [OF m w'(2,3)]) (use w'(4) False i Suc.prems(5) in auto)
    then show ?thesis unfolding w'(1) map by simp
  qed
qed

subsection \<open>A frame\<close>

definition frame_items :: "(nat \<Rightarrow> raw_t) \<Rightarrow> u8 \<Rightarrow> encoder \<Rightarrow> item list" where
  "frame_items junk pseq e = map (item_at junk e) (due_from pseq (e_fields e) 0 (bit_start (used e)))"

definition frame_bits :: "encoder \<Rightarrow> bool list" where
  "frame_bits e = map (\<lambda>i. e_value e ! i \<noteq> 0) [bit_start (used e)..<e_cnt e]"

definition frame_bytes :: "(nat \<Rightarrow> raw_t) \<Rightarrow> u8 \<Rightarrow> encoder \<Rightarrow> bytes" where
  "frame_bytes junk pseq e = of_nat (length (pays (frame_items junk pseq e))) # body None (frame_items junk pseq e) @ bit_bytes (frame_bits e)"

definition frame_state :: "(nat \<Rightarrow> raw_t) \<Rightarrow> u8 \<Rightarrow> encoder \<Rightarrow> encoder" where
  "frame_state junk pseq e = fold (sent_state junk) (due_from pseq (e_fields e) 0 (bit_start (used e))) e"

lemma fold_sent_state [simp]:
  "e_fields (fold (sent_state junk) js e) = e_fields e" "e_cnt (fold (sent_state junk) js e) = e_cnt e"
  "e_value (fold (sent_state junk) js e) = e_value e" "used (fold (sent_state junk) js e) = used e"
  by (induction js arbitrary: e) simp_all

lemma packing_data:
  assumes "packing N base k i s A"
  shows "writer_ok (w_reset (l_data s) (l_w s)) \<and> w_size (w_reset (l_data s) (l_w s)) = N \<and>
    w_out (w_reset (l_data s) (l_w s)) = base @ of_nat k # pk_out A \<and>
    length (w_out (w_reset (l_data s) (l_w s))) \<le> length base + 1 + 5 * i"
proof -
  obtain pre z c blk where A: "A = (pre, z, c, blk)" by (cases A)
  have p: "writer_ok (l_w s)" "w_size (l_w s) = N" "z = 0 \<or> list_all unsent blk"
    "l_data s = length base + 1 + length (close_block pre blk)"
    "w_out (l_w s) = base @ of_nat k # pre @ replicate z 0 @ (if blk = [] then [] else code_bits 0 blk # payload None (pays blk))"
    using assms by (auto simp: packing_def room_def A)
  have "l_data s \<le> length (w_out (l_w s)) \<and> take (l_data s) (w_out (l_w s)) = base @ of_nat k # pk_out A"
    using p(3) unfolding p(4,5) A by (auto simp: close_block_def)
  moreover have "length (w_out (l_w s)) \<le> length base + 1 + 5 * i" using assms by (simp add: packing_def room_def)
  ultimately show ?thesis using w_reset_out [OF p(1), of "l_data s"] p(2) by (metis le_trans length_take min.cobounded1)
qed

lemma enforce_fields [simp]:
  "e_fields (enforce e) = e_fields e" "e_cnt (enforce e) = e_cnt e" "e_value (enforce e) = e_value e" "used (enforce e) = used e"
  "length (e_flags (enforce e)) = length (e_flags e)" "length (e_packed (enforce e)) = length (e_packed e)"
  "e_upd_cnt (enforce e) = e_upd_cnt e" "e_hash (enforce e) = e_hash e" "e_xpdr (enforce e) = e_xpdr e"
  by (simp_all add: enforce_def Let_def used_def)

lemma encode_values_spec:
  assumes "enc_arrays e" "writer_ok w" "w_pos w + 1 + 5 * e_cnt e \<le> w_size w"
    "\<forall>j\<in>set (due_from pseq (e_fields e) 0 (bit_start (used e))). packable (enforce e) j"
  shows "\<exists>w'. encode_values junk pseq e w = Some (frame_state junk pseq (enforce e), w') \<and> writer_ok w' \<and>
    w_size w' = w_size w \<and> w_out w' = w_out w @ frame_bytes junk pseq (enforce e)"
proof -
  let ?e = "enforce e" and ?base = "w_out w" and ?N = "w_size w"
  let ?n = "bit_start (used e)"
  let ?js = "due_from pseq (e_fields e) 0 ?n"
  have pos: "w_pos w = length ?base" using length_w_out [OF assms(2)] by simp
  have n: "?n \<le> e_cnt e" using bit_start_le [of "used e"] enc_arrays_used [OF assms(1)] by simp
  obtain r w1 where w1: "write_u8 0 w = Some (r, w1)" "writer_ok w1" "w_size w1 = ?N" "w_out w1 = ?base @ [0]"
    using write_u8_out [OF assms(2), of 0] assms(3) pos by auto
  define s where "s = \<lparr> l_w = w1, l_count = w_pos w, l_data = w_pos w1, l_code = w_pos w1, l_bit = 0x40, l_zero = 0,
    l_first = 0, l_nibble = 0, l_nibble_n = 0 \<rparr>"
  have pk: "packing ?N ?base 0 0 s ([], 0, 0, [])"
    using w1 pos length_w_out [OF w1(2)] by (simp add: packing_def room_def s_def close_block_def)
  have e: "e_cnt ?e \<le> 240" "e_cnt ?e \<le> length (e_fields ?e)" "?n = bit_start (used ?e)"
    using assms(1) by (auto simp: enc_arrays_def slots_size_def)
  have ok: "\<forall>j\<in>set (due_from pseq (e_fields ?e) 0 ?n). packable ?e j" using assms(4) by simp
  have room: "length ?base + 1 + 5 * ?n \<le> ?N" using assms(3) n pos by simp
  obtain s' where s': "enc_slots junk pseq 0 ?e s = Some (?n, frame_state junk pseq ?e, s')"
    "packing ?N ?base (length (pays (frame_items junk pseq ?e))) ?n s' (fold pk_step (frame_items junk pseq ?e) ([], 0, 0, []))"
    using enc_slots_spec [OF pk le0 e(3,1,2) ok room refl, of junk]
    unfolding frame_state_def frame_items_def enforce_fields by auto
  define w2 where "w2 = w_reset (l_data s') (l_w s')"
  have w2: "writer_ok w2" "w_size w2 = ?N"
    "w_out w2 = ?base @ of_nat (length (pays (frame_items junk pseq ?e))) # body None (frame_items junk pseq ?e)"
    using packing_data [OF s'(2)] pk_body [of "frame_items junk pseq ?e" "[]" 0 0] by (simp_all add: w2_def)
  have "length (w_out w2) \<le> length ?base + 1 + 5 * ?n" unfolding w2_def using packing_data [OF s'(2)] by blast
  then have fits: "length (w_out w2) + length [] + (e_cnt (frame_state junk pseq ?e) - ?n) \<le> ?N"
    using assms(3) n pos by (simp add: frame_state_def)
  have "filling (w_out w2) [] (l_code s') 0x80 (w_out w2)" by (simp add: filling_def)
  then obtain w3 where w3: "enc_bits ?n (frame_state junk pseq ?e) (l_code s') 0x80 w2 = Some w3" "writer_ok w3"
    "w_size w3 = ?N" "w_out w3 = w_out w2 @ bit_bytes (frame_bits ?e)"
    using enc_bits_spec [OF w2(1,2) _ _ fits, of "l_code s'" "0x80"] n
    by (auto simp: frame_state_def frame_bits_def)
  have "encode_values junk pseq e w = Some (frame_state junk pseq ?e, w3)"
    using w1(1) s'(1) w3(1) by (simp add: encode_values_def Let_def s_def w2_def)
  then show ?thesis using w3 w2(3) by (auto simp: frame_bytes_def)
qed

end
