(* ===== verification/Telemetry_Decoder.thy ===== *)
theory Telemetry_Decoder
  imports Telemetry_Format
begin

text \<open>
  \<open>xbus/telemetry/TelemetryDecoder.h\<close> and \<open>TelemetryDecoder.cpp\<close>.  The array of field descriptors
  is kept as the memory it is, since the parts of a format are copied into it byte by byte.
\<close>

unbundle bit_operations_syntax

subsection \<open>The decoder\<close>

record dec_flags_s =
  df_type :: type_id_e
  df_upd :: bool

record decoder =
  d_mem :: bytes
  d_flags :: "dec_flags_s list"
  d_value :: "raw_t list"
  d_cnt :: nat
  d_xvalue :: "raw_t list"
  d_xtype :: "type_id_e list"
  d_timestamp :: u64
  d_dt :: u32
  d_ts :: u16
  d_valid :: bool
  d_hash :: u32
  d_hash_valid :: u8

definition no_dec_flags :: dec_flags_s where
  "no_dec_flags = \<lparr> df_type = type_byte, df_upd = False \<rparr>"

text \<open>\<open>_hash\<close> has no initialiser: it is what memory holds.\<close>

definition dec_make :: "u32 \<Rightarrow> decoder" where
  "dec_make h = \<lparr> d_mem = replicate (field_size * slots_size) 0, d_flags = replicate slots_size no_dec_flags,
     d_value = replicate slots_size 0, d_cnt = 0, d_xvalue = replicate xpdr_size 0,
     d_xtype = replicate xpdr_size type_byte, d_timestamp = 0, d_dt = 0, d_ts = 0, d_valid = False,
     d_hash = h, d_hash_valid = 0 \<rparr>"

definition dec_field :: "decoder \<Rightarrow> nat \<Rightarrow> field_s" where
  "dec_field d i = field_of_bytes (take 3 (drop (field_size * i) (d_mem d)))"

text \<open>
  The three arrays of the slots have the same number of elements.  HOL's lists are total, so every
  access with a computed index is checked: outside the arrays the run is \<open>None\<close>.
\<close>

definition in_arrays :: "decoder \<Rightarrow> nat \<Rightarrow> bool" where
  "in_arrays d i \<longleftrightarrow> field_size * (i + 1) \<le> length (d_mem d) \<and> i < length (d_value d) \<and> i < length (d_flags d)"

definition in_xpdr :: "decoder \<Rightarrow> nat \<Rightarrow> bool" where
  "in_xpdr d i \<longleftrightarrow> i < length (d_xvalue d) \<and> i < length (d_xtype d)"

definition dec_arrays :: "decoder \<Rightarrow> bool" where
  "dec_arrays d \<longleftrightarrow> length (d_mem d) = field_size * slots_size \<and> length (d_value d) = slots_size \<and> length (d_flags d) = slots_size"

lemma dec_arrays_in: "dec_arrays d \<Longrightarrow> in_arrays d i \<longleftrightarrow> i < slots_size"
  by (auto simp: dec_arrays_def in_arrays_def field_size_def slots_size_def)

definition is_hash_valid :: "decoder \<Rightarrow> bool" where
  "is_hash_valid d \<longleftrightarrow> d_hash_valid d = 4"

definition dec_reset :: "bool \<Rightarrow> decoder \<Rightarrow> decoder" where
  "dec_reset reset_hash d =
     (let d = (if reset_hash then d\<lparr> d_hash := 0, d_hash_valid := 0 \<rparr> else d)
      in d\<lparr> d_cnt := 0, d_valid := False, d_flags := replicate slots_size no_dec_flags,
            d_value := replicate slots_size 0 \<rparr>)"

text \<open>
  The hash of the first \<open>sz\<close> bytes of the descriptors.  They fill whole words of the array, so that the
  last word \<open>crc32\<close> loads is still inside.
\<close>

definition get_hash :: "nat \<Rightarrow> decoder \<Rightarrow> u32" where
  "get_hash sz d = crc32 (take sz (d_mem d)) (ucast fmt_version)"

definition check_hash :: "nat \<Rightarrow> decoder \<Rightarrow> bool \<times> decoder" where
  "check_hash sz d =
     (if \<not> is_hash_valid d \<or> get_hash sz d \<noteq> d_hash d then (False, d)
      else (True, d\<lparr> d_cnt := sz div field_size, d_valid := True \<rparr>))"

definition reset_timestamp :: "u64 \<Rightarrow> decoder \<Rightarrow> decoder" where
  "reset_timestamp v d = d\<lparr> d_timestamp := v \<rparr>"

subsection \<open>Values\<close>

record dec_loop =
  x_r :: reader
  x_cnt :: u8
  x_code :: u8
  x_bit :: u8
  x_nibble :: u8
  x_nibble_n :: u8
  x_upd :: bool

text \<open>What the offset loop leaves: the reader, \<open>code\<close> and \<open>dindex\<close>, a 16-bit signed number.\<close>

partial_function (option) dec_offset :: "u8 \<Rightarrow> u8 \<Rightarrow> u16 \<Rightarrow> reader \<Rightarrow> (u8 \<times> u16 \<times> reader) option" where
  "dec_offset offset code dindex r =
     (if offset = 0x7F then do {
        (offset, r) \<leftarrow> read_u8 r;
        if offset AND 0x80 = 0 then Some (0, dindex, r)
        else let offset = offset AND 0x7F in dec_offset offset 0x80 (dindex + ucast offset) r
      } else Some (code, dindex, r))"

text \<open>A code byte is due: \<open>None\<close> inside is \<open>break\<close>, else the index to go on with.\<close>

definition dec_code :: "decoder \<Rightarrow> nat \<Rightarrow> dec_loop \<Rightarrow> (nat option \<times> nat \<times> dec_loop) option" where
  "dec_code d index s =
     (if x_bit s = 0x40 then do {
        (code, r) \<leftarrow> read_u8 (x_r s);
        let s = s\<lparr> x_r := r, x_code := code, x_bit := 1, x_nibble_n := 0 \<rparr>;
        if code AND 0x80 = 0 then Some (Some index, index, s)
        else do {
          let offset = code AND 0x7F;
          if offset < 7 then Some (None, index, s)
          else do {
            (code, dindex, r) \<leftarrow> dec_offset offset code (ucast offset) (x_r s);
            let s = s\<lparr> x_r := r, x_code := code \<rparr>;
            if code AND 0x80 = 0 then Some (None, index, s)
            else if sint dindex < 7 then Some (None, index, s)
            else
              let index = index + nat (sint dindex)
              in if index \<ge> d_cnt d then Some (None, index, s)
                 else Some (Some index, index, s\<lparr> x_bit := 0x40, x_code := 0x40 \<rparr>)
          }
        }
      } else Some (Some index, index, s\<lparr> x_bit := push_bit 1 (x_bit s) \<rparr>))"

text \<open>The value of slot \<open>index\<close>; the flag is \<open>False\<close> for \<open>break\<close>.\<close>

definition dec_slot :: "nat \<Rightarrow> decoder \<Rightarrow> dec_loop \<Rightarrow> (bool \<times> decoder \<times> dec_loop) option" where
  "dec_slot index d s =
     (if \<not> in_arrays d index then None
      else do {
        let f = dec_field d index;
        let val = d_value d ! index;
        (n, val, t) \<leftarrow>
          (if x_nibble_n s = 0
           then unpack_value (drop (r_pos (x_r s)) (r_buf (x_r s))) val type_real (f_fmt f) (r_available (x_r s))
           else Some (1, val, type_real));
        if x_nibble_n s = 0 \<and> (n = 0 \<or> n > r_available (x_r s)) then Some (False, d\<lparr> d_value := (d_value d)[index := val] \<rparr>, s)
        else do {
          let s = (if x_nibble_n s = 0 then s\<lparr> x_r := r_reset (size_add (r_pos (x_r s)) n) (x_r s) \<rparr> else s);
          let (val, t, s) =
            (if is_fmt fmt_u4 f then
               if x_nibble_n s = 0 then (val AND 0x0F, type_byte, s\<lparr> x_nibble_n := 1, x_nibble := ucast val \<rparr>)
               else (ucast (drop_bit 4 (x_nibble s)), type_byte, s\<lparr> x_nibble_n := 0 \<rparr>)
             else (val, t, s\<lparr> x_nibble_n := 0 \<rparr>));
          let d = d\<lparr> d_value := (d_value d)[index := val],
                    d_flags := (d_flags d)[index := \<lparr> df_type = t, df_upd = True \<rparr>] \<rparr>;
          let s = s\<lparr> x_upd := True, x_cnt := x_cnt s - 1 \<rparr>;
          Some (x_cnt s \<noteq> 0, d, s)
        }
      })"

text \<open>A code never moves the index back and a value never changes the number of slots.\<close>

lemma dec_code_forward: "dec_code d index s = Some (Some i, j, s') \<Longrightarrow> index \<le> i"
  by (auto simp: dec_code_def Let_def split: if_splits Option.bind_splits prod.splits)

lemma dec_slot_cnt: "dec_slot index d s = Some (go, d', s') \<Longrightarrow> d_cnt d' = d_cnt d"
  by (auto simp: dec_slot_def Let_def split: if_splits Option.bind_splits prod.splits)

text \<open>The loop over the slots.\<close>

function dec_slots :: "u8 \<Rightarrow> nat \<Rightarrow> decoder \<Rightarrow> dec_loop \<Rightarrow> (nat \<times> decoder \<times> dec_loop) option" where
  "dec_slots pseq index d s =
     (if index < d_cnt d \<and> r_available (x_r s) > 0 \<and> x_cnt s > 0 then
        if \<not> in_arrays d index then None
        else
          let f = dec_field d index
          in if is_fmt fmt_bit f then Some (index, d, s)
             else if seq_skipped pseq f then dec_slots pseq (index + 1) d s
             else
               (case dec_code d index s of
                  None \<Rightarrow> None
                | Some (None, i, s) \<Rightarrow> Some (i, d, s)
                | Some (Some i, _, s) \<Rightarrow>
                    if r_available (x_r s) = 0 \<and> x_nibble_n s = 0 then Some (i, d, s)
                    else if x_code s AND x_bit s = 0 then dec_slots pseq (i + 1) d s
                    else
                      (case dec_slot i d s of
                         None \<Rightarrow> None
                       | Some (go, d, s) \<Rightarrow> if go then dec_slots pseq (i + 1) d s else Some (i, d, s)))
      else Some (index, d, s))"
  by pat_completeness auto
termination
  by (relation "measure (\<lambda>(pseq, index, d, s). d_cnt d - index)")
    (auto dest!: dec_code_forward dec_slot_cnt)

declare dec_slots.simps [simp del]

text \<open>The bit fields at the end.\<close>

function dec_bits_start :: "nat \<Rightarrow> decoder \<Rightarrow> nat option" where
  "dec_bits_start index d =
     (if index < d_cnt d then
        if \<not> in_arrays d index then None
        else if is_fmt fmt_bit (dec_field d index) then Some index else dec_bits_start (index + 1) d
      else Some index)"
  by pat_completeness auto
termination
  by (relation "measure (\<lambda>(index, d). d_cnt d - index)") auto

declare dec_bits_start.simps [simp del]

fun dec_bits :: "nat list \<Rightarrow> u8 \<Rightarrow> u8 \<Rightarrow> u8 \<Rightarrow> bool \<Rightarrow> decoder \<Rightarrow> reader \<Rightarrow> (u8 \<times> bool \<times> decoder \<times> reader) option" where
  "dec_bits [] cnt code code_bit upd d r = Some (cnt, upd, d, r)"
| "dec_bits (i # is) cnt code code_bit upd d r =
     (if \<not> in_arrays d i then None
      else if \<not> is_fmt fmt_bit (dec_field d i) then Some (cnt, upd, d, r)
      else if code_bit = 0x80 \<and> r_available r = 0 then Some (cnt, upd, d, r)
      else do {
        (code, r) \<leftarrow> (if code_bit = 0x80 then read_u8 r else Some (code, r));
        let code_bit = (if code_bit = 0x80 then 1 else push_bit 1 code_bit);
        let v = (if code AND code_bit \<noteq> 0 then 1 else 0);
        dec_bits is (cnt - 1) code code_bit True
          (d\<lparr> d_value := (d_value d)[i := v], d_flags := (d_flags d)[i := \<lparr> df_type = type_byte, df_upd = True \<rparr>] \<rparr>) r
      })"

definition decode_values :: "u8 \<Rightarrow> decoder \<Rightarrow> reader \<Rightarrow> (bool \<times> decoder \<times> reader) option" where
  "decode_values pseq d r =
     (if r_available r = 0 then Some (False, d, r)
      else do {
        (cnt, r) \<leftarrow> read_u8 r;
        (index, d, s) \<leftarrow> dec_slots pseq 0 d \<lparr> x_r = r, x_cnt = cnt, x_code = 0, x_bit = 0x40, x_nibble = 0,
                                             x_nibble_n = 0, x_upd = False \<rparr>;
        (cnt, upd, d, r) \<leftarrow>
          (if index < d_cnt d \<and> r_available (x_r s) > 0 \<and> x_cnt s = 0 then do {
             index \<leftarrow> dec_bits_start index d;
             dec_bits [index..<d_cnt d] (of_nat (d_cnt d - index)) (x_code s) 0x80 (x_upd s) d (x_r s)
           } else Some (x_cnt s, x_upd s, d, x_r s));
        if r_available r \<noteq> 0 \<or> cnt \<noteq> 0 then Some (False, dec_reset True d, r)
        else Some (upd, d, r)
      })"

subsection \<open>The transponder's dataset\<close>

fun xpdr_values :: "(nat \<times> u8) list \<Rightarrow> decoder \<Rightarrow> reader \<Rightarrow> (bool \<times> decoder \<times> reader) option" where
  "xpdr_values [] d r = Some (True, d, r)"
| "xpdr_values ((i, fmt) # ds) d r =
     (if \<not> in_xpdr d i then None
      else do {
        (n, val, t) \<leftarrow> unpack_value (drop (r_pos r) (r_buf r)) (d_xvalue d ! i) (d_xtype d ! i) fmt (r_available r);
        let d = d\<lparr> d_xvalue := (d_xvalue d)[i := val], d_xtype := (d_xtype d)[i := t] \<rparr>;
        if n = 0 \<or> n > r_available r then Some (False, d, r)
        else xpdr_values ds d (r_reset (size_add (r_pos r) n) r)
      })"

definition decode_xpdr :: "dictionary \<Rightarrow> decoder \<Rightarrow> reader \<Rightarrow> (bool \<times> decoder \<times> reader) option" where
  "decode_xpdr D d r =
     (if r_available r = 0 then Some (False, d, r)
      else do {
        fmts \<leftarrow> xpdr_fmts D;
        xpdr_values (enumerate 0 fmts) d r
      })"

subsection \<open>Packets\<close>

text \<open>The hash byte of the packet's sequence number is compared and collected.\<close>

definition feed_hash :: "u8 \<Rightarrow> u8 \<Rightarrow> decoder \<Rightarrow> decoder" where
  "feed_hash i feed d =
     (let h = hash_byte (d_hash d) i;
          d = (if h \<noteq> feed then
                 let d = (if d_hash_valid d > 0 \<or> h \<noteq> 0 then dec_reset True d else d)
                 in d\<lparr> d_hash := hash_set_byte i feed (d_hash d), d_hash_valid := d_hash_valid d + 1 \<rparr>
               else if \<not> is_hash_valid d then d\<lparr> d_hash_valid := d_hash_valid d + 1 \<rparr>
               else d)
      in if d_hash_valid d > 4 then dec_reset True d else d)"

definition track_time :: "u16 \<Rightarrow> decoder \<Rightarrow> decoder" where
  "track_time ts d =
     (let dts = ucast (ts - d_ts d) :: u32;
          dts = (if dts = 0 then 0x10000 else dts);
          dt = dts * of_nat ts2ms
      in d\<lparr> d_ts := ts, d_dt := dt, d_timestamp := d_timestamp d + ucast dt \<rparr>)"

definition decode :: "dictionary \<Rightarrow> pid_s \<Rightarrow> decoder \<Rightarrow> reader \<Rightarrow> (bool \<times> decoder \<times> reader) option" where
  "decode D pid d r =
     (if r_available r < hdr_psize then Some (False, d, r)
      else do {
        let is_xpdr = (pid_uid pid = g_xpdr D);
        (hdr, r) \<leftarrow> hdr_read \<lparr> hdr_ts = 0, hdr_feed_hash = 0 \<rparr> r;
        if is_xpdr \<and> hdr_feed_hash hdr \<noteq> xpdr_version then Some (True, d, r)
        else do {
          let d = (if is_xpdr then d else feed_hash (pid_seq pid AND 3) (hdr_feed_hash hdr) d);
          let d = track_time (hdr_ts hdr) d;
          if is_xpdr then decode_xpdr D d r
          else if is_hash_valid d \<and> d_cnt d \<noteq> 0 then decode_values (pid_seq pid) (d\<lparr> d_valid := True \<rparr>) r
          else if is_hash_valid d \<and> r_available r = 1 then do {
            (v, r) \<leftarrow> read_u8 r;
            Some (False, d\<lparr> d_valid := (v = 0) \<rparr>, r)
          }
          else Some (False, d\<lparr> d_valid := False \<rparr>, r)
        }
      })"

subsection \<open>Format\<close>

text \<open>A part is stored at \<open>pos\<close>, which stays inside the array.\<close>

definition decode_format :: "decoder \<Rightarrow> format_resp_hdr_s \<Rightarrow> reader \<Rightarrow>
    (bool \<times> format_resp_hdr_s \<times> decoder \<times> reader) option" where
  "decode_format d h r =
     (if r_available r < resp_psize then Some (False, h, dec_reset True d, r)
      else do {
        (h, r) \<leftarrow> resp_read h r;
        let block_size = unat (resp_psz h);
        if resp_version h \<noteq> fmt_version \<or> block_size = 0 then Some (False, h, dec_reset True d, r)
        else if resp_part h \<noteq> 0 \<and> resp_hash h \<noteq> d_hash d then Some (False, h, dec_reset True d, r)
        else do {
          let d = (if resp_part h = 0 then
                     (if resp_hash h \<noteq> d_hash d then dec_reset True d else d)\<lparr> d_hash := resp_hash h, d_hash_valid := 4 \<rparr>
                   else d);
          let pos = unat (resp_part h) * block_size;
          let sz = r_available r;
          let is_final = (unat (resp_part h) + 1 = unat (resp_pcnt h) \<or> (resp_part h = 0 \<and> resp_pcnt h = 0));
          if (is_final \<and> sz > block_size) \<or> (\<not> is_final \<and> sz \<noteq> block_size) \<or> size_add pos sz > length (d_mem d)
          then Some (False, h, dec_reset True d, r)
          else do {
            (d, r) \<leftarrow>
              (if sz > 0 then do {
                 (n, m, r) \<leftarrow> read_mem (drop pos (d_mem d)) sz r;
                 Some (d\<lparr> d_mem := blit pos m (d_mem d) \<rparr>, r)
               } else Some (d, r));
            if is_final \<and> (pos + sz) mod field_size \<noteq> 0 then Some (False, h, dec_reset True d, r)
            else
              let (good, d) = (if is_final then check_hash (pos + sz) d else (False, d))
              in if good then Some (True, h, d, r)
                 else if d_cnt d = 0 then Some (True, h, d, r)
                 else
                   let (good, d) = check_hash (d_cnt d * field_size) d
                   in Some (True, h, if good then d else dec_reset False d, r)
          }
        }
      })"

end
