(* ===== verification/Telemetry_Unpacking.thy ===== *)
theory Telemetry_Unpacking
  imports Telemetry_Packing Telemetry_Decoder Mandala_Laws
begin

text \<open>
  The loop of \<open>decode_values\<close> reads the format of \<open>Telemetry_Blocks\<close>: it ends at the end of the
  values, having stored every value that was sent, and no other.
\<close>

unbundle bit_operations_syntax

subsection \<open>Unpacking\<close>

lemma bit_mask_400: "(v :: u16) AND 0x0400 = 0 \<longleftrightarrow> \<not> bit v 10"
  using and_power_bit [of "0x0400 :: u16" 10 v] by auto

lemma f16_shift_total:
  assumes "bit hm k" "k < 10"
  shows "\<exists>r. f16_shift e hm = Some r"
  using assms
proof (induction "9 - k" arbitrary: e hm k)
  case 0
  then have "k = 9" by simp
  then have "bit (push_bit 1 hm) 10" using 0 by (simp only: bit_push_bit_iff) simp
  then show ?case by (subst f16_shift.simps) (simp add: bit_mask_400)
next
  case (Suc n)
  have "bit (push_bit 1 hm) (k + 1)" using Suc.prems by (simp only: bit_push_bit_iff) simp
  moreover have "n = 9 - (k + 1)" "k + 1 < 10" using Suc.hyps(2) by auto
  ultimately have "\<exists>r. f16_shift (e + 1) (push_bit 1 hm) = Some r" by (intro Suc.hyps(1)) auto
  then show ?case by (subst f16_shift.simps) (auto simp: Let_def)
qed

lemma f16_bits_total: "\<exists>r. f16_bits v = Some r"
proof (cases "v AND 0x7FFF = 0 \<or> v AND 0x7C00 \<noteq> 0")
  case False
  have "v AND 0x03FF \<noteq> 0"
  proof
    assume "v AND 0x03FF = 0"
    then have "v AND (0x7C00 OR 0x03FF) = 0" using False by (simp only: bit.conj_disj_distrib) simp
    then show False using False by simp
  qed
  then obtain k where "bit (v AND 0x03FF) k" by (metis bit_eqI bit_0_eq bot_apply bot_bool_def)
  moreover from this have "k < 10"
  proof -
    have "(0x03FF :: u16) = mask 10" by (simp add: mask_eq_exp_minus_1)
    then have "bit (v AND mask 10) k" using \<open>bit (v AND 0x03FF) k\<close> by (simp only:)
    then show ?thesis by (simp add: bit_and_iff bit_mask_iff)
  qed
  ultimately obtain e hm where "f16_shift (- 1) (v AND 0x03FF) = Some (e, hm)" using f16_shift_total by (metis surj_pair)
  then show ?thesis using False by (simp add: f16_bits_def Let_def)
qed (auto simp: f16_bits_def Let_def)

lemma float_from_f16_total: "\<exists>r. float_from_f16 v = Some r"
  using f16_bits_total [of v] by (auto simp: float_from_f16_def)

lemma unpack_fmt_total: "sz \<le> length mem \<Longrightarrow> \<exists>r. unpack_fmt mem dest t sz f = Some r"
  by (cases f) (auto simp: unpack_bytes_def float_from_f16_total)

lemma unpack_value_total: "sz \<le> length mem \<Longrightarrow> \<exists>r. unpack_value mem dest t fmt sz = Some r"
  using unpack_fmt_total [of sz mem dest t] by (auto simp: unpack_value_def split: option.split)

text \<open>The value and its type, given the bytes of the value and what was stored before.\<close>

definition unpacked_value :: "u8 \<Rightarrow> bytes \<Rightarrow> raw_t \<Rightarrow> raw_t \<times> type_id_e" where
  "unpacked_value fmt bs old = (case unpack_value bs old type_real fmt (length bs) of Some (n, v, t) \<Rightarrow> (v, t))"

lemma unpack_fmt_prefix:
  assumes "length bs = fmt_width f" "fmt_width f > 0" "fmt_width f \<le> sz"
  shows "unpack_fmt (bs @ ms) old t sz f = unpack_fmt bs old type_real (length bs) f \<and>
    (\<exists>v t. unpack_fmt bs old type_real (length bs) f = Some (length bs, v, t))"
  using assms by (cases f) (auto simp: unpack_bytes_def float_from_f16_total)

lemma unpack_value_prefix:
  assumes "length bs = width_of fmt" "bs \<noteq> []" "length bs \<le> sz"
  shows "unpack_value (bs @ ms) old t fmt sz = Some (length bs, unpacked_value fmt bs old)"
proof -
  obtain f where f: "fmt_of_code fmt = Some f" "length bs = fmt_width f" "fmt_width f > 0"
    using assms(1,2) by (cases "fmt_of_code fmt"; cases bs) (auto simp: width_of_def)
  then obtain v t' where "unpack_fmt (bs @ ms) old t sz f = Some (length bs, v, t')"
    "unpack_fmt bs old type_real (length bs) f = Some (length bs, v, t')"
    using unpack_fmt_prefix [of bs f sz ms old t] assms(3) by auto
  then show ?thesis using f(1) by (simp add: unpack_value_def unpacked_value_def)
qed

text \<open>An option has half a byte.\<close>

definition seen_value :: "u8 \<Rightarrow> bytes \<Rightarrow> raw_t \<Rightarrow> raw_t \<times> type_id_e" where
  "seen_value fmt bs old = (if fmt = fmt_code fmt_u4 then (ucast (nib bs), type_byte) else unpacked_value fmt bs old)"

definition dec_put :: "nat \<Rightarrow> raw_t \<times> type_id_e \<Rightarrow> decoder \<Rightarrow> decoder" where
  "dec_put i x d = d\<lparr> d_value := (d_value d)[i := fst x], d_flags := (d_flags d)[i := \<lparr> df_type = snd x, df_upd = True \<rparr>] \<rparr>"

fun see_items :: "item list \<Rightarrow> decoder \<Rightarrow> decoder" where
  "see_items [] d = d"
| "see_items ((i, u, None) # xs) d = see_items xs d"
| "see_items ((i, u, Some bs) # xs) d = see_items xs (dec_put i (seen_value (f_fmt (dec_field d i)) bs (d_value d ! i)) d)"

lemma dec_put_fields [simp]:
  "d_mem (dec_put i x d) = d_mem d" "d_cnt (dec_put i x d) = d_cnt d" "dec_field (dec_put i x d) = dec_field d"
  "in_arrays (dec_put i x d) = in_arrays d"
  by (simp_all add: dec_put_def dec_field_def in_arrays_def fun_eq_iff)

lemma unpacked_u4:
  assumes "length bs = 1"
  shows "unpacked_value (fmt_code fmt_u4) bs old = (put_low 1 (ucast (bs ! 0)) old, type_byte)"
proof -
  obtain b where bs: "bs = [b]" using assms by (cases bs) auto
  have "fmt_of_code (fmt_code fmt_u4) = Some fmt_u4" by (rule fmt_of_code_inverse)
  then show ?thesis by (simp add: bs unpacked_value_def unpack_value_def unpack_bytes_def)
qed

subsection \<open>Reading\<close>

lemma read_u8_rest:
  assumes "reader_ok r" "r_rest r = b # zs"
  shows "\<exists>r'. read_u8 r = Some (b, r') \<and> reader_ok r' \<and> r_rest r' = zs"
  using gets_u8 [of b] assms unfolding gets_def by simp

lemma r_reset_rest:
  assumes "reader_ok r" "r_rest r = bs @ zs"
  shows "reader_ok (r_reset (size_add (r_pos r) (length bs)) r) \<and> r_rest (r_reset (size_add (r_pos r) (length bs)) r) = zs"
proof -
  have len: "length (r_rest r) = r_size r - r_pos r" by (rule length_r_rest [OF assms(1)])
  then have fit: "r_pos r + length bs \<le> r_size r" using assms by (auto simp: reader_ok_def)
  then have "size_add (r_pos r) (length bs) = r_pos r + length bs" using assms(1) by (intro size_add_small) (simp add: reader_ok_def)
  then have "r_reset (size_add (r_pos r) (length bs)) r = r_adv (length bs) r" using fit by (simp add: r_reset_def)
  then show ?thesis using r_rest_adv [where n = "length bs" and s = r] reader_ok_adv [OF assms(1), of "length bs"] assms(2) by simp
qed

lemma memory_rest:
  assumes "reader_ok r"
  shows "\<exists>ms. drop (r_pos r) (r_buf r) = r_rest r @ ms"
  unfolding r_rest_def by (metis append_take_drop_id)

subsection \<open>The loop between slots\<close>

definition same_fields :: "decoder \<Rightarrow> field_s list \<Rightarrow> nat \<Rightarrow> bool" where
  "same_fields d fs n \<longleftrightarrow> n \<le> d_cnt d \<and> d_cnt d \<le> slots_size \<and>
     (\<forall>i<n. in_arrays d i \<and> dec_field d i = fs ! i \<and> \<not> is_fmt fmt_bit (fs ! i))"

lemma same_fields_put [simp]: "same_fields (dec_put i x d) fs n = same_fields d fs n"
  by (simp add: same_fields_def)

lemma due_from_Cons:
  assumes "due_from pseq fs i n = j # js"
  shows "i \<le> j \<and> j < n \<and> \<not> seq_skipped pseq (fs ! j) \<and> js = due_from pseq fs (j + 1) n"
  using assms
proof (induction "n - i" arbitrary: i)
  case 0
  then show ?case by simp
next
  case (Suc m)
  have i: "i < n" and m: "m = n - (i + 1)" using Suc.hyps(2) by simp_all
  show ?case
  proof (cases "seq_skipped pseq (fs ! i)")
    case True
    then have "due_from pseq fs (i + 1) n = j # js" using Suc.prems due_from_step [OF i, of pseq fs] by simp
    then show ?thesis using Suc.hyps(1) [OF m] by simp
  next
    case False
    then show ?thesis using Suc.prems due_from_step [OF i, of pseq fs] i by auto
  qed
qed

lemma dec_skip:
  assumes "same_fields d fs n" "due_from pseq fs i n = j # js" "r_available (x_r s) > 0" "x_cnt s > 0"
  shows "dec_slots pseq i d s = dec_slots pseq j d s"
  using assms(2)
proof (induction "j - i" arbitrary: i)
  case 0
  then show ?case using due_from_Cons [OF 0(2)] by simp
next
  case (Suc m)
  have i: "i < n" using due_from_Cons [OF Suc.prems] by simp
  have "seq_skipped pseq (fs ! i)" using Suc.prems Suc.hyps(2) due_from_step [OF i, of pseq fs] by (auto split: if_splits)
  then have "dec_slots pseq i d s = dec_slots pseq (i + 1) d s" and due: "due_from pseq fs (i + 1) n = j # js"
    using assms(1,3,4) i Suc.prems due_from_step [OF i, of pseq fs]
    by (auto simp: dec_slots.simps [of pseq i] same_fields_def)
  then show ?case using Suc.hyps(1) [OF _ due] Suc.hyps(2) by simp
qed

lemma dec_slots_stop: "x_cnt s = 0 \<Longrightarrow> dec_slots pseq i d s = Some (i, d, s)"
  by (simp add: dec_slots.simps [of pseq i])

lemma dec_slots_due:
  assumes "same_fields d fs n" "i < n" "\<not> seq_skipped pseq (fs ! i)" "r_available (x_r s) > 0" "x_cnt s > 0"
    "dec_code d i s = Some (Some j, j', s')"
  shows "dec_slots pseq i d s =
    (if r_available (x_r s') = 0 \<and> x_nibble_n s' = 0 then Some (j, d, s')
     else if x_code s' AND x_bit s' = 0 then dec_slots pseq (j + 1) d s'
     else (case dec_slot j d s' of
             None \<Rightarrow> None
           | Some (go, d, s) \<Rightarrow> if go then dec_slots pseq (j + 1) d s else Some (j, d, s)))"
  using assms by (auto simp: dec_slots.simps [of pseq i] same_fields_def Let_def)

subsection \<open>What is ahead\<close>

definition values_ahead :: "item list \<Rightarrow> bytes \<Rightarrow> dec_loop \<Rightarrow> bool" where
  "values_ahead xs zs s \<longleftrightarrow> reader_ok (x_r s) \<and>
     (if x_nibble_n s = 0 then r_rest (x_r s) = payload None (pays xs) @ zs
      else \<exists>v R. v AND 0xF0 = 0 \<and> payload (Some v) (pays xs) = x_nibble s # R \<and> r_rest (x_r s) = R @ zs)"

definition block_code :: "nat \<Rightarrow> item list \<Rightarrow> item list \<Rightarrow> dec_loop \<Rightarrow> bool" where
  "block_code m xs rest s \<longleftrightarrow> m + length xs \<le> 7 \<and> (rest \<noteq> [] \<longrightarrow> m + length xs = 7) \<and>
     (\<forall>j<length xs. bit (x_code s) (m + j) \<longleftrightarrow> \<not> unsent (xs ! j))"

text \<open>
  Before the next slot of a block: \<open>m\<close> slots of the block are done, \<open>xs\<close> are left in it, and \<open>rest\<close>
  follow.  \<open>here\<close> is the state in the pass of a slot, after its bit was selected.
\<close>

definition between :: "nat \<Rightarrow> item list \<Rightarrow> item list \<Rightarrow> bytes \<Rightarrow> dec_loop \<Rightarrow> bool" where
  "between m xs rest tail s \<longleftrightarrow> values_ahead xs (body None rest @ tail) s \<and> block_code m xs rest s \<and>
     x_cnt s = of_nat (length (pays (xs @ rest))) \<and>
     (if xs = [] then rest \<noteq> [] \<longrightarrow> x_bit s = 0x40 else m > 0 \<and> x_bit s = push_bit (m - 1) 1)"

definition here :: "nat \<Rightarrow> item list \<Rightarrow> item list \<Rightarrow> bytes \<Rightarrow> dec_loop \<Rightarrow> bool" where
  "here m xs rest tail s \<longleftrightarrow> values_ahead xs (body None rest @ tail) s \<and> block_code m xs rest s \<and>
     x_cnt s = of_nat (length (pays (xs @ rest))) \<and> x_bit s = push_bit m 1"

lemma block_code_tl:
  assumes "block_code m (x # xs) rest s"
  shows "block_code (m + 1) xs rest s"
proof -
  have "bit (x_code s) (m + 1 + j) \<longleftrightarrow> \<not> unsent (xs ! j)" if "j < length xs" for j
    using assms that by (auto simp: block_code_def dest!: spec [of _ "Suc j"])
  then show ?thesis using assms by (simp add: block_code_def)
qed

lemma pays_unsent_Cons: "unsent x \<Longrightarrow> pays (x # xs) = pays xs"
  by (cases x rule: prod_cases3) (simp add: unsent_def)

lemma here_unsent:
  assumes "here m (x # xs) rest tail s" "unsent x"
  shows "between (m + 1) xs rest tail s"
proof -
  have p: "pays (x # xs) = pays xs" "pays ((x # xs) @ rest) = pays (xs @ rest)"
    using assms(2) by (simp_all add: pays_unsent_Cons)
  have h: "values_ahead (x # xs) (body None rest @ tail) s" "block_code m (x # xs) rest s"
    "x_cnt s = of_nat (length (pays ((x # xs) @ rest)))" "x_bit s = push_bit m 1"
    using assms(1) unfolding here_def by blast+
  have "values_ahead xs (body None rest @ tail) s" using h(1) unfolding values_ahead_def p .
  moreover have "block_code (m + 1) xs rest s" by (rule block_code_tl [OF h(2)])
  moreover have "xs = [] \<Longrightarrow> rest \<noteq> [] \<Longrightarrow> x_bit s = 0x40" using h(2,4) by (simp add: block_code_def)
  ultimately show ?thesis using h(3,4) p(2) unfolding between_def by simp
qed

lemma code_bit:
  assumes "block_code m (x # xs) rest s" "x_bit s = push_bit m 1"
  shows "x_code s AND x_bit s = 0 \<longleftrightarrow> unsent x"
proof -
  have "x_bit s = 2 ^ m" using assms(2) by simp
  moreover have "bit (x_code s) m \<longleftrightarrow> \<not> unsent x" using assms(1) by (auto simp: block_code_def dest!: spec [of _ 0])
  ultimately show ?thesis using and_power_bit [of "x_bit s" m "x_code s"] by simp
qed

subsection \<open>Storing a value\<close>

lemma mask_15: "(0x0F :: 'a::len word) = mask 4"
  by (simp add: mask_eq_exp_minus_1)

lemma low_nibble: "v AND 0xF0 = 0 \<longleftrightarrow> (\<forall>k. bit (v :: u8) k \<longrightarrow> k < 4)"
proof -
  have m: "(0xF0 :: u8) = push_bit 4 (mask 4)" by (simp add: mask_eq_exp_minus_1)
  have high: "bit v k \<Longrightarrow> k < 8" for k by (meson byte_bit_high not_le)
  show ?thesis
  proof
    assume *: "v AND 0xF0 = 0"
    show "\<forall>k. bit v k \<longrightarrow> k < 4"
    proof (intro allI impI)
      fix k assume k: "bit v k"
      have "\<not> bit (v AND push_bit 4 (mask 4)) k" using * unfolding m by simp
      then show "k < 4" using k high [OF k] by (auto simp: bit_simps)
    qed
  qed (auto simp: m bit_eq_iff bit_simps)
qed

lemma nib_low: "nib bs AND 0xF0 = 0"
  by (simp add: low_nibble nib_def mask_15 bit_simps)

lemma nibble_pair:
  assumes "v AND 0xF0 = 0" "w AND 0xF0 = (0 :: u8)"
  shows "(v OR push_bit 4 w) AND 0x0F = v" "drop_bit 4 (v OR push_bit 4 w) = w"
  using assms by (auto intro!: bit_word_eqI simp: low_nibble mask_15 bit_simps not_less)

lemma nibble_single: "v AND 0xF0 = 0 \<Longrightarrow> v AND 0x0F = (v :: u8)"
  by (auto intro!: bit_word_eqI simp: low_nibble mask_15 bit_simps not_less)

lemma put_low_byte:
  shows "ucast (put_low 1 (ucast (y :: u8)) old) = y" "put_low 1 (ucast y) old AND 0x0F = ucast (y AND 0x0F)"
  by (auto intro!: bit_word_eqI simp: put_low_def mask_15 bit_simps)

lemma payload_waiting:
  assumes "v AND 0xF0 = 0"
  shows "\<exists>y R. payload (Some v) ps = y # R \<and> y AND 0x0F = v"
proof (cases ps)
  case (Cons p ps')
  then show ?thesis using assms by (cases p; cases "fst p") (auto simp: nibble_pair nib_low nibble_single)
qed (use assms nibble_single in auto)

definition item_ok :: "field_s list \<Rightarrow> item \<Rightarrow> bool" where
  "item_ok fs x \<longleftrightarrow> (case x of (i, u, p) \<Rightarrow> u = is_fmt fmt_u4 (fs ! i) \<and>
     (\<forall>bs. p = Some bs \<longrightarrow> length bs = width_of (f_fmt (fs ! i)) \<and> bs \<noteq> []))"

lemma width_u4: "width_of (fmt_code fmt_u4) = 1"
  unfolding width_of_def fmt_of_code_inverse by simp

lemma dec_slot_spec:
  assumes ahead: "values_ahead ((i, u, Some bs) # xs) zs s" and ok: "item_ok fs (i, u, Some bs)" and f: "in_arrays d i" "dec_field d i = fs ! i"
    and opts: "x_nibble_n s \<noteq> 0 \<longrightarrow> u"
  shows "\<exists>s'. dec_slot i d s = Some (x_cnt s - 1 \<noteq> 0, dec_put i (seen_value (f_fmt (fs ! i)) bs (d_value d ! i)) d, s') \<and>
    values_ahead xs zs s' \<and> x_cnt s' = x_cnt s - 1 \<and> x_bit s' = x_bit s \<and> x_code s' = x_code s \<and> x_upd s' \<and>
    (x_nibble_n s' \<noteq> 0 \<longrightarrow> u)"
proof -
  let ?r = "x_r s" and ?fmt = "f_fmt (fs ! i)" and ?old = "d_value d ! i"
  have r: "reader_ok ?r" using ahead by (simp add: values_ahead_def)
  have avail: "r_available ?r = length (r_rest ?r)" by (rule r_available_rest [OF r])
  obtain ms where mem: "drop (r_pos ?r) (r_buf ?r) = r_rest ?r @ ms" using memory_rest [OF r] by auto
  have u: "u = (?fmt = fmt_code fmt_u4)" and bs: "length bs = width_of ?fmt" "bs \<noteq> []"
    using ok by (auto simp: item_ok_def is_fmt_def)
  show ?thesis
  proof (cases "x_nibble_n s = 0")
    case n0: True
    then have rest: "r_rest ?r = payload None ((u, bs) # pays xs) @ zs" using ahead by (simp add: values_ahead_def)
    show ?thesis
    proof (cases u)
      case False
      then have rest': "r_rest ?r = bs @ payload None (pays xs) @ zs" using rest by simp
      have val: "unpack_value (drop (r_pos ?r) (r_buf ?r)) ?old type_real ?fmt (r_available ?r) =
          Some (length bs, unpacked_value ?fmt bs ?old)"
        using unpack_value_prefix [OF bs, of "r_available ?r" "payload None (pays xs) @ zs @ ms" ?old type_real] avail rest' mem by simp
      have len: "length bs \<noteq> 0" "\<not> length bs > r_available ?r" using bs(2) avail rest' by simp_all
      show ?thesis
        using n0 val len r_reset_rest [OF r rest'] False f u
        by (auto simp: dec_slot_def Let_def is_fmt_def seen_value_def dec_put_def values_ahead_def split: prod.splits)
    next
      case True
      then have fmt: "?fmt = fmt_code fmt_u4" using u by simp
      obtain y R where y: "payload (Some (nib bs)) (pays xs) = y # R" "y AND 0x0F = nib bs"
        using payload_waiting [OF nib_low] by metis
      then have rest': "r_rest ?r = [y] @ R @ zs" using rest True by simp
      have val: "unpack_value (drop (r_pos ?r) (r_buf ?r)) ?old type_real ?fmt (r_available ?r) =
          Some (1, put_low 1 (ucast y) ?old, type_byte)"
      proof -
        have "length [y] = width_of ?fmt" unfolding fmt width_u4 by simp
        then have "unpack_value ([y] @ R @ zs @ ms) ?old type_real ?fmt (r_available ?r) =
            Some (length [y], unpacked_value ?fmt [y] ?old)"
          by (rule unpack_value_prefix) (use avail rest' in auto)
        moreover have "unpacked_value ?fmt [y] ?old = (put_low 1 (ucast y) ?old, type_byte)"
          using unpacked_u4 [of "[y]" ?old] unfolding fmt by simp
        ultimately show ?thesis using mem rest' by simp
      qed
      have len: "\<not> 1 > r_available ?r" using avail rest' by simp
      have reset: "reader_ok (r_reset (size_add (r_pos ?r) 1) ?r)" "r_rest (r_reset (size_add (r_pos ?r) 1) ?r) = R @ zs"
        using r_reset_rest [OF r rest'] by simp_all
      have "values_ahead xs zs (s\<lparr> x_r := r_reset (size_add (r_pos ?r) 1) ?r, x_nibble_n := 1, x_nibble := y, x_upd := True,
          x_cnt := x_cnt s - 1 \<rparr>)"
        using reset y(1) nib_low [of bs] by (auto simp: values_ahead_def)
      then show ?thesis
        using n0 val len True f fmt put_low_byte [of y ?old] y(2)
        by (simp add: dec_slot_def Let_def is_fmt_def seen_value_def dec_put_def)
    qed
  next
    case n1: False
    then have True: u using opts by simp
    then have fmt: "?fmt = fmt_code fmt_u4" using u by simp
    obtain v R where v: "v AND 0xF0 = 0" "payload (Some v) ((u, bs) # pays xs) = x_nibble s # R" "r_rest ?r = R @ zs"
      using ahead n1 by (auto simp: values_ahead_def)
    then have "x_nibble s = v OR push_bit 4 (nib bs)" "R = payload None (pays xs)" using True by simp_all
    then have "drop_bit 4 (x_nibble s) = nib bs" "values_ahead xs zs (s\<lparr> x_nibble_n := 0, x_upd := True, x_cnt := x_cnt s - 1 \<rparr>)"
      using nibble_pair(2) [OF v(1) nib_low] v(3) r by (simp_all add: values_ahead_def)
    then show ?thesis
      using n1 True f fmt by (simp add: dec_slot_def Let_def is_fmt_def seen_value_def dec_put_def)
  qed
qed

subsection \<open>Code bytes and distances\<close>

lemma values_ahead_Nil: "values_ahead [] zs s \<Longrightarrow> reader_ok (x_r s) \<and> r_rest (x_r s) = zs"
  by (auto simp: values_ahead_def split: if_splits)

lemma values_ahead_update:
  "values_ahead xs zs (s\<lparr> x_bit := b \<rparr>) = values_ahead xs zs s"
  by (simp add: values_ahead_def)

lemma dec_code_inside:
  assumes "between m (x # xs) rest tail s"
  shows "dec_code d i s = Some (Some i, i, s\<lparr> x_bit := push_bit 1 (x_bit s) \<rparr>) \<and>
    here m (x # xs) rest tail (s\<lparr> x_bit := push_bit 1 (x_bit s) \<rparr>)"
proof -
  have b: "m > 0" "x_bit s = push_bit (m - 1) 1" "m + length (x # xs) \<le> 7" "block_code m (x # xs) rest s"
    "values_ahead (x # xs) (body None rest @ tail) s" "x_cnt s = of_nat (length (pays ((x # xs) @ rest)))"
    using assms by (auto simp: between_def block_code_def)
  then have "x_bit s \<noteq> 0x40" using push_bit_40 [of "m - 1"] by simp
  moreover have "push_bit 1 (x_bit s) = push_bit m 1" using b(1,2) by (cases m) simp_all
  moreover have "values_ahead (x # xs) (body None rest @ tail) (s\<lparr> x_bit := push_bit m 1 \<rparr>)"
    using b(5) by (simp add: values_ahead_update)
  ultimately show ?thesis using b(4,6) by (simp add: dec_code_def here_def block_code_def)
qed

lemma dec_code_block:
  assumes "between m [] rest tail s" "\<not> list_all unsent (take 7 rest)"
  shows "\<exists>s'. dec_code d i s = Some (Some i, i, s') \<and> here 0 (take 7 rest) (drop 7 rest) tail s' \<and> x_nibble_n s' = 0 \<and>
    x_upd s' = x_upd s"
proof -
  let ?blk = "take 7 rest"
  have ne: "rest \<noteq> []" using assms(2) by auto
  have body: "body None rest = code_bits 0 ?blk # payload None (pays ?blk) @ body None (drop 7 rest)"
    using assms(2) ne by (simp add: body.simps [of None rest])
  have r: "reader_ok (x_r s)" "r_rest (x_r s) = body None rest @ tail"
    using assms(1) values_ahead_Nil unfolding between_def by blast+
  have b: "x_bit s = 0x40" "x_cnt s = of_nat (length (pays rest))" using assms(1) ne by (simp_all add: between_def)
  obtain r' where r': "read_u8 (x_r s) = Some (code_bits 0 ?blk, r')" "reader_ok r'"
    "r_rest r' = payload None (pays ?blk) @ body None (drop 7 rest) @ tail"
    using read_u8_rest [OF r(1)] r(2) body by auto
  have "\<not> bit (code_bits 0 ?blk) 7" by (simp add: bit_code_bits)
  then have clear: "code_bits 0 ?blk AND 0x80 = 0" using and_power_bit [of "0x80 :: u8" 7 "code_bits 0 ?blk"] by simp
  let ?s = "s\<lparr> x_r := r', x_code := code_bits 0 ?blk, x_bit := 1, x_nibble_n := 0 \<rparr>"
  have "dec_code d i s = Some (Some i, i, ?s)" using b(1) r'(1) clear by (simp add: dec_code_def)
  moreover have "values_ahead ?blk (body None (drop 7 rest) @ tail) ?s" using r'(2,3) by (simp add: values_ahead_def)
  moreover have "block_code 0 ?blk (drop 7 rest) ?s" by (simp add: block_code_def bit_code_bits)
  ultimately show ?thesis using b(2) by (auto simp: here_def)
qed

lemma body_after_run:
  "body (Some c) items = (case dropWhile unsent items of [] \<Rightarrow> []
     | x # xs \<Rightarrow> offsets (fst x - c) @ payload None (pays [x]) @ body None xs)"
proof (induction "length items" arbitrary: items rule: less_induct)
  case less
  show ?case
  proof (cases "items \<noteq> [] \<and> list_all unsent (take 7 items)")
    case True
    then have "dropWhile unsent (take 7 items @ drop 7 items) = dropWhile unsent (drop 7 items)"
      by (intro dropWhile_append2) (auto simp: list_all_iff)
    then have dw: "dropWhile unsent items = dropWhile unsent (drop 7 items)" by simp
    have "body (Some c) items = body (Some c) (drop 7 items)"
      using True by (simp add: body.simps [of "Some c" items])
    moreover have "length (drop 7 items) < length items" using True by (cases items) auto
    ultimately show ?thesis using less [of "drop 7 items"] dw by simp
  next
    case False
    then show ?thesis by (subst body.simps) auto
  qed
qed

lemma body_empty_run:
  assumes "items \<noteq> []" "list_all unsent (take 7 items)"
  shows "body None items = (case dropWhile unsent items of [] \<Rightarrow> []
     | x # xs \<Rightarrow> offsets (fst x - fst (hd items)) @ payload None (pays [x]) @ body None xs)"
proof -
  have "dropWhile unsent (take 7 items @ drop 7 items) = dropWhile unsent (drop 7 items)"
    using assms(2) by (intro dropWhile_append2) (auto simp: list_all_iff)
  then show ?thesis using assms by (simp add: body.simps [of None items] body_after_run)
qed

lemma body_unsent:
  assumes "pays items = []"
  shows "body None items = []"
proof (cases "items = []")
  case False
  have all: "list_all unsent items" using assms by (simp add: pays_unsent)
  then have "list_all unsent (take 7 items)" by (auto simp: list_all_iff dest: in_set_takeD)
  moreover have "dropWhile unsent items = []" using all by (simp add: list_all_iff)
  ultimately show ?thesis using body_empty_run [OF False] by (simp only: list.case)
qed (simp add: body.simps)

lemma distance_byte:
  assumes "k < 128"
  shows "(of_nat k OR 0x80) AND 0x7F = (of_nat k :: u8) \<and> (of_nat k OR 0x80 :: u8) AND 0x80 \<noteq> 0"
proof -
  define h :: u8 where "h = 0x80"
  have h: "bit h n \<longleftrightarrow> n = 7" for n
    using bit_exp_iff [of 7 n, where 'a = "8 word"] by (auto simp: h_def)
  have m: "(0x7F :: u8) = mask 7" by (simp add: mask_eq_exp_minus_1)
  have "take_bit 7 (of_nat k :: u8) = of_nat k" using assms by (simp add: take_bit_of_nat take_bit_nat_eq_self)
  then have "(of_nat k :: u8) AND mask 7 = of_nat k" by (simp only: take_bit_eq_mask)
  moreover have "(of_nat k OR h) AND mask 7 = (of_nat k :: u8) AND mask 7" by (rule bit_word_eqI) (auto simp: bit_simps h)
  moreover have "bit (of_nat k OR h) 7" by (simp add: bit_or_iff h)
  ultimately show ?thesis
    using and_power_bit [of h 7 "of_nat k OR h"] unfolding m h_def by simp
qed

lemma dec_offset_spec:
  assumes "7 \<le> n" "n < 240" "reader_ok r" "r_rest r = offsets n @ zs"
  shows "\<exists>code r1 code' r'. read_u8 r = Some (code, r1) \<and> code AND 0x80 \<noteq> 0 \<and> \<not> code AND 0x7F < 7 \<and>
    dec_offset (code AND 0x7F) code (ucast (code AND 0x7F)) r1 = Some (code', of_nat n, r') \<and> code' AND 0x80 \<noteq> 0 \<and>
    reader_ok r' \<and> r_rest r' = zs"
proof -
  show ?thesis
  proof (cases "n < 127")
    case True
    then have "r_rest r = (of_nat n OR 0x80) # zs" using assms(4) by (simp add: offsets.simps [of n])
    then obtain r1 where r1: "read_u8 r = Some (of_nat n OR 0x80, r1)" "reader_ok r1" "r_rest r1 = zs"
      using read_u8_rest [OF assms(3)] by blast
    have n: "\<not> (of_nat n :: u8) < 7" "(of_nat n :: u8) \<noteq> 0x7F" "ucast (of_nat n :: u8) = (of_nat n :: u16)"
      using True assms(1) by (auto simp: word_less_nat_alt unat_of_nat word_unat_eq_iff unsigned_ucast_eq take_bit_nat_eq_self)
    have "dec_offset (of_nat n) (of_nat n OR 0x80) (of_nat n) r1 = Some (of_nat n OR 0x80, of_nat n, r1)"
      using n(2) by (subst dec_offset.simps) simp
    then show ?thesis using r1 n distance_byte [of n] True by (intro exI [of _ "of_nat n OR 0x80"] exI [of _ r1]) auto
  next
    case False
    define k where "k = n - 127"
    have k: "k < 127" "n = 127 + k" using False assms(2) by (simp_all add: k_def)
    have "offsets n = [0xFF, of_nat k OR 0x80]" using False k(1) by (simp add: offsets.simps [of n] k_def [symmetric] offsets.simps [of k])
    then have rest: "r_rest r = 0xFF # (of_nat k OR 0x80) # zs" using assms(4) by simp
    obtain r1 where r1: "read_u8 r = Some (0xFF, r1)" "reader_ok r1" "r_rest r1 = (of_nat k OR 0x80) # zs"
      using read_u8_rest [OF assms(3) rest] by blast
    obtain r2 where r2: "read_u8 r1 = Some (of_nat k OR 0x80, r2)" "reader_ok r2" "r_rest r2 = zs"
      using read_u8_rest [OF r1(2,3)] by blast
    have kk: "(of_nat k :: u8) \<noteq> 0x7F" "ucast (of_nat k :: u8) = (of_nat k :: u16)"
      using k(1) by (auto simp: word_unat_eq_iff unat_of_nat unsigned_ucast_eq take_bit_nat_eq_self)
    have "dec_offset (of_nat k) 0x80 (0x7F + of_nat k) r2 = Some (0x80, of_nat n, r2)"
      using kk(1) k(2) by (subst dec_offset.simps) simp
    then have "dec_offset 0x7F 0xFF 0x7F r1 = Some (0x80, of_nat n, r2)"
      using r2(1) distance_byte [of k] k(1) kk(2) by (subst dec_offset.simps) simp
    then show ?thesis using r1(1) r2 by (intro exI [of _ "0xFF"] exI [of _ r1] exI [of _ "0x80"] exI [of _ r2]) simp
  qed
qed

lemma due_from_sorted: "sorted_wrt (<) (due_from pseq fs i n)"
  by (simp add: due_from_def sorted_wrt_filter)

lemma strict_distance:
  assumes "sorted_wrt (<) ns" "k < length ns"
  shows "hd ns + k \<le> (ns ! k :: nat)"
  using assms(2)
proof (induction k)
  case 0
  then show ?case by (simp add: hd_conv_nth)
next
  case (Suc k)
  then have "ns ! k < ns ! Suc k" using sorted_wrt_nth_less [OF assms(1), of k "Suc k"] by simp
  then show ?case using Suc by simp
qed

lemma due_from_suffix: "due_from pseq fs i n = ys @ j # js \<Longrightarrow> js = due_from pseq fs (j + 1) n \<and> j < n \<and> \<not> seq_skipped pseq (fs ! j)"
proof (induction ys arbitrary: i)
  case Nil
  then show ?case using due_from_Cons [of pseq fs i n j js] by simp
next
  case (Cons y ys)
  then show ?case using due_from_Cons [of pseq fs i n y "ys @ j # js"] by simp
qed

lemma see_items_unsent: "list_all unsent xs \<Longrightarrow> see_items (xs @ ys) d = see_items ys d"
  by (induction xs d rule: see_items.induct) (auto simp: unsent_def)

lemma pays_unsent_append: "list_all unsent xs \<Longrightarrow> pays (xs @ ys) = pays ys"
  by (simp add: pays_append pays_unsent)

lemma sint_small: "n < 240 \<Longrightarrow> sint (of_nat n :: u16) = int n"
  by (simp add: sint_uint signed_take_bit_eq_if_positive uint_nat unat_of_nat bit_iff_odd take_bit_nat_eq_self
      take_bit_int_eq_self)

lemma dec_code_run:
  assumes "between m [] items tail s" "items \<noteq> []" "list_all unsent (take 7 items)" "pays items \<noteq> []"
    "map fst items = due_from pseq fs i n" "i = fst (hd items)" "n \<le> d_cnt d" "d_cnt d \<le> 240"
  shows "\<exists>x zs s'. dropWhile unsent items = x # zs \<and> \<not> unsent x \<and> i \<le> fst x \<and>
    dec_code d i s = Some (Some (fst x), fst x, s') \<and> here 6 [x] zs tail s' \<and> x_nibble_n s' = 0 \<and> x_upd s' = x_upd s"
proof -
  obtain x zs where dw: "dropWhile unsent items = x # zs"
    using assms(4) by (cases "dropWhile unsent items") (auto simp: pays_unsent [symmetric] list_all_iff)
  let ?ys = "takeWhile unsent items"
  have items: "items = ?ys @ x # zs" by (simp add: dw [symmetric])
  have sent: "\<not> unsent x" using hd_dropWhile [of unsent items] dw by auto
  have ys: "list_all unsent ?ys" by (auto simp: list_all_iff dest: set_takeWhileD)
  have len: "7 \<le> length ?ys"
  proof (rule ccontr)
    assume "\<not> 7 \<le> length ?ys"
    then have "x \<in> set (take 7 items)" by (subst items) (simp add: take_Cons')
    then show False using assms(3) sent by (auto simp: list_all_iff)
  qed
  have idx: "map fst items ! length ?ys = fst x" by (subst items) (simp add: nth_append)
  have "length ?ys < length (map fst items)" by (subst (2) items) simp
  moreover have "sorted_wrt (<) (map fst items)" using due_from_sorted [of pseq fs i n] assms(5) by simp
  moreover have "hd (map fst items) = i" using assms(2,6) by (simp add: hd_map)
  ultimately have dist: "i + 7 \<le> fst x" using strict_distance [of "map fst items" "length ?ys"] idx len by simp
  have "due_from pseq fs i n = map fst ?ys @ fst x # map fst zs" unfolding assms(5) [symmetric] by (subst items) simp
  then have xn: "fst x < n" using due_from_suffix by blast
  define k where "k = fst x - i"
  have k: "7 \<le> k" "k < 240" "i + k = fst x" using dist xn assms(7,8) by (auto simp: k_def)
  have r: "reader_ok (x_r s)" "r_rest (x_r s) = body None items @ tail"
    using assms(1) values_ahead_Nil unfolding between_def by blast+
  have b: "x_bit s = 0x40" "x_cnt s = of_nat (length (pays items))" using assms(1,2) by (simp_all add: between_def)
  have "r_rest (x_r s) = offsets k @ payload None (pays [x]) @ body None zs @ tail"
    using r(2) body_empty_run [OF assms(2,3)] dw assms(6) by (simp add: k_def)
  then obtain code r1 code' r' where c: "read_u8 (x_r s) = Some (code, r1)" "code AND 0x80 \<noteq> 0" "\<not> code AND 0x7F < 7"
    "dec_offset (code AND 0x7F) code (ucast (code AND 0x7F)) r1 = Some (code', of_nat k, r')" "code' AND 0x80 \<noteq> 0"
    "reader_ok r'" "r_rest r' = payload None (pays [x]) @ body None zs @ tail"
    using dec_offset_spec [OF k(1,2) r(1)] by metis
  let ?s = "s\<lparr> x_r := r', x_code := 0x40, x_bit := 0x40, x_nibble_n := 0 \<rparr>"
  have "\<not> sint (of_nat k :: u16) < 7" "i + nat (sint (of_nat k :: u16)) = fst x" "\<not> fst x \<ge> d_cnt d"
    using k xn assms(7) sint_small [OF k(2)] by simp_all
  then have "dec_code d i s = Some (Some (fst x), fst x, ?s)"
    using b(1) c by (simp add: dec_code_def Let_def)
  moreover have "here 6 [x] zs tail ?s"
  proof -
    have "pays items = pays ([x] @ zs)" using pays_unsent_append [OF ys, of "x # zs"] items by simp
    moreover have "values_ahead [x] (body None zs @ tail) ?s" using c(6,7) by (simp add: values_ahead_def)
    moreover have "bit (0x40 :: u8) 6" by simp
    ultimately show ?thesis using b(2) sent by (simp add: here_def block_code_def)
  qed
  ultimately show ?thesis using dw sent dist by (intro exI [of _ x] exI [of _ zs] exI [of _ ?s]) simp
qed

subsection \<open>All slots\<close>

text \<open>The items from the index \<open>i\<close>; the end of the loop needs a byte ahead of an option's second half.\<close>

definition items_ok :: "u8 \<Rightarrow> field_s list \<Rightarrow> nat \<Rightarrow> bytes \<Rightarrow> nat \<Rightarrow> item list \<Rightarrow> bool" where
  "items_ok pseq fs n tail i items \<longleftrightarrow> map fst items = due_from pseq fs i n \<and> (\<forall>x\<in>set items. item_ok fs x) \<and>
     sorted (map (fst \<circ> snd) items) \<and> (tail \<noteq> [] \<or> (\<forall>x\<in>set items. \<not> fst (snd x)))"

definition opts_left :: "dec_loop \<Rightarrow> item list \<Rightarrow> bool" where
  "opts_left s items \<longleftrightarrow> (x_nibble_n s \<noteq> 0 \<longrightarrow> (\<forall>x\<in>set items. fst (snd x)))"

definition decoded :: "nat \<Rightarrow> nat \<Rightarrow> item list \<Rightarrow> bytes \<Rightarrow> decoder \<Rightarrow> bool \<Rightarrow> (nat \<times> decoder \<times> dec_loop) option \<Rightarrow> bool" where
  "decoded i n items tail d upd res \<longleftrightarrow> (\<exists>j s'. res = Some (j, see_items items d, s') \<and> reader_ok (x_r s') \<and>
     r_rest (x_r s') = tail \<and> x_cnt s' = 0 \<and> x_upd s' = (upd \<or> pays items \<noteq> []) \<and> i \<le> j \<and> j \<le> n)"

lemma items_ok_suffix:
  assumes "items_ok pseq fs n tail i (ys @ x # zs)"
  shows "items_ok pseq fs n tail (fst x + 1) zs \<and> item_ok fs x \<and> fst x < n \<and> \<not> seq_skipped pseq (fs ! fst x) \<and>
    (fst (snd x) \<longrightarrow> (\<forall>y\<in>set zs. fst (snd y))) \<and> items_ok pseq fs n tail (fst x) (x # zs)"
proof -
  have ok: "map fst (ys @ x # zs) = due_from pseq fs i n" "\<forall>y\<in>set (ys @ x # zs). item_ok fs y"
    "sorted (map (fst \<circ> snd) (ys @ x # zs))" "tail \<noteq> [] \<or> (\<forall>y\<in>set (ys @ x # zs). \<not> fst (snd y))"
    using assms unfolding items_ok_def by blast+
  have "due_from pseq fs i n = map fst ys @ fst x # map fst zs" using ok(1) by simp
  note due = due_from_suffix [OF this]
  have sorted_x: "sorted (map (fst \<circ> snd) (x # zs))" using ok(3) by (simp only: map_append sorted_append)
  then have sorted: "sorted (map (fst \<circ> snd) zs)" and le: "\<forall>b\<in>(fst \<circ> snd) ` set zs. (fst \<circ> snd) x \<le> b"
    unfolding list.map sorted_wrt.simps(2) set_map by blast+
  have "\<forall>y\<in>set zs. fst (snd x) \<longrightarrow> fst (snd y)"
    using le by (metis comp_apply image_eqI le_boolD)
  moreover note sorted
  moreover have "tail \<noteq> [] \<or> (\<forall>y\<in>set zs. \<not> fst (snd y))" using ok(4) by simp
  moreover have "items_ok pseq fs n tail (fst x) (x # zs)"
    unfolding items_ok_def using due due_from_step [of "fst x" n pseq fs] ok(2,4) sorted_x by (intro conjI) simp_all
  ultimately show ?thesis using due ok(2) unfolding items_ok_def by simp
qed

lemma pays_items_ok: "\<forall>x\<in>set items. item_ok fs x \<Longrightarrow> (u, bs) \<in> set (pays items) \<Longrightarrow> bs \<noteq> []"
proof (induction items rule: pays.induct)
  case (3 i u' bs' xs)
  have "bs' \<noteq> []" using 3(2) by (simp add: item_ok_def)
  then show ?case using 3 by auto
qed simp_all

lemma offsets_ne: "offsets n \<noteq> []"
  by (subst offsets.simps) simp

lemma body_ne:
  assumes "pays items \<noteq> []"
  shows "body None items \<noteq> []"
proof (cases "list_all unsent (take 7 items)")
  case True
  have ne: "items \<noteq> []" using assms by auto
  have "\<not> list_all unsent items" using assms by (simp add: pays_unsent)
  then obtain x xs where "dropWhile unsent items = x # xs" by (cases "dropWhile unsent items") (auto simp: list_all_iff)
  then show ?thesis using body_empty_run [OF ne True] by (simp add: offsets_ne)
next
  case False
  then have "items \<noteq> []" by auto
  then show ?thesis using False by (simp add: body.simps [of None items])
qed

lemma values_ahead_ne:
  assumes "values_ahead xs (body None rest @ tail) s" "pays (xs @ rest) \<noteq> []" "opts_left s (xs @ rest)"
    "items_ok pseq fs n tail i (xs @ rest)"
  shows "r_available (x_r s) > 0"
proof -
  have r: "reader_ok (x_r s)" using assms(1) by (simp add: values_ahead_def)
  have "r_rest (x_r s) \<noteq> []"
  proof (cases "x_nibble_n s = 0")
    case True
    then have rest: "r_rest (x_r s) = payload None (pays xs) @ body None rest @ tail"
      using assms(1) by (simp add: values_ahead_def)
    show ?thesis
    proof (cases "pays xs = []")
      case True
      then have "body None rest \<noteq> []" using assms(2) by (intro body_ne) (simp add: pays_append)
      then show ?thesis using rest by simp
    next
      case False
      then obtain u bs ps where ps: "pays xs = (u, bs) # ps" by (cases "pays xs") auto
      then have "(u, bs) \<in> set (pays (xs @ rest))" by (simp add: pays_append)
      then have "bs \<noteq> []" using assms(4) pays_items_ok unfolding items_ok_def by blast
      then show ?thesis using rest ps payload_waiting [OF nib_low, of bs ps] by (cases u) auto
    qed
  next
    case False
    obtain x where "x \<in> set (xs @ rest)" using assms(2) by (cases "xs @ rest") auto
    then have "tail \<noteq> []" using assms(3,4) False unfolding opts_left_def items_ok_def by blast
    then show ?thesis using assms(1) False by (auto simp: values_ahead_def)
  qed
  then show ?thesis using r_available_rest [OF r] by simp
qed

lemma count_zero: "k \<le> 240 \<Longrightarrow> (of_nat k :: u8) = 0 \<longleftrightarrow> k = 0"
  by (rule of_nat_u8_eq_0) simp

lemma length_pays: "length (pays xs) \<le> length xs"
  by (induction xs rule: pays.induct) auto

lemma length_items:
  assumes "items_ok pseq fs n tail i items" "same_fields d fs n"
  shows "length (pays items) \<le> 240"
proof -
  have "length items = length (due_from pseq fs i n)" using assms(1) unfolding items_ok_def by (metis length_map)
  also have "\<dots> \<le> length [i..<n]" unfolding due_from_def by (rule length_filter_le)
  also have "\<dots> \<le> 240"
  proof -
    have "n \<le> 240" using assms(2) by (auto simp: same_fields_def slots_size_def)
    then show ?thesis by simp
  qed
  finally show ?thesis using length_pays [of items] by simp
qed

lemma decoded_done:
  assumes "values_ahead xs (body None rest @ tail) s" "pays (xs @ rest) = []" "x_cnt s = 0" "i \<le> n"
  shows "decoded i n (xs @ rest) tail d (x_upd s) (Some (i, d, s))"
proof -
  have p: "pays xs = []" "pays rest = []" using assms(2) by (simp_all add: pays_append)
  have "values_ahead [] (body None rest @ tail) s" using assms(1) unfolding values_ahead_def p pays.simps .
  then have "reader_ok (x_r s) \<and> r_rest (x_r s) = tail" using values_ahead_Nil body_unsent [OF p(2)] by simp
  moreover have "see_items (xs @ rest) d = d"
    using see_items_unsent [of "xs @ rest" "[]" d] p by (simp add: pays_unsent)
  ultimately show ?thesis using assms(2-4) by (simp add: decoded_def)
qed

lemma after_code:
  assumes here: "here m (x # xs) rest tail s" and same: "same_fields d fs n"
    and ok: "items_ok pseq fs n tail i (ys @ (x # xs) @ rest)" and opts: "opts_left s ((x # xs) @ rest)"
    and some: "pays ((x # xs) @ rest) \<noteq> []"
    and IH: "\<And>d' s'. same_fields d' fs n \<Longrightarrow> between (m + 1) xs rest tail s' \<Longrightarrow> opts_left s' (xs @ rest) \<Longrightarrow>
      items_ok pseq fs n tail (fst x + 1) (xs @ rest) \<Longrightarrow>
      decoded (fst x + 1) n (xs @ rest) tail d' (x_upd s') (dec_slots pseq (fst x + 1) d' s')"
  shows "decoded (fst x) n ((x # xs) @ rest) tail d (x_upd s)
    (if r_available (x_r s) = 0 \<and> x_nibble_n s = 0 then Some (fst x, d, s)
     else if x_code s AND x_bit s = 0 then dec_slots pseq (fst x + 1) d s
     else (case dec_slot (fst x) d s of
             None \<Rightarrow> None
           | Some (go, d, s) \<Rightarrow> if go then dec_slots pseq (fst x + 1) d s else Some (fst x, d, s)))"
proof -
  let ?j = "fst x"
  have h: "values_ahead (x # xs) (body None rest @ tail) s" "block_code m (x # xs) rest s"
    "x_cnt s = of_nat (length (pays ((x # xs) @ rest)))" "x_bit s = push_bit m 1"
    using here unfolding here_def by blast+
  have suf: "items_ok pseq fs n tail (?j + 1) (xs @ rest)" "item_ok fs x" "?j < n"
    "fst (snd x) \<longrightarrow> (\<forall>y\<in>set (xs @ rest). fst (snd y))"
    and here_ok: "items_ok pseq fs n tail ?j ((x # xs) @ rest)"
    using items_ok_suffix [of pseq fs n tail i ys x "xs @ rest"] ok by simp_all
  have f: "in_arrays d ?j" "dec_field d ?j = fs ! ?j" using same suf(3) by (simp_all add: same_fields_def)
  have avail: "r_available (x_r s) > 0" by (rule values_ahead_ne [OF h(1) some opts here_ok])
  have bit: "x_code s AND x_bit s = 0 \<longleftrightarrow> unsent x" by (rule code_bit [OF h(2,4)])
  show ?thesis
  proof (cases "unsent x")
    case True
    have btw: "between (m + 1) xs rest tail s" by (rule here_unsent [OF here True])
    have "opts_left s (xs @ rest)" using opts by (simp add: opts_left_def)
    then have res: "decoded (?j + 1) n (xs @ rest) tail d (x_upd s) (dec_slots pseq (?j + 1) d s)"
      by (rule IH [OF same btw _ suf(1)])
    have p: "pays ((x # xs) @ rest) = pays (xs @ rest)" using True by (simp add: pays_unsent_Cons)
    have see: "see_items ((x # xs) @ rest) d = see_items (xs @ rest) d"
      using see_items_unsent [of "[x]" "xs @ rest" d] True by simp
    show ?thesis using res avail bit True unfolding decoded_def p see by auto
  next
    case False
    obtain u bs where x: "x = (?j, u, Some bs)" using False by (cases x rule: prod_cases3) (auto simp: unsent_def)
    have u: "x_nibble_n s \<noteq> 0 \<longrightarrow> u" using opts x unfolding opts_left_def by (metis append_Cons fst_conv list.set_intros(1) snd_conv)
    obtain s' where s': "dec_slot ?j d s = Some (x_cnt s - 1 \<noteq> 0, dec_put ?j (seen_value (f_fmt (fs ! ?j)) bs (d_value d ! ?j)) d, s')"
      "values_ahead xs (body None rest @ tail) s'" "x_cnt s' = x_cnt s - 1" "x_bit s' = x_bit s" "x_code s' = x_code s" "x_upd s'"
      "x_nibble_n s' \<noteq> 0 \<longrightarrow> u"
      using dec_slot_spec [of ?j u bs xs "body None rest @ tail" s fs d] h(1) suf(2) f u x by metis
    let ?d = "dec_put ?j (seen_value (f_fmt (fs ! ?j)) bs (d_value d ! ?j)) d"
    have p: "pays ((x # xs) @ rest) = (u, bs) # pays (xs @ rest)" by (subst x) simp
    have see: "see_items ((x # xs) @ rest) d = see_items (xs @ rest) ?d" by (subst x) (simp add: f)
    have cnt: "x_cnt s' = of_nat (length (pays (xs @ rest)))" using s'(3) h(3) p by simp
    have btw: "between (m + 1) xs rest tail s'"
    proof -
      have "block_code (m + 1) xs rest s'" using block_code_tl [OF h(2)] s'(5) by (simp add: block_code_def)
      moreover have "xs = [] \<Longrightarrow> rest \<noteq> [] \<Longrightarrow> x_bit s' = 0x40" using h(2,4) s'(4) by (simp add: block_code_def)
      ultimately show ?thesis using s'(2,4) cnt h(4) by (simp add: between_def)
    qed
    have opts': "opts_left s' (xs @ rest)" using s'(7) suf(4) x unfolding opts_left_def by (metis fst_conv snd_conv)
    have upd: "x_upd s' = (x_upd s \<or> pays ((x # xs) @ rest) \<noteq> [])" using s'(6) p by simp
    show ?thesis
    proof (cases "pays (xs @ rest) = []")
      case True
      then have zero: "x_cnt s - 1 = 0" using cnt s'(3) by simp
      have "decoded ?j n (xs @ rest) tail ?d (x_upd s') (Some (?j, ?d, s'))"
        by (rule decoded_done [OF s'(2) True]) (use zero s'(3) suf(3) in auto)
      then show ?thesis using avail bit False s'(1) zero upd True p unfolding decoded_def see by auto
    next
      case more: False
      have "length (pays (xs @ rest)) \<le> 240" by (rule length_items [OF suf(1) same])
      then have "x_cnt s - 1 \<noteq> 0" using cnt s'(3) count_zero [of "length (pays (xs @ rest))"] more by simp
      moreover have "decoded (?j + 1) n (xs @ rest) tail ?d (x_upd s') (dec_slots pseq (?j + 1) ?d s')"
        by (rule IH [OF _ btw opts' suf(1)]) (use same in simp)
      ultimately show ?thesis using avail bit False s'(1,6) p unfolding decoded_def see by auto
    qed
  qed
qed

lemma decoded_earlier: "decoded j n items tail d upd res \<Longrightarrow> i \<le> j \<Longrightarrow> decoded i n items tail d upd res"
  by (auto simp: decoded_def)

lemma dec_slots_spec:
  assumes "same_fields d fs n" "between m xs rest tail s" "opts_left s (xs @ rest)" "items_ok pseq fs n tail i (xs @ rest)" "i \<le> n"
  shows "decoded i n (xs @ rest) tail d (x_upd s) (dec_slots pseq i d s)"
  using assms
proof (induction "length (xs @ rest)" arbitrary: i m xs rest s d rule: less_induct)
  case less
  note same = less.prems(1) and btw = less.prems(2) and opts = less.prems(3) and ok = less.prems(4)
  have b: "values_ahead xs (body None rest @ tail) s" "x_cnt s = of_nat (length (pays (xs @ rest)))"
    using btw unfolding between_def by blast+
  have IH: "decoded (fst x + 1) n (ys @ zs) tail d' (x_upd s') (dec_slots pseq (fst x + 1) d' s')"
    if "same_fields d' fs n" "between m' ys zs tail s'" "opts_left s' (ys @ zs)" "items_ok pseq fs n tail (fst x + 1) (ys @ zs)"
      "length (ys @ zs) < length (xs @ rest)" "fst x < n" for x m' ys zs s' d'
    by (rule less.hyps) (use that in auto)
  show ?case
  proof (cases "pays (xs @ rest) = []")
    case True
    then have "x_cnt s = 0" using b(2) by simp
    then show ?thesis using decoded_done [OF b(1) True _ less.prems(5)] by (simp add: dec_slots_stop)
  next
    case some: False
    have avail: "r_available (x_r s) > 0" by (rule values_ahead_ne [OF b(1) some opts ok])
    have "length (pays (xs @ rest)) \<le> 240" by (rule length_items [OF ok same])
    then have cnt: "x_cnt s > 0" using b(2) count_zero some by (simp add: word_gt_0)
    obtain x0 more where items: "xs @ rest = x0 # more" using some by (cases "xs @ rest") auto
    let ?i = "fst x0"
    have due: "due_from pseq fs i n = ?i # map fst more" using ok items unfolding items_ok_def by (metis list.simps(9))
    note next_due = due_from_Cons [OF due]
    have skip: "dec_slots pseq i d s = dec_slots pseq ?i d s" by (rule dec_skip [OF same due avail cnt])
    have bounds: "n \<le> d_cnt d" "d_cnt d \<le> 240" using same by (auto simp: same_fields_def slots_size_def)
    have seq: "\<not> seq_skipped pseq (fs ! ?i)" "?i < n" "i \<le> ?i" using next_due by auto
    have "decoded ?i n (xs @ rest) tail d (x_upd s) (dec_slots pseq ?i d s)"
    proof (cases xs)
      case (Cons y ys)
      then have y: "y = x0" "more = ys @ rest" using items by auto
      let ?s = "s\<lparr> x_bit := push_bit 1 (x_bit s) \<rparr>"
      have code: "dec_code d ?i s = Some (Some ?i, ?i, ?s)" "here m (x0 # ys) rest tail ?s"
        using dec_code_inside [of m x0 ys rest tail s d ?i] btw Cons y by auto
      have "opts_left ?s ((x0 # ys) @ rest)" using opts Cons y by (simp add: opts_left_def)
      moreover have "items_ok pseq fs n tail i ([] @ (x0 # ys) @ rest)" using ok Cons y by simp
      ultimately have "decoded ?i n ((x0 # ys) @ rest) tail d (x_upd ?s) (dec_slots pseq ?i d s)"
        unfolding dec_slots_due [OF same seq(2,1) avail cnt code(1)]
        using some Cons y seq(2) by (intro after_code [where ys = "[]" and i = i, OF code(2) same] IH) auto
      then show ?thesis using Cons y by simp
    next
      case Nil
      then have rest: "rest = x0 # more" using items by simp
      show ?thesis
      proof (cases "list_all unsent (take 7 rest)")
        case False
        obtain s' where s': "dec_code d ?i s = Some (Some ?i, ?i, s')" "here 0 (take 7 rest) (drop 7 rest) tail s'"
          "x_nibble_n s' = 0" "x_upd s' = x_upd s"
          using dec_code_block [of m rest tail s d ?i] btw Nil False by auto
        let ?ys = "take 6 more" and ?zs = "drop 6 more"
        have split: "take 7 rest = x0 # ?ys" "drop 7 rest = ?zs" "(x0 # ?ys) @ ?zs = rest" using rest by simp_all
        have "opts_left s' ((x0 # ?ys) @ ?zs)" using s'(3) by (simp add: opts_left_def)
        moreover have "items_ok pseq fs n tail i ([] @ (x0 # ?ys) @ ?zs)" using ok Nil split by simp
        moreover have "pays ((x0 # ?ys) @ ?zs) \<noteq> []" using some Nil split by simp
        ultimately have "decoded ?i n ((x0 # ?ys) @ ?zs) tail d (x_upd s') (dec_slots pseq ?i d s)"
          unfolding dec_slots_due [OF same seq(2,1) avail cnt s'(1)]
          using seq(2) Nil rest s'(2) split(1,2) by (intro after_code [where ys = "[]" and i = i, OF _ same] IH) auto
        then show ?thesis using Nil split s'(4) by simp
      next
        case True
        have ne: "rest \<noteq> []" and pr: "pays rest \<noteq> []" using rest some Nil by simp_all
        have "due_from pseq fs ?i n = ?i # map fst more"
          using due_from_step [OF seq(2), of pseq fs] seq(1) next_due by simp
        then have mf': "map fst rest = due_from pseq fs ?i n" using rest by simp
        have btw': "between m [] rest tail s" and hd: "?i = fst (hd rest)" using btw Nil rest by simp_all
        obtain x zs s' where s': "dropWhile unsent rest = x # zs" "\<not> unsent x" "?i \<le> fst x"
          "dec_code d ?i s = Some (Some (fst x), fst x, s')" "here 6 [x] zs tail s'" "x_nibble_n s' = 0" "x_upd s' = x_upd s"
          using dec_code_run [OF btw' ne True pr mf' hd bounds] by blast
        let ?ys = "takeWhile unsent rest"
        have split: "rest = ?ys @ [x] @ zs" using s'(1) by (metis append_Cons append_Nil takeWhile_dropWhile_id)
        have ys: "list_all unsent ?ys" by (auto simp: list_all_iff dest: set_takeWhileD)
        have pays: "pays rest = pays ([x] @ zs)" by (subst split) (rule pays_unsent_append [OF ys])
        have see: "see_items rest d = see_items ([x] @ zs) d" by (subst split) (rule see_items_unsent [OF ys])
        have ok': "items_ok pseq fs n tail i (?ys @ [x] @ zs)" using ok Nil split by simp
        have suf: "fst x < n" using items_ok_suffix [of pseq fs n tail i ?ys x zs] ok' by simp
        have "length zs < length rest" by (subst split) simp
        moreover have "opts_left s' ([x] @ zs)" using s'(6) by (simp add: opts_left_def)
        moreover have "pays ([x] @ zs) \<noteq> []" using pr pays by simp
        ultimately have "decoded (fst x) n ([x] @ zs) tail d (x_upd s') (dec_slots pseq ?i d s)"
          unfolding dec_slots_due [OF same seq(2,1) avail cnt s'(4)]
          using suf Nil s'(5) ok' by (intro after_code [where ys = ?ys and i = i, OF _ same] IH) auto
        then have "decoded ?i n ([x] @ zs) tail d (x_upd s) (dec_slots pseq ?i d s)"
          using s'(3,7) by (auto intro: decoded_earlier)
        then show ?thesis using Nil pays see unfolding decoded_def by simp
      qed
    qed
    then show ?thesis unfolding skip using seq(3) by (rule decoded_earlier)
  qed
qed

subsection \<open>Bit fields\<close>

fun see_bits :: "nat \<Rightarrow> bool list \<Rightarrow> decoder \<Rightarrow> decoder" where
  "see_bits i [] d = d"
| "see_bits i (b # bs) d = see_bits (i + 1) bs (dec_put i (if b then 1 else 0, type_byte) d)"

definition bits_ahead :: "nat \<Rightarrow> u8 \<Rightarrow> u8 \<Rightarrow> bool list \<Rightarrow> reader \<Rightarrow> bool" where
  "bits_ahead k code cb bs r \<longleftrightarrow> reader_ok r \<and> k < 8 \<and> cb = (if k = 0 then 0x80 else push_bit (k - 1) 1) \<and>
     (k > 0 \<longrightarrow> (\<forall>j<length bs. k + j < 8 \<longrightarrow> bit code (k + j) = bs ! j)) \<and>
     r_rest r = bit_bytes (if k = 0 then bs else drop (8 - k) bs)"

lemma flag_bits_first: "\<forall>j<length bs. j < 8 \<longrightarrow> bit (flag_bits 0 (take 8 bs)) j = bs ! j"
  by (simp add: bit_flag_bits)

lemma bits_ahead_step:
  assumes "bits_ahead k code cb (b # bs) r" "is_fmt fmt_bit (dec_field d i)" "in_arrays d i"
  shows "\<exists>k' code' cb' r'. dec_bits (i # is) cnt code cb upd d r =
      dec_bits is (cnt - 1) code' cb' True (dec_put i (if b then 1 else 0, type_byte) d) r' \<and> bits_ahead k' code' cb' bs r'"
proof -
  have k: "k < 8" "reader_ok r" using assms(1) by (auto simp: bits_ahead_def)
  obtain code' r' where c: "dec_bits (i # is) cnt code cb upd d r =
      dec_bits is (cnt - 1) code' (push_bit k 1) True (dec_put i (if code' AND push_bit k 1 \<noteq> 0 then 1 else 0, type_byte) d) r'"
    "\<forall>j<length (b # bs). k + j < 8 \<longrightarrow> bit code' (k + j) = (b # bs) ! j" "reader_ok r'" "r_rest r' = bit_bytes (drop (7 - k) bs)"
  proof (cases "k = 0")
    case True
    have r: "r_rest r = flag_bits 0 (take 8 (b # bs)) # bit_bytes (drop 7 bs)" "cb = 0x80"
      using assms(1) True by (simp_all add: bits_ahead_def bit_bytes.simps [of "b # bs"])
    obtain r' where r': "read_u8 r = Some (flag_bits 0 (take 8 (b # bs)), r')" "reader_ok r'" "r_rest r' = bit_bytes (drop 7 bs)"
      using read_u8_rest [OF k(2) r(1)] by blast
    have "r_available r \<noteq> 0" using r_available_rest [OF k(2)] r(1) by simp
    moreover define F where "F = flag_bits 0 (take 8 (b # bs))"
    moreover have "\<forall>j<length (b # bs). k + j < 8 \<longrightarrow> bit F (k + j) = (b # bs) ! j"
      using flag_bits_first [of "b # bs"] unfolding F_def True add_0 by blast
    ultimately show thesis
      using that [of F r'] r' r(2) True assms(2,3) by (simp add: dec_put_def Let_def del: take_Suc_Cons flag_bits.simps)
  next
    case False
    have cb: "cb = push_bit (k - 1) 1" "k - 1 < 7" using assms(1) False by (auto simp: bits_ahead_def)
    then have "cb \<noteq> 0x80" using push_bit_80 by simp
    moreover have "push_bit 1 cb = push_bit k 1" using cb(1) False by (cases k) simp_all
    moreover have "drop (8 - k) (b # bs) = drop (7 - k) bs" using k(1) by (simp add: drop_Cons')
    ultimately show thesis
      using that [of code r] assms False by (simp add: dec_put_def bits_ahead_def Let_def)
  qed
  have "bit code' k = b" using c(2) k(1) by (auto dest!: spec [of _ 0])
  moreover have "push_bit k (1 :: u8) = 2 ^ k" by simp
  ultimately have v: "code' AND push_bit k 1 \<noteq> 0 \<longleftrightarrow> b" using and_power_bit [of "push_bit k 1 :: u8" k code'] by blast
  have next_bits: "bit code' (k + 1 + j) = bs ! j" if "j < length bs" "k + 1 + j < 8" for j
    using c(2) that by (auto dest!: spec [of _ "Suc j"])
  have "\<exists>k'. bits_ahead k' code' (push_bit k 1) bs r'"
  proof (cases "k = 7")
    case True
    then have "bits_ahead 0 code' (push_bit k 1) bs r'" using c(3,4) by (simp add: bits_ahead_def)
    then show ?thesis ..
  next
    case False
    then have "bits_ahead (k + 1) code' (push_bit k 1) bs r'"
      using c(3,4) k(1) next_bits by (auto simp: bits_ahead_def)
    then show ?thesis ..
  qed
  then show ?thesis using c(1) v by auto
qed

lemma dec_bits_spec:
  assumes "bits_ahead k code cb bs r" "length bs = n - i" "i \<le> n" "\<forall>j. i \<le> j \<longrightarrow> j < n \<longrightarrow> is_fmt fmt_bit (dec_field d j) \<and> in_arrays d j"
  shows "\<exists>r'. dec_bits [i..<n] (of_nat (n - i)) code cb upd d r = Some (0, upd \<or> bs \<noteq> [], see_bits i bs d, r') \<and>
    reader_ok r' \<and> r_rest r' = []"
  using assms
proof (induction bs arbitrary: k code cb r i d upd)
  case Nil
  then show ?case by (simp add: bits_ahead_def bit_bytes.simps [of "[]"])
next
  case (Cons b bs)
  have i: "i < n" using Cons.prems(2) by simp
  obtain k' code' cb' r' where step: "dec_bits (i # [i + 1..<n]) (of_nat (n - i)) code cb upd d r =
      dec_bits [i + 1..<n] (of_nat (n - i) - 1) code' cb' True (dec_put i (if b then 1 else 0, type_byte) d) r'"
    "bits_ahead k' code' cb' bs r'"
    using bits_ahead_step [OF Cons.prems(1), of d i] Cons.prems(4) i by blast
  have cnt: "of_nat (n - i) - 1 = (of_nat (n - (i + 1)) :: u8)" using i by (simp add: of_nat_diff)
  have "\<exists>r''. dec_bits [i + 1..<n] (of_nat (n - (i + 1))) code' cb' True (dec_put i (if b then 1 else 0, type_byte) d) r' =
      Some (0, True \<or> bs \<noteq> [], see_bits (i + 1) bs (dec_put i (if b then 1 else 0, type_byte) d), r'') \<and>
      reader_ok r'' \<and> r_rest r'' = []"
    by (rule Cons.IH [OF step(2)]) (use Cons.prems(2,4) i in auto)
  then show ?case using step(1) i unfolding cnt by (simp add: upt_conv_Cons)
qed

end
