(* ===== verification/Telemetry_Wire.thy ===== *)
theory Telemetry_Wire
  imports Telemetry_Format
begin

text \<open>
  The headers of the telemetry packets honour the contract of the serialised structures.
\<close>

subsection \<open>Images\<close>

definition hdr_image :: "hdr_s \<Rightarrow> bytes" where
  "hdr_image x = le_bytes 2 (hdr_ts x) @ [hdr_feed_hash x]"

definition req_image :: "format_req_s \<Rightarrow> bytes" where
  "req_image x = [req_version x] @ [req_part x]"

definition resp_image :: "format_resp_hdr_s \<Rightarrow> bytes" where
  "resp_image x = [resp_version x] @ [resp_part x] @ [resp_pcnt x] @ [resp_psz x] @ le_bytes 4 (resp_hash x)"

lemmas telemetry_images = hdr_image_def req_image_def resp_image_def
lemmas telemetry_reads = hdr_read_def [abs_def] req_read_def [abs_def] resp_read_def [abs_def]
lemmas telemetry_writes = hdr_write_def [abs_def] req_write_def [abs_def] resp_write_def [abs_def]

interpretation hdr_wire: sized_wire_format "\<lambda>_. True" hdr_read hdr_write hdr_image hdr_psize
proof
  fix x old :: hdr_s
  show "puts (hdr_write x) (hdr_image x)"
    unfolding telemetry_writes telemetry_images by (rule stream_rules)+
  have "old\<lparr> hdr_ts := hdr_ts x, hdr_feed_hash := hdr_feed_hash x \<rparr> = x" by (cases x; cases old) simp
  moreover have "gets (hdr_read old) (hdr_image x) (old\<lparr> hdr_ts := hdr_ts x, hdr_feed_hash := hdr_feed_hash x \<rparr>)"
    unfolding telemetry_reads telemetry_images by (rule stream_rules)+
  ultimately show "gets (hdr_read old) (hdr_image x) x" by (simp only:)
  show "safe_get (hdr_read old)"
    unfolding telemetry_reads by (rule stream_rules)+
  show "safe_put (hdr_write x)"
    unfolding telemetry_writes by (rule stream_rules)+
qed (simp add: hdr_image_def hdr_psize_def)

interpretation req_wire: sized_wire_format "\<lambda>_. True" req_read req_write req_image req_psize
proof
  fix x old :: format_req_s
  show "puts (req_write x) (req_image x)"
    unfolding telemetry_writes telemetry_images by (rule stream_rules)+
  have "old\<lparr> req_version := req_version x, req_part := req_part x \<rparr> = x" by (cases x; cases old) simp
  moreover have "gets (req_read old) (req_image x) (old\<lparr> req_version := req_version x, req_part := req_part x \<rparr>)"
    unfolding telemetry_reads telemetry_images by (rule stream_rules)+
  ultimately show "gets (req_read old) (req_image x) x" by (simp only:)
  show "safe_get (req_read old)"
    unfolding telemetry_reads by (rule stream_rules)+
  show "safe_put (req_write x)"
    unfolding telemetry_writes by (rule stream_rules)+
qed (simp add: req_image_def req_psize_def)

interpretation resp_wire: sized_wire_format "\<lambda>_. True" resp_read resp_write resp_image resp_psize
proof
  fix x old :: format_resp_hdr_s
  let ?y = "old\<lparr> resp_version := resp_version x, resp_part := resp_part x, resp_pcnt := resp_pcnt x,
    resp_psz := resp_psz x, resp_hash := resp_hash x \<rparr>"
  show "puts (resp_write x) (resp_image x)"
    unfolding telemetry_writes telemetry_images by (rule stream_rules)+
  have "?y = x" by (cases x; cases old) simp
  moreover have "gets (resp_read old) (resp_image x) ?y"
    unfolding telemetry_reads telemetry_images by (rule stream_rules)+
  ultimately show "gets (resp_read old) (resp_image x) x" by (simp only:)
  show "safe_get (resp_read old)"
    unfolding telemetry_reads by (rule stream_rules)+
  show "safe_put (resp_write x)"
    unfolding telemetry_writes by (rule stream_rules)+
qed (simp add: resp_image_def resp_psize_def)

text \<open>
  The headers of telemetry packets occupy \<open>psize()\<close> bytes and read back unchanged.
\<close>

theorem telemetry_headers_roundtrip:
  assumes "8 \<le> length buf" "length buf < mem_max"
  shows "roundtrips hdr_read hdr_write hdr_psize h' h buf \<and> roundtrips req_read req_write req_psize q' q buf \<and>
    roundtrips resp_read resp_write resp_psize a' a buf"
  unfolding roundtrips_def using assms
  by (intro conjI hdr_wire.write_then_read_psize req_wire.write_then_read_psize resp_wire.write_then_read_psize)
    (simp_all add: hdr_psize_def req_psize_def resp_psize_def)

lemma telemetry_headers_roundtrip_witness:
  "roundtrips hdr_read hdr_write hdr_psize \<lparr> hdr_ts = 0, hdr_feed_hash = 0 \<rparr> \<lparr> hdr_ts = 0x1234, hdr_feed_hash = 5 \<rparr> (replicate 8 0)"
  using telemetry_headers_roundtrip [of "replicate 8 0"] by simp

end
