(* ===== verification/Telemetry_Link.thy ===== *)
theory Telemetry_Link
  imports Telemetry_Unpacking Telemetry_Wire
begin

text \<open>
  The telemetry stream end to end: what \<open>decode\<close> stores after \<open>encode\<close>.
\<close>

unbundle bit_operations_syntax

subsection \<open>A frame of values\<close>

text \<open>The decoder has the format of the encoder.\<close>

definition in_step :: "encoder \<Rightarrow> decoder \<Rightarrow> bool" where
  "in_step e d \<longleftrightarrow> d_cnt d = e_cnt e \<and> (\<forall>i<e_cnt e. dec_field d i = e_fields e ! i) \<and> dec_arrays d"

lemma in_step_in:
  assumes "enc_wf D e" "in_step e d" "i < e_cnt e"
  shows "in_arrays d i"
  using assms dec_arrays_in [of d i] by (auto simp: in_step_def enc_wf_def enc_arrays_def)

text \<open>
  What the decoder holds for the slot \<open>i\<close> after a frame: bit fields are always sent, other slots
  when they are due and their packed value has changed.
\<close>

definition delivered :: "(nat \<Rightarrow> raw_t) \<Rightarrow> u8 \<Rightarrow> encoder \<Rightarrow> decoder \<Rightarrow> nat \<Rightarrow> raw_t \<times> dec_flags_s" where
  "delivered junk pseq e d i =
     (let f = e_fields e ! i
      in if is_fmt fmt_bit f then (if e_value e ! i \<noteq> 0 then 1 else 0, \<lparr> df_type = type_byte, df_upd = True \<rparr>)
         else if seq_skipped pseq f then (d_value d ! i, d_flags d ! i)
         else (case sent_bytes junk e i of
                 None \<Rightarrow> (d_value d ! i, d_flags d ! i)
               | Some bs \<Rightarrow> (fst (seen_value (f_fmt f) bs (d_value d ! i)),
                             \<lparr> df_type = snd (seen_value (f_fmt f) bs (d_value d ! i)), df_upd = True \<rparr>)))"

text \<open>
  The decoder's loop ends when the stream does, even if the second option of the last byte is still
  to be stored: with options there must be bit fields behind them.
\<close>

definition halves_closed :: "encoder \<Rightarrow> bool" where
  "halves_closed e \<longleftrightarrow> bit_start (used e) < e_cnt e \<or> (\<forall>f\<in>set (used e). \<not> is_fmt fmt_u4 f)"

lemma see_items_fields:
  "d_mem (see_items xs d) = d_mem d \<and> d_cnt (see_items xs d) = d_cnt d \<and> dec_field (see_items xs d) = dec_field d \<and>
   length (d_value (see_items xs d)) = length (d_value d) \<and> length (d_flags (see_items xs d)) = length (d_flags d) \<and>
   in_arrays (see_items xs d) = in_arrays d"
  by (induction xs d rule: see_items.induct) (auto simp: dec_put_def dec_field_def in_arrays_def fun_eq_iff)

lemma see_bits_fields:
  "d_mem (see_bits i bs d) = d_mem d \<and> d_cnt (see_bits i bs d) = d_cnt d \<and> dec_field (see_bits i bs d) = dec_field d \<and>
   length (d_value (see_bits i bs d)) = length (d_value d) \<and> length (d_flags (see_bits i bs d)) = length (d_flags d) \<and>
   in_arrays (see_bits i bs d) = in_arrays d"
  by (induction i bs d rule: see_bits.induct) (auto simp: dec_put_def dec_field_def in_arrays_def fun_eq_iff)

definition slot_of :: "decoder \<Rightarrow> nat \<Rightarrow> raw_t \<times> dec_flags_s" where
  "slot_of d i = (d_value d ! i, d_flags d ! i)"

lemma slot_of_put:
  assumes "i < length (d_value d)" "i < length (d_flags d)"
  shows "slot_of (dec_put j x d) i = (if i = j then (fst x, \<lparr> df_type = snd x, df_upd = True \<rparr>) else slot_of d i)"
  using assms by (auto simp: slot_of_def dec_put_def)

lemma see_items_other: "i \<notin> fst ` set xs \<Longrightarrow> slot_of (see_items xs d) i = slot_of d i"
  by (induction xs d rule: see_items.induct) (auto simp: slot_of_def dec_put_def)

lemma see_items_nth:
  assumes "distinct (map fst xs)" "(i, u, p) \<in> set xs" "i < length (d_value d)" "i < length (d_flags d)"
  shows "slot_of (see_items xs d) i =
    (case p of None \<Rightarrow> slot_of d i
     | Some bs \<Rightarrow> (fst (seen_value (f_fmt (dec_field d i)) bs (d_value d ! i)),
                   \<lparr> df_type = snd (seen_value (f_fmt (dec_field d i)) bs (d_value d ! i)), df_upd = True \<rparr>))"
  using assms
proof (induction xs d rule: see_items.induct)
  case (2 j v xs d)
  then show ?case using see_items_other [of i xs d] by (cases "i = j") (force, auto)
next
  case (3 j v bs xs d)
  let ?x = "seen_value (f_fmt (dec_field d j)) bs (d_value d ! j)"
  show ?case
  proof (cases "i = j")
    case True
    then have "i \<notin> fst ` set xs" "p = Some bs" using 3(2,3) by force+
    then show ?thesis
      using see_items_other [of i xs "dec_put j ?x d"] slot_of_put [OF 3(4,5), of j ?x] True by simp
  next
    case False
    then have "(i, u, p) \<in> set xs" "d_value (dec_put j ?x d) ! i = d_value d ! i" using 3(3) by (auto simp: dec_put_def)
    moreover have "i < length (d_value (dec_put j ?x d))" "i < length (d_flags (dec_put j ?x d))"
      using 3(4,5) by (simp_all add: dec_put_def)
    ultimately show ?thesis using 3(1,2) slot_of_put [OF 3(4,5), of j ?x] False by (cases p) simp_all
  qed
qed simp

lemma see_bits_nth:
  assumes "k < length (d_value d)" "k < length (d_flags d)"
  shows "slot_of (see_bits i bs d) k =
    (if i \<le> k \<and> k < i + length bs then (if bs ! (k - i) then 1 else 0, \<lparr> df_type = type_byte, df_upd = True \<rparr>) else slot_of d k)"
  using assms
proof (induction i bs d rule: see_bits.induct)
  case (2 i b bs d)
  let ?d = "dec_put i (if b then 1 else 0, type_byte) d"
  have len: "k < length (d_value ?d)" "k < length (d_flags ?d)" using 2(2,3) by (simp_all add: dec_put_def)
  consider "k < i" | "k = i" | "i < k" by linarith
  then show ?case
  proof cases
    case 3
    then have "k - i = Suc (k - (i + 1))" by simp
    then show ?thesis using 2(1) [OF len] slot_of_put [OF 2(2,3), of i] 3 by simp
  qed (use 2(1) [OF len] slot_of_put [OF 2(2,3), of i] in auto)
qed auto

lemma wf_bit_tail:
  assumes "enc_wf D e" "bit_start (used e) \<le> j" "j < e_cnt e"
  shows "is_fmt fmt_bit (e_fields e ! j)"
proof -
  have len: "length (used e) = e_cnt e" "e_cnt e \<le> length (e_fields e)" and sorted: "sorted_wrt field_less (used e)"
    using assms(1) enc_arrays_used by (auto simp: enc_wf_def)
  have "is_fmt fmt_bit (used e ! bit_start (used e))" using bit_start_spec(2) [of "used e"] assms(2,3) len by simp
  then have "field_rank (used e ! bit_start (used e)) = 2" by (simp add: field_rank_cases)
  then have "field_rank (used e ! j) = 2"
    using rank_mono [OF sorted assms(2)] assms(3) len field_rank_cases(3) [of "used e ! j"] by simp
  then show ?thesis using assms(3) len by (simp add: field_rank_cases used_nth)
qed

lemma wf_values:
  assumes "enc_wf D e" "j < bit_start (used e)"
  shows "j < e_cnt e \<and> \<not> is_fmt fmt_bit (e_fields e ! j)"
proof -
  have len: "length (used e) = e_cnt e" "e_cnt e \<le> length (e_fields e)"
    using assms(1) enc_arrays_used by (auto simp: enc_wf_def)
  then have "j < e_cnt e" using assms(2) bit_start_le [of "used e"] by simp
  then show ?thesis using bit_start_spec(1) [OF assms(2)] len by (simp add: used_nth)
qed

lemma wf_opts_last:
  assumes "enc_wf D e" "i \<le> j" "j < bit_start (used e)" "is_fmt fmt_u4 (e_fields e ! i)"
  shows "is_fmt fmt_u4 (e_fields e ! j)"
proof -
  have len: "length (used e) = e_cnt e" "e_cnt e \<le> length (e_fields e)" and sorted: "sorted_wrt field_less (used e)"
    using assms(1) enc_arrays_used by (auto simp: enc_wf_def)
  note j = wf_values [OF assms(1,3)]
  then have "field_rank (used e ! i) \<le> field_rank (used e ! j)" using rank_mono [OF sorted assms(2)] len by simp
  moreover have "field_rank (e_fields e ! i) = 1" using assms(4) field_rank_cases(2) by blast
  ultimately have "1 \<le> field_rank (e_fields e ! j)" using j len assms(2) by (simp add: used_nth)
  moreover have "field_rank (e_fields e ! j) \<noteq> 2" using j by (simp add: field_rank_cases)
  ultimately have "field_rank (e_fields e ! j) = 1" using field_rank_cases(3) [of "e_fields e ! j"] by linarith
  then show ?thesis using field_rank_cases(2) by blast
qed

definition frame_packable :: "u8 \<Rightarrow> encoder \<Rightarrow> bool" where
  "frame_packable pseq e \<longleftrightarrow> list_all (packable e) (due_from pseq (e_fields e) 0 (bit_start (used e)))"

lemma frame_items_ok:
  assumes wf: "enc_wf D e" and pk: "frame_packable pseq e" and halves: "halves_closed e"
  shows "items_ok pseq (e_fields e) (bit_start (used e)) (bit_bytes (frame_bits e)) 0 (frame_items junk pseq e)"
proof -
  let ?n = "bit_start (used e)" and ?fs = "e_fields e"
  let ?due = "due_from pseq ?fs 0 ?n"
  have "map fst (frame_items junk pseq e) = ?due" by (simp add: frame_items_def item_at_def comp_def)
  moreover have "item_ok ?fs (item_at junk e i)" if "i \<in> set ?due" for i
  proof -
    have "packable e i" using pk that by (simp add: frame_packable_def list_all_iff)
    then show ?thesis
      using length_pack_value by (fastforce simp: item_ok_def item_at_def sent_bytes_def packable_def split: option.splits if_splits)
  qed
  moreover have "sorted (map (fst \<circ> snd) (frame_items junk pseq e))"
  proof -
    have "sorted_wrt (\<lambda>i j. is_fmt fmt_u4 (?fs ! i) \<le> is_fmt fmt_u4 (?fs ! j)) ?due"
    proof (rule sorted_wrt_mono_rel [OF _ due_from_sorted])
      fix i j assume "i \<in> set ?due" "j \<in> set ?due" "i < j"
      then show "is_fmt fmt_u4 (?fs ! i) \<le> is_fmt fmt_u4 (?fs ! j)"
        using wf_opts_last [OF wf, of i j] by (auto simp: set_due_from le_bool_def)
    qed
    then show ?thesis by (simp add: frame_items_def item_at_def comp_def sorted_wrt_map)
  qed
  moreover have "bit_bytes (frame_bits e) \<noteq> [] \<or> (\<forall>x\<in>set (frame_items junk pseq e). \<not> fst (snd x))"
  proof (cases "?n < e_cnt e")
    case True
    then have "frame_bits e \<noteq> []" by (simp add: frame_bits_def)
    then show ?thesis by (simp add: bit_bytes.simps [of "frame_bits e"])
  next
    case False
    then have "\<forall>f\<in>set (used e). \<not> is_fmt fmt_u4 f" using halves by (simp add: halves_closed_def)
    moreover have "?fs ! i \<in> set (used e)" if "i < ?n" for i
      using wf_values [OF wf that] wf enc_arrays_used [of e] by (auto simp: used_def enc_wf_def in_set_conv_nth intro!: exI [of _ i])
    ultimately show ?thesis by (auto simp: frame_items_def item_at_def set_due_from)
  qed
  ultimately show ?thesis by (auto simp: items_ok_def frame_items_def)
qed

lemma dec_bits_start_spec:
  assumes "i \<le> n" "n < d_cnt d" "is_fmt fmt_bit (dec_field d n)" "\<forall>j<n. \<not> is_fmt fmt_bit (dec_field d j)"
    "\<forall>j\<le>n. in_arrays d j"
  shows "dec_bits_start i d = Some n"
  using assms(1)
proof (induction "n - i" arbitrary: i)
  case 0
  then show ?case using assms by (simp add: dec_bits_start.simps [of i])
next
  case (Suc k)
  then have "i < n" "k = n - (i + 1)" by simp_all
  then show ?case using Suc.hyps(1) [of "i + 1"] assms by (simp add: dec_bits_start.simps [of i])
qed

definition frame_seen :: "(nat \<Rightarrow> raw_t) \<Rightarrow> u8 \<Rightarrow> encoder \<Rightarrow> decoder \<Rightarrow> decoder" where
  "frame_seen junk pseq e d = see_bits (bit_start (used e)) (frame_bits e) (see_items (frame_items junk pseq e) d)"

definition frame_news :: "(nat \<Rightarrow> raw_t) \<Rightarrow> u8 \<Rightarrow> encoder \<Rightarrow> bool" where
  "frame_news junk pseq e \<longleftrightarrow> pays (frame_items junk pseq e) \<noteq> [] \<or> frame_bits e \<noteq> []"

lemma decode_frame:
  assumes wf: "enc_wf D e" and step: "in_step e d" and pk: "frame_packable pseq e" and halves: "halves_closed e"
    and r: "reader_ok r" "r_rest r = frame_bytes junk pseq e"
  shows "\<exists>r'. decode_values pseq d r = Some (frame_news junk pseq e, frame_seen junk pseq e d, r') \<and> reader_ok r' \<and> r_rest r' = []"
proof -
  let ?n = "bit_start (used e)" and ?fs = "e_fields e" and ?items = "frame_items junk pseq e"
  let ?bits = "frame_bits e"
  have cnt: "d_cnt d = e_cnt e" "e_cnt e \<le> 240" "?n \<le> e_cnt e"
    using step wf bit_start_le [of "used e"] enc_arrays_used [of e] by (auto simp: in_step_def enc_wf_def enc_arrays_def slots_size_def)
  have same: "same_fields d ?fs ?n"
    using step cnt wf_values [OF wf] in_step_in [OF wf step] by (auto simp: same_fields_def in_step_def slots_size_def)
  have ok: "items_ok pseq ?fs ?n (bit_bytes ?bits) 0 ([] @ ?items)" using frame_items_ok [OF wf pk halves] by simp
  have rest: "r_rest r = of_nat (length (pays ?items)) # body None ?items @ bit_bytes ?bits" using r(2) by (simp add: frame_bytes_def)
  obtain r1 where r1: "read_u8 r = Some (of_nat (length (pays ?items)), r1)" "reader_ok r1" "r_rest r1 = body None ?items @ bit_bytes ?bits"
    using read_u8_rest [OF r(1) rest] by blast
  define s where "s = \<lparr> x_r = r1, x_cnt = of_nat (length (pays ?items)), x_code = 0, x_bit = 0x40, x_nibble = 0,
    x_nibble_n = 0, x_upd = False \<rparr>"
  have "between 7 [] ?items (bit_bytes ?bits) s"
    using r1(2,3) by (simp add: between_def values_ahead_def block_code_def s_def)
  moreover have "opts_left s ([] @ ?items)" by (simp add: opts_left_def s_def)
  ultimately have "decoded 0 ?n ([] @ ?items) (bit_bytes ?bits) d (x_upd s) (dec_slots pseq 0 d s)"
    by (rule dec_slots_spec [OF same _ _ ok]) simp
  then obtain j s' where s': "dec_slots pseq 0 d s = Some (j, see_items ?items d, s')" "reader_ok (x_r s')"
    "r_rest (x_r s') = bit_bytes ?bits" "x_cnt s' = 0" "x_upd s' = (pays ?items \<noteq> [])" "j \<le> ?n"
    by (auto simp: decoded_def s_def)
  have avail: "r_available r \<noteq> 0" "r_available (x_r s') = length (bit_bytes ?bits)"
    using r_available_rest [OF r(1)] r_available_rest [OF s'(2)] rest s'(3) by simp_all
  let ?d = "see_items ?items d"
  have d: "d_cnt ?d = e_cnt e" "dec_field ?d = dec_field d" "in_arrays ?d = in_arrays d" using see_items_fields [of ?items d] cnt by simp_all
  show ?thesis
  proof (cases "?n < e_cnt e")
    case False
    then have "?bits = []" "?n = e_cnt e" using cnt by (simp_all add: frame_bits_def)
    then show ?thesis
      using r1(1) s' avail
      by (simp add: decode_values_def s_def bit_bytes.simps [of "[]"] frame_seen_def frame_news_def)
  next
    case True
    then have ne: "?bits \<noteq> []" "length ?bits = e_cnt e - ?n" by (simp_all add: frame_bits_def)
    then have av: "r_available (x_r s') > 0" using avail by (simp add: bit_bytes.simps [of ?bits])
    have bitf: "\<forall>i. ?n \<le> i \<longrightarrow> i < e_cnt e \<longrightarrow> is_fmt fmt_bit (dec_field ?d i) \<and> in_arrays ?d i"
      using wf_bit_tail [OF wf] in_step_in [OF wf step] step d by (simp add: in_step_def)
    have start: "dec_bits_start j ?d = Some ?n"
      by (rule dec_bits_start_spec [OF s'(6)])
        (use True bitf d same in_step_in [OF wf step] in \<open>auto simp: same_fields_def\<close>)
    have "bits_ahead 0 (x_code s') 0x80 ?bits (x_r s')" using s'(2,3) by (simp add: bits_ahead_def)
    then obtain r2 where r2: "dec_bits [?n..<e_cnt e] (of_nat (e_cnt e - ?n)) (x_code s') 0x80 (x_upd s') ?d (x_r s') =
        Some (0, x_upd s' \<or> ?bits \<noteq> [], see_bits ?n ?bits ?d, r2)" "reader_ok r2" "r_rest r2 = []"
      using dec_bits_spec [of 0 "x_code s'" "0x80" ?bits "x_r s'" "e_cnt e" ?n ?d "x_upd s'"] ne(2) cnt(3) bitf by auto
    have "r_available r2 = 0" using r_available_rest [OF r2(2)] r2(3) by simp
    then show ?thesis
      using r1(1) s' avail(1) av True d start r2
      by (simp add: decode_values_def s_def [symmetric] Let_def frame_seen_def frame_news_def)
  qed
qed

subsection \<open>What was delivered\<close>

lemma frame_seen_slot:
  assumes wf: "enc_wf D e" and step: "in_step e d" and i: "i < e_cnt e"
  shows "slot_of (frame_seen junk pseq e d) i = delivered junk pseq e d i"
proof -
  let ?n = "bit_start (used e)" and ?items = "frame_items junk pseq e" and ?f = "e_fields e ! i"
  let ?d = "see_items ?items d"
  have len: "i < length (d_value d)" "i < length (d_flags d)" "i < length (d_value ?d)" "i < length (d_flags ?d)"
    and f: "dec_field d i = ?f"
    using step i wf see_items_fields [of ?items d] by (auto simp: in_step_def dec_arrays_def enc_wf_def enc_arrays_def)
  have n: "?n \<le> e_cnt e" using bit_start_le [of "used e"] enc_arrays_used [of e] wf by (simp add: enc_wf_def)
  have bits: "length (frame_bits e) = e_cnt e - ?n" by (simp add: frame_bits_def)
  have items: "map fst ?items = due_from pseq (e_fields e) 0 ?n" by (simp add: frame_items_def item_at_def comp_def)
  show ?thesis
  proof (cases "?n \<le> i")
    case True
    then have "[?n..<e_cnt e] ! (i - ?n) = i" using i by (subst nth_upt) auto
    then have "frame_bits e ! (i - ?n) = (e_value e ! i \<noteq> 0)" using True i by (simp add: frame_bits_def)
    then show ?thesis
      using see_bits_nth [OF len(3,4), of ?n "frame_bits e"] True i n bits wf_bit_tail [OF wf True i]
      by (simp add: frame_seen_def delivered_def)
  next
    case False
    then have nobit: "\<not> is_fmt fmt_bit ?f" using wf_values [OF wf, of i] by simp
    have seen: "slot_of (frame_seen junk pseq e d) i = slot_of ?d i"
      using see_bits_nth [OF len(3,4), of ?n "frame_bits e"] False by (simp add: frame_seen_def)
    show ?thesis
    proof (cases "seq_skipped pseq ?f")
      case True
      then have "i \<notin> fst ` set ?items" using items set_due_from [of pseq "e_fields e" 0 ?n] by (metis (mono_tags, lifting) list.set_map mem_Collect_eq)
      then show ?thesis
        using seen see_items_other [of i ?items d] nobit True by (simp add: delivered_def slot_of_def)
    next
      case due: False
      have "distinct (map fst ?items)"
        unfolding items due_from_def by simp
      moreover have "item_at junk e i \<in> set ?items" using False due by (simp add: frame_items_def set_due_from)
      ultimately show ?thesis
        using seen see_items_nth [of ?items i "is_fmt fmt_u4 ?f" "sent_bytes junk e i" d] len(1,2) nobit due f
        by (auto simp: delivered_def slot_of_def item_at_def Let_def split: option.splits)
    qed
  qed
qed

lemma enforce_wf:
  assumes "enc_wf D e"
  shows "enc_wf D (enforce e)"
  by (rule enc_wf_cong [OF assms]) (use assms in \<open>auto simp: enc_wf_def enc_arrays_def enforce_def Let_def slots_size_def\<close>)

lemma sent_state_arrays:
  assumes "enc_arrays e"
  shows "enc_arrays (fold (sent_state junk) js e) \<and> e_upd_cnt (fold (sent_state junk) js e) = e_upd_cnt e \<and>
    e_hash (fold (sent_state junk) js e) = e_hash e \<and> e_xpdr (fold (sent_state junk) js e) = e_xpdr e"
  using assms
proof (induction js arbitrary: e)
  case (Cons j js)
  have "enc_arrays (sent_state junk j e)" using Cons.prems by (simp add: enc_arrays_def sent_state_def split: option.split)
  then show ?case using Cons.IH [of "sent_state junk j e"] by (simp add: sent_state_def)
qed simp

lemma frame_state_wf: "enc_wf D e \<Longrightarrow> enc_wf D (frame_state junk pseq e)"
  unfolding frame_state_def
  by (rule enc_wf_cong) (auto simp: sent_state_arrays enc_wf_def)

lemma seq_skipped_low: "seq_skipped (pseq AND 3) f = seq_skipped pseq f"
proof -
  have "(pseq AND 3) AND 1 = pseq AND 1" "(pseq AND 3) AND 3 = pseq AND 3" by (simp_all add: and.assoc)
  then show ?thesis unfolding seq_skipped_def by (cases "seq_of_code (pid_seq (f_pid f))") simp_all
qed

lemma due_from_low: "due_from (pseq AND 3) = due_from pseq"
  by (simp add: due_from_def fun_eq_iff seq_skipped_low)

lemma frame_low:
  "frame_items junk (pseq AND 3) e = frame_items junk pseq e" "frame_bytes junk (pseq AND 3) e = frame_bytes junk pseq e"
  "frame_packable (pseq AND 3) e = frame_packable pseq e" "frame_seen junk (pseq AND 3) e d = frame_seen junk pseq e d"
  "frame_news junk (pseq AND 3) e = frame_news junk pseq e"
  by (simp_all add: frame_items_def frame_bytes_def frame_packable_def frame_seen_def frame_news_def due_from_low)

lemma feed_hash_match:
  assumes "is_hash_valid d" "hash_byte (d_hash d) i = feed"
  shows "feed_hash i feed d = d"
  using assms by (simp add: feed_hash_def is_hash_valid_def Let_def)

subsection \<open>A packet\<close>

definition packet_of :: "(nat \<Rightarrow> raw_t) \<Rightarrow> u8 \<Rightarrow> u64 \<Rightarrow> encoder \<Rightarrow> bytes" where
  "packet_of junk pseq t e =
     hdr_image \<lparr> hdr_ts = ucast (t div of_nat ts2ms), hdr_feed_hash = hash_byte (e_hash e) (pseq AND 3) \<rparr> @
     frame_bytes junk pseq (enforce e)"

lemma encode_spec:
  assumes "enc_arrays e" "frame_packable pseq (enforce e)" "writer_ok w" "w_pos w + 4 + 5 * e_cnt e \<le> w_size w"
  shows "\<exists>w'. encode junk pseq t e w = Some (True, frame_state junk pseq (enforce e), w') \<and> writer_ok w' \<and>
    w_size w' = w_size w \<and> w_out w' = w_out w @ packet_of junk pseq t e"
proof -
  let ?h = "\<lparr> hdr_ts = ucast (t div of_nat ts2ms), hdr_feed_hash = hash_byte (e_hash e) (pseq AND 3) \<rparr>"
  have len: "length (hdr_image ?h) = 3" by (simp add: hdr_image_def)
  have "w_pos w + length (hdr_image ?h) \<le> w_size w" using assms(4) len by simp
  then obtain n w1 where w1: "hdr_write ?h w = Some (n, w1)" "writer_ok w1" "w_out w1 = w_out w @ hdr_image ?h" "w_size w1 = w_size w"
    using putsD [OF hdr_wire.wr_image [OF TrueI] assms(3)] by metis
  have pos: "w_pos w1 = w_pos w + 3" using length_w_out [OF w1(2)] length_w_out [OF assms(3)] w1(3) len by simp
  have "\<forall>j\<in>set (due_from pseq (e_fields e) 0 (bit_start (used e))). packable (enforce e) j"
    using assms(2) by (simp add: frame_packable_def list_all_iff)
  then obtain w' where "encode_values junk pseq e w1 = Some (frame_state junk pseq (enforce e), w')" "writer_ok w'"
    "w_size w' = w_size w1" "w_out w' = w_out w1 @ frame_bytes junk pseq (enforce e)"
    using encode_values_spec [OF assms(1) w1(2), of pseq junk] pos w1(4) assms(4) by auto
  then show ?thesis using w1 by (auto simp: encode_def packet_of_def)
qed

lemma decode_header:
  assumes step: "in_step e d" and hash: "is_hash_valid d" "d_hash d = e_hash e" and ne: "e_cnt e > 0"
    and pid: "pid_seq pid = pseq AND 3" "pid_uid pid \<noteq> g_xpdr D"
    and r: "reader_ok r" "r_rest r = packet_of junk pseq t e"
  shows "\<exists>d1 r1. decode D pid d r = decode_values (pid_seq pid) d1 r1 \<and> reader_ok r1 \<and>
    r_rest r1 = frame_bytes junk pseq (enforce e) \<and> d_cnt d1 = d_cnt d \<and> dec_field d1 = dec_field d \<and>
    d_mem d1 = d_mem d \<and> d_value d1 = d_value d \<and> d_flags d1 = d_flags d \<and> d_valid d1 \<and> d_hash d1 = d_hash d \<and> is_hash_valid d1"
proof -
  let ?h = "\<lparr> hdr_ts = ucast (t div of_nat ts2ms), hdr_feed_hash = hash_byte (e_hash e) (pseq AND 3) \<rparr>"
  obtain r1 where r1: "hdr_read \<lparr> hdr_ts = 0, hdr_feed_hash = 0 \<rparr> r = Some (?h, r1)" "reader_ok r1"
    "r_rest r1 = frame_bytes junk pseq (enforce e)"
    using getsD [OF hdr_wire.rd_image [OF TrueI TrueI] r(1)] r(2) unfolding packet_of_def by metis
  have avail: "\<not> r_available r < hdr_psize"
    using r_available_rest [OF r(1)] r(2) by (simp add: packet_of_def hdr_image_def hdr_psize_def)
  have idem: "(pseq AND 3) AND 3 = pseq AND 3" by (simp add: and.assoc)
  have feed: "feed_hash (pid_seq pid AND 3) (hdr_feed_hash ?h) d = d"
    using hash pid(1) by (intro feed_hash_match) (simp_all add: idem)
  define d1 where "d1 = (track_time (hdr_ts ?h) d)\<lparr> d_valid := True \<rparr>"
  have "d_cnt (track_time (hdr_ts ?h) d) \<noteq> 0" "is_hash_valid (track_time (hdr_ts ?h) d)"
    using step ne hash by (simp_all add: track_time_def Let_def in_step_def is_hash_valid_def)
  then have "decode D pid d r = decode_values (pid_seq pid) d1 r1"
    using avail r1(1) pid(2) feed by (simp add: decode_def Let_def d1_def)
  moreover have "d_valid d1" "d_hash d1 = d_hash d" "is_hash_valid d1" "d_cnt d1 = d_cnt d" "dec_field d1 = dec_field d"
    "d_mem d1 = d_mem d" "d_value d1 = d_value d" "d_flags d1 = d_flags d"
    using hash by (simp_all add: d1_def track_time_def Let_def is_hash_valid_def dec_field_def fun_eq_iff)
  ultimately show ?thesis using r1(2,3) by blast
qed

lemma decode_packet:
  assumes wf: "enc_wf D e" and step: "in_step e d" and hash: "is_hash_valid d" "d_hash d = e_hash e" and ne: "e_cnt e > 0"
    and pk: "frame_packable pseq (enforce e)" and halves: "halves_closed e"
    and pid: "pid_seq pid = pseq AND 3" "pid_uid pid \<noteq> g_xpdr D"
    and r: "reader_ok r" "r_rest r = packet_of junk pseq t e"
  shows "\<exists>d1 r'. decode D pid d r = Some (frame_news junk pseq (enforce e), frame_seen junk pseq (enforce e) d1, r') \<and>
    reader_ok r' \<and> r_rest r' = [] \<and> d_valid d1 \<and> d_hash d1 = d_hash d \<and> is_hash_valid d1 \<and> in_step e d1 \<and>
    d_value d1 = d_value d \<and> d_flags d1 = d_flags d"
proof -
  let ?e = "enforce e"
  obtain d1 r1 where d1: "decode D pid d r = decode_values (pid_seq pid) d1 r1" "reader_ok r1" "r_rest r1 = frame_bytes junk pseq ?e"
    "d_cnt d1 = d_cnt d" "dec_field d1 = dec_field d" "d_value d1 = d_value d" "d_flags d1 = d_flags d" "d_valid d1"
    "d_mem d1 = d_mem d" "d_hash d1 = d_hash d" "is_hash_valid d1"
    using decode_header [OF step hash ne pid r] by blast
  then have step1: "in_step e d1" using step by (simp add: in_step_def dec_arrays_def)
  then have step2: "in_step ?e d1" by (simp add: in_step_def)
  have wf': "enc_wf D ?e" by (rule enforce_wf [OF wf])
  have halves': "halves_closed ?e" using halves by (simp add: halves_closed_def)
  have "frame_packable (pseq AND 3) ?e" using pk by (simp add: frame_low)
  moreover have "r_rest r1 = frame_bytes junk (pseq AND 3) ?e" using d1(3) by (simp add: frame_low)
  ultimately obtain r2 where r2: "decode_values (pseq AND 3) d1 r1 = Some (frame_news junk pseq ?e, frame_seen junk pseq ?e d1, r2)"
    "reader_ok r2" "r_rest r2 = []"
    using decode_frame [OF wf' step2 _ halves' d1(2), of "pseq AND 3" junk] by (auto simp: frame_low)
  then show ?thesis using pid(1) d1 step1 by (intro exI [of _ d1] exI [of _ r2]) simp
qed

lemma in_step_seen: "in_step e d \<Longrightarrow> in_step e (frame_seen junk pseq e' d)"
  using see_bits_fields [of "bit_start (used e')" "frame_bits e'" "see_items (frame_items junk pseq e') d"]
    see_items_fields [of "frame_items junk pseq e'" d]
  by (auto simp: in_step_def dec_arrays_def frame_seen_def)

lemma frame_seen_keeps:
  "d_hash (see_items xs d) = d_hash d \<and> d_hash_valid (see_items xs d) = d_hash_valid d \<and> d_valid (see_items xs d) = d_valid d"
  "d_hash (see_bits i bs d) = d_hash d \<and> d_hash_valid (see_bits i bs d) = d_hash_valid d \<and> d_valid (see_bits i bs d) = d_valid d"
  by (induction xs d rule: see_items.induct; simp add: dec_put_def) (induction i bs d rule: see_bits.induct; simp add: dec_put_def)

text \<open>
  C3: a packet that the encoder writes into a stream with room for four bytes and five per slot is
  accepted by a decoder that has the encoder's format and hash, provided the values can be packed
  (\<open>frame_packable\<close>) and, where the format has options, bit fields follow them (\<open>halves_closed\<close>:
  otherwise two options can end the packet, which is then refused, \<open>option_pair_lost\<close>).  The decoder
  reads the packet to its end and then holds, in every slot, the bit of a bit field, the packed value
  where one was due and had changed, and otherwise what it held before.  Encoder and decoder stay in
  step, ready for the next packet.
\<close>

theorem telemetry_roundtrip:
  assumes "enc_wf D e" "in_step e d" "is_hash_valid d" "d_hash d = e_hash e" "e_cnt e > 0"
    "frame_packable pseq (enforce e)" "halves_closed e"
    "pid_seq pid = pseq AND 3" "pid_uid pid \<noteq> g_xpdr D"
    "writer_ok w" "w_pos w + 4 + 5 * e_cnt e \<le> w_size w"
  shows "\<exists>e' w' bs. encode junk pseq t e w = Some (True, e', w') \<and> w_out w' = w_out w @ bs \<and> enc_wf D e' \<and>
    (\<forall>r. reader_ok r \<and> r_rest r = bs \<longrightarrow>
      (\<exists>upd d' r'. decode D pid d r = Some (upd, d', r') \<and> r_rest r' = [] \<and> d_valid d' \<and>
        in_step e' d' \<and> is_hash_valid d' \<and> d_hash d' = e_hash e' \<and>
        (\<forall>i<e_cnt e. slot_of d' i = delivered junk pseq (enforce e) d i)))"
proof -
  let ?e = "enforce e"
  define e' where "e' = frame_state junk pseq ?e"
  have arr: "enc_arrays e" using assms(1) by (simp add: enc_wf_def)
  obtain w' where w': "encode junk pseq t e w = Some (True, e', w')" "w_out w' = w_out w @ packet_of junk pseq t e"
    using encode_spec [OF arr assms(6,10,11)] by (auto simp: e'_def)
  have wf: "enc_wf D ?e" by (rule enforce_wf [OF assms(1)])
  then have wf': "enc_wf D e'" unfolding e'_def by (rule frame_state_wf)
  have same: "e_cnt e' = e_cnt e" "e_fields e' = e_fields e" "e_hash e' = e_hash e"
    using sent_state_arrays [of ?e] wf by (simp_all add: e'_def frame_state_def enc_wf_def)
  have "\<exists>upd d' r'. decode D pid d r = Some (upd, d', r') \<and> r_rest r' = [] \<and> d_valid d' \<and>
        in_step e' d' \<and> is_hash_valid d' \<and> d_hash d' = e_hash e' \<and>
        (\<forall>i<e_cnt e. slot_of d' i = delivered junk pseq ?e d i)"
    if r: "reader_ok r" "r_rest r = packet_of junk pseq t e" for r
  proof -
    obtain d1 r' where d1: "decode D pid d r = Some (frame_news junk pseq ?e, frame_seen junk pseq ?e d1, r')" "r_rest r' = []"
      "d_valid d1" "d_hash d1 = d_hash d" "is_hash_valid d1" "in_step e d1" "d_value d1 = d_value d" "d_flags d1 = d_flags d"
      using decode_packet [OF assms(1-9) r] by blast
    have step: "in_step e' (frame_seen junk pseq ?e d1)"
      using in_step_seen [OF d1(6), of junk pseq ?e] same by (simp add: in_step_def)
    have "slot_of (frame_seen junk pseq ?e d1) i = delivered junk pseq ?e d i" if "i < e_cnt e" for i
    proof -
      have "in_step ?e d1" using d1(6) by (simp add: in_step_def)
      then have "slot_of (frame_seen junk pseq ?e d1) i = delivered junk pseq ?e d1 i"
        using frame_seen_slot [OF wf, of d1 i junk pseq] that by simp
      then show ?thesis unfolding delivered_def d1(7,8) .
    qed
    moreover have "d_valid (frame_seen junk pseq ?e d1)" "is_hash_valid (frame_seen junk pseq ?e d1)"
      "d_hash (frame_seen junk pseq ?e d1) = e_hash e'"
      using d1(3-5) assms(4) same by (simp_all add: frame_seen_def frame_seen_keeps is_hash_valid_def)
    ultimately show ?thesis using d1(1,2) step by blast
  qed
  then show ?thesis using w' wf' by blast
qed

end
