(* ===== verification/Telemetry_Sync.thy ===== *)
theory Telemetry_Sync
  imports Telemetry_Link
begin

text \<open>
  The transfer of the format: the blocks that \<open>encode_format\<close> cuts the descriptors into, received in
  order by \<open>decode_format\<close>, leave the decoder in step with the encoder.
\<close>

unbundle bit_operations_syntax

subsection \<open>Descriptors in memory\<close>

lemma length_field_bytes [simp]: "length (field_bytes f) = 3"
  by (simp add: field_bytes_def)

lemma length_fields_bytes [simp]: "length (fields_bytes fs) = 3 * length fs"
  by (induction fs) (simp_all add: fields_bytes_def)

lemma field_of_field_bytes: "field_of_bytes (field_bytes f) = f"
  by (cases f) (simp add: field_of_bytes_def field_bytes_def nth_append of_le_le_bytes)

lemma fields_bytes_nth: "i < length fs \<Longrightarrow> take 3 (drop (3 * i) (fields_bytes fs)) = field_bytes (fs ! i)"
proof (induction fs arbitrary: i)
  case (Cons f fs)
  then show ?case by (cases i) (simp_all add: fields_bytes_def)
qed simp

lemma dec_field_memory:
  assumes "take (3 * length fs) (d_mem d) = fields_bytes fs" "i < length fs"
  shows "dec_field d i = fs ! i"
proof -
  have "take 3 (drop (3 * i) (take (3 * length fs) (d_mem d))) = take 3 (drop (3 * i) (d_mem d))"
    using assms(2) by (simp add: drop_take min_def)
  then have "take 3 (drop (3 * i) (d_mem d)) = field_bytes (fs ! i)"
    using assms fields_bytes_nth [OF assms(2)] by simp
  then show ?thesis by (simp add: dec_field_def field_size_def field_of_field_bytes)
qed

subsection \<open>Blocks\<close>

definition format_size :: "encoder \<Rightarrow> nat" where
  "format_size e = 3 * e_cnt e"

definition format_parts :: "u8 \<Rightarrow> encoder \<Rightarrow> nat" where
  "format_parts psz e =
     (if format_size e mod unat psz \<noteq> 0 then format_size e div unat psz + 1 else format_size e div unat psz)"

definition format_block :: "u8 \<Rightarrow> encoder \<Rightarrow> nat \<Rightarrow> bytes" where
  "format_block psz e k = take (unat psz) (drop (k * unat psz) (fields_bytes (used e)))"

definition format_head :: "u8 \<Rightarrow> encoder \<Rightarrow> nat \<Rightarrow> format_resp_hdr_s" where
  "format_head psz e k = \<lparr> resp_version = fmt_version, resp_part = of_nat k, resp_pcnt = of_nat (format_parts psz e),
     resp_psz = psz, resp_hash = e_hash e \<rparr>"

definition format_part :: "u8 \<Rightarrow> encoder \<Rightarrow> nat \<Rightarrow> bytes" where
  "format_part psz e k = resp_image (format_head psz e k) @ format_block psz e k"

lemma format_parts_bounds:
  assumes "psz \<noteq> 0"
  shows "k < format_parts psz e \<longleftrightarrow> k * unat psz < format_size e"
    "format_parts psz e > 0 \<longleftrightarrow> e_cnt e > 0"
proof -
  define b where "b = unat psz"
  define a where "a = format_size e"
  have b: "b > 0" using assms by (simp add: b_def unat_gt_0)
  have ab: "a = (a div b) * b + a mod b" "a mod b < b" using b by simp_all
  have p: "format_parts psz e = (if a mod b \<noteq> 0 then a div b + 1 else a div b)"
    by (simp add: format_parts_def a_def b_def)
  have iff: "k < format_parts psz e \<longleftrightarrow> k * b < a" for k
  proof
    assume "k < format_parts psz e"
    then consider "k < a div b" | "k = a div b" "a mod b \<noteq> 0" by (auto simp: p less_Suc_eq split: if_splits)
    then show "k * b < a"
    proof cases
      case 1
      then have "Suc k * b \<le> (a div b) * b" by (intro mult_le_mono1) simp
      then have "k * b + b \<le> (a div b) * b" by simp
      then show ?thesis using ab(1) b by linarith
    next
      case 2
      then have "a mod b > 0" by simp
      moreover have "k * b = a div b * b" using 2(1) by simp
      ultimately show ?thesis using ab(1) by linarith
    qed
  next
    assume k: "k * b < a"
    show "k < format_parts psz e"
    proof (rule ccontr)
      assume "\<not> k < format_parts psz e"
      then have le: "format_parts psz e \<le> k" by simp
      show False
      proof (cases "a mod b = 0")
        case True
        then have "(a div b) * b \<le> k * b" using le by (intro mult_le_mono1) (simp add: p)
        then show False using ab(1) k True by linarith
      next
        case False
        then have "(a div b + 1) * b \<le> k * b" using le by (intro mult_le_mono1) (simp add: p)
        then have "(a div b) * b + b \<le> k * b" by (simp add: algebra_simps)
        then show False using ab k by linarith
      qed
    qed
  qed
  show "k < format_parts psz e \<longleftrightarrow> k * unat psz < format_size e" using iff by (simp add: a_def b_def)
  show "format_parts psz e > 0 \<longleftrightarrow> e_cnt e > 0" using iff [of 0] by (simp add: a_def format_size_def)
qed

lemma fields_bytes_take: "fields_bytes (take n fs) = take (3 * n) (fields_bytes fs)"
proof (induction fs arbitrary: n)
  case (Cons f fs)
  then show ?case by (cases n) (simp_all add: fields_bytes_def)
qed (simp add: fields_bytes_def)

lemma format_block_eq:
  assumes "enc_arrays e"
  shows "format_block psz e k =
    take (min (unat psz) (format_size e - k * unat psz)) (drop (k * unat psz) (fields_bytes (e_fields e)))"
  by (simp add: format_block_def used_def fields_bytes_take format_size_def drop_take min.commute)

lemma length_format_block:
  assumes "enc_arrays e"
  shows "length (format_block psz e k) = min (unat psz) (format_size e - k * unat psz)"
  using enc_arrays_used [OF assms] by (simp add: format_block_def format_size_def)

lemma encode_format_spec:
  assumes arr: "enc_arrays e" and psz: "psz \<noteq> 0" and parts: "format_parts psz e \<le> 255" and k: "k \<le> 255"
    and w: "writer_ok w" "w_pos w + 8 + unat psz \<le> w_size w"
  shows "\<exists>w'. encode_format (of_nat k) psz e w = Some w' \<and> writer_ok w' \<and> w_size w' = w_size w \<and>
    w_out w' = w_out w @ format_part psz e k"
proof -
  let ?h = "format_head psz e k" and ?sz = "length (format_block psz e k)"
  have cnt: "e_cnt e * field_size = format_size e" by (simp add: format_size_def field_size_def)
  have pcnt: "(if format_size e mod unat psz \<noteq> 0 then of_nat (format_size e div unat psz) + 1 else of_nat (format_size e div unat psz) :: u8) =
      of_nat (format_parts psz e)"
    by (simp add: format_parts_def)
  have less: "(of_nat k :: u8) < of_nat (format_parts psz e) \<longleftrightarrow> k * unat psz < format_size e"
    using format_parts_bounds(1) [OF psz, of k e] parts k by (simp add: word_less_nat_alt unat_of_nat)
  have small: "format_size e < 2 ^ 64" using arr by (simp add: enc_arrays_def slots_size_def format_size_def)
  have sz: "(let sz = (if (of_nat k :: u8) < of_nat (format_parts psz e) then size_sub (format_size e) (unat (of_nat k :: u8) * unat psz) else 0)
      in if sz > unat psz then unat psz else sz) = ?sz"
    using less small k by (simp add: length_format_block [OF arr] unat_of_nat Let_def min_def)
  have len: "length (resp_image ?h) = 8" by (simp add: resp_image_def)
  have "w_pos w + length (resp_image ?h) \<le> w_size w" using w(2) len by simp
  then obtain w1 where w1: "resp_write ?h w = Some ((), w1)" "writer_ok w1" "w_out w1 = w_out w @ resp_image ?h" "w_size w1 = w_size w"
    using putsD [OF resp_wire.wr_image [OF TrueI] w(1)] by (metis (full_types) old.unit.exhaust)
  have pos: "length (w_out w1) = w_pos w + 8" using w1(3) len length_w_out [OF w(1)] by simp
  have "?sz \<le> unat psz" by (simp add: length_format_block [OF arr])
  then have fit: "length (w_out w1) + ?sz \<le> w_size w1" using pos w(2) w1(4) by simp
  let ?src = "drop (k * unat psz) (fields_bytes (e_fields e))"
  have src: "?sz \<le> length ?src" "take ?sz ?src = format_block psz e k"
  proof -
    show "take ?sz ?src = format_block psz e k"
      unfolding length_format_block [OF arr] by (rule format_block_eq [OF arr, symmetric])
    show "?sz \<le> length ?src"
      using diff_le_mono [of "3 * e_cnt e" "3 * length (e_fields e)" "k * unat psz"] enc_arrays_used [OF arr]
      by (simp add: length_format_block [OF arr] format_size_def min.coboundedI2)
  qed
  obtain n w2 where w2: "write_mem ?src ?sz w1 = Some (n, w2)" "writer_ok w2" "w_size w2 = w_size w1"
    "w_out w2 = w_out w1 @ format_block psz e k"
    using write_mem_out [OF w1(2) fit src(1)] src(2) by auto
  have enc: "encode_format (of_nat k) psz e w =
    (if ?sz > 0 then Some w2 else Some w1)"
    using w1(1) w2(1) k psz unfolding encode_format_def Let_def cnt pcnt sz [unfolded Let_def]
    by (simp add: format_head_def [symmetric] unat_of_nat)
  show ?thesis
  proof (cases "?sz > 0")
    case True
    then show ?thesis using enc w2 w1 by (simp add: format_part_def)
  next
    case False
    then show ?thesis using enc w1 by (simp add: format_part_def)
  qed
qed

subsection \<open>Receiving\<close>

text \<open>The first \<open>k\<close> parts have been received.\<close>

definition received :: "u8 \<Rightarrow> encoder \<Rightarrow> nat \<Rightarrow> decoder \<Rightarrow> bool" where
  "received psz e k d \<longleftrightarrow> dec_arrays d \<and>
     (k > 0 \<longrightarrow> d_hash d = e_hash e \<and> is_hash_valid d \<and>
        take (min (k * unat psz) (format_size e)) (d_mem d) = take (k * unat psz) (fields_bytes (used e)))"

definition last_part :: "u8 \<Rightarrow> encoder \<Rightarrow> nat \<Rightarrow> bool" where
  "last_part psz e k \<longleftrightarrow> k + 1 = max 1 (format_parts psz e)"

lemma dec_reset_arrays [simp]:
  "d_mem (dec_reset b d) = d_mem d" "dec_arrays (dec_reset b d) = (length (d_mem d) = field_size * slots_size)"
  "d_hash (dec_reset False d) = d_hash d" "d_hash_valid (dec_reset False d) = d_hash_valid d"
  by (simp_all add: dec_reset_def dec_arrays_def)

lemma check_hash_fields:
  "d_mem (snd (check_hash sz d)) = d_mem d" "d_hash (snd (check_hash sz d)) = d_hash d"
  "d_hash_valid (snd (check_hash sz d)) = d_hash_valid d" "dec_arrays (snd (check_hash sz d)) = dec_arrays d"
  by (simp_all add: check_hash_def dec_arrays_def)

lemma blit_part:
  assumes "p + length bs \<le> length m"
  shows "blit p (blit 0 bs (drop p m)) m = take p m @ bs @ drop (p + length bs) m"
  using assms by (simp add: blit_def add.commute)

lemma decode_format_step:
  assumes wf: "enc_wf D e" and psz: "psz \<noteq> 0" and parts: "format_parts psz e \<le> 255"
    and got: "received psz e k d" and k: "k < max 1 (format_parts psz e)"
    and r: "reader_ok r" "r_rest r = format_part psz e k"
  shows "\<exists>d' r'. decode_format d h r = Some (True, format_head psz e k, d', r') \<and> received psz e (k + 1) d' \<and>
    (last_part psz e k \<longrightarrow> in_step e d' \<and> is_hash_valid d' \<and> d_hash d' = e_hash e \<and> d_valid d')"
proof -
  have arr: "enc_arrays e" using wf by (simp add: enc_wf_def)
  let ?h = "format_head psz e k" and ?n = "unat psz" and ?blk = "format_block psz e k" and ?size = "format_size e"
  let ?F = "fields_bytes (used e)" and ?pos = "k * unat psz"
  obtain r1 where r1: "resp_read h r = Some (?h, r1)" "reader_ok r1" "r_rest r1 = ?blk"
    using getsD [OF resp_wire.rd_image [OF TrueI TrueI] r(1)] r(2) unfolding format_part_def by metis
  have avail: "\<not> r_available r < resp_psize" "r_available r1 = length ?blk"
    using r_available_rest [OF r(1)] r_available_rest [OF r1(2)] r(2) r1(3)
    by (simp_all add: format_part_def resp_image_def resp_psize_def)
  have size: "?size \<le> 720" "length ?F = ?size" "?size = 3 * e_cnt e"
    using arr enc_arrays_used [OF arr] by (auto simp: format_size_def enc_arrays_def slots_size_def)
  have kb: "k \<le> 255" "?pos \<le> ?size" "k > 0 \<Longrightarrow> ?pos < ?size"
    using k parts format_parts_bounds(1) [OF psz, of k e] by (cases "k = 0"; auto)+
  have len: "length ?blk = min ?n (?size - ?pos)" by (rule length_format_block [OF arr])
  have head: "resp_version ?h = fmt_version" "unat (resp_part ?h) = k" "unat (resp_pcnt ?h) = format_parts psz e"
    "resp_psz ?h = psz" "resp_hash ?h = e_hash e" "resp_part ?h = 0 \<longleftrightarrow> k = 0" "resp_pcnt ?h = 0 \<longleftrightarrow> format_parts psz e = 0"
    using kb(1) parts by (simp_all add: format_head_def unat_of_nat of_nat_u8_eq_0)
  have n: "?n \<noteq> 0" using psz by (simp add: unat_gt_0)
  define d1 where "d1 = (if k = 0 then (if e_hash e \<noteq> d_hash d then dec_reset True d else d)\<lparr> d_hash := e_hash e, d_hash_valid := 4 \<rparr> else d)"
  have d1: "d_mem d1 = d_mem d" "dec_arrays d1" "d_hash d1 = e_hash e" "d_hash_valid d1 = 4"
    using got by (auto simp: d1_def received_def dec_arrays_def is_hash_valid_def dec_reset_def)
  have fin: "(k + 1 = format_parts psz e \<or> (k = 0 \<and> format_parts psz e = 0)) \<longleftrightarrow> last_part psz e k"
    by (auto simp: last_part_def)
  have whole: "length ?blk = ?n" if "\<not> last_part psz e k"
  proof -
    have "k + 1 < format_parts psz e" using that k by (auto simp: last_part_def max_def split: if_splits)
    then have "(k + 1) * ?n < ?size" using format_parts_bounds(1) [OF psz] by blast
    then show ?thesis using len by simp
  qed
  have rest: "?pos + length ?blk = ?size" if "last_part psz e k"
  proof -
    have "\<not> k + 1 < format_parts psz e" using that by (auto simp: last_part_def)
    then have "?size \<le> (k + 1) * ?n" using format_parts_bounds(1) [OF psz, of "k + 1" e] by simp
    then show ?thesis using len kb(2) by simp
  qed
  have memlen: "length (d_mem d1) = 720" using d1(2) by (simp add: dec_arrays_def field_size_def slots_size_def)
  have fit: "?pos + length ?blk \<le> ?size" using len kb(2) by simp
  define mem where "mem = take ?pos (d_mem d) @ ?blk @ drop (?pos + length ?blk) (d_mem d)"
  have read: "(if length ?blk > 0 then do { (n, m, r) \<leftarrow> read_mem (drop ?pos (d_mem d1)) (length ?blk) r1; Some (d1\<lparr> d_mem := blit ?pos m (d_mem d1) \<rparr>, r) }
      else Some (d1, r1)) = Some (d1\<lparr> d_mem := mem \<rparr>, r_adv (length ?blk) r1)"
  proof (cases "length ?blk > 0")
    case True
    have "length ?blk \<le> length (drop ?pos (d_mem d1))" using memlen size(1) fit by simp
    then have "read_mem (drop ?pos (d_mem d1)) (length ?blk) r1 =
        Some (length ?blk, blit 0 ?blk (drop ?pos (d_mem d1)), r_adv (length ?blk) r1)"
      using read_mem_rest [OF r1(2), of "length ?blk" "drop ?pos (d_mem d1)"] r1(3) by (simp only: Let_def) simp
    moreover have "blit ?pos (blit 0 ?blk (drop ?pos (d_mem d1))) (d_mem d1) = mem"
      unfolding mem_def d1(1) [symmetric] by (rule blit_part) (use memlen fit size(1) in simp)
    ultimately show ?thesis using True by simp
  next
    case False
    then show ?thesis using d1(1) by (simp add: mem_def)
  qed
  let ?d2 = "d1\<lparr> d_mem := mem \<rparr>"
  have memlen': "length mem = 720" using memlen fit size(1) d1(1) by (simp add: mem_def)
  have memtake: "take (min ((k + 1) * ?n) ?size) mem = take ((k + 1) * ?n) ?F"
  proof -
    have pre: "take ?pos (d_mem d) = take ?pos ?F"
      using got kb(2,3) by (cases "k = 0") (auto simp: received_def min_def)
    have split: "min (n + p) s = p + min n (s - p)" if "p \<le> s" for n p s :: nat using that by linarith
    have "min ((k + 1) * ?n) ?size = ?pos + length ?blk" unfolding len split [OF kb(2), symmetric] by simp
    moreover have "take (?pos + length ?blk) mem = take ?pos ?F @ ?blk"
    proof -
      have "length (take ?pos ?F) = ?pos" using kb(2) size(2) by simp
      then show ?thesis unfolding mem_def pre by simp
    qed
    moreover have "take ((k + 1) * ?n) ?F = take ?pos ?F @ ?blk"
      using take_add [of ?pos ?n ?F] by (simp add: format_block_def add.commute)
    ultimately show ?thesis by simp
  qed
  have got2: "received psz e (k + 1) d'" if "d_mem d' = mem" "dec_arrays d'" "d_hash d' = e_hash e" "d_hash_valid d' = 4" for d'
    using that memtake by (simp add: received_def is_hash_valid_def)
  have d2: "dec_arrays ?d2" "d_hash_valid ?d2 = 4" "d_hash ?d2 = e_hash e"
    using d1 memlen' by (simp_all add: dec_arrays_def field_size_def slots_size_def)
  have cond: "\<not> ((last_part psz e k \<and> length ?blk > ?n) \<or> (\<not> last_part psz e k \<and> length ?blk \<noteq> ?n) \<or>
      size_add ?pos (length ?blk) > length (d_mem d1))"
    using len whole fit size(1) memlen by (auto simp: size_add_small)
  have unfold: "decode_format d h r =
      (if last_part psz e k \<and> (?pos + length ?blk) mod field_size \<noteq> 0 then Some (False, ?h, dec_reset True ?d2, r_adv (length ?blk) r1)
       else
         let (good, d) = (if last_part psz e k then check_hash (?pos + length ?blk) ?d2 else (False, ?d2))
         in if good then Some (True, ?h, d, r_adv (length ?blk) r1)
            else if d_cnt d = 0 then Some (True, ?h, d, r_adv (length ?blk) r1)
            else let (good, d) = check_hash (d_cnt d * field_size) d
                 in Some (True, ?h, if good then d else dec_reset False d, r_adv (length ?blk) r1))"
  proof -
    have hash: "\<not> (k \<noteq> 0 \<and> e_hash e \<noteq> d_hash d)" using got by (auto simp: received_def)
    have d1': "(if k = 0 then (if e_hash e \<noteq> d_hash d then dec_reset True d else d)\<lparr> d_hash := e_hash e, d_hash_valid := 4 \<rparr> else d) = d1"
      by (simp add: d1_def)
    show ?thesis
      unfolding decode_format_def if_not_P [OF avail(1)] r1(1)
      by (simp only: Let_def Option.bind.simps prod.case head avail(2) fin d1' cond hash n read if_False if_True
          simp_thms not_False_eq_True)
  qed
  show ?thesis
  proof (cases "last_part psz e k")
    case True
    have mod: "(?pos + length ?blk) mod field_size = 0" using rest [OF True] size(3) by (simp add: field_size_def)
    have full: "take ?size mem = ?F"
    proof -
      have "?size \<le> (k + 1) * ?n" using rest [OF True] len by simp
      then show ?thesis using memtake size(2) by (simp add: min_absorb2)
    qed
    have "get_hash ?size ?d2 = d_hash ?d2"
      using wf full d1(3) by (simp add: get_hash_def enc_wf_def)
    then have ck: "check_hash ?size ?d2 = (True, ?d2\<lparr> d_cnt := e_cnt e, d_valid := True \<rparr>)"
      using d2(2) size(3) by (simp add: check_hash_def is_hash_valid_def field_size_def)
    let ?d3 = "?d2\<lparr> d_cnt := e_cnt e, d_valid := True \<rparr>"
    have "in_step e ?d3"
    proof -
      have "dec_field ?d3 i = e_fields e ! i" if "i < e_cnt e" for i
      proof -
        have "take (3 * length (used e)) (d_mem ?d3) = fields_bytes (used e)"
          using full size(3) enc_arrays_used [OF arr] by simp
        then show ?thesis using dec_field_memory [of "used e" ?d3 i] that enc_arrays_used [OF arr] by (simp add: used_nth)
      qed
      then show ?thesis using d2(1) by (simp add: in_step_def dec_arrays_def)
    qed
    moreover have "received psz e (k + 1) ?d3" by (rule got2) (use d2 in \<open>auto simp: dec_arrays_def\<close>)
    ultimately show ?thesis
      using True mod ck rest [OF True] d2(2,3) unfolding unfold by (simp add: is_hash_valid_def)
  next
    case False
    obtain g d3 where ck: "check_hash (d_cnt d1 * field_size) ?d2 = (g, d3)" by fastforce
    then have d3: "d_mem d3 = mem" "d_hash d3 = e_hash e" "d_hash_valid d3 = 4" "dec_arrays d3"
      using check_hash_fields [of "d_cnt d1 * field_size" ?d2] d2 by simp_all
    have "received psz e (k + 1) ?d2" by (rule got2) (use d2 in auto)
    moreover have "received psz e (k + 1) d3" by (rule got2) (use d3 in auto)
    moreover have "received psz e (k + 1) (dec_reset False d3)"
      by (rule got2) (use d3 memlen' in \<open>auto simp: field_size_def slots_size_def\<close>)
    ultimately show ?thesis
      using False ck unfolding unfold by (simp add: Let_def)
  qed
qed

fun receive_format :: "format_resp_hdr_s \<Rightarrow> bytes list \<Rightarrow> decoder \<Rightarrow> decoder option" where
  "receive_format h [] d = Some d"
| "receive_format h (bs # bss) d =
     (case decode_format d h (reader_make bs (length bs)) of
        Some (True, h, d, r) \<Rightarrow> receive_format h bss d
      | _ \<Rightarrow> None)"

lemma receive_parts:
  assumes wf: "enc_wf D e" and psz: "psz \<noteq> 0" and parts: "format_parts psz e \<le> 255"
    and got: "received psz e k d" and k: "k < m" "m = max 1 (format_parts psz e)"
  shows "\<exists>d'. receive_format h (map (format_part psz e) [k..<m]) d = Some d' \<and>
    in_step e d' \<and> is_hash_valid d' \<and> d_hash d' = e_hash e \<and> d_valid d'"
  using got k(1)
proof (induction "m - k" arbitrary: k d h)
  case 0
  then show ?case by simp
next
  case (Suc j)
  have arr: "enc_arrays e" using wf by (simp add: enc_wf_def)
  let ?bs = "format_part psz e k"
  have "length (format_block psz e k) \<le> 720"
  proof -
    have "format_size e \<le> 720" using arr by (simp add: format_size_def enc_arrays_def slots_size_def)
    then show ?thesis unfolding length_format_block [OF arr] by (intro min.coboundedI2) simp
  qed
  then have "length ?bs \<le> 8 + 720" by (simp add: format_part_def resp_image_def)
  then have "reader_ok (reader_make ?bs (length ?bs))" "r_rest (reader_make ?bs (length ?bs)) = ?bs"
    by (auto intro: reader_ok_make)
  then obtain d' r' where d': "decode_format d h (reader_make ?bs (length ?bs)) = Some (True, format_head psz e k, d', r')"
    "received psz e (k + 1) d'"
    "last_part psz e k \<longrightarrow> in_step e d' \<and> is_hash_valid d' \<and> d_hash d' = e_hash e \<and> d_valid d'"
    using decode_format_step [OF wf psz parts Suc.prems(1), of "reader_make ?bs (length ?bs)" h] Suc.prems(2) k(2) by blast
  show ?case
  proof (cases "k + 1 = m")
    case True
    then have "last_part psz e k" using k(2) by (simp add: last_part_def)
    moreover have "[k..<m] = [k]" using True by (simp flip: True)
    ultimately show ?thesis using d' by simp
  next
    case False
    then have "k + 1 < m" "j = m - (k + 1)" using Suc.prems(2) Suc.hyps(2) by simp_all
    then have "\<exists>d''. receive_format (format_head psz e k) (map (format_part psz e) [k + 1..<m]) d' = Some d'' \<and>
        in_step e d'' \<and> is_hash_valid d'' \<and> d_hash d'' = e_hash e \<and> d_valid d''"
      by (intro Suc.hyps(1) d'(2)) auto
    then show ?thesis using d'(1) Suc.prems(2) by (simp add: upt_conv_Cons)
  qed
qed

text \<open>
  C6: the descriptors, cut into blocks of any size that gives at most 255 parts and received in
  order by a decoder in any state, are accepted part by part and leave the decoder in step with the
  encoder, with its hash.
\<close>

theorem format_transfer:
  assumes "enc_wf D e" "psz \<noteq> 0" "format_parts psz e \<le> 255" "dec_arrays d"
  shows "\<exists>bss d'. length bss = max 1 (format_parts psz e) \<and>
    (\<forall>k<length bss. \<forall>w. writer_ok w \<and> w_pos w + 8 + unat psz \<le> w_size w \<longrightarrow>
      (\<exists>w'. encode_format (of_nat k) psz e w = Some w' \<and> w_out w' = w_out w @ bss ! k)) \<and>
    receive_format h bss d = Some d' \<and> in_step e d' \<and> is_hash_valid d' \<and> d_hash d' = e_hash e \<and> d_valid d'"
proof -
  let ?m = "max 1 (format_parts psz e)"
  let ?bss = "map (format_part psz e) [0..<?m]"
  have arr: "enc_arrays e" using assms(1) by (simp add: enc_wf_def)
  have "received psz e 0 d" using assms(4) by (simp add: received_def)
  then obtain d' where d': "receive_format h ?bss d = Some d'" "in_step e d'" "is_hash_valid d'" "d_hash d' = e_hash e" "d_valid d'"
    using receive_parts [OF assms(1-3) _ _ refl, of 0 d h] by (metis less_max_iff_disj zero_less_one)
  have "\<exists>w'. encode_format (of_nat k) psz e w = Some w' \<and> w_out w' = w_out w @ ?bss ! k"
    if "k < ?m" "writer_ok w" "w_pos w + 8 + unat psz \<le> w_size w" for k w
  proof -
    have "k \<le> 255" using that(1) assms(3) by (auto simp: max_def split: if_splits)
    then show ?thesis using encode_format_spec [OF arr assms(2,3) _ that(2,3), of k] that(1) by auto
  qed
  then show ?thesis using d' by (intro exI [of _ ?bss] exI [of _ d']) auto
qed

subsection \<open>An example\<close>

text \<open>The encoder of a list of fields, and a decoder that knows an encoder's format.\<close>

definition encoder_of :: "field_s list \<Rightarrow> encoder" where
  "encoder_of fs = enc_add_all sample_dict fs (enc_make 0)"

lemma encoder_of_used:
  assumes "sorted_wrt field_less fs" "distinct (map field_uid fs)" "length fs \<le> slots_size"
  shows "enc_wf sample_dict (encoder_of fs) \<and> used (encoder_of fs) = fs \<and> e_cnt (encoder_of fs) = length fs"
proof -
  have start: "used (enc_make 0) = []" "e_cnt (enc_make 0) = 0"
    by (simp_all add: used_def enc_make_def enc_clear_def update_feeds_def)
  then have *: "enc_wf sample_dict (encoder_of fs) \<and> set (used (encoder_of fs)) = set fs"
    using enc_add_all_spec [OF enc_make_wf, of 0 fs sample_dict] assms(2,3) by (simp add: encoder_of_def)
  then have "used (encoder_of fs) = fs"
    using sorted_field_unique assms(1) by (simp add: enc_wf_def)
  then show ?thesis using * enc_arrays_used [of "encoder_of fs"] by (simp add: enc_wf_def)
qed

definition twin :: "encoder \<Rightarrow> decoder" where
  "twin e = (dec_make (e_hash e))\<lparr> d_mem := fields_bytes (e_fields e), d_cnt := e_cnt e, d_hash_valid := 4 \<rparr>"

lemma twin_in_step:
  assumes "enc_arrays e"
  shows "in_step e (twin e)"
proof -
  have "dec_field (twin e) i = e_fields e ! i" if "i < e_cnt e" for i
    by (rule dec_field_memory) (use that assms in \<open>auto simp: twin_def enc_arrays_def\<close>)
  moreover have "dec_arrays (twin e)"
    using assms by (simp add: dec_arrays_def twin_def dec_make_def field_size_def enc_arrays_def)
  ultimately show ?thesis by (simp add: in_step_def) (simp add: twin_def)
qed

lemma twin_hash: "is_hash_valid (twin e)" "d_hash (twin e) = e_hash e"
  by (simp_all add: is_hash_valid_def twin_def dec_make_def)

definition sample_encoder :: encoder where
  "sample_encoder = encoder_of [field_of 7 fmt_f32, field_of 3 fmt_bit]"

lemma sample_encoder_wf:
  "enc_wf sample_dict sample_encoder \<and> used sample_encoder = [field_of 7 fmt_f32, field_of 3 fmt_bit] \<and> e_cnt sample_encoder = 2"
  using encoder_of_used [of "[field_of 7 fmt_f32, field_of 3 fmt_bit]"]
  by (simp add: sample_encoder_def field_less_def field_rank_def is_fmt_def field_of_def field_uid_def pid_uid_make slots_size_def)

lemma format_transfer_witness:
  "\<exists>bss d'. length bss = max 1 (format_parts 64 sample_encoder) \<and>
    (\<forall>k<length bss. \<forall>w. writer_ok w \<and> w_pos w + 8 + unat (64 :: u8) \<le> w_size w \<longrightarrow>
      (\<exists>w'. encode_format (of_nat k) 64 sample_encoder w = Some w' \<and> w_out w' = w_out w @ bss ! k)) \<and>
    receive_format \<lparr> resp_version = 0, resp_part = 0, resp_pcnt = 0, resp_psz = 0, resp_hash = 0 \<rparr> bss (dec_make 0) = Some d' \<and>
    in_step sample_encoder d' \<and> is_hash_valid d' \<and> d_hash d' = e_hash sample_encoder \<and> d_valid d'"
proof (rule format_transfer)
  show "enc_wf sample_dict sample_encoder" using sample_encoder_wf by simp
  show "format_parts 64 sample_encoder \<le> 255" using sample_encoder_wf by (simp add: format_parts_def format_size_def)
  show "dec_arrays (dec_make 0)" by (simp add: dec_arrays_def dec_make_def)
qed simp

lemma packable_f32: "f_fmt (e_fields e ! i) = fmt_code fmt_f32 \<Longrightarrow> packable e i"
  unfolding packable_def pack_value_def width_of_def by (simp add: fmt_of_code_inverse pack32_def del: fmt_code.simps)

lemma sample_bit_start: "bit_start (used sample_encoder) = 1"
  using sample_encoder_wf by (simp add: bit_start_def field_of_def is_fmt_def)

lemma telemetry_roundtrip_witness:
  "\<exists>e' w' bs. encode (\<lambda>_. 0) 0 40 sample_encoder (writer_make (replicate 64 0) 64) = Some (True, e', w') \<and>
    w_out w' = w_out (writer_make (replicate 64 0) 64) @ bs \<and> enc_wf sample_dict e' \<and>
    (\<forall>r. reader_ok r \<and> r_rest r = bs \<longrightarrow>
      (\<exists>upd d' r'. decode sample_dict (pid_make 10 0 0) (twin sample_encoder) r = Some (upd, d', r') \<and> r_rest r' = [] \<and> d_valid d' \<and>
        in_step e' d' \<and> is_hash_valid d' \<and> d_hash d' = e_hash e' \<and>
        (\<forall>i<e_cnt sample_encoder. slot_of d' i = delivered (\<lambda>_. 0) 0 (enforce sample_encoder) (twin sample_encoder) i)))"
proof (rule telemetry_roundtrip)
  note s = sample_encoder_wf
  show "enc_wf sample_dict sample_encoder" "e_cnt sample_encoder > 0" using s by simp_all
  show "in_step sample_encoder (twin sample_encoder)" by (rule twin_in_step) (use s in \<open>simp add: enc_wf_def\<close>)
  show "is_hash_valid (twin sample_encoder)" "d_hash (twin sample_encoder) = e_hash sample_encoder" by (rule twin_hash)+
  have "e_fields sample_encoder ! 0 = field_of 7 fmt_f32"
    using s used_nth [of 0 sample_encoder] enc_arrays_used [of sample_encoder] by (simp add: enc_wf_def)
  then have "packable (enforce sample_encoder) 0" by (intro packable_f32) (simp add: field_of_def)
  then show "frame_packable 0 (enforce sample_encoder)"
    by (auto simp: frame_packable_def list_all_iff set_due_from sample_bit_start)
  show "halves_closed sample_encoder" unfolding halves_closed_def sample_bit_start using s by simp
  show "pid_seq (pid_make 10 0 0) = 0 AND 3" "pid_uid (pid_make 10 0 0) \<noteq> g_xpdr sample_dict"
    by (simp_all add: pid_seq_make pid_uid_make sample_dict_def)
  show "writer_ok (writer_make (replicate 64 0) 64)" by (rule writer_ok_make) simp_all
  show "w_pos (writer_make (replicate 64 0) 64) + 4 + 5 * e_cnt sample_encoder \<le> w_size (writer_make (replicate 64 0) 64)"
    using s by simp
qed

end
