(* ===== verification/Telemetry_Safety.thy ===== *)
theory Telemetry_Safety
  imports Telemetry_Sync
begin

text \<open>
  Whatever is received, the decoder ends, stays inside its arrays and the stream, and keeps its
  invariant.
\<close>

unbundle bit_operations_syntax

definition dec_ok :: "decoder \<Rightarrow> bool" where
  "dec_ok d \<longleftrightarrow> dec_arrays d \<and> d_cnt d \<le> slots_size \<and> d_hash_valid d \<le> 4 \<and>
     length (d_xvalue d) = xpdr_size \<and> length (d_xtype d) = xpdr_size"

text \<open>A run that ends with the reader inside its buffer and the decoder's invariant kept.\<close>

definition settles :: "('a \<times> decoder \<times> reader) option \<Rightarrow> bool" where
  "settles m \<longleftrightarrow> (\<exists>x d r. m = Some (x, d, r) \<and> reader_ok r \<and> dec_ok d)"

lemma settles_Some [simp]: "settles (Some (x, d, r)) \<longleftrightarrow> reader_ok r \<and> dec_ok d"
  by (simp add: settles_def)

definition settles_format :: "(bool \<times> format_resp_hdr_s \<times> decoder \<times> reader) option \<Rightarrow> bool" where
  "settles_format m \<longleftrightarrow> (\<exists>a h d r. m = Some (a, h, d, r) \<and> reader_ok r \<and> dec_ok d)"

lemma settles_format_Some [simp]: "settles_format (Some (a, h, d, r)) \<longleftrightarrow> reader_ok r \<and> dec_ok d"
  by (simp add: settles_format_def)

lemma dec_make_ok: "dec_ok (dec_make h)"
  by (simp add: dec_ok_def dec_arrays_def dec_make_def)

lemma dec_reset_ok: "dec_ok d \<Longrightarrow> dec_ok (dec_reset b d)"
  by (simp add: dec_ok_def dec_arrays_def dec_reset_def)

lemma check_hash_ok:
  assumes "dec_ok d" "sz \<le> 720"
  shows "dec_ok (snd (check_hash sz d))"
proof -
  have "sz div 3 \<le> 240" using assms(2) by simp
  then show ?thesis using assms(1) by (simp add: check_hash_def dec_ok_def dec_arrays_def slots_size_def field_size_def)
qed

lemma read_u8_ok:
  assumes "reader_ok r"
  shows "\<exists>b r'. read_u8 r = Some (b, r') \<and> reader_ok r' \<and>
    (if r_rest r = [] then b = 0 else length (r_rest r') < length (r_rest r))"
proof (cases "r_rest r")
  case Nil
  have "read_u8 r = Some (0, r\<lparr> r_pos := r_size r \<rparr>)"
    using read_le_rest [OF assms, of 1] Nil unfolding read_u8_def by simp
  then show ?thesis using reader_ok_end [OF assms] Nil by simp
next
  case (Cons b zs)
  then show ?thesis using read_u8_rest [OF assms Cons] by auto
qed

lemma dec_offset_total:
  assumes "reader_ok r"
  shows "\<exists>c i r'. dec_offset offset code dindex r = Some (c, i, r') \<and> reader_ok r'"
  using assms
proof (induction "length (r_rest r)" arbitrary: r offset code dindex rule: less_induct)
  case less
  obtain b r1 where r1: "read_u8 r = Some (b, r1)" "reader_ok r1"
    "if r_rest r = [] then b = 0 else length (r_rest r1) < length (r_rest r)"
    using read_u8_ok [OF less.prems] by blast
  show ?case
  proof (cases "offset = 0x7F \<and> b AND 0x80 \<noteq> 0")
    case True
    then have "length (r_rest r1) < length (r_rest r)" using r1(3) by (cases "r_rest r = []") auto
    from less.hyps [OF this r1(2)] show ?thesis
      using True r1(1) by (subst dec_offset.simps) (simp add: Let_def)
  next
    case False
    then show ?thesis using r1 less.prems by (subst dec_offset.simps) auto
  qed
qed

lemma dec_code_total:
  assumes "reader_ok (x_r s)" "index < d_cnt d"
  shows "\<exists>i j s'. dec_code d index s = Some (i, j, s') \<and> reader_ok (x_r s') \<and>
    (case i of None \<Rightarrow> True | Some k \<Rightarrow> index \<le> k \<and> k < d_cnt d)"
proof -
  obtain b r1 where r1: "read_u8 (x_r s) = Some (b, r1)" "reader_ok r1" using read_u8_ok [OF assms(1)] by blast
  obtain c i r2 where r2: "dec_offset (b AND 0x7F) b (ucast (b AND 0x7F)) r1 = Some (c, i, r2)" "reader_ok r2"
    using dec_offset_total [OF r1(2)] by blast
  show ?thesis
  proof (cases "x_bit s = 0x40")
    case True
    then show ?thesis using r1 r2 assms(2) by (simp add: dec_code_def Let_def split: option.split)
  next
    case False
    then show ?thesis using assms by (simp add: dec_code_def)
  qed
qed

lemma dec_ok_in: "dec_ok d \<Longrightarrow> in_arrays d i \<longleftrightarrow> i < slots_size"
  by (simp add: dec_ok_def dec_arrays_in)

lemma dec_slot_total:
  assumes "reader_ok (x_r s)" "dec_ok d" "index < d_cnt d"
  shows "\<exists>go d' s'. dec_slot index d s = Some (go, d', s') \<and> reader_ok (x_r s') \<and> dec_ok d' \<and> d_cnt d' = d_cnt d"
proof -
  let ?r = "x_r s" and ?f = "dec_field d index"
  have "r_available ?r \<le> length (drop (r_pos ?r) (r_buf ?r))"
    using r_available_rest [OF assms(1)] length_r_rest [OF assms(1)] assms(1) by (simp add: reader_ok_def diff_le_mono)
  then obtain n v t where u: "unpack_value (drop (r_pos ?r) (r_buf ?r)) (d_value d ! index) type_real (f_fmt ?f) (r_available ?r) = Some (n, v, t)"
    using unpack_value_total by (metis prod_cases3)
  have reset: "reader_ok (r_reset p ?r)" for p using reader_ok_moves(1) [OF assms(1)] by simp
  have "in_arrays d index" using assms(2,3) dec_ok_in [OF assms(2), of index] by (simp add: dec_ok_def)
  then show ?thesis
    using u assms reset
    by (cases "x_nibble_n s = 0") (auto simp: dec_slot_def Let_def dec_ok_def dec_arrays_def)
qed

lemma dec_slots_total:
  assumes "reader_ok (x_r s)" "dec_ok d"
  shows "\<exists>i d' s'. dec_slots pseq index d s = Some (i, d', s') \<and> reader_ok (x_r s') \<and> dec_ok d' \<and> d_cnt d' = d_cnt d"
  using assms
proof (induction pseq index d s rule: dec_slots.induct)
  case (1 pseq index d s)
  show ?case
  proof (cases "index < d_cnt d \<and> r_available (x_r s) > 0 \<and> x_cnt s > 0")
    case False
    then show ?thesis using "1.prems" by (subst dec_slots.simps) auto
  next
    case due: True
    have inn: "\<not> \<not> in_arrays d index"
      using due "1.prems"(2) dec_ok_in [OF "1.prems"(2), of index] by (simp add: dec_ok_def)
    consider (bit) "is_fmt fmt_bit (dec_field d index)"
      | (skip) "\<not> is_fmt fmt_bit (dec_field d index)" "seq_skipped pseq (dec_field d index)"
      | (on) "\<not> is_fmt fmt_bit (dec_field d index)" "\<not> seq_skipped pseq (dec_field d index)" by blast
    then show ?thesis
    proof cases
      case bit
      then show ?thesis using "1.prems" due inn by (subst dec_slots.simps) (simp add: Let_def)
    next
      case skip
      then show ?thesis using "1.IH"(1) [OF due inn refl skip "1.prems"] due inn by (subst dec_slots.simps) (simp add: Let_def)
    next
      case on
      obtain i j s1 where c: "dec_code d index s = Some (i, j, s1)" "reader_ok (x_r s1)"
        "case i of None \<Rightarrow> True | Some k \<Rightarrow> index \<le> k \<and> k < d_cnt d"
        using dec_code_total [OF "1.prems"(1)] due by blast
      show ?thesis
      proof (cases i)
        case None
        then show ?thesis using c on due inn "1.prems" by (subst dec_slots.simps) (simp add: Let_def)
      next
        case (Some k)
        then have k: "k < d_cnt d" using c(3) by simp
        note unfold = dec_slots.simps [of pseq index d s] 
        show ?thesis
        proof (cases "r_available (x_r s1) = 0 \<and> x_nibble_n s1 = 0")
          case True
          then show ?thesis using c on due inn "1.prems" Some unfolding unfold by (simp add: Let_def)
        next
          case more: False
          show ?thesis
          proof (cases "x_code s1 AND x_bit s1 = 0")
            case True
            then show ?thesis
              using "1.IH"(2) [OF due inn refl on c(1) refl Some refl more True c(2) "1.prems"(2)] c on due inn Some more "1.prems"
              unfolding unfold by (simp add: Let_def)
          next
            case False
            obtain go d2 s2 where v: "dec_slot k d s1 = Some (go, d2, s2)" "reader_ok (x_r s2)" "dec_ok d2" "d_cnt d2 = d_cnt d"
              using dec_slot_total [OF c(2) "1.prems"(2) k] by blast
            show ?thesis
            proof (cases go)
              case True
              then show ?thesis
                using "1.IH"(3) [OF due inn refl on c(1) refl Some refl more False v(1) refl refl _ v(2,3)] v c on due inn Some more False "1.prems"
                unfolding unfold by (simp add: Let_def)
            next
              case stop: False
              then show ?thesis using v c on due inn Some more False "1.prems" unfolding unfold by (simp add: Let_def)
            qed
          qed
        qed
      qed
    qed
  qed
qed

lemma dec_bits_start_total:
  "dec_ok d \<Longrightarrow> \<exists>k. dec_bits_start index d = Some k"
proof (induction index d rule: dec_bits_start.induct)
  case (1 index d)
  then have "index < d_cnt d \<Longrightarrow> in_arrays d index" using dec_ok_in [OF 1(2), of index] by (simp add: dec_ok_def)
  then show ?case using 1 by (subst dec_bits_start.simps) auto
qed

lemma dec_bits_total:
  assumes "reader_ok r" "dec_ok d" "\<forall>i\<in>set is. i < slots_size"
  shows "\<exists>c u d' r'. dec_bits is cnt code code_bit upd d r = Some (c, u, d', r') \<and> reader_ok r' \<and> dec_ok d' \<and> d_cnt d' = d_cnt d"
  using assms
proof (induction "is" cnt code code_bit upd d r rule: dec_bits.induct)
  case (2 i "is" cnt code code_bit upd d r)
  show ?case
  proof (cases "is_fmt fmt_bit (dec_field d i) \<and> \<not> (code_bit = 0x80 \<and> r_available r = 0)")
    case False
    then show ?thesis using "2.prems" dec_ok_in [OF "2.prems"(2)] by auto
  next
    case True
    have inn: "\<not> \<not> in_arrays d i" using "2.prems"(3) dec_ok_in [OF "2.prems"(2)] by simp
    obtain c r1 where c: "(if code_bit = 0x80 then read_u8 r else Some (code, r)) = Some (c, r1)" "reader_ok r1"
      using read_u8_ok [OF "2.prems"(1)] "2.prems"(1) by (cases "code_bit = 0x80"; simp; blast)
    have upd: "dec_ok (d\<lparr> d_value := (d_value d)[i := v], d_flags := (d_flags d)[i := g] \<rparr>)" for v g
      using "2.prems"(2) by (simp add: dec_ok_def dec_arrays_def)
    let ?v = "if c AND (if code_bit = 0x80 then 1 else push_bit 1 code_bit) \<noteq> 0 then 1 else 0 :: raw_t"
    have "\<exists>c' u d' r'. dec_bits is (cnt - 1) c (if code_bit = 0x80 then 1 else push_bit 1 code_bit) True
        (d\<lparr> d_value := (d_value d)[i := ?v], d_flags := (d_flags d)[i := \<lparr> df_type = type_byte, df_upd = True \<rparr>] \<rparr>) r1 =
        Some (c', u, d', r') \<and> reader_ok r' \<and> dec_ok d' \<and> d_cnt d' = d_cnt d"
      using "2.IH" [OF inn _ _ c(1) refl refl refl c(2) upd] True "2.prems"(3) by simp
    moreover have "dec_bits (i # is) cnt code code_bit upd d r =
        dec_bits is (cnt - 1) c (if code_bit = 0x80 then 1 else push_bit 1 code_bit) True
          (d\<lparr> d_value := (d_value d)[i := ?v], d_flags := (d_flags d)[i := \<lparr> df_type = type_byte, df_upd = True \<rparr>] \<rparr>) r1"
      using True inn by (simp only: dec_bits.simps c(1) Let_def if_False if_True bind.simps prod.case simp_thms)
    ultimately show ?thesis by (simp only:)
  qed
qed simp

lemma decode_values_total:
  assumes "reader_ok r" "dec_ok d"
  shows "settles (decode_values pseq d r)"
proof (cases "r_available r = 0")
  case True
  then show ?thesis using assms by (simp add: decode_values_def)
next
  case False
  obtain cnt r1 where r1: "read_u8 r = Some (cnt, r1)" "reader_ok r1" using read_u8_ok [OF assms(1)] by blast
  let ?s = "\<lparr> x_r = r1, x_cnt = cnt, x_code = 0, x_bit = 0x40, x_nibble = 0, x_nibble_n = 0, x_upd = False \<rparr>"
  obtain i d2 s2 where d2: "dec_slots pseq 0 d ?s = Some (i, d2, s2)" "reader_ok (x_r s2)" "dec_ok d2"
    using dec_slots_total [of ?s d pseq 0] r1(2) assms(2) by auto
  obtain k where k: "dec_bits_start i d2 = Some k" using dec_bits_start_total [OF d2(3)] by blast
  have below: "\<forall>j\<in>set [k..<d_cnt d2]. j < slots_size" using d2(3) by (auto simp: dec_ok_def)
  obtain c u d3 r3 where d3: "(if i < d_cnt d2 \<and> r_available (x_r s2) > 0 \<and> x_cnt s2 = 0 then do {
             index \<leftarrow> dec_bits_start i d2;
             dec_bits [index..<d_cnt d2] (of_nat (d_cnt d2 - index)) (x_code s2) 0x80 (x_upd s2) d2 (x_r s2)
           } else Some (x_cnt s2, x_upd s2, d2, x_r s2)) = Some (c, u, d3, r3)" "reader_ok r3" "dec_ok d3"
    using dec_bits_total [OF d2(2,3) below] d2(2,3)
    by (cases "i < d_cnt d2 \<and> r_available (x_r s2) > 0 \<and> x_cnt s2 = 0"; simp add: k; metis)
  have "decode_values pseq d r =
      (if r_available r3 \<noteq> 0 \<or> c \<noteq> 0 then Some (False, dec_reset True d3, r3) else Some (u, d3, r3))"
    using False r1(1) d2(1) d3(1) by (simp add: decode_values_def)
  then show ?thesis using d3 dec_reset_ok [OF d3(3), of True] by simp
qed

subsection \<open>The transponder's dataset\<close>

definition table_ok :: "dictionary \<Rightarrow> bool" where
  "table_ok D \<longleftrightarrow> sorted (map fmts_uid (fmt_list D))"

lemma mandala_fmt_total: "table_ok D \<Longrightarrow> \<exists>x. mandala_fmt D uid = Some x"
  using lookup_loop_spec [of "fmt_list D" 0 "int (length (fmt_list D)) - 1" uid]
  by (auto simp: table_ok_def mandala_fmt_def fmt_lookup_def fmt_list_def)

lemma xpdr_fmts_total: "table_ok D \<Longrightarrow> \<exists>fs. xpdr_fmts D = Some fs \<and> length fs = xpdr_size"
  using mandala_fmt_total [of D "g_lat D"] mandala_fmt_total [of D "g_lon D"] mandala_fmt_total [of D "g_hmsl D"]
    mandala_fmt_total [of D "g_speed D"] mandala_fmt_total [of D "g_mode D"]
  by (auto simp: xpdr_fmts_def xpdr_size_def)

lemma unpack_ok:
  assumes "reader_ok r"
  shows "\<exists>n v t'. unpack_value (drop (r_pos r) (r_buf r)) old t fmt (r_available r) = Some (n, v, t')"
proof -
  have "r_available r \<le> length (drop (r_pos r) (r_buf r))"
    using r_available_rest [OF assms] length_r_rest [OF assms] assms by (simp add: reader_ok_def diff_le_mono)
  then show ?thesis using unpack_value_total by (metis prod_cases3)
qed

lemma xpdr_values_total:
  assumes "reader_ok r" "dec_ok d" "\<forall>x\<in>set ds. fst x < xpdr_size"
  shows "settles (xpdr_values ds d r)"
  using assms
proof (induction ds d r rule: xpdr_values.induct)
  case (2 i fmt ds d r)
  obtain n v t where u: "unpack_value (drop (r_pos r) (r_buf r)) (d_xvalue d ! i) (d_xtype d ! i) fmt (r_available r) = Some (n, v, t)"
    using unpack_ok [OF "2.prems"(1)] by blast
  let ?d = "d\<lparr> d_xvalue := (d_xvalue d)[i := v], d_xtype := (d_xtype d)[i := t] \<rparr>"
  have d: "dec_ok ?d" using "2.prems"(2) by (simp add: dec_ok_def dec_arrays_def)
  have inn: "\<not> \<not> in_xpdr d i" using "2.prems"(2,3) by (simp add: dec_ok_def in_xpdr_def)
  show ?case
  proof (cases "n = 0 \<or> n > r_available r")
    case True
    then show ?thesis using u d inn "2.prems"(1) by auto
  next
    case False
    have "reader_ok (r_reset (size_add (r_pos r) n) r)" using reader_ok_moves(1) [OF "2.prems"(1)] by simp
    from "2.IH" [OF inn u refl refl refl False this d] show ?thesis using u False inn "2.prems"(3) by simp
  qed
qed simp

lemma decode_xpdr_total:
  assumes "table_ok D" "reader_ok r" "dec_ok d"
  shows "settles (decode_xpdr D d r)"
proof (cases "r_available r = 0")
  case True
  then show ?thesis using assms by (simp add: decode_xpdr_def)
next
  case False
  obtain fs where fs: "xpdr_fmts D = Some fs" "length fs = xpdr_size" using xpdr_fmts_total [OF assms(1)] by blast
  then have "\<forall>x\<in>set (enumerate 0 fs). fst x < xpdr_size" by (auto simp: in_set_enumerate_eq)
  from xpdr_values_total [OF assms(2,3) this] show ?thesis using False fs(1) by (simp add: decode_xpdr_def)
qed

subsection \<open>Packets and formats\<close>

lemma feed_hash_ok:
  assumes "dec_ok d"
  shows "dec_ok (feed_hash i feed d)"
proof -
  have "unat (d_hash_valid d) \<le> 4" using assms by (simp add: dec_ok_def word_le_nat_alt)
  then have up: "d_hash_valid d + 1 \<le> 4" if "\<not> d_hash_valid d + 1 > 4" using that by simp
  show ?thesis
    using assms up by (auto simp: feed_hash_def Let_def dec_ok_def dec_arrays_def dec_reset_def is_hash_valid_def)
qed

lemma decode_total:
  assumes "table_ok D" "reader_ok r" "dec_ok d"
  shows "settles (decode D pid d r)"
proof (cases "r_available r < hdr_psize")
  case True
  then show ?thesis using assms by (simp add: decode_def)
next
  case False
  obtain h r1 where h: "hdr_read \<lparr> hdr_ts = 0, hdr_feed_hash = 0 \<rparr> r = Some (h, r1)" "reader_ok r1"
    using hdr_wire.rd_safe [of "\<lparr> hdr_ts = 0, hdr_feed_hash = 0 \<rparr>"] assms(2) unfolding safe_get_def by blast
  define d1 where "d1 = track_time (hdr_ts h)
    (if pid_uid pid = g_xpdr D then d else feed_hash (pid_seq pid AND 3) (hdr_feed_hash h) d)"
  have d1: "dec_ok d1"
    using assms(3) feed_hash_ok [OF assms(3)] by (simp add: d1_def track_time_def Let_def dec_ok_def dec_arrays_def)
  then have flag: "dec_ok (d1\<lparr> d_valid := b \<rparr>)" for b by (simp add: dec_ok_def dec_arrays_def)
  obtain v r2 where v: "read_u8 r1 = Some (v, r2)" "reader_ok r2" using read_u8_ok [OF h(2)] by blast
  have "decode D pid d r =
    (if pid_uid pid = g_xpdr D \<and> hdr_feed_hash h \<noteq> xpdr_version then Some (True, d, r1)
     else if pid_uid pid = g_xpdr D then decode_xpdr D d1 r1
     else if is_hash_valid d1 \<and> d_cnt d1 \<noteq> 0 then decode_values (pid_seq pid) (d1\<lparr> d_valid := True \<rparr>) r1
     else if is_hash_valid d1 \<and> r_available r1 = 1 then Some (False, d1\<lparr> d_valid := (v = 0) \<rparr>, r2)
     else Some (False, d1\<lparr> d_valid := False \<rparr>, r1))"
    using False h(1) v(1) by (simp add: decode_def Let_def d1_def)
  then show ?thesis
    using decode_xpdr_total [OF assms(1) h(2) d1] decode_values_total [OF h(2) flag] assms(3) h(2) v(2) flag by simp
qed

lemma stored_part:
  assumes "reader_ok r" "dec_ok d" "pos + sz \<le> 720" "length (r_rest r) = sz"
  shows "\<exists>d' r'. (if sz > 0 then do {
       (n, m, r) \<leftarrow> read_mem (drop pos (d_mem d)) sz r;
       Some (d\<lparr> d_mem := blit pos m (d_mem d) \<rparr>, r)
     } else Some (d, r)) = Some (d', r') \<and> dec_ok d' \<and> reader_ok r'"
proof -
  have mem: "length (d_mem d) = 720" using assms(2) by (simp add: dec_ok_def dec_arrays_def field_size_def slots_size_def)
  have room: "sz \<le> length (drop pos (d_mem d))" using mem assms(3) by simp
  let ?m = "blit 0 (r_rest r) (drop pos (d_mem d))"
  have "read_mem (drop pos (d_mem d)) sz r = Some (sz, ?m, r_adv sz r)"
    using read_mem_rest [OF assms(1) room] assms(4) by (simp add: Let_def)
  moreover have "length ?m = 720 - pos" using mem room assms(4) by simp
  then have "dec_ok (d\<lparr> d_mem := blit pos ?m (d_mem d) \<rparr>)"
    using assms(2,3) mem by (simp add: dec_ok_def dec_arrays_def field_size_def slots_size_def)
  ultimately show ?thesis
    using reader_ok_adv [OF assms(1), of sz] assms by (cases "sz > 0") auto
qed

lemma decode_format_total:
  assumes "reader_ok r" "dec_ok d"
  shows "settles_format (decode_format d h r)"
proof (cases "r_available r < resp_psize")
  case True
  then show ?thesis using assms by (simp add: decode_format_def dec_reset_ok)
next
  case avail: False
  obtain g r1 where g: "resp_read h r = Some (g, r1)" "reader_ok r1"
    using resp_wire.rd_safe [of h] assms(1) unfolding safe_get_def by blast
  show ?thesis
  proof (cases "(resp_version g \<noteq> fmt_version \<or> unat (resp_psz g) = 0) \<or> (resp_part g \<noteq> 0 \<and> resp_hash g \<noteq> d_hash d)")
    case True
    then have "decode_format d h r = Some (False, g, dec_reset True d, r1)"
      unfolding decode_format_def if_not_P [OF avail] g(1)
      by (elim disjE) (simp_all only: Let_def Option.bind.simps prod.case if_True if_cancel simp_thms)
    then show ?thesis using g(2) dec_reset_ok [OF assms(2)] by simp
  next
    case False
    then have known: "\<not> (resp_version g \<noteq> fmt_version \<or> unat (resp_psz g) = 0)"
      "\<not> (resp_part g \<noteq> 0 \<and> resp_hash g \<noteq> d_hash d)" by blast+
    define d1 where "d1 = (if resp_part g = 0 then
      (if resp_hash g \<noteq> d_hash d then dec_reset True d else d)\<lparr> d_hash := resp_hash g, d_hash_valid := 4 \<rparr> else d)"
    have ok1: "dec_ok d1"
      using assms(2) dec_reset_ok [OF assms(2), of True] by (auto simp: d1_def dec_ok_def dec_arrays_def)
    define pos where "pos = unat (resp_part g) * unat (resp_psz g)"
    define sz where "sz = r_available r1"
    define final where "final \<longleftrightarrow> unat (resp_part g) + 1 = unat (resp_pcnt g) \<or> (resp_part g = 0 \<and> resp_pcnt g = 0)"
    define refused where "refused \<longleftrightarrow> (final \<and> sz > unat (resp_psz g)) \<or> (\<not> final \<and> sz \<noteq> unat (resp_psz g)) \<or>
      size_add pos sz > length (d_mem d1)"
    show ?thesis
    proof (cases refused)
      case True
      then have "decode_format d h r = Some (False, g, dec_reset True d1, r1)"
        unfolding decode_format_def if_not_P [OF avail] g(1)
        by (simp only: Let_def Option.bind.simps prod.case d1_def [symmetric] pos_def [symmetric] sz_def [symmetric]
            final_def [symmetric] refused_def [symmetric] known if_True if_False simp_thms)
      then show ?thesis using g(2) dec_reset_ok [OF ok1] by simp
    next
      case False
      have mem: "length (d_mem d1) = 720" using ok1 by (simp add: dec_ok_def dec_arrays_def field_size_def slots_size_def)
      have byte: "unat x \<le> 255" for x :: u8 using unsigned_less [of x, where 'a = nat] by simp
      have "pos \<le> 255 * 255" unfolding pos_def by (intro mult_le_mono byte)
      moreover have "sz \<le> 255" using False byte [of "resp_psz g"] by (auto simp: refused_def)
      ultimately have "size_add pos sz = pos + sz" by (intro size_add_small) simp
      then have fit: "pos + sz \<le> 720" using False mem by (simp add: refused_def)
      have av: "length (r_rest r1) = sz" using r_available_rest [OF g(2)] by (simp add: sz_def)
      obtain d2 r2 where d2: "(if sz > 0 then do {
                 (n, m, r) \<leftarrow> read_mem (drop pos (d_mem d1)) sz r1;
                 Some (d1\<lparr> d_mem := blit pos m (d_mem d1) \<rparr>, r)
               } else Some (d1, r1)) = Some (d2, r2)" "dec_ok d2" "reader_ok r2"
        using stored_part [OF g(2) ok1 fit av] by blast
      obtain good d3 where d3: "(if final then check_hash (pos + sz) d2 else (False, d2)) = (good, d3)" "dec_ok d3"
        using check_hash_ok [OF d2(2) fit] d2(2) by (metis prod.collapse snd_conv)
      obtain good' d4 where d4: "check_hash (d_cnt d3 * field_size) d3 = (good', d4)" by fastforce
      have "d_cnt d3 * field_size \<le> 720" using d3(2) by (simp add: dec_ok_def slots_size_def field_size_def)
      from check_hash_ok [OF d3(2) this] have ok4: "dec_ok d4" using d4 by simp
      have "decode_format d h r =
        (if final \<and> (pos + sz) mod field_size \<noteq> 0 then Some (False, g, dec_reset True d2, r2)
         else if good then Some (True, g, d3, r2)
         else if d_cnt d3 = 0 then Some (True, g, d3, r2)
         else Some (True, g, if good' then d4 else dec_reset False d4, r2))"
        unfolding decode_format_def if_not_P [OF avail] g(1)
        by (simp only: Let_def Option.bind.simps prod.case d1_def [symmetric] pos_def [symmetric] sz_def [symmetric]
            final_def [symmetric] refused_def [symmetric] False known d2(1) d3(1) d4 if_False simp_thms)
      then show ?thesis using d2(2,3) d3(2) ok4 dec_reset_ok by simp
    qed
  qed
qed

subsection \<open>Every run\<close>

text \<open>What a decoder can become: packets and parts of a format in any order and of any content.\<close>

inductive dec_run :: "dictionary \<Rightarrow> decoder \<Rightarrow> bool" for D where
  run_start: "dec_run D (dec_make h)"
| run_packet: "dec_run D d \<Longrightarrow> reader_ok r \<Longrightarrow> decode D pid d r = Some (a, d', r') \<Longrightarrow> dec_run D d'"
| run_format: "dec_run D d \<Longrightarrow> reader_ok r \<Longrightarrow> decode_format d g r = Some (a, g', d', r') \<Longrightarrow> dec_run D d'"
| run_reset: "dec_run D d \<Longrightarrow> dec_run D (dec_reset b d)"
| run_timestamp: "dec_run D d \<Longrightarrow> dec_run D (reset_timestamp v d)"

lemma dec_run_ok: "dec_run D d \<Longrightarrow> table_ok D \<Longrightarrow> dec_ok d"
proof (induction rule: dec_run.induct)
  case (run_packet d r pid a d' r')
  then have "settles (Some (a, d', r'))" using decode_total [of D r d pid] by simp
  then show ?case by simp
next
  case (run_format d r g a g' d' r')
  then have "settles_format (Some (a, g', d', r'))" using decode_format_total [of r d g] by simp
  then show ?case by simp
next
  case (run_timestamp d v)
  then show ?case by (simp add: reset_timestamp_def dec_ok_def dec_arrays_def)
qed (simp_all add: dec_make_ok dec_reset_ok)

text \<open>
  C7: whatever packets and format parts a decoder has received, the next one, of any content, is
  processed to an end: no read leaves the stream, no access to a slot leaves the arrays (each is
  checked in the model and would make the run \<open>None\<close>), every loop stops; and at most 240 slots and
  four bytes of the hash are in use.
\<close>

theorem decoder_total:
  assumes "table_ok D" "dec_run D d" "reader_ok r"
  shows "(\<exists>a d' r'. decode D pid d r = Some (a, d', r') \<and> reader_ok r' \<and> dec_ok d') \<and>
    (\<exists>a g' d' r'. decode_format d g r = Some (a, g', d', r') \<and> reader_ok r' \<and> dec_ok d') \<and>
    d_cnt d \<le> slots_size \<and> d_hash_valid d \<le> 4"
proof -
  have "dec_ok d" by (rule dec_run_ok [OF assms(2,1)])
  then show ?thesis
    using decode_total [OF assms(1,3), of d pid] decode_format_total [OF assms(3), of d g]
    unfolding settles_def settles_format_def by (auto simp: dec_ok_def)
qed

lemma decoder_total_witness:
  "\<exists>a d' r'. decode sample_dict 5 (dec_make 0) (reader_make [1, 2, 3, 4, 0xFF] 5) = Some (a, d', r') \<and> reader_ok r' \<and> dec_ok d'"
proof -
  have "table_ok sample_dict" by code_simp
  moreover have "reader_ok (reader_make [1, 2, 3, 4, 0xFF] 5)" by (rule reader_ok_make) simp_all
  ultimately show ?thesis using decoder_total [OF _ run_start] by blast
qed

end
