(* ===== verification/Telemetry_Faults.thy ===== *)
theory Telemetry_Faults
  imports Telemetry_Safety
begin

text \<open>
  Two frames that do not deliver what they carry: two options at the very end of a packet, and a
  value that differs from the last one by the mark of the enforced slot.
\<close>

unbundle bit_operations_syntax

subsection \<open>Two options at the end of a packet\<close>

text \<open>After the first value nothing is left to read, and the loop stops with one value missing.\<close>

lemma dec_slots_option_pair:
  assumes d: "d_cnt d = 2" "is_fmt fmt_u4 (dec_field d 0)" "is_fmt fmt_u4 (dec_field d 1)" "in_arrays d 0" "in_arrays d 1"
    and due: "\<not> seq_skipped pseq (dec_field d 0)" and r: "reader_ok r" "r_rest r = [3, b]"
  shows "\<exists>d' s'. dec_slots pseq 0 d \<lparr> x_r = r, x_cnt = 2, x_code = 0, x_bit = 0x40, x_nibble = 0, x_nibble_n = 0, x_upd = False \<rparr> =
     Some (1, d', s') \<and> x_cnt s' = 1 \<and> r_available (x_r s') = 0 \<and> d_hash d' = d_hash d"
proof -
  let ?s = "\<lparr> x_r = r, x_cnt = 2, x_code = 0, x_bit = 0x40, x_nibble = 0, x_nibble_n = 0, x_upd = False \<rparr> :: dec_loop"
  obtain r1 where r1: "read_u8 r = Some (3, r1)" "reader_ok r1" "r_rest r1 = [b]" using read_u8_rest [OF r] by blast
  let ?s1 = "?s\<lparr> x_r := r1, x_code := 3, x_bit := 1 \<rparr>"
  have code: "dec_code d 0 ?s = Some (Some 0, 0, ?s1)" using r1(1) by (simp add: dec_code_def)
  have f: "f_fmt (dec_field d 0) = fmt_code fmt_u4" using d(2) by (simp add: is_fmt_def)
  obtain ms where ms: "drop (r_pos r1) (r_buf r1) = [b] @ ms" using memory_rest [OF r1(2)] r1(3) by auto
  have avail: "r_available r1 = 1" using r_available_rest [OF r1(2)] r1(3) by simp
  obtain v t where u: "unpack_value (drop (r_pos r1) (r_buf r1)) (d_value d ! 0) type_real (fmt_code fmt_u4) 1 = Some (1, v, t)"
    using unpack_value_prefix [of "[b]" "fmt_code fmt_u4" 1 ms "d_value d ! 0" type_real] ms
    by (cases "unpacked_value (fmt_code fmt_u4) [b] (d_value d ! 0)") (simp add: width_of_def fmt_of_code_inverse del: fmt_code.simps)
  let ?r2 = "r_reset (size_add (r_pos r1) 1) r1"
  let ?d2 = "d\<lparr> d_value := (d_value d)[0 := v AND 0x0F], d_flags := (d_flags d)[0 := \<lparr> df_type = type_byte, df_upd = True \<rparr>] \<rparr>"
  let ?s2 = "?s1\<lparr> x_r := ?r2, x_nibble_n := 1, x_nibble := ucast v, x_upd := True, x_cnt := 1 \<rparr>"
  have slot: "dec_slot 0 d ?s1 = Some (True, ?d2, ?s2)" using u avail f d(2,4) by (simp add: dec_slot_def)
  have rest: "r_available ?r2 = 0" "reader_ok ?r2"
    using r_reset_rest [OF r1(2), of "[b]" "[]"] r1(3) r_available_rest [of ?r2] by simp_all
  have "dec_slots pseq 1 ?d2 ?s2 = Some (1, ?d2, ?s2)" using rest(1) d(5) by (subst dec_slots.simps) simp
  moreover have "dec_slots pseq 0 d ?s = dec_slots pseq 1 ?d2 ?s2"
  proof -
    have "r_available r = 2" using r_available_rest [OF r(1)] r(2) by simp
    moreover have "\<not> is_fmt fmt_bit (dec_field d 0)" using d(2) fmt_bit_u4 by blast
    ultimately show ?thesis
      using d(1,4) due code slot avail by (subst dec_slots.simps) (simp add: Let_def)
  qed
  ultimately have "dec_slots pseq 0 d ?s = Some (1, ?d2, ?s2)" by (simp only:)
  then show ?thesis using rest(1) by (intro exI [of _ ?d2] exI [of _ ?s2]) simp
qed

lemma decode_option_pair:
  assumes d: "d_cnt d = 2" "is_fmt fmt_u4 (dec_field d 0)" "is_fmt fmt_u4 (dec_field d 1)" "in_arrays d 0" "in_arrays d 1"
    and due: "\<not> seq_skipped pseq (dec_field d 0)" and r: "reader_ok r" "r_rest r = [2, 3, b]"
  shows "\<exists>d' r'. decode_values pseq d r = Some (False, dec_reset True d', r')"
proof -
  obtain r1 where r1: "read_u8 r = Some (2, r1)" "reader_ok r1" "r_rest r1 = [3, b]" using read_u8_rest [OF r] by blast
  have avail: "r_available r \<noteq> 0" using r_available_rest [OF r(1)] r(2) by simp
  obtain d' s' where loop: "dec_slots pseq 0 d \<lparr> x_r = r1, x_cnt = 2, x_code = 0, x_bit = 0x40, x_nibble = 0, x_nibble_n = 0, x_upd = False \<rparr> =
     Some (1, d', s')" "x_cnt s' = 1" "r_available (x_r s') = 0"
    using dec_slots_option_pair [OF d due r1(2,3)] by blast
  have "decode_values pseq d r = Some (False, dec_reset True d', x_r s')"
    using avail r1(1) loop by (simp add: decode_values_def)
  then show ?thesis by blast
qed

lemma option_pair_frame:
  assumes "enc_arrays e" and cnt: "e_cnt e = 2"
    and fmt: "\<forall>i<2. is_fmt fmt_u4 (e_fields e ! i) \<and> \<not> seq_skipped pseq (e_fields e ! i)"
    and sent: "\<forall>i<2. sent_bytes junk (enforce e) i \<noteq> None"
  shows "frame_packable pseq (enforce e) \<and> (\<exists>b. frame_bytes junk pseq (enforce e) = [2, 3, b])"
proof -
  let ?e = "enforce e" and ?f = "\<lambda>i. e_fields e ! i"
  obtain a b where ab: "sent_bytes junk ?e 0 = Some a" "sent_bytes junk ?e 1 = Some b" using sent by fastforce
  have used: "used e = [?f 0, ?f 1]"
    using cnt enc_arrays_used [OF assms(1)] by (intro nth_equalityI) (auto simp: used_nth less_2_cases_iff)
  have "\<not> is_fmt fmt_bit (?f 0)" "\<not> is_fmt fmt_bit (?f 1)" using fmt fmt_bit_u4 [of "?f 0"] fmt_bit_u4 [of "?f 1"] by auto
  then have start: "bit_start (used e) = 2" by (simp add: used bit_start_def)
  have due: "due_from pseq (e_fields e) 0 2 = [0, 1]" using fmt by (simp add: due_from_def upt_rec numeral_2_eq_2)
  have items: "frame_items junk pseq ?e = [(0, True, Some a), (1, True, Some b)]"
    using fmt ab by (simp add: frame_items_def start due item_at_def)
  have "packable ?e i" if "i < 2" for i
  proof -
    have "f_fmt (e_fields ?e ! i) = fmt_code fmt_u4" "sent_bytes junk ?e i \<noteq> None" using fmt sent that by (simp_all add: is_fmt_def)
    then show ?thesis
      by (auto simp: packable_def sent_bytes_def width_of_def fmt_of_code_inverse simp del: fmt_code.simps split: option.splits if_splits)
  qed
  then have "frame_packable pseq ?e" by (simp add: frame_packable_def start due)
  moreover have "body None [(0, True, Some a), (1, True, Some b)] = [3, nib a OR push_bit 4 (nib b)]"
    by (simp add: body.simps [of None "[_, _]"] body.simps [of None "[]"] unsent_def)
  moreover have "bit_bytes (frame_bits ?e) = []" using start cnt by (simp add: frame_bits_def bit_bytes.simps [of "[]"])
  ultimately show ?thesis by (simp add: frame_bytes_def items)
qed

text \<open>
  C22: when the format is two options and both are sent, the packet that the encoder writes is
  refused by the decoder that is in step with it, which forgets the format and its hash.
\<close>

theorem option_pair_lost:
  assumes "enc_wf D e" "in_step e d" "is_hash_valid d" "d_hash d = e_hash e"
    and cnt: "e_cnt e = 2" and fmt: "\<forall>i<2. is_fmt fmt_u4 (e_fields e ! i) \<and> \<not> seq_skipped pseq (e_fields e ! i)"
    and sent: "\<forall>i<2. sent_bytes junk (enforce e) i \<noteq> None"
    and "pid_seq pid = pseq AND 3" "pid_uid pid \<noteq> g_xpdr D"
    and "writer_ok w" "w_pos w + 14 \<le> w_size w"
  shows "\<exists>e' w' bs. encode junk pseq t e w = Some (True, e', w') \<and> w_out w' = w_out w @ bs \<and>
    (\<forall>r. reader_ok r \<and> r_rest r = bs \<longrightarrow>
      (\<exists>d' r'. decode D pid d r = Some (False, d', r') \<and> \<not> is_hash_valid d' \<and> d_cnt d' = 0 \<and> \<not> d_valid d'))"
proof -
  have arr: "enc_arrays e" using assms(1) by (simp add: enc_wf_def)
  obtain b where pk: "frame_packable pseq (enforce e)" and bytes: "frame_bytes junk pseq (enforce e) = [2, 3, b]"
    using option_pair_frame [OF arr cnt fmt sent] by blast
  have "w_pos w + 4 + 5 * e_cnt e \<le> w_size w" using assms(11) cnt by simp
  then obtain w' where w': "encode junk pseq t e w = Some (True, frame_state junk pseq (enforce e), w')"
    "w_out w' = w_out w @ packet_of junk pseq t e"
    using encode_spec [OF arr pk assms(10)] by blast
  have "\<exists>d' r'. decode D pid d r = Some (False, d', r') \<and> \<not> is_hash_valid d' \<and> d_cnt d' = 0 \<and> \<not> d_valid d'"
    if r: "reader_ok r" "r_rest r = packet_of junk pseq t e" for r
  proof -
    obtain d1 r1 where d1: "decode D pid d r = decode_values (pid_seq pid) d1 r1" "reader_ok r1"
      "r_rest r1 = [2, 3, b]" "d_cnt d1 = d_cnt d" "dec_field d1 = dec_field d" "in_arrays d1 = in_arrays d"
      using decode_header [OF assms(2-4) _ assms(8,9) r] cnt bytes by (auto simp: in_arrays_def fun_eq_iff)
    have "\<exists>d' r'. decode_values (pseq AND 3) d1 r1 = Some (False, dec_reset True d', r')"
      by (rule decode_option_pair) (use d1 assms(2) cnt fmt in_step_in [OF assms(1,2)] in \<open>auto simp: in_step_def seq_skipped_low\<close>)
    then show ?thesis using d1(1) assms(8) by (auto simp: dec_reset_def is_hash_valid_def)
  qed
  then show ?thesis using w' by blast
qed

text \<open>Values set in the first slots, all due.\<close>

definition with_values :: "raw_t list \<Rightarrow> type_id_e \<Rightarrow> encoder \<Rightarrow> encoder" where
  "with_values vs t e =
     e\<lparr> e_flags := replicate slots_size \<lparr> ef_type = t, ef_upd = True, ef_aux = False, ef_to = 0 \<rparr>,
        e_value := vs @ replicate (slots_size - length vs) 0, e_packed := replicate slots_size 0, e_enforced := 0 \<rparr>"

lemma with_values_wf: "enc_wf D e \<Longrightarrow> length vs \<le> slots_size \<Longrightarrow> enc_wf D (with_values vs t e)"
  by (rule enc_wf_cong) (auto simp: with_values_def enc_wf_def enc_arrays_def slots_size_def)

definition option_encoder :: encoder where
  "option_encoder = with_values [1, 2] type_byte (encoder_of [field_of 5 fmt_u4, field_of 7 fmt_u4])"

lemma option_encoder_wf:
  "enc_wf sample_dict option_encoder \<and> e_cnt option_encoder = 2 \<and>
   e_fields option_encoder ! 0 = field_of 5 fmt_u4 \<and> e_fields option_encoder ! 1 = field_of 7 fmt_u4"
proof -
  let ?fs = "[field_of 5 fmt_u4, field_of 7 fmt_u4]"
  have e: "enc_wf sample_dict (encoder_of ?fs) \<and> used (encoder_of ?fs) = ?fs \<and> e_cnt (encoder_of ?fs) = 2"
    using encoder_of_used [of ?fs]
    by (simp add: field_less_def field_rank_def is_fmt_def field_of_def field_uid_def pid_uid_make slots_size_def)
  then have "e_cnt (encoder_of ?fs) \<le> length (e_fields (encoder_of ?fs))" by (simp add: enc_wf_def enc_arrays_def)
  then have "e_fields (encoder_of ?fs) ! 0 = ?fs ! 0" "e_fields (encoder_of ?fs) ! 1 = ?fs ! 1"
    using e used_nth [of 0 "encoder_of ?fs"] used_nth [of 1 "encoder_of ?fs"] by simp_all
  then show ?thesis
    using e with_values_wf [of sample_dict "encoder_of ?fs" "[1, 2]" type_byte]
    by (simp add: option_encoder_def slots_size_def) (simp add: with_values_def)
qed

lemma option_values:
  "pack_value 1 type_byte 6 = Some [1]" "pack_value 2 type_byte 6 = Some [2]"
  "with_junk [1] 0 \<noteq> 0x01010101" "with_junk [2] 0 \<noteq> 0"
  by code_simp+

lemma option_pair_lost_witness:
  "\<exists>e' w' bs. encode (\<lambda>_. 0) 0 40 option_encoder (writer_make (replicate 64 0) 64) = Some (True, e', w') \<and>
    w_out w' = w_out (writer_make (replicate 64 0) 64) @ bs \<and>
    (\<forall>r. reader_ok r \<and> r_rest r = bs \<longrightarrow>
      (\<exists>d' r'. decode sample_dict (pid_make 10 0 0) (twin option_encoder) r = Some (False, d', r') \<and>
        \<not> is_hash_valid d' \<and> d_cnt d' = 0 \<and> \<not> d_valid d'))"
proof (rule option_pair_lost)
  note s = option_encoder_wf
  show "enc_wf sample_dict option_encoder" "e_cnt option_encoder = 2" using s by simp_all
  show "in_step option_encoder (twin option_encoder)" by (rule twin_in_step) (use s in \<open>simp add: enc_wf_def\<close>)
  show "is_hash_valid (twin option_encoder)" "d_hash (twin option_encoder) = e_hash option_encoder" by (rule twin_hash)+
  show "\<forall>i<2. is_fmt fmt_u4 (e_fields option_encoder ! i) \<and> \<not> seq_skipped 0 (e_fields option_encoder ! i)"
    using s by (auto simp: less_2_cases_iff field_of_def is_fmt_def seq_skipped_def pid_seq_make split: seq_e.split)
  show "\<forall>i<2. sent_bytes (\<lambda>_. 0) (enforce option_encoder) i \<noteq> None"
    using s option_values by (auto simp: less_2_cases_iff sent_bytes_def enforce_def Let_def with_values_def option_encoder_def
        field_of_def slots_size_def)
  show "pid_seq (pid_make 10 0 0) = 0 AND 3" "pid_uid (pid_make 10 0 0) \<noteq> g_xpdr sample_dict"
    by (simp_all add: pid_seq_make pid_uid_make sample_dict_def)
  show "writer_ok (writer_make (replicate 64 0) 64)" by (rule writer_ok_make) simp_all
qed simp

subsection \<open>The mark of the enforced slot\<close>

lemma sent_state_unsent: "sent_bytes junk e i = None \<Longrightarrow> sent_bytes junk (sent_state junk j e) i = None"
  by (cases "j = i"; cases "i < length (e_flags e)")
    (auto simp: sent_bytes_def sent_state_def list_update_beyond split: option.splits)

lemma fold_unsent:
  assumes "sent_bytes junk e i = None" "i < length (e_flags e)"
  shows "e_packed (fold (sent_state junk) js e) ! i = e_packed e ! i \<and>
    (i \<in> set js \<or> \<not> ef_upd (e_flags e ! i) \<longrightarrow> \<not> ef_upd (e_flags (fold (sent_state junk) js e) ! i))"
  using assms
proof (induction js arbitrary: e)
  case (Cons j js)
  let ?e = "sent_state junk j e"
  have e: "sent_bytes junk ?e i = None" "i < length (e_flags ?e)"
    using sent_state_unsent [OF Cons.prems(1)] Cons.prems(2) by (simp_all add: sent_state_def)
  have "e_packed ?e ! i = e_packed e ! i"
    using Cons.prems by (cases "j = i") (auto simp: sent_state_def split: option.split)
  moreover have "i = j \<or> \<not> ef_upd (e_flags e ! i) \<Longrightarrow> \<not> ef_upd (e_flags ?e ! i)"
    using Cons.prems by (cases "j = i") (auto simp: sent_state_def)
  ultimately show ?case using Cons.IH [OF e] by auto
qed simp

text \<open>
  C23: the slot whose turn it is to be enforced is marked by adding 0x01010101 to what was sent last.
  A new value with exactly this image is taken for the one already sent: the packet does not carry
  it, the decoder keeps the old one, and the encoder no longer has it as pending.
\<close>

theorem enforced_collision:
  assumes "enc_wf D e" "in_step e d" "is_hash_valid d" "d_hash d = e_hash e"
    "frame_packable pseq (enforce e)" "halves_closed e"
    "pid_seq pid = pseq AND 3" "pid_uid pid \<noteq> g_xpdr D"
    "writer_ok w" "w_pos w + 4 + 5 * e_cnt e \<le> w_size w"
    and i: "e_enforced e = i" "i < bit_start (used e)" "\<not> seq_skipped pseq (e_fields e ! i)"
    and collides: "pack_value (e_value e ! i) (ef_type (e_flags e ! i)) (f_fmt (e_fields e ! i)) = Some bs"
      "with_junk bs (junk i) = e_packed e ! i + 0x01010101"
  shows "\<exists>e' w' out. encode junk pseq t e w = Some (True, e', w') \<and> w_out w' = w_out w @ out \<and>
    \<not> ef_upd (e_flags e' ! i) \<and> e_packed e' ! i = with_junk bs (junk i) \<and>
    (\<forall>r. reader_ok r \<and> r_rest r = out \<longrightarrow>
      (\<exists>upd d' r'. decode D pid d r = Some (upd, d', r') \<and> slot_of d' i = slot_of d i))"
proof -
  let ?e = "enforce e"
  have arr: "enc_arrays e" using assms(1) by (simp add: enc_wf_def)
  have "bit_start (used e) \<le> length (used e)" unfolding bit_start_def by (rule length_takeWhile_le)
  then have i_cnt: "i < e_cnt e" "i < slots_size" using i(2) enc_arrays_used [OF arr] arr by (simp_all add: enc_arrays_def)
  have unsent: "sent_bytes junk ?e i = None"
    using i_cnt arr collides by (simp add: sent_bytes_def enforce_def Let_def i(1) enc_arrays_def)
  have wf: "enc_wf D ?e" by (rule enforce_wf [OF assms(1)])
  obtain w' where w': "encode junk pseq t e w = Some (True, frame_state junk pseq ?e, w')"
    "w_out w' = w_out w @ packet_of junk pseq t e"
    using encode_spec [OF arr assms(5,9,10)] by blast
  have "i \<in> set (due_from pseq (e_fields e) 0 (bit_start (used e)))" using i by (simp add: set_due_from)
  moreover have "e_packed ?e ! i = with_junk bs (junk i)"
    using i_cnt arr collides(2) by (simp add: enforce_def Let_def i(1) enc_arrays_def)
  moreover have "i < length (e_flags ?e)" using wf i_cnt(2) by (simp add: enc_wf_def enc_arrays_def)
  ultimately have state: "\<not> ef_upd (e_flags (frame_state junk pseq ?e) ! i)"
    "e_packed (frame_state junk pseq ?e) ! i = with_junk bs (junk i)"
    using fold_unsent [OF unsent, of "due_from pseq (e_fields e) 0 (bit_start (used e))"] by (simp_all add: frame_state_def)
  have "\<exists>upd d' r'. decode D pid d r = Some (upd, d', r') \<and> slot_of d' i = slot_of d i"
    if r: "reader_ok r" "r_rest r = packet_of junk pseq t e" for r
  proof -
    have "e_cnt e > 0" using i_cnt by simp
    then obtain d1 r' where d1: "decode D pid d r = Some (frame_news junk pseq ?e, frame_seen junk pseq ?e d1, r')"
      "in_step e d1" "d_value d1 = d_value d" "d_flags d1 = d_flags d"
      using decode_packet [OF assms(1-4) _ assms(5-8) r] by blast
    have "\<not> is_fmt fmt_bit (e_fields e ! i)"
      using i(2) i_cnt enc_arrays_used [OF arr] used_nth [of i e] nth_mem [of i "takeWhile (\<lambda>f. \<not> is_fmt fmt_bit f) (used e)"]
        takeWhile_nth [of i "\<lambda>f. \<not> is_fmt fmt_bit f" "used e"] set_takeWhileD
      unfolding bit_start_def by metis
    moreover have "in_step ?e d1" using d1(2) by (simp add: in_step_def)
    ultimately have "slot_of (frame_seen junk pseq ?e d1) i = slot_of d i"
      using frame_seen_slot [OF wf, of d1 i junk pseq] i_cnt(1) unsent d1(3,4)
      by (simp add: delivered_def slot_of_def Let_def)
    then show ?thesis using d1(1) by blast
  qed
  then show ?thesis using w' state by blast
qed

definition counter_encoder :: encoder where
  "counter_encoder = with_values [0x01010101] type_dword (encoder_of [field_of 7 fmt_u32, field_of 3 fmt_bit])"

lemma counter_encoder_wf:
  "enc_wf sample_dict counter_encoder \<and> e_cnt counter_encoder = 2 \<and>
   e_fields counter_encoder ! 0 = field_of 7 fmt_u32 \<and> bit_start (used counter_encoder) = 1"
proof -
  let ?fs = "[field_of 7 fmt_u32, field_of 3 fmt_bit]"
  have e: "enc_wf sample_dict (encoder_of ?fs) \<and> used (encoder_of ?fs) = ?fs \<and> e_cnt (encoder_of ?fs) = 2"
    using encoder_of_used [of ?fs]
    by (simp add: field_less_def field_rank_def is_fmt_def field_of_def field_uid_def pid_uid_make slots_size_def)
  then have "e_cnt (encoder_of ?fs) \<le> length (e_fields (encoder_of ?fs))" by (simp add: enc_wf_def enc_arrays_def)
  then have "e_fields (encoder_of ?fs) ! 0 = ?fs ! 0" using e used_nth [of 0 "encoder_of ?fs"] by simp
  moreover have "used counter_encoder = ?fs" using e unfolding counter_encoder_def used_def with_values_def by simp metis
  moreover have "bit_start ?fs = 1" by (simp add: bit_start_def field_of_def is_fmt_def)
  ultimately show ?thesis
    using e with_values_wf [of sample_dict "encoder_of ?fs" "[0x01010101]" type_dword]
    by (simp add: counter_encoder_def slots_size_def) (simp add: with_values_def)
qed

lemma counter_values:
  "e_enforced counter_encoder = 0" "e_value counter_encoder ! 0 = 0x01010101"
  "ef_type (e_flags counter_encoder ! 0) = type_dword" "e_packed counter_encoder ! 0 = 0"
  by (simp_all add: counter_encoder_def with_values_def slots_size_def)

lemma counter_packed:
  "pack_value 0x01010101 type_dword (fmt_code fmt_u32) = Some [1, 1, 1, 1]" "with_junk [1, 1, 1, 1] 0 = 0x01010101"
  by code_simp+

lemma enforced_collision_witness:
  "\<exists>e' w' out. encode (\<lambda>_. 0) 0 40 counter_encoder (writer_make (replicate 64 0) 64) = Some (True, e', w') \<and>
    w_out w' = w_out (writer_make (replicate 64 0) 64) @ out \<and>
    \<not> ef_upd (e_flags e' ! 0) \<and> e_packed e' ! 0 = with_junk [1, 1, 1, 1] ((\<lambda>_. 0) (0 :: nat)) \<and>
    (\<forall>r. reader_ok r \<and> r_rest r = out \<longrightarrow>
      (\<exists>upd d' r'. decode sample_dict (pid_make 10 0 0) (twin counter_encoder) r = Some (upd, d', r') \<and>
        slot_of d' 0 = slot_of (twin counter_encoder) 0))"
proof (rule enforced_collision)
  note s = counter_encoder_wf
  show "enc_wf sample_dict counter_encoder" using s by simp
  show "in_step counter_encoder (twin counter_encoder)" by (rule twin_in_step) (use s in \<open>simp add: enc_wf_def\<close>)
  show "is_hash_valid (twin counter_encoder)" "d_hash (twin counter_encoder) = e_hash counter_encoder" by (rule twin_hash)+
  have "e_value (enforce counter_encoder) ! 0 = 0x01010101" "ef_type (e_flags (enforce counter_encoder) ! 0) = type_dword"
    using counter_values s by (simp_all add: enforce_def Let_def enc_wf_def enc_arrays_def slots_size_def)
  then have "packable (enforce counter_encoder) 0"
    using s counter_packed(1) by (simp add: packable_def field_of_def width_of_def fmt_of_code_inverse del: fmt_code.simps)
  then show "frame_packable 0 (enforce counter_encoder)"
    using s by (auto simp: frame_packable_def list_all_iff set_due_from)
  show "halves_closed counter_encoder" using s by (simp add: halves_closed_def)
  show "pid_seq (pid_make 10 0 0) = 0 AND 3" "pid_uid (pid_make 10 0 0) \<noteq> g_xpdr sample_dict"
    by (simp_all add: pid_seq_make pid_uid_make sample_dict_def)
  show "writer_ok (writer_make (replicate 64 0) 64)" by (rule writer_ok_make) simp_all
  show "w_pos (writer_make (replicate 64 0) 64) + 4 + 5 * e_cnt counter_encoder \<le> w_size (writer_make (replicate 64 0) 64)"
    using s by simp
  show "e_enforced counter_encoder = 0" "0 < bit_start (used counter_encoder)" using s counter_values by simp_all
  show "\<not> seq_skipped 0 (e_fields counter_encoder ! 0)"
    using s by (auto simp: field_of_def seq_skipped_def pid_seq_make split: seq_e.split)
  show "pack_value (e_value counter_encoder ! 0) (ef_type (e_flags counter_encoder ! 0)) (f_fmt (e_fields counter_encoder ! 0)) = Some [1, 1, 1, 1]"
    using s counter_values counter_packed(1) by (simp add: field_of_def)
  show "with_junk [1, 1, 1, 1] ((\<lambda>_. 0) (0 :: nat)) = e_packed counter_encoder ! 0 + 0x01010101"
    using counter_values counter_packed(2) by simp
qed


end
