(* ===== verification/Matrix_Math.thy ===== *)
theory Matrix_Math
  imports Complex_Main
begin

text \<open>
  \<open>mandala/backport/MatrixMath.h\<close> and \<open>MatrixMath.cpp\<close>: vectors, matrices, quaternions and Euler
  angles.  A vector is the list of its elements, a matrix the list of its rows; the template
  arguments are the lengths, or explicit arguments where a result's size depends on them.

  The templates are over any type of elements, and so are their definitions here: they use what the
  element type offers as \<open>0\<close>, \<open>+\<close>, \<open>*\<close> and so on.  What the code writes for \<open>float\<close> alone is
  written for the real numbers: the rounding of \<open>float\<close> and the overflow to infinity are left out,
  and \<open>std::sin\<close>, \<open>std::sqrt\<close> and the like are the functions of that name.  \<open>fixNAN\<close> expands to
  nothing.
\<close>

type_synonym 'a vec = "'a list"
type_synonym 'a mat = "'a list list"

subsection \<open>Vectors\<close>

definition vec_fill :: "nat \<Rightarrow> 'a \<Rightarrow> 'a vec" where
  "vec_fill n value = replicate n value"

definition vec_isNull :: "'a::zero vec \<Rightarrow> bool" where
  "vec_isNull v = list_all (\<lambda>i. v ! i = 0) [0..<length v]"

definition vec_eq :: "'a vec \<Rightarrow> 'a vec \<Rightarrow> bool" where
  "vec_eq u v = list_all (\<lambda>i. u ! i = v ! i) [0..<length u]"

definition vec_add :: "'a::plus vec \<Rightarrow> 'a vec \<Rightarrow> 'a vec" where
  "vec_add u v = map (\<lambda>i. u ! i + v ! i) [0..<length u]"

definition vec_sub :: "'a::minus vec \<Rightarrow> 'a vec \<Rightarrow> 'a vec" where
  "vec_sub u v = map (\<lambda>i. u ! i - v ! i) [0..<length u]"

definition vec_neg :: "'a::uminus vec \<Rightarrow> 'a vec" where
  "vec_neg u = map (\<lambda>i. - (u ! i)) [0..<length u]"

text \<open>The dot product, added up in the order of the loop.\<close>

definition vec_dot :: "'a::{zero,plus,times} vec \<Rightarrow> 'a vec \<Rightarrow> 'a" where
  "vec_dot u v = foldl (\<lambda>dot i. dot + u ! i * v ! i) 0 [0..<length u]"

definition vec_scale :: "'a::times vec \<Rightarrow> 'a \<Rightarrow> 'a vec" where
  "vec_scale u s = map (\<lambda>i. u ! i * s) [0..<length u]"

text \<open>\<open>operator/=\<close> gives zeros for a zero divisor, \<open>operator/\<close> multiplies by it.\<close>

definition vec_div_self :: "'a::{zero,divide} vec \<Rightarrow> 'a \<Rightarrow> 'a vec" where
  "vec_div_self u s = (if s = 0 then vec_fill (length u) 0 else map (\<lambda>i. u ! i div s) [0..<length u])"

definition vec_div :: "'a::{zero,times,divide} vec \<Rightarrow> 'a \<Rightarrow> 'a vec" where
  "vec_div u s = (if s = 0 then vec_scale u s else vec_div_self u s)"

definition vec_mag2 :: "'a::{zero,plus,times} vec \<Rightarrow> 'a" where
  "vec_mag2 u = vec_dot u u"

definition vec_mag :: "real vec \<Rightarrow> real" where
  "vec_mag u = sqrt (vec_mag2 u)"

definition vec_norm :: "real vec \<Rightarrow> real vec" where
  "vec_norm u = (let m = vec_mag u in if m = 0 then vec_scale u m else vec_div u m)"

definition vec_norm_self :: "real vec \<Rightarrow> real vec" where
  "vec_norm_self u = (let m = vec_mag u in if m = 0 then vec_scale u m else vec_div_self u m)"

definition vec_limit :: "real \<Rightarrow> real \<Rightarrow> real vec \<Rightarrow> real vec" where
  "vec_limit mn mx u = map (\<lambda>x. if x < mn then mn else if x > mx then mx else x) u"

definition vec_limit_sym :: "real \<Rightarrow> real vec \<Rightarrow> real vec" where
  "vec_limit_sym lm u = vec_limit (- lm) lm u"

definition vec_bound :: "real \<Rightarrow> real vec \<Rightarrow> real vec" where
  "vec_bound sp u = (let dspan = sp * 2 in map (\<lambda>x. x - of_int \<lfloor>x / dspan + 1 / 2\<rfloor> * dspan) u)"

definition vec_cross :: "'a::{times,minus} vec \<Rightarrow> 'a vec \<Rightarrow> 'a vec" where
  "vec_cross a b = [a ! 1 * b ! 2 - a ! 2 * b ! 1, a ! 2 * b ! 0 - a ! 0 * b ! 2, a ! 0 * b ! 1 - a ! 1 * b ! 0]"

text \<open>A part of a vector, and a vector stored into a larger one; outside of it is \<open>None\<close>.\<close>

definition vec_slice :: "nat \<Rightarrow> 'a vec \<Rightarrow> nat \<Rightarrow> 'a vec option" where
  "vec_slice sz v start =
     (if sz = 0 \<or> start + sz \<le> length v then Some (map (\<lambda>i. v ! (i + start)) [0..<sz]) else None)"

definition vec_insert :: "'a vec \<Rightarrow> nat \<Rightarrow> 'a vec \<Rightarrow> 'a vec option" where
  "vec_insert v start inp =
     (if inp = [] \<or> start + length inp \<le> length v
      then Some (fold (\<lambda>i v. v[i + start := inp ! i]) [0..<length inp] v) else None)"

subsection \<open>Matrices\<close>

definition mat_get :: "'a mat \<Rightarrow> nat \<Rightarrow> nat \<Rightarrow> 'a" where
  "mat_get A i j = A ! i ! j"

definition mat_set :: "nat \<Rightarrow> nat \<Rightarrow> 'a \<Rightarrow> 'a mat \<Rightarrow> 'a mat" where
  "mat_set i j x A = A[i := (A ! i)[j := x]]"

definition mat_fill :: "nat \<Rightarrow> nat \<Rightarrow> 'a \<Rightarrow> 'a mat" where
  "mat_fill n m value = map (\<lambda>i. vec_fill m value) [0..<n]"

definition mat_row :: "'a mat \<Rightarrow> nat \<Rightarrow> 'a vec" where
  "mat_row A i = A ! i"

definition mat_col :: "'a mat \<Rightarrow> nat \<Rightarrow> 'a vec" where
  "mat_col A j = map (\<lambda>i. mat_get A i j) [0..<length A]"

definition mat_fill_col :: "nat \<Rightarrow> 'a vec \<Rightarrow> 'a mat \<Rightarrow> 'a mat" where
  "mat_fill_col j v A = fold (\<lambda>i A. mat_set i j (v ! i) A) [0..<length A] A"

text \<open>Filling a block, and storing a smaller matrix into a larger one; outside of it is \<open>None\<close>.\<close>

definition mat_inside :: "nat \<Rightarrow> nat \<Rightarrow> nat \<Rightarrow> nat \<Rightarrow> 'a mat \<Rightarrow> bool" where
  "mat_inside base_n base_m cnt_n cnt_m A \<longleftrightarrow> cnt_n = 0 \<or> cnt_m = 0 \<or>
     (base_n + cnt_n \<le> length A \<and> list_all (\<lambda>i. base_m + cnt_m \<le> length (A ! i)) [base_n..<base_n + cnt_n])"

definition mat_fill_block :: "nat \<Rightarrow> nat \<Rightarrow> nat \<Rightarrow> nat \<Rightarrow> 'a \<Rightarrow> 'a mat \<Rightarrow> 'a mat option" where
  "mat_fill_block base_n base_m cnt_n cnt_m value A =
     (if mat_inside base_n base_m cnt_n cnt_m A
      then let cnt_n = cnt_n + base_n; cnt_m = cnt_m + base_m
           in Some (fold (\<lambda>i A. fold (\<lambda>j A. mat_set i j value A) [base_m..<cnt_m] A) [base_n..<cnt_n] A)
      else None)"

definition mat_fill_matrix :: "nat \<Rightarrow> nat \<Rightarrow> nat \<Rightarrow> nat \<Rightarrow> 'a mat \<Rightarrow> 'a mat \<Rightarrow> 'a mat option" where
  "mat_fill_matrix base_n base_m n2 m2 B A =
     (if mat_inside base_n base_m n2 m2 A
      then Some (fold (\<lambda>i A. fold (\<lambda>j A. mat_set (i + base_n) (j + base_m) (mat_get B i j) A) [0..<m2] A) [0..<n2] A)
      else None)"

definition mat_negate :: "'a::uminus mat \<Rightarrow> 'a mat" where
  "mat_negate A = map vec_neg A"

definition mat_add :: "'a::plus mat \<Rightarrow> 'a mat \<Rightarrow> 'a mat" where
  "mat_add A B = map (\<lambda>i. vec_add (A ! i) (B ! i)) [0..<length A]"

definition mat_sub :: "'a::minus mat \<Rightarrow> 'a mat \<Rightarrow> 'a mat" where
  "mat_sub A B = map (\<lambda>i. vec_sub (A ! i) (B ! i)) [0..<length A]"

definition mat_scale :: "'a::times mat \<Rightarrow> 'a \<Rightarrow> 'a mat" where
  "mat_scale A s = map (\<lambda>r. vec_scale r s) A"

text \<open>\<open>mult\<close> and \<open>mult_T\<close> of matrices with the sizes n, p and m; the result is not one of the arguments.\<close>

definition mat_mult :: "nat \<Rightarrow> nat \<Rightarrow> nat \<Rightarrow> 'a::{zero,plus,times} mat \<Rightarrow> 'a mat \<Rightarrow> 'a mat" where
  "mat_mult n p m A B =
     map (\<lambda>i. map (\<lambda>j. foldl (\<lambda>s k. s + mat_get B k j * mat_get A i k) 0 [0..<p]) [0..<m]) [0..<n]"

definition mat_mult_T :: "nat \<Rightarrow> nat \<Rightarrow> nat \<Rightarrow> 'a::{zero,plus,times} mat \<Rightarrow> 'a mat \<Rightarrow> 'a mat" where
  "mat_mult_T n p m A B =
     map (\<lambda>i. map (\<lambda>j. foldl (\<lambda>s k. s + mat_get B j k * mat_get A i k) 0 [0..<p]) [0..<m]) [0..<n]"

text \<open>\<open>mult_3T\<close>, the product with a square matrix on both sides.\<close>

definition mat_mult_3T :: "nat \<Rightarrow> nat \<Rightarrow> 'a::{zero,plus,times} mat \<Rightarrow> 'a mat \<Rightarrow> 'a mat" where
  "mat_mult_3T n p A B = (let tmp = mat_mult n p p A B in mat_mult_T n p n tmp A)"

definition mat_outer :: "'a::times vec \<Rightarrow> 'a vec \<Rightarrow> 'a mat" where
  "mat_outer a b = map (\<lambda>i. map (\<lambda>j. a ! i * b ! j) [0..<length a]) [0..<length a]"

text \<open>\<open>transposed\<close> reads row \<open>i\<close> of its argument for each row \<open>i\<close> of its own, so the matrix is square.\<close>

definition mat_transposed :: "'a mat \<Rightarrow> 'a mat" where
  "mat_transposed A = map (\<lambda>j. map (\<lambda>i. mat_get A i j) [0..<length A]) [0..<length A]"

definition mat_eye :: "nat \<Rightarrow> nat \<Rightarrow> 'a::zero \<Rightarrow> 'a mat" where
  "mat_eye n m value = map (\<lambda>i. map (\<lambda>j. if i = j then value else 0) [0..<m]) [0..<n]"

definition mat_eye_add :: "'a::plus \<Rightarrow> 'a mat \<Rightarrow> 'a mat" where
  "mat_eye_add value A = fold (\<lambda>i A. mat_set i i (mat_get A i i + value) A) [0..<length A] A"

definition mat_frobenius_norm :: "real mat \<Rightarrow> real" where
  "mat_frobenius_norm A = sqrt (foldl (\<lambda>v i. v + vec_mag2 (A ! i)) 0 [0..<length A])"

text \<open>The product with a vector, for three rows (the result is declared as \<open>Vector<3,T>\<close>).\<close>

definition mat_vec :: "'a::{zero,plus,times} mat \<Rightarrow> 'a vec \<Rightarrow> 'a vec" where
  "mat_vec A b = map (\<lambda>i. vec_dot (A ! i) b) [0..<3]"

text \<open>The factorisation: elimination in place, then the two triangles.\<close>

definition lu_row :: "nat \<Rightarrow> nat \<Rightarrow> nat \<Rightarrow> 'a::{minus,times,divide} mat \<Rightarrow> 'a mat" where
  "lu_row n k i A =
     (let A = mat_set i k (mat_get A i k div mat_get A k k) A
      in fold (\<lambda>j A. mat_set i j (mat_get A i j - mat_get A i k * mat_get A k j) A) [k + 1..<n] A)"

definition lu_step :: "nat \<Rightarrow> nat \<Rightarrow> 'a::{minus,times,divide} mat \<Rightarrow> 'a mat" where
  "lu_step n k A = fold (lu_row n k) [k + 1..<n] A"

definition lu_eliminate :: "nat \<Rightarrow> 'a::{minus,times,divide} mat \<Rightarrow> 'a mat" where
  "lu_eliminate n A = fold (lu_step n) [0..<n - 1] A"

definition lu_lower :: "nat \<Rightarrow> 'a::{zero,one} mat \<Rightarrow> 'a mat" where
  "lu_lower n A =
     fold (\<lambda>j L. fold (\<lambda>i L. mat_set i j (mat_get A i j) L) [j + 1..<n] L) [0..<n - 1] (mat_eye n n 1)"

definition lu_upper :: "nat \<Rightarrow> 'a::zero mat \<Rightarrow> 'a mat" where
  "lu_upper n A =
     fold (\<lambda>i U. fold (\<lambda>j U. mat_set i j (mat_get A i j) U) [i..<n] U) [0..<n] (mat_fill n n 0)"

definition mat_LU :: "nat \<Rightarrow> 'a::{zero,one,minus,times,divide} mat \<Rightarrow> 'a mat \<times> 'a mat \<times> 'a mat" where
  "mat_LU n A = (let A = lu_eliminate n A in (A, lu_lower n A, lu_upper n A))"

subsection \<open>Rotations\<close>

text \<open>Quaternions have the scalar part first.\<close>

definition eulerWx :: "real vec \<Rightarrow> real mat" where
  "eulerWx e = (let p = e ! 0; q = e ! 1; r = e ! 2 in [[0, - r, q], [r, 0, - p], [- q, p, 0]])"

definition quatDC :: "real vec \<Rightarrow> real mat" where
  "quatDC q = (let q0 = q ! 0; q1 = q ! 1; q2 = q ! 2; q3 = q ! 3 in
     [[1 - 2 * (q2 * q2 + q3 * q3), 2 * (q1 * q2 + q0 * q3), 2 * (q1 * q3 - q0 * q2)],
      [2 * (q1 * q2 - q0 * q3), 1 - 2 * (q1 * q1 + q3 * q3), 2 * (q2 * q3 + q0 * q1)],
      [2 * (q1 * q3 + q0 * q2), 2 * (q2 * q3 - q0 * q1), 1 - 2 * (q1 * q1 + q2 * q2)]])"

definition quatDC_T :: "real vec \<Rightarrow> real mat" where
  "quatDC_T q = (let q0 = q ! 0; q1 = q ! 1; q2 = q ! 2; q3 = q ! 3 in
     [[1 - 2 * (q2 * q2 + q3 * q3), 2 * (q1 * q2 - q0 * q3), 2 * (q1 * q3 + q0 * q2)],
      [2 * (q1 * q2 + q0 * q3), 1 - 2 * (q1 * q1 + q3 * q3), 2 * (q2 * q3 - q0 * q1)],
      [2 * (q1 * q3 - q0 * q2), 2 * (q2 * q3 + q0 * q1), 1 - 2 * (q1 * q1 + q2 * q2)]])"

definition Wmtrx :: "real vec \<Rightarrow> real vec \<Rightarrow> real mat" where
  "Wmtrx eps v =
     (let eps2 = vec_dot eps eps;
          eta = (if eps2 \<ge> 1 then 0 else sqrt (1 - eps2));
          W = (if eta \<noteq> 0
               then let tmp = eulerWx (vec_scale v (- 2 / eta)); tmp2 = mat_outer eps eps
                    in mat_mult 3 3 3 tmp tmp2
               else mat_fill 3 3 0);
          W = mat_add W (eulerWx (vec_scale v (2 * eta)));
          W = mat_eye_add (2 * vec_dot v eps) W;
          W = mat_add W (mat_scale (mat_outer eps v) 2);
          W = mat_add W (mat_scale (mat_outer v eps) (- 4))
      in W)"

definition eulerDC :: "real vec \<Rightarrow> real mat" where
  "eulerDC euler = (let phi = euler ! 0; theta = euler ! 1; psi = euler ! 2;
       cpsi = cos psi; cphi = cos phi; ctheta = cos theta; spsi = sin psi; sphi = sin phi; stheta = sin theta in
     [[cpsi * ctheta, spsi * ctheta, - stheta],
      [- spsi * cphi + cpsi * stheta * sphi, cpsi * cphi + spsi * stheta * sphi, ctheta * sphi],
      [spsi * sphi + cpsi * stheta * cphi, - cpsi * sphi + spsi * stheta * cphi, ctheta * cphi]])"

definition quatW :: "real vec \<Rightarrow> real mat" where
  "quatW euler = (let p = euler ! 0 / 2; q = euler ! 1 / 2; r = euler ! 2 / 2 in
     [[0, - p, - q, - r], [p, 0, r, - q], [q, - r, 0, p], [r, q, - p, 0]])"

definition Omega :: "real vec \<Rightarrow> real mat" where
  "Omega w = (let x = w ! 0; y = w ! 1; z = w ! 2 in
     [[0, - x, - y, - z], [x, 0, z, - y], [y, - z, 0, x], [z, y, - x, 0]])"

text \<open>The derivatives of the Euler angles by the quaternion.\<close>

definition dphi_dq :: "real vec \<Rightarrow> real mat \<Rightarrow> real vec" where
  "dphi_dq q DCM = (let q0 = q ! 0; q1 = q ! 1; q2 = q ! 2; q3 = q ! 3;
       dcm22 = mat_get DCM 2 2; dcm12 = mat_get DCM 1 2; err = 2 / (dcm22 * dcm22 + dcm12 * dcm12) in
     [(q1 * dcm22) * err, (q0 * dcm22 + 2 * q1 * dcm12) * err, (q3 * dcm22 + 2 * q2 * dcm12) * err, (q2 * dcm22) * err])"

definition dtheta_dq :: "real vec \<Rightarrow> real mat \<Rightarrow> real vec" where
  "dtheta_dq q DCM = (let q0 = q ! 0; q1 = q ! 1; q2 = q ! 2; q3 = q ! 3;
       dcm02 = mat_get DCM 0 2; err = - 2 / sqrt (1 - dcm02 * dcm02) in
     [- q2 * err, q3 * err, - q0 * err, q1 * err])"

definition dpsi_dq :: "real vec \<Rightarrow> real mat \<Rightarrow> real vec" where
  "dpsi_dq q DCM = (let q0 = q ! 0; q1 = q ! 1; q2 = q ! 2; q3 = q ! 3;
       dcm00 = mat_get DCM 0 0; dcm01 = mat_get DCM 0 1; err = 2 / (dcm00 * dcm00 + dcm01 * dcm01) in
     [err * (q3 * dcm00), err * (q2 * dcm00), err * (q1 * dcm00 + 2 * q2 * dcm01), err * (q0 * dcm00 + 2 * q3 * dcm01)])"

subsection \<open>Quaternions\<close>

definition quat_reset :: "real vec" where
  "quat_reset = [1, 0, 0, 0]"

definition quat_isReset :: "real vec \<Rightarrow> bool" where
  "quat_isReset q \<longleftrightarrow> q ! 0 = 1 \<and> q ! 1 = 0 \<and> q ! 2 = 0 \<and> q ! 3 = 0"

definition quat_axis_angle :: "real vec \<Rightarrow> real \<Rightarrow> real vec" where
  "quat_axis_angle axis angle = (let angle2 = angle / 2; s = sin angle2 in
     [cos angle2, axis ! 0 * s, axis ! 1 * s, axis ! 2 * s])"

definition qbuild :: "real vec \<Rightarrow> real vec" where
  "qbuild eps = (let eps2 = 1 - vec_dot eps eps; eta = (if eps2 \<le> 0 then 0 else sqrt eps2) in
     [eta, eps ! 0, eps ! 1, eps ! 2])"

definition qmult :: "real vec \<Rightarrow> real vec \<Rightarrow> real vec" where
  "qmult p q =
     (let eta1 = p ! 0; eps1 = [p ! 1, p ! 2, p ! 3]; eta2 = q ! 0; eps2 = [q ! 1, q ! 2, q ! 3];
          eta = eta1 * eta2 - vec_dot eps1 eps2;
          eps = vec_add (vec_add (vec_scale eps2 eta1) (vec_scale eps1 eta2)) (vec_cross eps1 eps2)
      in [eta, eps ! 0, eps ! 1, eps ! 2])"

definition quat_conjugate :: "real vec \<Rightarrow> real vec" where
  "quat_conjugate q = [q ! 0, - (q ! 1), - (q ! 2), - (q ! 3)]"

definition quat_normalize :: "real vec \<Rightarrow> real vec" where
  "quat_normalize q = vec_norm_self q"

text \<open>\<open>std::atan2\<close> is the argument of the point.\<close>

definition atan2 :: "real \<Rightarrow> real \<Rightarrow> real" where
  "atan2 y x = Arg (Complex x y)"

definition toEuler :: "real vec \<Rightarrow> real vec" where
  "toEuler q = (let q0 = q ! 0; q1 = q ! 1; q2 = q ! 2; q3 = q ! 3;
       phi = atan2 (2 * (q2 * q3 + q0 * q1)) (1 - 2 * (q1 * q1 + q2 * q2));
       theta = - arcsin (2 * (q1 * q3 - q0 * q2));
       psi = atan2 (2 * (q1 * q2 + q0 * q3)) (1 - 2 * (q2 * q2 + q3 * q3))
     in [phi, theta, psi])"

definition fromEuler :: "real vec \<Rightarrow> real vec" where
  "fromEuler euler = (let phi = euler ! 0 / 2; theta = euler ! 1 / 2; psi = euler ! 2 / 2;
       shphi0 = sin phi; chphi0 = cos phi; shtheta0 = sin theta; chtheta0 = cos theta; shpsi0 = sin psi; chpsi0 = cos psi in
     [chphi0 * chtheta0 * chpsi0 + shphi0 * shtheta0 * shpsi0,
      - chphi0 * shtheta0 * shpsi0 + shphi0 * chtheta0 * chpsi0,
      chphi0 * shtheta0 * chpsi0 + shphi0 * chtheta0 * shpsi0,
      chphi0 * chtheta0 * shpsi0 - shphi0 * shtheta0 * chpsi0])"

subsection \<open>The orders of Euler angles\<close>

text \<open>\<open>EulOrd(i, p, r, f)\<close>: inner axis, parity, repetition of the first axis, and frame.\<close>

definition EulOrd :: "nat \<Rightarrow> nat \<Rightarrow> nat \<Rightarrow> nat \<Rightarrow> nat" where
  "EulOrd i p r f = ((i * 2 + p) * 2 + r) * 2 + f"

definition EulFrmS :: nat where "EulFrmS = 0"
definition EulFrmR :: nat where "EulFrmR = 1"
definition EulRepNo :: nat where "EulRepNo = 0"
definition EulRepYes :: nat where "EulRepYes = 1"
definition EulParEven :: nat where "EulParEven = 0"
definition EulParOdd :: nat where "EulParOdd = 1"

lemmas euler_flags = EulFrmS_def EulFrmR_def EulRepNo_def EulRepYes_def EulParEven_def EulParOdd_def

datatype euler_order = EulOrdXYZs | EulOrdXYXs | EulOrdXZYs | EulOrdXZXs | EulOrdYZXs | EulOrdYZYs
  | EulOrdYXZs | EulOrdYXYs | EulOrdZXYs | EulOrdZXZs | EulOrdZYXs | EulOrdZYZs
  | EulOrdZYXr | EulOrdXYXr | EulOrdYZXr | EulOrdXZXr | EulOrdXZYr | EulOrdYZYr
  | EulOrdZXYr | EulOrdYXYr | EulOrdYXZr | EulOrdZXZr | EulOrdXYZr | EulOrdZYZr

fun euler_code :: "euler_order \<Rightarrow> nat" where
  "euler_code EulOrdXYZs = EulOrd 0 EulParEven EulRepNo EulFrmS"
| "euler_code EulOrdXYXs = EulOrd 0 EulParEven EulRepYes EulFrmS"
| "euler_code EulOrdXZYs = EulOrd 0 EulParOdd EulRepNo EulFrmS"
| "euler_code EulOrdXZXs = EulOrd 0 EulParOdd EulRepYes EulFrmS"
| "euler_code EulOrdYZXs = EulOrd 1 EulParEven EulRepNo EulFrmS"
| "euler_code EulOrdYZYs = EulOrd 1 EulParEven EulRepYes EulFrmS"
| "euler_code EulOrdYXZs = EulOrd 1 EulParOdd EulRepNo EulFrmS"
| "euler_code EulOrdYXYs = EulOrd 1 EulParOdd EulRepYes EulFrmS"
| "euler_code EulOrdZXYs = EulOrd 2 EulParEven EulRepNo EulFrmS"
| "euler_code EulOrdZXZs = EulOrd 2 EulParEven EulRepYes EulFrmS"
| "euler_code EulOrdZYXs = EulOrd 2 EulParOdd EulRepNo EulFrmS"
| "euler_code EulOrdZYZs = EulOrd 2 EulParOdd EulRepYes EulFrmS"
| "euler_code EulOrdZYXr = EulOrd 0 EulParEven EulRepNo EulFrmR"
| "euler_code EulOrdXYXr = EulOrd 0 EulParEven EulRepYes EulFrmR"
| "euler_code EulOrdYZXr = EulOrd 0 EulParOdd EulRepNo EulFrmR"
| "euler_code EulOrdXZXr = EulOrd 0 EulParOdd EulRepYes EulFrmR"
| "euler_code EulOrdXZYr = EulOrd 1 EulParEven EulRepNo EulFrmR"
| "euler_code EulOrdYZYr = EulOrd 1 EulParEven EulRepYes EulFrmR"
| "euler_code EulOrdZXYr = EulOrd 1 EulParOdd EulRepNo EulFrmR"
| "euler_code EulOrdYXYr = EulOrd 1 EulParOdd EulRepYes EulFrmR"
| "euler_code EulOrdYXZr = EulOrd 2 EulParEven EulRepNo EulFrmR"
| "euler_code EulOrdZXZr = EulOrd 2 EulParEven EulRepYes EulFrmR"
| "euler_code EulOrdXYZr = EulOrd 2 EulParOdd EulRepNo EulFrmR"
| "euler_code EulOrdZYZr = EulOrd 2 EulParOdd EulRepYes EulFrmR"

definition EulSafe :: "nat list" where "EulSafe = [0, 1, 2, 0]"
definition EulNext :: "nat list" where "EulNext = [1, 2, 0, 1]"

text \<open>\<open>EulGetOrd\<close>: the axes \<open>i\<close>, \<open>j\<close>, \<open>k\<close> and the flags \<open>n\<close> (parity), \<open>s\<close>, \<open>f\<close> (\<open>h\<close> is not used).\<close>

definition EulGetOrd :: "nat \<Rightarrow> nat \<times> nat \<times> nat \<times> nat \<times> nat \<times> nat" where
  "EulGetOrd ord =
     (let f = ord mod 2; s = ord div 2 mod 2; n = ord div 4 mod 2; i = EulSafe ! (ord div 8 mod 4)
      in (i, EulNext ! (i + n), EulNext ! (i + 1 - n), n, s, f))"

text \<open>\<open>HMatrix\<close> of a quaternion, and of Euler angles.  Its first argument is what it held before.\<close>

definition mat_sets :: "(nat \<times> nat \<times> 'a) list \<Rightarrow> 'a mat \<Rightarrow> 'a mat" where
  "mat_sets xs A = fold (\<lambda>(i, j, x). mat_set i j x) xs A"

definition quat2HMatrix :: "real mat \<Rightarrow> real vec \<Rightarrow> real mat" where
  "quat2HMatrix H q =
     (let Nq = q ! 1 * q ! 1 + q ! 2 * q ! 2 + q ! 3 * q ! 3 + q ! 0 * q ! 0;
          s = (if Nq > 0 then 2 / Nq else 0);
          xs = q ! 1 * s; ys = q ! 2 * s; zs = q ! 3 * s;
          wx = q ! 0 * xs; wy = q ! 0 * ys; wz = q ! 0 * zs;
          xx = q ! 1 * xs; xy = q ! 1 * ys; xz = q ! 1 * zs;
          yy = q ! 2 * ys; yz = q ! 2 * zs; zz = q ! 3 * zs
      in mat_sets
           [(0, 0, 1 - (yy + zz)), (0, 1, xy - wz), (0, 2, xz + wy),
            (1, 0, xy + wz), (1, 1, 1 - (xx + zz)), (1, 2, yz - wx),
            (2, 0, xz - wy), (2, 1, yz + wx), (2, 2, 1 - (xx + yy)),
            (3, 0, 0), (3, 1, 0), (3, 2, 0), (0, 3, 0), (1, 3, 0), (2, 3, 0), (3, 3, 1)] H)"

definition euler_swap :: "nat \<Rightarrow> real vec \<Rightarrow> real vec" where
  "euler_swap f e = (if f = EulFrmR then [e ! 2, e ! 1, e ! 0] else e)"

definition euler2HMatrix :: "real mat \<Rightarrow> real vec \<Rightarrow> nat \<Rightarrow> real mat" where
  "euler2HMatrix H euler ord =
     (let (i, j, k, n, s, f) = EulGetOrd ord;
          euler = euler_swap f euler;
          euler = (if n = EulParOdd then [- (euler ! 0), - (euler ! 1), - (euler ! 2)] else euler);
          ti = euler ! 0; tj = euler ! 1; th = euler ! 2;
          ci = cos ti; cj = cos tj; ch = cos th; si = sin ti; sj = sin tj; sh = sin th;
          cc = ci * ch; cs = ci * sh; sc = si * ch; ss = si * sh;
          H = (if s = EulRepYes then mat_sets
                 [(i, i, cj), (i, j, sj * si), (i, k, sj * ci),
                  (j, i, sj * sh), (j, j, - cj * ss + cc), (j, k, - cj * cs - sc),
                  (k, i, - sj * ch), (k, j, cj * sc + cs), (k, k, cj * cc - ss)] H
               else mat_sets
                 [(i, i, cj * ch), (i, j, sj * sc - cs), (i, k, sj * cc + ss),
                  (j, i, cj * sh), (j, j, sj * ss + cc), (j, k, sj * cs - sc),
                  (k, i, - sj), (k, j, cj * si), (k, k, cj * ci)] H)
      in mat_sets [(3, 0, 0), (3, 1, 0), (3, 2, 0), (0, 3, 0), (1, 3, 0), (2, 3, 0), (3, 3, 1)] H)"

definition FLT_EPSILON :: real where
  "FLT_EPSILON = 1 / 2 ^ 23"

definition HMatrix2euler :: "real mat \<Rightarrow> nat \<Rightarrow> real vec" where
  "HMatrix2euler H ord =
     (let (i, j, k, n, s, f) = EulGetOrd ord;
          h = mat_get H;
          euler =
            (if s = EulRepYes then
               let sy = sqrt (h i j * h i j + h i k * h i k)
               in if sy > 16 * FLT_EPSILON then [atan2 (h i j) (h i k), atan2 sy (h i i), atan2 (h j i) (- h k i)]
                  else [atan2 (- h j k) (h j j), atan2 sy (h i i), 0]
             else
               let cy = sqrt (h i i * h i i + h j i * h j i)
               in if cy > 16 * FLT_EPSILON then [atan2 (h k j) (h k k), atan2 (- h k i) cy, atan2 (h j i) (h i i)]
                  else [atan2 (- h j k) (h j j), atan2 (- h k i) cy, 0]);
          euler = (if n = EulParOdd then [- (euler ! 0), - (euler ! 1), - (euler ! 2)] else euler)
      in euler_swap f euler)"

text \<open>\<open>toEuler(order)\<close> leaves the matrix of the quaternion in \<open>HMatrix\<close>.\<close>

definition toEuler_order :: "real mat \<Rightarrow> real vec \<Rightarrow> nat \<Rightarrow> real vec \<times> real mat" where
  "toEuler_order H q ord = (let H = quat2HMatrix H q in (HMatrix2euler H ord, H))"

text \<open>\<open>a\<close> points to the vector part: \<open>a[i]\<close> is element \<open>i + 1\<close>.\<close>

definition fromEuler_order :: "real vec \<Rightarrow> real vec \<Rightarrow> nat \<Rightarrow> real vec" where
  "fromEuler_order q euler ord =
     (let (i, j, k, n, s, f) = EulGetOrd ord;
          euler = euler_swap f euler;
          euler = (if n = EulParOdd then euler[1 := - (euler ! 1)] else euler);
          ti = euler ! 0 * (1 / 2); tj = euler ! 1 * (1 / 2); th = euler ! 2 * (1 / 2);
          ci = cos ti; cj = cos tj; ch = cos th; si = sin ti; sj = sin tj; sh = sin th;
          cc = ci * ch; cs = ci * sh; sc = si * ch; ss = si * sh;
          q = (if s = EulRepYes
               then q[i + 1 := cj * (cs + sc), j + 1 := sj * (cc + ss), k + 1 := sj * (cs - sc), 0 := cj * (cc - ss)]
               else q[i + 1 := cj * sc - sj * cs, j + 1 := cj * ss + sj * cc, k + 1 := cj * cs - sj * sc, 0 := cj * cc + sj * ss])
      in if n = EulParOdd then q[j + 1 := - (q ! (j + 1))] else q)"

end
