(* ===== verification/Matrix_Laws.thy ===== *)
theory Matrix_Laws
  imports Matrix_Math
begin

text \<open>
  Matrices: products as sums, and the factorisation into triangles.
\<close>

subsection \<open>Elements\<close>

definition sized :: "nat \<Rightarrow> nat \<Rightarrow> 'a mat \<Rightarrow> bool" where
  "sized n m A \<longleftrightarrow> length A = n \<and> (\<forall>i<n. length (A ! i) = m)"

lemma mat_eqI:
  assumes "sized n m A" "sized n m B" "\<And>i j. i < n \<Longrightarrow> j < m \<Longrightarrow> mat_get A i j = mat_get B i j"
  shows "A = B"
  using assms by (intro nth_equalityI) (auto simp: sized_def mat_get_def)

lemma sized_set [simp]: "sized n m A \<Longrightarrow> sized n m (mat_set i j x A)"
  by (cases "i < length A") (auto simp: sized_def mat_set_def nth_list_update list_update_beyond)

lemma get_set:
  assumes "sized n m A" "i < n" "j < m"
  shows "mat_get (mat_set i j x A) a b = (if a = i \<and> b = j then x else mat_get A a b)"
  using assms by (auto simp: sized_def mat_set_def mat_get_def nth_list_update)

lemma foldl_sum: "foldl (\<lambda>s k. s + f k) (0 :: 'a::comm_monoid_add) [0..<n] = (\<Sum>k<n. f k)"
  by (induction n) (simp_all add: lessThan_Suc add.commute)

lemma get_map: "i < n \<Longrightarrow> j < m \<Longrightarrow> mat_get (map (\<lambda>i. map (f i) [0..<m]) [0..<n]) i j = f i j"
  by (simp add: mat_get_def)

lemma sized_map: "sized n m (map (\<lambda>i. map (f i) [0..<m]) [0..<n])"
  by (simp add: sized_def)

lemma sized_mult [simp]: "sized n m (mat_mult n p m A B)" "sized n m (mat_mult_T n p m A B)"
  by (simp_all add: mat_mult_def mat_mult_T_def sized_map)

lemma get_mult:
  fixes A :: "'a::comm_ring_1 mat"
  assumes "i < n" "j < m"
  shows "mat_get (mat_mult n p m A B) i j = (\<Sum>k<p. mat_get A i k * mat_get B k j)"
    "mat_get (mat_mult_T n p m A C) i j = (\<Sum>k<p. mat_get A i k * mat_get C j k)"
  using assms by (simp_all add: mat_mult_def mat_mult_T_def get_map foldl_sum mult.commute)

lemma get_eye: "i < n \<Longrightarrow> j < m \<Longrightarrow> mat_get (mat_eye n m v) i j = (if i = j then v else 0)"
  by (simp add: mat_eye_def get_map)

lemma sized_eye [simp]: "sized n m (mat_eye n m v)"
  by (simp add: mat_eye_def sized_map)

lemma sized_fill [simp]: "sized n m (mat_fill n m v)"
  by (simp add: mat_fill_def vec_fill_def sized_def)

lemma get_fill: "i < n \<Longrightarrow> j < m \<Longrightarrow> mat_get (mat_fill n m v) i j = v"
  by (simp add: mat_fill_def vec_fill_def mat_get_def)

subsection \<open>Elimination\<close>

lemma lu_row_loop:
  fixes A :: "'a::field mat"
  assumes "sized n n A" "k < i" "i < n" "l \<le> n"
  shows "let X = fold (\<lambda>j A. mat_set i j (mat_get A i j - mat_get A i k * mat_get A k j) A) [k + 1..<l] A
    in sized n n X \<and> (\<forall>a b. mat_get X a b =
      (if a = i \<and> k < b \<and> b < l then mat_get A i b - mat_get A i k * mat_get A k b else mat_get A a b))"
  using assms(4)
proof (induction l)
  case (Suc l)
  show ?case
  proof (cases "k < l")
    case True
    define X where "X = fold (\<lambda>j A. mat_set i j (mat_get A i j - mat_get A i k * mat_get A k j) A) [k + 1..<l] A"
    have X: "sized n n X" "\<And>a b. mat_get X a b =
      (if a = i \<and> k < b \<and> b < l then mat_get A i b - mat_get A i k * mat_get A k b else mat_get A a b)"
      using Suc unfolding X_def by (simp_all only: Let_def Suc_leD)
    have "[k + 1..<Suc l] = [k + 1..<l] @ [l]" using True by simp
    then have "fold (\<lambda>j A. mat_set i j (mat_get A i j - mat_get A i k * mat_get A k j) A) [k + 1..<Suc l] A =
        mat_set i l (mat_get X i l - mat_get X i k * mat_get X k l) X"
      by (simp only: fold_append o_apply fold.simps X_def id_apply)
    also have "\<dots> = mat_set i l (mat_get A i l - mat_get A i k * mat_get A k l) X" using assms(2) by (simp add: X(2))
    finally have Y: "fold (\<lambda>j A. mat_set i j (mat_get A i j - mat_get A i k * mat_get A k j) A) [k + 1..<Suc l] A =
        mat_set i l (mat_get A i l - mat_get A i k * mat_get A k l) X" .
    have "l < n" using Suc.prems by simp
    then show ?thesis
      unfolding Let_def Y using True by (auto simp: X(1) get_set [OF X(1) assms(3)] X(2))
  next
    case False
    then have "[k + 1..<Suc l] = []" by simp
    moreover have "\<not> (k < b \<and> b < Suc l)" for b using False by simp
    ultimately show ?thesis using assms(1) by (simp only: fold.simps id_apply Let_def simp_thms if_False)
  qed
qed (use assms in simp)

lemma lu_row_spec:
  fixes A :: "'a::field mat"
  assumes "sized n n A" "k < i" "i < n"
  shows "sized n n (lu_row n k i A) \<and> (\<forall>a b. b < n \<longrightarrow> mat_get (lu_row n k i A) a b =
      (if a = i \<and> b = k then mat_get A i k / mat_get A k k
       else if a = i \<and> k < b then mat_get A i b - mat_get A i k / mat_get A k k * mat_get A k b
       else mat_get A a b))"
proof -
  let ?B = "mat_set i k (mat_get A i k div mat_get A k k) A"
  have "k < n" using assms by simp
  then have "sized n n ?B" "\<And>a b. mat_get ?B a b = (if a = i \<and> b = k then mat_get A i k / mat_get A k k else mat_get A a b)"
    using get_set [OF assms(1,3)] assms(1) by simp_all
  then show ?thesis
    using lu_row_loop [of n ?B k i n] assms by (auto simp: lu_row_def Let_def)
qed

lemma lu_step_spec:
  fixes A :: "'a::field mat"
  assumes "sized n n A" "k < n"
  shows "sized n n (lu_step n k A) \<and> (\<forall>a<n. \<forall>b<n. mat_get (lu_step n k A) a b =
      (if k < a \<and> b = k then mat_get A a k / mat_get A k k
       else if k < a \<and> k < b then mat_get A a b - mat_get A a k / mat_get A k k * mat_get A k b
       else mat_get A a b))"
proof -
  have "sized n n (fold (lu_row n k) [k + 1..<l] A) \<and> (\<forall>a<n. \<forall>b<n. mat_get (fold (lu_row n k) [k + 1..<l] A) a b =
      (if k < a \<and> a < l \<and> b = k then mat_get A a k / mat_get A k k
       else if k < a \<and> a < l \<and> k < b then mat_get A a b - mat_get A a k / mat_get A k k * mat_get A k b
       else mat_get A a b))" if "l \<le> n" for l
    using that
  proof (induction l)
    case (Suc l)
    show ?case
    proof (cases "k < l")
      case True
      let ?X = "fold (lu_row n k) [k + 1..<l] A"
      have "[k + 1..<Suc l] = [k + 1..<l] @ [l]" using True by simp
      moreover have "l < n" using Suc.prems by simp
      moreover have "sized n n ?X" using Suc by simp
      ultimately show ?thesis
        using lu_row_spec [of n ?X k l] Suc True assms(2) by (auto simp: less_Suc_eq)
    qed (use assms in auto)
  qed (use assms in simp)
  then show ?thesis unfolding lu_step_def by simp
qed

text \<open>Every element after \<open>K\<close> steps: what is left of it, divided by the pivot left of the diagonal.\<close>

definition reduced :: "nat \<Rightarrow> 'a::field mat \<Rightarrow> nat \<Rightarrow> 'a mat \<Rightarrow> bool" where
  "reduced n A K X \<longleftrightarrow> sized n n X \<and> (\<forall>i<n. \<forall>j<n. mat_get X i j =
     (if j < i \<and> j < K then (mat_get A i j - (\<Sum>k<j. mat_get X i k * mat_get X k j)) / mat_get X j j
      else mat_get A i j - (\<Sum>k<min (min i j) K. mat_get X i k * mat_get X k j)))"

lemma reduced_step:
  assumes "reduced n A K X" "K + 1 < n"
  shows "reduced n A (K + 1) (lu_step n K X)"
proof -
  let ?Y = "lu_step n K X"
  have X: "sized n n X" using assms(1) by (simp add: reduced_def)
  have Y: "sized n n ?Y" "\<And>a b. a < n \<Longrightarrow> b < n \<Longrightarrow> mat_get ?Y a b =
      (if K < a \<and> b = K then mat_get X a K / mat_get X K K
       else if K < a \<and> K < b then mat_get X a b - mat_get X a K / mat_get X K K * mat_get X K b
       else mat_get X a b)"
    using lu_step_spec [OF X, of K] assms(2) by simp_all
  have inv: "mat_get X i j = (if j < i \<and> j < K then (mat_get A i j - (\<Sum>k<j. mat_get X i k * mat_get X k j)) / mat_get X j j
      else mat_get A i j - (\<Sum>k<min (min i j) K. mat_get X i k * mat_get X k j))" if "i < n" "j < n" for i j
    using assms(1) that by (simp add: reduced_def)
  have sums: "(\<Sum>k<m. mat_get ?Y i k * mat_get ?Y k j) = (\<Sum>k<m. mat_get X i k * mat_get X k j)"
    if "i < n" "j < n" "m \<le> K" for i j m
    using that assms(2) by (intro sum.cong refl) (simp add: Y(2))
  have "mat_get ?Y i j =
     (if j < i \<and> j < K + 1 then (mat_get A i j - (\<Sum>k<j. mat_get ?Y i k * mat_get ?Y k j)) / mat_get ?Y j j
      else mat_get A i j - (\<Sum>k<min (min i j) (K + 1). mat_get ?Y i k * mat_get ?Y k j))" if ij: "i < n" "j < n" for i j
  proof -
    consider (low) "j < i" "j < K" | (up) "i \<le> j" "i \<le> K" | (col) "K < i" "j = K" | (rest) "K < i" "K < j" by linarith
    then show ?thesis
    proof cases
      case low
      then have "mat_get ?Y i j = mat_get X i j" "mat_get ?Y j j = mat_get X j j" using ij by (simp_all add: Y(2))
      then show ?thesis using low inv [OF ij] sums [OF ij, of j] by simp
    next
      case up
      then have "min (min i j) (K + 1) = i" "min (min i j) K = i" by simp_all
      moreover have "mat_get ?Y i j = mat_get X i j" using up ij by (simp add: Y(2))
      ultimately show ?thesis using up inv [OF ij] sums [OF ij, of i] by simp
    next
      case col
      then have "mat_get ?Y i j = mat_get X i K / mat_get X K K" "mat_get ?Y K K = mat_get X K K" using ij by (simp_all add: Y(2))
      then show ?thesis using col inv [OF ij] sums [OF ij, of K] by simp
    next
      case rest
      then have m: "min (min i j) (K + 1) = Suc K" "\<not> (j < i \<and> j < K + 1)" "min (min i j) K = K" "\<not> (j < i \<and> j < K)"
        by simp_all
      have "mat_get ?Y i j = mat_get X i j - mat_get ?Y i K * mat_get ?Y K j"
        using rest ij assms(2) by (simp add: Y(2))
      also have "mat_get X i j = mat_get A i j - (\<Sum>k<K. mat_get ?Y i k * mat_get ?Y k j)"
        by (simp only: inv [OF ij] m if_False sums [OF ij order_refl])
      also have "mat_get A i j - (\<Sum>k<K. mat_get ?Y i k * mat_get ?Y k j) - mat_get ?Y i K * mat_get ?Y K j =
          mat_get A i j - (\<Sum>k<Suc K. mat_get ?Y i k * mat_get ?Y k j)"
        by (simp only: sum.lessThan_Suc diff_diff_eq)
      finally show ?thesis by (simp only: m if_False)
    qed
  qed
  then show ?thesis unfolding reduced_def using Y(1) by blast
qed

lemma reduced_eliminate:
  assumes "sized n n A" "n > 0"
  shows "reduced n A (n - 1) (lu_eliminate n A)"
proof -
  have "reduced n A K (fold (lu_step n) [0..<K] A)" if "K < n" for K
    using that
  proof (induction K)
    case 0
    have "fold (lu_step n) [0..<0] A = A" by simp
    then show ?case using assms(1) by (simp only: reduced_def) simp
  next
    case (Suc K)
    then show ?case using reduced_step [of n A K] by simp
  qed
  then show ?thesis using assms(2) by (simp add: lu_eliminate_def)
qed

subsection \<open>The triangles\<close>

text \<open>Stores of a fixed matrix's elements, whatever the order.\<close>

lemma fold_stores:
  assumes "sized n m M" "\<forall>(i, j)\<in>set ps. i < n \<and> j < m"
  shows "sized n m (fold (\<lambda>(i, j). mat_set i j (g i j)) ps M) \<and>
    (\<forall>a b. mat_get (fold (\<lambda>(i, j). mat_set i j (g i j)) ps M) a b = (if (a, b) \<in> set ps then g a b else mat_get M a b))"
  using assms
proof (induction ps arbitrary: M)
  case (Cons p ps)
  obtain i j where p: "p = (i, j)" by fastforce
  have ij: "i < n" "j < m" using Cons.prems(2) p by simp_all
  have "sized n m (mat_set i j (g i j) M)" using Cons.prems(1) by simp
  then show ?case
    using Cons.IH [of "mat_set i j (g i j) M"] Cons.prems get_set [OF Cons.prems(1) ij] p by auto
qed simp

lemma fold_nested: "fold (\<lambda>x. fold (f x) (ys x)) xs M = fold (\<lambda>(x, y). f x y) (concat (map (\<lambda>x. map (Pair x) (ys x)) xs)) M"
proof (induction xs arbitrary: M)
  case (Cons x xs)
  have "fold (\<lambda>(x, y). f x y) (map (Pair x) zs) N = fold (f x) zs N" for zs N
    by (induction zs arbitrary: N) simp_all
  then show ?case using Cons by simp
qed simp

lemma lu_upper_spec:
  assumes "i < n" "j < n"
  shows "sized n n (lu_upper n A)" "mat_get (lu_upper n A) i j = (if i \<le> j then mat_get A i j else 0)"
proof -
  define ps where "ps = concat (map (\<lambda>i. map (Pair i) [i..<n]) [0..<n])"
  have *: "lu_upper n A = fold (\<lambda>(i, j). mat_set i j (mat_get A i j)) ps (mat_fill n n 0)"
    unfolding lu_upper_def ps_def by (rule fold_nested)
  have ps: "(a, b) \<in> set ps \<longleftrightarrow> a \<le> b \<and> b < n" for a b by (auto simp: ps_def image_iff)
  have "\<forall>(i, j)\<in>set ps. i < n \<and> j < n" by (auto simp: ps)
  note stores = fold_stores [of n n "mat_fill n n 0" ps "mat_get A", OF sized_fill this]
  show "sized n n (lu_upper n A)" using stores unfolding * by blast
  show "mat_get (lu_upper n A) i j = (if i \<le> j then mat_get A i j else 0)"
    using stores assms by (simp add: * ps get_fill)
qed

lemma lu_lower_spec:
  assumes "i < n" "j < n"
  shows "sized n n (lu_lower n A)"
    "mat_get (lu_lower n A) i j = (if j < i then mat_get A i j else if i = j then 1 else 0)"
proof -
  define qs where "qs = concat (map (\<lambda>j. map (Pair j) [j + 1..<n]) [0..<n - 1])"
  define ps where "ps = map prod.swap qs"
  have "lu_lower n A = fold (\<lambda>(j, i). mat_set i j (mat_get A i j)) qs (mat_eye n n 1)"
    unfolding lu_lower_def qs_def by (rule fold_nested)
  then have *: "lu_lower n A = fold (\<lambda>(i, j). mat_set i j (mat_get A i j)) ps (mat_eye n n 1)"
    by (simp add: ps_def fold_map o_def case_prod_unfold)
  have "(b, a) \<in> set qs \<longleftrightarrow> b < a \<and> a < n" for a b by (auto simp: qs_def image_iff)
  then have ps: "(a, b) \<in> set ps \<longleftrightarrow> b < a \<and> a < n" for a b by (force simp: ps_def)
  have "\<forall>(i, j)\<in>set ps. i < n \<and> j < n" by (auto simp: ps)
  note stores = fold_stores [of n n "mat_eye n n 1" ps "mat_get A", OF sized_eye this]
  show "sized n n (lu_lower n A)" using stores unfolding * by blast
  show "mat_get (lu_lower n A) i j = (if j < i then mat_get A i j else if i = j then 1 else 0)"
    using stores assms by (simp add: * ps get_eye)
qed

lemma sum_split_lower:
  fixes X :: "nat \<Rightarrow> 'a::comm_ring_1"
  assumes "m < n"
  shows "(\<Sum>k<n. if k < m then X k else if k = m then Y else 0) = (\<Sum>k<m. X k) + Y"
proof -
  have "(\<Sum>k<n. if k < m then X k else if k = m then Y else 0) = (\<Sum>k\<in>{..<Suc m}. if k < m then X k else if k = m then Y else 0)"
    using assms by (intro sum.mono_neutral_right) auto
  also have "\<dots> = (\<Sum>k<m. X k) + Y" by (simp add: sum.lessThan_Suc)
  finally show ?thesis .
qed

lemma mat_get_LU:
  fixes A :: "'a::field mat"
  assumes X: "reduced n A (n - 1) X" and piv: "\<forall>k<n - 1. mat_get X k k \<noteq> 0" and ij: "i < n" "j < n"
  shows "(\<Sum>k<n. mat_get (lu_lower n X) i k * mat_get (lu_upper n X) k j) = mat_get A i j"
proof -
  have inv: "mat_get X i j = (if j < i \<and> j < n - 1 then (mat_get A i j - (\<Sum>k<j. mat_get X i k * mat_get X k j)) / mat_get X j j
      else mat_get A i j - (\<Sum>k<min (min i j) (n - 1). mat_get X i k * mat_get X k j))"
    using X ij unfolding reduced_def by blast
  show ?thesis
  proof (cases "j < i")
    case True
    then have j: "j < n - 1" using ij by simp
    have "(\<Sum>k<n. mat_get (lu_lower n X) i k * mat_get (lu_upper n X) k j) =
        (\<Sum>k<n. if k < j then mat_get X i k * mat_get X k j else if k = j then mat_get X i j * mat_get X j j else 0)"
      using True ij by (intro sum.cong refl) (auto simp: lu_lower_spec lu_upper_spec)
    also have "\<dots> = (\<Sum>k<j. mat_get X i k * mat_get X k j) + mat_get X i j * mat_get X j j"
      by (rule sum_split_lower [OF ij(2)])
    also have "mat_get X i j * mat_get X j j = mat_get A i j - (\<Sum>k<j. mat_get X i k * mat_get X k j)"
    proof -
      have "mat_get X i j = (mat_get A i j - (\<Sum>k<j. mat_get X i k * mat_get X k j)) / mat_get X j j"
        by (subst inv) (simp only: True j if_True simp_thms)
      then show ?thesis using piv j by (metis nonzero_mult_div_cancel_right nonzero_eq_divide_eq)
    qed
    finally show ?thesis by simp
  next
    case False
    then have m: "min (min i j) (n - 1) = i" using ij by simp
    have "(\<Sum>k<n. mat_get (lu_lower n X) i k * mat_get (lu_upper n X) k j) =
        (\<Sum>k<n. if k < i then mat_get X i k * mat_get X k j else if k = i then mat_get X i j else 0)"
      using False ij by (intro sum.cong refl) (auto simp: lu_lower_spec lu_upper_spec)
    also have "\<dots> = (\<Sum>k<i. mat_get X i k * mat_get X k j) + mat_get X i j"
      by (rule sum_split_lower [OF ij(1)])
    also have "mat_get X i j = mat_get A i j - (\<Sum>k<i. mat_get X i k * mat_get X k j)"
      by (subst inv) (simp only: False m if_False simp_thms)
    finally show ?thesis by simp
  qed
qed

text \<open>
  C33: over a field, \<open>LU\<close> of a square matrix gives a lower triangle with ones on its diagonal and an
  upper triangle whose product is the matrix, provided that no pivot but the last is zero (there is
  no pivoting: a zero is divided by).
\<close>

theorem LU_correct:
  fixes A :: "'a::field mat"
  assumes "sized n n A" "mat_LU n A = (F, L, U)" "\<forall>k<n - 1. mat_get U k k \<noteq> 0"
  shows "mat_mult n n n L U = A \<and> sized n n L \<and> sized n n U \<and>
    (\<forall>i<n. mat_get L i i = 1 \<and> (\<forall>j<n. (i < j \<longrightarrow> mat_get L i j = 0) \<and> (j < i \<longrightarrow> mat_get U i j = 0)))"
proof (cases "n = 0")
  case True
  then show ?thesis
    using assms by (auto simp: mat_mult_def sized_def mat_LU_def lu_lower_def lu_upper_def mat_eye_def mat_fill_def)
next
  case False
  let ?X = "lu_eliminate n A"
  have F: "L = lu_lower n ?X" "U = lu_upper n ?X" using assms(2) by (auto simp: mat_LU_def Let_def)
  have X: "reduced n A (n - 1) ?X" by (rule reduced_eliminate [OF assms(1)]) (use False in simp)
  have piv: "\<forall>k<n - 1. mat_get ?X k k \<noteq> 0"
    using assms(3) by (auto simp: F lu_upper_spec)
  have "mat_mult n n n L U = A"
    by (rule mat_eqI [OF _ assms(1)]) (simp_all add: get_mult F mat_get_LU [OF X piv])
  moreover have "sized n n L" "sized n n U" using False unfolding F by (auto intro!: lu_lower_spec(1) lu_upper_spec(1))
  ultimately show ?thesis by (simp add: F lu_lower_spec lu_upper_spec)
qed

lemma LU_correct_witness:
  "mat_mult 2 2 2 (fst (snd (mat_LU 2 [[2, 1], [4, 5 :: rat]]))) (snd (snd (mat_LU 2 [[2, 1], [4, 5]]))) = [[2, 1], [4, 5]]"
proof -
  let ?A = "[[2, 1], [4, 5 :: rat]]"
  obtain F L U where lu: "mat_LU 2 ?A = (F, L, U)" by (metis prod_cases3)
  have u: "[0..<2] = [0, 1 :: nat]" "[Suc 0..<2] = [Suc 0]" "[0..<Suc 0] = [0]" by (simp_all add: upt_rec)
  have "lu_eliminate 2 ?A = lu_row 2 0 1 ?A" by (simp add: lu_eliminate_def lu_step_def u)
  also have "\<dots> = [[2, 1], [2, 3]]" by (simp add: lu_row_def u mat_set_def mat_get_def)
  finally have "lu_upper 2 (lu_eliminate 2 ?A) = [[2, 1], [0, 3]]"
    by (simp add: lu_upper_def u mat_set_def mat_get_def mat_fill_def vec_fill_def numeral_2_eq_2)
  then have "U = [[2, 1], [0, 3]]" using lu unfolding mat_LU_def Let_def by blast
  then have piv: "\<forall>k<2 - 1. mat_get U k k \<noteq> 0" by (simp add: mat_get_def)
  have "sized 2 2 ?A" by (simp add: sized_def less_2_cases_iff)
  from LU_correct [OF this lu piv] have "mat_mult 2 2 2 L U = ?A" by blast
  then show ?thesis by (simp only: lu fst_conv snd_conv)
qed

end
