(* ===== verification/Attitude.thy ===== *)
theory Attitude
  imports Matrix_Laws
begin

text \<open>
  Quaternions, direction cosine matrices and the aerospace Euler angles.
\<close>

subsection \<open>Components\<close>

lemma upt_small: "[0..<3] = [0, 1, 2 :: nat]" "[0..<4] = [0, 1, 2, 3 :: nat]"
  by (simp_all add: numeral_3_eq_3 numeral_eq_Suc)

lemma list_of_3: "length v = 3 \<Longrightarrow> \<exists>a b c. v = [a, b, c]"
  by (auto simp: numeral_3_eq_3 length_Suc_conv)

lemma list_of_4: "length v = 4 \<Longrightarrow> \<exists>a b c d. v = [a, b, c, d]"
  by (auto simp: numeral_eq_Suc length_Suc_conv)

lemmas vec_ops = vec_add_def vec_sub_def vec_scale_def vec_dot_def vec_cross_def vec_mag2_def vec_neg_def
lemmas mat_ops = mat_mult_def mat_mult_T_def mat_get_def mat_eye_def mat_transposed_def mat_add_def mat_scale_def
  mat_outer_def mat_eye_add_def mat_set_def mat_fill_def vec_fill_def mat_vec_def upt_small

lemma quat_parts [simp]:
  "quatDC [a, b, c, d] =
     [[1 - 2 * (c * c + d * d), 2 * (b * c + a * d), 2 * (b * d - a * c)],
      [2 * (b * c - a * d), 1 - 2 * (b * b + d * d), 2 * (c * d + a * b)],
      [2 * (b * d + a * c), 2 * (c * d - a * b), 1 - 2 * (b * b + c * c)]]"
  "vec_mag2 [a, b, c, d :: real] = a * a + b * b + c * c + d * d"
  "qmult [a, b, c, d] [e, f, g, h] =
     [a * e - b * f - c * g - d * h, a * f + b * e + c * h - d * g, a * g + c * e + d * f - b * h, a * h + d * e + b * g - c * f]"
  by (simp_all add: quatDC_def qmult_def vec_ops algebra_simps)

subsection \<open>Unit quaternions are rotations\<close>

lemma qmult_mag2:
  assumes "length p = 4" "length q = 4"
  shows "vec_mag2 (qmult p q) = vec_mag2 p * vec_mag2 q"
proof -
  obtain a b c d where p: "p = [a, b, c, d]" using list_of_4 [OF assms(1)] by blast
  obtain e f g h where q: "q = [e, f, g, h]" using list_of_4 [OF assms(2)] by blast
  show ?thesis unfolding p q quat_parts by algebra
qed

lemma length_qmult [simp]: "length (qmult p q) = 4"
  by (simp add: qmult_def Let_def)

lemma quatDC_orthogonal:
  assumes "length q = 4" "vec_mag2 q = 1"
  shows "mat_mult_T 3 3 3 (quatDC q) (quatDC q) = mat_eye 3 3 1"
proof -
  obtain a b c d where q: "q = [a, b, c, d]" using list_of_4 [OF assms(1)] by blast
  show ?thesis using assms(2) unfolding q by (simp add: mat_ops) (intro conjI; algebra)
qed

lemma quatDC_qmult:
  assumes "length p = 4" "length q = 4" "vec_mag2 p = 1" "vec_mag2 q = 1"
  shows "quatDC (qmult p q) = mat_mult 3 3 3 (quatDC q) (quatDC p)"
proof -
  obtain a b c d where p: "p = [a, b, c, d]" using list_of_4 [OF assms(1)] by blast
  obtain e f g h where q: "q = [e, f, g, h]" using list_of_4 [OF assms(2)] by blast
  show ?thesis using assms(3,4) unfolding p q by (simp add: mat_ops) (intro conjI; algebra)
qed

text \<open>
  C34: for unit quaternions \<open>quatDC\<close> is a rotation: orthogonal, \<open>quatDC_T\<close> and the conjugate give its
  transpose, and the product of quaternions, again a unit, is the product of the matrices.
\<close>

theorem quat_rotation:
  assumes "length p = 4" "length q = 4" "vec_mag2 p = 1" "vec_mag2 q = 1"
  shows "mat_mult_T 3 3 3 (quatDC q) (quatDC q) = mat_eye 3 3 1 \<and> quatDC_T q = mat_transposed (quatDC q) \<and>
    quatDC (quat_conjugate q) = quatDC_T q \<and> vec_mag2 (qmult p q) = 1 \<and>
    quatDC (qmult p q) = mat_mult 3 3 3 (quatDC q) (quatDC p)"
proof -
  obtain e f g h where q: "q = [e, f, g, h]" using list_of_4 [OF assms(2)] by blast
  have "quatDC_T q = mat_transposed (quatDC q)" "quatDC (quat_conjugate q) = quatDC_T q"
    by (simp_all add: q quatDC_T_def quat_conjugate_def mat_transposed_def mat_get_def)
  then show ?thesis
    using quatDC_orthogonal [OF assms(2,4)] quatDC_qmult [OF assms] qmult_mag2 [OF assms(1,2)] assms(3,4) by simp
qed

lemma quat_rotation_witness:
  "quatDC (qmult [0, 1, 0, 0] [0, 0, 1, 0]) = mat_mult 3 3 3 (quatDC [0, 0, 1, 0]) (quatDC [0, 1, 0, 0])"
  using quat_rotation [of "[0, 1, 0, 0]" "[0, 0, 1, 0]"] by simp

subsection \<open>Aerospace angles\<close>

lemma half_angle:
  "sin x = 2 * sin (x / 2) * cos (x / 2)" "cos x = 1 - 2 * (sin (x / 2) * sin (x / 2))"
  for x :: real
  using sin_double [of "x / 2"] cos_double_sin [of "x / 2"] by (simp_all add: power2_eq_square)

lemma circle: "sin x * sin x + cos x * cos x = 1" for x :: real
  using sin_cos_squared_add [of x] by (simp add: power2_eq_square)

lemma circle_half: "cos x * cos x + sin x * sin x = 1" for x :: real
  using circle [of x] by simp

text \<open>The quaternion is the product of the turns about the three axes.\<close>

lemma fromEuler_product:
  "fromEuler [phi, theta, psi] =
     qmult [cos (psi / 2), 0, 0, sin (psi / 2)]
       (qmult [cos (theta / 2), 0, sin (theta / 2), 0] [cos (phi / 2), sin (phi / 2), 0, 0])"
  by (simp add: fromEuler_def Let_def)

lemma fromEuler_unit: "vec_mag2 (fromEuler [phi, theta, psi]) = 1"
  unfolding fromEuler_product by (simp add: qmult_mag2 circle_half del: quat_parts(3))

lemma quatDC_turns:
  "quatDC [cos (x / 2), sin (x / 2), 0, 0] = [[1, 0, 0], [0, cos x, sin x], [0, - sin x, cos x]]"
  "quatDC [cos (x / 2), 0, sin (x / 2), 0] = [[cos x, 0, - sin x], [0, 1, 0], [sin x, 0, cos x]]"
  "quatDC [cos (x / 2), 0, 0, sin (x / 2)] = [[cos x, sin x, 0], [- sin x, cos x, 0], [0, 0, 1]]"
  by (simp_all add: half_angle [of x])

lemma quatDC_fromEuler: "quatDC (fromEuler [phi, theta, psi]) = eulerDC [phi, theta, psi]"
proof -
  let ?z = "[cos (psi / 2), 0, 0, sin (psi / 2)]" and ?y = "[cos (theta / 2), 0, sin (theta / 2), 0]"
    and ?x = "[cos (phi / 2), sin (phi / 2), 0, 0]"
  have unit: "vec_mag2 ?x = 1" "vec_mag2 ?y = 1" "vec_mag2 ?z = 1" by (simp_all add: circle_half)
  then have "vec_mag2 (qmult ?y ?x) = 1" by (simp add: qmult_mag2 del: quat_parts)
  then have "quatDC (fromEuler [phi, theta, psi]) = mat_mult 3 3 3 (mat_mult 3 3 3 (quatDC ?x) (quatDC ?y)) (quatDC ?z)"
    unfolding fromEuler_product using unit by (simp add: quatDC_qmult del: quat_parts)
  also have "\<dots> = eulerDC [phi, theta, psi]"
    unfolding quatDC_turns by (simp add: mat_ops eulerDC_def Let_def)
  finally show ?thesis .
qed

end
