(* ===== verification/Vector_Laws.thy ===== *)
theory Vector_Laws
  imports Attitude
begin

text \<open>
  Vectors: angles brought into a span, lengths, and parts of vectors and matrices.
\<close>

subsection \<open>Angles in a span\<close>

lemma bound_value:
  fixes x y sp :: real
  assumes "sp > 0" "y = x - of_int \<lfloor>x / (sp * 2) + 1 / 2\<rfloor> * (sp * 2)"
  shows "- sp \<le> y" "y < sp" "\<exists>k. x - y = of_int k * (2 * sp)"
proof -
  let ?k = "of_int \<lfloor>x / (sp * 2) + 1 / 2\<rfloor> :: real"
  have x: "x / (sp * 2) * (sp * 2) = x" "(x / (sp * 2) + 1 / 2) * (sp * 2) = x + sp" using assms(1) by (simp_all add: distrib_right)
  have "?k \<le> x / (sp * 2) + 1 / 2" "x / (sp * 2) + 1 / 2 < ?k + 1" by linarith+
  then have "?k * (sp * 2) \<le> (x / (sp * 2) + 1 / 2) * (sp * 2)" "(x / (sp * 2) + 1 / 2) * (sp * 2) < (?k + 1) * (sp * 2)"
    using assms(1) by (simp_all only: mult_right_mono mult_strict_right_mono mult_pos_pos zero_less_numeral less_imp_le)
  then show "- sp \<le> y" "y < sp" unfolding x(2) assms(2) by (simp_all add: distrib_right)
  show "\<exists>k. x - y = of_int k * (2 * sp)" using assms(2) by (intro exI [of _ "\<lfloor>x / (sp * 2) + 1 / 2\<rfloor>"]) simp
qed

lemma bound_inside: "sp > 0 \<Longrightarrow> - sp \<le> x \<Longrightarrow> x < sp \<Longrightarrow> \<lfloor>x / (sp * 2) + 1 / 2\<rfloor> = 0" for x sp :: real
  by (simp add: floor_eq_iff field_simps)

text \<open>
  \<open>bound\<close> brings each element into the half-open interval of the span by whole turns, and leaves
  the elements in it as they are.
\<close>

theorem vec_bound_correct:
  assumes "sp > 0"
  shows "list_all2 (\<lambda>x y. - sp \<le> y \<and> y < sp \<and> (\<exists>k. x - y = of_int k * (2 * sp))) u (vec_bound sp u) \<and>
    ((\<forall>x\<in>set u. - sp \<le> x \<and> x < sp) \<longrightarrow> vec_bound sp u = u)"
proof
  show "list_all2 (\<lambda>x y. - sp \<le> y \<and> y < sp \<and> (\<exists>k. x - y = of_int k * (2 * sp))) u (vec_bound sp u)"
    using bound_value [OF assms] by (simp add: vec_bound_def Let_def list.rel_map list_all2_same)
  show "(\<forall>x\<in>set u. - sp \<le> x \<and> x < sp) \<longrightarrow> vec_bound sp u = u"
    using bound_inside [OF assms] by (auto simp: vec_bound_def Let_def intro: map_idI)
qed

lemma vec_bound_correct_witness: "vec_bound 180 [- 180, 0, 179] = [- 180, 0, 179]"
  using vec_bound_correct [of 180 "[- 180, 0, 179]"] by simp

subsection \<open>Lengths\<close>

lemma vec_mag2_sum: "vec_mag2 u = (\<Sum>i<length u. u ! i * u ! i)" for u :: "real vec"
  by (simp add: vec_mag2_def vec_dot_def foldl_sum)

lemma vec_mag_nonneg: "vec_mag2 u \<ge> 0" "vec_mag u \<ge> 0"
  by (simp_all add: vec_mag_def vec_mag2_sum sum_nonneg)

lemma vec_isNull_mag: "vec_isNull u \<longleftrightarrow> vec_mag u = 0" for u :: "real vec"
  by (simp add: vec_mag_def vec_mag2_sum vec_isNull_def list_all_iff sum_nonneg_eq_0_iff atLeast0LessThan)

lemma vec_mag2_div: "vec_mag2 (map (\<lambda>i. u ! i / s) [0..<length u]) = vec_mag2 u / (s * s)" for u :: "real vec"
  by (simp add: vec_mag2_sum sum_divide_distrib)

text \<open>A vector that is not null is normalised to the length one, in its direction.\<close>

lemma vec_norm_correct:
  assumes "\<not> vec_isNull u"
  shows "vec_mag (vec_norm u) = 1" "vec_scale (vec_norm u) (vec_mag u) = u" "vec_norm_self u = vec_norm u"
proof -
  have m: "vec_mag u \<noteq> 0" using assms by (simp add: vec_isNull_mag)
  then have n: "vec_norm u = map (\<lambda>i. u ! i / vec_mag u) [0..<length u]"
    by (simp add: vec_norm_def vec_div_def vec_div_self_def)
  have "vec_mag u * vec_mag u = vec_mag2 u" by (simp add: vec_mag_def vec_mag_nonneg)
  then show "vec_mag (vec_norm u) = 1" unfolding n vec_mag_def [of "map _ _"] vec_mag2_div using m by auto
  show "vec_scale (vec_norm u) (vec_mag u) = u" unfolding n vec_scale_def using m by (intro nth_equalityI) simp_all
  show "vec_norm_self u = vec_norm u" using m by (simp add: vec_norm_def vec_norm_self_def vec_div_def)
qed

lemma vec_norm_null: "vec_isNull u \<Longrightarrow> vec_norm u = u" for u :: "real vec"
  using vec_isNull_mag [of u]
  by (intro nth_equalityI) (auto simp: vec_norm_def vec_scale_def Let_def vec_isNull_def list_all_iff)

subsection \<open>The cross product\<close>

lemma vec_cross_orthogonal:
  fixes a b :: "real vec"
  assumes "length a = 3" "length b = 3"
  shows "vec_dot a (vec_cross a b) = 0" "vec_dot b (vec_cross a b) = 0"
    "vec_mag2 (vec_cross a b) + vec_dot a b * vec_dot a b = vec_mag2 a * vec_mag2 b"
proof -
  obtain x y z where a: "a = [x, y, z]" using list_of_3 [OF assms(1)] by blast
  obtain p q r where b: "b = [p, q, r]" using list_of_3 [OF assms(2)] by blast
  show "vec_dot a (vec_cross a b) = 0" "vec_dot b (vec_cross a b) = 0"
    "vec_mag2 (vec_cross a b) + vec_dot a b * vec_dot a b = vec_mag2 a * vec_mag2 b"
    by (simp_all add: a b vec_ops algebra_simps)
qed

subsection \<open>Parts\<close>

lemma fold_set: "start + n \<le> length v \<Longrightarrow> n \<le> length inp \<Longrightarrow>
    fold (\<lambda>i v. v[i + start := inp ! i]) [0..<n] v = take start v @ take n inp @ drop (start + n) v"
proof (induction n)
  case (Suc n)
  then show ?case
    by (intro nth_equalityI) (auto simp: nth_list_update nth_append)
qed simp

text \<open>A vector inserted into a larger one is its part at that place; it does not fit exactly where it would reach beyond.\<close>

lemma vec_insert_slice:
  "vec_insert v start inp = (if inp = [] \<or> start + length inp \<le> length v
     then Some (if inp = [] then v else take start v @ inp @ drop (start + length inp) v) else None)"
  by (auto simp: vec_insert_def fold_set)

lemma vec_slice_insert:
  assumes "vec_insert v start inp = Some w"
  shows "length w = length v \<and> vec_slice (length inp) w start = Some inp"
  using assms by (auto simp: vec_insert_slice vec_slice_def nth_append intro: nth_equalityI split: if_splits)

end
