(* ===== verification/Attitude_Angles.thy ===== *)
theory Attitude_Angles
  imports Attitude
begin

text \<open>
  Angles read back from a rotation, in exact arithmetic: the round trip of the aerospace angles, and
  the derivatives of the angles by the quaternion.  In single precision \<open>toEuler\<close> has no angle to give
  for some unit quaternions near the poles (\<open>Attitude_Float\<close>).
\<close>

subsection \<open>The two-argument arctangent\<close>

lemma atan2_polar:
  assumes "r > 0" "x = r * cos a" "y = r * sin a" "- pi < a" "a \<le> pi"
  shows "atan2 y x = a"
proof -
  have "Complex x y = rcis r a" using assms(2,3) by (simp add: complex_eq_iff)
  moreover have "sgn (rcis r a) = cis a" using assms(1) by (simp add: rcis_def sgn_mult sgn_of_real)
  ultimately show ?thesis unfolding atan2_def by (intro cis_Arg_unique assms) simp
qed

lemma hypotenuse_pos: "0 < sqrt (1 + z\<^sup>2)" for z :: real
  by (simp add: add_pos_nonneg)

lemma atan2_right:
  assumes "x > 0"
  shows "atan2 y x = arctan (y / x)"
proof (rule atan2_polar)
  let ?r = "x * sqrt (1 + (y / x)\<^sup>2)"
  show "?r > 0" using assms hypotenuse_pos by simp
  show "x = ?r * cos (arctan (y / x))" "y = ?r * sin (arctan (y / x))"
    using hypotenuse_pos [of "y / x"] assms by (simp_all add: cos_arctan sin_arctan)
  show "- pi < arctan (y / x)" "arctan (y / x) \<le> pi"
    using arctan_lbound [of "y / x"] arctan_ubound [of "y / x"] by linarith+
qed

lemma atan2_upper:
  assumes "y > 0"
  shows "atan2 y x = pi / 2 - arctan (x / y)"
proof (rule atan2_polar)
  let ?r = "y * sqrt (1 + (x / y)\<^sup>2)"
  show "?r > 0" using assms hypotenuse_pos by simp
  show "x = ?r * cos (pi / 2 - arctan (x / y))" "y = ?r * sin (pi / 2 - arctan (x / y))"
    using hypotenuse_pos [of "x / y"] assms by (simp_all add: cos_diff sin_diff cos_arctan sin_arctan)
  show "- pi < pi / 2 - arctan (x / y)" "pi / 2 - arctan (x / y) \<le> pi"
    using arctan_lbound [of "x / y"] arctan_ubound [of "x / y"] by linarith+
qed

lemma atan2_lower:
  assumes "y < 0"
  shows "atan2 y x = - pi / 2 - arctan (x / y)"
proof (rule atan2_polar)
  let ?r = "- y * sqrt (1 + (x / y)\<^sup>2)"
  show "?r > 0" using assms hypotenuse_pos [of "x / y"] by (intro mult_pos_pos) simp_all
  show "x = ?r * cos (- pi / 2 - arctan (x / y))" "y = ?r * sin (- pi / 2 - arctan (x / y))"
    using hypotenuse_pos [of "x / y"] assms by (simp_all add: cos_diff sin_diff cos_arctan sin_arctan)
  show "- pi < - pi / 2 - arctan (x / y)" "- pi / 2 - arctan (x / y) \<le> pi"
    using arctan_lbound [of "x / y"] arctan_ubound [of "x / y"] by linarith+
qed

text \<open>Away from the cut the derivative is that of the angle of a moving point.\<close>

lemma has_derivative_near:
  fixes f g :: "real \<Rightarrow> real"
  assumes "(f has_real_derivative D) (at t)" "open S" "t \<in> S" "\<And>u. u \<in> S \<Longrightarrow> g u = f u"
  shows "(g has_real_derivative D) (at t)"
  by (rule has_field_derivative_transform_within_open [OF assms(1-3)]) (simp add: assms(4))

lemma arctan_derivative:
  assumes "(Y has_real_derivative Y') (at t)" "(X has_real_derivative X') (at t)" "X t \<noteq> 0"
  shows "((\<lambda>u. arctan (Y u / X u)) has_real_derivative (X t * Y' - Y t * X') / (X t * X t + Y t * Y t)) (at t)"
proof -
  have "((\<lambda>u. arctan (Y u / X u)) has_real_derivative inverse (1 + (Y t / X t)\<^sup>2) * ((Y' * X t - Y t * X') / (X t * X t))) (at t)"
    using assms by (intro DERIV_chain2 [where f = arctan] DERIV_arctan DERIV_divide)
  moreover have "inverse (1 + (Y t / X t)\<^sup>2) = X t * X t / (X t * X t + Y t * Y t)"
    using assms(3) by (simp add: power_divide add_divide_eq_iff power2_eq_square)
  ultimately show ?thesis using assms(3) by (simp add: mult.commute)
qed

lemma shifted_arctan_derivative:
  assumes "(X has_real_derivative X') (at t)" "(Y has_real_derivative Y') (at t)" "Y t \<noteq> 0"
  shows "((\<lambda>u. c - arctan (X u / Y u)) has_real_derivative (X t * Y' - Y t * X') / (X t * X t + Y t * Y t)) (at t)"
proof -
  have "0 - (Y t * X' - X t * Y') / (Y t * Y t + X t * X t) = (X t * Y' - Y t * X') / (X t * X t + Y t * Y t)"
    by (simp add: minus_divide_left add.commute)
  then show ?thesis using DERIV_diff [OF DERIV_const [of c] arctan_derivative [OF assms]] by simp
qed

lemma atan2_derivative:
  assumes Y: "(Y has_real_derivative Y') (at t)" and X: "(X has_real_derivative X') (at t)"
    and cont: "continuous_on UNIV X" "continuous_on UNIV Y"
    and cut: "\<not> (Y t = 0 \<and> X t \<le> 0)"
  shows "((\<lambda>u. atan2 (Y u) (X u)) has_real_derivative (X t * Y' - Y t * X') / (X t * X t + Y t * Y t)) (at t)"
proof -
  consider (right) "X t > 0" | (upper) "Y t > 0" | (lower) "Y t < 0" using cut by linarith
  then show ?thesis
  proof cases
    case right
    have o: "open {u. X u > 0}" by (rule open_Collect_less [OF continuous_on_const cont(1)])
    have d: "((\<lambda>u. arctan (Y u / X u)) has_real_derivative (X t * Y' - Y t * X') / (X t * X t + Y t * Y t)) (at t)"
      by (rule arctan_derivative [OF Y X]) (use right in simp)
    show ?thesis by (rule has_derivative_near [OF d o]) (simp_all add: right atan2_right)
  next
    case upper
    have o: "open {u. Y u > 0}" by (rule open_Collect_less [OF continuous_on_const cont(2)])
    have d: "((\<lambda>u. pi / 2 - arctan (X u / Y u)) has_real_derivative (X t * Y' - Y t * X') / (X t * X t + Y t * Y t)) (at t)"
      by (rule shifted_arctan_derivative [OF X Y]) (use upper in simp)
    show ?thesis by (rule has_derivative_near [OF d o]) (simp_all add: upper atan2_upper)
  next
    case lower
    have o: "open {u. Y u < 0}" by (rule open_Collect_less [OF cont(2) continuous_on_const])
    have d: "((\<lambda>u. - pi / 2 - arctan (X u / Y u)) has_real_derivative (X t * Y' - Y t * X') / (X t * X t + Y t * Y t)) (at t)"
      by (rule shifted_arctan_derivative [OF X Y]) (use lower in simp)
    show ?thesis by (rule has_derivative_near [OF d o]) (simp_all add: lower atan2_lower)
  qed
qed

subsection \<open>Aerospace angles from a quaternion\<close>

lemma toEuler_DC:
  assumes "length q = 4"
  shows "toEuler q = [atan2 (mat_get (quatDC q) 1 2) (mat_get (quatDC q) 2 2), - arcsin (mat_get (quatDC q) 0 2),
    atan2 (mat_get (quatDC q) 0 1) (mat_get (quatDC q) 0 0)]"
  using list_of_4 [OF assms] by (auto simp: toEuler_def Let_def mat_get_def)

text \<open>
  In exact arithmetic \<open>fromEuler\<close> gives a unit quaternion, whose direction cosine matrix is the one \<open>eulerDC\<close> computes
  from the same angles; and \<open>toEuler\<close> gives back the angles when the pitch is within a quarter turn.
\<close>

theorem euler_roundtrip:
  assumes "- pi < phi" "phi \<le> pi" "- pi / 2 < theta" "theta < pi / 2" "- pi < psi" "psi \<le> pi"
  shows "vec_mag2 (fromEuler [phi, theta, psi]) = 1 \<and>
    quatDC (fromEuler [phi, theta, psi]) = eulerDC [phi, theta, psi] \<and>
    toEuler (fromEuler [phi, theta, psi]) = [phi, theta, psi]"
proof -
  have "0 < cos theta" using assms by (intro cos_gt_zero_pi) simp_all
  moreover have "length (fromEuler [phi, theta, psi]) = 4" by (simp add: fromEuler_def Let_def)
  ultimately have "toEuler (fromEuler [phi, theta, psi]) = [phi, theta, psi]"
    using assms by (simp add: toEuler_DC quatDC_fromEuler)
      (simp add: eulerDC_def Let_def mat_get_def atan2_polar [of "cos theta"] arcsin_minus arcsin_sin)
  then show ?thesis by (simp add: fromEuler_unit quatDC_fromEuler)
qed

lemma euler_roundtrip_witness: "toEuler (fromEuler [pi, pi / 4, 0]) = [pi, pi / 4, 0]"
  using euler_roundtrip [of pi "pi / 4" 0] by simp

subsection \<open>The derivatives of the angles\<close>

lemma less_4_cases: "j < 4 \<longleftrightarrow> j = 0 \<or> j = 1 \<or> j = 2 \<or> j = (3 :: nat)"
  by auto

lemma angle_slope: "(x * (2 * u) - y * (- 4 * v)) / n = (u * x + 2 * v * y) * (2 / n)"
  "(x * (2 * u) - y * 0) / n = (u * x) * (2 / n)" for x y u v n :: real
  by (simp_all add: algebra_simps add_divide_distrib)

lemma angle_slope_swapped: "(x * (2 * u) - y * (- 4 * v)) / n = (2 / n) * (u * x + 2 * v * y)"
  "(x * (2 * u) - y * 0) / n = (2 / n) * (u * x)" for x y u v n :: real
  by (simp_all add: algebra_simps add_divide_distrib)

lemma dphi_dq_correct:
  assumes "\<not> (2 * (c * d + a * b) = 0 \<and> 1 - 2 * (b * b + c * c) \<le> 0)" "q = [a, b, c, d]"
  shows "((\<lambda>x. toEuler (q[0 := x]) ! 0) has_real_derivative dphi_dq q (quatDC q) ! 0) (at a)"
    "((\<lambda>x. toEuler (q[1 := x]) ! 0) has_real_derivative dphi_dq q (quatDC q) ! 1) (at b)"
    "((\<lambda>x. toEuler (q[2 := x]) ! 0) has_real_derivative dphi_dq q (quatDC q) ! 2) (at c)"
    "((\<lambda>x. toEuler (q[3 := x]) ! 0) has_real_derivative dphi_dq q (quatDC q) ! 3) (at d)"
proof -
  let ?y = "2 * (c * d + a * b)" and ?x = "1 - 2 * (b * b + c * c)"
  have "((\<lambda>x. atan2 (2 * (c * d + x * b)) (1 - 2 * (b * b + c * c))) has_real_derivative (?x * (2 * b) - ?y * 0) / (?x * ?x + ?y * ?y)) (at a)"
    by (rule atan2_derivative) (use assms(1) in \<open>auto intro!: derivative_eq_intros continuous_intros\<close>)
  then show "((\<lambda>x. toEuler (q[0 := x]) ! 0) has_real_derivative dphi_dq q (quatDC q) ! 0) (at a)"
    unfolding angle_slope by (simp add: assms(2) toEuler_def dphi_dq_def Let_def mat_get_def)
  have "((\<lambda>x. atan2 (2 * (c * d + a * x)) (1 - 2 * (x * x + c * c))) has_real_derivative
      (?x * (2 * a) - ?y * (- 4 * b)) / (?x * ?x + ?y * ?y)) (at b)"
    by (rule atan2_derivative) (use assms(1) in \<open>auto intro!: derivative_eq_intros continuous_intros\<close>)
  then show "((\<lambda>x. toEuler (q[1 := x]) ! 0) has_real_derivative dphi_dq q (quatDC q) ! 1) (at b)"
    unfolding angle_slope by (simp add: assms(2) toEuler_def dphi_dq_def Let_def mat_get_def)
  have "((\<lambda>x. atan2 (2 * (x * d + a * b)) (1 - 2 * (b * b + x * x))) has_real_derivative
      (?x * (2 * d) - ?y * (- 4 * c)) / (?x * ?x + ?y * ?y)) (at c)"
    by (rule atan2_derivative) (use assms(1) in \<open>auto intro!: derivative_eq_intros continuous_intros\<close>)
  then show "((\<lambda>x. toEuler (q[2 := x]) ! 0) has_real_derivative dphi_dq q (quatDC q) ! 2) (at c)"
    unfolding angle_slope by (simp add: assms(2) toEuler_def dphi_dq_def Let_def mat_get_def)
  have "((\<lambda>x. atan2 (2 * (c * x + a * b)) (1 - 2 * (b * b + c * c))) has_real_derivative
      (?x * (2 * c) - ?y * 0) / (?x * ?x + ?y * ?y)) (at d)"
    by (rule atan2_derivative) (use assms(1) in \<open>auto intro!: derivative_eq_intros continuous_intros\<close>)
  then show "((\<lambda>x. toEuler (q[3 := x]) ! 0) has_real_derivative dphi_dq q (quatDC q) ! 3) (at d)"
    unfolding angle_slope by (simp add: assms(2) toEuler_def dphi_dq_def Let_def mat_get_def)
qed

lemma dpsi_dq_correct:
  assumes "\<not> (2 * (b * c + a * d) = 0 \<and> 1 - 2 * (c * c + d * d) \<le> 0)" "q = [a, b, c, d]"
  shows "((\<lambda>x. toEuler (q[0 := x]) ! 2) has_real_derivative dpsi_dq q (quatDC q) ! 0) (at a)"
    "((\<lambda>x. toEuler (q[1 := x]) ! 2) has_real_derivative dpsi_dq q (quatDC q) ! 1) (at b)"
    "((\<lambda>x. toEuler (q[2 := x]) ! 2) has_real_derivative dpsi_dq q (quatDC q) ! 2) (at c)"
    "((\<lambda>x. toEuler (q[3 := x]) ! 2) has_real_derivative dpsi_dq q (quatDC q) ! 3) (at d)"
proof -
  let ?y = "2 * (b * c + a * d)" and ?x = "1 - 2 * (c * c + d * d)"
  have "((\<lambda>x. atan2 (2 * (b * c + x * d)) (1 - 2 * (c * c + d * d))) has_real_derivative (?x * (2 * d) - ?y * 0) / (?x * ?x + ?y * ?y)) (at a)"
    by (rule atan2_derivative) (use assms(1) in \<open>auto intro!: derivative_eq_intros continuous_intros\<close>)
  then show "((\<lambda>x. toEuler (q[0 := x]) ! 2) has_real_derivative dpsi_dq q (quatDC q) ! 0) (at a)"
    unfolding angle_slope_swapped by (simp add: assms(2) toEuler_def dpsi_dq_def Let_def mat_get_def)
  have "((\<lambda>x. atan2 (2 * (x * c + a * d)) (1 - 2 * (c * c + d * d))) has_real_derivative (?x * (2 * c) - ?y * 0) / (?x * ?x + ?y * ?y)) (at b)"
    by (rule atan2_derivative) (use assms(1) in \<open>auto intro!: derivative_eq_intros continuous_intros\<close>)
  then show "((\<lambda>x. toEuler (q[1 := x]) ! 2) has_real_derivative dpsi_dq q (quatDC q) ! 1) (at b)"
    unfolding angle_slope_swapped by (simp add: assms(2) toEuler_def dpsi_dq_def Let_def mat_get_def)
  have "((\<lambda>x. atan2 (2 * (b * x + a * d)) (1 - 2 * (x * x + d * d))) has_real_derivative
      (?x * (2 * b) - ?y * (- 4 * c)) / (?x * ?x + ?y * ?y)) (at c)"
    by (rule atan2_derivative) (use assms(1) in \<open>auto intro!: derivative_eq_intros continuous_intros\<close>)
  then show "((\<lambda>x. toEuler (q[2 := x]) ! 2) has_real_derivative dpsi_dq q (quatDC q) ! 2) (at c)"
    unfolding angle_slope_swapped by (simp add: assms(2) toEuler_def dpsi_dq_def Let_def mat_get_def)
  have "((\<lambda>x. atan2 (2 * (b * c + a * x)) (1 - 2 * (c * c + x * x))) has_real_derivative
      (?x * (2 * a) - ?y * (- 4 * d)) / (?x * ?x + ?y * ?y)) (at d)"
    by (rule atan2_derivative) (use assms(1) in \<open>auto intro!: derivative_eq_intros continuous_intros\<close>)
  then show "((\<lambda>x. toEuler (q[3 := x]) ! 2) has_real_derivative dpsi_dq q (quatDC q) ! 3) (at d)"
    unfolding angle_slope_swapped by (simp add: assms(2) toEuler_def dpsi_dq_def Let_def mat_get_def)
qed

lemma dtheta_dq_correct:
  assumes "\<bar>2 * (b * d - a * c)\<bar> < 1" "q = [a, b, c, d]"
  shows "((\<lambda>x. toEuler (q[0 := x]) ! 1) has_real_derivative dtheta_dq q (quatDC q) ! 0) (at a)"
    "((\<lambda>x. toEuler (q[1 := x]) ! 1) has_real_derivative dtheta_dq q (quatDC q) ! 1) (at b)"
    "((\<lambda>x. toEuler (q[2 := x]) ! 1) has_real_derivative dtheta_dq q (quatDC q) ! 2) (at c)"
    "((\<lambda>x. toEuler (q[3 := x]) ! 1) has_real_derivative dtheta_dq q (quatDC q) ! 3) (at d)"
proof -
  let ?s = "2 * (b * d - a * c)"
  have bound: "- 1 < ?s" "?s < 1" using assms(1) by linarith+
  have slope: "((\<lambda>x. - arcsin (f x)) has_real_derivative - (inverse (sqrt (1 - ?s * ?s)) * f')) (at t)"
    if "(f has_real_derivative f') (at t)" "f t = ?s" for f f' t
    using DERIV_minus [OF DERIV_chain2 [where f = arcsin, OF DERIV_arcsin that(1)]] bound that(2)
    by (simp add: power2_eq_square)
  have dot: "toEuler (q[0 := x]) ! 1 = - arcsin (2 * (b * d - x * c))" "toEuler (q[1 := x]) ! 1 = - arcsin (2 * (x * d - a * c))"
    "toEuler (q[2 := x]) ! 1 = - arcsin (2 * (b * d - a * x))" "toEuler (q[3 := x]) ! 1 = - arcsin (2 * (b * x - a * c))" for x
    by (simp_all add: assms(2) toEuler_def Let_def)
  have val: "dtheta_dq q (quatDC q) = map (\<lambda>z. - (inverse (sqrt (1 - ?s * ?s)) * z)) [- 2 * c, 2 * d, - 2 * a, 2 * b]"
    by (simp add: assms(2) dtheta_dq_def Let_def mat_get_def divide_inverse)
  have "((\<lambda>x. - arcsin (2 * (b * d - x * c))) has_real_derivative - (inverse (sqrt (1 - ?s * ?s)) * (- 2 * c))) (at a)"
    by (rule slope) (auto intro!: derivative_eq_intros)
  then show "((\<lambda>x. toEuler (q[0 := x]) ! 1) has_real_derivative dtheta_dq q (quatDC q) ! 0) (at a)"
    unfolding dot val by simp
  have "((\<lambda>x. - arcsin (2 * (x * d - a * c))) has_real_derivative - (inverse (sqrt (1 - ?s * ?s)) * (2 * d))) (at b)"
    by (rule slope) (auto intro!: derivative_eq_intros)
  then show "((\<lambda>x. toEuler (q[1 := x]) ! 1) has_real_derivative dtheta_dq q (quatDC q) ! 1) (at b)"
    unfolding dot val by simp
  have "((\<lambda>x. - arcsin (2 * (b * d - a * x))) has_real_derivative - (inverse (sqrt (1 - ?s * ?s)) * (- 2 * a))) (at c)"
    by (rule slope) (auto intro!: derivative_eq_intros)
  then show "((\<lambda>x. toEuler (q[2 := x]) ! 1) has_real_derivative dtheta_dq q (quatDC q) ! 2) (at c)"
    unfolding dot val by simp
  have "((\<lambda>x. - arcsin (2 * (b * x - a * c))) has_real_derivative - (inverse (sqrt (1 - ?s * ?s)) * (2 * b))) (at d)"
    by (rule slope) (auto intro!: derivative_eq_intros)
  then show "((\<lambda>x. toEuler (q[3 := x]) ! 1) has_real_derivative dtheta_dq q (quatDC q) ! 3) (at d)"
    unfolding dot val by simp
qed

text \<open>
  \<open>dphi_dq\<close>, \<open>dtheta_dq\<close> and \<open>dpsi_dq\<close>, given the matrix of the quaternion, are the partial
  derivatives of roll, pitch and yaw as \<open>toEuler\<close> computes them, wherever these are smooth: off the
  cut of the arctangent and away from the poles.
\<close>

theorem euler_derivatives:
  assumes "length q = 4" "j < 4"
    "\<not> (mat_get (quatDC q) 1 2 = 0 \<and> mat_get (quatDC q) 2 2 \<le> 0)" "\<bar>mat_get (quatDC q) 0 2\<bar> < 1"
    "\<not> (mat_get (quatDC q) 0 1 = 0 \<and> mat_get (quatDC q) 0 0 \<le> 0)"
  shows "((\<lambda>x. toEuler (q[j := x]) ! 0) has_real_derivative dphi_dq q (quatDC q) ! j) (at (q ! j)) \<and>
    ((\<lambda>x. toEuler (q[j := x]) ! 1) has_real_derivative dtheta_dq q (quatDC q) ! j) (at (q ! j)) \<and>
    ((\<lambda>x. toEuler (q[j := x]) ! 2) has_real_derivative dpsi_dq q (quatDC q) ! j) (at (q ! j))"
proof -
  obtain a b c d where q: "q = [a, b, c, d]" using list_of_4 [OF assms(1)] by blast
  have smooth: "\<not> (2 * (c * d + a * b) = 0 \<and> 1 - 2 * (b * b + c * c) \<le> 0)" "\<bar>2 * (b * d - a * c)\<bar> < 1"
    "\<not> (2 * (b * c + a * d) = 0 \<and> 1 - 2 * (c * c + d * d) \<le> 0)"
    using assms(3-5) by (simp_all add: q mat_get_def)
  have at: "q ! 0 = a" "q ! 1 = b" "q ! 2 = c" "q ! 3 = d" by (simp_all add: q)
  from assms(2) consider "j = 0" | "j = 1" | "j = 2" | "j = 3" by (auto simp: less_4_cases)
  then show ?thesis
    by cases (simp_all only: at dphi_dq_correct [OF smooth(1) q] dtheta_dq_correct [OF smooth(2) q]
        dpsi_dq_correct [OF smooth(3) q] simp_thms)
qed

lemma euler_derivatives_witness:
  "((\<lambda>x. toEuler ([1, 0, 0, 0][1 := x]) ! 0) has_real_derivative dphi_dq [1, 0, 0, 0] (quatDC [1, 0, 0, 0]) ! 1) (at ([1, 0, 0, 0] ! 1))"
  using euler_derivatives [of "[1, 0, 0, 0]" 1] by (simp add: mat_get_def)

end
