(* ===== verification/Attitude_Rates.thy ===== *)
theory Attitude_Rates
  imports Attitude_Angles
begin

text \<open>
  Rates: the matrices of angular velocities, and the Jacobian of a rotated vector.
\<close>

subsection \<open>Angular velocities\<close>

text \<open>
  \<open>eulerWx\<close> is the cross product with its argument, \<open>Omega\<close> the product of a quaternion with a
  pure one on the right, and \<open>quatW\<close> half of it, as the differential equation of a quaternion has it.
\<close>

theorem rate_matrices:
  assumes "length w = 3" "length v = 3" "length q = 4"
  shows "mat_vec (eulerWx w) v = vec_cross w v \<and>
    map (\<lambda>r. vec_dot r q) (Omega w) = qmult q (0 # w) \<and> quatW w = mat_scale (Omega w) (1 / 2)"
proof -
  obtain x y z where w: "w = [x, y, z]" using list_of_3 [OF assms(1)] by blast
  obtain a b c where v: "v = [a, b, c]" using list_of_3 [OF assms(2)] by blast
  obtain d e f g where q: "q = [d, e, f, g]" using list_of_4 [OF assms(3)] by blast
  show ?thesis
    by (simp add: w v q eulerWx_def Omega_def quatW_def mat_vec_def upt_small vec_ops mat_scale_def Let_def algebra_simps)
qed

lemma rate_matrices_witness: "mat_vec (eulerWx [1, 2, 3]) [4, 5, 6] = vec_cross [1, 2, 3] [4, 5, 6]"
  using rate_matrices [of "[1, 2, 3]" "[4, 5, 6]" "[1, 0, 0, 0]"] by simp

subsection \<open>The Jacobian\<close>

lemma Wmtrx_entries:
  assumes "k = 1 / h" "h = sqrt (1 - (x * x + y * y + z * z))" "x * x + y * y + z * z < 1"
  shows "Wmtrx [x, y, z] [a, b, c] =
     [[2 * (k * x) * (y * c - z * b) + 2 * (a * x + b * y + c * z) + 2 * x * a - 4 * a * x,
       2 * (k * y) * (y * c - z * b) - 2 * h * c + 2 * x * b - 4 * a * y,
       2 * (k * z) * (y * c - z * b) + 2 * h * b + 2 * x * c - 4 * a * z],
      [2 * (k * x) * (z * a - x * c) + 2 * h * c + 2 * y * a - 4 * b * x,
       2 * (k * y) * (z * a - x * c) + 2 * (a * x + b * y + c * z) + 2 * y * b - 4 * b * y,
       2 * (k * z) * (z * a - x * c) - 2 * h * a + 2 * y * c - 4 * b * z],
      [2 * (k * x) * (x * b - y * a) - 2 * h * b + 2 * z * a - 4 * c * x,
       2 * (k * y) * (x * b - y * a) + 2 * h * a + 2 * z * b - 4 * c * y,
       2 * (k * z) * (x * b - y * a) + 2 * (a * x + b * y + c * z) + 2 * z * c - 4 * c * z]]"
proof -
  have h: "h \<noteq> 0" "- (2 / h) = - 2 * k" using assms by simp_all
  have "vec_dot [x, y, z] [x, y, z] = x * x + y * y + z * z" by (simp add: vec_ops)
  then show ?thesis
    using assms(3) h(1)
    by (simp add: Wmtrx_def Let_def flip: assms(2)) (simp add: h(2) eulerWx_def Let_def mat_ops vec_ops algebra_simps)
qed

text \<open>The scalar part moves with each component of the vector part.\<close>

lemma scalar_part_derivative:
  assumes "t * t + m < 1" "k = 1 / h" "h = sqrt (1 - (t * t + m))"
  shows "((\<lambda>u. if 1 - (u * u + m) \<le> 0 then 0 else sqrt (1 - (u * u + m))) has_real_derivative - (k * t)) (at t)"
proof (rule has_derivative_near)
  show "((\<lambda>u. sqrt (1 - (u * u + m))) has_real_derivative - (k * t)) (at t)"
    using assms by (auto intro!: derivative_eq_intros simp: field_simps)
  have "continuous_on UNIV (\<lambda>u. 1 - (u * u + m))" by (intro continuous_intros)
  then show "open {u. 0 < 1 - (u * u + m)}" by (rule open_Collect_less [OF continuous_on_const])
qed (use assms in auto)

text \<open>The components of the rotated vector, with the scalar part as a function of the one that moves.\<close>

definition rotated :: "real \<Rightarrow> real \<Rightarrow> real \<Rightarrow> real \<Rightarrow> real vec \<Rightarrow> real vec" where
  "rotated h x y z v =
     [(1 - 2 * (y * y + z * z)) * v ! 0 + 2 * (x * y + h * z) * v ! 1 + 2 * (x * z - h * y) * v ! 2,
      2 * (x * y - h * z) * v ! 0 + (1 - 2 * (x * x + z * z)) * v ! 1 + 2 * (y * z + h * x) * v ! 2,
      2 * (x * z + h * y) * v ! 0 + 2 * (y * z - h * x) * v ! 1 + (1 - 2 * (x * x + y * y)) * v ! 2]"

lemma rotated_qbuild:
  "mat_vec (quatDC (qbuild [x, y, z])) [a, b, c] =
     rotated (if 1 - (x * x + y * y + z * z) \<le> 0 then 0 else sqrt (1 - (x * x + y * y + z * z))) x y z [a, b, c]"
  by (simp add: qbuild_def Let_def vec_ops mat_vec_def upt_small rotated_def)

lemma rotated_derivatives:
  assumes "(h has_real_derivative - (k * x)) (at x)" "(g has_real_derivative - (k * y)) (at y)" "(f has_real_derivative - (k * z)) (at z)"
    "h x = s" "g y = s" "f z = s" "j < 3" "v = [a, b, c]"
  shows "((\<lambda>u. rotated (h u) u y z v ! j) has_real_derivative
      [2 * (k * x) * (y * c - z * b) + 2 * (a * x + b * y + c * z) + 2 * x * a - 4 * a * x,
       2 * (k * x) * (z * a - x * c) + 2 * s * c + 2 * y * a - 4 * b * x,
       2 * (k * x) * (x * b - y * a) - 2 * s * b + 2 * z * a - 4 * c * x] ! j) (at x)" (is ?x)
    "((\<lambda>u. rotated (g u) x u z v ! j) has_real_derivative
      [2 * (k * y) * (y * c - z * b) - 2 * s * c + 2 * x * b - 4 * a * y,
       2 * (k * y) * (z * a - x * c) + 2 * (a * x + b * y + c * z) + 2 * y * b - 4 * b * y,
       2 * (k * y) * (x * b - y * a) + 2 * s * a + 2 * z * b - 4 * c * y] ! j) (at y)" (is ?y)
    "((\<lambda>u. rotated (f u) x y u v ! j) has_real_derivative
      [2 * (k * z) * (y * c - z * b) + 2 * s * b + 2 * x * c - 4 * a * z,
       2 * (k * z) * (z * a - x * c) - 2 * s * a + 2 * y * c - 4 * b * z,
       2 * (k * z) * (x * b - y * a) + 2 * (a * x + b * y + c * z) + 2 * z * c - 4 * c * z] ! j) (at z)" (is ?z)
proof -
  from assms(7) consider "j = 0" | "j = 1" | "j = 2" by linarith
  then show ?x
    by cases (simp_all add: assms(8) rotated_def; auto intro!: derivative_eq_intros assms(1-3) simp: assms(4-6); simp add: algebra_simps)+
  from assms(7) consider "j = 0" | "j = 1" | "j = 2" by linarith
  then show ?y
    by cases (simp_all add: assms(8) rotated_def; auto intro!: derivative_eq_intros assms(1-3) simp: assms(4-6); simp add: algebra_simps)+
  from assms(7) consider "j = 0" | "j = 1" | "j = 2" by linarith
  then show ?z
    by cases (simp_all add: assms(8) rotated_def; auto intro!: derivative_eq_intros assms(1-3) simp: assms(4-6); simp add: algebra_simps)+
qed

text \<open>
  \<open>Wmtrx\<close> is the Jacobian, by the vector part of a unit quaternion, of the vector \<open>v\<close> rotated by
  it, where the scalar part follows as \<open>qbuild\<close> computes it and does not vanish.
\<close>

theorem Wmtrx_jacobian:
  assumes "length eps = 3" "length v = 3" "vec_dot eps eps < 1" "i < 3" "j < 3"
  shows "((\<lambda>x. mat_vec (quatDC (qbuild (eps[j := x]))) v ! i) has_real_derivative mat_get (Wmtrx eps v) i j) (at (eps ! j))"
proof -
  obtain x y z where eps: "eps = [x, y, z]" using list_of_3 [OF assms(1)] by blast
  obtain a b c where v: "v = [a, b, c]" using list_of_3 [OF assms(2)] by blast
  define h where "h = sqrt (1 - (x * x + y * y + z * z))"
  define k where "k = 1 / h"
  have small: "x * x + y * y + z * z < 1" using assms(3) by (simp add: eps vec_ops)
  have sums: "x * x + y * y + z * z = x * x + (y * y + z * z)" "x * x + y * y + z * z = y * y + (x * x + z * z)"
    "x * x + y * y + z * z = z * z + (x * x + y * y)" by simp_all
  note h = small [unfolded sums(1)] small [unfolded sums(2)] small [unfolded sums(3)]
    h_def [unfolded sums(1)] h_def [unfolded sums(2)] h_def [unfolded sums(3)]
  note slope = scalar_part_derivative [OF h(1) k_def h(4)] scalar_part_derivative [OF h(2) k_def h(5)]
    scalar_part_derivative [OF h(3) k_def h(6)]
  have at: "(if 1 - (x * x + (y * y + z * z)) \<le> 0 then 0 else sqrt (1 - (x * x + (y * y + z * z)))) = h"
    "(if 1 - (y * y + (x * x + z * z)) \<le> 0 then 0 else sqrt (1 - (y * y + (x * x + z * z)))) = h"
    "(if 1 - (z * z + (x * x + y * y)) \<le> 0 then 0 else sqrt (1 - (z * z + (x * x + y * y)))) = h"
    using h by simp_all
  note D = rotated_derivatives [OF slope at assms(4) v]
  have moved: "mat_vec (quatDC (qbuild [t, y, z])) v =
      rotated (if 1 - (t * t + (y * y + z * z)) \<le> 0 then 0 else sqrt (1 - (t * t + (y * y + z * z)))) t y z v"
    "mat_vec (quatDC (qbuild [x, t, z])) v =
      rotated (if 1 - (t * t + (x * x + z * z)) \<le> 0 then 0 else sqrt (1 - (t * t + (x * x + z * z)))) x t z v"
    "mat_vec (quatDC (qbuild [x, y, t])) v =
      rotated (if 1 - (t * t + (x * x + y * y)) \<le> 0 then 0 else sqrt (1 - (t * t + (x * x + y * y)))) x y t v" for t
    unfolding v rotated_qbuild by (simp_all only: ac_simps)
  from assms(4) consider "i = 0" | "i = 1" | "i = 2" by linarith
  then have entry: "mat_get (Wmtrx eps v) i j = map (\<lambda>r. r ! j) (Wmtrx eps v) ! i"
    unfolding eps v Wmtrx_entries [OF k_def h_def small] mat_get_def by cases simp_all
  from assms(5) consider "j = 0" | "j = 1" | "j = 2" by linarith
  then show ?thesis
  proof cases
    case 1
    then show ?thesis using D(1) unfolding entry unfolding eps v Wmtrx_entries [OF k_def h_def small]
      by (simp add: moved [unfolded v])
  next
    case 2
    then show ?thesis using D(2) unfolding entry unfolding eps v Wmtrx_entries [OF k_def h_def small]
      by (simp add: moved [unfolded v])
  next
    case 3
    then show ?thesis using D(3) unfolding entry unfolding eps v Wmtrx_entries [OF k_def h_def small]
      by (simp add: moved [unfolded v])
  qed
qed

lemma Wmtrx_jacobian_witness:
  "((\<lambda>x. mat_vec (quatDC (qbuild ([0, 0, 0][0 := x]))) [1, 2, 3] ! 1) has_real_derivative
     mat_get (Wmtrx [0, 0, 0] [1, 2, 3]) 1 0) (at ([0, 0, 0] ! 0))"
  using Wmtrx_jacobian [of "[0, 0, 0]" "[1, 2, 3]" 1 0] by (simp add: vec_ops)




end
