(* ===== verification/Euler_Orders.thy ===== *)
theory Euler_Orders
  imports Attitude_Angles
begin

text \<open>
  The twenty-four orders of Euler angles: the quaternion and the matrix of the same angles agree, and
  the angles are read back from either.

  An order only renames the axes, mirrors the angles and reverses them.  What remains is one matrix
  for three different axes and one for a repeated axis, stated here on the axes \<open>i\<close>, \<open>j\<close>, \<open>k\<close>.
\<close>

subsection \<open>One frame\<close>

definition turn_matrix :: "bool \<Rightarrow> real \<Rightarrow> real \<Rightarrow> real \<Rightarrow> real mat" where
  "turn_matrix rep a b c =
     (if rep
      then [[cos b, sin b * sin a, sin b * cos a],
            [sin b * sin c, - cos b * (sin a * sin c) + cos a * cos c, - cos b * (cos a * sin c) - sin a * cos c],
            [- sin b * cos c, cos b * (sin a * cos c) + cos a * sin c, cos b * (cos a * cos c) - sin a * sin c]]
      else [[cos b * cos c, sin b * (sin a * cos c) - cos a * sin c, sin b * (cos a * cos c) + sin a * sin c],
            [cos b * sin c, sin b * (sin a * sin c) + cos a * cos c, sin b * (cos a * sin c) - sin a * cos c],
            [- sin b, cos b * sin a, cos b * cos a]])"

definition turn_quat :: "bool \<Rightarrow> real \<Rightarrow> real \<Rightarrow> real \<Rightarrow> real vec" where
  "turn_quat rep a b c =
     (let ci = cos (a / 2); cj = cos (b / 2); ch = cos (c / 2); si = sin (a / 2); sj = sin (b / 2); sh = sin (c / 2)
      in if rep then [cj * (ci * ch - si * sh), cj * (ci * sh + si * ch), sj * (ci * ch + si * sh), sj * (ci * sh - si * ch)]
         else [cj * (ci * ch) + sj * (si * sh), cj * (si * ch) - sj * (ci * sh),
               cj * (si * sh) + sj * (ci * ch), cj * (ci * sh) - sj * (si * ch)])"

definition turn_angles :: "bool \<Rightarrow> real mat \<Rightarrow> real vec" where
  "turn_angles rep M =
     (let h = mat_get M in
      if rep then
        let sy = sqrt (h 0 1 * h 0 1 + h 0 2 * h 0 2)
        in if sy > 16 * FLT_EPSILON then [atan2 (h 0 1) (h 0 2), atan2 sy (h 0 0), atan2 (h 1 0) (- h 2 0)]
           else [atan2 (- h 1 2) (h 1 1), atan2 sy (h 0 0), 0]
      else
        let cy = sqrt (h 0 0 * h 0 0 + h 1 0 * h 1 0)
        in if cy > 16 * FLT_EPSILON then [atan2 (h 2 1) (h 2 2), atan2 (- h 2 0) cy, atan2 (h 1 0) (h 0 0)]
           else [atan2 (- h 1 2) (h 1 1), atan2 (- h 2 0) cy, 0])"

lemma turn_lengths: "length (turn_quat rep a b c) = 4" "length (turn_angles rep M) = 3"
  by (simp_all add: turn_quat_def turn_angles_def Let_def)

lemma turn_quat_parts:
  assumes "turn_quat rep a b c = [w, x, y, z]"
  obtains sa ca sb cb sc cc where
    "sa * sa + ca * ca = 1" "sb * sb + cb * cb = 1" "sc * sc + cc * cc = 1"
    "sin a = 2 * sa * ca" "cos a = 1 - 2 * (sa * sa)" "sin b = 2 * sb * cb" "cos b = 1 - 2 * (sb * sb)"
    "sin c = 2 * sc * cc" "cos c = 1 - 2 * (sc * sc)"
    "w = (if rep then cb * (ca * cc - sa * sc) else cb * (ca * cc) + sb * (sa * sc))"
    "x = (if rep then cb * (ca * sc + sa * cc) else cb * (sa * cc) - sb * (ca * sc))"
    "y = (if rep then sb * (ca * cc + sa * sc) else cb * (sa * sc) + sb * (ca * cc))"
    "z = (if rep then sb * (ca * sc - sa * cc) else cb * (ca * sc) - sb * (sa * cc))"
proof (rule that)
  show "w = (if rep then cos (b / 2) * (cos (a / 2) * cos (c / 2) - sin (a / 2) * sin (c / 2))
      else cos (b / 2) * (cos (a / 2) * cos (c / 2)) + sin (b / 2) * (sin (a / 2) * sin (c / 2)))"
    "x = (if rep then cos (b / 2) * (cos (a / 2) * sin (c / 2) + sin (a / 2) * cos (c / 2))
      else cos (b / 2) * (sin (a / 2) * cos (c / 2)) - sin (b / 2) * (cos (a / 2) * sin (c / 2)))"
    "y = (if rep then sin (b / 2) * (cos (a / 2) * cos (c / 2) + sin (a / 2) * sin (c / 2))
      else cos (b / 2) * (sin (a / 2) * sin (c / 2)) + sin (b / 2) * (cos (a / 2) * cos (c / 2)))"
    "z = (if rep then sin (b / 2) * (cos (a / 2) * sin (c / 2) - sin (a / 2) * cos (c / 2))
      else cos (b / 2) * (cos (a / 2) * sin (c / 2)) - sin (b / 2) * (sin (a / 2) * cos (c / 2)))"
    using assms by (auto simp: turn_quat_def Let_def split: if_splits)
qed (rule circle half_angle)+

lemma turn_quat_unit:
  assumes "turn_quat rep a b c = [w, x, y, z]"
  shows "w * w + x * x + y * y + z * z = 1"
  using assms
proof (rule turn_quat_parts, goal_cases)
  case (1 sa ca sb cb sc cc)
  have "w * w + x * x + y * y + z * z = (sa * sa + ca * ca) * (sb * sb + cb * cb) * (sc * sc + cc * cc)"
  proof (cases rep)
    case True
    show ?thesis unfolding 1(10-13) if_P [OF True] by algebra
  next
    case False
    show ?thesis unfolding 1(10-13) if_not_P [OF False] by algebra
  qed
  then show ?case by (simp only: 1(1-3) mult_1)
qed

text \<open>The matrix of the quaternion is the matrix of the angles.\<close>

lemma turn_quat_matrix:
  assumes "turn_quat rep a b c = [w, x, y, z]"
  shows "turn_matrix rep a b c =
     [[1 - 2 * (y * y + z * z), 2 * (x * y - w * z), 2 * (x * z + w * y)],
      [2 * (x * y + w * z), 1 - 2 * (x * x + z * z), 2 * (y * z - w * x)],
      [2 * (x * z - w * y), 2 * (y * z + w * x), 1 - 2 * (x * x + y * y)]]"
  using assms
proof (rule turn_quat_parts, goal_cases)
  case (1 sa ca sb cb sc cc)
  show ?case
  proof (cases rep)
    case True
    show ?thesis unfolding turn_matrix_def if_P [OF True] 1(4-9) list.inject simp_thms
      using 1(1-3) 1(10-13) [unfolded if_P [OF True]] by (intro conjI; algebra)
  next
    case False
    show ?thesis unfolding turn_matrix_def if_not_P [OF False] 1(4-9) list.inject simp_thms
      using 1(1-3) 1(10-13) [unfolded if_not_P [OF False]] by (intro conjI; algebra)
  qed
qed

subsection \<open>Angles of a matrix\<close>

lemma atan2_point:
  assumes "x * x + y * y = r * r" "r > 0"
  shows "cos (atan2 y x) = x / r" "sin (atan2 y x) = y / r"
proof -
  have "cmod (Complex x y) = r" using assms by (simp add: cmod_def power2_eq_square)
  moreover have "Complex x y = rcis (cmod (Complex x y)) (atan2 y x)" by (simp add: atan2_def rcis_cmod_Arg)
  ultimately have "Complex x y = rcis r (atan2 y x)" by simp
  then have "x = r * cos (atan2 y x)" "y = r * sin (atan2 y x)" by (simp_all add: complex_eq_iff)
  then show "cos (atan2 y x) = x / r" "sin (atan2 y x) = y / r" using assms(2) by (simp_all add: field_simps)
qed

lemma sqrt_turn: "sqrt (s * sin t * (s * sin t) + s * cos t * (s * cos t)) = \<bar>s\<bar>" for s t :: real
proof -
  have "s * sin t * (s * sin t) + s * cos t * (s * cos t) = s * s * (sin t * sin t + cos t * cos t)" by algebra
  then show ?thesis by (simp only: circle mult_1_right real_sqrt_abs2)
qed

lemma sqrt_turn': "sqrt (s * cos t * (s * cos t) + s * sin t * (s * sin t)) = \<bar>s\<bar>" for s t :: real
  using sqrt_turn [of s t] by (simp only: add.commute)

text \<open>How far the middle angle is from where the others are not determined.\<close>

definition turn_width :: "bool \<Rightarrow> real \<Rightarrow> real" where
  "turn_width rep b = (if rep then sin b else cos b)"

lemma turn_angles_of_matrix:
  assumes "- pi < a" "a \<le> pi" "- pi < c" "c \<le> pi" "16 * FLT_EPSILON < turn_width rep b"
    "if rep then 0 < b \<and> b < pi else - pi / 2 < b \<and> b < pi / 2"
  shows "turn_angles rep (turn_matrix rep a b c) = [a, b, c]"
proof -
  have pos: "0 < turn_width rep b" using assms(5) by (simp add: FLT_EPSILON_def)
  show ?thesis
  proof (cases rep)
    case True
    then show ?thesis using assms pos
      by (simp add: turn_angles_def turn_matrix_def mat_get_def sqrt_turn turn_width_def atan2_polar [of "sin b"] atan2_polar [of 1])
  next
    case False
    then show ?thesis using assms pos
      by (simp add: turn_angles_def turn_matrix_def mat_get_def sqrt_turn' turn_width_def atan2_polar [of "cos b"] atan2_polar [of 1])
  qed
qed

text \<open>The angles read give the matrix back, also where they are not the ones it was made from.\<close>

lemma atan2_flip:
  assumes "w \<noteq> 0"
  shows "cos (atan2 (w * sin t) (w * cos t)) = w / \<bar>w\<bar> * cos t" "sin (atan2 (w * sin t) (w * cos t)) = w / \<bar>w\<bar> * sin t"
proof -
  have "w * cos t * (w * cos t) + w * sin t * (w * sin t) = \<bar>w\<bar> * \<bar>w\<bar> * (sin t * sin t + cos t * cos t)"
    by (simp only: abs_mult_self_eq) algebra
  then have "w * cos t * (w * cos t) + w * sin t * (w * sin t) = \<bar>w\<bar> * \<bar>w\<bar>" by (simp only: circle mult_1_right)
  from atan2_point [OF this] assms
  show "cos (atan2 (w * sin t) (w * cos t)) = w / \<bar>w\<bar> * cos t" "sin (atan2 (w * sin t) (w * cos t)) = w / \<bar>w\<bar> * sin t"
    by simp_all
qed

lemma sign_square: "w \<noteq> 0 \<Longrightarrow> w / \<bar>w\<bar> * (w / \<bar>w\<bar>) = 1" for w :: real
  by (simp add: field_simps)

lemma abs_circle: "cos b * cos b + \<bar>sin b\<bar> * \<bar>sin b\<bar> = 1 * 1" "\<bar>cos b\<bar> * \<bar>cos b\<bar> + sin b * sin b = 1 * 1" for b :: real
  using circle [of b] by (simp_all add: add.commute)

lemma pole_circle:
  fixes s a c :: real
  assumes "s * s = 1"
  shows "(s * (sin a * sin c) + cos a * cos c) * (s * (sin a * sin c) + cos a * cos c)
      + - (s * (cos a * sin c) - sin a * cos c) * - (s * (cos a * sin c) - sin a * cos c) = 1 * 1"
    "(- s * (sin a * sin c) + cos a * cos c) * (- s * (sin a * sin c) + cos a * cos c)
      + - (- s * (cos a * sin c) - sin a * cos c) * - (- s * (cos a * sin c) - sin a * cos c) = 1 * 1"
  using assms circle [of a] circle [of c] by algebra+

lemma turn_angles_far:
  assumes "turn_angles rep (turn_matrix rep a b c) = [x, y, z]" "16 * FLT_EPSILON < \<bar>turn_width rep b\<bar>"
  shows "turn_matrix rep x y z = turn_matrix rep a b c"
proof -
  define w where "w = turn_width rep b"
  define s where "s = w / \<bar>w\<bar>"
  have far: "w \<noteq> 0" "16 * FLT_EPSILON < \<bar>w\<bar>" using assms(2) by (auto simp: w_def FLT_EPSILON_def)
  have s: "s * s = 1" "\<bar>w\<bar> = s * w" using sign_square [OF far(1)] far(1) by (simp_all add: s_def field_simps abs_if)
  show ?thesis
  proof (cases rep)
    case True
    then have w: "sin b = w" by (simp add: w_def turn_width_def)
    have r: "x = atan2 (w * sin a) (w * cos a)" "y = atan2 \<bar>w\<bar> (cos b)" "z = atan2 (w * sin c) (w * cos c)"
      using assms(1) True far(2) by (simp_all add: turn_angles_def turn_matrix_def mat_get_def sqrt_turn w)
    have t: "cos x = s * cos a" "sin x = s * sin a" "cos y = cos b" "sin y = s * w" "cos z = s * cos c" "sin z = s * sin c"
      using atan2_flip [OF far(1)] atan2_point [OF abs_circle(1) [of b]] by (simp_all add: r s_def [symmetric] s(2) [symmetric] w)
    show ?thesis unfolding turn_matrix_def if_P [OF True] t w list.inject simp_thms using s(1) by (intro conjI; algebra)
  next
    case False
    then have w: "cos b = w" by (simp add: w_def turn_width_def)
    have r: "x = atan2 (w * sin a) (w * cos a)" "y = atan2 (sin b) \<bar>w\<bar>" "z = atan2 (w * sin c) (w * cos c)"
      using assms(1) False far(2) by (simp_all add: turn_angles_def turn_matrix_def mat_get_def sqrt_turn' w)
    have t: "cos x = s * cos a" "sin x = s * sin a" "cos y = s * w" "sin y = sin b" "cos z = s * cos c" "sin z = s * sin c"
      using atan2_flip [OF far(1)] atan2_point [OF abs_circle(2) [of b]] by (simp_all add: r s_def [symmetric] s(2) [symmetric] w)
    show ?thesis unfolding turn_matrix_def if_not_P [OF False] t w list.inject simp_thms using s(1) by (intro conjI; algebra)
  qed
qed

lemma turn_angles_pole:
  assumes "turn_angles rep (turn_matrix rep a b c) = [x, y, z]" "turn_width rep b = 0"
  shows "turn_matrix rep x y z = turn_matrix rep a b c"
proof -
  have eps: "\<not> 16 * FLT_EPSILON < 0" by (simp add: FLT_EPSILON_def)
  show ?thesis
  proof (cases rep)
    case rep: True
    then have w: "sin b = 0" using assms(2) by (simp add: turn_width_def)
    then have one: "cos b * cos b = 1" using circle [of b] by simp
    have r: "x = atan2 (- (- cos b * (cos a * sin c) - sin a * cos c)) (- cos b * (sin a * sin c) + cos a * cos c)"
      "y = atan2 0 (cos b)" "z = 0"
      using assms(1) rep eps by (simp_all add: turn_angles_def turn_matrix_def mat_get_def w)
    have t: "cos x = - cos b * (sin a * sin c) + cos a * cos c" "sin x = cos b * (cos a * sin c) + sin a * cos c"
      "cos y = cos b" "sin y = 0" "cos z = 1" "sin z = 0"
      using atan2_point [OF pole_circle(2) [OF one]] atan2_point [of "cos b" 0 1] one by (simp_all add: r)
    show ?thesis unfolding turn_matrix_def if_P [OF rep] t w list.inject simp_thms using one by (intro conjI; ((simp; fail) | algebra))
  next
    case rep: False
    then have w: "cos b = 0" using assms(2) by (simp add: turn_width_def)
    then have one: "sin b * sin b = 1" using circle [of b] by simp
    have r: "x = atan2 (- (sin b * (cos a * sin c) - sin a * cos c)) (sin b * (sin a * sin c) + cos a * cos c)"
      "y = atan2 (sin b) 0" "z = 0"
      using assms(1) rep eps by (simp_all add: turn_angles_def turn_matrix_def mat_get_def w)
    have t: "cos x = sin b * (sin a * sin c) + cos a * cos c" "sin x = sin a * cos c - sin b * (cos a * sin c)"
      "cos y = 0" "sin y = sin b" "cos z = 1" "sin z = 0"
      using atan2_point [OF pole_circle(1) [OF one]] atan2_point [of 0 "sin b" 1] one by (simp_all add: r)
    show ?thesis unfolding turn_matrix_def if_not_P [OF rep] t w list.inject simp_thms using one by (intro conjI; ((simp; fail) | algebra))
  qed
qed

subsection \<open>Axes\<close>

text \<open>The axes of an order: an even permutation, or an odd one where the parity is odd.\<close>

definition axes :: "nat \<Rightarrow> nat \<Rightarrow> nat \<Rightarrow> nat \<Rightarrow> bool" where
  "axes n i j k \<longleftrightarrow> (i, j, k) \<in> (if n = EulParOdd then {(0, 2, 1), (1, 0, 2), (2, 1, 0)} else {(0, 1, 2), (1, 2, 0), (2, 0, 1)})"

lemma order_axes: "EulGetOrd (euler_code ord) = (i, j, k, n, s, f) \<Longrightarrow> axes n i j k"
  by (cases ord) (auto simp: EulGetOrd_def EulOrd_def EulSafe_def EulNext_def Let_def axes_def euler_flags)

lemma axes_cases:
  assumes "axes n i j k"
  obtains "i = 0" "j = 1" "k = 2" "n \<noteq> EulParOdd" | "i = 1" "j = 2" "k = 0" "n \<noteq> EulParOdd" | "i = 2" "j = 0" "k = 1" "n \<noteq> EulParOdd"
    | "i = 0" "j = 2" "k = 1" "n = EulParOdd" | "i = 1" "j = 0" "k = 2" "n = EulParOdd" | "i = 2" "j = 1" "k = 0" "n = EulParOdd"
  using assms by (auto simp: axes_def split: if_splits)

definition mirror :: "nat \<Rightarrow> real vec \<Rightarrow> real vec" where
  "mirror n e = (if n = EulParOdd then [- (e ! 0), - (e ! 1), - (e ! 2)] else e)"

lemma mirror_swap:
  assumes "length e = 3"
  shows "mirror n (mirror n e) = e" "euler_swap f (euler_swap f e) = e" "length (mirror n e) = 3" "length (euler_swap f e) = 3"
  using list_of_3 [OF assms] by (auto simp: mirror_def euler_swap_def)

text \<open>A matrix in the axes of an order stored into \<open>HMatrix\<close>, and read from it.\<close>

definition place :: "real mat \<Rightarrow> nat \<Rightarrow> nat \<Rightarrow> nat \<Rightarrow> real mat \<Rightarrow> real mat" where
  "place H i j k M = mat_sets [(3, 0, 0), (3, 1, 0), (3, 2, 0), (0, 3, 0), (1, 3, 0), (2, 3, 0), (3, 3, 1)]
     (mat_sets [(i, i, M ! 0 ! 0), (i, j, M ! 0 ! 1), (i, k, M ! 0 ! 2),
        (j, i, M ! 1 ! 0), (j, j, M ! 1 ! 1), (j, k, M ! 1 ! 2), (k, i, M ! 2 ! 0), (k, j, M ! 2 ! 1), (k, k, M ! 2 ! 2)] H)"

definition pick :: "real mat \<Rightarrow> nat \<Rightarrow> nat \<Rightarrow> nat \<Rightarrow> real mat" where
  "pick H i j k = map (\<lambda>r. map (mat_get H r) [i, j, k]) [i, j, k]"

lemma matrix_4:
  assumes "sized 4 4 H"
  obtains a b c d e f g h i j k l m n p q where "H = [[a, b, c, d], [e, f, g, h], [i, j, k, l], [m, n, p, q]]"
proof -
  have rows: "length (H ! x) = 4" if "x < 4" for x using assms that by (simp add: sized_def)
  obtain r s t u where H: "H = [r, s, t, u]" using list_of_4 [of H] assms by (auto simp: sized_def)
  obtain a b c d where r: "r = [a, b, c, d]" using list_of_4 [of r] rows [of 0] by (auto simp: H)
  obtain e f g h where s: "s = [e, f, g, h]" using list_of_4 [of s] rows [of 1] by (auto simp: H)
  obtain i j k l where t: "t = [i, j, k, l]" using list_of_4 [of t] rows [of 2] by (auto simp: H)
  obtain m n p q where u: "u = [m, n, p, q]" using list_of_4 [of u] rows [of 3] by (auto simp: H)
  show ?thesis by (rule that) (simp only: H r s t u)
qed

lemma turn_matrix_3: "\<exists>a b c d e f g h l. turn_matrix rep x y z = [[a, b, c], [d, e, f], [g, h, l]]"
  by (simp add: turn_matrix_def)

lemma pick_place:
  assumes "sized 4 4 H" "axes n i j k" "M = [[a, b, c], [d, e, f], [g, h, l]]"
  shows "pick (place H i j k M) i j k = M"
proof -
  from assms(1) obtain h0 h1 h2 h3 h4 h5 h6 h7 h8 h9 ha hb hc hd he hf where
    H: "H = [[h0, h1, h2, h3], [h4, h5, h6, h7], [h8, h9, ha, hb], [hc, hd, he, hf]]" by (rule matrix_4)
  show ?thesis using assms(2) unfolding H assms(3)
    by (rule axes_cases) (simp_all add: pick_def place_def mat_sets_def mat_set_def mat_get_def)
qed

lemma place_place:
  assumes "sized 4 4 H" "axes n i j k"
  shows "place (place H i j k M) i j k M' = place H i j k M'" "sized 4 4 (place H i j k M)"
proof -
  from assms(1) obtain h0 h1 h2 h3 h4 h5 h6 h7 h8 h9 ha hb hc hd he hf where
    H: "H = [[h0, h1, h2, h3], [h4, h5, h6, h7], [h8, h9, ha, hb], [hc, hd, he, hf]]" by (rule matrix_4)
  show "place (place H i j k M) i j k M' = place H i j k M'" using assms(2) unfolding H
    by (rule axes_cases) (simp_all add: place_def mat_sets_def mat_set_def)
  show "sized 4 4 (place H i j k M)" using assms(1) by (simp add: place_def mat_sets_def)
qed

subsection \<open>The code in these terms\<close>

lemma euler2HMatrix_place:
  assumes "EulGetOrd ord = (i, j, k, n, s, f)" "mirror n (euler_swap f e) = [a, b, c]"
  shows "euler2HMatrix H e ord = place H i j k (turn_matrix (s = EulRepYes) a b c)"
  using assms(2) unfolding mirror_def
  by (simp add: euler2HMatrix_def assms(1) Let_def place_def turn_matrix_def mult.assoc)

lemma HMatrix2euler_pick:
  assumes "EulGetOrd ord = (i, j, k, n, s, f)"
  shows "HMatrix2euler H ord = euler_swap f (mirror n (turn_angles (s = EulRepYes) (pick H i j k)))"
  by (simp add: HMatrix2euler_def assms Let_def turn_angles_def pick_def mat_get_def mirror_def)

text \<open>The mirrored angles turn the quaternion of odd axes around.\<close>

lemma fromEuler_order_turn:
  assumes "EulGetOrd ord = (i, j, k, n, s, f)" "mirror n (euler_swap f e) = [a, b, c]" "axes n i j k" "length q = 4" "length e = 3"
    "turn_quat (s = EulRepYes) a b c = [w, x, y, z]"
  shows "fromEuler_order q e ord =
     (if n = EulParOdd then q[0 := w, i + 1 := - x, j + 1 := - y, k + 1 := - z] else q[0 := w, i + 1 := x, j + 1 := y, k + 1 := z])"
proof -
  obtain t0 t1 t2 where e: "euler_swap f e = [t0, t1, t2]" using list_of_3 [OF mirror_swap(4) [OF assms(5)]] by blast
  have v: "[a, b, c] = (if n = EulParOdd then [- t0, - t1, - t2] else [t0, t1, t2])"
    using assms(2) by (auto simp: e mirror_def split: if_splits)
  obtain p0 p1 p2 p3 where q: "q = [p0, p1, p2, p3]" using list_of_4 [OF assms(4)] by blast
  show ?thesis using assms(3)
    by (rule axes_cases)
      (use assms(6) v in \<open>(auto simp: fromEuler_order_def assms(1) Let_def e q turn_quat_def; simp add: algebra_simps)+\<close>)
qed

lemma quat2HMatrix_place:
  assumes "w * w + x * x + y * y + z * z = 1"
  shows "quat2HMatrix H [w, x, y, z] = place H 0 1 2
     [[1 - 2 * (y * y + z * z), 2 * (x * y - w * z), 2 * (x * z + w * y)],
      [2 * (x * y + w * z), 1 - 2 * (x * x + z * z), 2 * (y * z - w * x)],
      [2 * (x * z - w * y), 2 * (y * z + w * x), 1 - 2 * (x * x + y * y)]]"
proof -
  have "x * x + y * y + z * z + w * w = 1" using assms by simp
  then show ?thesis
    by (simp add: quat2HMatrix_def Let_def place_def mat_sets_def) (simp add: algebra_simps)
qed

lemma turned_HMatrix:
  assumes "turn_quat rep a b c = [w, x, y, z]" "axes n i j k" "length q = 4" "sized 4 4 H"
  defines "q' \<equiv> if n = EulParOdd then q[0 := w, i + 1 := - x, j + 1 := - y, k + 1 := - z] else q[0 := w, i + 1 := x, j + 1 := y, k + 1 := z]"
  shows "quat2HMatrix H q' = place H i j k (turn_matrix rep a b c)" "vec_mag2 q' = 1"
proof -
  have one: "w * w + x * x + y * y + z * z = 1" by (rule turn_quat_unit [OF assms(1)])
  have perm: "w * w + z * z + x * x + y * y = 1" "w * w + y * y + z * z + x * x = 1" "w * w + x * x + z * z + y * y = 1"
    "w * w + z * z + y * y + x * x = 1" "w * w + y * y + x * x + z * z = 1" using one by simp_all
  obtain p0 p1 p2 p3 where q: "q = [p0, p1, p2, p3]" using list_of_4 [OF assms(3)] by blast
  from assms(4) obtain h0 h1 h2 h3 h4 h5 h6 h7 h8 h9 ha hb hc hd he hf where
    H: "H = [[h0, h1, h2, h3], [h4, h5, h6, h7], [h8, h9, ha, hb], [hc, hd, he, hf]]" by (rule matrix_4)
  show "vec_mag2 q' = 1" using assms(2) by (rule axes_cases) (simp_all add: q'_def q one perm)
  show "quat2HMatrix H q' = place H i j k (turn_matrix rep a b c)"
    using assms(2) unfolding turn_quat_matrix [OF assms(1)]
    by (rule axes_cases) (simp_all add: q'_def q quat2HMatrix_place one perm,
        simp_all add: H place_def mat_sets_def mat_set_def algebra_simps)
qed

lemma turned:
  assumes "sized 4 4 H" "length q = 4" "length e = 3" "EulGetOrd (euler_code ord) = (i, j, k, n, s, f)"
    "mirror n (euler_swap f e) = [a, b, c]"
  shows "quat2HMatrix H (fromEuler_order q e (euler_code ord)) = place H i j k (turn_matrix (s = EulRepYes) a b c)"
    "vec_mag2 (fromEuler_order q e (euler_code ord)) = 1"
proof -
  obtain w x y z where t: "turn_quat (s = EulRepYes) a b c = [w, x, y, z]"
    using list_of_4 [OF turn_lengths(1)] by blast
  note ax = order_axes [OF assms(4)]
  show "quat2HMatrix H (fromEuler_order q e (euler_code ord)) = place H i j k (turn_matrix (s = EulRepYes) a b c)"
    "vec_mag2 (fromEuler_order q e (euler_code ord)) = 1"
    unfolding fromEuler_order_turn [OF assms(4,5) ax assms(2,3) t] by (rule turned_HMatrix [OF t ax assms(2,1)])+
qed

lemma order_angles:
  assumes "length e = 3"
  obtains i j k n s f a b c where "EulGetOrd (euler_code ord) = (i, j, k, n, s, f)" "axes n i j k" "mirror n (euler_swap f e) = [a, b, c]"
proof -
  obtain i j k n s f where o: "EulGetOrd (euler_code ord) = (i, j, k, n, s, f)" by (metis prod_cases6)
  obtain a b c where "mirror n (euler_swap f e) = [a, b, c]"
    using list_of_3 [of "mirror n (euler_swap f e)"] assms by (auto simp: mirror_swap)
  then show ?thesis using that o order_axes [OF o] by blast
qed

subsection \<open>Both ways\<close>

text \<open>
  C35: in each of the twenty-four orders \<open>fromEuler\<close> makes a unit quaternion, whatever it held before,
  whose \<open>HMatrix\<close> is the one \<open>euler2HMatrix\<close> writes from the same angles; and the order of the
  aerospace angles is the one of \<open>fromEuler\<close> without an order.
\<close>

theorem euler_orders:
  assumes "sized 4 4 H" "length q = 4" "length e = 3"
  shows "quat2HMatrix H (fromEuler_order q e (euler_code ord)) = euler2HMatrix H e (euler_code ord) \<and>
    vec_mag2 (fromEuler_order q e (euler_code ord)) = 1 \<and> fromEuler_order q e (euler_code EulOrdXYZs) = fromEuler e"
proof -
  obtain i j k n s f a b c where o: "EulGetOrd (euler_code ord) = (i, j, k, n, s, f)" "mirror n (euler_swap f e) = [a, b, c]"
    using order_angles [OF assms(3)] by metis
  have "fromEuler_order q e (euler_code EulOrdXYZs) = fromEuler e"
    using list_of_3 [OF assms(3)] list_of_4 [OF assms(2)]
    by (auto simp: fromEuler_order_def fromEuler_def EulGetOrd_def EulOrd_def EulSafe_def EulNext_def euler_flags euler_swap_def Let_def)
  then show ?thesis by (simp add: turned [OF assms o] euler2HMatrix_place [OF o])
qed

lemma euler_orders_witness:
  "quat2HMatrix (mat_fill 4 4 0) (fromEuler_order [9, 9, 9, 9] [1, 2, 3] (euler_code EulOrdZYZr)) =
     euler2HMatrix (mat_fill 4 4 0) [1, 2, 3] (euler_code EulOrdZYZr)"
  using euler_orders [of "mat_fill 4 4 0" "[9, 9, 9, 9]" "[1, 2, 3]" EulOrdZYZr] by simp

lemma read_turned:
  assumes "sized 4 4 H" "EulGetOrd (euler_code ord) = (i, j, k, n, s, f)"
  shows "HMatrix2euler (place H i j k (turn_matrix rep a b c)) (euler_code ord) =
     euler_swap f (mirror n (turn_angles (s = EulRepYes) (turn_matrix rep a b c)))"
  using turn_matrix_3 [of rep a b c] pick_place [OF assms(1) order_axes [OF assms(2)]]
  by (auto simp: HMatrix2euler_pick [OF assms(2)])

text \<open>The angles an order is read in: the middle one within a half turn, away from its ends.\<close>

definition proper_angles :: "nat \<Rightarrow> real vec \<Rightarrow> bool" where
  "proper_angles code e =
     (let (i, j, k, n, s, f) = EulGetOrd code; m = (if n = EulParOdd then - (e ! 1) else e ! 1)
      in \<bar>e ! 0\<bar> < pi \<and> \<bar>e ! 2\<bar> < pi \<and>
         (if s = EulRepYes then 0 < m \<and> m < pi \<and> 16 * FLT_EPSILON < sin m
          else - pi / 2 < m \<and> m < pi / 2 \<and> 16 * FLT_EPSILON < cos m))"

text \<open>
  C36: in exact arithmetic, and for each of the twenty-four orders, \<open>toEuler(order)\<close> gives back the
  angles \<open>fromEuler\<close> of the same order was called with, provided the two outer angles are within half
  a turn and the middle one is inside its range and away from the poles: between 0 and half a turn for
  an order with a repeated axis, within a quarter turn for one of three axes, with its sine or cosine
  above the bound \<open>16 * FLT_EPSILON\<close> the code tests.  Other angles need not come back.
\<close>

theorem euler_orders_roundtrip:
  assumes "sized 4 4 H" "length q = 4" "length e = 3" "proper_angles (euler_code ord) e"
  shows "toEuler_order H (fromEuler_order q e (euler_code ord)) (euler_code ord) = (e, euler2HMatrix H e (euler_code ord))"
proof -
  obtain i j k n s f a b c where o: "EulGetOrd (euler_code ord) = (i, j, k, n, s, f)" "mirror n (euler_swap f e) = [a, b, c]"
    using order_angles [OF assms(3)] by metis
  obtain t0 t1 t2 where e: "e = [t0, t1, t2]" using list_of_3 [OF assms(3)] by blast
  have "turn_angles (s = EulRepYes) (turn_matrix (s = EulRepYes) a b c) = [a, b, c]"
    by (rule turn_angles_of_matrix)
      (use assms(4) o(2) in \<open>auto simp: proper_angles_def o(1) e mirror_def euler_swap_def turn_width_def split: if_splits\<close>)
  moreover have "euler_swap f (mirror n [a, b, c]) = e"
    unfolding o(2) [symmetric] using assms(3) by (simp add: mirror_swap)
  ultimately show ?thesis
    by (simp add: toEuler_order_def turned [OF assms(1-3) o] read_turned [OF assms(1) o(1)] euler2HMatrix_place [OF o])
qed

lemma euler_orders_roundtrip_witness:
  "fst (toEuler_order (mat_fill 4 4 0) (fromEuler_order [0, 0, 0, 0] [1, pi / 2, - 1] (euler_code EulOrdZXZs)) (euler_code EulOrdZXZs)) =
     [1, pi / 2, - 1]"
proof -
  have "proper_angles (euler_code EulOrdZXZs) [1, pi / 2, - 1]"
    using pi_ge_two by (simp add: proper_angles_def EulGetOrd_def EulOrd_def Let_def euler_flags FLT_EPSILON_def)
  then show ?thesis
    using euler_orders_roundtrip [of "mat_fill 4 4 0" "[0, 0, 0, 0]" "[1, pi / 2, - 1]" EulOrdZXZs] by simp
qed

text \<open>
  Where the middle angle is at a pole or not within \<open>16 * FLT_EPSILON\<close> of one, the angles
  \<open>toEuler(order)\<close> reads, which need not be those of \<open>fromEuler\<close>, stand for the same rotation.
\<close>

theorem euler_orders_same_rotation:
  assumes "sized 4 4 H" "length q = 4" "length e = 3"
    "EulGetOrd (euler_code ord) = (i, j, k, n, s, f)" "w = (if s = EulRepYes then sin (e ! 1) else cos (e ! 1))"
    "w = 0 \<or> 16 * FLT_EPSILON < \<bar>w\<bar>"
  shows "toEuler_order H (fromEuler_order q e (euler_code ord)) (euler_code ord) = (e', H') \<Longrightarrow>
     H' = euler2HMatrix H e (euler_code ord) \<and> euler2HMatrix H' e' (euler_code ord) = H'"
proof -
  assume read: "toEuler_order H (fromEuler_order q e (euler_code ord)) (euler_code ord) = (e', H')"
  obtain a b c where o: "mirror n (euler_swap f e) = [a, b, c]"
    using list_of_3 [of "mirror n (euler_swap f e)"] assms(3) by (auto simp: mirror_swap)
  let ?M = "turn_matrix (s = EulRepYes) a b c"
  obtain x y z where t: "turn_angles (s = EulRepYes) ?M = [x, y, z]"
    using list_of_3 [OF turn_lengths(2)] by blast
  have "\<bar>turn_width (s = EulRepYes) b\<bar> = \<bar>w\<bar>"
    using o list_of_3 [OF assms(3)] assms(5) by (auto simp: mirror_def euler_swap_def turn_width_def split: if_splits)
  then have same: "turn_matrix (s = EulRepYes) x y z = ?M"
    using turn_angles_pole [OF t] turn_angles_far [OF t] assms(6) by auto
  have H': "H' = place H i j k ?M" "e' = euler_swap f (mirror n [x, y, z])"
    using read by (auto simp: toEuler_order_def turned [OF assms(1-4) o] read_turned [OF assms(1,4)] t)
  have "mirror n (euler_swap f e') = [x, y, z]" by (simp add: H'(2) mirror_swap)
  then have "euler2HMatrix H' e' (euler_code ord) = H'"
    by (simp add: euler2HMatrix_place [OF assms(4)] same H'(1) place_place [OF assms(1) order_axes [OF assms(4)]])
  then show "H' = euler2HMatrix H e (euler_code ord) \<and> euler2HMatrix H' e' (euler_code ord) = H'"
    by (simp add: euler2HMatrix_place [OF assms(4) o] H'(1))
qed

lemma euler_orders_same_rotation_witness:
  "let (e', H') = toEuler_order (mat_fill 4 4 0) (fromEuler_order [0, 0, 0, 0] [1, pi / 2, - 1] (euler_code EulOrdXYZs)) (euler_code EulOrdXYZs)
   in euler2HMatrix H' e' (euler_code EulOrdXYZs) = H'"
  using euler_orders_same_rotation [of "mat_fill 4 4 0" "[0, 0, 0, 0]" "[1, pi / 2, - 1]" EulOrdXYZs 0 1 2 0 0 0 0]
  by (auto simp: EulGetOrd_def EulOrd_def EulSafe_def EulNext_def euler_flags Let_def split: prod.splits)

end
