(* ===== verification/Backport_Table.thy ===== *)
theory Backport_Table
  imports Apx_Prelude
begin

text \<open>
  \<open>mandala/backport/MandalaTemplate.h\<close>: the variables of the old dictionary, in the order of the file,
  and the indexes \<open>MandalaIndexes.h\<close> numbers them with.  The file is expanded by macros \<open>MIDX\<close>,
  \<open>MVAR\<close> and \<open>MBIT\<close>, which are constructors here; it is read without \<open>MANDALA_TINY\<close>.
\<close>

datatype vt = vt_void | vt_idx | vt_byte | vt_uint | vt_flag | vt_enum | vt_float | vt_vect | vt_point

text \<open>The packed forms, by the names that end the packing functions.\<close>

datatype vfmt = F2 | F4 | S1 | S01 | S001 | S10 | U1 | U2 | U4 | U01 | U001 | U10 | U100

text \<open>An index with its name, description and value, where it has one; a variable with type, name,
  description and the formats of the two streams; a bit or value of a variable.\<close>

datatype special = MIDX string string "nat option"

datatype entry = MVAR vt string string vfmt vfmt | MBIT string string string nat

definition idxPAD :: nat where "idxPAD = 32"

definition special_indexes :: "special list" where
  "special_indexes =
    [MIDX ''service'' ''Service packet <node_sn>,<cmd>,<data..>'' (Some 0),
     MIDX ''xpdr'' ''Transponder data <xpdr>'' None,
     MIDX ''ident'' ''Identification <ident>'' None,
     MIDX ''dlink'' ''Datalink <squawk>,<var_idx>,<data..>'' None,
     MIDX ''ping'' ''Ping packet, no reply expected'' (Some 8),
     MIDX ''sim'' ''Simulator data <var_idx>,<data..>'' None,
     MIDX ''hid'' ''HID data <var_idx>,<data..>'' None,
     MIDX ''jsexec'' ''Execute JS script <script text>'' None,
     MIDX ''downstream'' ''Downlink stream <stream>'' (Some 16),
     MIDX ''uplink'' ''Uplink wrapped packet <var_idx>,<data..>'' None,
     MIDX ''mission'' ''Mission data <packed mission>'' None,
     MIDX ''set'' ''Set component <var_idx>,<msk>,<float/byte>'' None,
     MIDX ''data'' ''Port serial data <port_id>,<data..>'' None,
     MIDX ''ldata'' ''Port data local <port_id>,<data..>'' None,
     MIDX ''can'' ''Auxilary CAN data <ID32 b31=IDE>,<data..>'' None,
     MIDX ''vmexec'' ''Execute VM script <@function>'' None,
     MIDX ''prio'' ''Priority assigned var <nodeID>,<prio>,<var_idx>,<data..>'' None,
     MIDX ''active'' ''Autopilot active flag'' None,
     MIDX ''video'' ''Video stream <data>'' None,
     MIDX ''formation'' ''Formation flight data <packed data>'' None,
     MIDX ''vor'' ''VOR beacon <packed data>'' None]"

definition vars_imu :: "entry list" where
  "vars_imu =
    [MVAR vt_vect ''theta'' ''attitude: roll,pitch,yaw [deg]'' F2 F2,
     MVAR vt_vect ''acc'' ''acceleration: Ax,Ay,Az [m/s2]'' F2 S1,
     MVAR vt_vect ''gyro'' ''angular rate: p,q,r [deg/s]'' F2 S10,
     MVAR vt_vect ''mag'' ''magnetic field: Hx,Hy,Hz [a.u.]'' F2 S001]"

definition vars_flight_sensors :: "entry list" where
  "vars_flight_sensors =
    [MVAR vt_float ''altitude'' ''Altitude [m]'' F4 F4,
     MVAR vt_float ''airspeed'' ''Airspeed [m/s]'' F2 F2,
     MVAR vt_float ''vspeed'' ''Vertical speed [m/s]'' F2 F2,
     MVAR vt_float ''course'' ''Moving direction [deg]'' F2 F2]"

definition vars_ap_sensors :: "entry list" where
  "vars_ap_sensors =
    [MVAR vt_uint ''rpm'' ''engine RPM [1/min]'' U2 U2,
     MVAR vt_float ''agl'' ''Above Ground Level altitude [m]'' F2 F2,
     MVAR vt_float ''slip'' ''slip [deg]'' F2 S01,
     MVAR vt_float ''attack'' ''angle of attack [deg]'' F2 S01,
     MVAR vt_float ''venergy'' ''compensated variometer [m/s]'' F2 F2,
     MVAR vt_float ''ldratio'' ''glide ratio [Lift/Drag]'' F2 F2,
     MVAR vt_float ''buoyancy'' ''Blimp ballonet pressure [kPa]'' F2 F2]"

definition vars_fast_controls :: "entry list" where
  "vars_fast_controls =
    [MVAR vt_float ''ctr_ailerons'' ''ailerons [-1..0..+1]'' F2 S001,
     MVAR vt_float ''ctr_elevator'' ''elevator [-1..0..+1]'' F2 S001,
     MVAR vt_float ''ctr_throttle'' ''throttle [0..1]'' F2 U001,
     MVAR vt_float ''ctr_rudder'' ''rudder [-1..0..+1]'' F2 S001,
     MVAR vt_float ''ctr_collective'' ''collective pitch [-1..0..+1]'' F2 S001]"

definition vars_slow_controls :: "entry list" where
  "vars_slow_controls =
    [MVAR vt_float ''ctr_steering'' ''steering [-1..0..+1]'' F2 S001,
     MVAR vt_float ''ctr_airbrk'' ''airbrakes [0..1]'' F2 U001,
     MVAR vt_float ''ctr_flaps'' ''flaps [0..1]'' U001 U001,
     MVAR vt_float ''ctr_brake'' ''brake [0..1]'' F2 U001,
     MVAR vt_float ''ctr_mixture'' ''mixture [0..1]'' F2 U001,
     MVAR vt_float ''ctr_engine'' ''engine tuning [0..1]'' F2 U001,
     MVAR vt_float ''ctr_sweep'' ''sweep [-1..0..1]'' F2 S001,
     MVAR vt_float ''ctr_buoyancy'' ''buoyancy [-1..0..1]'' F2 S001,
     MVAR vt_flag ''ctrb'' ''controls bitfield [on/off]'' U1 U1,
     MBIT ''ctrb'' ''ers'' ''ERS on/off'' 1,
     MBIT ''ctrb'' ''rel'' ''Parachute released/locked'' 2,
     MBIT ''ctrb'' ''drp'' ''Drop-off open/locked'' 4,
     MBIT ''ctrb'' ''pump'' ''Fuel pump on/off'' 8,
     MBIT ''ctrb'' ''starter'' ''Starter request'' 16,
     MBIT ''ctrb'' ''horn'' ''Horn signal'' 32,
     MBIT ''ctrb'' ''rev'' ''Reverse activated/off'' 64,
     MBIT ''ctrb'' ''gear'' ''Landing gear retracted/extracted'' 128,
     MVAR vt_float ''ctr_brakeL'' ''left brake [0..1]'' F2 U001,
     MVAR vt_float ''ctr_brakeR'' ''right brake [0..1]'' F2 U001]"

definition vars_commands :: "entry list" where
  "vars_commands =
    [MVAR vt_vect ''cmd_theta'' ''commanded attitude: roll,pitch,yaw [deg]'' F2 F2,
     MVAR vt_point ''cmd_NE'' ''commanded position: north,east [m]'' F2 F2,
     MVAR vt_float ''cmd_course'' ''commanded course [deg]'' F2 F2,
     MVAR vt_uint ''cmd_rpm'' ''commanded RPM [rpm]'' U2 U2,
     MVAR vt_float ''cmd_altitude'' ''commanded altitude [m]'' F2 F2,
     MVAR vt_float ''cmd_airspeed'' ''commanded airspeed [m/s]'' F2 F2,
     MVAR vt_float ''cmd_vspeed'' ''commanded vertical speed [m/s]'' F2 S01,
     MVAR vt_float ''cmd_slip'' ''commanded slip [deg]'' F2 S1]"

definition vars_gps :: "entry list" where
  "vars_gps =
    [MVAR vt_vect ''gps_pos'' ''GPS position: lat,lon,hmsl [deg,deg,m]'' F4 F4,
     MVAR vt_vect ''gps_vel'' ''GPS velocity: Vnorth,Veast,Vdown [m/s]'' F2 F2,
     MVAR vt_uint ''gps_time'' ''GPS UTC Time from 1970 1st Jan [sec]'' U4 U4]"

definition vars_other_sensors :: "entry list" where
  "vars_other_sensors =
    [MVAR vt_float ''fuel'' ''fuel capacity [l]'' F4 F2,
     MVAR vt_float ''frate'' ''fuel flow rate [l/h]'' F4 F2,
     MVAR vt_float ''RSS'' ''modem signal strength [0..1]'' U001 U001]"

definition vars_battery :: "entry list" where
  "vars_battery =
    [MVAR vt_float ''Ve'' ''system battery voltage [v]'' F2 F2,
     MVAR vt_float ''Vs'' ''servo battery voltage [v]'' F2 F2,
     MVAR vt_float ''Vp'' ''payload battery voltage [v]'' F2 F2,
     MVAR vt_float ''Vm'' ''engine battery voltage [v]'' F2 F2,
     MVAR vt_float ''Ie'' ''system current [A]'' U001 U001,
     MVAR vt_float ''Is'' ''servo current [A]'' U01 U01,
     MVAR vt_float ''Ip'' ''payload current [A]'' U01 U01,
     MVAR vt_float ''Im'' ''engine current [A]'' U1 U1]"

definition vars_temperatures :: "entry list" where
  "vars_temperatures =
    [MVAR vt_float ''AT'' ''ambient temperature [C]'' S1 S1,
     MVAR vt_float ''RT'' ''room temperature [C]'' S1 S1,
     MVAR vt_float ''MT'' ''modem temperature [C]'' S1 S1,
     MVAR vt_float ''ET'' ''engine temperature [C]'' U1 U1,
     MVAR vt_float ''EGT'' ''exhaust gas temperature [C]'' U10 U10,
     MVAR vt_float ''OT'' ''oil temperature [C]'' U1 U1,
     MVAR vt_float ''OP'' ''oil pressure [atm]'' U01 U01]"

definition vars_ils :: "entry list" where
  "vars_ils =
    [MVAR vt_flag ''ilsb'' ''ILS bitfield [on/off]'' U1 U1,
     MBIT ''ilsb'' ''armed'' ''ILS armed/off'' 1,
     MBIT ''ilsb'' ''approach'' ''ILS approach available/lost'' 2,
     MBIT ''ilsb'' ''offset'' ''ILS offset available/lost'' 4,
     MBIT ''ilsb'' ''platform'' ''ILS platform available/lost'' 8,
     MVAR vt_point ''ils_RSS'' ''ILS signal strength: IR,RF [0..1]'' U001 U001,
     MVAR vt_float ''ils_HDG'' ''ILS heading to VOR1 [deg]'' F2 F2,
     MVAR vt_float ''ils_DME'' ''ILS distance to VOR1 [m]'' F2 F2,
     MVAR vt_point ''ils_offset'' ''ILS offset: heading,altitude [deg]'' F2 F2,
     MVAR vt_vect ''platform_pos'' ''Platform position: lat,lon,hmsl [deg,deg,m]'' F4 F4,
     MVAR vt_vect ''platform_vel'' ''Platform velocity: Vnorth,Veast,Vdown [m/s]'' F2 F2,
     MVAR vt_float ''platform_hdg'' ''Platform heading [deg]'' F2 F2]"

definition vars_proximity :: "entry list" where
  "vars_proximity =
    [MVAR vt_float ''range'' ''distance to target [m]'' F2 F2,
     MVAR vt_vect ''radar_vXYZ'' ''radar velocity: Vx,Vy,Vz [m/s]'' F2 F2,
     MVAR vt_vect ''radar_dXYZ'' ''radar delta: dx,dy,dz [m]'' F2 F2]"

definition vars_status :: "entry list" where
  "vars_status =
    [MVAR vt_byte ''stage'' ''maneuver stage'' U1 U1,
     MVAR vt_enum ''mode'' ''flight mode'' U1 U1,
     MBIT ''mode'' ''EMG'' ''Realtime control'' 0,
     MBIT ''mode'' ''RPV'' ''Angles control'' 1,
     MBIT ''mode'' ''UAV'' ''Heading control'' 2,
     MBIT ''mode'' ''WPT'' ''Waypoints navigation'' 3,
     MBIT ''mode'' ''HOME'' ''Go back home'' 4,
     MBIT ''mode'' ''STBY'' ''Loiter around DNED'' 5,
     MBIT ''mode'' ''TAXI'' ''Taxi'' 6,
     MBIT ''mode'' ''TAKEOFF'' ''Takeoff'' 7,
     MBIT ''mode'' ''LANDING'' ''Landing'' 8,
     MVAR vt_flag ''status'' ''AP status'' U1 U1,
     MBIT ''status'' ''rc'' ''RC on/off'' 1,
     MBIT ''status'' ''gps'' ''GPS available/lost'' 2,
     MBIT ''status'' ''home'' ''GPS initialized'' 4,
     MBIT ''status'' ''agl'' ''AGL available/off'' 8,
     MBIT ''status'' ''modem'' ''Uplink available/lost'' 16,
     MBIT ''status'' ''landed'' ''Vehicle landed/flying'' 32,
     MBIT ''status'' ''touch'' ''Landing gear touchdown/floating'' 64,
     MVAR vt_flag ''error'' ''AP generated errors'' U1 U1,
     MBIT ''error'' ''power'' ''Power supply error/ok'' 1,
     MBIT ''error'' ''cas'' ''CAS error/ok'' 2,
     MBIT ''error'' ''pstatic'' ''Static pressure error/ok'' 4,
     MBIT ''error'' ''gyro'' ''IMU gyros bias'' 8,
     MBIT ''error'' ''rpm'' ''RPM sensor error/ok'' 16,
     MVAR vt_flag ''cmode'' ''AP operation options'' U1 U1,
     MBIT ''cmode'' ''dlhd'' ''High precision downstream on/off'' 1,
     MBIT ''cmode'' ''thrcut'' ''Throttle cut on/off'' 2,
     MBIT ''cmode'' ''throvr'' ''Throttle override on/off'' 4,
     MBIT ''cmode'' ''hover'' ''Stabilization mode hover/run'' 8,
     MBIT ''cmode'' ''hyaw'' ''Hover yaw compensated/fixed'' 16,
     MBIT ''cmode'' ''ahrs'' ''AHRS mode inertial/gps'' 32,
     MBIT ''cmode'' ''nomag'' ''Magnetometer blocked/on'' 64]"

definition vars_power :: "entry list" where
  "vars_power =
    [MVAR vt_flag ''power'' ''power controls'' U1 U1,
     MBIT ''power'' ''ap'' ''Avionics on/off'' 1,
     MBIT ''power'' ''servo'' ''Servo on/off'' 2,
     MBIT ''power'' ''ignition'' ''Engine on/off'' 4,
     MBIT ''power'' ''payload'' ''Payload activated/off'' 8,
     MBIT ''power'' ''agl'' ''AGL sensor on/off'' 16,
     MBIT ''power'' ''xpdr'' ''XPDR on/off'' 32,
     MVAR vt_flag ''sw'' ''switch controls'' U1 U1,
     MBIT ''sw'' ''starter'' ''Starter on/off'' 1,
     MBIT ''sw'' ''lights'' ''Lights on/off'' 2,
     MBIT ''sw'' ''taxi'' ''Taxi lights on/off'' 4,
     MBIT ''sw'' ''ice'' ''Anti-ice on/off'' 8,
     MBIT ''sw'' ''sw1'' ''switch 1 on/off'' 16,
     MBIT ''sw'' ''sw2'' ''switch 2 on/off'' 32,
     MBIT ''sw'' ''sw3'' ''switch 3 on/off'' 64,
     MBIT ''sw'' ''sw4'' ''switch 4 on/off'' 128,
     MVAR vt_flag ''sb'' ''Event sensors [on/off]'' U1 U1,
     MBIT ''sb'' ''shutdown'' ''System shutdown/on'' 1,
     MBIT ''sb'' ''ers_err'' ''ERS error/ok'' 2,
     MBIT ''sb'' ''ers_disarm'' ''ERS disarmed/armed'' 4,
     MBIT ''sb'' ''eng_err'' ''Engine error/ok'' 8,
     MBIT ''sb'' ''bat_err'' ''Battery error/ok'' 16,
     MBIT ''sb'' ''gen_err'' ''Alternator error/ok'' 32]"

definition vars_maneuvers :: "entry list" where
  "vars_maneuvers =
    [MVAR vt_byte ''wpidx'' ''current waypoint [0..255]'' U1 U1,
     MVAR vt_byte ''rwidx'' ''current runway [0..255]'' U1 U1,
     MVAR vt_byte ''twidx'' ''current taxiway [0..255]'' U1 U1,
     MVAR vt_byte ''piidx'' ''current point of interest [0..255]'' U1 U1,
     MVAR vt_enum ''midx'' ''mission index action'' U1 U1,
     MBIT ''midx'' ''inc'' ''Increment mission index'' 0,
     MBIT ''midx'' ''dec'' ''Decrement mission index'' 1,
     MVAR vt_float ''tgHDG'' ''current tangent heading [deg]'' F2 F2,
     MVAR vt_float ''turnR'' ''current circle radius [m]'' F2 F2,
     MVAR vt_float ''delta'' ''general delta (depends on mode) [m]'' F2 F2,
     MVAR vt_byte ''loops'' ''number of remaining turns or loops [0..255]'' U1 U1,
     MVAR vt_uint ''ETA'' ''estimated time of arrival [s]'' U4 U4,
     MVAR vt_enum ''mtype'' ''Mission maneuver type'' U1 U1,
     MBIT ''mtype'' ''hdg'' ''Heading navigation'' 0,
     MBIT ''mtype'' ''line'' ''Line navigation'' 1]"

definition vars_tuning :: "entry list" where
  "vars_tuning =
    [MVAR vt_float ''windSpd'' ''wind speed [m/s]'' F2 U01,
     MVAR vt_float ''windHdg'' ''wind direction to [deg]'' F2 F2,
     MVAR vt_float ''cas2tas'' ''CAS to TAS multiplier [K]'' F2 U001,
     MVAR vt_float ''rwAdj'' ''runway displacement adjust [m]'' S1 S1,
     MVAR vt_byte ''gps_SV'' ''GPS Satellites visible [number]'' U1 U1,
     MVAR vt_byte ''gps_SU'' ''GPS Satellites used [number]'' U1 U1,
     MVAR vt_byte ''gps_jcw'' ''GPS CW Jamming level [0..255]'' U1 U1,
     MVAR vt_enum ''gps_jstate'' ''GPS Jamming'' U1 U1,
     MBIT ''gps_jstate'' ''off'' ''disabled'' 0,
     MBIT ''gps_jstate'' ''ok'' ''ok'' 1,
     MBIT ''gps_jstate'' ''warn'' ''warning'' 2,
     MBIT ''gps_jstate'' ''critical'' ''critical warning'' 3,
     MVAR vt_vect ''home_pos'' ''home position: lat,lon,hmsl [deg,deg,m]'' F4 F4,
     MVAR vt_float ''altps_gnd'' ''barometric altitude on ground level [m]'' F4 F4,
     MVAR vt_byte ''errcode'' ''error code'' U1 U1,
     MVAR vt_float ''stab'' ''Stability [0..1]'' F2 U001]"

definition vars_payloads :: "entry list" where
  "vars_payloads =
    [MVAR vt_vect ''cam_theta'' ''camera orientation: roll,pitch,yaw [deg]'' F4 F2,
     MVAR vt_point ''turret_att'' ''turret orientation: pitch,heading [deg]'' F4 F2,
     MVAR vt_flag ''turret'' ''turret controls bitfield [on/off]'' U1 U1,
     MBIT ''turret'' ''armed'' ''turret armed/disarmed'' 1,
     MBIT ''turret'' ''shoot'' ''turret shooting/standby'' 2,
     MBIT ''turret'' ''reload'' ''turret reloading/reloaded'' 4,
     MBIT ''turret'' ''sw1'' ''turret switch1 on/off'' 8,
     MBIT ''turret'' ''sw2'' ''turret switch2 on/off'' 16,
     MBIT ''turret'' ''sw3'' ''turret switch3 on/off'' 32,
     MBIT ''turret'' ''sw4'' ''turret switch4 on/off'' 64]"

definition vars_user :: "entry list" where
  "vars_user =
    [MVAR vt_flag ''userb'' ''user bitfield [on/off]'' U1 U1,
     MBIT ''userb'' ''1'' ''user bit 1'' 1,
     MBIT ''userb'' ''2'' ''user bit 2'' 2,
     MBIT ''userb'' ''3'' ''user bit 3'' 4,
     MBIT ''userb'' ''4'' ''user bit 4'' 8,
     MBIT ''userb'' ''5'' ''user bit 5'' 16,
     MBIT ''userb'' ''6'' ''user bit 6'' 32,
     MBIT ''userb'' ''7'' ''user bit 7'' 64,
     MBIT ''userb'' ''8'' ''user bit 8'' 128,
     MVAR vt_float ''user1'' ''User value 1'' F4 F2,
     MVAR vt_float ''user2'' ''User value 2'' F4 F2,
     MVAR vt_float ''user3'' ''User value 3'' F4 F2,
     MVAR vt_float ''user4'' ''User value 4'' F4 F2,
     MVAR vt_float ''user5'' ''User value 5'' F4 F2,
     MVAR vt_float ''user6'' ''User value 6'' F4 F2]"

definition vars_formation :: "entry list" where
  "vars_formation =
    [MVAR vt_vect ''ls_att'' ''left: roll,pitch,cp [deg]'' F2 F2,
     MVAR vt_float ''ls_spd'' ''left: airspeed [m/s]'' F2 F2,
     MVAR vt_float ''ls_ail'' ''left: ail to center [deg]'' F2 F2,
     MVAR vt_vect ''rs_att'' ''right: roll,pitch,cp [deg]'' F2 F2,
     MVAR vt_float ''rs_spd'' ''right: airspeed [m/s]'' F2 F2,
     MVAR vt_float ''rs_ail'' ''right: ail to center [deg]'' F2 F2,
     MVAR vt_float ''vshape'' ''wing V shape [deg]'' F2 F2,
     MVAR vt_float ''cmd_vshape'' ''commanded wing V shape [deg]'' F2 F2,
     MVAR vt_float ''lrs_croll'' ''console roll central [deg]'' F2 F2]"

definition vars_local_byte :: "entry list" where
  "vars_local_byte =
    [MVAR vt_byte ''local'' ''local byte [0..255]'' U1 U1]"

definition vars_calculated :: "entry list" where
  "vars_calculated =
    [MVAR vt_point ''pos_NE'' ''local position: north,east [m]'' F4 F4,
     MVAR vt_point ''vel_NE'' ''local velocity: north,east [m/s]'' F4 F4,
     MVAR vt_float ''homeHDG'' ''heading to home position [deg]'' F4 F4,
     MVAR vt_float ''dHome'' ''distance to GCU [m]'' F4 F4,
     MVAR vt_float ''dWPT'' ''distance to waypoint [m]'' F4 F4,
     MVAR vt_point ''vXY'' ''bodyframe velocity: Vx,Vy [m/s]'' F4 F4,
     MVAR vt_point ''dXY'' ''bodyframe delta: dx,dy [m]'' F4 F4,
     MVAR vt_float ''gSpeed'' ''ground speed [m]'' F4 F4,
     MVAR vt_float ''wpHDG'' ''current waypoint heading [deg]'' F4 F4,
     MVAR vt_float ''rwDelta'' ''runway alignment [m]'' F4 F4,
     MVAR vt_float ''rwDV'' ''runway alignment velocity [m/s]'' F4 F4]"

definition vars_internal :: "entry list" where
  "vars_internal =
    [MVAR vt_uint ''dl_period'' ''downlink period [ms]'' U2 U2,
     MVAR vt_uint ''dl_timestamp'' ''downlink timestamp [ms]'' U4 U4]"

definition vars_local_sensors :: "entry list" where
  "vars_local_sensors =
    [MVAR vt_float ''altps'' ''Barometric altitude [m]'' F4 F4,
     MVAR vt_float ''vario'' ''Barometric variometer [m/s]'' F4 F4,
     MVAR vt_float ''vcas'' ''Airspeed derivative [m/s^2]'' F4 F4,
     MVAR vt_float ''denergy'' ''Venergy derivative [m/s^2]'' F4 F4]"

definition vars_pilot :: "entry list" where
  "vars_pilot =
    [MVAR vt_byte ''rc_override'' ''RC override [0..255]'' U1 U1,
     MVAR vt_float ''rc_roll'' ''RC roll [-1..0..+1]'' S001 S001,
     MVAR vt_float ''rc_pitch'' ''RC pitch [-1..0..+1]'' S001 S001,
     MVAR vt_float ''rc_throttle'' ''RC throttle [0..1]'' U001 U001,
     MVAR vt_float ''rc_yaw'' ''RC yaw [-1..0..+1]'' S001 S001]"

definition vars_camera :: "entry list" where
  "vars_camera =
    [MVAR vt_byte ''cam_ch'' ''video channel [0..255]'' U1 U1,
     MVAR vt_enum ''cam_mode'' ''camera control mode'' U1 U1,
     MBIT ''cam_mode'' ''camoff'' ''camera off'' 0,
     MBIT ''cam_mode'' ''stab'' ''gyro stabilization'' 1,
     MBIT ''cam_mode'' ''position'' ''attitude position'' 2,
     MBIT ''cam_mode'' ''speed'' ''attitude speed control'' 3,
     MBIT ''cam_mode'' ''target'' ''target position tracking'' 4,
     MBIT ''cam_mode'' ''fixed'' ''fixed position'' 5,
     MBIT ''cam_mode'' ''track'' ''target CV tracking'' 6,
     MVAR vt_vect ''camcmd_theta'' ''commanded camera orientation: roll,pitch,yaw [deg]'' F4 F4,
     MVAR vt_float ''cam_zoom'' ''camera zoom level [0..1]'' U001 U001,
     MVAR vt_float ''cam_focus'' ''camera focus [0..1]'' U001 U001,
     MVAR vt_vect ''cambias_theta'' ''camera stability bias: roll,pitch,yaw [deg/s]'' F4 F4,
     MVAR vt_flag ''cam_opt'' ''camera options [on/off]'' U1 U1,
     MBIT ''cam_opt'' ''PF'' ''picture flip on/off'' 1,
     MBIT ''cam_opt'' ''NIR'' ''NIR filter on/off'' 2,
     MBIT ''cam_opt'' ''DSP'' ''display information on/off'' 4,
     MBIT ''cam_opt'' ''FMI'' ''focus mode infinity/auto'' 8,
     MBIT ''cam_opt'' ''FM'' ''focus manual/auto'' 16,
     MBIT ''cam_opt'' ''laser'' ''rangefinder on/off'' 32,
     MVAR vt_byte ''cam_src'' ''camera source'' U1 U1,
     MVAR vt_vect ''cam_tpos'' ''camera tracking position: lat,lon,hmsl [deg,deg,m]'' F4 F4,
     MVAR vt_vect ''camctr_theta'' ''camera servo: roll,pitch,yaw [-1..0..+1]'' F4 F4,
     MVAR vt_enum ''cams'' ''camera shooting mode'' U1 U1,
     MBIT ''cams'' ''idle'' ''no shooting'' 0,
     MBIT ''cams'' ''shot'' ''single snapshot'' 1,
     MBIT ''cams'' ''dshot'' ''distance triggered snapshots'' 2,
     MVAR vt_flag ''cam_ctrb'' ''camera controls bitfield [on/off]'' U1 U1,
     MBIT ''cam_ctrb'' ''shtr'' ''shutter trigger'' 1,
     MBIT ''cam_ctrb'' ''arm'' ''arm auto focus'' 2,
     MBIT ''cam_ctrb'' ''rec'' ''rec button'' 4,
     MBIT ''cam_ctrb'' ''zin'' ''zoom in button'' 8,
     MBIT ''cam_ctrb'' ''zout'' ''zoom out button'' 16,
     MBIT ''cam_ctrb'' ''aux'' ''auxilary button'' 32,
     MVAR vt_uint ''cam_tperiod'' ''period/distance for shooting'' U2 U2,
     MVAR vt_uint ''cam_timestamp'' ''timestamp [ms]'' U4 U4]"

definition vars_turret :: "entry list" where
  "vars_turret =
    [MVAR vt_point ''turretcmd_att'' ''commanded turret orientation: pitch,yaw [deg]'' F4 F4,
     MVAR vt_vect ''turretctr_theta'' ''turret servo: roll,pitch,yaw [-1..0..+1]'' F4 F4,
     MVAR vt_enum ''turret_mode'' ''turret mode'' U1 U1,
     MBIT ''turret_mode'' ''gyro'' ''gyro stabilized'' 0,
     MBIT ''turret_mode'' ''fixed'' ''relative encoded attitude'' 1,
     MVAR vt_point ''turretenc_att'' ''turret encoders: pitch,yaw [deg]'' F4 F4]"

definition vars_ats :: "entry list" where
  "vars_ats =
    [MVAR vt_point ''atscmd_att'' ''commanded ATS orientation: pitch,yaw [deg]'' F4 F4,
     MVAR vt_point ''atsctr_att'' ''ATS servo: pitch,yaw [-1..0..+1]'' F4 F4,
     MVAR vt_point ''atsenc_att'' ''ATS encoders: pitch,yaw [deg]'' F4 F4,
     MVAR vt_enum ''ats_mode'' ''ATS mode'' U1 U1,
     MBIT ''ats_mode'' ''track'' ''track UAV'' 0,
     MBIT ''ats_mode'' ''manual'' ''manual'' 1]"

definition vars_gcu :: "entry list" where
  "vars_gcu =
    [MVAR vt_float ''gcu_RSS'' ''GCU modem signal strength [0..1]'' U001 U001,
     MVAR vt_float ''gcu_Ve'' ''GCU battery voltage [v]'' U01 U01,
     MVAR vt_float ''gcu_MT'' ''GCU modem temperature [C]'' S1 S1]"

definition vars_scripts :: "entry list" where
  "vars_scripts =
    [MVAR vt_float ''VM1'' ''script value 1'' F4 F4,
     MVAR vt_float ''VM2'' ''script value 2'' F4 F4,
     MVAR vt_float ''VM3'' ''script value 3'' F4 F4,
     MVAR vt_float ''VM4'' ''script value 4'' F4 F4,
     MVAR vt_float ''VM5'' ''script value 5'' F4 F4,
     MVAR vt_float ''VM6'' ''script value 6'' F4 F4,
     MVAR vt_float ''VM7'' ''script value 7'' F4 F4,
     MVAR vt_float ''VM8'' ''script value 8'' F4 F4,
     MVAR vt_float ''VM9'' ''script value 9'' F4 F4,
     MVAR vt_float ''VM10'' ''script value 10'' F4 F4,
     MVAR vt_float ''VM11'' ''script value 11'' F4 F4,
     MVAR vt_float ''VM12'' ''script value 12'' F4 F4,
     MVAR vt_float ''VM13'' ''script value 13'' F4 F4,
     MVAR vt_float ''VM14'' ''script value 14'' F4 F4,
     MVAR vt_float ''VM15'' ''script value 15'' F4 F4,
     MVAR vt_float ''VM16'' ''script value 16'' F4 F4,
     MVAR vt_float ''VM17'' ''script value 17'' F4 F4,
     MVAR vt_float ''VM18'' ''script value 18'' F4 F4,
     MVAR vt_float ''VM19'' ''script value 19'' F4 F4,
     MVAR vt_float ''VM20'' ''script value 20'' F4 F4,
     MVAR vt_float ''VM21'' ''script value 21'' F4 F4,
     MVAR vt_float ''VM22'' ''script value 22'' F4 F4,
     MVAR vt_float ''VM23'' ''script value 23'' F4 F4,
     MVAR vt_float ''VM24'' ''script value 24'' F4 F4,
     MVAR vt_float ''VM25'' ''script value 25'' F4 F4,
     MVAR vt_float ''VM26'' ''script value 26'' F4 F4,
     MVAR vt_float ''VM27'' ''script value 27'' F4 F4,
     MVAR vt_float ''VM28'' ''script value 28'' F4 F4,
     MVAR vt_float ''VM29'' ''script value 29'' F4 F4,
     MVAR vt_float ''VM30'' ''script value 30'' F4 F4,
     MVAR vt_float ''VM31'' ''script value 31'' F4 F4,
     MVAR vt_float ''VM32'' ''script value 32'' F4 F4]"

definition dictionary :: "entry list" where
  "dictionary =
     vars_imu @ vars_flight_sensors @ vars_ap_sensors @ vars_fast_controls @ vars_slow_controls @ vars_commands @ vars_gps @ vars_other_sensors @ vars_battery @ vars_temperatures @ vars_ils @ vars_proximity @ vars_status @ vars_power @ vars_maneuvers @ vars_tuning @ vars_payloads @ vars_user @ vars_formation @ vars_local_byte @ vars_calculated @ vars_internal @ vars_local_sensors @ vars_pilot @ vars_camera @ vars_turret @ vars_ats @ vars_gcu @ vars_scripts"

text \<open>The macros pick the variables or the bits.\<close>

type_synonym mvar = "vt \<times> string \<times> string \<times> vfmt \<times> vfmt"

fun mvar_of :: "entry \<Rightarrow> mvar list" where
  "mvar_of (MVAR t name descr fmt tfmt) = [(t, name, descr, fmt, tfmt)]"
| "mvar_of (MBIT var name descr m) = []"

fun mbit_of :: "entry \<Rightarrow> (string \<times> string \<times> string \<times> nat) list" where
  "mbit_of (MVAR t name descr fmt tfmt) = []"
| "mbit_of (MBIT var name descr m) = [(var, name, descr, m)]"

definition mvars :: "mvar list" where
  "mvars = concat (map mvar_of dictionary)"

definition mbits :: "(string \<times> string \<times> string \<times> nat) list" where
  "mbits = concat (map mbit_of dictionary)"

text \<open>Enumerators without a value follow the one before.\<close>

fun number_from :: "nat \<Rightarrow> special list \<Rightarrow> (nat \<times> string \<times> string) list" where
  "number_from n [] = []"
| "number_from n (MIDX name descr v # xs) =
     (let i = (case v of None \<Rightarrow> n | Some k \<Rightarrow> k) in (i, name, descr) # number_from (i + 1) xs)"

definition midxs :: "(nat \<times> string \<times> string) list" where
  "midxs = number_from 0 special_indexes"

text \<open>\<open>idx_vars_top\<close>, the first index after the variables.\<close>

definition idx_vars_top :: nat where
  "idx_vars_top = idxPAD + length mvars"

text \<open>\<open>idx_<name>\<close> of a variable, and of a special index.\<close>

definition index_of :: "string \<Rightarrow> nat" where
  "index_of name = idxPAD + length (takeWhile (\<lambda>(t, n, d, fmt, tfmt). n \<noteq> name) mvars)"

definition special_index :: "string \<Rightarrow> nat option" where
  "special_index name = map_option fst (find (\<lambda>(i, n, d). n = name) midxs)"

definition idx_set :: nat where "idx_set = 19"
definition idx_downstream :: nat where "idx_downstream = 16"

definition idx_local :: nat where "idx_local = index_of ''local''"

text \<open>The lists of indexes sent on a change and sent to the ground unit.\<close>

definition MANDALA_LIST_CTR :: "string list" where
  "MANDALA_LIST_CTR = [''mode'', ''status'', ''error'', ''cmode'', ''power'', ''sw'', ''cam_ch'', ''cam_mode'', ''cam_opt'', ''cam_ctrb'', ''cams'']"

definition MANDALA_LIST_DLINK :: "string list" where
  "MANDALA_LIST_DLINK = [''xpdr'', ''ident'', ''dlink'', ''downstream'', ''ping'', ''mission'', ''data'']"

definition vars_ctr :: "nat list" where
  "vars_ctr = map index_of MANDALA_LIST_CTR @ [0]"

definition vars_dlink :: "nat list" where
  "vars_dlink = map (\<lambda>n. case special_index n of Some i \<Rightarrow> i | None \<Rightarrow> 0) MANDALA_LIST_DLINK @ [0]"

end
