(* ===== verification/Backport_Pack.thy ===== *)
theory Backport_Pack
  imports Backport_Table Value_Pack
begin

text \<open>
  \<open>mandala/backport/MandalaCore.cpp\<close>, the packed forms of values.  A packing function gives the bytes it
  stores and the value, which it may correct; an unpacking function takes the bytes from memory.  The
  pointers \<open>void *\<close> are to the value and to its packed form; the alignment of the latter is not
  considered.  A conversion C leaves undefined, and a read beyond the memory, are \<open>None\<close>.
\<close>

unbundle bit_operations_syntax

subsection \<open>Mixed arithmetic\<close>

text \<open>Constants such as \<open>10.0\<close> are of type \<open>double\<close>; the result is rounded again to \<open>float\<close>.\<close>

definition f64_of_f32 :: "f32 \<Rightarrow> f64" where "f64_of_f32 v = f64_enc (f32_dec v)"
definition f32_of_f64 :: "f64 \<Rightarrow> f32" where "f32_of_f64 v = f32_enc (f64_dec v)"
definition f64_add :: "f64 \<Rightarrow> f64 \<Rightarrow> f64" where "f64_add a b = f64_enc (fl_add (f64_dec a) (f64_dec b))"
definition f64_sub :: "f64 \<Rightarrow> f64 \<Rightarrow> f64" where "f64_sub a b = f64_enc (fl_add (f64_dec a) (fl_neg (f64_dec b)))"

definition times_double :: "f32 \<Rightarrow> int \<Rightarrow> f32" where
  "times_double v k = f32_of_f64 (f64_mul (f64_of_f32 v) (f64_of_int k))"

definition over_double :: "f32 \<Rightarrow> int \<Rightarrow> f32" where
  "over_double v k = f32_of_f64 (f64_div (f64_of_f32 v) (f64_of_int k))"

text \<open>Comparisons are false where one side is not a number.\<close>

fun fl_less :: "fl \<Rightarrow> fl \<Rightarrow> bool" where
  "fl_less (Fin s p q) (Fin s' p' q') \<longleftrightarrow> (if s then - p else p) * q' < (if s' then - p' else p') * q"
| "fl_less (Fin s p q) (Inf s') \<longleftrightarrow> \<not> s'"
| "fl_less (Inf s) (Fin s' p q) \<longleftrightarrow> s"
| "fl_less (Inf s) (Inf s') \<longleftrightarrow> s \<and> \<not> s'"
| "fl_less _ _ \<longleftrightarrow> False"

fun fl_eq :: "fl \<Rightarrow> fl \<Rightarrow> bool" where
  "fl_eq (Fin s p q) (Fin s' p' q') \<longleftrightarrow> (if s then - p else p) * q' = (if s' then - p' else p') * q"
| "fl_eq (Inf s) (Inf s') \<longleftrightarrow> s = s'"
| "fl_eq _ _ \<longleftrightarrow> False"

definition f32_less :: "f32 \<Rightarrow> f32 \<Rightarrow> bool" where "f32_less a b = fl_less (f32_dec a) (f32_dec b)"
definition f32_eq :: "f32 \<Rightarrow> f32 \<Rightarrow> bool" where "f32_eq a b = fl_eq (f32_dec a) (f32_dec b)"

definition f_isvalid :: "f32 \<Rightarrow> bool" where
  "f_isvalid v \<longleftrightarrow> (case f32_dec v of Fin s p q \<Rightarrow> True | _ \<Rightarrow> False)"

text \<open>Conversions of \<open>float\<close> to the integer types.\<close>

definition f32_to_u8 :: "f32 \<Rightarrow> u8 option" where
  "f32_to_u8 v = do { i \<leftarrow> f32_trunc v; i \<leftarrow> in_range 0 255 i; Some (word_of_int i) }"

definition f32_to_s8 :: "f32 \<Rightarrow> u8 option" where
  "f32_to_s8 v = do { i \<leftarrow> f32_trunc v; i \<leftarrow> in_range (- 128) 127 i; Some (word_of_int i) }"

definition f32_to_u32 :: "f32 \<Rightarrow> u32 option" where
  "f32_to_u32 v = do { i \<leftarrow> f32_trunc v; i \<leftarrow> in_range 0 4294967295 i; Some (word_of_int i) }"

subsection \<open>Packing numbers\<close>

type_synonym 'v packed = "(bytes \<times> 'v) option"

definition pack_float_s :: "f32 \<Rightarrow> u8 option" where
  "pack_float_s v =
     (if f32_less (f32_of_int 127) v then Some 127
      else if f32_less v (f32_of_int (- 128)) then Some (word_of_int (- 128)) else f32_to_s8 v)"

definition pack_float_u :: "f32 \<Rightarrow> u8 option" where
  "pack_float_u v = (if f32_less (f32_of_int 255) v then Some 255 else f32_to_u8 v)"

definition pack_float_s1 :: "f32 \<Rightarrow> f32 packed" where
  "pack_float_s1 v = map_option (\<lambda>b. ([b], v)) (pack_float_s v)"
definition pack_float_s01 :: "f32 \<Rightarrow> f32 packed" where
  "pack_float_s01 v = map_option (\<lambda>b. ([b], v)) (pack_float_s (times_double v 10))"
definition pack_float_s001 :: "f32 \<Rightarrow> f32 packed" where
  "pack_float_s001 v = map_option (\<lambda>b. ([b], v)) (pack_float_s (times_double v 100))"
definition pack_float_s10 :: "f32 \<Rightarrow> f32 packed" where
  "pack_float_s10 v = map_option (\<lambda>b. ([b], v)) (pack_float_s (over_double v 10))"
definition pack_float_u1 :: "f32 \<Rightarrow> f32 packed" where
  "pack_float_u1 v = map_option (\<lambda>b. ([b], v)) (pack_float_u v)"
definition pack_float_u01 :: "f32 \<Rightarrow> f32 packed" where
  "pack_float_u01 v = map_option (\<lambda>b. ([b], v)) (pack_float_u (times_double v 10))"
definition pack_float_u001 :: "f32 \<Rightarrow> f32 packed" where
  "pack_float_u001 v = map_option (\<lambda>b. ([b], v)) (pack_float_u (times_double v 100))"
definition pack_float_u10 :: "f32 \<Rightarrow> f32 packed" where
  "pack_float_u10 v = map_option (\<lambda>b. ([b], v)) (pack_float_u (over_double v 10))"
definition pack_float_u100 :: "f32 \<Rightarrow> f32 packed" where
  "pack_float_u100 v = map_option (\<lambda>b. ([b], v)) (pack_float_u (over_double v 100))"

text \<open>The half-precision form of the bits \<open>x\<close>.\<close>

definition half_of_bits :: "u32 \<Rightarrow> u16" where
  "half_of_bits x =
     (if x AND 0x7FFFFFFF = 0 then ucast (drop_bit 16 x)
      else
        let xs = x AND 0x80000000; xe = x AND 0x7F800000; xm = x AND 0x007FFFFF
        in if xe = 0 then ucast (drop_bit 16 xs)
           else if xe = 0x7F800000 then
             if xm = 0 then ucast (drop_bit 16 xs OR 0x7C00) else 0xFE00
           else
             let hs = ucast (drop_bit 16 xs) :: u16;
                 hes = uint (drop_bit 23 xe) - 127 + 15
             in if hes \<ge> 0x1F then ucast (drop_bit 16 xs OR 0x7C00)
                else if hes \<le> 0 then
                  if 14 - hes > 24 then hs OR 0
                  else
                    let xm = xm OR 0x00800000;
                        hm = ucast (drop_bit (nat (14 - hes)) xm) :: u16;
                        hm = (if drop_bit (nat (13 - hes)) xm AND 1 \<noteq> 0 then hm + 1 else hm)
                    in hs OR hm
                else
                  let he = word_of_int (hes * 1024) :: u16; hm = ucast (drop_bit 13 xm) :: u16
                  in if xm AND 0x1000 \<noteq> 0 then (hs OR he OR hm) + 1 else hs OR he OR hm)"

text \<open>The value is packed as it was; one that is not valid is then set to zero.\<close>

definition pack_float_f2 :: "f32 \<Rightarrow> f32 packed" where
  "pack_float_f2 v = Some (le_bytes 2 (half_of_bits v), if f_isvalid v then v else 0)"

definition pack_float_f4 :: "f32 \<Rightarrow> f32 packed" where
  "pack_float_f4 v = Some (le_bytes 4 v, if f_isvalid v then v else 0)"

definition pack_byte_u1 :: "u8 \<Rightarrow> u8 packed" where "pack_byte_u1 v = Some ([v], v)"
definition pack_flag_u1 :: "u8 \<Rightarrow> u8 packed" where "pack_flag_u1 v = Some ([v], v)"
definition pack_enum_u1 :: "u8 \<Rightarrow> u8 packed" where "pack_enum_u1 v = Some ([v], v)"

definition pack_uint_u4 :: "u32 \<Rightarrow> u32 packed" where
  "pack_uint_u4 v = Some ([ucast v, ucast (drop_bit 8 v), ucast (drop_bit 16 v), ucast (drop_bit 24 v)], v)"

definition pack_uint_u2 :: "u32 \<Rightarrow> u32 packed" where
  "pack_uint_u2 v = (let w = (if v > 0x0000FFFF then 0x0000FFFF else v) in Some ([ucast w, ucast (drop_bit 8 w)], v))"

text \<open>A vector and a point are packed element by element.\<close>

type_synonym vect = "f32 \<times> f32 \<times> f32"
type_synonym point = "f32 \<times> f32"

definition pack_vect :: "(f32 \<Rightarrow> f32 packed) \<Rightarrow> vect \<Rightarrow> vect packed" where
  "pack_vect f v = (case v of (a, b, c) \<Rightarrow>
     do { (xs, a) \<leftarrow> f a; (ys, b) \<leftarrow> f b; (zs, c) \<leftarrow> f c; Some (xs @ ys @ zs, (a, b, c)) })"

definition pack_point :: "(f32 \<Rightarrow> f32 packed) \<Rightarrow> point \<Rightarrow> point packed" where
  "pack_point f v = (case v of (a, b) \<Rightarrow> do { (xs, a) \<leftarrow> f a; (ys, b) \<leftarrow> f b; Some (xs @ ys, (a, b)) })"

definition pack_vect_s1 :: "vect \<Rightarrow> vect packed" where "pack_vect_s1 = pack_vect pack_float_s1"
definition pack_vect_s10 :: "vect \<Rightarrow> vect packed" where "pack_vect_s10 = pack_vect pack_float_s10"
definition pack_vect_s001 :: "vect \<Rightarrow> vect packed" where "pack_vect_s001 = pack_vect pack_float_s001"
definition pack_vect_f2 :: "vect \<Rightarrow> vect packed" where "pack_vect_f2 = pack_vect pack_float_f2"
definition pack_vect_f4 :: "vect \<Rightarrow> vect packed" where "pack_vect_f4 = pack_vect pack_float_f4"
definition pack_point_f2 :: "point \<Rightarrow> point packed" where "pack_point_f2 = pack_point pack_float_f2"
definition pack_point_f4 :: "point \<Rightarrow> point packed" where "pack_point_f4 = pack_point pack_float_f4"
definition pack_point_u001 :: "point \<Rightarrow> point packed" where "pack_point_u001 = pack_point pack_float_u001"

subsection \<open>Unpacking\<close>

text \<open>The number of bytes used and the value.\<close>

type_synonym 'v taken = "(nat \<times> 'v) option"

definition take_bytes :: "nat \<Rightarrow> (bytes \<Rightarrow> 'v option) \<Rightarrow> bytes \<Rightarrow> 'v taken" where
  "take_bytes n f buf = (if n \<le> length buf then map_option (Pair n) (f (take n buf)) else None)"

definition unpack_float_s1 :: "bytes \<Rightarrow> f32 taken" where
  "unpack_float_s1 = take_bytes 1 (\<lambda>bs. Some (f32_of_int (s8_of bs)))"
definition unpack_float_s01 :: "bytes \<Rightarrow> f32 taken" where
  "unpack_float_s01 = take_bytes 1 (\<lambda>bs. Some (over_double (f32_of_int (s8_of bs)) 10))"
definition unpack_float_s001 :: "bytes \<Rightarrow> f32 taken" where
  "unpack_float_s001 = take_bytes 1 (\<lambda>bs. Some (over_double (f32_of_int (s8_of bs)) 100))"
definition unpack_float_s10 :: "bytes \<Rightarrow> f32 taken" where
  "unpack_float_s10 = take_bytes 1 (\<lambda>bs. Some (f32_of_int (s8_of bs * 10)))"
definition unpack_float_u1 :: "bytes \<Rightarrow> f32 taken" where
  "unpack_float_u1 = take_bytes 1 (\<lambda>bs. Some (f32_of_int (u8_of bs)))"
definition unpack_float_u01 :: "bytes \<Rightarrow> f32 taken" where
  "unpack_float_u01 = take_bytes 1 (\<lambda>bs. Some (over_double (f32_of_int (u8_of bs)) 10))"
definition unpack_float_u001 :: "bytes \<Rightarrow> f32 taken" where
  "unpack_float_u001 = take_bytes 1 (\<lambda>bs. Some (over_double (f32_of_int (u8_of bs)) 100))"
definition unpack_float_u10 :: "bytes \<Rightarrow> f32 taken" where
  "unpack_float_u10 = take_bytes 1 (\<lambda>bs. Some (f32_of_int (u8_of bs * 10)))"
definition unpack_float_u100 :: "bytes \<Rightarrow> f32 taken" where
  "unpack_float_u100 = take_bytes 1 (\<lambda>bs. Some (f32_of_int (u8_of bs * 100)))"

text \<open>The loop that shifts the leading bit of a denormal number into place.\<close>

partial_function (option) half_shift :: "int \<Rightarrow> u16 \<Rightarrow> (int \<times> u16) option" where
  "half_shift e hm =
     (let e = e + 1; hm = push_bit 1 hm
      in if hm AND 0x0400 = 0 then half_shift e hm else Some (e, hm))"

definition bits_of_half :: "u16 \<Rightarrow> u32 option" where
  "bits_of_half h =
     (if h AND 0x7FFF = 0 then Some (push_bit 16 (ucast h))
      else
        let hs = h AND 0x8000; he = h AND 0x7C00; hm = h AND 0x03FF
        in if he = 0 then do {
             (e, hm) \<leftarrow> half_shift (- 1) hm;
             let xs = (push_bit 16 (ucast hs) :: u32);
             let xes = uint (drop_bit 10 he) - 15 + 127 - e;
             let xe = (push_bit 23 (word_of_int xes) :: u32);
             let xm = (push_bit 13 (ucast (hm AND 0x03FF)) :: u32);
             Some (xs OR xe OR xm)
           }
           else if he = 0x7C00 then Some (if hm = 0 then push_bit 16 (ucast hs) OR 0x7F800000 else 0xFFC00000)
           else
             let xs = push_bit 16 (ucast hs) :: u32;
                 xes = uint (drop_bit 10 he) - 15 + 127;
                 xe = push_bit 23 (word_of_int xes) :: u32;
                 xm = push_bit 13 (ucast hm) :: u32
             in Some (xs OR xe OR xm))"

definition unpack_float_f2 :: "bytes \<Rightarrow> f32 taken" where
  "unpack_float_f2 = take_bytes 2 (\<lambda>bs. do { f \<leftarrow> bits_of_half (of_le bs); Some (if f_isvalid f then f else 0) })"

definition unpack_float_f4 :: "bytes \<Rightarrow> f32 taken" where
  "unpack_float_f4 = take_bytes 4 (\<lambda>bs. let f = of_le bs in Some (if f_isvalid f then f else 0))"

definition unpack_flag_u1 :: "bytes \<Rightarrow> u8 taken" where "unpack_flag_u1 = take_bytes 1 (\<lambda>bs. Some (bs ! 0))"
definition unpack_enum_u1 :: "bytes \<Rightarrow> u8 taken" where "unpack_enum_u1 = take_bytes 1 (\<lambda>bs. Some (bs ! 0))"
definition unpack_byte_u1 :: "bytes \<Rightarrow> u8 taken" where "unpack_byte_u1 = take_bytes 1 (\<lambda>bs. Some (bs ! 0))"

definition unpack_uint_u4 :: "bytes \<Rightarrow> u32 taken" where
  "unpack_uint_u4 = take_bytes 4 (\<lambda>bs. Some (((ucast (bs ! 0) OR push_bit 8 (ucast (bs ! 1))) OR push_bit 16 (ucast (bs ! 2)))
     OR push_bit 24 (ucast (bs ! 3))))"

definition unpack_uint_u2 :: "bytes \<Rightarrow> u32 taken" where
  "unpack_uint_u2 = take_bytes 2 (\<lambda>bs. Some (ucast (bs ! 0) OR push_bit 8 (ucast (bs ! 1))))"

text \<open>The elements lie behind each other, \<open>n\<close> bytes apart.\<close>

definition unpack_vect :: "nat \<Rightarrow> (bytes \<Rightarrow> f32 taken) \<Rightarrow> bytes \<Rightarrow> vect taken" where
  "unpack_vect n f buf = do {
     (_, a) \<leftarrow> f buf; (_, b) \<leftarrow> f (drop n buf); (_, c) \<leftarrow> f (drop (2 * n) buf); Some (3 * n, (a, b, c)) }"

definition unpack_point :: "nat \<Rightarrow> (bytes \<Rightarrow> f32 taken) \<Rightarrow> bytes \<Rightarrow> point taken" where
  "unpack_point n f buf = do { (_, a) \<leftarrow> f buf; (_, b) \<leftarrow> f (drop n buf); Some (2 * n, (a, b)) }"

definition unpack_vect_s1 :: "bytes \<Rightarrow> vect taken" where "unpack_vect_s1 = unpack_vect 1 unpack_float_s1"
definition unpack_vect_s10 :: "bytes \<Rightarrow> vect taken" where "unpack_vect_s10 = unpack_vect 1 unpack_float_s10"
definition unpack_vect_s001 :: "bytes \<Rightarrow> vect taken" where "unpack_vect_s001 = unpack_vect 1 unpack_float_s001"
definition unpack_vect_f2 :: "bytes \<Rightarrow> vect taken" where "unpack_vect_f2 = unpack_vect 2 unpack_float_f2"
definition unpack_vect_f4 :: "bytes \<Rightarrow> vect taken" where "unpack_vect_f4 = unpack_vect 4 unpack_float_f4"
definition unpack_point_f2 :: "bytes \<Rightarrow> point taken" where "unpack_point_f2 = unpack_point 2 unpack_float_f2"
definition unpack_point_f4 :: "bytes \<Rightarrow> point taken" where "unpack_point_f4 = unpack_point 4 unpack_float_f4"
definition unpack_point_u001 :: "bytes \<Rightarrow> point taken" where "unpack_point_u001 = unpack_point 1 unpack_float_u001"

end
