(* ===== verification/Backport_Core.thy ===== *)
theory Backport_Core
  imports Backport_Pack
begin

text \<open>
  \<open>mandala/backport/MandalaCore.cpp\<close>: the variables and their access by index.  The members of the
  class are the list of their values, in the order of the indexes.
\<close>

unbundle bit_operations_syntax

subsection \<open>Variables\<close>

datatype mval = MByte u8 | MUint u32 | MFlag u8 | MEnum u8 | MFloat f32 | MVect f32 f32 f32 | MPoint f32 f32

type_synonym core = "mval list"

fun val_type :: "mval \<Rightarrow> vt" where
  "val_type (MByte v) = vt_byte"
| "val_type (MUint v) = vt_uint"
| "val_type (MFlag v) = vt_flag"
| "val_type (MEnum v) = vt_enum"
| "val_type (MFloat v) = vt_float"
| "val_type (MVect a b c) = vt_vect"
| "val_type (MPoint a b) = vt_point"

definition core_ok :: "core \<Rightarrow> bool" where
  "core_ok vs \<longleftrightarrow> map val_type vs = map fst mvars"

text \<open>The type of an index and, for a variable, where it is.\<close>

definition get_ptr :: "u8 \<Rightarrow> (nat option \<times> vt) option" where
  "get_ptr var_idx =
     (if unat var_idx \<in> fst ` set midxs then Some (None, vt_idx)
      else if idxPAD \<le> unat var_idx \<and> unat var_idx < idx_vars_top
      then Some (Some (unat var_idx - idxPAD), fst (mvars ! (unat var_idx - idxPAD)))
      else None)"

text \<open>The outer \<open>None\<close> is an access outside of the vector; \<open>m\<close> is the element, or the mask of bits.\<close>

fun get_value :: "u8 \<Rightarrow> mval \<Rightarrow> f32 option" where
  "get_value m (MFloat v) = Some v"
| "get_value m (MVect a b c) = (if unat m < 3 then Some ([a, b, c] ! unat m) else None)"
| "get_value m (MPoint a b) = (if unat m < 2 then Some ([a, b] ! unat m) else None)"
| "get_value m (MByte v) = Some (f32_of_int (uint v))"
| "get_value m (MUint v) = Some (f32_of_int (uint v))"
| "get_value m (MFlag v) =
     Some (if m \<noteq> 0 then if v AND m \<noteq> 0 then f32_of_int 1 else f32_of_int 0 else f32_of_int (uint v))"
| "get_value m (MEnum v) = Some (f32_of_int (uint v))"

definition get_data :: "core \<Rightarrow> u16 \<Rightarrow> f32 option" where
  "get_data vs var_m =
     (case get_ptr (ucast var_m) of
        Some (Some i, t) \<Rightarrow> get_value (ucast (drop_bit 8 var_m)) (vs ! i)
      | _ \<Rightarrow> Some 0)"

fun set_value :: "u8 \<Rightarrow> f32 \<Rightarrow> mval \<Rightarrow> mval option" where
  "set_value m v (MFloat _) = Some (MFloat v)"
| "set_value m v (MVect a b c) =
     (if m = 0 then Some (MVect v b c) else if m = 1 then Some (MVect a v c)
      else if m = 2 then Some (MVect a b v) else None)"
| "set_value m v (MPoint a b) = (if m = 0 then Some (MPoint v b) else if m = 1 then Some (MPoint a v) else None)"
| "set_value m v (MByte _) = map_option MByte (f32_to_u8 v)"
| "set_value m v (MUint _) = map_option MUint (f32_to_u32 v)"
| "set_value m v (MFlag w) =
     (if m \<noteq> 0 then Some (MFlag (if f32_less v 0 \<or> f32_eq v 0 then w AND NOT m else w OR m))
      else map_option MFlag (f32_to_u8 v))"
| "set_value m v (MEnum _) = map_option MEnum (f32_to_u8 v)"

definition set_data :: "core \<Rightarrow> u16 \<Rightarrow> f32 \<Rightarrow> core option" where
  "set_data vs var_m v =
     (case get_ptr (ucast var_m) of
        Some (Some i, t) \<Rightarrow> map_option (\<lambda>w. vs[i := w]) (set_value (ucast (drop_bit 8 var_m)) v (vs ! i))
      | _ \<Rightarrow> Some vs)"

subsection \<open>Packing by format\<close>

text \<open>
  The names of the functions are composed of type and format (\<open>pack_##atype##_##abytes\<close>); a
  composition the class does not have would not compile and is \<open>None\<close>.
\<close>

definition packed_by :: "('v \<Rightarrow> mval) \<Rightarrow> ('v \<Rightarrow> 'v packed) option \<Rightarrow> 'v \<Rightarrow> (bytes \<times> mval) option" where
  "packed_by con f v = do { f \<leftarrow> f; (bs, v) \<leftarrow> f v; Some (bs, con v) }"

fun pack_float :: "vfmt \<Rightarrow> (f32 \<Rightarrow> f32 packed) option" where
  "pack_float F2 = Some pack_float_f2"
| "pack_float F4 = Some pack_float_f4"
| "pack_float S1 = Some pack_float_s1"
| "pack_float S01 = Some pack_float_s01"
| "pack_float S001 = Some pack_float_s001"
| "pack_float S10 = Some pack_float_s10"
| "pack_float U1 = Some pack_float_u1"
| "pack_float U01 = Some pack_float_u01"
| "pack_float U001 = Some pack_float_u001"
| "pack_float U10 = Some pack_float_u10"
| "pack_float U100 = Some pack_float_u100"
| "pack_float _ = None"

fun pack_vect_as :: "vfmt \<Rightarrow> (vect \<Rightarrow> vect packed) option" where
  "pack_vect_as F2 = Some pack_vect_f2"
| "pack_vect_as F4 = Some pack_vect_f4"
| "pack_vect_as S1 = Some pack_vect_s1"
| "pack_vect_as S10 = Some pack_vect_s10"
| "pack_vect_as S001 = Some pack_vect_s001"
| "pack_vect_as _ = None"

fun pack_point_as :: "vfmt \<Rightarrow> (point \<Rightarrow> point packed) option" where
  "pack_point_as F2 = Some pack_point_f2"
| "pack_point_as F4 = Some pack_point_f4"
| "pack_point_as U001 = Some pack_point_u001"
| "pack_point_as _ = None"

fun pack_uint :: "vfmt \<Rightarrow> (u32 \<Rightarrow> u32 packed) option" where
  "pack_uint U2 = Some pack_uint_u2"
| "pack_uint U4 = Some pack_uint_u4"
| "pack_uint _ = None"

definition vect_val :: "vect \<Rightarrow> mval" where "vect_val v = (case v of (a, b, c) \<Rightarrow> MVect a b c)"
definition point_val :: "point \<Rightarrow> mval" where "point_val v = (case v of (a, b) \<Rightarrow> MPoint a b)"

fun pack_as :: "vfmt \<Rightarrow> mval \<Rightarrow> (bytes \<times> mval) option" where
  "pack_as f (MByte v) = packed_by MByte (if f = U1 then Some pack_byte_u1 else None) v"
| "pack_as f (MFlag v) = packed_by MFlag (if f = U1 then Some pack_flag_u1 else None) v"
| "pack_as f (MEnum v) = packed_by MEnum (if f = U1 then Some pack_enum_u1 else None) v"
| "pack_as f (MUint v) = packed_by MUint (pack_uint f) v"
| "pack_as f (MFloat v) = packed_by MFloat (pack_float f) v"
| "pack_as f (MVect a b c) = packed_by vect_val (pack_vect_as f) (a, b, c)"
| "pack_as f (MPoint a b) = packed_by point_val (pack_point_as f) (a, b)"

definition taken_by :: "('v \<Rightarrow> mval) \<Rightarrow> (bytes \<Rightarrow> 'v taken) option \<Rightarrow> bytes \<Rightarrow> (nat \<times> mval) option" where
  "taken_by con f buf = do { f \<leftarrow> f; (n, v) \<leftarrow> f buf; Some (n, con v) }"

fun unpack_float :: "vfmt \<Rightarrow> (bytes \<Rightarrow> f32 taken) option" where
  "unpack_float F2 = Some unpack_float_f2"
| "unpack_float F4 = Some unpack_float_f4"
| "unpack_float S1 = Some unpack_float_s1"
| "unpack_float S01 = Some unpack_float_s01"
| "unpack_float S001 = Some unpack_float_s001"
| "unpack_float S10 = Some unpack_float_s10"
| "unpack_float U1 = Some unpack_float_u1"
| "unpack_float U01 = Some unpack_float_u01"
| "unpack_float U001 = Some unpack_float_u001"
| "unpack_float U10 = Some unpack_float_u10"
| "unpack_float U100 = Some unpack_float_u100"
| "unpack_float _ = None"

fun unpack_vect_as :: "vfmt \<Rightarrow> (bytes \<Rightarrow> vect taken) option" where
  "unpack_vect_as F2 = Some unpack_vect_f2"
| "unpack_vect_as F4 = Some unpack_vect_f4"
| "unpack_vect_as S1 = Some unpack_vect_s1"
| "unpack_vect_as S10 = Some unpack_vect_s10"
| "unpack_vect_as S001 = Some unpack_vect_s001"
| "unpack_vect_as _ = None"

fun unpack_point_as :: "vfmt \<Rightarrow> (bytes \<Rightarrow> point taken) option" where
  "unpack_point_as F2 = Some unpack_point_f2"
| "unpack_point_as F4 = Some unpack_point_f4"
| "unpack_point_as U001 = Some unpack_point_u001"
| "unpack_point_as _ = None"

fun unpack_uint :: "vfmt \<Rightarrow> (bytes \<Rightarrow> u32 taken) option" where
  "unpack_uint U2 = Some unpack_uint_u2"
| "unpack_uint U4 = Some unpack_uint_u4"
| "unpack_uint _ = None"

fun unpack_as :: "vfmt \<Rightarrow> vt \<Rightarrow> bytes \<Rightarrow> (nat \<times> mval) option" where
  "unpack_as f vt_byte buf = taken_by MByte (if f = U1 then Some unpack_byte_u1 else None) buf"
| "unpack_as f vt_flag buf = taken_by MFlag (if f = U1 then Some unpack_flag_u1 else None) buf"
| "unpack_as f vt_enum buf = taken_by MEnum (if f = U1 then Some unpack_enum_u1 else None) buf"
| "unpack_as f vt_uint buf = taken_by MUint (unpack_uint f) buf"
| "unpack_as f vt_float buf = taken_by MFloat (unpack_float f) buf"
| "unpack_as f vt_vect buf = taken_by vect_val (unpack_vect_as f) buf"
| "unpack_as f vt_point buf = taken_by point_val (unpack_point_as f) buf"
| "unpack_as f vt_idx buf = None"
| "unpack_as f vt_void buf = None"

subsection \<open>Packing by index\<close>

definition pack_set :: "core \<Rightarrow> u16 \<Rightarrow> bytes option" where
  "pack_set vs var_m = do {
     v \<leftarrow> get_data vs var_m;
     (bs, _) \<leftarrow> pack_float_f4 v;
     Some ([ucast var_m, ucast (drop_bit 8 var_m)] @ bs)
   }"

text \<open>\<open>pack\<close> and \<open>pack_ext\<close>: the bytes stored, whose number is the result, and the variables.\<close>

definition pack_var :: "(mvar \<Rightarrow> vfmt) \<Rightarrow> core \<Rightarrow> nat \<Rightarrow> (bytes \<times> core) option" where
  "pack_var fmt vs var_idx =
     (if idxPAD \<le> var_idx \<and> var_idx < idx_vars_top
      then let i = var_idx - idxPAD
           in do { (bs, v) \<leftarrow> pack_as (fmt (mvars ! i)) (vs ! i); Some (bs, vs[i := v]) }
      else Some ([], vs))"

fun fmt_hd :: "mvar \<Rightarrow> vfmt" where "fmt_hd (t, n, d, fmt, tfmt) = fmt"
fun fmt_ext :: "mvar \<Rightarrow> vfmt" where "fmt_ext (t, n, d, fmt, tfmt) = tfmt"

definition core_pack :: "core \<Rightarrow> nat \<Rightarrow> (bytes \<times> core) option" where
  "core_pack vs var_idx =
     (if var_idx > 255 then do { bs \<leftarrow> pack_set vs (of_nat var_idx); Some (bs, vs) }
      else pack_var fmt_hd vs var_idx)"

definition core_pack_ext :: "core \<Rightarrow> nat \<Rightarrow> (bytes \<times> core) option" where
  "core_pack_ext = pack_var fmt_ext"

text \<open>\<open>unpack_set\<close>, \<open>unpack\<close> and \<open>unpack_ext\<close>: the result and the variables.\<close>

definition unpack_set :: "core \<Rightarrow> bytes \<Rightarrow> nat \<Rightarrow> (nat \<times> core) option" where
  "unpack_set vs buf cnt =
     (if cnt \<noteq> 2 + 4 then Some (0, vs)
      else do {
        (_, v) \<leftarrow> unpack_float_f4 (drop 2 buf);
        vs \<leftarrow> set_data vs (ucast (buf ! 0) OR push_bit 8 (ucast (buf ! 1))) v;
        Some (cnt, vs)
      })"

definition unpack_var :: "(mvar \<Rightarrow> vfmt) \<Rightarrow> core \<Rightarrow> bytes \<Rightarrow> nat \<Rightarrow> (nat \<times> core) option" where
  "unpack_var fmt vs buf var_idx =
     (if idxPAD \<le> var_idx \<and> var_idx < idx_vars_top
      then let i = var_idx - idxPAD
           in do { (n, v) \<leftarrow> unpack_as (fmt (mvars ! i)) (fst (mvars ! i)) buf; Some (n, vs[i := v]) }
      else Some (0, vs))"

definition core_unpack :: "core \<Rightarrow> bytes \<Rightarrow> nat \<Rightarrow> nat \<Rightarrow> (nat \<times> core) option" where
  "core_unpack vs buf cnt var_idx =
     (if var_idx < idxPAD then if var_idx = idx_set then unpack_set vs buf cnt else Some (0, vs)
      else unpack_var fmt_hd vs buf var_idx)"

definition core_unpack_ext :: "core \<Rightarrow> bytes \<Rightarrow> nat \<Rightarrow> (nat \<times> core) option" where
  "core_unpack_ext = unpack_var fmt_ext"

subsection \<open>The stream of changed variables\<close>

text \<open>
  The bits \<open>k\<close> to 7 of the byte \<open>m\<close> announce variables from \<open>idx\<close> on; \<open>buf\<close> is the memory from \<open>ptr\<close>
  on and \<open>tcnt\<close> the number of bytes left of the stream.  The first result tells whether the function
  returns zero here.
\<close>

type_synonym stream = "core \<times> bytes \<times> int \<times> nat"

function stream_bits :: "bool \<Rightarrow> u8 \<Rightarrow> nat \<Rightarrow> stream \<Rightarrow> (bool \<times> stream) option" where
  "stream_bits high m k (vs, buf, tcnt, idx) =
     (if k \<ge> 8 then Some (False, vs, buf, tcnt, idx)
      else if bit m k then
        if tcnt \<le> 0 then Some (False, vs, buf, tcnt, idx)
        else do {
          (sz, vs) \<leftarrow> (if high then core_unpack vs buf (nat tcnt) idx else core_unpack_ext vs buf idx);
          if sz = 0 then Some (True, vs, buf, tcnt, idx)
          else stream_bits high m (k + 1) (vs, drop sz buf, tcnt - int sz, idx + 1)
        }
      else stream_bits high m (k + 1) (vs, buf, tcnt, idx + 1))"
  by pat_completeness auto
termination by (relation "measure (\<lambda>(high, m, k, s). 8 - k)") auto

declare stream_bits.simps [simp del]

lemma stream_bits_tcnt: "stream_bits high m k (vs, buf, tcnt, idx) = Some (z, vs', buf', tcnt', idx') \<Longrightarrow> tcnt' \<le> tcnt"
proof (induction "8 - k" arbitrary: high k vs buf tcnt idx)
  case 0
  then show ?case by (simp add: stream_bits.simps)
next
  case (Suc n)
  have IH: "stream_bits high m (Suc k) (vs, buf, t, idx) = Some (z, vs', buf', tcnt', idx') \<Longrightarrow> tcnt' \<le> t" for high vs buf t idx
    using Suc(1) [of "Suc k"] Suc(2) by simp
  show ?case
    using Suc(3) by (subst (asm) stream_bits.simps) (fastforce split: if_splits bind_splits dest!: IH)
qed

text \<open>\<open>buf\<close> is the memory from the next mask on.\<close>

function stream_loop :: "bool \<Rightarrow> core \<Rightarrow> bytes \<Rightarrow> int \<Rightarrow> nat \<Rightarrow> (bool \<times> core) option" where
  "stream_loop high vs buf tcnt idx =
     (case buf of
        [] \<Rightarrow> None
      | m # ptr \<Rightarrow>
          (case stream_bits high m 0 (vs, ptr, tcnt, idx) of
             None \<Rightarrow> None
           | Some (zero, vs, ptr, tcnt, idx) \<Rightarrow>
               if zero then Some (True, vs)
               else if tcnt - 1 > 0 then stream_loop high vs ptr (tcnt - 1) idx
               else Some (False, vs)))"
  by pat_completeness auto
termination
  by (relation "measure (\<lambda>(high, vs, buf, tcnt, idx). nat tcnt)") (auto dest!: stream_bits_tcnt)

declare stream_loop.simps [simp del]

definition unpack_stream :: "core \<Rightarrow> bytes \<Rightarrow> nat \<Rightarrow> bool \<Rightarrow> (nat \<times> core) option" where
  "unpack_stream vs buf cnt high = do {
     (zero, vs) \<leftarrow> stream_loop high vs buf (int cnt - 1) idxPAD;
     Some (if zero then 0 else cnt, vs)
   }"

subsection \<open>Filters\<close>

text \<open>The new value at \<open>var_p\<close>; a value that is not valid becomes zero.\<close>

definition core_filter :: "f32 \<Rightarrow> f32 \<Rightarrow> f32 \<Rightarrow> f32 \<Rightarrow> f32" where
  "core_filter fv var_p fS fL =
     (let fD = f32_sub fv var_p;
          fDL = f32_div fD fL;
          fG = f32_add fS (f32_mul fS (f32_mul fDL fDL));
          fG = (if fl_less (f64_dec (f64_of_int 1)) (f32_dec fG) then f32_of_int 1
                else if f32_less fG fS then fS else fG);
          r = f32_add var_p (f32_mul fD fG)
      in if f_isvalid r then r else 0)"

definition core_filter_vect :: "vect \<Rightarrow> vect \<Rightarrow> f32 \<Rightarrow> f32 \<Rightarrow> vect" where
  "core_filter_vect v var_p S L =
     (case (v, var_p) of ((a, b, c), (x, y, z)) \<Rightarrow> (core_filter a x S L, core_filter b y S L, core_filter c z S L))"

definition filter_m :: "f32 \<Rightarrow> f32 \<Rightarrow> f32 \<Rightarrow> f32" where
  "filter_m v var_p f =
     (let r = (if f32_less f 0 \<or> f32_eq f 0 \<or> f32_less (f32_of_int 1) f \<or> f32_eq f (f32_of_int 1) then v
               else f32_of_f64 (f64_add (f64_mul (f64_of_f32 var_p) (f64_sub (f64_of_int 1) (f64_of_f32 f))) (f64_of_f32 (f32_mul v f))))
      in if f_isvalid r then r else 0)"

definition filter_m_vect :: "vect \<Rightarrow> vect \<Rightarrow> f32 \<Rightarrow> vect" where
  "filter_m_vect v var_p f =
     (case (v, var_p) of ((a, b, c), (x, y, z)) \<Rightarrow> (filter_m a x f, filter_m b y f, filter_m c z f))"

text \<open>\<open>powf\<close> is \<open>std::pow\<close> for \<open>float\<close>; the constants are 0.1902632 and 44330.77.\<close>

definition inHgToAltitude :: "(f32 \<Rightarrow> f32 \<Rightarrow> f32) \<Rightarrow> f32 \<Rightarrow> f32 \<Rightarrow> f32" where
  "inHgToAltitude powf inHg inHg_gnd =
     (if f32_eq inHg_gnd 0 then 0
      else f32_mul (f32_sub (f32_of_int 1) (powf (f32_div inHg inHg_gnd) 0x3E42D45B)) 0x472D2AC5)"

end
