(* ===== verification/Backport_Frames.thy ===== *)
theory Backport_Frames
  imports Backport_Core
begin

text \<open>
  The functions of \<open>mandala/backport/MandalaFlat.cpp\<close> that the receiver of the downlink stream
  calculates its position with, on \<open>float\<close> and \<open>double\<close> as in the source.  The mathematical library is a
  parameter: C does not say how exact its functions are.  \<open>Backport_Nav\<close> has the navigation over the
  real numbers.
\<close>

unbundle bit_operations_syntax

record libm =
  m_cosf :: "f32 \<Rightarrow> f32"
  m_sinf :: "f32 \<Rightarrow> f32"
  m_sqrtf :: "f32 \<Rightarrow> f32"
  m_atan2f :: "f32 \<Rightarrow> f32 \<Rightarrow> f32"
  m_sin :: "f64 \<Rightarrow> f64"

text \<open>A constant of type \<open>double\<close>, \<open>p / 10 ^ k\<close>.\<close>

definition dbl :: "int \<Rightarrow> nat \<Rightarrow> f64" where "dbl p k = f64_enc (Fin (p < 0) \<bar>p\<bar> (10 ^ k))"

definition D2R :: f64 where "D2R = dbl 1745329251994 14"
definition R2D :: f64 where "R2D = dbl 5729577951308232 14"
definition C_WGS84_a :: f64 where "C_WGS84_a = dbl 63781370 1"
definition C_WGS84_b :: f64 where "C_WGS84_b = dbl 63567523142 4"

definition f32_neg :: "f32 \<Rightarrow> f32" where "f32_neg v = v XOR 0x80000000"

definition in_radians :: "f32 \<Rightarrow> f32" where "in_radians v = f32_of_f64 (f64_mul (f64_of_f32 v) D2R)"

definition sqr_f :: "f32 \<Rightarrow> f32" where "sqr_f x = f32_mul x x"

definition heading_f :: "libm \<Rightarrow> point \<Rightarrow> bool \<Rightarrow> f32" where
  "heading_f L ne back =
     (case ne of (N, E) \<Rightarrow>
        f32_of_f64 (f64_mul (f64_of_f32 (if back then m_atan2f L (f32_neg E) (f32_neg N) else m_atan2f L E N)) R2D))"

definition distance_f :: "libm \<Rightarrow> point \<Rightarrow> f32" where
  "distance_f L ne = (case ne of (N, E) \<Rightarrow> m_sqrtf L (f32_add (sqr_f N) (sqr_f E)))"

definition rotate_f :: "libm \<Rightarrow> point \<Rightarrow> f32 \<Rightarrow> point" where
  "rotate_f L v psi =
     (case v of (N, E) \<Rightarrow>
        let psi_r = in_radians psi; c = m_cosf L psi_r; s = m_sinf L psi_r
        in (f32_add (f32_mul N c) (f32_mul E s), f32_sub (f32_mul E c) (f32_mul N s)))"

text \<open>The flattening is a constant of type \<open>double\<close>, rounded to \<open>float\<close>.\<close>

definition llh2ECEF_f :: "libm \<Rightarrow> vect \<Rightarrow> vect" where
  "llh2ECEF_f L llh =
     (case llh of (lat, lon, hmsl) \<Rightarrow>
        let lat_r = in_radians lat; lon_r = in_radians lon; clat = m_cosf L lat_r; slat = m_sinf L lat_r;
            f = f32_of_f64 (f64_div (f64_sub C_WGS84_a C_WGS84_b) C_WGS84_a);
            e = m_sqrtf L (f32_sub (f32_mul (f32_of_int 2) f) (f32_mul f f));
            N = f32_of_f64 (f64_div C_WGS84_a
              (f64_of_f32 (m_sqrtf L (f32_sub (f32_of_int 1) (f32_mul (f32_mul e e) (sqr_f slat))))))
        in (f32_mul (f32_mul (f32_add N hmsl) clat) (m_cosf L lon_r),
            f32_mul (f32_mul (f32_add N hmsl) clat) (m_sinf L lon_r),
            f32_mul (f32_add (f32_mul N (f32_sub (f32_of_int 1) (f32_mul e e))) hmsl) slat))"

text \<open>A row of the matrix times the vector, summed up from zero.\<close>

definition row_times :: "vect \<Rightarrow> vect \<Rightarrow> f32" where
  "row_times v r =
     (case (v, r) of ((a, b, c), (x, y, z)) \<Rightarrow> f32_add (f32_add (f32_add 0 (f32_mul a x)) (f32_mul b y)) (f32_mul c z))"

definition ECEF2Tangent_f :: "libm \<Rightarrow> vect \<Rightarrow> f32 \<Rightarrow> f32 \<Rightarrow> point" where
  "ECEF2Tangent_f L v lat lon =
     (let lat_r = in_radians lat; lon_r = in_radians lon;
          clat = m_cosf L lat_r; clon = m_cosf L lon_r; slat = m_sinf L lat_r; slon = m_sinf L lon_r
      in (row_times v (f32_mul (f32_neg slat) clon, f32_mul (f32_neg slat) slon, clat),
          row_times v (f32_neg slon, clon, 0)))"

definition LLH_dist_f :: "libm \<Rightarrow> vect \<Rightarrow> vect \<Rightarrow> f32 \<Rightarrow> f32 \<Rightarrow> point" where
  "LLH_dist_f L llh1 llh2 lat lon =
     (case (llh2ECEF_f L llh1, llh2ECEF_f L llh2) of ((a, b, c), (x, y, z)) \<Rightarrow>
        ECEF2Tangent_f L (f32_sub x a, f32_sub y b, f32_sub z c) lat lon)"

definition llh2ne_f :: "libm \<Rightarrow> vect \<Rightarrow> vect \<Rightarrow> point" where
  "llh2ne_f L llh home = LLH_dist_f L home llh (fst home) (fst (snd home))"

text \<open>The runway offset, on \<open>double\<close>.\<close>

definition rwDelta_f :: "libm \<Rightarrow> f32 \<Rightarrow> f32 \<Rightarrow> f32 \<Rightarrow> f32 \<Rightarrow> f32" where
  "rwDelta_f L dWPT wpHDG tgHDG rwAdj =
     f32_of_f64 (f64_sub (f64_mul (f64_of_f32 dWPT)
       (m_sin L (f64_mul (f64_sub (f64_add (f64_of_f32 wpHDG) (f64_of_int 180)) (f64_of_f32 tgHDG)) D2R))) (f64_of_f32 rwAdj))"

end
