(* ===== verification/Backport_Flat.thy ===== *)
theory Backport_Flat
  imports Backport_Frames
begin

text \<open>
  \<open>mandala/backport/MandalaFlat.h\<close> and \<open>MandalaFlat.cpp\<close>: names, and the downlink stream of changed
  variables.  Navigation, of the same file, is in \<open>Backport_Frames\<close> and \<open>Backport_Nav\<close>.
\<close>

unbundle bit_operations_syntax

subsection \<open>State\<close>

text \<open>\<open>dl_timestamp\<close>, \<open>dl_period\<close> and \<open>cmode\<close> are variables of the dictionary.\<close>

record flat =
  f_vars :: core
  blockDownstream :: bool
  dl_reset :: bool
  dl_snapshot :: bytes
  dl_reset_mask :: bytes
  dl_var :: bytes
  dl_frcnt :: u32
  dl_errcnt :: u32
  dl_time_s :: u32
  dl_ts :: u16
  dl_Pdt :: u16
  dl_e :: bool
  dl_size :: u32
  dl_hd_save :: bool

definition snapshot_size :: nat where "snapshot_size = 1024"
definition var_size :: nat where "var_size = 3 * 4"

definition reset_mask_size :: nat where
  "reset_mask_size = (idx_local - idxPAD) div 8 + (if (idx_local - idxPAD) mod 4 \<noteq> 0 then 1 else 0)"

definition arrays_ok :: "flat \<Rightarrow> bool" where
  "arrays_ok f \<longleftrightarrow> length (dl_snapshot f) = snapshot_size \<and> length (dl_reset_mask f) = reset_mask_size \<and>
     length (dl_var f) = var_size"

definition var_pos :: "string \<Rightarrow> nat" where "var_pos name = index_of name - idxPAD"

fun as_uint :: "mval \<Rightarrow> u32" where "as_uint (MUint v) = v" | "as_uint _ = 0"
fun as_flag :: "mval \<Rightarrow> u8" where "as_flag (MFlag v) = v" | "as_flag _ = 0"
fun as_float :: "mval \<Rightarrow> f32" where "as_float (MFloat v) = v" | "as_float _ = 0"
fun as_vect :: "mval \<Rightarrow> vect" where "as_vect (MVect a b c) = (a, b, c)" | "as_vect _ = (0, 0, 0)"
fun as_point :: "mval \<Rightarrow> point" where "as_point (MPoint a b) = (a, b)" | "as_point _ = (0, 0)"

definition mbit_mask :: "string \<Rightarrow> string \<Rightarrow> nat" where
  "mbit_mask var name = (case find (\<lambda>(v, n, d, m). v = var \<and> n = name) mbits of Some (v, n, d, m) \<Rightarrow> m | None \<Rightarrow> 0)"

subsection \<open>init\<close>

fun zero_of :: "vt \<Rightarrow> mval" where
  "zero_of vt_byte = MByte 0"
| "zero_of vt_uint = MUint 0"
| "zero_of vt_flag = MFlag 0"
| "zero_of vt_enum = MEnum 0"
| "zero_of vt_vect = MVect 0 0 0"
| "zero_of vt_point = MPoint 0 0"
| "zero_of _ = MFloat 0"

definition init_vars :: core where
  "init_vars = (map (\<lambda>v. zero_of (fst v)) mvars)[var_pos ''cas2tas'' := MFloat (f32_of_int 1)]"

text \<open>The arrays and two of the flags are not initialised.\<close>

definition flat_init :: "flat \<Rightarrow> flat" where
  "flat_init f = f\<lparr> dl_frcnt := 0, dl_errcnt := 0, dl_time_s := 0, dl_ts := 0, dl_Pdt := 0, dl_size := 0,
     dl_reset := True, blockDownstream := False, f_vars := init_vars \<rparr>"

subsection \<open>Names\<close>

text \<open>
  The result of \<open>get_text_names\<close> and what it has stored at \<open>name\<close> and \<open>descr\<close>, \<open>None\<close> where it has
  not stored anything.
\<close>

definition find_bit :: "u16 \<Rightarrow> (string \<times> string) option" where
  "find_bit varmsk =
     map_option (\<lambda>(v, n, d, m). (n, d)) (find (\<lambda>(v, n, d, m). index_of v + 256 * m = unat varmsk) mbits)"

definition find_name :: "nat \<Rightarrow> (string \<times> string) option" where
  "find_name i =
     (case find (\<lambda>(k, n, d). k = i) midxs of
        Some (k, n, d) \<Rightarrow> Some (n, d)
      | None \<Rightarrow>
          if idxPAD \<le> i \<and> i < idx_vars_top then (case mvars ! (i - idxPAD) of (t, n, d, fmt, tfmt) \<Rightarrow> Some (n, d))
          else None)"

definition get_text_names :: "u16 \<Rightarrow> bool \<times> (string \<times> string) option" where
  "get_text_names varmsk =
     (case get_ptr (ucast varmsk) of
        None \<Rightarrow> (False, None)
      | Some (ptr, t) \<Rightarrow>
          let m = ucast (drop_bit 8 varmsk) :: u8;
              b = (if m \<noteq> 0xFF \<and> ((t = vt_flag \<and> m \<noteq> 0) \<or> t = vt_enum) then find_bit varmsk else None)
          in case b of
               Some nd \<Rightarrow> (True, Some nd)
             | None \<Rightarrow>
                 if m \<noteq> 0xFF \<and> ((t = vt_flag \<and> m \<noteq> 0) \<or> t = vt_enum) \<and> m \<noteq> 0 then (False, Some ([], []))
                 else case find_name (unat (varmsk AND 0xFF)) of
                        Some nd \<Rightarrow> (True, Some nd)
                      | None \<Rightarrow> (False, Some ([], [])))"

text \<open>\<open>var_name\<close> returns the pointer whether it was set or not; \<open>None\<close> if not.\<close>

definition var_name :: "u8 \<Rightarrow> string option" where
  "var_name var_idx = map_option fst (snd (get_text_names (ucast var_idx OR 0xFF00)))"

fun find_index :: "string \<Rightarrow> nat list \<Rightarrow> u8" where
  "find_index name [] = 0xFF"
| "find_index name (i # is) =
     (case get_text_names (of_nat i OR 0xFF00) of
        (True, Some (n, d)) \<Rightarrow> if n = name then of_nat i else find_index name is
      | _ \<Rightarrow> find_index name is)"

definition var_index :: "string \<Rightarrow> u8" where
  "var_index name = find_index name [0..<idx_vars_top]"

subsection \<open>pack_downstream\<close>

text \<open>
  The locals of the loop.  The pointers are positions in the arrays; \<open>mask\<close> is \<open>1 << p_bit\<close>.
\<close>

record packing =
  p_vars :: core
  p_var :: bytes
  p_reset :: bytes
  p_snap :: bytes
  p_buf :: bytes
  p_cnt :: nat
  p_mask_cnt :: nat
  p_mask_zero :: nat
  p_snap_pos :: nat
  p_bit :: nat
  p_mask_ptr :: nat
  p_ptr :: nat
  p_reset_pos :: nat

text \<open>Stores into an array; outside of it is \<open>None\<close>.\<close>

definition store :: "nat \<Rightarrow> bytes \<Rightarrow> bytes \<Rightarrow> bytes option" where
  "store p src dst = (if p + length src \<le> length dst then Some (blit p src dst) else None)"

text \<open>The result of the \<open>memcmp\<close> of \<open>MandalaCore\<close> is zero; that of no bytes is not.\<close>

definition mem_same :: "nat \<Rightarrow> bytes \<Rightarrow> bytes \<Rightarrow> bool" where
  "mem_same sz a b \<longleftrightarrow> sz > 0 \<and> take sz a = take sz b"

text \<open>The test of the reset flag and, without it, of a change.\<close>

definition pack_filtered :: "nat \<Rightarrow> packing \<Rightarrow> (bool \<times> packing) option" where
  "pack_filtered sz p =
     (if p_reset_pos p \<ge> length (p_reset p) then None
      else if bit (p_reset p ! p_reset_pos p) (p_bit p)
      then Some (False, p\<lparr> p_reset := (p_reset p)[p_reset_pos p := p_reset p ! p_reset_pos p AND NOT (2 ^ p_bit p)] \<rparr>)
      else if p_snap_pos p + sz > length (p_snap p) then None
      else Some (mem_same sz (drop (p_snap_pos p) (p_snap p)) (p_var p), p))"

text \<open>The next variable: its bit, its place in the snapshot, and with a new byte of bits its place.\<close>

definition pack_advance :: "nat \<Rightarrow> packing \<Rightarrow> packing option" where
  "pack_advance sz p =
     (let p = p\<lparr> p_snap_pos := p_snap_pos p + sz, p_bit := p_bit p + 1 \<rparr>
      in if p_bit p = 8 then do {
           buf \<leftarrow> store (p_ptr p) [0] (p_buf p);
           Some (p\<lparr> p_bit := 0, p_mask_zero := p_mask_zero p + 1, p_mask_ptr := p_ptr p, p_buf := buf,
             p_reset_pos := p_reset_pos p + 1, p_ptr := p_ptr p + 1 \<rparr>)
         } else Some p)"

text \<open>One variable; the first result tells that the loop was left.\<close>

definition pack_step :: "bool \<Rightarrow> nat \<Rightarrow> nat \<Rightarrow> packing \<Rightarrow> (bool \<times> packing) option" where
  "pack_step high maxSize i p = do {
     (bs, vs) \<leftarrow> (if high then core_pack (p_vars p) i else core_pack_ext (p_vars p) i);
     let sz = length bs;
     dvar \<leftarrow> store 0 bs (p_var p);
     (filtered, p) \<leftarrow> pack_filtered sz (p\<lparr> p_vars := vs, p_var := dvar \<rparr>);
     if filtered then map_option (Pair False) (pack_advance sz p)
     else if p_cnt p + p_mask_cnt p + 2 + sz + p_mask_zero p \<ge> maxSize
     then Some (True, p\<lparr> p_reset := (p_reset p)[p_reset_pos p := p_reset p ! p_reset_pos p OR 2 ^ p_bit p] \<rparr>)
     else do {
       snap \<leftarrow> store (p_snap_pos p) bs (p_snap p);
       buf \<leftarrow> store (p_ptr p) bs (p_buf p);
       let buf = buf[p_mask_ptr p := buf ! p_mask_ptr p OR 2 ^ p_bit p];
       p \<leftarrow> pack_advance sz (p\<lparr> p_snap := snap, p_buf := buf, p_ptr := p_ptr p + sz, p_cnt := p_cnt p + sz,
         p_mask_cnt := p_mask_cnt p + p_mask_zero p, p_mask_zero := 0 \<rparr>);
       Some (False, p)
     }
   }"

fun pack_loop :: "bool \<Rightarrow> nat \<Rightarrow> nat list \<Rightarrow> packing \<Rightarrow> packing option" where
  "pack_loop high maxSize [] p = Some p"
| "pack_loop high maxSize (i # is) p = do {
     (stop, p) \<leftarrow> pack_step high maxSize i p;
     if stop then Some p else pack_loop high maxSize is p
   }"

text \<open>The watch on \<open>cmode\<close>, and the reset of all variables.\<close>

definition watch_reset :: "bool \<Rightarrow> flat \<Rightarrow> flat" where
  "watch_reset high f =
     (let f = (if dl_hd_save f \<noteq> high then f\<lparr> dl_hd_save := high, dl_reset := True \<rparr> else f)
      in if dl_reset f then f\<lparr> dl_reset_mask := replicate (length (dl_reset_mask f)) 0xFF, dl_reset := False \<rparr> else f)"

definition is_hd :: "flat \<Rightarrow> bool" where
  "is_hd f \<longleftrightarrow> as_flag (f_vars f ! var_pos ''cmode'') AND of_nat (mbit_mask ''cmode'' ''dlhd'') \<noteq> 0"

definition pack_start :: "flat \<Rightarrow> bytes \<Rightarrow> packing" where
  "pack_start f buf = \<lparr> p_vars = f_vars f, p_var = dl_var f, p_reset = dl_reset_mask f, p_snap = dl_snapshot f,
     p_buf = buf, p_cnt = 0, p_mask_cnt = 0, p_mask_zero = 1, p_snap_pos = 0, p_bit = 0, p_mask_ptr = 2, p_ptr = 3,
     p_reset_pos = 0 \<rparr>"

definition pack_downstream :: "flat \<Rightarrow> bytes \<Rightarrow> nat \<Rightarrow> u32 \<Rightarrow> (nat \<times> bytes \<times> flat) option" where
  "pack_downstream f buf maxSize timestamp = do {
     let high = is_hd f;
     let f = watch_reset high f;
     let dl_timestamp = as_uint (f_vars f ! var_pos ''dl_timestamp'');
     let ts = (dl_timestamp div 10) AND 0x7FFF;
     buf \<leftarrow> store 0 [ucast ts, ucast (drop_bit 8 ts) OR (if high then 0x80 else 0), 0] buf;
     p \<leftarrow> pack_loop high maxSize [idxPAD..<idx_local] (pack_start f buf);
     let f = f\<lparr> f_vars := p_vars p, dl_var := p_var p, dl_reset_mask := p_reset p, dl_snapshot := p_snap p \<rparr>;
     let f = (if dl_timestamp mod 10000 = 0 then f\<lparr> dl_reset := True \<rparr> else f);
     let dl_period = as_uint (f_vars f ! var_pos ''dl_period'');
     let dl_timestamp = dl_timestamp + (if dl_period \<noteq> 0 then dl_period else timestamp - dl_time_s f);
     let n = p_cnt p + p_mask_cnt p + 2;
     Some (n, p_buf p, f\<lparr> f_vars := (f_vars f)[var_pos ''dl_timestamp'' := MUint dl_timestamp], dl_time_s := timestamp,
       dl_size := of_nat n \<rparr>)
   }"

subsection \<open>unpack_downstream\<close>

definition set_var :: "string \<Rightarrow> mval \<Rightarrow> core \<Rightarrow> core" where
  "set_var name v vs = vs[var_pos name := v]"

definition flat_calc :: "libm \<Rightarrow> core \<Rightarrow> core" where
  "flat_calc L vs =
     (let get = (\<lambda>vs name. vs ! var_pos name);
          cmd_NE = as_point (get vs ''cmd_NE''); pos_NE = as_point (get vs ''pos_NE''); vel_NE = as_point (get vs ''vel_NE'');
          yaw = snd (snd (as_vect (get vs ''theta''))); tgHDG = as_float (get vs ''tgHDG'');
          dNE = (f32_sub (fst cmd_NE) (fst pos_NE), f32_sub (snd cmd_NE) (snd pos_NE));
          vs = set_var ''dXY'' (point_val (rotate_f L dNE yaw)) vs;
          dWPT = distance_f L dNE;
          vs = set_var ''dWPT'' (MFloat dWPT) vs;
          vs = set_var ''dHome'' (MFloat (distance_f L pos_NE)) vs;
          wpHDG = heading_f L dNE False;
          vs = set_var ''wpHDG'' (MFloat wpHDG) vs;
          vs = set_var ''homeHDG'' (MFloat (heading_f L pos_NE True)) vs;
          vs = set_var ''rwDelta'' (MFloat (rwDelta_f L dWPT wpHDG tgHDG (as_float (get vs ''rwAdj'')))) vs;
          vs = set_var ''rwDV'' (MFloat (snd (rotate_f L vel_NE tgHDG))) vs;
          vs = set_var ''gSpeed'' (MFloat (distance_f L vel_NE)) vs
      in vs)"

definition flat_derive :: "libm \<Rightarrow> core \<Rightarrow> core" where
  "flat_derive L vs =
     (let get = (\<lambda>vs name. vs ! var_pos name);
          vs = set_var ''pos_NE'' (point_val (llh2ne_f L (as_vect (get vs ''gps_pos'')) (as_vect (get vs ''home_pos'')))) vs;
          (n, e, d) = as_vect (get vs ''gps_vel'');
          vs = set_var ''vel_NE'' (MPoint n e) vs;
          vs = set_var ''vXY'' (point_val (rotate_f L (n, e) (snd (snd (as_vect (get vs ''theta'')))))) vs
      in flat_calc L vs)"

text \<open>The header: frame counters and the time.\<close>

definition unpack_header :: "flat \<Rightarrow> nat \<Rightarrow> u16 \<Rightarrow> flat" where
  "unpack_header f cnt ts =
     (let Pdt = (ts - dl_ts f) AND 0x7FFF;
          t = as_uint (f_vars f ! var_pos ''dl_timestamp'') + ucast Pdt * 10;
          bErr = (dl_Pdt f \<noteq> Pdt)
      in f\<lparr> dl_size := of_nat cnt, dl_frcnt := dl_frcnt f + 1, dl_ts := ts, f_vars := set_var ''dl_timestamp'' (MUint t) (f_vars f),
           dl_Pdt := Pdt, dl_errcnt := dl_errcnt f + (if bErr \<and> bErr = dl_e f then 1 else 0), dl_e := bErr \<rparr>)"

definition unpack_downstream :: "libm \<Rightarrow> flat \<Rightarrow> bytes \<Rightarrow> nat \<Rightarrow> (nat \<times> flat) option" where
  "unpack_downstream L f buf cnt =
     (case buf of
        b0 # b1 # rest \<Rightarrow> do {
          let ts = (ucast b0 OR push_bit 8 (ucast b1) :: u16);
          let high = (ts AND 0x8000 \<noteq> 0);
          let f = unpack_header f cnt (ts AND 0x7FFF);
          (tcnt, vs) \<leftarrow> (if cnt > 2 then unpack_stream (f_vars f) rest (cnt - 2) high else Some (2, f_vars f));
          Some (tcnt, f\<lparr> f_vars := flat_derive L vs \<rparr>)
        }
      | _ \<Rightarrow> None)"

subsection \<open>Received packets\<close>

definition extract_var :: "libm \<Rightarrow> flat \<Rightarrow> bytes \<Rightarrow> nat \<Rightarrow> nat \<Rightarrow> (nat \<times> flat) option" where
  "extract_var L f buf sz var_idx =
     (if var_idx = idx_downstream
      then if blockDownstream f then Some (sz, f) else unpack_downstream L f buf sz
      else map_option (map_prod id (\<lambda>vs. f\<lparr> f_vars := vs \<rparr>)) (core_unpack (f_vars f) buf sz var_idx))"

definition extract_packet :: "libm \<Rightarrow> flat \<Rightarrow> bytes \<Rightarrow> nat \<Rightarrow> (nat \<times> flat) option" where
  "extract_packet L f buf sz =
     (if sz = 0 then Some (0, f)
      else case buf of b # rest \<Rightarrow> extract_var L f rest (sz - 1) (unat b) | [] \<Rightarrow> None)"

subsection \<open>snap\<close>

definition snap :: "u32 \<Rightarrow> u32 \<Rightarrow> u32 option" where
  "snap v snapv =
     (if snapv = 0 then None
      else let vs = v mod snapv; v = v - vs in Some (if vs \<ge> snapv div 2 then v + snapv else v))"

end
