(* ===== verification/Backport_Laws.thy ===== *)
theory Backport_Laws
  imports Backport_Flat
begin

text \<open>
  Packed values of the old dictionary: their sizes, which values can be packed, and what is read back.
\<close>

unbundle bit_operations_syntax

subsection \<open>Sizes\<close>

fun fmt_bytes :: "vfmt \<Rightarrow> nat" where
  "fmt_bytes F2 = 2"
| "fmt_bytes F4 = 4"
| "fmt_bytes U2 = 2"
| "fmt_bytes U4 = 4"
| "fmt_bytes _ = 1"

fun elements :: "vt \<Rightarrow> nat" where
  "elements vt_vect = 3"
| "elements vt_point = 2"
| "elements _ = 1"

text \<open>The formats the class has for a type.\<close>

fun has_format :: "vt \<Rightarrow> vfmt \<Rightarrow> bool" where
  "has_format vt_float f \<longleftrightarrow> f \<noteq> U2 \<and> f \<noteq> U4"
| "has_format vt_vect f \<longleftrightarrow> f \<in> {F2, F4, S1, S10, S001}"
| "has_format vt_point f \<longleftrightarrow> f \<in> {F2, F4, U001}"
| "has_format vt_uint f \<longleftrightarrow> f \<in> {U2, U4}"
| "has_format vt_byte f \<longleftrightarrow> f = U1"
| "has_format vt_flag f \<longleftrightarrow> f = U1"
| "has_format vt_enum f \<longleftrightarrow> f = U1"
| "has_format _ f \<longleftrightarrow> False"

definition size_as :: "vfmt \<Rightarrow> vt \<Rightarrow> nat" where
  "size_as f t = elements t * fmt_bytes f"

lemmas float_packers = pack_float_f2_def pack_float_f4_def pack_float_s1_def pack_float_s01_def pack_float_s001_def
  pack_float_s10_def pack_float_u1_def pack_float_u01_def pack_float_u001_def pack_float_u10_def pack_float_u100_def
lemmas part_packers = pack_vect_s1_def pack_vect_s10_def pack_vect_s001_def pack_vect_f2_def pack_vect_f4_def
  pack_point_f2_def pack_point_f4_def pack_point_u001_def
lemmas int_packers = pack_byte_u1_def pack_flag_u1_def pack_enum_u1_def pack_uint_u2_def pack_uint_u4_def
lemmas float_takers = unpack_float_f2_def unpack_float_f4_def unpack_float_s1_def unpack_float_s01_def unpack_float_s001_def
  unpack_float_s10_def unpack_float_u1_def unpack_float_u01_def unpack_float_u001_def unpack_float_u10_def unpack_float_u100_def
lemmas part_takers = unpack_vect_s1_def unpack_vect_s10_def unpack_vect_s001_def unpack_vect_f2_def unpack_vect_f4_def
  unpack_point_f2_def unpack_point_f4_def unpack_point_u001_def
lemmas int_takers = unpack_byte_u1_def unpack_flag_u1_def unpack_enum_u1_def unpack_uint_u2_def unpack_uint_u4_def

lemma pack_float_size: "pack_float f = Some g \<Longrightarrow> g v = Some (bs, w) \<Longrightarrow> length bs = fmt_bytes f"
  by (cases f) (auto simp: float_packers)

text \<open>A vector or point is packed by the function of its elements.\<close>

lemma pack_vect_as_parts: "has_format vt_vect f \<Longrightarrow> \<exists>g. pack_float f = Some g \<and> pack_vect_as f = Some (pack_vect g)"
  by (cases f) (auto simp: part_packers)

lemma pack_point_as_parts: "has_format vt_point f \<Longrightarrow> \<exists>g. pack_float f = Some g \<and> pack_point_as f = Some (pack_point g)"
  by (cases f) (auto simp: part_packers)

lemma unpack_vect_as_parts:
  "has_format vt_vect f \<Longrightarrow> \<exists>g. unpack_float f = Some g \<and> unpack_vect_as f = Some (unpack_vect (fmt_bytes f) g)"
  by (cases f) (auto simp: part_takers)

lemma unpack_point_as_parts:
  "has_format vt_point f \<Longrightarrow> \<exists>g. unpack_float f = Some g \<and> unpack_point_as f = Some (unpack_point (fmt_bytes f) g)"
  by (cases f) (auto simp: part_takers)

lemma no_format:
  "\<not> has_format vt_float f \<Longrightarrow> pack_float f = None \<and> unpack_float f = None"
  "\<not> has_format vt_vect f \<Longrightarrow> pack_vect_as f = None \<and> unpack_vect_as f = None"
  "\<not> has_format vt_point f \<Longrightarrow> pack_point_as f = None \<and> unpack_point_as f = None"
  "\<not> has_format vt_uint f \<Longrightarrow> pack_uint f = None \<and> unpack_uint f = None"
  by (cases f; simp)+

lemma pack_parts_size:
  assumes "\<And>v bs w. g v = Some (bs, w) \<Longrightarrow> length bs = n"
  shows "pack_vect g u = Some (cs, u') \<Longrightarrow> length cs = 3 * n" "pack_point g p = Some (cs, p') \<Longrightarrow> length cs = 2 * n"
  by (auto simp: pack_vect_def pack_point_def dest!: assms split: bind_splits prod.splits)

lemma packed_byD:
  assumes "packed_by con f v = Some (bs, w)"
  obtains g x where "f = Some g" "g v = Some (bs, x)" "w = con x"
  using assms by (auto simp: packed_by_def split: bind_splits)

lemma vals_type [simp]: "val_type (vect_val u) = vt_vect" "val_type (point_val p) = vt_point"
  by (simp_all add: vect_val_def point_val_def split: prod.split)

lemma pack_as_size:
  assumes "pack_as f v = Some (bs, w)"
  shows "length bs = size_as f (val_type v) \<and> val_type w = val_type v \<and> has_format (val_type v) f"
proof (cases v)
  case (MFloat x)
  then show ?thesis using assms no_format(1) [of f] pack_float_size [of f]
    by (cases "has_format vt_float f") (auto elim!: packed_byD simp: size_as_def)
next
  case (MVect x y z)
  then obtain h u where h: "pack_vect_as f = Some h" "h (x, y, z) = Some (bs, u)" "w = vect_val u"
    using assms by (auto elim!: packed_byD)
  have fmt: "has_format vt_vect f" using h(1) no_format(2) [of f] by auto
  then obtain g where "pack_float f = Some g" "h = pack_vect g" using pack_vect_as_parts h(1) by fastforce
  then show ?thesis using pack_parts_size(1) [OF pack_float_size] h fmt MVect by (auto simp: size_as_def)
next
  case (MPoint x y)
  then obtain h u where h: "pack_point_as f = Some h" "h (x, y) = Some (bs, u)" "w = point_val u"
    using assms by (auto elim!: packed_byD)
  have fmt: "has_format vt_point f" using h(1) no_format(3) [of f] by auto
  then obtain g where "pack_float f = Some g" "h = pack_point g" using pack_point_as_parts h(1) by fastforce
  then show ?thesis using pack_parts_size(2) [OF pack_float_size] h fmt MPoint by (auto simp: size_as_def)
next
  case (MUint x)
  then show ?thesis using assms by (cases f) (auto elim!: packed_byD simp: int_packers size_as_def Let_def)
qed (use assms in \<open>auto elim!: packed_byD simp: int_packers size_as_def split: if_splits\<close>)

end
