(* ===== verification/Backport_Half.thy ===== *)
theory Backport_Half
  imports Backport_Laws
begin

text \<open>
  Half-precision numbers: what \<open>unpack_float_f2\<close> reads, \<open>pack_float_f2\<close> packs to the same bits.
\<close>

unbundle bit_operations_syntax

subsection \<open>Fields\<close>

lemma half_mask_400: "v AND 0x0400 = 0 \<longleftrightarrow> \<not> bit (v :: u16) 10"
  using and_power_bit [of "0x0400 :: u16" 10 v] by auto

text \<open>The loop ends with the leading bit of the denormal number at its place.\<close>

lemma half_shift_lead:
  assumes "bit hm k" "k < 10" "\<And>j. k < j \<Longrightarrow> \<not> bit hm j"
  shows "half_shift e hm = Some (e + int (10 - k), push_bit (10 - k) hm)"
  using assms
proof (induction "9 - k" arbitrary: e hm k)
  case 0
  then have "k = 9" by simp
  moreover have "bit (push_bit 1 hm) 10" using 0 \<open>k = 9\<close> by (simp only: bit_push_bit_iff) simp
  ultimately show ?case by (subst half_shift.simps) (simp add: half_mask_400)
next
  case (Suc n)
  have "bit (push_bit 1 hm) (k + 1)" using Suc.prems by (simp only: bit_push_bit_iff) simp
  moreover have "n = 9 - (k + 1)" "k + 1 < 10" using Suc.hyps(2) by auto
  moreover have "\<not> bit (push_bit 1 hm) j" if "k + 1 < j" for j
    using Suc.prems(3) [of "j - 1"] that by (simp only: bit_push_bit_iff) auto
  ultimately have "half_shift (e + 1) (push_bit 1 hm) = Some (e + 1 + int (10 - (k + 1)), push_bit (10 - (k + 1)) (push_bit 1 hm))"
    by (intro Suc.hyps(1)) auto
  moreover have "\<not> bit (push_bit 1 hm) 10" using Suc.prems(3) [of 9] Suc.hyps(2) by (simp only: bit_push_bit_iff) auto
  moreover have "10 - k = Suc (9 - k)" using Suc.prems(2) by simp
  ultimately show ?case by (subst half_shift.simps) (simp add: half_mask_400 Let_def push_bit_double)
qed

lemma lead_bit:
  assumes "v \<noteq> 0" "\<And>j. n \<le> j \<Longrightarrow> \<not> bit (v :: 'a::len word) j"
  obtains k where "bit v k" "k < n" "\<And>j. k < j \<Longrightarrow> \<not> bit v j"
proof -
  obtain j where j: "bit v j" using assms(1) by (metis bit_eqI bit_0_eq bot_apply bot_bool_def)
  have fin: "finite {j. bit v j}" by (rule finite_subset [of _ "{..<n}"]) (use assms(2) not_le in blast, simp)
  let ?k = "Max {j. bit v j}"
  have "bit v ?k" using Max_in [OF fin] j by auto
  moreover have "?k < n" using assms(2) [of ?k] \<open>bit v ?k\<close> by (meson not_le)
  moreover have "\<not> bit v i" if "?k < i" for i
    using Max_ge [OF fin, of i] that by (auto simp del: Max_ge)
  ultimately show ?thesis using that by blast
qed

text \<open>The fields of a number in single precision.\<close>

definition single_bits :: "u32 \<Rightarrow> u32 \<Rightarrow> u32 \<Rightarrow> u32" where
  "single_bits s e m = push_bit 31 s OR push_bit 23 e OR m"

lemma mask_words:
  "(0x80000000 :: u32) = push_bit 31 (mask 1)" "(0x7F800000 :: u32) = push_bit 23 (mask 8)" "(0x007FFFFF :: u32) = mask 23"
  "(0x7FFFFFFF :: u32) = mask 31" "(0x8000 :: u16) = push_bit 15 (mask 1)" "(0x7C00 :: u16) = push_bit 10 (mask 5)"
  "(0x03FF :: u16) = mask 10" "(0x7FFF :: u16) = mask 15" "(0x00800000 :: u32) = push_bit 23 1" "(0x1000 :: u32) = push_bit 12 1"
  by (simp_all add: mask_eq_exp_minus_1 push_bit_eq_mult)

lemma single_fields:
  assumes "\<And>j. bit s j \<Longrightarrow> j < 1" "\<And>j. bit e j \<Longrightarrow> j < 8" "\<And>j. bit m j \<Longrightarrow> j < 23"
  shows "single_bits s e m AND push_bit 31 (mask 1) = push_bit 31 s"
    "single_bits s e m AND push_bit 23 (mask 8) = push_bit 23 e"
    "single_bits s e m AND mask 23 = m"
    "single_bits s e m AND mask 31 = push_bit 23 e OR m"
  by (rule bit_word_eqI; unfold single_bits_def; simp only: bit_and_iff bit_or_iff bit_push_bit_iff bit_drop_bit_eq bit_mask_iff comp_def;
      auto dest: assms)+

lemma field_back:
  assumes "\<And>j. bit (v :: 'a::len word) j \<Longrightarrow> j + n < LENGTH('a)"
  shows "drop_bit n (push_bit n v) = v"
  by (rule bit_word_eqI) (auto simp: bit_simps add.commute dest: assms)

lemma bit_below:
  assumes "uint (v :: 'a::len word) < 2 ^ n" "bit v j"
  shows "j < n"
proof -
  have "take_bit n v = v" using assms(1) by (simp add: word_uint_eq_iff unsigned_take_bit_eq take_bit_int_eq_self)
  then show ?thesis using assms(2) bit_take_bit_iff [of n v j] by simp
qed

text \<open>An exponent that is not the one of infinity.\<close>

lemma exponent_bits:
  assumes "uint (E :: u32) < 255"
  shows "\<And>j. bit E j \<Longrightarrow> j < 8" "drop_bit 23 (push_bit 23 E) = E" "push_bit 23 E \<noteq> push_bit 23 (mask 8)"
proof -
  show b: "\<And>j. bit E j \<Longrightarrow> j < 8" by (rule bit_below) (use assms in auto)
  show E: "drop_bit 23 (push_bit 23 E) = E" by (rule field_back) (use b in fastforce)
  show "push_bit 23 E \<noteq> push_bit 23 (mask 8)"
  proof
    assume "push_bit 23 E = push_bit 23 (mask 8)"
    then have "E = drop_bit 23 (push_bit 23 (mask 8))" using E by simp
    then have "uint E = 255" by (simp add: mask_eq_exp_minus_1)
    then show False using assms by simp
  qed
qed

text \<open>A number whose exponent is that of a normal half keeps its sign, exponent and upper fraction bits.\<close>

lemma half_of_normal:
  assumes "uint E = e + 112" "1 \<le> e" "e \<le> 30" "\<And>j. bit s j \<Longrightarrow> j < 1" "\<And>j. bit m j \<Longrightarrow> j < 10"
  shows "half_of_bits (single_bits (ucast s) E (push_bit 13 (ucast m))) = push_bit 15 s OR word_of_int (e * 1024) OR (m :: u16)"
proof -
  let ?S = "ucast s :: u32" and ?M = "push_bit 13 (ucast m) :: u32"
  have bS: "\<And>j. bit ?S j \<Longrightarrow> j < 1" by (auto simp: bit_simps dest: assms(4))
  have bM: "\<And>j. bit ?M j \<Longrightarrow> j < 23" by (auto simp: bit_simps dest: assms(5))
  have e: "uint E < 255" using assms(1-3) by simp
  note bE = exponent_bits(1) [OF e] and E = exponent_bits(2) [OF e]
  note exponent_bits(3) [OF e]
  moreover have "push_bit 23 E \<noteq> 0" using assms(1-3) E by fastforce
  moreover have "push_bit 23 E OR ?M \<noteq> 0" using \<open>push_bit 23 E \<noteq> 0\<close> by (simp add: or_eq_0_iff)
  moreover have "?M AND push_bit 12 1 = 0" by (rule bit_word_eqI; simp only: bit_and_iff bit_push_bit_iff bit_1_iff; simp)
  moreover have "ucast (drop_bit 13 ?M) = m" by (rule bit_word_eqI) (auto simp: bit_simps dest: assms(5))
  moreover have "ucast (drop_bit 16 (push_bit 31 ?S)) = push_bit 15 s"
    by (rule bit_word_eqI) (auto simp: bit_simps dest: assms(4))
  ultimately show ?thesis
    using assms(1-3) unfolding half_of_bits_def mask_words Let_def
    by (simp only: single_fields [OF bS bE bM] E) simp
qed

lemma half_of_subnormal:
  assumes "uint E = 103 + int k" "k < 10" "\<And>j. bit s j \<Longrightarrow> j < 1" "bit hm k" "\<And>j. bit hm j \<Longrightarrow> j \<le> k"
  shows "half_of_bits (single_bits (ucast s) E (push_bit 13 (ucast (push_bit (10 - k) hm AND 0x03FF)))) = push_bit 15 s OR (hm :: u16)"
proof -
  let ?S = "ucast s :: u32" and ?M = "push_bit 13 (ucast (push_bit (10 - k) hm AND mask 10)) :: u32"
  have bS: "\<And>j. bit ?S j \<Longrightarrow> j < 1" by (auto simp: bit_simps dest: assms(3))
  have bM: "\<And>j. bit ?M j \<Longrightarrow> j < 23" by (auto simp: bit_simps)
  have e: "uint E < 255" using assms(1,2) by simp
  note bE = exponent_bits(1) [OF e] and E = exponent_bits(2) [OF e]
  note exponent_bits(3) [OF e]
  moreover have "push_bit 23 E \<noteq> 0" using assms(1) E by fastforce
  moreover have "push_bit 23 E OR ?M \<noteq> 0" using \<open>push_bit 23 E \<noteq> 0\<close> by (simp add: or_eq_0_iff)
  moreover have M: "?M OR push_bit 23 1 = push_bit (23 - k) (ucast hm)"
  proof (rule bit_word_eqI)
    fix n assume n: "n < LENGTH(32)"
    have "bit hm (n - (23 - k)) \<longrightarrow> n \<le> 23" if "23 - k \<le> n" using assms(5) [of "n - (23 - k)"] that assms(2) by auto
    moreover have "n = 23 \<Longrightarrow> bit hm (n - (23 - k))" using assms(4,2) by simp
    moreover have "n - 13 - (10 - k) = n - (23 - k)" "13 \<le> n \<and> 10 - k \<le> n - 13 \<longleftrightarrow> 23 - k \<le> n" using assms(2) by auto
    ultimately show "bit (?M OR push_bit 23 1) n = bit (push_bit (23 - k) (ucast hm) :: u32) n"
      using n by (simp only: bit_or_iff bit_push_bit_iff bit_ucast_iff bit_and_iff bit_mask_iff bit_1_iff) auto
  qed
  moreover have "ucast (drop_bit (23 - k) (push_bit (23 - k) (ucast hm :: u32))) = hm"
    by (rule bit_word_eqI) (use assms(2) in \<open>auto simp: bit_simps dest: assms(5)\<close>)
  moreover have "drop_bit (22 - k) (push_bit (23 - k) (ucast hm :: u32)) AND 1 = 0"
    by (rule bit_word_eqI) (use assms(2) in \<open>auto simp: bit_simps\<close>)
  moreover have "ucast (drop_bit 16 (push_bit 31 ?S)) = push_bit 15 s"
    by (rule bit_word_eqI) (auto simp: bit_simps dest: assms(3))
  moreover have "nat (14 - (int k - 9)) = 23 - k" "nat (13 - (int k - 9)) = 22 - k" using assms(2) by auto
  ultimately show ?thesis
    using assms(1,2) unfolding half_of_bits_def mask_words Let_def
    by (simp only: single_fields [OF bS bE bM] E) simp
qed

lemma sign_field: "push_bit 16 (ucast (h AND 0x8000)) = (push_bit 31 (ucast (drop_bit 15 (h :: u16))) :: u32)"
  unfolding mask_words
proof (rule bit_word_eqI)
  fix n assume "n < LENGTH(32)"
  then consider "n = 31" | "n < 31" by fastforce
  then show "bit (push_bit 16 (ucast (h AND push_bit 15 (mask 1))) :: u32) n = bit (push_bit 31 (ucast (drop_bit 15 h)) :: u32) n"
    unfolding bit_push_bit_iff bit_ucast_iff bit_and_iff bit_mask_iff bit_drop_bit_eq comp_def by cases auto
qed

lemma half_fields: "push_bit 15 (drop_bit 15 h) OR (h AND 0x7C00) OR (h AND 0x03FF) = (h :: u16)"
  unfolding mask_words
proof (rule bit_word_eqI)
  fix n assume "n < LENGTH(16)"
  then consider "n = 15" | "10 \<le> n" "n < 15" | "n < 10" by fastforce
  then show "bit (push_bit 15 (drop_bit 15 h) OR (h AND push_bit 10 (mask 5)) OR (h AND mask 10)) n = bit h n"
    unfolding bit_push_bit_iff bit_or_iff bit_and_iff bit_mask_iff bit_drop_bit_eq comp_def by cases auto
qed

lemma zero_fields: "h AND 0x7FFF = 0 \<longleftrightarrow> h AND 0x7C00 = 0 \<and> h AND 0x03FF = (0 :: u16)"
proof -
  have "h AND 0x7FFF = (h AND 0x7C00) OR (h AND 0x03FF)" by (simp flip: bit.conj_disj_distrib)
  then show ?thesis by (simp add: or_eq_0_iff)
qed

lemma exponent_value: "word_of_int (uint (drop_bit 10 (h AND 0x7C00)) * 1024) = (h AND 0x7C00 :: u16)"
proof -
  have "word_of_int (uint w * 1024) = push_bit 10 w" for w :: u16 by (simp add: push_bit_eq_mult)
  moreover have "push_bit 10 (drop_bit 10 (h AND 0x7C00)) = h AND 0x7C00"
    unfolding mask_words
    by (rule bit_word_eqI; simp only: bit_push_bit_iff bit_and_iff bit_mask_iff bit_drop_bit_eq comp_def; auto)
  ultimately show ?thesis by simp
qed

lemma exponent_bound: "uint (drop_bit 10 (h AND 0x7C00)) < (32 :: int)" for h :: u16
proof -
  have "drop_bit 10 (h AND 0x7C00) = take_bit 5 (drop_bit 10 h)"
    unfolding mask_words
    by (rule bit_word_eqI; simp only: bit_push_bit_iff bit_and_iff bit_mask_iff bit_drop_bit_eq bit_take_bit_iff comp_def; auto)
  then show ?thesis by (simp add: unsigned_take_bit_eq take_bit_int_less_exp [of 5, simplified])
qed

lemma bits_of_normal:
  assumes "h AND 0x7C00 \<noteq> 0" "h AND 0x7C00 \<noteq> 0x7C00"
  shows "bits_of_half h = Some (single_bits (ucast (drop_bit 15 h)) (word_of_int (uint (drop_bit 10 (h AND 0x7C00)) + 112))
     (push_bit 13 (ucast (h AND 0x03FF))))"
  using assms by (simp add: bits_of_half_def zero_fields Let_def sign_field single_bits_def algebra_simps)

lemma bits_of_subnormal:
  assumes "h AND 0x7C00 = 0" "bit (h AND 0x03FF) k" "\<And>j. bit (h AND 0x03FF) j \<Longrightarrow> j \<le> k" "k < 10"
  shows "bits_of_half h = Some (single_bits (ucast (drop_bit 15 h)) (word_of_int (103 + int k))
     (push_bit 13 (ucast (push_bit (10 - k) (h AND 0x03FF) AND 0x03FF))))"
proof -
  have "half_shift (- 1) (h AND 0x03FF) = Some (9 - int k, push_bit (10 - k) (h AND 0x03FF))"
    using half_shift_lead [OF assms(2,4), of "- 1"] assms(3,4) by (fastforce simp: of_nat_diff)
  moreover have "h AND 0x03FF \<noteq> 0" using assms(2) by auto
  ultimately show ?thesis using assms(1,4)
    by (simp add: bits_of_half_def zero_fields Let_def sign_field single_bits_def)
qed

lemma f_isvalid_exponent: "f_isvalid x \<longleftrightarrow> x AND 0x7F800000 \<noteq> 0x7F800000"
proof -
  let ?e = "take_bit 8 (drop_bit 23 x)"
  have "uint x div 2 ^ 23 mod 2 ^ 8 = uint ?e" by (simp add: take_bit_eq_mod drop_bit_eq_div uint_div uint_mod)
  then have "f_isvalid x \<longleftrightarrow> uint ?e \<noteq> 255"
    by (simp add: f_isvalid_def f32_dec_def fl_dec_def Let_def)
  also have "\<dots> \<longleftrightarrow> ?e \<noteq> mask 8" unfolding word_uint_eq_iff by (simp add: mask_eq_exp_minus_1)
  also have "\<dots> \<longleftrightarrow> push_bit 23 ?e \<noteq> push_bit 23 (mask 8)"
  proof -
    have restore: "drop_bit 23 (push_bit 23 (take_bit 8 w)) = take_bit 8 w" for w :: u32
      by (rule field_back) (auto simp: bit_take_bit_iff)
    moreover have "take_bit 8 (mask 8) = (mask 8 :: u32)" by simp
    ultimately have "drop_bit 23 (push_bit 23 (mask 8)) = (mask 8 :: u32)" by (metis (no_types))
    then show ?thesis using restore [of "drop_bit 23 x"] by metis
  qed
  also have "push_bit 23 ?e = x AND push_bit 23 (mask 8)"
    by (rule bit_word_eqI; simp only: bit_push_bit_iff bit_take_bit_iff bit_drop_bit_eq bit_and_iff bit_mask_iff comp_def; auto)
  finally show ?thesis by (simp only: mask_words)
qed

lemma single_valid:
  assumes "\<And>j. bit (s :: u16) j \<Longrightarrow> j < 1" "uint E < 255" "\<And>j. bit M j \<Longrightarrow> j < 23"
  shows "f_isvalid (single_bits (ucast s) E M)"
proof -
  have S: "\<And>j. bit (ucast s :: u32) j \<Longrightarrow> j < 1" using assms(1) by (auto simp: bit_ucast_iff)
  show ?thesis
    using exponent_bits(3) [OF assms(2)]
    by (simp only: f_isvalid_exponent mask_words single_fields [OF S exponent_bits(1) [OF assms(2)] assms(3)] simp_thms)
qed

lemma half_roundtrip:
  assumes "h AND 0x7C00 \<noteq> 0x7C00"
  shows "\<exists>x. bits_of_half h = Some x \<and> half_of_bits x = h \<and> f_isvalid x"
proof -
  let ?s = "drop_bit 15 h" and ?m = "h AND 0x03FF" and ?e = "uint (drop_bit 10 (h AND 0x7C00))"
  have s: "\<And>j. bit ?s j \<Longrightarrow> j < 1" by (fastforce simp: bit_simps dest: bit_imp_le_length)
  have m: "\<And>j. bit ?m j \<Longrightarrow> j < 10" unfolding mask_words by (simp add: bit_and_iff bit_mask_iff)
  note valid = single_valid [OF s]
  consider "h AND 0x7C00 \<noteq> 0" | "h AND 0x7C00 = 0" "?m = 0" | "h AND 0x7C00 = 0" "?m \<noteq> 0" by blast
  then show ?thesis
  proof cases
    case 1
    have "?e \<noteq> 0" using 1 exponent_value [of h] by (metis mult_zero_left word_of_int_0)
    moreover have "?e \<noteq> 31"
    proof
      assume "?e = 31"
      then have "word_of_int (31 * 1024) = h AND 0x7C00" using exponent_value [of h] by (simp only:)
      then show False using assms by simp
    qed
    ultimately have e: "1 \<le> ?e" "?e \<le> 30" using exponent_bound [of h] uint_ge_0 [of "drop_bit 10 (h AND 0x7C00)"] by linarith+
    have E: "uint (word_of_int (?e + 112) :: u32) = ?e + 112" unfolding uint_word_of_int using e by (intro mod_pos_pos_trivial) auto
    have "half_of_bits (single_bits (ucast ?s) (word_of_int (?e + 112)) (push_bit 13 (ucast ?m))) =
        push_bit 15 ?s OR word_of_int (?e * 1024) OR ?m"
      by (rule half_of_normal [OF E e s m])
    also have "\<dots> = h" by (simp only: exponent_value half_fields)
    finally have "half_of_bits (single_bits (ucast ?s) (word_of_int (?e + 112)) (push_bit 13 (ucast ?m))) = h" .
    moreover have "f_isvalid (single_bits (ucast ?s) (word_of_int (?e + 112)) (push_bit 13 (ucast ?m)))"
      by (rule valid) (use E e(2) m in \<open>fastforce simp: bit_push_bit_iff bit_ucast_iff\<close>)+
    ultimately show ?thesis using bits_of_normal [OF 1 assms] by blast
  next
    case 2
    then have z: "h AND 0x7FFF = 0" by (simp add: zero_fields)
    let ?x = "push_bit 16 (ucast h) :: u32"
    have "?x AND 0x7FFFFFFF = push_bit 16 (ucast (h AND 0x7FFF))"
      unfolding mask_words by (rule bit_word_eqI; simp only: bit_push_bit_iff bit_ucast_iff bit_and_iff bit_mask_iff; auto)
    then have x: "?x AND 0x7FFFFFFF = 0" using z by simp
    have "ucast (drop_bit 16 ?x) = h" by (rule bit_word_eqI) (auto simp: bit_simps dest: bit_imp_le_length)
    then have "half_of_bits ?x = h" using x by (simp add: half_of_bits_def)
    moreover have "?x AND 0x7F800000 = 0"
    proof -
      have "?x AND 0x7F800000 = (?x AND 0x7FFFFFFF) AND 0x7F800000" by (simp add: and.assoc)
      then show ?thesis using x by simp
    qed
    then have "f_isvalid ?x" by (simp add: f_isvalid_exponent)
    moreover have "bits_of_half h = Some ?x" using z by (simp add: bits_of_half_def)
    ultimately show ?thesis by blast
  next
    case 3
    obtain k where k: "bit ?m k" "k < 10" "\<And>j. k < j \<Longrightarrow> \<not> bit ?m j"
      using lead_bit [OF 3(2), of 10] m by (metis not_le)
    then have le: "\<And>j. bit ?m j \<Longrightarrow> j \<le> k" using not_le by blast
    have E: "uint (word_of_int (103 + int k) :: u32) = 103 + int k" unfolding uint_word_of_int using k(2) by (intro mod_pos_pos_trivial) auto
    let ?x = "single_bits (ucast ?s) (word_of_int (103 + int k)) (push_bit 13 (ucast (push_bit (10 - k) ?m AND 0x03FF)))"
    have "half_of_bits ?x = push_bit 15 ?s OR ?m" by (rule half_of_subnormal [OF E k(2) s k(1) le])
    also have "\<dots> = h" using half_fields [of h] 3(1) by simp
    finally have "half_of_bits ?x = h" .
    moreover have "f_isvalid ?x"
      by (rule valid) (use E k(2) in \<open>auto simp: mask_words bit_push_bit_iff bit_ucast_iff bit_and_iff bit_mask_iff\<close>)
    ultimately show ?thesis using bits_of_subnormal [OF 3(1) k(1) le k(2)] by blast
  qed
qed

subsection \<open>Reading and writing\<close>

text \<open>
  C31: every half-precision number that is not infinite is read as a valid \<open>float\<close>, and packing that
  gives the same two bytes again, whatever follows them in memory.
\<close>

theorem half_float_roundtrip:
  fixes h :: u16 and ms :: bytes
  assumes "h AND 0x7C00 \<noteq> 0x7C00"
  shows "\<exists>v. unpack_float_f2 (le_bytes 2 h @ ms) = Some (2, v) \<and> f_isvalid v \<and> pack_float_f2 v = Some (le_bytes 2 h, v)"
  using half_roundtrip [OF assms] by (auto simp: unpack_float_f2_def take_bytes_def of_le_le_bytes pack_float_f2_def)

lemma half_float_roundtrip_witness:
  "\<exists>v. unpack_float_f2 (le_bytes 2 (0x3C01 :: u16) @ [7]) = Some (2, v) \<and> pack_float_f2 v = Some (le_bytes 2 (0x3C01 :: u16), v)"
  using half_float_roundtrip [of "0x3C01" "[7]"] by auto

end
