(* ===== verification/Backport_Types.thy ===== *)
theory Backport_Types
  imports Backport_Half
begin

text \<open>
  The variables of the old dictionary keep their types: every access by index does, and what a variable
  is packed to has the size of its format and is read back to a value of its type.
\<close>

unbundle bit_operations_syntax

subsection \<open>What is read\<close>

lemma bits_of_half_total: "\<exists>x. bits_of_half h = Some x"
proof (cases "h AND 0x7C00 = 0x7C00")
  case True
  moreover have "h AND 0x7FFF \<noteq> 0" using True zero_fields [of h] by auto
  ultimately show ?thesis by (simp add: bits_of_half_def Let_def)
qed (use half_roundtrip in blast)

lemma take_bytes_append: "length bs = n \<Longrightarrow> take_bytes n f (bs @ rest) = map_option (Pair n) (f bs)"
  by (simp add: take_bytes_def)

lemma unpack_float_total:
  assumes "unpack_float f = Some g" "length bs = fmt_bytes f"
  shows "\<exists>v. \<forall>rest. g (bs @ rest) = Some (fmt_bytes f, v)"
proof (cases "f = F2")
  case True
  then show ?thesis using assms bits_of_half_total [of "of_le bs"]
    by (auto simp: unpack_float_f2_def take_bytes_append)
next
  case False
  then show ?thesis using assms by (cases f) (auto simp: float_takers take_bytes_append Let_def)
qed

lemma unpack_vect_total:
  assumes g: "\<And>bs. length bs = n \<Longrightarrow> \<exists>v. \<forall>rest. g (bs @ rest) = Some (n, v)" and "length bs = 3 * n"
  shows "\<exists>v. \<forall>rest. unpack_vect n g (bs @ rest) = Some (3 * n, v)"
proof -
  obtain xs ys zs where bs: "bs = xs @ ys @ zs" "length xs = n" "length ys = n" "length zs = n"
    using assms(2) by (intro that [of "take n bs" "take n (drop n bs)" "drop n (drop n bs)"])
      (simp_all only: append_take_drop_id length_take length_drop)
  obtain a b c where "\<And>rest. g (xs @ rest) = Some (n, a)" "\<And>rest. g (ys @ rest) = Some (n, b)" "\<And>rest. g (zs @ rest) = Some (n, c)"
    using g bs by metis
  then show ?thesis using bs by (simp add: unpack_vect_def)
qed

lemma unpack_point_total:
  assumes g: "\<And>bs. length bs = n \<Longrightarrow> \<exists>v. \<forall>rest. g (bs @ rest) = Some (n, v)" and "length bs = 2 * n"
  shows "\<exists>v. \<forall>rest. unpack_point n g (bs @ rest) = Some (2 * n, v)"
proof -
  obtain xs ys where bs: "bs = xs @ ys" "length xs = n" "length ys = n"
    using assms(2) by (intro that [of "take n bs" "drop n bs"]) auto
  obtain a b where "\<And>rest. g (xs @ rest) = Some (n, a)" "\<And>rest. g (ys @ rest) = Some (n, b)" using g bs by metis
  then show ?thesis using bs by (simp add: unpack_point_def)
qed

lemma taken_by_total:
  assumes "\<exists>v. \<forall>rest. u (bs @ rest) = Some (n, v)" "\<And>v. val_type (con v) = t"
  shows "\<exists>w. val_type w = t \<and> (\<forall>rest. taken_by con (Some u) (bs @ rest) = Some (n, w))"
  using assms by (fastforce simp: taken_by_def)

lemma take_bytes_total: "length bs = n \<Longrightarrow> \<exists>v. \<forall>rest. take_bytes n (\<lambda>bs. Some (f bs)) (bs @ rest) = Some (n, v)"
  by (simp add: take_bytes_append)

lemma unpack_as_total:
  assumes "has_format t f" "length bs = size_as f t"
  shows "\<exists>v. val_type v = t \<and> (\<forall>rest. unpack_as f t (bs @ rest) = Some (size_as f t, v))"
proof (cases t)
  case vt_float
  then obtain g where "unpack_float f = Some g" using assms(1) by (cases f) auto
  then show ?thesis using taken_by_total [OF unpack_float_total [of f g bs], of MFloat vt_float] assms(2) vt_float
    by (simp add: size_as_def)
next
  case vt_vect
  then obtain g where g: "unpack_float f = Some g" "unpack_vect_as f = Some (unpack_vect (fmt_bytes f) g)"
    using assms(1) unpack_vect_as_parts by blast
  then show ?thesis using taken_by_total [OF unpack_vect_total [OF unpack_float_total [OF g(1)], of bs], of vect_val vt_vect]
      assms(2) vt_vect by (simp add: size_as_def)
next
  case vt_point
  then obtain g where g: "unpack_float f = Some g" "unpack_point_as f = Some (unpack_point (fmt_bytes f) g)"
    using assms(1) unpack_point_as_parts by blast
  then show ?thesis using taken_by_total [OF unpack_point_total [OF unpack_float_total [OF g(1)], of bs], of point_val vt_point]
      assms(2) vt_point by (simp add: size_as_def)
qed (use assms in \<open>auto simp: int_takers size_as_def intro!: taken_by_total take_bytes_total\<close>)

lemma unpack_as_type: "unpack_as f t buf = Some (n, v) \<Longrightarrow> val_type v = t"
  by (cases t) (auto simp: taken_by_def split: bind_splits)

subsection \<open>Every access keeps the types\<close>

text \<open>The class has the functions the dictionary asks for.\<close>

lemma formats_exist: "list_all (\<lambda>v. has_format (fst v) (fmt_hd v) \<and> has_format (fst v) (fmt_ext v)) mvars"
  by code_simp

lemma mvars_length: "length mvars = 201"
  by code_simp

lemma format_exists: "i < length mvars \<Longrightarrow> fmt \<in> {fmt_hd, fmt_ext} \<Longrightarrow> has_format (fst (mvars ! i)) (fmt (mvars ! i))"
  using formats_exist by (auto simp: list_all_length)

lemma core_ok_length: "core_ok vs \<Longrightarrow> length vs = length mvars"
  unfolding core_ok_def by (metis length_map)

lemma core_ok_type: "core_ok vs \<Longrightarrow> i < length mvars \<Longrightarrow> val_type (vs ! i) = fst (mvars ! i)"
  using core_ok_length [of vs] by (auto simp: core_ok_def dest!: arg_cong [where f = "\<lambda>l. l ! i"])

lemma core_ok_update: "core_ok vs \<Longrightarrow> (i < length mvars \<Longrightarrow> val_type v = fst (mvars ! i)) \<Longrightarrow> core_ok (vs[i := v])"
  by (cases "i < length mvars") (auto simp: core_ok_length list_update_beyond,
    auto simp: core_ok_def map_update intro!: list_update_same_conv [THEN iffD2])

lemma pack_var_ok: "core_ok vs \<Longrightarrow> pack_var fmt vs i = Some (bs, vs') \<Longrightarrow> core_ok vs'"
  by (auto simp: pack_var_def Let_def core_ok_type dest!: pack_as_size intro!: core_ok_update split: if_splits bind_splits)

lemma unpack_var_ok: "core_ok vs \<Longrightarrow> unpack_var fmt vs buf i = Some (n, vs') \<Longrightarrow> core_ok vs'"
  by (auto simp: unpack_var_def Let_def dest!: unpack_as_type intro!: core_ok_update split: if_splits bind_splits)

lemma set_value_type: "set_value m v w = Some w' \<Longrightarrow> val_type w' = val_type w"
  by (cases w) (auto split: if_splits)

lemma get_ptr_bound: "get_ptr k = Some (Some i, t) \<Longrightarrow> i < length mvars"
  by (auto simp: get_ptr_def idx_vars_top_def split: if_splits)

lemma set_data_ok: "core_ok vs \<Longrightarrow> set_data vs m v = Some vs' \<Longrightarrow> core_ok vs'"
  by (auto simp: set_data_def core_ok_type dest!: set_value_type get_ptr_bound intro!: core_ok_update
      split: option.splits prod.splits)

lemma core_pack_ok: "core_ok vs \<Longrightarrow> core_pack vs i = Some (bs, vs') \<Longrightarrow> core_ok vs'"
  by (auto simp: core_pack_def intro: pack_var_ok split: if_splits bind_splits)

lemma core_unpack_ok: "core_ok vs \<Longrightarrow> core_unpack vs buf cnt i = Some (n, vs') \<Longrightarrow> core_ok vs'"
  by (auto simp: core_unpack_def unpack_set_def intro: unpack_var_ok set_data_ok split: if_splits bind_splits)

lemma stream_bits_ok:
  "stream_bits high m k (vs, buf, tcnt, idx) = Some (z, vs', rest) \<Longrightarrow> core_ok vs \<Longrightarrow> core_ok vs'"
proof (induction "8 - k" arbitrary: high k vs buf tcnt idx)
  case 0
  then show ?case by (simp add: stream_bits.simps)
next
  case (Suc n)
  have IH: "stream_bits high m (Suc k) (ws, buf, t, idx) = Some (z, vs', rest) \<Longrightarrow> core_ok ws \<Longrightarrow> core_ok vs'" for high ws buf t idx
    using Suc(1) [of "Suc k"] Suc(2) by simp
  show ?case
    using Suc(3,4) by (subst (asm) stream_bits.simps)
      (auto split: if_splits bind_splits simp: core_unpack_ext_def, (metis core_unpack_ok unpack_var_ok IH)+)
qed

lemma stream_loop_ok: "stream_loop high vs buf tcnt idx = Some (z, vs') \<Longrightarrow> core_ok vs \<Longrightarrow> core_ok vs'"
proof (induction high vs buf tcnt idx rule: stream_loop.induct)
  case (1 high vs buf tcnt idx)
  show ?case
    using 1(2,3) by (subst (asm) stream_loop.simps)
      (auto split: list.splits option.splits if_splits prod.splits dest: stream_bits_ok intro: 1(1))
qed

text \<open>
  The types of the model's values stay those of the declarations of the code: packing a variable, setting an element of one,
  unpacking one variable or a whole stream of them, in either of the two sets of formats, turns well-typed
  variables into well-typed variables.
\<close>

theorem core_types:
  assumes "core_ok vs"
  shows "(core_pack vs i = Some (bs, vs') \<longrightarrow> core_ok vs') \<and> (core_pack_ext vs i = Some (bs, vs') \<longrightarrow> core_ok vs') \<and>
    (set_data vs m v = Some vs' \<longrightarrow> core_ok vs') \<and> (core_unpack vs buf cnt i = Some (n, vs') \<longrightarrow> core_ok vs') \<and>
    (core_unpack_ext vs buf i = Some (n, vs') \<longrightarrow> core_ok vs') \<and> (unpack_stream vs buf cnt high = Some (n, vs') \<longrightarrow> core_ok vs')"
  using core_pack_ok [OF assms] pack_var_ok [OF assms] set_data_ok [OF assms] core_unpack_ok [OF assms]
    unpack_var_ok [OF assms] stream_loop_ok [OF _ assms]
  by (auto simp: core_pack_ext_def core_unpack_ext_def unpack_stream_def split: bind_splits)

lemma init_vars_ok: "core_ok init_vars"
proof -
  have "val_type (zero_of t) = t" if "t \<noteq> vt_idx" "t \<noteq> vt_void" for t using that by (cases t) auto
  moreover have "fst v \<noteq> vt_idx \<and> fst v \<noteq> vt_void" if "v \<in> set mvars" for v
    using formats_exist that by (auto simp: list_all_iff)
  ultimately have "core_ok (map (\<lambda>v. zero_of (fst v)) mvars)" by (simp add: core_ok_def)
  moreover have "var_pos ''cas2tas'' < length mvars \<and> fst (mvars ! var_pos ''cas2tas'') = vt_float" by code_simp
  ultimately show ?thesis by (auto simp: init_vars_def intro: core_ok_update)
qed

lemma core_types_witness:
  "core_ok init_vars \<and> (\<exists>vs'. set_data init_vars 0x0221 0x3F800000 = Some vs' \<and> vs' ! 1 = MVect 0 0 0x3F800000 \<and> core_ok vs')"
proof -
  have "set_data init_vars 0x0221 0x3F800000 = Some (init_vars[1 := MVect 0 0 0x3F800000])" by code_simp
  then show ?thesis using core_types [OF init_vars_ok, of _ _ _ "0x0221" "0x3F800000"] init_vars_ok core_ok_length [OF init_vars_ok]
    by (auto simp: mvars_length)
qed

end
