(* ===== verification/Backport_Stream.thy ===== *)
theory Backport_Stream
  imports Backport_Types
begin

text \<open>
  What the downlink stream of the old dictionary is: chunks of up to eight variables, each a byte that
  tells which of them are sent, and their bytes.  \<open>unpack_stream\<close> stores the variables of the chunks.
\<close>

unbundle bit_operations_syntax

subsection \<open>Formats and sizes by position\<close>

definition fmt_of :: "bool \<Rightarrow> nat \<Rightarrow> vfmt" where
  "fmt_of high k = (if high then fmt_hd else fmt_ext) (mvars ! k)"

definition type_of :: "nat \<Rightarrow> vt" where
  "type_of k = fst (mvars ! k)"

definition vsize :: "bool \<Rightarrow> nat \<Rightarrow> nat" where
  "vsize high k = size_as (fmt_of high k) (type_of k)"

text \<open>The value the bytes of a variable are read as.\<close>

definition reads :: "bool \<Rightarrow> nat \<Rightarrow> bytes \<Rightarrow> mval" where
  "reads high k bs = (case unpack_as (fmt_of high k) (type_of k) bs of Some (n, v) \<Rightarrow> v | None \<Rightarrow> MByte 0)"

lemma format_of: "k < 201 \<Longrightarrow> has_format (type_of k) (fmt_of high k)"
  using format_exists [of k "if high then fmt_hd else fmt_ext"] by (auto simp: mvars_length type_of_def fmt_of_def)

lemma fmt_bytes_bounds: "0 < fmt_bytes f" "fmt_bytes f \<le> 4"
  by (cases f; simp)+

lemma elements_bounds: "0 < elements t" "elements t \<le> 3"
  by (cases t; simp)+

lemma vsize_bounds: "0 < vsize high k" "vsize high k \<le> 12"
  using fmt_bytes_bounds [of "fmt_of high k"] elements_bounds [of "type_of k"] mult_le_mono [of "elements (type_of k)" 3 "fmt_bytes (fmt_of high k)" 4]
  by (simp_all add: vsize_def size_as_def)

lemma reads_unpack:
  assumes "k < 201" "length bs = vsize high k"
  shows "unpack_as (fmt_of high k) (type_of k) (bs @ rest) = Some (vsize high k, reads high k bs)"
    "val_type (reads high k bs) = type_of k"
proof -
  obtain v where v: "val_type v = type_of k" "\<And>rest. unpack_as (fmt_of high k) (type_of k) (bs @ rest) = Some (vsize high k, v)"
    using unpack_as_total [OF format_of [OF assms(1), of high], of bs] assms(2) by (auto simp: vsize_def)
  have "reads high k bs = v" using v(2) [of "[]"] by (simp add: reads_def)
  then show "unpack_as (fmt_of high k) (type_of k) (bs @ rest) = Some (vsize high k, reads high k bs)"
    "val_type (reads high k bs) = type_of k" using v by auto
qed

lemma unpack_by_position:
  assumes "k < 201" "length bs = vsize high k"
  shows "(if high then core_unpack vs (bs @ rest) n (k + idxPAD) else core_unpack_ext vs (bs @ rest) (k + idxPAD)) =
    Some (vsize high k, vs[k := reads high k bs])"
  using reads_unpack(1) [OF assms, of rest] assms(1)
  by (auto simp: core_unpack_def core_unpack_ext_def unpack_var_def Let_def idx_vars_top_def mvars_length fmt_of_def type_of_def)

subsection \<open>Chunks\<close>

text \<open>A variable of a chunk is sent or not.\<close>

type_synonym item = "bytes option"

definition item_bytes :: "item \<Rightarrow> bytes" where
  "item_bytes x = (case x of None \<Rightarrow> [] | Some bs \<Rightarrow> bs)"

definition data_of :: "item list \<Rightarrow> bytes" where
  "data_of c = concat (map item_bytes c)"

definition chunk_mask :: "item list \<Rightarrow> u8" where
  "chunk_mask c = horner_sum of_bool 2 (map (\<lambda>x. x \<noteq> None) c)"

definition chunk_bytes :: "item list \<Rightarrow> bytes" where
  "chunk_bytes c = chunk_mask c # data_of c"

definition stream_of :: "item list list \<Rightarrow> bytes" where
  "stream_of cs = concat (map chunk_bytes cs)"

text \<open>The items have the sizes of the variables from \<open>k\<close> on.\<close>

fun items_ok :: "bool \<Rightarrow> nat \<Rightarrow> item list \<Rightarrow> bool" where
  "items_ok high k [] \<longleftrightarrow> True"
| "items_ok high k (x # c) \<longleftrightarrow> (\<forall>bs. x = Some bs \<longrightarrow> length bs = vsize high k) \<and> k < 201 \<and> items_ok high (Suc k) c"

text \<open>The variables of a receiver after the items.\<close>

fun receive :: "bool \<Rightarrow> nat \<Rightarrow> item list \<Rightarrow> core \<Rightarrow> core" where
  "receive high k [] vs = vs"
| "receive high k (None # c) vs = receive high (Suc k) c vs"
| "receive high k (Some bs # c) vs = receive high (Suc k) c (vs[k := reads high k bs])"

lemma data_of_simps [simp]:
  "data_of [] = []" "data_of (None # c) = data_of c" "data_of (Some bs # c) = bs @ data_of c"
  "data_of (c @ d) = data_of c @ data_of d"
  by (simp_all add: data_of_def item_bytes_def)

lemma chunk_stream_simps [simp]:
  "stream_of [] = []" "stream_of (c # cs) = chunk_bytes c @ stream_of cs" "stream_of (cs @ ds) = stream_of cs @ stream_of ds"
  by (simp_all add: stream_of_def)

lemma chunk_mask_bit: "length c \<le> 8 \<Longrightarrow> bit (chunk_mask c) n \<longleftrightarrow> n < length c \<and> c ! n \<noteq> None"
  by (auto simp: chunk_mask_def bit_horner_sum_bit_iff)

lemma items_ok_append: "items_ok high k (c @ d) \<longleftrightarrow> items_ok high k c \<and> items_ok high (k + length c) d"
  by (induction c arbitrary: k) auto

lemma receive_append: "receive high k (c @ d) vs = receive high (k + length c) d (receive high k c vs)"
proof (induction c arbitrary: k vs)
  case (Cons x c)
  then show ?case by (cases x) auto
qed simp

lemma length_receive [simp]: "length (receive high k c vs) = length vs"
proof (induction c arbitrary: k vs)
  case (Cons x c)
  then show ?case by (cases x) auto
qed simp

lemma receive_nth:
  "n < length vs \<Longrightarrow> receive high k c vs ! n =
     (if k \<le> n \<and> n < k + length c then case c ! (n - k) of None \<Rightarrow> vs ! n | Some bs \<Rightarrow> reads high n bs else vs ! n)"
proof (induction c arbitrary: k vs)
  case (Cons x c)
  then show ?case by (cases x) (auto simp: nth_Cons' nth_list_update not_less_eq_eq le_Suc_eq Suc_diff_Suc split: option.split)
qed auto

lemma receive_ok: "items_ok high k c \<Longrightarrow> core_ok vs \<Longrightarrow> core_ok (receive high k c vs)"
proof (induction c arbitrary: k vs)
  case (Cons x c)
  then show ?case
    by (cases x) (auto simp: reads_unpack(2) mvars_length type_of_def intro!: Cons.IH core_ok_update)
qed simp

lemma no_data: "items_ok high k c \<Longrightarrow> data_of c = [] \<Longrightarrow> x \<in> set c \<Longrightarrow> x = None"
proof (induction c arbitrary: k)
  case (Cons y c)
  then show ?case using vsize_bounds(1) [of high k] by (cases y) auto
qed simp

lemma receive_none: "(\<And>x. x \<in> set c \<Longrightarrow> x = None) \<Longrightarrow> receive high k c vs = vs"
proof (induction c arbitrary: k)
  case (Cons x c)
  then show ?case by (cases x) auto
qed simp

subsection \<open>unpack_stream\<close>

lemma stream_bits_receive:
  assumes "items_ok high n c" "i + length c \<le> 8" "\<And>j. j < length c \<Longrightarrow> bit m (i + j) \<longleftrightarrow> c ! j \<noteq> None"
    "\<And>j. i + length c \<le> j \<Longrightarrow> \<not> bit m j" "int (length (data_of c)) \<le> t"
  shows "stream_bits high m i (vs, data_of c @ rest, t, n + idxPAD) =
    Some (False, receive high n c vs, rest, t - int (length (data_of c)), n + (8 - i) + idxPAD)"
  using assms
proof (induction "8 - i" arbitrary: i n c t vs)
  case 0
  then have "length c = 0" "8 \<le> i" by linarith+
  then show ?case by (simp add: stream_bits.simps)
next
  case (Suc l)
  have l: "l = 8 - Suc i" "n + (8 - i) = Suc n + (8 - Suc i)" "i < 8" using Suc(2) by auto
  show ?case
  proof (cases c)
    case Nil
    have "\<not> bit m i" using Suc.prems(4) [of i] Nil by simp
    moreover have "stream_bits high m (Suc i) (vs, data_of [] @ rest, t, Suc n + idxPAD) =
        Some (False, receive high (Suc n) [] vs, rest, t - int (length (data_of [])), n + (8 - i) + idxPAD)"
      using Suc.prems Suc(2) Nil unfolding l(2) by (intro Suc.hyps(1) [OF l(1)]) auto
    ultimately show ?thesis using Nil l(3) by (subst stream_bits.simps) simp
  next
    case (Cons x d)
    have bits: "bit m i \<longleftrightarrow> x \<noteq> None" using Suc.prems(3) [of 0] Cons by simp
    have step: "stream_bits high m (Suc i) (ws, data_of d @ rest, u, Suc n + idxPAD) =
        Some (False, receive high (Suc n) d ws, rest, u - int (length (data_of d)), n + (8 - i) + idxPAD)"
      if "int (length (data_of d)) \<le> u" for ws u
      using Suc.prems Suc(2) Cons Suc.prems(3) [of "Suc _"] that unfolding l(2) by (intro Suc.hyps(1) [OF l(1)]) auto
    show ?thesis
    proof (cases x)
      case None
      then show ?thesis using step [of t vs] bits Cons l(3) Suc.prems(5)
        by (subst stream_bits.simps) simp
    next
      case (Some bs)
      have bs: "length bs = vsize high n" "n < 201" using Suc.prems(1) Cons Some by auto
      have "0 < vsize high n" by (rule vsize_bounds)
      moreover have "int (length (data_of d)) \<le> t - int (vsize high n)" using Suc.prems(5) Cons Some bs by simp
      ultimately show ?thesis
        using step [of "t - int (vsize high n)" "vs[n := reads high n bs]"] bits Cons l(3) Some bs
          unpack_by_position [OF bs(2,1), of vs "data_of d @ rest" "nat t"]
        by (subst stream_bits.simps) (cases high; simp)
    qed
  qed
qed

text \<open>All chunks but the last are of eight variables, and the last one is not empty.\<close>

definition chunks_ok :: "item list list \<Rightarrow> bool" where
  "chunks_ok cs \<longleftrightarrow> (\<forall>c\<in>set (butlast cs). length c = 8) \<and> (cs \<noteq> [] \<longrightarrow> length (last cs) \<le> 8 \<and> data_of (last cs) \<noteq> [])"

lemma stream_loop_receive:
  assumes "cs \<noteq> []" "chunks_ok cs" "items_ok high n (concat cs)"
  shows "stream_loop high vs (stream_of cs @ rest) (int (length (stream_of cs)) - 1) (n + idxPAD) =
    Some (False, receive high n (concat cs) vs)"
  using assms
proof (induction cs arbitrary: n vs)
  case (Cons c cs)
  have c: "length c \<le> 8" using Cons.prems by (auto simp: chunks_ok_def split: if_splits)
  let ?t = "int (length (stream_of (c # cs))) - 1"
  have t: "?t = int (length (data_of c)) + int (length (stream_of cs))" by (simp add: chunk_bytes_def)
  have bits: "stream_bits high (chunk_mask c) 0 (vs, data_of c @ stream_of cs @ rest, ?t, n + idxPAD) =
      Some (False, receive high n c vs, stream_of cs @ rest, int (length (stream_of cs)), n + 8 + idxPAD)"
    using stream_bits_receive [of high n c 0 "chunk_mask c" ?t vs "stream_of cs @ rest"] Cons.prems c t
    by (simp add: chunk_mask_bit items_ok_append)
  show ?case
  proof (cases cs)
    case Nil
    then show ?thesis using bits by (subst stream_loop.simps) (simp add: chunk_bytes_def)
  next
    case (Cons d ds)
    then have c8: "length c = 8" and ok: "chunks_ok cs" using Cons.prems(2) by (auto simp: chunks_ok_def split: if_splits)
    have "stream_of cs = stream_of (butlast cs) @ chunk_bytes (last cs)"
      using Cons by (subst append_butlast_last_id [symmetric, of cs]) (auto simp del: append_butlast_last_id)
    then have "2 \<le> length (stream_of cs)" using ok Cons by (cases "data_of (last cs)") (auto simp: chunks_ok_def chunk_bytes_def)
    moreover have "stream_loop high (receive high n c vs) (stream_of cs @ rest) (int (length (stream_of cs)) - 1) (n + 8 + idxPAD) =
        Some (False, receive high (n + 8) (concat cs) (receive high n c vs))"
      using Cons ok c8 Cons.prems(3) by (intro Cons.IH) (auto simp: items_ok_append)
    ultimately show ?thesis using bits c8
      by (subst stream_loop.simps) (simp add: chunk_bytes_def receive_append)
  qed
qed simp

lemma unpack_stream_receive:
  assumes "cs \<noteq> []" "chunks_ok cs" "items_ok high 0 (concat cs)"
  shows "unpack_stream vs (stream_of cs @ rest) (length (stream_of cs)) high =
    Some (length (stream_of cs), receive high 0 (concat cs) vs)"
  using stream_loop_receive [OF assms, of vs rest] by (simp add: unpack_stream_def)

end
