(* ===== verification/Backport_Buffer.thy ===== *)
theory Backport_Buffer
  imports Backport_Stream
begin

text \<open>
  The buffer of \<open>pack_downstream\<close> while its loop runs: the chunks stored so far, and the one begun.
\<close>

unbundle bit_operations_syntax

subsection \<open>Chunks while they are written\<close>

lemma chunk_None [simp]: "chunk_bytes (c @ [None]) = chunk_bytes c" if "length c < 8"
proof -
  have "chunk_mask (c @ [None]) = chunk_mask c"
    using that by (intro bit_word_eqI) (auto simp: chunk_mask_bit nth_append)
  then show ?thesis by (simp add: chunk_bytes_def)
qed

lemma chunk_mask_Some: "length c < 8 \<Longrightarrow> chunk_mask (c @ [Some bs]) = chunk_mask c OR 2 ^ length c"
  by (intro bit_word_eqI) (auto simp: chunk_mask_bit nth_append bit_or_iff bit_exp_iff less_Suc_eq)

lemma chunk_Nil: "chunk_bytes [] = [0]"
  by (simp add: chunk_bytes_def chunk_mask_def)

text \<open>The chunks up to the last one with a variable.\<close>

definition live :: "item list list \<Rightarrow> item list list" where
  "live cs = rev (dropWhile (\<lambda>c. data_of c = []) (rev cs))"

lemma live_Nil [simp]: "live [] = []"
  by (simp add: live_def)

lemma live_snoc [simp]: "live (cs @ [c]) = (if data_of c = [] then live cs else cs @ [c])"
  by (simp add: live_def)

lemma live_length: "length (stream_of cs) + length (live cs) = length (stream_of (live cs)) + length cs \<and> length (live cs) \<le> length cs"
  by (induction cs rule: rev_induct) (auto simp: chunk_bytes_def)

lemma live_prefix: "\<exists>ds. cs = live cs @ ds \<and> (\<forall>d\<in>set ds. data_of d = [])"
proof (induction cs rule: rev_induct)
  case (snoc c cs)
  then show ?case by (cases "data_of c = []") (fastforce intro: exI [of _ "_ @ [c]"])+
qed simp

lemma live_last: "live cs \<noteq> [] \<Longrightarrow> data_of (last (live cs)) \<noteq> []"
  by (induction cs rule: rev_induct) auto

lemma live_chunks:
  assumes "\<And>c. c \<in> set full \<Longrightarrow> length c = 8" "length cur \<le> 8"
  shows "chunks_ok (live (full @ [cur]))"
proof -
  have full: "chunks_ok (live cs)" if "\<And>c. c \<in> set cs \<Longrightarrow> length c = 8" for cs :: "item list list"
    using that by (induction cs rule: rev_induct) (auto simp: chunks_ok_def)
  show ?thesis using full [OF assms(1)] assms by (auto simp: chunks_ok_def)
qed

lemma receive_live:
  assumes "items_ok high 0 (concat cs)"
  shows "receive high 0 (concat (live cs)) vs = receive high 0 (concat cs) vs"
proof -
  obtain ds where ds: "cs = live cs @ ds" "\<forall>d\<in>set ds. data_of d = []" using live_prefix by blast
  have ok: "items_ok high (length (concat (live cs))) (concat ds)"
    using assms ds(1) items_ok_append [of high 0 "concat (live cs)" "concat ds"] by (metis add_0 concat_append)
  have "data_of (concat ds) = []" using ds(2) by (induction ds) auto
  then have "receive high (0 + length (concat (live cs))) (concat ds) ws = ws" for ws
    by (rule receive_none [OF no_data [OF ok]])
  moreover have "receive high 0 (concat cs) vs = receive high (0 + length (concat (live cs))) (concat ds) (receive high 0 (concat (live cs)) vs)"
    by (subst ds(1)) (simp only: concat_append receive_append)
  ultimately show ?thesis by simp
qed

subsection \<open>The buffer\<close>

text \<open>The buffer holds the chunks \<open>full\<close> of eight variables and the one begun, \<open>cur\<close>.\<close>

definition buffer_at :: "bytes \<Rightarrow> item list list \<Rightarrow> item list \<Rightarrow> packing \<Rightarrow> bool" where
  "buffer_at hdr full cur p \<longleftrightarrow> length hdr = 2 \<and> (\<forall>c\<in>set full. length c = 8) \<and> p_reset_pos p = length full \<and>
     p_mask_ptr p = 2 + length (stream_of full) \<and> p_ptr p = 2 + length (stream_of (full @ [cur])) \<and>
     p_ptr p \<le> length (p_buf p) \<and> take (p_ptr p) (p_buf p) = hdr @ stream_of (full @ [cur]) \<and>
     p_cnt p + p_mask_cnt p = length (stream_of (live (full @ [cur]))) \<and>
     p_mask_zero p + length (live (full @ [cur])) = Suc (length full)"

lemma buffer_skip: "buffer_at hdr full cur p \<Longrightarrow> length cur < 8 \<Longrightarrow> buffer_at hdr full (cur @ [None]) p"
  by (auto simp: buffer_at_def)

lemma buffer_ptr: "buffer_at hdr full cur p \<Longrightarrow> p_ptr p = 2 + p_cnt p + p_mask_cnt p + p_mask_zero p"
  using live_length [of "full @ [cur]"] by (auto simp: buffer_at_def simp del: live_snoc)

lemma buffer_post:
  assumes "buffer_at hdr full cur p" "length cur < 8" "bs \<noteq> []" "p_ptr p + length bs \<le> length (p_buf p)"
  shows "\<exists>buf. store (p_ptr p) bs (p_buf p) = Some buf \<and> length buf = length (p_buf p) \<and>
    buffer_at hdr full (cur @ [Some bs]) (p\<lparr> p_snap := sn, p_buf := buf[p_mask_ptr p := buf ! p_mask_ptr p OR 2 ^ length cur],
      p_ptr := p_ptr p + length bs, p_cnt := p_cnt p + length bs, p_mask_cnt := p_mask_cnt p + p_mask_zero p, p_mask_zero := 0 \<rparr>)"
proof -
  let ?buf = "blit (p_ptr p) bs (p_buf p)" and ?m = "2 + length (stream_of full)"
  have "take (p_ptr p) (p_buf p) = hdr @ stream_of (full @ [cur])" using assms(1) unfolding buffer_at_def by blast
  then have chunks: "take (p_ptr p) (p_buf p) = hdr @ stream_of full @ chunk_mask cur # data_of cur" by (simp add: chunk_bytes_def)
  have m: "p_mask_ptr p = ?m" and hdr: "length hdr = 2" and ptr: "p_ptr p = ?m + Suc (length (data_of cur))"
    using assms(1) by (simp_all add: buffer_at_def chunk_bytes_def)
  have st: "store (p_ptr p) bs (p_buf p) = Some ?buf" "length ?buf = length (p_buf p)" using assms(4) by (simp_all add: store_def)
  have tk: "take (p_ptr p + length bs) ?buf = hdr @ stream_of full @ chunk_mask cur # data_of cur @ bs"
    using assms(4) chunks by (simp add: take_blit_end)
  have "?buf ! ?m = take (p_ptr p + length bs) ?buf ! ?m" using ptr by simp
  also have "\<dots> = chunk_mask cur" by (simp only: tk) (simp add: nth_append hdr)
  finally have nth: "?buf ! p_mask_ptr p = chunk_mask cur" using m by simp
  let ?buf' = "?buf[p_mask_ptr p := ?buf ! p_mask_ptr p OR 2 ^ length cur]"
  have "take (p_ptr p + length bs) ?buf' = (hdr @ stream_of full @ chunk_mask cur # data_of cur @ bs)[?m := chunk_mask cur OR 2 ^ length cur]"
    unfolding take_update_swap tk nth by (simp only: m)
  also have "\<dots> = hdr @ stream_of (full @ [cur @ [Some bs]])"
    using hdr by (simp add: list_update_append chunk_bytes_def chunk_mask_Some [OF assms(2)])
  finally have tk': "take (p_ptr p + length bs) ?buf' = hdr @ stream_of (full @ [cur @ [Some bs]])" .
  have len: "p_cnt p + length bs + (p_mask_cnt p + p_mask_zero p) = length (stream_of (full @ [cur @ [Some bs]]))"
    "p_ptr p + length bs = 2 + length (stream_of (full @ [cur @ [Some bs]]))"
    using buffer_ptr [OF assms(1)] ptr by (simp_all add: chunk_bytes_def)
  have lv: "live (full @ [cur @ [Some bs]]) = full @ [cur @ [Some bs]]" using assms(3) by simp
  have old: "\<forall>c\<in>set full. length c = 8" "p_reset_pos p = length full" using assms(1) by (auto simp: buffer_at_def)
  have "buffer_at hdr full (cur @ [Some bs]) (p\<lparr> p_snap := sn, p_buf := ?buf', p_ptr := p_ptr p + length bs,
      p_cnt := p_cnt p + length bs, p_mask_cnt := p_mask_cnt p + p_mask_zero p, p_mask_zero := 0 \<rparr>)"
    using hdr old m len tk' assms(4) st(2) by (simp add: buffer_at_def lv del: chunk_stream_simps live_snoc)
  then show ?thesis using st by blast
qed

lemma buffer_advance:
  assumes "buffer_at hdr full cur p" "length cur = p_bit p + 1" "length cur \<le> 8" "p_ptr p < length (p_buf p)"
  obtains p' full' cur' where "pack_advance sz p = Some p'" "buffer_at hdr full' cur' p'" "p_bit p' = length cur'" "length cur' < 8"
    "concat full' @ cur' = concat full @ cur" "p_vars p' = p_vars p" "p_var p' = p_var p" "p_reset p' = p_reset p"
    "p_snap p' = p_snap p" "p_snap_pos p' = p_snap_pos p + sz" "length (p_buf p') = length (p_buf p)"
    "p_cnt p' = p_cnt p" "p_mask_cnt p' = p_mask_cnt p"
proof (cases "length cur = 8")
  case False
  then show ?thesis using assms
    by (intro that [of "p\<lparr> p_snap_pos := p_snap_pos p + sz, p_bit := p_bit p + 1 \<rparr>" full cur])
      (auto simp: pack_advance_def buffer_at_def)
next
  case True
  let ?p = "p\<lparr> p_snap_pos := p_snap_pos p + sz, p_bit := 0, p_mask_zero := p_mask_zero p + 1, p_mask_ptr := p_ptr p,
    p_buf := blit (p_ptr p) [0] (p_buf p), p_reset_pos := p_reset_pos p + 1, p_ptr := p_ptr p + 1 \<rparr>"
  have "pack_advance sz p = Some ?p" using True assms by (simp add: pack_advance_def store_def)
  moreover have "buffer_at hdr (full @ [cur]) [] ?p"
    using assms True take_blit_end [of "p_ptr p" "p_buf p" "[0]"] live_snoc [of "full @ [cur]" "[]"] by (auto simp: buffer_at_def chunk_Nil)
  ultimately show ?thesis using assms True by (intro that [of ?p "full @ [cur]" "[]"]) auto
qed

subsection \<open>The state of the loop\<close>

text \<open>The variables of the stream, their places in the snapshot, and their reset bits.\<close>

definition streamed :: nat where "streamed = idx_local - idxPAD"

definition off :: "bool \<Rightarrow> nat \<Rightarrow> nat" where
  "off high k = sum_list (map (vsize high) [0..<k])"

definition rbit :: "bytes \<Rightarrow> nat \<Rightarrow> bool" where
  "rbit r k = bit (r ! (k div 8)) (k mod 8)"

definition region :: "bool \<Rightarrow> bytes \<Rightarrow> nat \<Rightarrow> bytes" where
  "region high sn k = take (vsize high k) (drop (off high k) sn)"

text \<open>What a variable is packed to, and its value then.\<close>

definition packs :: "bool \<Rightarrow> nat \<Rightarrow> mval \<Rightarrow> (bytes \<times> mval) option" where
  "packs high k v = pack_as (fmt_of high k) v"

definition packable :: "bool \<Rightarrow> core \<Rightarrow> bool" where
  "packable high vs \<longleftrightarrow> list_all (\<lambda>k. packs high k (vs ! k) \<noteq> None) [0..<streamed]"

definition pbytes :: "bool \<Rightarrow> core \<Rightarrow> nat \<Rightarrow> bytes" where
  "pbytes high vs k = (case packs high k (vs ! k) of Some (bs, v) \<Rightarrow> bs | None \<Rightarrow> [])"

definition pvalue :: "bool \<Rightarrow> core \<Rightarrow> nat \<Rightarrow> mval" where
  "pvalue high vs k = (case packs high k (vs ! k) of Some (bs, v) \<Rightarrow> v | None \<Rightarrow> vs ! k)"

lemma streamed_121: "streamed = 121"
  by code_simp

lemma reset_mask_size_16: "reset_mask_size = 16"
  using streamed_121 by (simp add: streamed_def reset_mask_size_def)

lemma off_Suc: "off high (Suc k) = off high k + vsize high k"
  by (simp add: off_def)

lemma off_mono: "j \<le> k \<Longrightarrow> off high j \<le> off high k"
  by (induction rule: dec_induct) (auto simp: off_Suc)

lemma off_table:
  "n \<le> length mvars \<Longrightarrow> off high n = sum_list (map (\<lambda>v. size_as (if high then fmt_hd v else fmt_ext v) (fst v)) (take n mvars))"
  unfolding off_def by (rule arg_cong [where f = sum_list], rule nth_equalityI) (auto simp: vsize_def fmt_of_def type_of_def)

lemma off_total: "off True streamed = 322" "off False streamed = 266"
proof -
  have "sum_list (map (\<lambda>v. size_as (fmt_hd v) (fst v)) (take 121 mvars)) = 322 \<and>
      sum_list (map (\<lambda>v. size_as (fmt_ext v) (fst v)) (take 121 mvars)) = 266" by code_simp
  then show "off True streamed = 322" "off False streamed = 266" by (simp_all add: off_table mvars_length streamed_121)
qed

lemma off_bound: "k < streamed \<Longrightarrow> off high k + vsize high k \<le> 322"
  using off_mono [of "Suc k" streamed high] off_total by (cases high) (auto simp: off_Suc)

lemma packs_size:
  assumes "core_ok vs" "packable high vs" "k < streamed"
  shows "packs high k (vs ! k) = Some (pbytes high vs k, pvalue high vs k)" "length (pbytes high vs k) = vsize high k"
    "val_type (pvalue high vs k) = type_of k"
proof -
  obtain bs v where p: "packs high k (vs ! k) = Some (bs, v)" using assms(2,3) by (fastforce simp: packable_def list_all_iff)
  then show "packs high k (vs ! k) = Some (pbytes high vs k, pvalue high vs k)" by (simp add: pbytes_def pvalue_def)
  have "val_type (vs ! k) = type_of k" using assms(1,3) by (simp add: core_ok_type mvars_length streamed_121 type_of_def)
  then show "length (pbytes high vs k) = vsize high k" "val_type (pvalue high vs k) = type_of k"
    using pack_as_size [of "fmt_of high k" "vs ! k" bs v] p by (simp_all add: packs_def pbytes_def pvalue_def vsize_def)
qed

end
