(* ===== verification/Backport_Downlink.thy ===== *)
theory Backport_Downlink
  imports Backport_Buffer
begin

text \<open>
  The loop of \<open>pack_downstream\<close>: what it has done after each variable, and that no access leaves an
  array as long as the buffer has room.
\<close>

unbundle bit_operations_syntax

subsection \<open>After some variables\<close>

definition start_ok :: "bool \<Rightarrow> packing \<Rightarrow> bool" where
  "start_ok high p0 \<longleftrightarrow> core_ok (p_vars p0) \<and> packable high (p_vars p0) \<and> length (p_snap p0) = snapshot_size \<and>
     length (p_reset p0) = reset_mask_size \<and> length (p_var p0) = var_size"

definition state_at :: "bool \<Rightarrow> packing \<Rightarrow> nat \<Rightarrow> packing \<Rightarrow> bool" where
  "state_at high p0 j p \<longleftrightarrow> core_ok (p_vars p) \<and>
     (\<forall>k. p_vars p ! k = (if k < j then pvalue high (p_vars p0) k else p_vars p0 ! k)) \<and>
     p_snap_pos p = off high j \<and>
     p_snap p = concat (map (pbytes high (p_vars p0)) [0..<j]) @ drop (off high j) (p_snap p0) \<and>
     length (p_reset p) = reset_mask_size \<and> (\<forall>k<128. rbit (p_reset p) k \<longleftrightarrow> j \<le> k \<and> rbit (p_reset p0) k) \<and>
     length (p_var p) = var_size"

text \<open>A variable is settled if it has no reset bit and has not changed since the snapshot; it is not sent
  then.\<close>

definition settled :: "bool \<Rightarrow> core \<Rightarrow> bytes \<Rightarrow> bytes \<Rightarrow> nat \<Rightarrow> bool" where
  "settled high vs reset sn k \<longleftrightarrow> \<not> rbit reset k \<and> region high sn k = pbytes high vs k"

definition sent_at :: "bool \<Rightarrow> packing \<Rightarrow> item list \<Rightarrow> bool" where
  "sent_at high p0 xs \<longleftrightarrow> (\<forall>k<length xs. xs ! k =
     (if settled high (p_vars p0) (p_reset p0) (p_snap p0) k then None else Some (pbytes high (p_vars p0) k)))"

definition loop_at :: "bool \<Rightarrow> bytes \<Rightarrow> nat \<Rightarrow> packing \<Rightarrow> nat \<Rightarrow> item list list \<Rightarrow> item list \<Rightarrow> packing \<Rightarrow> bool" where
  "loop_at high hdr maxSize p0 j full cur p \<longleftrightarrow> buffer_at hdr full cur p \<and> p_bit p = length cur \<and> length cur < 8 \<and>
     j = length (concat full @ cur) \<and> state_at high p0 j p \<and> sent_at high p0 (concat full @ cur) \<and>
     length (p_buf p) = length (p_buf p0) \<and> (p_cnt p + p_mask_cnt p = 0 \<or> p_cnt p + p_mask_cnt p + 2 < maxSize)"

text \<open>The loop is left at a variable there is no room for: its reset bit is set.\<close>

definition stopped_at :: "bool \<Rightarrow> packing \<Rightarrow> nat \<Rightarrow> packing \<Rightarrow> packing \<Rightarrow> bool" where
  "stopped_at high p0 j p q \<longleftrightarrow> (\<exists>dvar r. length dvar = var_size \<and> length r = reset_mask_size \<and>
     (\<forall>k<128. rbit r k \<longleftrightarrow> k = j \<or> j < k \<and> rbit (p_reset p0) k) \<and>
     q = p\<lparr> p_vars := (p_vars p)[j := pvalue high (p_vars p0) j], p_var := dvar, p_reset := r \<rparr>)"

subsection \<open>One variable\<close>

lemma rbit_clear:
  "k div 8 < length r \<Longrightarrow> rbit (r[j div 8 := r ! (j div 8) AND NOT (2 ^ (j mod 8))]) k \<longleftrightarrow> rbit r k \<and> k \<noteq> j"
  by (cases "j div 8 = k div 8") (auto simp: rbit_def bit_and_iff bit_not_iff bit_exp_iff possible_bit_def dest: bit_imp_le_length
    intro: ccontr, metis div_mult_mod_eq)

lemma rbit_set:
  "k div 8 < length r \<Longrightarrow> rbit (r[j div 8 := r ! (j div 8) OR 2 ^ (j mod 8)]) k \<longleftrightarrow> rbit r k \<or> k = j"
  by (cases "j div 8 = k div 8") (auto simp: rbit_def bit_or_iff bit_exp_iff possible_bit_def, metis div_mult_mod_eq)

lemma position_bits:
  assumes "\<forall>c\<in>set full. length c = 8" "length cur < 8" "j = length (concat full @ cur)"
  shows "j div 8 = length full" "j mod 8 = length cur"
proof -
  have "length (concat full) = 8 * length full" using assms(1) by (induction full) auto
  then show "j div 8 = length full" "j mod 8 = length cur" using assms(2,3) by auto
qed

lemma packs_by_position:
  assumes "start_ok high p0" "state_at high p0 j p" "j < streamed"
  shows "(if high then core_pack (p_vars p) (j + idxPAD) else core_pack_ext (p_vars p) (j + idxPAD)) =
    Some (pbytes high (p_vars p0) j, (p_vars p)[j := pvalue high (p_vars p0) j])"
proof -
  have "p_vars p ! j = p_vars p0 ! j" using assms(2) by (simp add: state_at_def)
  then have "pack_as (fmt_of high j) (p_vars p ! j) = Some (pbytes high (p_vars p0) j, pvalue high (p_vars p0) j)"
    using packs_size(1) [of "p_vars p0" high j] assms by (simp add: start_ok_def packs_def)
  then show ?thesis using assms(3)
    by (cases high) (simp_all add: core_pack_def core_pack_ext_def pack_var_def Let_def idx_vars_top_def mvars_length streamed_121 fmt_of_def idxPAD_def)
qed

lemma snapshot_parts:
  assumes "start_ok high p0" "j \<le> streamed"
  shows "length (concat (map (pbytes high (p_vars p0)) [0..<j])) = off high j"
  using assms(2)
proof (induction j)
  case (Suc j)
  then show ?case using packs_size(2) [of "p_vars p0" high j] assms(1) by (simp add: off_Suc start_ok_def)
qed (simp add: off_def)

lemma filter_by_position:
  assumes "start_ok high p0" "state_at high p0 j p" "j < streamed" "p_reset_pos p = j div 8" "p_bit p = j mod 8"
    "length dvar = var_size" "take (vsize high j) dvar = pbytes high (p_vars p0) j"
  shows "\<exists>r. pack_filtered (vsize high j) (p\<lparr> p_vars := vs, p_var := dvar \<rparr>) =
      Some (\<not> rbit (p_reset p0) j \<and> region high (p_snap p0) j = pbytes high (p_vars p0) j, p\<lparr> p_vars := vs, p_var := dvar, p_reset := r \<rparr>) \<and>
    length r = reset_mask_size \<and> (\<forall>k<128. rbit r k \<longleftrightarrow> Suc j \<le> k \<and> rbit (p_reset p0) k)"
proof -
  have j: "j div 8 < length (p_reset p)" "j < 128" and r: "length (p_reset p) = 16"
    and bits: "\<And>k. k < 128 \<Longrightarrow> rbit (p_reset p) k \<longleftrightarrow> j \<le> k \<and> rbit (p_reset p0) k"
    using assms(2,3) by (auto simp: state_at_def reset_mask_size_16 streamed_121)
  have here: "bit (p_reset p ! (j div 8)) (j mod 8) \<longleftrightarrow> rbit (p_reset p0) j" using bits [of j] j by (simp add: rbit_def)
  show ?thesis
  proof (cases "rbit (p_reset p0) j")
    case True
    let ?r = "(p_reset p)[j div 8 := p_reset p ! (j div 8) AND NOT (2 ^ (j mod 8))]"
    have "rbit ?r k \<longleftrightarrow> Suc j \<le> k \<and> rbit (p_reset p0) k" if "k < 128" for k
      using bits [OF that] rbit_clear [of k "p_reset p" j] r that by auto
    then show ?thesis using True here j r assms(4,5)
      by (intro exI [of _ ?r]) (auto simp: pack_filtered_def reset_mask_size_16)
  next
    case False
    have "rbit (p_reset p) k \<longleftrightarrow> Suc j \<le> k \<and> rbit (p_reset p0) k" if "k < 128" for k
      using bits [OF that] False by (metis Suc_leI le_neq_implies_less Suc_leD)
    moreover have "p_snap_pos p = off high j" "drop (off high j) (p_snap p) = drop (off high j) (p_snap p0)"
      "length (p_snap p) = snapshot_size"
      using assms(1,2,3) snapshot_parts [OF assms(1), of j] off_bound [OF assms(3), of high]
      by (auto simp: state_at_def start_ok_def snapshot_size_def)
    ultimately show ?thesis using False here j r assms(4,5,7) off_bound [OF assms(3), of high]
      by (intro exI [of _ "p_reset p"]) (auto simp: pack_filtered_def mem_same_def vsize_bounds reset_mask_size_16 snapshot_size_def region_def)
  qed
qed

lemma state_next:
  assumes "start_ok high p0" "state_at high p0 j p" "j < streamed"
    "p_vars q = (p_vars p)[j := pvalue high (p_vars p0) j]" "p_snap_pos q = off high j + vsize high j"
    "p_snap q = concat (map (pbytes high (p_vars p0)) [0..<Suc j]) @ drop (off high (Suc j)) (p_snap p0)"
    "length (p_reset q) = reset_mask_size" "\<forall>k<128. rbit (p_reset q) k \<longleftrightarrow> Suc j \<le> k \<and> rbit (p_reset p0) k" "length (p_var q) = var_size"
  shows "state_at high p0 (Suc j) q"
proof -
  have len: "length (p_vars p) = 201" using assms(2) core_ok_length by (auto simp: state_at_def mvars_length)
  have "val_type (pvalue high (p_vars p0) j) = fst (mvars ! j)"
    using packs_size(3) [of "p_vars p0" high j] assms(1,3) by (simp add: start_ok_def type_of_def)
  then have "core_ok (p_vars q)" using assms(2,4) by (auto simp: state_at_def intro: core_ok_update)
  moreover have "\<forall>k. p_vars q ! k = (if k < Suc j then pvalue high (p_vars p0) k else p_vars p0 ! k)"
    using assms(2,3,4) len by (auto simp: state_at_def nth_list_update streamed_121 less_Suc_eq)
  ultimately show ?thesis using assms(5-9) by (simp add: state_at_def off_Suc)
qed

lemma sent_snoc:
  "sent_at high p0 (xs @ [x]) \<longleftrightarrow> sent_at high p0 xs \<and>
    x = (if settled high (p_vars p0) (p_reset p0) (p_snap p0) (length xs) then None else Some (pbytes high (p_vars p0) (length xs)))"
  by (auto simp: sent_at_def All_less_Suc nth_append)

text \<open>The snapshot with or without the bytes of the variable, which it has already in the latter case.\<close>

lemma snapshot_next:
  assumes "start_ok high p0" "state_at high p0 j p" "j < streamed"
  defines "bs \<equiv> pbytes high (p_vars p0) j"
  shows "store (p_snap_pos p) bs (p_snap p) =
      Some (concat (map (pbytes high (p_vars p0)) [0..<Suc j]) @ drop (off high (Suc j)) (p_snap p0))"
    "region high (p_snap p0) j = bs \<Longrightarrow>
      p_snap p = concat (map (pbytes high (p_vars p0)) [0..<Suc j]) @ drop (off high (Suc j)) (p_snap p0)"
proof -
  have sz: "length bs = vsize high j" using packs_size(2) [of "p_vars p0" high j] assms(1,3) by (simp add: bs_def start_ok_def)
  have bound: "off high j + vsize high j \<le> 1024" using off_bound [OF assms(3), of high] by simp
  let ?xs = "concat (map (pbytes high (p_vars p0)) [0..<j])"
  have xs: "length ?xs = off high j" using snapshot_parts [OF assms(1), of j] assms(3) by simp
  have p: "p_snap_pos p = off high j" "p_snap p = ?xs @ drop (off high j) (p_snap p0)" "length (p_snap p0) = 1024"
    using assms(1,2) by (auto simp: state_at_def start_ok_def snapshot_size_def)
  show "store (p_snap_pos p) bs (p_snap p) =
      Some (concat (map (pbytes high (p_vars p0)) [0..<Suc j]) @ drop (off high (Suc j)) (p_snap p0))"
    using p xs sz bound by (simp add: store_def blit_def off_Suc bs_def add.commute)
  have "drop (off high j) (p_snap p0) = region high (p_snap p0) j @ drop (off high (Suc j)) (p_snap p0)"
    using append_take_drop_id [of "vsize high j" "drop (off high j) (p_snap p0)"]
    by (simp add: region_def off_Suc add.commute del: append_take_drop_id)
  then show "region high (p_snap p0) j = bs \<Longrightarrow>
      p_snap p = concat (map (pbytes high (p_vars p0)) [0..<Suc j]) @ drop (off high (Suc j)) (p_snap p0)"
    using p(2) by (simp add: bs_def)
qed

text \<open>The buffer is at most the header, the masks and the variables; where it has room for more than
  \<open>maxSize\<close>, there is a place for the next byte.\<close>

lemma sent_data:
  assumes "start_ok high p0" "sent_at high p0 xs" "length xs \<le> streamed"
  shows "length (data_of xs) \<le> off high (length xs)"
  using assms(2,3)
proof (induction xs rule: rev_induct)
  case (snoc x xs)
  have "sent_at high p0 xs" using snoc.prems(1) by (simp add: sent_snoc)
  then have "length (data_of xs) \<le> off high (length xs)" using snoc.prems(2) by (intro snoc.IH) auto
  moreover have "x = Some (pbytes high (p_vars p0) (length xs)) \<or> x = None" using snoc.prems(1) by (auto simp: sent_snoc split: if_splits)
  then have "length (data_of [x]) \<le> vsize high (length xs)"
    using packs_size(2) [of "p_vars p0" high "length xs"] assms(1) snoc.prems(2) by (auto simp: start_ok_def)
  ultimately show ?case by (simp add: off_Suc)
qed simp

lemma loop_room:
  assumes "loop_at high hdr maxSize p0 j full cur p" "j \<le> streamed"
  shows "maxSize + 19 \<le> length (p_buf p0) \<Longrightarrow> p_ptr p < length (p_buf p)"
    "start_ok high p0 \<Longrightarrow> p_ptr p \<le> 2 + 16 + off high j"
    "(\<And>k. k < j \<Longrightarrow> settled high (p_vars p0) (p_reset p0) (p_snap p0) k) \<Longrightarrow> p_ptr p \<le> 2 + 16"
proof -
  have b: "buffer_at hdr full cur p" and j: "j div 8 = length full"
    using assms(1) position_bits(1) [of full cur j] by (auto simp: loop_at_def buffer_at_def)
  then have full: "length full \<le> 15" using assms(2) by (simp add: streamed_121 flip: j)
  then have "p_mask_zero p \<le> 16" using b by (auto simp: buffer_at_def)
  then show "maxSize + 19 \<le> length (p_buf p0) \<Longrightarrow> p_ptr p < length (p_buf p)"
    using assms(1) buffer_ptr [OF b] by (auto simp: loop_at_def)
  have chunks: "length (stream_of cs) = length cs + length (data_of (concat cs))" for cs
    by (induction cs) (auto simp: chunk_bytes_def)
  have "p_ptr p = 2 + length (stream_of (full @ [cur]))" using b unfolding buffer_at_def by blast
  then have ptr: "p_ptr p \<le> 2 + 16 + length (data_of (concat full @ cur))" using full chunks [of "full @ [cur]"] by simp
  then show "start_ok high p0 \<Longrightarrow> p_ptr p \<le> 2 + 16 + off high j"
    using sent_data [of high p0 "concat full @ cur"] assms by (simp add: loop_at_def)
  have none: "data_of xs = []" if "\<And>k. k < length xs \<Longrightarrow> xs ! k = None" for xs
    using that by (simp add: data_of_def item_bytes_def) (metis in_set_conv_nth option.case(1))
  assume "\<And>k. k < j \<Longrightarrow> settled high (p_vars p0) (p_reset p0) (p_snap p0) k"
  then have "data_of (concat full @ cur) = []" using assms(1) by (intro none) (auto simp: loop_at_def sent_at_def)
  then show "p_ptr p \<le> 2 + 16" using ptr by simp
qed

lemma buffer_at_other:
  "p_ptr q = p_ptr p \<Longrightarrow> p_buf q = p_buf p \<Longrightarrow> p_cnt q = p_cnt p \<Longrightarrow> p_mask_cnt q = p_mask_cnt p \<Longrightarrow> p_mask_zero q = p_mask_zero p \<Longrightarrow>
   p_mask_ptr q = p_mask_ptr p \<Longrightarrow> p_reset_pos q = p_reset_pos p \<Longrightarrow> buffer_at hdr full cur q = buffer_at hdr full cur p"
  by (simp only: buffer_at_def)

text \<open>The next variable is added to the chunks, sent or not.\<close>

lemma loop_next:
  assumes s: "start_ok high p0" "state_at high p0 j p" "j < streamed" and b: "buffer_at hdr full (cur @ [x]) q"
    and x: "sent_at high p0 (concat full @ cur @ [x])" "j = length (concat full @ cur)" "length cur < 8" "p_bit q = length cur"
    and q: "p_vars q = (p_vars p)[j := pvalue high (p_vars p0) j]" "p_snap_pos q = off high j"
      "p_snap q = concat (map (pbytes high (p_vars p0)) [0..<Suc j]) @ drop (off high (Suc j)) (p_snap p0)"
      "length (p_reset q) = reset_mask_size" "\<forall>k<128. rbit (p_reset q) k \<longleftrightarrow> Suc j \<le> k \<and> rbit (p_reset p0) k" "length (p_var q) = var_size"
    and room: "p_ptr q < length (p_buf q)" "length (p_buf q) = length (p_buf p0)"
      "p_cnt q + p_mask_cnt q = 0 \<or> p_cnt q + p_mask_cnt q + 2 < maxSize"
  shows "\<exists>full' cur' q'. pack_advance (vsize high j) q = Some q' \<and> loop_at high hdr maxSize p0 (Suc j) full' cur' q'"
proof -
  obtain q' full' cur' where q': "pack_advance (vsize high j) q = Some q'" "buffer_at hdr full' cur' q'" "p_bit q' = length cur'"
    "length cur' < 8" "concat full' @ cur' = concat full @ cur @ [x]" "p_vars q' = p_vars q" "p_var q' = p_var q"
    "p_reset q' = p_reset q" "p_snap q' = p_snap q" "p_snap_pos q' = p_snap_pos q + vsize high j" "length (p_buf q') = length (p_buf q)"
    "p_cnt q' = p_cnt q" "p_mask_cnt q' = p_mask_cnt q"
    using buffer_advance [OF b, of "vsize high j"] x room(1) by auto
  have "state_at high p0 (Suc j) q'" using q q' by (intro state_next [OF s]) simp_all
  moreover have "Suc j = length (concat full' @ cur')" using x(2) q'(5) by simp
  ultimately have "loop_at high hdr maxSize p0 (Suc j) full' cur' q'"
    using q' x(1) room by (auto simp: loop_at_def)
  then show ?thesis using q'(1) by blast
qed

lemma pack_step_at:
  assumes s: "start_ok high p0" and l: "loop_at high hdr maxSize p0 j full cur p" and j: "j < streamed"
    and room: "maxSize + 19 \<le> length (p_buf p0)"
  shows "(\<exists>full' cur' q. pack_step high maxSize (j + idxPAD) p = Some (False, q) \<and> loop_at high hdr maxSize p0 (Suc j) full' cur' q) \<or>
    (\<exists>q. pack_step high maxSize (j + idxPAD) p = Some (True, q) \<and> maxSize \<le> p_ptr p + vsize high j \<and> stopped_at high p0 j p q)"
proof -
  let ?bs = "pbytes high (p_vars p0) j" and ?vs = "(p_vars p)[j := pvalue high (p_vars p0) j]"
  let ?dvar = "blit 0 ?bs (p_var p)"
  have b: "buffer_at hdr full cur p" "p_bit p = length cur" "length cur < 8" "j = length (concat full @ cur)"
    and st: "state_at high p0 j p" and sent: "sent_at high p0 (concat full @ cur)" "length (p_buf p) = length (p_buf p0)"
      "p_cnt p + p_mask_cnt p = 0 \<or> p_cnt p + p_mask_cnt p + 2 < maxSize"
    using l by (auto simp: loop_at_def)
  have pos: "p_reset_pos p = j div 8" "p_bit p = j mod 8"
    using b position_bits [of full cur j] by (auto simp: buffer_at_def)
  have bs: "length ?bs = vsize high j" "length ?bs \<le> 12" "?bs \<noteq> []"
    using packs_size(2) [of "p_vars p0" high j] s j vsize_bounds [of high j] by (auto simp: start_ok_def)
  have var: "store 0 ?bs (p_var p) = Some ?dvar" "length ?dvar = var_size" "take (vsize high j) ?dvar = ?bs"
    using st bs by (auto simp: state_at_def store_def var_size_def blit_def)
  obtain r where r: "pack_filtered (vsize high j) (p\<lparr> p_vars := ?vs, p_var := ?dvar \<rparr>) =
      Some (\<not> rbit (p_reset p0) j \<and> region high (p_snap p0) j = ?bs, p\<lparr> p_vars := ?vs, p_var := ?dvar, p_reset := r \<rparr>)"
    "length r = reset_mask_size" "\<forall>k<128. rbit r k \<longleftrightarrow> Suc j \<le> k \<and> rbit (p_reset p0) k"
    using filter_by_position [OF s st j pos var(2,3), of ?vs] by blast
  let ?p = "p\<lparr> p_vars := ?vs, p_var := ?dvar, p_reset := r \<rparr>"
  let ?filtered = "\<not> rbit (p_reset p0) j \<and> region high (p_snap p0) j = ?bs"
  have step: "pack_step high maxSize (j + idxPAD) p =
      (if ?filtered then map_option (Pair False) (pack_advance (vsize high j) ?p)
       else if p_cnt p + p_mask_cnt p + 2 + vsize high j + p_mask_zero p \<ge> maxSize
       then Some (True, ?p\<lparr> p_reset := r[p_reset_pos p := r ! p_reset_pos p OR 2 ^ p_bit p] \<rparr>)
       else do {
         snap \<leftarrow> store (p_snap_pos p) ?bs (p_snap p);
         buf \<leftarrow> store (p_ptr p) ?bs (p_buf p);
         let buf = buf[p_mask_ptr p := buf ! p_mask_ptr p OR 2 ^ p_bit p];
         p \<leftarrow> pack_advance (vsize high j) (?p\<lparr> p_snap := snap, p_buf := buf, p_ptr := p_ptr p + vsize high j,
           p_cnt := p_cnt p + vsize high j, p_mask_cnt := p_mask_cnt p + p_mask_zero p, p_mask_zero := 0 \<rparr>);
         Some (False, p)
       })"
    using packs_by_position [OF s st j] var(1) r(1)
    by (simp add: pack_step_def Let_def split del: if_split flip: bs(1)) (simp add: bs(1))
  have bp: "buffer_at hdr full cur ?p" by (simp add: buffer_at_other [of ?p p] b(1))
  have sp: "p_snap_pos p = off high j" using st by (simp add: state_at_def)
  have ptr: "p_cnt p + p_mask_cnt p + 2 + vsize high j + p_mask_zero p = p_ptr p + vsize high j" using buffer_ptr [OF b(1)] by simp
  have bit: "j div 8 < length r" using r(2) j by (simp add: reset_mask_size_16 streamed_121)
  consider "?filtered" | "\<not> ?filtered" "maxSize \<le> p_ptr p + vsize high j" | "\<not> ?filtered" "p_ptr p + vsize high j < maxSize"
    by linarith
  then show ?thesis
  proof cases
    case 1
    have "\<exists>full' cur' q. pack_advance (vsize high j) ?p = Some q \<and> loop_at high hdr maxSize p0 (Suc j) full' cur' q"
      using b r(2,3) var(2) sent loop_room(1) [OF l _ room] j snapshot_next(2) [OF s st j] 1 sp
        sent_snoc [of high p0 "concat full @ cur" None] unfolding settled_def
      by (intro loop_next [OF s st j buffer_skip [OF bp]]) auto
    then show ?thesis using step 1 by auto
  next
    case 2
    let ?r = "r[p_reset_pos p := r ! p_reset_pos p OR 2 ^ p_bit p]"
    have "rbit ?r k \<longleftrightarrow> k = j \<or> j < k \<and> rbit (p_reset p0) k" if "k < 128" for k
      using rbit_set [of k r j] r(2,3) that pos by (auto simp: reset_mask_size_16)
    then have "stopped_at high p0 j p (?p\<lparr> p_reset := ?r \<rparr>)" using var(2) r(2)
      unfolding stopped_at_def by (intro exI [of _ ?dvar] exI [of _ ?r]) simp
    then show ?thesis using step 2 ptr by simp
  next
    case 3
    obtain sn where sn: "store (p_snap_pos p) ?bs (p_snap p) = Some sn"
      "sn = concat (map (pbytes high (p_vars p0)) [0..<Suc j]) @ drop (off high (Suc j)) (p_snap p0)"
      using snapshot_next(1) [OF s st j] by blast
    have fits: "p_ptr ?p + length ?bs \<le> length (p_buf ?p)" using 3 room sent bs(1) by simp
    obtain buf where buf: "store (p_ptr p) ?bs (p_buf p) = Some buf" "length buf = length (p_buf p)"
      "buffer_at hdr full (cur @ [Some ?bs]) (?p\<lparr> p_snap := sn, p_buf := buf[p_mask_ptr p := buf ! p_mask_ptr p OR 2 ^ length cur],
        p_ptr := p_ptr p + length ?bs, p_cnt := p_cnt p + length ?bs, p_mask_cnt := p_mask_cnt p + p_mask_zero p, p_mask_zero := 0 \<rparr>)"
      using buffer_post [OF bp b(3) bs(3) fits, of sn] by auto
    let ?q = "?p\<lparr> p_snap := sn, p_buf := buf[p_mask_ptr p := buf ! p_mask_ptr p OR 2 ^ length cur],
      p_ptr := p_ptr p + length ?bs, p_cnt := p_cnt p + length ?bs, p_mask_cnt := p_mask_cnt p + p_mask_zero p, p_mask_zero := 0 \<rparr>"
    have "\<exists>full' cur' q. pack_advance (vsize high j) ?q = Some q \<and> loop_at high hdr maxSize p0 (Suc j) full' cur' q"
      using b r(2,3) var(2) sent 3 sn(2) sp buf(2) room bs(1) ptr sent_snoc [of high p0 "concat full @ cur" "Some ?bs"]
      unfolding settled_def by (intro loop_next [OF s st j buf(3)]) auto
    then obtain full' cur' q where q: "pack_advance (vsize high j) ?q = Some q" "loop_at high hdr maxSize p0 (Suc j) full' cur' q"
      by blast
    have "pack_step high maxSize (j + idxPAD) p = Some (False, q)"
      unfolding step if_not_P [OF 3(1)] using 3(2) ptr sn(1) buf(1) b(2) bs(1) q(1) by (simp add: Let_def)
    then show ?thesis using q(2) by blast
  qed
qed

subsection \<open>The loop\<close>

lemma idx_local_streamed: "idx_local = streamed + idxPAD"
  using streamed_121 by (simp add: streamed_def)

lemma pack_loop_at:
  assumes s: "start_ok high p0" and room: "maxSize + 19 \<le> length (p_buf p0)"
  shows "loop_at high hdr maxSize p0 j full cur p \<Longrightarrow> j \<le> streamed \<Longrightarrow>
    (\<exists>full' cur' q. pack_loop high maxSize [j + idxPAD..<idx_local] p = Some q \<and> loop_at high hdr maxSize p0 streamed full' cur' q) \<or>
    (\<exists>i full' cur' q q'. i < streamed \<and> pack_loop high maxSize [j + idxPAD..<idx_local] p = Some q' \<and>
      loop_at high hdr maxSize p0 i full' cur' q \<and> maxSize \<le> p_ptr q + vsize high i \<and> stopped_at high p0 i q q')"
proof (induction "streamed - j" arbitrary: j full cur p)
  case 0
  then have "j = streamed" by simp
  then have "pack_loop high maxSize [j + idxPAD..<idx_local] p = Some p" by (simp add: idx_local_streamed)
  then show ?case using 0(2) \<open>j = streamed\<close> by blast
next
  case (Suc n)
  have j: "j < streamed" "n = streamed - Suc j" "Suc j \<le> streamed" using Suc(2) by auto
  have upt: "[j + idxPAD..<idx_local] = (j + idxPAD) # [Suc j + idxPAD..<idx_local]"
    using j(1) by (simp add: idx_local_streamed upt_conv_Cons)
  show ?case using pack_step_at [OF s Suc(3) j(1) room]
  proof (elim disjE exE conjE)
    fix full' cur' q assume q: "pack_step high maxSize (j + idxPAD) p = Some (False, q)" "loop_at high hdr maxSize p0 (Suc j) full' cur' q"
    have "pack_loop high maxSize [j + idxPAD..<idx_local] p = pack_loop high maxSize [Suc j + idxPAD..<idx_local] q"
      by (simp only: upt pack_loop.simps q(1)) simp
    then show ?thesis using Suc(1) [OF j(2) q(2) j(3)] by simp
  next
    fix q assume q: "pack_step high maxSize (j + idxPAD) p = Some (True, q)" "maxSize \<le> p_ptr p + vsize high j" "stopped_at high p0 j p q"
    have "pack_loop high maxSize [j + idxPAD..<idx_local] p = Some q"
      by (simp only: upt pack_loop.simps q(1)) simp
    then show ?thesis using q Suc(3) j(1) by blast
  qed
qed

lemma pack_start_at:
  assumes "start_ok high p0" "take 3 (p_buf p0) = hdr @ [0]" "length hdr = 2" "3 \<le> length (p_buf p0)" "p_cnt p0 = 0" "p_mask_cnt p0 = 0"
    "p_mask_zero p0 = 1" "p_snap_pos p0 = 0" "p_bit p0 = 0" "p_mask_ptr p0 = 2" "p_ptr p0 = 3" "p_reset_pos p0 = 0"
  shows "loop_at high hdr maxSize p0 0 [] [] p0"
  using assms live_snoc [of "[]" "[]"]
  by (auto simp: loop_at_def buffer_at_def state_at_def sent_at_def start_ok_def chunk_Nil off_def)

end
