(* ===== verification/Backport_Derived.thy ===== *)
theory Backport_Derived
  imports Backport_Buffer
begin

text \<open>
  The variables \<open>unpack_downstream\<close> calculates from the received ones are no variables of the stream.
\<close>

text \<open>The variables the receiver calculates are not of the stream.\<close>

definition derived :: "(string \<times> vt) list" where
  "derived = [(''dl_timestamp'', vt_uint), (''pos_NE'', vt_point), (''vel_NE'', vt_point), (''vXY'', vt_point), (''dXY'', vt_point),
     (''dWPT'', vt_float), (''dHome'', vt_float), (''wpHDG'', vt_float), (''homeHDG'', vt_float), (''rwDelta'', vt_float),
     (''rwDV'', vt_float), (''gSpeed'', vt_float)]"

lemma derived_not_streamed: "list_all (\<lambda>v. fst (snd v) \<notin> set (map fst derived)) (take 122 mvars)"
  by code_simp

lemma derived_types: "list_all (\<lambda>v. list_all (\<lambda>(n, t). fst (snd v) = n \<longrightarrow> fst v = t) derived) (drop 122 mvars)"
  by code_simp

lemma var_pos_takeWhile: "var_pos n = length (takeWhile (\<lambda>v. fst (snd v) \<noteq> n) mvars)"
  unfolding var_pos_def index_of_def by (simp, rule arg_cong [where f = "\<lambda>P. length (takeWhile P mvars)"]) auto

lemma derived_positions:
  assumes "(n, t) \<in> set derived"
  shows "121 < var_pos n" "var_pos n < length mvars \<Longrightarrow> fst (mvars ! var_pos n) = t"
proof -
  have "takeWhile (\<lambda>v. fst (snd v) \<noteq> n) (take 122 mvars @ drop 122 mvars) =
      take 122 mvars @ takeWhile (\<lambda>v. fst (snd v) \<noteq> n) (drop 122 mvars)"
    using derived_not_streamed assms by (intro takeWhile_append2) (force simp: list_all_iff image_iff)
  then show later: "121 < var_pos n" by (simp add: var_pos_takeWhile mvars_length)
  assume pos: "var_pos n < length mvars"
  then have "fst (snd (mvars ! var_pos n)) = n"
    using nth_length_takeWhile [of "\<lambda>v. fst (snd v) \<noteq> n" mvars] by (simp add: var_pos_takeWhile)
  moreover have "mvars ! var_pos n \<in> set (drop 122 mvars)"
    using pos later by (auto simp: in_set_conv_nth intro!: exI [of _ "var_pos n - 122"])
  ultimately show "fst (mvars ! var_pos n) = t" using derived_types assms by (fastforce simp: list_all_iff)
qed

lemma set_derived:
  assumes "(n, val_type v) \<in> set derived"
  shows "core_ok vs \<Longrightarrow> core_ok (set_var n v vs)" "k < streamed \<Longrightarrow> set_var n v vs ! k = vs ! k"
  using derived_positions [OF assms] by (simp_all add: set_var_def core_ok_update streamed_121)

lemma flat_derive_keeps:
  shows "core_ok vs \<Longrightarrow> core_ok (flat_derive N vs)" "k < streamed \<Longrightarrow> flat_derive N vs ! k = vs ! k"
  by (simp_all add: flat_derive_def flat_calc_def Let_def set_derived derived_def split: prod.split)

lemma unpack_header_keeps:
  shows "core_ok (f_vars f) \<Longrightarrow> core_ok (f_vars (unpack_header f cnt ts))"
    "k < streamed \<Longrightarrow> f_vars (unpack_header f cnt ts) ! k = f_vars f ! k"
  by (simp_all add: unpack_header_def Let_def set_derived derived_def)

text \<open>The time and its period are two variables.\<close>

lemma dl_positions: "var_pos ''dl_period'' = 133 \<and> var_pos ''dl_timestamp'' = 134 \<and> var_pos ''cmode'' = 75"
  by code_simp

lemma dl_variables: "var_pos ''dl_period'' \<noteq> var_pos ''dl_timestamp'' \<and> var_pos ''cmode'' \<noteq> var_pos ''dl_timestamp'' \<and>
    var_pos ''dl_timestamp'' < 201"
  by (simp add: dl_positions)

end
