(* ===== verification/Backport_Link.thy ===== *)
theory Backport_Link
  imports Backport_Downlink Backport_Derived
begin

text \<open>
  \<open>pack_downstream\<close> of one vehicle and \<open>unpack_downstream\<close> of another: a variable without reset bit is at
  the other side what its bytes of the snapshot are read as, and every packet keeps this.
\<close>

unbundle bit_operations_syntax

subsection \<open>Sender and receiver\<close>

definition in_step :: "flat \<Rightarrow> flat \<Rightarrow> bool" where
  "in_step f g \<longleftrightarrow> dl_reset f \<or> (\<forall>k < streamed. \<not> rbit (dl_reset_mask f) k \<longrightarrow>
     f_vars g ! k = reads (dl_hd_save f) k (region (dl_hd_save f) (dl_snapshot f) k))"

definition linked :: "flat \<Rightarrow> flat \<Rightarrow> bool" where
  "linked f g \<longleftrightarrow> arrays_ok f \<and> core_ok (f_vars f) \<and> core_ok (f_vars g) \<and> in_step f g"

lemma byte_ones: "bit (0xFF :: u8) n \<longleftrightarrow> n < 8"
proof -
  have "(0xFF :: u8) = mask 8" by (simp add: mask_eq_exp_minus_1)
  then show ?thesis by (simp only: bit_mask_iff) simp
qed

lemma rbit_all: "k < 128 \<Longrightarrow> rbit (replicate reset_mask_size 0xFF) k"
  using byte_ones [of "k mod 8"] by (simp add: rbit_def reset_mask_size_16 less_mult_imp_div_less)

lemma watch_reset_cases:
  "watch_reset high f = (if dl_hd_save f \<noteq> high \<or> dl_reset f
     then f\<lparr> dl_hd_save := high, dl_reset_mask := replicate (length (dl_reset_mask f)) 0xFF, dl_reset := False \<rparr> else f)"
  by (cases f) (auto simp: watch_reset_def Let_def)

lemma watch_reset_step:
  assumes "arrays_ok f" "in_step f g" "f1 = watch_reset high f"
  shows "f_vars f1 = f_vars f" "arrays_ok f1" "dl_hd_save f1 = high" "dl_snapshot f1 = dl_snapshot f" "dl_reset f1 = False"
    "\<And>k. k < streamed \<Longrightarrow> \<not> rbit (dl_reset_mask f1) k \<Longrightarrow> f_vars g ! k = reads high k (region high (dl_snapshot f1) k)"
    "dl_time_s f1 = dl_time_s f"
  using assms rbit_all by (auto simp: watch_reset_cases arrays_ok_def in_step_def streamed_121 split: if_splits)

subsection \<open>The snapshot\<close>

lemma region_at:
  assumes s: "start_ok high p0" and st: "state_at high p0 j p" and k: "k < streamed" "j \<le> streamed"
  shows "region high (p_snap p) k = (if k < j then pbytes high (p_vars p0) k else region high (p_snap p0) k)"
proof -
  let ?pb = "pbytes high (p_vars p0)"
  let ?xs = "concat (map ?pb [0..<j])"
  have sn: "p_snap p = ?xs @ drop (off high j) (p_snap p0)" using st by (simp add: state_at_def)
  have len: "length ?xs = off high j" using snapshot_parts [OF s k(2)] .
  show ?thesis
  proof (cases "k < j")
    case True
    have "?xs = concat (map ?pb [0..<k]) @ ?pb k @ concat (map ?pb [Suc k..<j])"
      using True upt_add_eq_append [of 0 k "j - k"] by (simp add: upt_conv_Cons)
    moreover have "length (concat (map ?pb [0..<k])) = off high k" using snapshot_parts [OF s, of k] k by simp
    moreover have "length (?pb k) = vsize high k" using packs_size(2) [of "p_vars p0" high k] s k by (simp add: start_ok_def)
    ultimately show ?thesis using True sn by (simp add: region_def)
  next
    case False
    then have "off high j \<le> off high k" by (simp add: off_mono)
    then show ?thesis using False sn len by (simp add: region_def)
  qed
qed

text \<open>What the loop leaves, having been left at \<open>i\<close> or not.\<close>

lemma loop_result:
  assumes s: "start_ok high p0" and room: "maxSize + 19 \<le> length (p_buf p0)" and l: "loop_at high hdr maxSize p0 0 [] [] p0"
  obtains i cs q where "i \<le> streamed" "pack_loop high maxSize [idxPAD..<idx_local] p0 = Some q" "340 < maxSize \<Longrightarrow> i = streamed"
    "chunks_ok (live cs)" "length (concat cs) = i" "sent_at high p0 (concat cs)" "length (p_buf q) = length (p_buf p0)"
    "p_cnt q + p_mask_cnt q = length (stream_of (live cs))" "p_cnt q + p_mask_cnt q = 0 \<or> p_cnt q + p_mask_cnt q + 2 < maxSize"
    "take (p_cnt q + p_mask_cnt q + 2) (p_buf q) = hdr @ stream_of (live cs)" "length (p_snap q) = snapshot_size"
    "core_ok (p_vars q)" "length (p_var q) = var_size" "length (p_reset q) = reset_mask_size"
    "\<And>k. k < streamed \<Longrightarrow> \<not> rbit (p_reset q) k \<Longrightarrow> k < i \<or> i \<le> k \<and> \<not> rbit (p_reset p0) k"
    "\<And>k. k < streamed \<Longrightarrow> region high (p_snap q) k = (if k < i then pbytes high (p_vars p0) k else region high (p_snap p0) k)"
    "\<And>k. k < i \<Longrightarrow> \<not> rbit (p_reset q) k"
    "\<And>k. p_vars q ! k = p_vars p0 ! k \<or> k < streamed \<and> p_vars q ! k = pvalue high (p_vars p0) k"
    "\<And>j. 30 < maxSize \<Longrightarrow> j < streamed \<Longrightarrow> (\<And>k. k < j \<Longrightarrow> settled high (p_vars p0) (p_reset p0) (p_snap p0) k) \<Longrightarrow> j < i"
proof -
  note result = that
  have ends: "(\<exists>full' cur' q. pack_loop high maxSize [idxPAD..<idx_local] p0 = Some q \<and> loop_at high hdr maxSize p0 streamed full' cur' q) \<or>
    (\<exists>i full' cur' q q'. i < streamed \<and> pack_loop high maxSize [idxPAD..<idx_local] p0 = Some q' \<and>
      loop_at high hdr maxSize p0 i full' cur' q \<and> maxSize \<le> p_ptr q + vsize high i \<and> stopped_at high p0 i q q')"
    using pack_loop_at [OF s room l] by simp
  have "thesis" if q: "loop_at high hdr maxSize p0 i full cur q" and i: "i \<le> streamed"
    and res: "pack_loop high maxSize [idxPAD..<idx_local] p0 = Some q'"
    and q': "q' = q \<and> i = streamed \<or> i < streamed \<and> maxSize \<le> p_ptr q + vsize high i \<and> stopped_at high p0 i q q'"
    for i full cur q q'
  proof -
    have b: "buffer_at hdr full cur q" and st: "state_at high p0 i q" and hdr: "length hdr = 2"
      using q by (auto simp: loop_at_def buffer_at_def)
    have same: "p_buf q' = p_buf q" "p_cnt q' = p_cnt q" "p_mask_cnt q' = p_mask_cnt q" "p_snap q' = p_snap q"
      using q' by (auto simp: stopped_at_def)
    have full: "340 < maxSize \<Longrightarrow> i = streamed"
      using q' loop_room(2) [OF q i s] off_bound [of i high] by auto
    have cnt: "p_cnt q + p_mask_cnt q = length (stream_of (live (full @ [cur])))" using b unfolding buffer_at_def by blast
    obtain ds where "full @ [cur] = live (full @ [cur]) @ ds" using live_prefix by blast
    then have str: "stream_of (full @ [cur]) = stream_of (live (full @ [cur])) @ stream_of ds" by (metis chunk_stream_simps(3))
    have "take (p_ptr q) (p_buf q) = hdr @ stream_of (full @ [cur])" "p_ptr q = 2 + length (stream_of (full @ [cur]))"
      using b unfolding buffer_at_def by blast+
    then have "take (p_cnt q + p_mask_cnt q + 2) (p_buf q) = take (p_cnt q + p_mask_cnt q + 2) (hdr @ stream_of (full @ [cur]))"
      using str cnt by (metis (no_types, lifting) add.commute add_le_cancel_left length_append le_add1 min.absorb1 take_take)
    then have tk: "take (p_cnt q + p_mask_cnt q + 2) (p_buf q) = hdr @ stream_of (live (full @ [cur]))"
      by (simp only: str cnt hdr [symmetric]) simp
    have chunks: "chunks_ok (live (full @ [cur]))" using q by (intro live_chunks) (auto simp: loop_at_def buffer_at_def)
    have vars: "core_ok (p_vars q')"
      using q' st packs_size(3) [of "p_vars p0" high i] s
      by (auto simp: stopped_at_def state_at_def start_ok_def type_of_def intro!: core_ok_update)
    have bits: "k < i \<or> i \<le> k \<and> \<not> rbit (p_reset p0) k" if "k < streamed" "\<not> rbit (p_reset q') k" for k
      using q' st that by (auto simp: stopped_at_def state_at_def streamed_121)
    have clear: "\<not> rbit (p_reset q') k" if "k < i" for k
      using q' st that i by (auto simp: stopped_at_def state_at_def streamed_121)
    have vals: "p_vars q' ! k = p_vars p0 ! k \<or> k < streamed \<and> p_vars q' ! k = pvalue high (p_vars p0) k" for k
    proof -
      have "p_vars q ! k = p_vars p0 ! k \<or> k < streamed \<and> p_vars q ! k = pvalue high (p_vars p0) k"
        using st i by (cases "k < i") (simp_all add: state_at_def)
      moreover have "p_vars q' ! k = p_vars q ! k \<or> k = i \<and> i < streamed \<and> p_vars q' ! k = pvalue high (p_vars p0) i"
        using q' st core_ok_length [of "p_vars q"]
        by (auto simp: stopped_at_def state_at_def nth_list_update mvars_length streamed_121 split: if_splits)
      ultimately show ?thesis by auto
    qed
    have more: "j < i" if "30 < maxSize" "j < streamed" "\<And>k. k < j \<Longrightarrow> settled high (p_vars p0) (p_reset p0) (p_snap p0) k" for j
    proof (rule ccontr)
      assume "\<not> j < i"
      then have "p_ptr q \<le> 2 + 16" using loop_room(3) [OF q i] that(3) by simp
      moreover have "maxSize \<le> p_ptr q + vsize high i" using q' that(2) \<open>\<not> j < i\<close> by auto
      ultimately show False using vsize_bounds(2) [of high i] that(1) by simp
    qed
    have lens: "length (p_var q') = var_size" "length (p_reset q') = reset_mask_size"
      using q' st by (auto simp: stopped_at_def state_at_def)
    have "length (p_snap q) = snapshot_size"
      using st snapshot_parts [OF s i] s off_mono [OF i, of high] off_total by (cases high) (auto simp: state_at_def start_ok_def snapshot_size_def)
    then show thesis
      using result [of i q' "full @ [cur]"] i res full chunks q b same cnt tk vars bits lens region_at [OF s st _ i] clear vals more
      by (simp add: loop_at_def del: live_snoc)
  qed
  then show thesis using ends by (metis less_imp_le_nat order_refl)
qed

subsection \<open>The other side\<close>

text \<open>The two bytes of the header.\<close>

definition stream_header :: "bool \<Rightarrow> u32 \<Rightarrow> bytes" where
  "stream_header high ts = [ucast (ts AND 0x7FFF), ucast (drop_bit 8 (ts AND 0x7FFF)) OR (if high then 0x80 else 0)]"

lemma header_high:
  "(ucast (b0 :: u8) OR push_bit 8 (ucast (ucast (drop_bit 8 (ts AND 0x7FFF :: u32)) OR (if high then 0x80 else 0 :: u8))) :: u16)
     AND 0x8000 \<noteq> 0 \<longleftrightarrow> high"
proof -
  have m: "(0x8000 :: u16) = 2 ^ 15" "(0x7FFF :: u32) = mask 15" "(0x80 :: u8) = 2 ^ 7" by (simp_all add: mask_eq_exp_minus_1)
  show ?thesis
    unfolding m and_power_bit [OF refl]
    by (auto simp: bit_or_iff bit_push_bit_iff bit_ucast_iff bit_and_iff bit_mask_iff bit_drop_bit_eq bit_exp_iff byte_bit_high)
qed

lemma unpack_stream_of:
  assumes "chunks_ok (live cs)" "items_ok high 0 (concat cs)" "n = length (stream_of (live cs)) + 2" "core_ok (f_vars g)"
  shows "\<exists>t g'. unpack_downstream N g (stream_header high ts @ stream_of (live cs) @ rest) n = Some (t, g') \<and>
    t = (if n > 2 then n - 2 else 2) \<and> core_ok (f_vars g') \<and>
    (\<forall>k < streamed. f_vars g' ! k = receive high 0 (concat cs) (f_vars g) ! k)"
proof -
  obtain b0 b1 where hd: "stream_header high ts = [b0, b1]"
    and high: "(ucast b0 OR push_bit 8 (ucast b1) :: u16) AND 0x8000 \<noteq> 0 \<longleftrightarrow> high"
    unfolding stream_header_def using header_high by blast
  let ?ts = "ucast b0 OR push_bit 8 (ucast b1) :: u16"
  let ?g = "unpack_header g n (?ts AND 0x7FFF)"
  have g: "core_ok (f_vars ?g)" "length (f_vars ?g) = 201" "length (f_vars g) = 201"
    "\<And>k. k < streamed \<Longrightarrow> f_vars ?g ! k = f_vars g ! k"
    using unpack_header_keeps assms(4) core_ok_length by (auto simp: mvars_length)
  have items: "items_ok high 0 (concat (live cs))"
    using live_prefix [of cs] assms(2) items_ok_append by (metis concat_append)
  let ?vs = "receive high 0 (concat (live cs)) (f_vars ?g)"
  have stream: "(if n > 2 then unpack_stream (f_vars ?g) (stream_of (live cs) @ rest) (n - 2) high else Some (2, f_vars ?g)) =
      Some (if n > 2 then n - 2 else 2, ?vs)"
  proof (cases "live cs")
    case Nil
    then show ?thesis using assms(3) by simp
  next
    case (Cons c ds)
    then have "n > 2" using assms(3) by (simp add: chunk_bytes_def)
    then show ?thesis using unpack_stream_receive [OF _ assms(1) items, of "f_vars ?g" rest] Cons assms(3) by simp
  qed
  have same: "?vs ! k = receive high 0 (concat cs) (f_vars g) ! k" if "k < streamed" for k
    using that g(2-4) by (simp add: receive_live [OF assms(2)] receive_nth streamed_121 split: option.split)
  have "unpack_downstream N g (stream_header high ts @ stream_of (live cs) @ rest) n =
      Some (if n > 2 then n - 2 else 2, ?g\<lparr> f_vars := flat_derive N ?vs \<rparr>)"
    using stream by (simp add: unpack_downstream_def hd high Let_def split del: if_split cong: if_cong)
  then show ?thesis using same receive_ok [OF items g(1)] by (auto simp: flat_derive_keeps)
qed

end

