(* ===== verification/Backport_Transfer.thy ===== *)
theory Backport_Transfer
  imports Backport_Link
begin

text \<open>
  The downlink stream of the old dictionary from end to end: what a packet of \<open>pack_downstream\<close> does to
  the variables of a receiver.
\<close>

unbundle bit_operations_syntax

definition room_for :: "bytes \<Rightarrow> nat \<Rightarrow> bool" where
  "room_for buf maxSize \<longleftrightarrow> maxSize + 19 \<le> length buf"

lemma sent_items:
  "start_ok high p0 \<Longrightarrow> sent_at high p0 xs \<Longrightarrow> length xs \<le> streamed \<Longrightarrow> items_ok high 0 xs"
  by (induction xs rule: rev_induct)
    (auto simp: sent_snoc items_ok_append start_ok_def streamed_121 intro: packs_size(2))

text \<open>What \<open>pack_downstream\<close> returns, in terms of its loop.\<close>

lemma pack_downstream_loop:
  assumes "high = is_hd f" "f1 = watch_reset high f" "ts = as_uint (f_vars f1 ! var_pos ''dl_timestamp'') div 10"
    "store 0 (stream_header high ts @ [0]) buf = Some buf'"
    "pack_loop high maxSize [idxPAD..<idx_local] (pack_start f1 buf') = Some q"
  obtains f' where "pack_downstream f buf maxSize timestamp = Some (p_cnt q + p_mask_cnt q + 2, p_buf q, f')"
    "f_vars f' = set_var ''dl_timestamp'' (MUint (as_uint (f_vars f1 ! var_pos ''dl_timestamp'') +
      (if as_uint (p_vars q ! var_pos ''dl_period'') \<noteq> 0 then as_uint (p_vars q ! var_pos ''dl_period'') else timestamp - dl_time_s f1))) (p_vars q)"
    "dl_var f' = p_var q" "dl_reset_mask f' = p_reset q" "dl_snapshot f' = p_snap q" "dl_hd_save f' = dl_hd_save f1"
    "dl_reset f' \<longleftrightarrow> dl_reset f1 \<or> as_uint (f_vars f1 ! var_pos ''dl_timestamp'') mod 10000 = 0"
  using assms by (simp add: pack_downstream_def stream_header_def Let_def set_var_def)

text \<open>The first \<open>i\<close> variables are settled; without a new reset it goes on where it stopped.\<close>

definition settled_to :: "flat \<Rightarrow> nat \<Rightarrow> bool" where
  "settled_to f j \<longleftrightarrow> j = 0 \<or> \<not> dl_reset f \<and> dl_hd_save f = is_hd f \<and>
     (\<forall>k < j. settled (is_hd f) (f_vars f) (dl_reset_mask f) (dl_snapshot f) k)"

lemma transfer_step:
  assumes l: "linked f g" and high: "high = is_hd f" and pk: "packable high (f_vars f)" and room: "room_for buf maxSize"
  obtains i n out f' t g' where "pack_downstream f buf maxSize timestamp = Some (n, out, f')" "n = 2 \<or> n < maxSize"
    "unpack_downstream N g (take n out @ rest) n = Some (t, g')" "t = (if n > 2 then n - 2 else 2)" "linked f' g'" "i \<le> streamed"
    "340 < maxSize \<Longrightarrow> i = streamed" "length out = length buf"
    "\<And>k. k < i \<Longrightarrow> f_vars g' ! k = reads high k (pbytes high (f_vars f) k)"
    "\<And>k. i \<le> k \<Longrightarrow> k < streamed \<Longrightarrow> f_vars g' ! k = f_vars g ! k"
    "\<And>k. k < i \<Longrightarrow> \<not> rbit (dl_reset_mask f') k \<and> region high (dl_snapshot f') k = pbytes high (f_vars f) k"
    "\<And>j. 30 < maxSize \<Longrightarrow> j < streamed \<Longrightarrow> settled_to f j \<Longrightarrow> j < i"
    "\<And>k. k \<noteq> var_pos ''dl_timestamp'' \<Longrightarrow> f_vars f' ! k = f_vars f ! k \<or> k < streamed \<and> f_vars f' ! k = pvalue high (f_vars f) k"
    "dl_hd_save f' = high" "dl_reset f' \<longleftrightarrow> as_uint (f_vars f ! var_pos ''dl_timestamp'') mod 10000 = 0"
    "as_uint (f_vars f' ! var_pos ''dl_timestamp'') = as_uint (f_vars f ! var_pos ''dl_timestamp'') +
      (if as_uint (f_vars f' ! var_pos ''dl_period'') \<noteq> 0 then as_uint (f_vars f' ! var_pos ''dl_period'') else timestamp - dl_time_s f)"
proof -
  let ?ts = "as_uint (f_vars f ! var_pos ''dl_timestamp'') div 10"
  let ?hdr = "stream_header high ?ts"
  obtain f1 where f1: "f1 = watch_reset high f" by blast
  have ok: "arrays_ok f" "core_ok (f_vars f)" "core_ok (f_vars g)" "in_step f g" using l by (auto simp: linked_def)
  note w = watch_reset_step [OF ok(1,4) f1]
  let ?buf = "blit 0 (?hdr @ [0]) buf"
  have hdr: "length ?hdr = 2" by (simp add: stream_header_def)
  have buf: "store 0 (?hdr @ [0]) buf = Some ?buf" "length ?buf = length buf" "take 3 ?buf = ?hdr @ [0]" "3 \<le> length ?buf"
    using room hdr by (auto simp: store_def room_for_def blit_def)
  let ?p0 = "pack_start f1 ?buf"
  have s: "start_ok high ?p0"
    using w(1,2) ok(2) pk by (simp add: start_ok_def pack_start_def arrays_ok_def)
  have l0: "loop_at high ?hdr maxSize ?p0 0 [] [] ?p0"
    using buf(3,4) hdr by (intro pack_start_at [OF s]) (simp_all add: pack_start_def)
  have room0: "maxSize + 19 \<le> length (p_buf ?p0)" using room buf(2) by (simp add: pack_start_def room_for_def)
  show thesis
  proof (rule loop_result [OF s room0 l0])
    fix i cs q
    assume q: "i \<le> streamed" "pack_loop high maxSize [idxPAD..<idx_local] ?p0 = Some q" "340 < maxSize \<Longrightarrow> i = streamed"
      "chunks_ok (live cs)" "length (concat cs) = i" "sent_at high ?p0 (concat cs)" "length (p_buf q) = length (p_buf ?p0)"
      "p_cnt q + p_mask_cnt q = length (stream_of (live cs))" "p_cnt q + p_mask_cnt q = 0 \<or> p_cnt q + p_mask_cnt q + 2 < maxSize"
      "take (p_cnt q + p_mask_cnt q + 2) (p_buf q) = ?hdr @ stream_of (live cs)" "length (p_snap q) = snapshot_size"
      "core_ok (p_vars q)" "length (p_var q) = var_size" "length (p_reset q) = reset_mask_size"
      "\<And>k. k < streamed \<Longrightarrow> \<not> rbit (p_reset q) k \<Longrightarrow> k < i \<or> i \<le> k \<and> \<not> rbit (p_reset ?p0) k"
      "\<And>k. k < streamed \<Longrightarrow> region high (p_snap q) k = (if k < i then pbytes high (p_vars ?p0) k else region high (p_snap ?p0) k)"
      "\<And>k. k < i \<Longrightarrow> \<not> rbit (p_reset q) k"
      "\<And>k. p_vars q ! k = p_vars ?p0 ! k \<or> k < streamed \<and> p_vars q ! k = pvalue high (p_vars ?p0) k"
      "\<And>j. 30 < maxSize \<Longrightarrow> j < streamed \<Longrightarrow> (\<And>k. k < j \<Longrightarrow> settled high (p_vars ?p0) (p_reset ?p0) (p_snap ?p0) k) \<Longrightarrow> j < i"
    let ?n = "p_cnt q + p_mask_cnt q + 2"
    have p0: "p_vars ?p0 = f_vars f" "p_snap ?p0 = dl_snapshot f1" "p_reset ?p0 = dl_reset_mask f1"
      using w(1) by (simp_all add: pack_start_def)
    note q' = q(6,15-19) [unfolded p0]
    have ts: "?ts = as_uint (f_vars f1 ! var_pos ''dl_timestamp'') div 10" using w(1) by simp
    let ?P = "as_uint (p_vars q ! var_pos ''dl_period'')"
    obtain f' where f'0: "pack_downstream f buf maxSize timestamp = Some (?n, p_buf q, f')"
      "f_vars f' = set_var ''dl_timestamp'' (MUint (as_uint (f_vars f1 ! var_pos ''dl_timestamp'') +
        (if ?P \<noteq> 0 then ?P else timestamp - dl_time_s f1))) (p_vars q)"
      "dl_var f' = p_var q" "dl_reset_mask f' = p_reset q" "dl_snapshot f' = p_snap q" "dl_hd_save f' = dl_hd_save f1"
      "dl_reset f' \<longleftrightarrow> dl_reset f1 \<or> as_uint (f_vars f1 ! var_pos ''dl_timestamp'') mod 10000 = 0"
      by (rule pack_downstream_loop [OF high f1 ts buf(1) q(2)])
    note f' = f'0 [unfolded w(1,3,5,7) simp_thms]
    have items: "items_ok high 0 (concat cs)" using sent_items [OF s q(6)] q(1,5) by simp
    have out: "take ?n (p_buf q) @ rest = ?hdr @ stream_of (live cs) @ rest" using q(10) by simp
    obtain t g' where g': "unpack_downstream N g (take ?n (p_buf q) @ rest) ?n = Some (t, g')" "t = (if ?n > 2 then ?n - 2 else 2)"
      "core_ok (f_vars g')" "\<forall>k < streamed. f_vars g' ! k = receive high 0 (concat cs) (f_vars g) ! k"
      unfolding out using unpack_stream_of [OF q(4) items _ ok(3), of ?n] q(8) by metis
    have len: "length (f_vars g) = 201" "length (p_vars q) = 201" using ok(3) q(12) core_ok_length by (simp_all add: mvars_length)
    have got: "f_vars g' ! k = reads high k (pbytes high (f_vars f) k)" if "k < i" for k
    proof -
      have k: "k < streamed" "k < length (concat cs)" using that q(1,5) by auto
      have "concat cs ! k = (if settled high (f_vars f) (dl_reset_mask f1) (dl_snapshot f1) k then None else Some (pbytes high (f_vars f) k))"
        using q(6) k unfolding sent_at_def p0 by blast
      then show ?thesis using g'(4) k w(6) [of k] len by (auto simp: receive_nth streamed_121 settled_def split: if_splits)
    qed
    have kept: "f_vars g' ! k = f_vars g ! k" if "i \<le> k" "k < streamed" for k
      using g'(4) that q(5) len by (simp add: receive_nth streamed_121)
    have "f_vars g' ! k = reads high k (region high (p_snap q) k)" if "k < streamed" "\<not> rbit (p_reset q) k" for k
      using q'(2) [OF that] q'(3) [OF that(1)] got [of k] kept [of k] w(6) [of k] that(1) by (cases "k < i") auto
    then have "in_step f' g'" unfolding in_step_def f'(4,5,6) by blast
    moreover have "core_ok (f_vars f')" using f'(2) q(12) by (simp add: set_derived derived_def)
    ultimately have linked: "linked f' g'" using q(11,13,14) f' g'(3) by (simp add: linked_def arrays_ok_def)
    have later: "f_vars f' ! k = f_vars f ! k \<or> k < streamed \<and> f_vars f' ! k = pvalue high (f_vars f) k"
      if "k \<noteq> var_pos ''dl_timestamp''" for k
      using q'(5) [of k] that unfolding f'(2) set_var_def by simp
    have time: "as_uint (f_vars f' ! var_pos ''dl_timestamp'') = as_uint (f_vars f ! var_pos ''dl_timestamp'') +
        (if as_uint (f_vars f' ! var_pos ''dl_period'') \<noteq> 0 then as_uint (f_vars f' ! var_pos ''dl_period'') else timestamp - dl_time_s f)"
      using dl_variables len(2) unfolding f'(2) set_var_def by (simp split del: if_split cong: if_cong)
    have more: "j < i" if "30 < maxSize" "j < streamed" "settled_to f j" for j
      using that q'(6) [OF that(1,2)] f1 high by (cases "j = 0") (auto simp: settled_to_def watch_reset_cases)
    have clear: "\<not> rbit (dl_reset_mask f') k \<and> region high (dl_snapshot f') k = pbytes high (f_vars f) k" if "k < i" for k
      using q'(3,4) [of k] that q(1) unfolding f'(4,5) by simp
    show thesis
      by (rule that [OF f'(1) _ g'(1,2) linked q(1,3) _ got kept clear more later f'(6,7) time])
        (use q(7,9) buf(2) in \<open>auto simp: pack_start_def\<close>)
  qed
qed

subsection \<open>One packet\<close>

text \<open>
  C5: one packet of the downlink.  Sender and receiver are linked when every variable of the stream whose
  reset bit is clear has, at the receiver, the value its bytes in the sender's snapshot are read as.  A
  packet always succeeds if the buffer has 19 bytes more than \<open>maxSize\<close> and the values can be packed; it
  brings the variables up to the one it stops at, each to what its packed form is read as, leaves the other
  variables of the stream alone, keeps the two linked, and stops before the end only with \<open>maxSize\<close> of
  340 bytes or less.
\<close>

theorem downstream_transfer:
  assumes "linked f g" "packable (is_hd f) (f_vars f)" "room_for buf maxSize"
  shows "\<exists>i n out f' g'. pack_downstream f buf maxSize timestamp = Some (n, out, f') \<and> (n = 2 \<or> n < maxSize) \<and>
    unpack_downstream N g (take n out @ rest) n = Some (if n > 2 then n - 2 else 2, g') \<and> linked f' g' \<and>
    i \<le> streamed \<and> (340 < maxSize \<longrightarrow> i = streamed) \<and>
    (\<forall>k < streamed. f_vars g' ! k = (if k < i then reads (is_hd f) k (pbytes (is_hd f) (f_vars f) k) else f_vars g ! k))"
proof (rule transfer_step [OF assms(1) refl assms(2,3), of timestamp N rest])
  fix i n out f' t g'
  assume r: "pack_downstream f buf maxSize timestamp = Some (n, out, f')" "n = 2 \<or> n < maxSize"
    "unpack_downstream N g (take n out @ rest) n = Some (t, g')" "t = (if n > 2 then n - 2 else 2)" "linked f' g'" "i \<le> streamed"
    "340 < maxSize \<Longrightarrow> i = streamed" "\<And>k. k < i \<Longrightarrow> f_vars g' ! k = reads (is_hd f) k (pbytes (is_hd f) (f_vars f) k)"
    "\<And>k. i \<le> k \<Longrightarrow> k < streamed \<Longrightarrow> f_vars g' ! k = f_vars g ! k"
  have "\<forall>k < streamed. f_vars g' ! k = (if k < i then reads (is_hd f) k (pbytes (is_hd f) (f_vars f) k) else f_vars g ! k)"
    using r(8,9) by (simp add: not_less)
  then show ?thesis using r(1-7) by blast
qed

subsection \<open>Repeated packets\<close>

text \<open>The packets sent at the times of the list, each received before the next is packed.\<close>

fun exchange :: "libm \<Rightarrow> bytes \<Rightarrow> nat \<Rightarrow> u32 list \<Rightarrow> flat \<times> flat \<Rightarrow> (flat \<times> flat) option" where
  "exchange N buf maxSize [] fg = Some fg"
| "exchange N buf maxSize (t # ts) (f, g) = do {
     (n, out, f) \<leftarrow> pack_downstream f buf maxSize t;
     (r, g) \<leftarrow> unpack_downstream N g (take n out) n;
     exchange N buf maxSize ts (f, g)
   }"

text \<open>Values that packing does not correct, and \<open>n\<close> packets without one that resets all variables.\<close>

definition steady :: "bool \<Rightarrow> core \<Rightarrow> bool" where
  "steady high vs \<longleftrightarrow> list_all (\<lambda>k. case packs high k (vs ! k) of Some (bs, v) \<Rightarrow> v = vs ! k | None \<Rightarrow> False) [0..<streamed]"

definition quiet :: "core \<Rightarrow> nat \<Rightarrow> bool" where
  "quiet vs n \<longleftrightarrow> as_uint (vs ! var_pos ''dl_period'') \<noteq> 0 \<and>
     list_all (\<lambda>m. (as_uint (vs ! var_pos ''dl_timestamp'') + of_nat m * as_uint (vs ! var_pos ''dl_period'')) mod 10000 \<noteq> 0) [0..<n]"

lemma steady_packable: "steady high vs \<Longrightarrow> packable high vs"
  by (auto simp: steady_def packable_def list_all_iff split: option.splits)

lemma steady_value: "steady high vs \<Longrightarrow> k < streamed \<Longrightarrow> pvalue high vs k = vs ! k"
  by (fastforce simp: steady_def pvalue_def list_all_iff split: option.splits)

lemma timestamp_later: "k < streamed \<Longrightarrow> k \<noteq> var_pos ''dl_timestamp''"
  using derived_positions(1) [of "''dl_timestamp''" vt_uint] by (auto simp: derived_def streamed_121)

text \<open>Variables that differ in the time only.\<close>

definition same_but_time :: "core \<Rightarrow> core \<Rightarrow> bool" where
  "same_but_time vs ws \<longleftrightarrow> (\<forall>k. k \<noteq> var_pos ''dl_timestamp'' \<longrightarrow> vs ! k = ws ! k)"

lemma same_but_time:
  assumes "same_but_time vs ws"
  shows "k < streamed \<Longrightarrow> vs ! k = ws ! k" "k < streamed \<Longrightarrow> pbytes high vs k = pbytes high ws k" "steady high vs \<longleftrightarrow> steady high ws"
    "f_vars f = vs \<Longrightarrow> f_vars g = ws \<Longrightarrow> is_hd f = is_hd g"
    "as_uint (vs ! var_pos ''dl_period'') = as_uint (ws ! var_pos ''dl_period'')"
proof -
  have eq: "vs ! k = ws ! k" if "k < streamed" for k using assms that timestamp_later by (auto simp: same_but_time_def)
  show "k < streamed \<Longrightarrow> vs ! k = ws ! k" "k < streamed \<Longrightarrow> pbytes high vs k = pbytes high ws k"
    using eq by (auto simp: pbytes_def)
  show "steady high vs \<longleftrightarrow> steady high ws"
    unfolding steady_def by (intro list.pred_cong refl) (simp add: eq split: option.split)
  show "f_vars f = vs \<Longrightarrow> f_vars g = ws \<Longrightarrow> is_hd f = is_hd g"
    "as_uint (vs ! var_pos ''dl_period'') = as_uint (ws ! var_pos ''dl_period'')"
    using assms dl_variables by (auto simp: same_but_time_def is_hd_def)
qed

lemma quiet_Suc:
  assumes "quiet vs (Suc n)" "as_uint (ws ! var_pos ''dl_period'') = as_uint (vs ! var_pos ''dl_period'')"
    "as_uint (ws ! var_pos ''dl_timestamp'') = as_uint (vs ! var_pos ''dl_timestamp'') + as_uint (vs ! var_pos ''dl_period'')"
  shows "as_uint (vs ! var_pos ''dl_timestamp'') mod 10000 \<noteq> 0" "quiet ws n"
proof -
  let ?T = "as_uint (vs ! var_pos ''dl_timestamp'')" and ?P = "as_uint (vs ! var_pos ''dl_period'')"
  have all: "(?T + of_nat m * ?P) mod 10000 \<noteq> 0" if "m < Suc n" for m using assms(1) that by (simp add: quiet_def list_all_iff del: upt_Suc)
  show "?T mod 10000 \<noteq> 0" using all [of 0] by simp
  have "(?T + ?P + of_nat m * ?P) mod 10000 \<noteq> 0" if "m < n" for m using all [of "Suc m"] that by (simp add: algebra_simps)
  then show "quiet ws n" using assms by (simp add: quiet_def list_all_iff)
qed

lemma settled_to_less: "settled_to f j \<Longrightarrow> i \<le> j \<Longrightarrow> settled_to f i"
  by (auto simp: settled_to_def)

lemma exchange_settles:
  assumes "linked f g" "steady (is_hd f) (f_vars f)" "room_for buf maxSize" "30 < maxSize" "quiet (f_vars f) (length ts)" "settled_to f j"
    "j \<le> streamed"
  shows "\<exists>f' g'. exchange N buf maxSize ts (f, g) = Some (f', g') \<and> linked f' g' \<and> same_but_time (f_vars f') (f_vars f) \<and>
    settled_to f' (min streamed (j + length ts))"
  using assms
proof (induction ts arbitrary: f g j)
  case Nil
  then show ?case by (auto simp: same_but_time_def)
next
  case (Cons t ts)
  let ?h = "is_hd f"
  have pk: "packable ?h (f_vars f)" using Cons.prems(2) by (rule steady_packable)
  show ?case
  proof (rule transfer_step [OF Cons.prems(1) refl pk Cons.prems(3), of t N "[]"])
    fix i n out f' r g'
    assume s: "pack_downstream f buf maxSize t = Some (n, out, f')" "unpack_downstream N g (take n out @ []) n = Some (r, g')"
      "linked f' g'" "i \<le> streamed"
      "\<And>k. k < i \<Longrightarrow> \<not> rbit (dl_reset_mask f') k \<and> region ?h (dl_snapshot f') k = pbytes ?h (f_vars f) k"
      "\<And>j. 30 < maxSize \<Longrightarrow> j < streamed \<Longrightarrow> settled_to f j \<Longrightarrow> j < i"
      "\<And>k. k \<noteq> var_pos ''dl_timestamp'' \<Longrightarrow> f_vars f' ! k = f_vars f ! k \<or> k < streamed \<and> f_vars f' ! k = pvalue ?h (f_vars f) k"
      "dl_hd_save f' = ?h" "dl_reset f' \<longleftrightarrow> as_uint (f_vars f ! var_pos ''dl_timestamp'') mod 10000 = 0"
      "as_uint (f_vars f' ! var_pos ''dl_timestamp'') = as_uint (f_vars f ! var_pos ''dl_timestamp'') +
        (if as_uint (f_vars f' ! var_pos ''dl_period'') \<noteq> 0 then as_uint (f_vars f' ! var_pos ''dl_period'') else t - dl_time_s f)"
    have same: "same_but_time (f_vars f') (f_vars f)"
      unfolding same_but_time_def using s(7) steady_value [OF Cons.prems(2)] by metis
    note sm = same_but_time [OF same]
    have hd: "is_hd f' = ?h" using sm(4) by blast
    have "as_uint (f_vars f ! var_pos ''dl_period'') \<noteq> 0" using Cons.prems(5) by (simp add: quiet_def)
    then have "as_uint (f_vars f' ! var_pos ''dl_timestamp'') =
        as_uint (f_vars f ! var_pos ''dl_timestamp'') + as_uint (f_vars f ! var_pos ''dl_period'')"
      using s(10) sm(5) by simp
    then have quiet: "as_uint (f_vars f ! var_pos ''dl_timestamp'') mod 10000 \<noteq> 0" "quiet (f_vars f') (length ts)"
      using quiet_Suc [of "f_vars f" "length ts" "f_vars f'"] Cons.prems(5) sm(5) by auto
    have "j < i" if "i < streamed"
      using s(6) [OF Cons.prems(4) that] settled_to_less [OF Cons.prems(6), of i] by (meson less_irrefl not_less)
    then have "min streamed (Suc j) \<le> i" using s(4) by (cases "i < streamed") auto
    moreover have "settled_to f' i"
      using s(5,8,9) quiet(1) hd sm(2) s(4) by (auto simp: settled_to_def settled_def)
    ultimately have settled: "settled_to f' (min streamed (Suc j))" by (rule settled_to_less [rotated])
    have steady: "steady (is_hd f') (f_vars f')" using Cons.prems(2) hd sm(3) by simp
    obtain f'' g'' where "exchange N buf maxSize ts (f', g') = Some (f'', g'')" "linked f'' g''"
      "same_but_time (f_vars f'') (f_vars f')" "settled_to f'' (min streamed (min streamed (Suc j) + length ts))"
      using Cons.IH [OF s(3) steady Cons.prems(3,4) quiet(2) settled] by auto
    moreover have "min streamed (min streamed (Suc j) + length ts) = min streamed (j + length (t # ts))" by simp
    moreover have "same_but_time (f_vars f'') (f_vars f)" using calculation(3) same by (simp add: same_but_time_def)
    ultimately show ?thesis using s(1,2) by auto
  qed
qed

text \<open>
  C11: with room for more than 30 bytes in a packet, the stream catches up: as long as the sender's
  variables stay as they are and no packet in between resets the stream, after as many packets as there
  are variables, each received before the next, every variable of the receiver is what the packed form of
  the sender's variable is read as.
\<close>

theorem downstream_catches_up:
  assumes "linked f g" "steady (is_hd f) (f_vars f)" "room_for buf maxSize" "30 < maxSize" "quiet (f_vars f) (length ts)"
    "streamed \<le> length ts"
  shows "\<exists>f' g'. exchange N buf maxSize ts (f, g) = Some (f', g') \<and> linked f' g' \<and>
    (\<forall>k < streamed. f_vars f' ! k = f_vars f ! k \<and> f_vars g' ! k = reads (is_hd f) k (pbytes (is_hd f) (f_vars f) k))"
proof -
  obtain f' g' where e: "exchange N buf maxSize ts (f, g) = Some (f', g')" "linked f' g'" "same_but_time (f_vars f') (f_vars f)"
    "settled_to f' (min streamed (0 + length ts))"
    using exchange_settles [OF assms(1-5), of 0 N] by (auto simp: settled_to_def)
  note same = same_but_time [OF e(3)]
  have "settled_to f' streamed" using e(4) assms(6) by (simp add: min_absorb1)
  then have s: "\<not> dl_reset f'" "dl_hd_save f' = is_hd f" "\<forall>k < streamed. settled (is_hd f) (f_vars f') (dl_reset_mask f') (dl_snapshot f') k"
    using same(4) [OF refl refl] by (auto simp: settled_to_def streamed_121)
  have "f_vars g' ! k = reads (is_hd f) k (pbytes (is_hd f) (f_vars f) k)" if "k < streamed" for k
    using e(2) s that same(2) [OF that] by (auto simp: linked_def in_step_def settled_def)
  then show ?thesis using e same(1) by auto
qed

subsection \<open>An example\<close>

text \<open>A vehicle with all variables zero that sends every 100 ms, and a library whose functions give zero.\<close>

definition zeroed :: flat where
  "zeroed = \<lparr> f_vars = (map (\<lambda>v. zero_of (fst v)) mvars)[133 := MUint 100, 134 := MUint 10], blockDownstream = False, dl_reset = True,
     dl_snapshot = replicate snapshot_size 0, dl_reset_mask = replicate reset_mask_size 0, dl_var = replicate var_size 0,
     dl_frcnt = 0, dl_errcnt = 0, dl_time_s = 0, dl_ts = 0, dl_Pdt = 0, dl_e = False, dl_size = 0, dl_hd_save = False \<rparr>"

definition libm_zero :: libm where
  "libm_zero = \<lparr> m_cosf = (\<lambda>a. 0), m_sinf = (\<lambda>a. 0), m_sqrtf = (\<lambda>a. 0), m_atan2f = (\<lambda>a b. 0), m_sin = (\<lambda>a. 0) \<rparr>"

lemma zero_packs: "has_format t f \<Longrightarrow> \<exists>bs. pack_as f (zero_of t) = Some (bs, zero_of t)"
proof -
  have s: "pack_float_s 0 = Some 0" "pack_float_u 0 = Some 0" "times_double 0 10 = 0" "times_double 0 100 = 0"
    "over_double 0 10 = 0" "over_double 0 100 = 0" "f_isvalid 0" by code_simp+
  assume "has_format t f"
  then show ?thesis
    by (cases t; cases f) (auto simp: packed_by_def float_packers int_packers part_packers pack_vect_def pack_point_def s
      vect_val_def point_val_def Let_def)
qed

lemma zeroed_value: "k < streamed \<Longrightarrow> f_vars zeroed ! k = zero_of (type_of k)"
  by (simp add: zeroed_def streamed_121 mvars_length type_of_def)

lemma zeroed_ok: "core_ok (f_vars zeroed)"
proof -
  have "val_type (zero_of t) = t" if "has_format t f" for t f using that by (cases t) auto
  then have "core_ok (map (\<lambda>v. zero_of (fst v)) mvars)" using formats_exist by (auto simp: core_ok_def list_all_iff)
  moreover have "fst (mvars ! 133) = vt_uint \<and> fst (mvars ! 134) = vt_uint" by code_simp
  ultimately show ?thesis by (auto simp: zeroed_def intro!: core_ok_update)
qed

lemma zeroed_steady: "steady high (f_vars zeroed)"
proof -
  have "\<exists>bs. packs high k (f_vars zeroed ! k) = Some (bs, f_vars zeroed ! k)" if "k < streamed" for k
    using zero_packs [OF format_of, of k high] zeroed_value [OF that] that streamed_121 by (simp add: packs_def)
  then show ?thesis by (fastforce simp: steady_def list_all_iff)
qed

lemma zeroed_hd: "is_hd zeroed = False"
proof -
  have "as_flag (zero_of t) = 0" for t by (cases t) auto
  then show ?thesis using zeroed_value [of 75] by (simp add: is_hd_def dl_positions streamed_121)
qed

lemma zeroed_quiet: "quiet (f_vars zeroed) 121"
proof -
  have "list_all (\<lambda>m. (10 + of_nat m * 100 :: u32) mod 10000 \<noteq> 0) [0..<121]" by code_simp
  then show ?thesis by (simp add: quiet_def dl_positions zeroed_def mvars_length del: upt_rec_numeral)
qed

lemma zeroed_linked: "linked zeroed zeroed"
  using zeroed_ok by (simp add: linked_def arrays_ok_def in_step_def zeroed_def)

lemma downstream_transfer_witness:
  "\<exists>n out f' g'. pack_downstream zeroed (replicate 400 0) 350 0 = Some (n, out, f') \<and>
    (\<exists>r. unpack_downstream libm_zero zeroed (take n out) n = Some (r, g')) \<and> linked f' g' \<and>
    (\<forall>k < streamed. f_vars g' ! k = reads False k (pbytes False (f_vars zeroed) k))"
  using downstream_transfer [OF zeroed_linked steady_packable [OF zeroed_steady], of "replicate 400 0" 350 0 libm_zero "[]"]
  by (auto simp: room_for_def zeroed_hd)

lemma downstream_catches_up_witness:
  "\<exists>f' g'. exchange libm_zero (replicate 60 0) 31 (replicate 121 0) (zeroed, zeroed) = Some (f', g') \<and> linked f' g' \<and>
    (\<forall>k < streamed. f_vars g' ! k = reads False k (pbytes False (f_vars zeroed) k))"
  using downstream_catches_up [OF zeroed_linked zeroed_steady, of "replicate 60 0" 31 "replicate 121 0" libm_zero] zeroed_quiet
  by (auto simp: room_for_def zeroed_hd streamed_121)

end
