(* ===== verification/Backport_Nav.thy ===== *)
theory Backport_Nav
  imports Matrix_Math
begin

text \<open>
  \<open>mandala/backport/MandalaFlat.cpp\<close>: angles, headings and navigation, over the real numbers as in
  \<open>Matrix_Math\<close>.  The constants are those of \<open>MandalaTemplate.h\<close>, degrees to radians with as many digits
  as there.  Outside of the domain of \<open>log\<close>, \<open>asin\<close> or a division the definitions say nothing about the
  code, which has infinities there or values that are not numbers.
\<close>

subsection \<open>Constants\<close>

definition D2R :: real where "D2R = 0.01745329251994"
definition R2D :: real where "R2D = 57.29577951308232"
definition PI :: real where "PI = 3.14159265358979"
definition EARTH_MRADIUS :: real where "EARTH_MRADIUS = 6371000"
definition C_WGS84_a :: real where "C_WGS84_a = 6378137"
definition C_WGS84_b :: real where "C_WGS84_b = 6356752.3142"

type_synonym npoint = "real \<times> real"
type_synonym nvect = "real \<times> real \<times> real"

subsection \<open>Angles and limits\<close>

definition boundAngle :: "real \<Rightarrow> real \<Rightarrow> real" where
  "boundAngle v aspan = (let dspan = aspan * 2 in v - of_int \<lfloor>v / dspan + 0.5\<rfloor> * dspan)"

definition boundAngle_vect :: "nvect \<Rightarrow> real \<Rightarrow> nvect" where
  "boundAngle_vect v aspan = (case v of (a, b, c) \<Rightarrow> (boundAngle a aspan, boundAngle b aspan, boundAngle c aspan))"

definition smoothAngle :: "real \<Rightarrow> real \<Rightarrow> real \<Rightarrow> real" where
  "smoothAngle v v_prev speed =
     (if speed \<noteq> 0 then
        let vd = boundAngle (v - v_prev) 180
        in if vd > speed then boundAngle (v_prev + speed) 180
           else if vd < - speed then boundAngle (v_prev - speed) 180 else v
      else v)"

definition filter_a :: "real \<Rightarrow> real \<Rightarrow> real \<Rightarrow> real" where
  "filter_a v var_p f = boundAngle (var_p + boundAngle (v - var_p) 180 * f) 180"

definition hyst :: "real \<Rightarrow> real \<Rightarrow> real" where
  "hyst err ahyst = (if \<bar>err\<bar> \<le> ahyst then 0 else err - (if err > 0 then ahyst else - ahyst))"

definition limit :: "real \<Rightarrow> real \<Rightarrow> real \<Rightarrow> real" where
  "limit v vMin vMax = (if v > vMax then vMax else if v < vMin then vMin else v)"

definition limit_sym :: "real \<Rightarrow> real \<Rightarrow> real" where
  "limit_sym v vL = limit v (- vL) vL"

subsection \<open>The local plane\<close>

definition sqr :: "real \<Rightarrow> real" where "sqr x = x * x"

definition heading :: "real \<Rightarrow> real \<Rightarrow> bool \<Rightarrow> real" where
  "heading N E back = (if back then atan2 (- E) (- N) * R2D else atan2 E N * R2D)"

definition heading_point :: "npoint \<Rightarrow> bool \<Rightarrow> real" where
  "heading_point ne back = heading (fst ne) (snd ne) back"

definition distance :: "real \<Rightarrow> real \<Rightarrow> real" where
  "distance N E = sqrt (sqr N + sqr E)"

definition distance_point :: "npoint \<Rightarrow> real" where
  "distance_point ne = distance (fst ne) (snd ne)"

text \<open>The point of the line from \<open>p1\<close> to \<open>p2\<close> nearest to the origin.\<close>

definition lineDistance :: "npoint \<Rightarrow> npoint \<Rightarrow> npoint" where
  "lineDistance p1 p2 =
     (let A = - fst p1; B = - snd p1; C = fst p2 - fst p1; D = snd p2 - snd p1; len_sq = C * C + D * D
      in if len_sq = 0 then p1
         else let r = (A * C + B * D) / len_sq
              in if r < 0 then p1 else if r > 1 then p2 else (fst p1 + C * r, snd p1 + D * r))"

definition rotate :: "real \<Rightarrow> real \<Rightarrow> real \<Rightarrow> npoint" where
  "rotate N E psi =
     (let psi_r = psi * D2R; cos_theta = cos psi_r; sin_theta = sin psi_r
      in (N * cos_theta + E * sin_theta, E * cos_theta - N * sin_theta))"

definition rotate_point :: "npoint \<Rightarrow> real \<Rightarrow> npoint" where
  "rotate_point v psi = rotate (fst v) (snd v) psi"

definition rotate_heading :: "nvect \<Rightarrow> real \<Rightarrow> nvect" where
  "rotate_heading v psi = (case v of (a, b, c) \<Rightarrow> let p = rotate a b psi in (fst p, snd p, c))"

text \<open>The rotation by three angles keeps the matrix of the last call and its angles.\<close>

record rotation =
  rotate_s :: nvect
  rotate_DC :: "nvect \<times> nvect \<times> nvect"

definition angles_DC :: "nvect \<Rightarrow> nvect \<times> nvect \<times> nvect" where
  "angles_DC atheta =
     (case atheta of (x, y, z) \<Rightarrow>
        let phi = x * D2R; the = y * D2R; psi = z * D2R;
            cpsi = cos psi; cphi = cos phi; ctheta = cos the; spsi = sin psi; sphi = sin phi; stheta = sin the;
            spsi_stheta = spsi * stheta; cpsi_stheta = cpsi * stheta
        in ((cpsi * ctheta, spsi * ctheta, - stheta),
            (- spsi * cphi + cpsi_stheta * sphi, cpsi * cphi + spsi_stheta * sphi, ctheta * sphi),
            (spsi * sphi + cpsi_stheta * cphi, - cpsi * sphi + spsi_stheta * cphi, ctheta * cphi)))"

definition dot3 :: "nvect \<Rightarrow> nvect \<Rightarrow> real" where
  "dot3 u v = (case (u, v) of ((a, b, c), (x, y, z)) \<Rightarrow> 0 + a * x + b * y + c * z)"

definition rotate_vect :: "rotation \<Rightarrow> nvect \<Rightarrow> nvect \<Rightarrow> nvect \<times> rotation" where
  "rotate_vect r v atheta =
     (if atheta \<noteq> (0, 0, 0) then
        let r = (if rotate_s r \<noteq> atheta then r\<lparr> rotate_s := atheta, rotate_DC := angles_DC atheta \<rparr> else r)
        in (case rotate_DC r of (d0, d1, d2) \<Rightarrow> ((dot3 v d0, dot3 v d1, dot3 v d2), r))
      else (v, r))"

subsection \<open>Great circles\<close>

definition bearing :: "npoint \<Rightarrow> npoint \<Rightarrow> real" where
  "bearing ll1 ll2 =
     (let latA = fst ll1 * D2R; lonA = snd ll1 * D2R; latB = fst ll2 * D2R; lonB = snd ll2 * D2R; dLon = lonB - lonA; clatB = cos latB
      in R2D * atan2 (clatB * sin dLon) (cos latA * sin latB - sin latA * clatB * cos dLon))"

definition distance_ll :: "npoint \<Rightarrow> npoint \<Rightarrow> real" where
  "distance_ll ll1 ll2 =
     (let latA = fst ll1 * D2R; lonA = snd ll1 * D2R; latB = fst ll2 * D2R; lonB = snd ll2 * D2R;
          dLat = (latB - latA) / 2; dLon = (lonB - lonA) / 2;
          a = (sin dLat)\<^sup>2 + cos latA * cos latB * (sin dLon)\<^sup>2;
          c = 2 * atan2 (sqrt a) (sqrt (1 - a))
      in EARTH_MRADIUS * c)"

text \<open>The difference of the bearings is in degrees.\<close>

definition distance_crosstrack :: "npoint \<Rightarrow> npoint \<Rightarrow> npoint \<Rightarrow> real" where
  "distance_crosstrack ll1 ll2 ll =
     (let d13 = distance_ll ll1 ll / EARTH_MRADIUS; b13 = bearing ll1 ll; b12 = bearing ll1 ll2
      in EARTH_MRADIUS * arcsin (sin d13 * sin (b13 - b12)))"

definition destination :: "npoint \<Rightarrow> real \<Rightarrow> real \<Rightarrow> npoint" where
  "destination ll brng_deg dst =
     (let latA = fst ll * D2R; brng = brng_deg * D2R; dR = dst / EARTH_MRADIUS;
          slatA = sin latA; clatA = cos latA; sdR = sin dR; cdR = cos dR;
          latB = arcsin (slatA * cdR + clatA * sdR * cos brng);
          lonB = snd ll + R2D * atan2 (sin brng * sdR * clatA) (cdR - slatA * sin latB)
      in (latB * R2D, boundAngle lonB 180))"

subsection \<open>Rhumb lines\<close>

definition mercator :: "real \<Rightarrow> real \<Rightarrow> real" where
  "mercator latA latB = ln (tan (PI / 4 + latB / 2) / tan (PI / 4 + latA / 2))"

definition bearing_rhumb :: "npoint \<Rightarrow> npoint \<Rightarrow> real" where
  "bearing_rhumb ll1 ll2 =
     (let dF = mercator (fst ll1 * D2R) (fst ll2 * D2R); dLon = D2R * boundAngle (snd ll2 - snd ll1) 180
      in R2D * atan2 dLon dF)"

definition distance_rhumb :: "npoint \<Rightarrow> npoint \<Rightarrow> real" where
  "distance_rhumb ll1 ll2 =
     (let latA = fst ll1 * D2R; latB = fst ll2 * D2R;
          dLat = D2R * boundAngle (fst ll2 - fst ll1) 180; dLon = D2R * boundAngle (snd ll2 - snd ll1) 180;
          dF = mercator latA latB; q = (if \<bar>dF\<bar> > 1 / 10 ^ 11 then dLat / dF else cos latA)
      in EARTH_MRADIUS * sqrt (dLat\<^sup>2 + (dLon * q)\<^sup>2))"

text \<open>The result is multiplied by \<open>D2R\<close>, which \<open>destination\<close> does by \<open>R2D\<close>.\<close>

definition destination_rhumb :: "npoint \<Rightarrow> real \<Rightarrow> real \<Rightarrow> npoint" where
  "destination_rhumb ll brng_deg dst =
     (let latA = fst ll * D2R; lonA = snd ll * D2R; brng = brng_deg * D2R; dR = dst / EARTH_MRADIUS;
          dLat = dR * cos brng; latB = latA + dLat;
          latB = (if \<bar>latB\<bar> > PI / 2 then if latB > 0 then PI - latB else - PI - latB else latB);
          dF = mercator latA latB; q = (if \<bar>dF\<bar> > 1 / 10 ^ 11 then dLat / dF else cos latA);
          dLon = dR * sin brng / q; lonB = lonA + dLon
      in (latB * D2R, boundAngle (lonB * D2R) 180))"

subsection \<open>The earth\<close>

definition flattening :: real where "flattening = (C_WGS84_a - C_WGS84_b) / C_WGS84_a"
definition ecc :: real where "ecc = sqrt (2 * flattening - flattening * flattening)"

definition llh2ECEF :: "nvect \<Rightarrow> nvect" where
  "llh2ECEF llh =
     (case llh of (lat, lon, hmsl) \<Rightarrow>
        let lat_r = lat * D2R; lon_r = lon * D2R; clat = cos lat_r; slat = sin lat_r; e = ecc;
            N = C_WGS84_a / sqrt (1 - e * e * sqr slat)
        in ((N + hmsl) * clat * cos lon_r, (N + hmsl) * clat * sin lon_r, (N * (1 - e * e) + hmsl) * slat))"

definition ECEF2Tangent :: "nvect \<Rightarrow> real \<Rightarrow> real \<Rightarrow> npoint" where
  "ECEF2Tangent ECEF latitude longitude =
     (let lat_r = latitude * D2R; lon_r = longitude * D2R; clat = cos lat_r; clon = cos lon_r; slat = sin lat_r; slon = sin lon_r
      in (dot3 ECEF (- slat * clon, - slat * slon, clat), dot3 ECEF (- slon, clon, 0)))"

definition Tangent2ECEF :: "npoint \<Rightarrow> real \<Rightarrow> real \<Rightarrow> nvect" where
  "Tangent2ECEF ne latitude longitude =
     (let lat_r = latitude * D2R; lon_r = longitude * D2R; clat = cos lat_r; clon = cos lon_r; slat = sin lat_r; slon = sin lon_r;
          row = (\<lambda>x y. 0 + fst ne * x + snd ne * y)
      in (row (- slat * clon) (- slon), row (- slat * slon) clon, row clat 0))"

definition vect_minus :: "nvect \<Rightarrow> nvect \<Rightarrow> nvect" where
  "vect_minus u v = (case (u, v) of ((a, b, c), (x, y, z)) \<Rightarrow> (a - x, b - y, c - z))"

definition vect_plus :: "nvect \<Rightarrow> nvect \<Rightarrow> nvect" where
  "vect_plus u v = (case (u, v) of ((a, b, c), (x, y, z)) \<Rightarrow> (a + x, b + y, c + z))"

definition LLH_dist :: "nvect \<Rightarrow> nvect \<Rightarrow> real \<Rightarrow> real \<Rightarrow> npoint" where
  "LLH_dist llh1 llh2 lat lon = ECEF2Tangent (vect_minus (llh2ECEF llh2) (llh2ECEF llh1)) lat lon"

definition ECEF_dist :: "nvect \<Rightarrow> nvect \<Rightarrow> real \<Rightarrow> real \<Rightarrow> npoint" where
  "ECEF_dist ecef1 ecef2 lat lon = ECEF2Tangent (vect_minus ecef1 ecef2) lat lon"

definition llh2ne :: "nvect \<Rightarrow> nvect \<Rightarrow> npoint" where
  "llh2ne llh home_llh = LLH_dist home_llh llh (fst home_llh) (fst (snd home_llh))"

definition lla2ne :: "nvect \<Rightarrow> nvect \<Rightarrow> npoint" where
  "lla2ne lla home_pos = llh2ne (fst lla, fst (snd lla), snd (snd home_pos) + snd (snd lla)) home_pos"

text \<open>The iteration of \<open>ECEF2ll\<close>: latitude, \<open>N\<close> and height.\<close>

definition ECEF2ll_step :: "nvect \<Rightarrow> real \<times> real \<times> real \<Rightarrow> real \<times> real \<times> real" where
  "ECEF2ll_step ECEF s =
     (case (ECEF, s) of ((X, Y, Z), (lat, N, h)) \<Rightarrow>
        let e = ecc; sin_lat = Z / (N * (1 - sqr e) + h);
            lat = arctan ((Z + e * e * N * sin_lat) / sqrt (X * X + Y * Y));
            N = C_WGS84_a / sqrt (1 - sqr e * sqr (sin lat));
            h = sqrt (X * X + Y * Y) / cos lat - N
        in (lat, N, h))"

definition ECEF2ll :: "nvect \<Rightarrow> npoint" where
  "ECEF2ll ECEF =
     (let lat = fst ((ECEF2ll_step ECEF ^^ 50) (0, C_WGS84_a, 0))
      in (lat * R2D, atan2 (fst (snd ECEF)) (fst ECEF) * R2D))"

definition ne2ll :: "npoint \<Rightarrow> nvect \<Rightarrow> npoint" where
  "ne2ll ne home_llh = ECEF2ll (vect_plus (llh2ECEF home_llh) (Tangent2ECEF ne (fst home_llh) (fst (snd home_llh))))"

subsection \<open>Wind\<close>

text \<open>The variables of the dictionary are arguments.\<close>

record wind =
  airspeed :: real
  cas2tas :: real
  windSpd :: real
  windHdg :: real

text \<open>The factor from true airspeed to ground speed on a course.\<close>

definition wind_factor :: "real \<Rightarrow> real \<Rightarrow> real \<Rightarrow> real" where
  "wind_factor Kvel wnd_r crs =
     (let aWTA = crs * D2R - wnd_r; aWCA = arcsin (Kvel * sin aWTA) in cos aWCA + Kvel * cos aWTA)"

definition wind_triangle :: "wind \<Rightarrow> real \<Rightarrow> real" where
  "wind_triangle w crs =
     (let spd = airspeed w * cas2tas w
      in if spd \<le> windSpd w then 0.0001 else wind_factor (windSpd w / spd) (windHdg w * D2R) crs)"

text \<open>The loop: \<open>kWSs\<close>, \<open>kWS\<close> and the course.\<close>

definition wind_step :: "real \<Rightarrow> real \<Rightarrow> real \<Rightarrow> real \<times> real \<times> real \<Rightarrow> real \<times> real \<times> real" where
  "wind_step Kvel wnd_r crs_step s =
     (case s of (kWSs, kWS, crs) \<Rightarrow>
        let kWS = wind_factor Kvel wnd_r crs in (kWSs + 1 / kWS, kWS, crs + crs_step))"

definition wind_circle :: "wind \<Rightarrow> real \<Rightarrow> real \<Rightarrow> real \<Rightarrow> real" where
  "wind_circle w crs aspan r =
     (let spd = airspeed w * cas2tas w
      in if spd \<le> windSpd w then 65535
         else let wnd_r = windHdg w * D2R; Kvel = windSpd w / spd;
                  crs_step = (if aspan < 0 then - 30 else 30); crs_e = crs + aspan; sz = nat \<lfloor>aspan / crs_step\<rfloor>;
                  (kWSs, kWS, crs) = (wind_step Kvel wnd_r crs_step ^^ sz) (0, 1, crs);
                  aspan = (if aspan < 0 then - (crs_e - crs) else crs_e - crs)
              in (kWSs * \<bar>crs_step\<bar> + aspan / kWS) * r * (2 * PI / 360))"

end
