(* ===== verification/Backport_Nav_Laws.thy ===== *)
theory Backport_Nav_Laws
  imports Backport_Nav Attitude
begin

text \<open>
  What the navigation of \<open>Backport_Nav\<close> computes in the plane: reduced angles and their rate limit, the nearest
  point of a line, rotations and their cached matrix, the tangent plane, and the wind triangle.
\<close>

subsection \<open>Reduced angles\<close>

lemma boundAngle_range:
  assumes "0 < s"
  shows "- s \<le> boundAngle v s" "boundAngle v s < s"
proof -
  let ?x = "v / (s * 2) + 0.5"
  have "of_int \<lfloor>?x\<rfloor> * (s * 2) \<le> ?x * (s * 2)" "?x * (s * 2) < (of_int \<lfloor>?x\<rfloor> + 1) * (s * 2)"
    using assms by (intro mult_right_mono mult_strict_right_mono; linarith)+
  moreover have "?x * (s * 2) = v + s" using assms by (simp add: distrib_right)
  ultimately have "of_int \<lfloor>?x\<rfloor> * (s * 2) \<le> v + s" "v + s < (of_int \<lfloor>?x\<rfloor> + 1) * (s * 2)" by (simp_all only:)
  then show "- s \<le> boundAngle v s" "boundAngle v s < s"
    unfolding boundAngle_def Let_def by (simp_all add: algebra_simps)
qed

lemma boundAngle_congruent: "\<exists>k. boundAngle v s = v + of_int k * (s * 2)"
  by (rule exI [of _ "- \<lfloor>v / (s * 2) + 0.5\<rfloor>"]) (simp add: boundAngle_def Let_def)

lemma boundAngle_unique:
  assumes "- s \<le> x" "x < s" "v = x + of_int k * (s * 2)"
  shows "boundAngle v s = x"
proof -
  have s: "0 < s" using assms by linarith
  have "v / (s * 2) + 0.5 = (x + s) / (s * 2) + of_int k" using s by (simp add: assms(3) field_simps)
  moreover have "\<lfloor>(x + s) / (s * 2)\<rfloor> = 0" using assms s by (simp add: floor_eq_iff field_simps)
  ultimately have "\<lfloor>v / (s * 2) + 0.5\<rfloor> = k" by (simp add: floor_add_int [symmetric])
  then show ?thesis by (simp add: boundAngle_def Let_def assms(3))
qed

lemma boundAngle_id: "- s \<le> x \<Longrightarrow> x < s \<Longrightarrow> boundAngle x s = x"
  by (rule boundAngle_unique [where k = 0]) simp_all

lemma boundAngle_shift: "0 < s \<Longrightarrow> boundAngle (boundAngle u s + v) s = boundAngle (u + v) s"
proof -
  assume s: "0 < s"
  obtain j where j: "boundAngle (u + v) s = u + v + of_int j * (s * 2)" using boundAngle_congruent by blast
  obtain k where k: "boundAngle u s = u + of_int k * (s * 2)" using boundAngle_congruent by blast
  have "boundAngle u s + v = boundAngle (u + v) s + of_int (k - j) * (s * 2)" unfolding j k by (simp add: algebra_simps)
  then show ?thesis by (rule boundAngle_unique [OF boundAngle_range [OF s]])
qed

lemma boundAngle_diff: "boundAngle (boundAngle (p + d) 180 - p) 180 = boundAngle d 180"
  using boundAngle_shift [of 180 "p + d" "- p"] by simp

lemma filter_a_step:
  assumes "0 \<le> f" "f \<le> 1"
  shows "boundAngle (filter_a v p f - p) 180 = f * boundAngle (v - p) 180"
proof -
  let ?d = "boundAngle (v - p) 180"
  have r: "- 180 \<le> ?d" "?d < 180" using boundAngle_range [of 180 "v - p"] by simp_all
  have "\<bar>f * ?d\<bar> \<le> \<bar>?d\<bar>" using assms by (simp add: abs_mult mult_left_le_one_le)
  then have "- 180 \<le> f * ?d" "f * ?d < 180 \<or> f * ?d = \<bar>?d\<bar> \<and> ?d = - 180" using r by linarith+
  moreover have "f * ?d \<le> 0" if "?d = - 180" using that assms by simp
  ultimately have "- 180 \<le> f * ?d" "f * ?d < 180" by linarith+
  then show ?thesis by (simp add: filter_a_def boundAngle_diff boundAngle_id mult.commute)
qed

subsection \<open>The nearest point of a line\<close>

lemma point_square: "(distance_point p)\<^sup>2 = fst p * fst p + snd p * snd p"
  by (simp add: distance_point_def distance_def sqr_def)

lemma distance_point_le: "distance_point p \<le> distance_point q \<longleftrightarrow> fst p * fst p + snd p * snd p \<le> fst q * fst q + snd q * snd q"
  by (simp add: distance_point_def distance_def sqr_def)

text \<open>The points of the segment.\<close>

definition on_line :: "npoint \<Rightarrow> npoint \<Rightarrow> real \<Rightarrow> npoint" where
  "on_line p1 p2 t = (fst p1 + (fst p2 - fst p1) * t, snd p1 + (snd p2 - snd p1) * t)"

text \<open>The square of the distance is a parabola with its minimum at \<open>r\<close>.\<close>

lemma on_line_parabola:
  fixes a b c d :: real
  assumes L: "c * c + d * d \<noteq> 0" and r: "r = (- a * c + - b * d) / (c * c + d * d)"
  shows "(a + c * t) * (a + c * t) + (b + d * t) * (b + d * t)
       = (a + c * u) * (a + c * u) + (b + d * u) * (b + d * u) + (c * c + d * d) * ((t - r) * (t - r) - (u - r) * (u - r))"
proof -
  have R: "(c * c + d * d) * r = - a * c - b * d" using L by (simp add: r)
  have "(c * c + d * d) * ((t - r) * (t - r) - (u - r) * (u - r)) = (c * c + d * d) * (t * t - u * u) - 2 * (t - u) * ((c * c + d * d) * r)"
    by (simp add: algebra_simps)
  then show ?thesis unfolding R by (simp add: algebra_simps)
qed

lemma lineDistance_point:
  obtains u where "0 \<le> u" "u \<le> 1" "lineDistance p1 p2 = on_line p1 p2 u"
    "\<And>t. 0 \<le> t \<Longrightarrow> t \<le> 1 \<Longrightarrow> distance_point (lineDistance p1 p2) \<le> distance_point (on_line p1 p2 t)"
proof -
  obtain a b where p1: "p1 = (a, b)" by (cases p1)
  obtain c d where p2: "p2 = (a + c, b + d)"
    by (metis add.commute diff_add_cancel surj_pair)
  show ?thesis
  proof (cases "c * c + d * d = 0")
    case True
    then have "c = 0" "d = 0" by (simp_all add: sum_squares_eq_zero_iff)
    then show ?thesis using that [of 0] by (simp add: lineDistance_def on_line_def p1 p2)
  next
    case False
    define r where "r = (- a * c + - b * d) / (c * c + d * d)"
    define u where "u = (if r < 0 then 0 else if r > 1 then 1 else r)"
    have eq: "lineDistance p1 p2 = on_line p1 p2 u"
      using False by (simp add: lineDistance_def on_line_def p1 p2 u_def r_def Let_def)
    have near: "distance_point (on_line p1 p2 u) \<le> distance_point (on_line p1 p2 t)" if t: "0 \<le> t" "t \<le> 1" for t
    proof -
      have "\<bar>u - r\<bar> \<le> \<bar>t - r\<bar>" using t by (auto simp: u_def)
      then have "0 \<le> (t - r) * (t - r) - (u - r) * (u - r)" by (metis abs_mult_self_eq abs_ge_zero diff_ge_0_iff_ge mult_mono)
      then have "0 \<le> (c * c + d * d) * ((t - r) * (t - r) - (u - r) * (u - r))" by (intro mult_nonneg_nonneg) simp_all
      then show ?thesis
        unfolding distance_point_le using on_line_parabola [OF False r_def, of t u] by (simp add: on_line_def p1 p2)
    qed
    show ?thesis using that [of u] eq near by (simp add: u_def)
  qed
qed

subsection \<open>Rotations\<close>

lemma rotate_isometry: "distance_point (rotate N E psi) = distance N E"
proof -
  have "(N * c + E * s) * (N * c + E * s) + (E * c - N * s) * (E * c - N * s) = (N * N + E * E) * (s * s + c * c)" for c s :: real
    by (simp add: algebra_simps)
  from this [of "cos (psi * D2R)" "sin (psi * D2R)"] show ?thesis
    by (simp add: distance_point_def distance_def rotate_def sqr_def Let_def power2_eq_square [symmetric])
qed

lemma rotate_back: "rotate_point (rotate N E psi) (- psi) = (N, E)"
proof -
  have "(N * c + E * s) * c - (E * c - N * s) * s = N * (s * s + c * c)" "(E * c - N * s) * c + (N * c + E * s) * s = E * (s * s + c * c)"
    for c s :: real
    by (simp_all add: algebra_simps)
  from this [of "cos (psi * D2R)" "sin (psi * D2R)"] show ?thesis
    by (simp add: rotate_point_def rotate_def Let_def power2_eq_square [symmetric])
qed

text \<open>The cached matrix belongs to the angles kept beside it, unless these are zero.\<close>

definition rotation_ok :: "rotation \<Rightarrow> bool" where
  "rotation_ok r \<longleftrightarrow> rotate_s r \<noteq> (0, 0, 0) \<longrightarrow> rotate_DC r = angles_DC (rotate_s r)"

definition nvec :: "nvect \<Rightarrow> real list" where
  "nvec v = (case v of (a, b, c) \<Rightarrow> [a, b, c])"

lemma nvec_zero: "a = (0, 0, 0) \<Longrightarrow> mat_vec (eulerDC (map (\<lambda>x. x * D2R) (nvec a))) (nvec v) = nvec v"
  by (cases v) (simp add: nvec_def mat_ops vec_ops eulerDC_def Let_def)

lemma nvec_rotate:
  assumes "angles_DC a = (d0, d1, d2)"
  shows "nvec (dot3 v d0, dot3 v d1, dot3 v d2) = mat_vec (eulerDC (map (\<lambda>x. x * D2R) (nvec a))) (nvec v)"
  using assms by (cases v; cases a) (auto simp: nvec_def mat_ops vec_ops eulerDC_def angles_DC_def dot3_def Let_def algebra_simps)

lemma rotate_vect_cached:
  assumes "rotation_ok r"
  shows "nvec (fst (rotate_vect r v a)) = mat_vec (eulerDC (map (\<lambda>x. x * D2R) (nvec a))) (nvec v)"
    and "rotation_ok (snd (rotate_vect r v a))"
  using assms by (auto simp: rotate_vect_def rotation_ok_def nvec_zero nvec_rotate Let_def split: prod.splits)

text \<open>A sequence of calls.\<close>

fun rotate_calls :: "rotation \<Rightarrow> (nvect \<times> nvect) list \<Rightarrow> nvect list \<times> rotation" where
  "rotate_calls r [] = ([], r)"
| "rotate_calls r ((v, a) # cs) = (let (u, r) = rotate_vect r v a; (us, r) = rotate_calls r cs in (u # us, r))"

lemma rotate_calls_cached:
  "rotation_ok r \<Longrightarrow>
    map nvec (fst (rotate_calls r cs)) = map (\<lambda>(v, a). mat_vec (eulerDC (map (\<lambda>x. x * D2R) (nvec a))) (nvec v)) cs
    \<and> rotation_ok (snd (rotate_calls r cs))"
proof (induction cs arbitrary: r)
  case (Cons c cs)
  obtain v a where c: "c = (v, a)" by (cases c)
  obtain u r' where u: "rotate_vect r v a = (u, r')" by (cases "rotate_vect r v a")
  then have "nvec u = mat_vec (eulerDC (map (\<lambda>x. x * D2R) (nvec a))) (nvec v)" "rotation_ok r'"
    using rotate_vect_cached [OF Cons.prems, of v a] by simp_all
  with Cons.IH [of r'] show ?case by (cases "rotate_calls r' cs") (simp add: c u)
qed simp

subsection \<open>The tangent plane\<close>

lemma tangent_columns:
  fixes a b c d :: real
  assumes "a * a + b * b = 1" "c * c + d * d = 1"
  shows "(- b * c) * (- b * c) + (- b * d) * (- b * d) + a * a = 1" "(- b * c) * - d + (- b * d) * c = 0" "- d * - d + c * c = 1"
proof -
  have "b * b * (c * c + d * d) + a * a = 1" using assms by (simp add: add.commute)
  then show "(- b * c) * (- b * c) + (- b * d) * (- b * d) + a * a = 1" by (simp add: algebra_simps)
qed (use assms in \<open>simp_all add: add.commute\<close>)

lemma tangent_inverse: "ECEF2Tangent (Tangent2ECEF ne lat lon) lat lon = ne"
proof -
  obtain n e where ne: "ne = (n, e)" by (cases ne)
  let ?a = "cos (lat * D2R)" let ?b = "sin (lat * D2R)" let ?c = "cos (lon * D2R)" let ?d = "sin (lon * D2R)"
  have sq: "?a * ?a + ?b * ?b = 1" "?c * ?c + ?d * ?d = 1" by (metis cos_squared_eq power2_eq_square diff_add_cancel)+
  note col = tangent_columns [OF sq]
  have N: "(n * x + e * u) * x + (n * y + e * v) * y + (n * z) * z = n * (x * x + y * y + z * z) + e * (x * u + y * v)"
    and E: "(n * x + e * u) * u + (n * y + e * v) * v = n * (x * u + y * v) + e * (u * u + v * v)" for x y z u v :: real
    by (simp_all add: algebra_simps)
  show ?thesis
    unfolding ECEF2Tangent_def Tangent2ECEF_def Let_def dot3_def ne
    using N [of "- ?b * ?c" "- ?d" "- ?b * ?d" ?c ?a] E [of "- ?b * ?c" "- ?d" "- ?b * ?d" ?c] col by simp
qed

subsection \<open>The wind triangle\<close>

lemma wind_factor_triangle:
  fixes K wnd crs :: real
  assumes "0 \<le> K" "K < 1"
  defines "hdg \<equiv> crs * D2R + arcsin (K * sin (crs * D2R - wnd))"
  shows "cos hdg + K * cos wnd = wind_factor K wnd crs * cos (crs * D2R)" "sin hdg + K * sin wnd = wind_factor K wnd crs * sin (crs * D2R)"
    and "1 - K \<le> wind_factor K wnd crs" "wind_factor K wnd crs \<le> 1 + K"
proof -
  define A where "A = crs * D2R - wnd"
  define C where "C = arcsin (K * sin A)"
  have b: "\<bar>K * sin A\<bar> \<le> K" using assms by (simp add: abs_mult mult_left_le)
  then have S: "sin C = K * sin A" and cC: "cos C = sqrt (1 - (K * sin A)\<^sup>2)"
    using assms by (simp_all add: C_def sin_arcsin cos_arcsin)
  have k: "wind_factor K wnd crs = cos C + K * cos A" by (simp add: wind_factor_def A_def C_def Let_def)
  have h: "hdg = crs * D2R + C" "wnd = crs * D2R - A" by (simp_all add: hdg_def A_def C_def)
  show "cos hdg + K * cos wnd = wind_factor K wnd crs * cos (crs * D2R)"
    unfolding k unfolding h by (simp add: cos_add cos_diff S algebra_simps)
  show "sin hdg + K * sin wnd = wind_factor K wnd crs * sin (crs * D2R)"
    unfolding k unfolding h by (simp add: sin_add sin_diff S algebra_simps)
  have u: "K * cos A \<le> K" "- K \<le> K * cos A" using assms abs_cos_le_one [of A] mult_left_mono [of "- 1" "cos A" K] by (simp_all add: mult_left_le)
  then show "wind_factor K wnd crs \<le> 1 + K" unfolding k using cos_le_one [of C] by linarith
  have sq: "(K * sin A)\<^sup>2 = K\<^sup>2 - (K * cos A)\<^sup>2" by (simp add: power_mult_distrib sin_squared_eq algebra_simps)
  have "0 \<le> 1 - K - K * cos A \<longrightarrow> (1 - K - K * cos A)\<^sup>2 \<le> 1 - (K * sin A)\<^sup>2"
  proof
    have "0 \<le> 2 * (K + K * cos A) * (1 - K)" using u assms by simp
    moreover have "1 - (K\<^sup>2 - (K * cos A)\<^sup>2) - (1 - K - K * cos A)\<^sup>2 = 2 * (K + K * cos A) * (1 - K)"
      by (simp add: power2_eq_square algebra_simps)
    ultimately show "(1 - K - K * cos A)\<^sup>2 \<le> 1 - (K * sin A)\<^sup>2" unfolding sq by linarith
  qed
  then have "1 - K - K * cos A \<le> cos C" 
    unfolding cC using real_le_rsqrt [of "1 - K - K * cos A"] real_sqrt_ge_0_iff [of "1 - (K * sin A)\<^sup>2"] b assms abs_square_le_1 [of "K * sin A"]
    by (cases "0 \<le> 1 - K - K * cos A") (simp, linarith)
  then show "1 - K \<le> wind_factor K wnd crs" unfolding k by simp
qed

subsection \<open>Properties\<close>

text \<open>The members of a new object.\<close>

definition rotation0 :: rotation where
  "rotation0 = \<lparr> rotate_s = (0, 0, 0), rotate_DC = ((0, 0, 0), (0, 0, 0), (0, 0, 0)) \<rparr>"

text \<open>
  C32: The matrix kept between calls is never stale: in any sequence of calls, with the same or other angles and with
  zero angles in between, each result is the product of the vector with the direction cosine matrix \<open>eulerDC\<close> of the
  angles of this call.
\<close>

lemma rotation_cache:
  "map nvec (fst (rotate_calls rotation0 calls)) = map (\<lambda>(v, a). mat_vec (eulerDC (map (\<lambda>x. x * D2R) (nvec a))) (nvec v)) calls"
  using rotate_calls_cached [of rotation0 calls] by (simp add: rotation_ok_def rotation0_def)

text \<open>
  When the wind is slower than the aircraft, \<open>wind_triangle\<close> solves the wind triangle: there is a heading on which
  the velocity through the air and that of the wind add up to a velocity along the course, its amount is the
  factor returned times the airspeed, and the factor is positive, between one minus and one plus the ratio of the speeds.
\<close>

lemma wind_triangle_solves:
  assumes "0 \<le> windSpd w" "windSpd w < airspeed w * cas2tas w"
  shows "(\<exists>hdg. airspeed w * cas2tas w * cos hdg + windSpd w * cos (windHdg w * D2R) = wind_triangle w crs * (airspeed w * cas2tas w) * cos (crs * D2R)
      \<and> airspeed w * cas2tas w * sin hdg + windSpd w * sin (windHdg w * D2R) = wind_triangle w crs * (airspeed w * cas2tas w) * sin (crs * D2R))
    \<and> 0 < wind_triangle w crs \<and> \<bar>wind_triangle w crs - 1\<bar> \<le> windSpd w / (airspeed w * cas2tas w)"
proof -
  let ?s = "airspeed w * cas2tas w" let ?K = "windSpd w / ?s" let ?w = "windHdg w * D2R" let ?k = "wind_triangle w crs"
  have s: "0 < ?s" and K: "0 \<le> ?K" "?K < 1" using assms by simp_all
  have k: "?k = wind_factor ?K ?w crs" using assms by (simp add: wind_triangle_def)
  obtain hdg where h: "cos hdg + ?K * cos ?w = ?k * cos (crs * D2R)" "sin hdg + ?K * sin ?w = ?k * sin (crs * D2R)"
    using wind_factor_triangle [OF K, of crs ?w] unfolding k by blast
  have scaled: "?s * a + windSpd w * b = ?k * ?s * c" if "a + ?K * b = ?k * c" for a b c
  proof -
    have "?s * (a + ?K * b) = ?s * a + windSpd w * b" using less_imp_neq [OF s] by (simp add: distrib_left)
    then show ?thesis unfolding that by (simp only: mult.assoc mult.commute mult.left_commute)
  qed
  have "0 < ?k" "\<bar>?k - 1\<bar> \<le> ?K" using wind_factor_triangle(3,4) [OF K, of ?w crs] K unfolding k by linarith+
  then show ?thesis using scaled [OF h(1)] scaled [OF h(2)] by blast
qed

lemma wind_triangle_solves_witness:
  "let w = \<lparr> airspeed = 10, cas2tas = 1, windSpd = 4, windHdg = 90 \<rparr> in
    (\<exists>hdg. 10 * cos hdg + 4 * cos (90 * D2R) = wind_triangle w 45 * 10 * cos (45 * D2R)
      \<and> 10 * sin hdg + 4 * sin (90 * D2R) = wind_triangle w 45 * 10 * sin (45 * D2R))
    \<and> 0 < wind_triangle w 45 \<and> \<bar>wind_triangle w 45 - 1\<bar> \<le> 4 / 10"
  using wind_triangle_solves [of "\<lparr> airspeed = 10, cas2tas = 1, windSpd = 4, windHdg = 90 \<rparr>" 45] by simp

text \<open>
  \<open>lineDistance\<close> returns a point of the segment from \<open>p1\<close> to \<open>p2\<close>, and no point of the segment is nearer to the
  origin; a segment of length zero is no exception.
\<close>

lemma lineDistance_nearest:
  "(\<exists>u. 0 \<le> u \<and> u \<le> 1 \<and> lineDistance p1 p2 = on_line p1 p2 u)
   \<and> (\<forall>t\<in>{0..1}. distance_point (lineDistance p1 p2) \<le> distance_point (on_line p1 p2 t))"
  by (rule lineDistance_point [of p1 p2]) auto

lemma lineDistance_nearest_witness:
  "distance_point (lineDistance (3, - 1) (3, 5)) \<le> distance_point (on_line (3, - 1) (3, 5) (1 / 2))"
  using lineDistance_nearest [of "(3, - 1)" "(3, 5)"] by simp

text \<open>
  Seen from the previous angle, \<open>smoothAngle\<close> turns by the reduced difference to the new angle limited to the
  speed given, also across the cut at 180 degrees.
\<close>

lemma smoothAngle_rate:
  assumes "0 < speed"
  shows "boundAngle (smoothAngle v v_prev speed - v_prev) 180 = limit_sym (boundAngle (v - v_prev) 180) speed"
proof -
  let ?d = "boundAngle (v - v_prev) 180"
  have r: "- 180 \<le> ?d" "?d < 180" using boundAngle_range [of 180 "v - v_prev"] by simp_all
  have "boundAngle (boundAngle (v_prev - speed) 180 - v_prev) 180 = boundAngle (- speed) 180"
    using boundAngle_diff [of v_prev "- speed"] by simp
  then show ?thesis
    using r assms by (auto simp: smoothAngle_def limit_sym_def limit_def Let_def boundAngle_diff intro!: boundAngle_id)
qed

lemma smoothAngle_rate_witness:
  "boundAngle (smoothAngle (- 170) 170 5 - 170) 180 = limit_sym (boundAngle (- 170 - 170) 180) 5"
  by (rule smoothAngle_rate) simp

end
