(* ===== verification/Backport_Geodesy.thy ===== *)
theory Backport_Geodesy
  imports Backport_Nav Attitude_Angles
begin

text \<open>
  Positions on the earth, in exact arithmetic: \<open>distance_ll\<close> of \<open>Backport_Nav\<close> is a metric on the sphere, and
  the fifty rounds of \<open>ECEF2ll\<close> invert \<open>llh2ECEF\<close> up to the digits of the conversion constants.  This shows that
  the formulas are right, not what the code computes with them: it is of single precision, where \<open>ECEF2ll\<close> is off
  by some \<open>10\<^sup>-\<^sup>6\<close> degrees and can miss the longitude of a pole by half a turn, and where the sum under the root
  of \<open>distance_ll\<close> can pass one for opposite places, which makes the distance not a number.
\<close>

subsection \<open>The great-circle distance\<close>

text \<open>The unit vector of a place.\<close>

definition place :: "npoint \<Rightarrow> nvect" where
  "place ll = (let lat = fst ll * D2R; lon = snd ll * D2R in (cos lat * cos lon, cos lat * sin lon, sin lat))"

lemma sin_cos_one: "sin x * sin x + cos x * cos x = 1" for x :: real
  using sin_cos_squared_add [of x] by (simp add: power2_eq_square)

lemma place_unit: "dot3 (place p) (place p) = 1"
proof -
  have "(c * k) * (c * k) + (c * s) * (c * s) + z * z = c * c * (s * s + k * k) + z * z" for c k s z :: real
    by (simp add: algebra_simps)
  from this [of "cos (fst p * D2R)" "cos (snd p * D2R)" "sin (snd p * D2R)" "sin (fst p * D2R)"]
  show ?thesis using sin_cos_one [of "snd p * D2R"] sin_cos_one [of "fst p * D2R"]
    by (simp add: dot3_def place_def Let_def)
qed

lemma dot3_cauchy: "(dot3 u v)\<^sup>2 \<le> dot3 u u * dot3 v v"
proof (cases u; cases v)
  fix a b c x y z assume uv: "u = (a, b, c)" "v = (x, y, z)"
  have "(a * a + b * b + c * c) * (x * x + y * y + z * z) - (a * x + b * y + c * z)\<^sup>2
      = (a * y - b * x)\<^sup>2 + (b * z - c * y)\<^sup>2 + (a * z - c * x)\<^sup>2"
    by (simp add: power2_eq_square algebra_simps)
  moreover have "0 \<le> (a * y - b * x)\<^sup>2 + (b * z - c * y)\<^sup>2 + (a * z - c * x)\<^sup>2" by simp
  ultimately have "(a * x + b * y + c * z)\<^sup>2 \<le> (a * a + b * b + c * c) * (x * x + y * y + z * z)" by linarith
  then show ?thesis unfolding uv dot3_def by simp
qed

lemma dot3_unit: "dot3 u u = 1 \<Longrightarrow> dot3 v v = 1 \<Longrightarrow> \<bar>dot3 u v\<bar> \<le> 1"
  using dot3_cauchy [of u v] by (simp add: abs_square_le_1)

lemma dot3_commute: "dot3 u v = dot3 v u"
  by (cases u; cases v) (simp add: dot3_def mult.commute)

lemma dot3_eq:
  assumes "dot3 u u = 1" "dot3 v v = 1" "dot3 u v = 1"
  shows "u = v"
proof (cases u; cases v)
  fix a b c x y z assume uv: "u = (a, b, c)" "v = (x, y, z)"
  have "(a - x) * (a - x) + (b - y) * (b - y) + (c - z) * (c - z) = dot3 u u - 2 * dot3 u v + dot3 v v"
    by (simp add: uv dot3_def algebra_simps)
  then have s: "(a - x) * (a - x) + (b - y) * (b - y) + (c - z) * (c - z) = 0" using assms by simp
  have "0 \<le> (a - x) * (a - x)" "0 \<le> (b - y) * (b - y)" "0 \<le> (c - z) * (c - z)" by simp_all
  with s have "(a - x) * (a - x) = 0" "(b - y) * (b - y) = 0" "(c - z) * (c - z) = 0" by linarith+
  then show ?thesis by (simp add: uv)
qed

text \<open>The triangle inequality of angles: the parts of \<open>u\<close> and \<open>w\<close> orthogonal to \<open>v\<close> obey Cauchy's.\<close>

lemma dot3_orthogonal_parts:
  assumes "dot3 u u = 1" "dot3 v v = 1" "dot3 w w = 1"
  shows "(dot3 u w - dot3 u v * dot3 v w)\<^sup>2 \<le> (1 - (dot3 u v)\<^sup>2) * (1 - (dot3 v w)\<^sup>2)"
proof -
  obtain a b c where u: "u = (a, b, c)" by (cases u)
  obtain x y z where v: "v = (x, y, z)" by (cases v)
  obtain p q r where w: "w = (p, q, r)" by (cases w)
  define k where "k = dot3 u v" define l where "l = dot3 v w"
  let ?u = "(a - k * x, b - k * y, c - k * z)" let ?w = "(p - l * x, q - l * y, r - l * z)"
  have "dot3 ?u ?w = dot3 u w - l * dot3 u v - k * dot3 v w + k * l * dot3 v v"
    by (simp add: dot3_def u v w algebra_simps)
  then have 1: "dot3 ?u ?w = dot3 u w - k * l" using assms(2) by (simp add: k_def [symmetric] l_def [symmetric] algebra_simps)
  have "dot3 ?u ?u = dot3 u u - 2 * k * dot3 u v + k * k * dot3 v v" by (simp add: dot3_def u v algebra_simps)
  then have 2: "dot3 ?u ?u = 1 - k\<^sup>2" using assms by (simp add: k_def [symmetric] power2_eq_square algebra_simps)
  have "dot3 ?w ?w = dot3 w w - 2 * l * dot3 v w + l * l * dot3 v v" by (simp add: dot3_def w v algebra_simps)
  then have 3: "dot3 ?w ?w = 1 - l\<^sup>2" using assms by (simp add: l_def [symmetric] power2_eq_square algebra_simps)
  show ?thesis using dot3_cauchy [of ?u ?w] unfolding 1 2 3 by (simp add: k_def l_def)
qed

lemma arccos_triangle:
  assumes "dot3 u u = 1" "dot3 v v = 1" "dot3 w w = 1"
  shows "arccos (dot3 u w) \<le> arccos (dot3 u v) + arccos (dot3 v w)"
proof -
  let ?a = "arccos (dot3 u v)" let ?b = "arccos (dot3 v w)"
  have bd: "\<bar>dot3 u v\<bar> \<le> 1" "\<bar>dot3 v w\<bar> \<le> 1" "\<bar>dot3 u w\<bar> \<le> 1" using assms by (simp_all add: dot3_unit)
  have r: "0 \<le> ?a" "0 \<le> ?b" "arccos (dot3 u w) \<le> pi" using bd by (simp_all add: arccos_lbound arccos_ubound abs_le_iff)
  show ?thesis
  proof (cases "?a + ?b \<le> pi")
    case True
    have s: "sin ?a * sin ?b = sqrt ((1 - (dot3 u v)\<^sup>2) * (1 - (dot3 v w)\<^sup>2))"
      using bd by (simp add: sin_arccos_abs real_sqrt_mult)
    have "\<bar>dot3 u w - dot3 u v * dot3 v w\<bar> \<le> sin ?a * sin ?b"
      unfolding s using dot3_orthogonal_parts [OF assms] by (metis real_sqrt_abs real_sqrt_le_mono)
    then have "cos (?a + ?b) \<le> dot3 u w" using bd by (simp add: cos_add cos_arccos_abs)
    then have "cos (?a + ?b) \<le> cos (arccos (dot3 u w))" using bd by (simp add: cos_arccos_abs)
    then show ?thesis using True r bd by (subst (asm) cos_mono_le_eq) (simp_all add: arccos_lbound abs_le_iff)
  qed (use r in linarith)
qed

lemma haversine:
  "2 * ((sin ((latB - latA) / 2))\<^sup>2 + cos latA * cos latB * (sin ((lonB - lonA) / 2))\<^sup>2)
   = 1 - (sin latA * sin latB + cos latA * cos latB * cos (lonB - lonA))" for latA :: real
proof -
  have h: "2 * (sin (x / 2))\<^sup>2 = 1 - cos x" for x :: real using cos_double_sin [of "x / 2"] by simp
  have "2 * (s + k * t) = 2 * s + k * (2 * t)" for s k t :: real by simp
  then show ?thesis by (simp only: h) (simp add: cos_diff algebra_simps)
qed

lemma distance_ll_arccos: "distance_ll p q = EARTH_MRADIUS * arccos (dot3 (place p) (place q))"
proof -
  let ?la = "fst p * D2R" let ?lb = "fst q * D2R" let ?oa = "snd p * D2R" let ?ob = "snd q * D2R"
  define A where "A = (sin ((?lb - ?la) / 2))\<^sup>2 + cos ?la * cos ?lb * (sin ((?ob - ?oa) / 2))\<^sup>2"
  have d: "2 * A = 1 - dot3 (place p) (place q)"
    unfolding A_def haversine by (simp add: dot3_def place_def Let_def cos_diff algebra_simps)
  then have A: "0 \<le> A" "A \<le> 1" using dot3_unit [of "place p" "place q"] place_unit by (simp_all add: abs_le_iff)
  let ?x = "arcsin (sqrt A)"
  have x: "0 \<le> ?x" "?x \<le> pi / 2" "sin ?x = sqrt A" "cos ?x = sqrt (1 - A)"
    using A arcsin_le_arcsin [of 0 "sqrt A"] arcsin_ubound [of "sqrt A"] arcsin_bounded [of "sqrt A"] order_trans [of "- 1" 0 "sqrt A"]
    by (simp_all add: cos_arcsin)
  have "- pi < ?x" "?x \<le> pi" using x pi_gt_zero by linarith+
  then have "atan2 (sqrt A) (sqrt (1 - A)) = ?x" by (intro atan2_polar [of 1]) (use x in simp_all)
  moreover have "2 * ?x = arccos (dot3 (place p) (place q))"
  proof -
    have "cos (2 * ?x) = dot3 (place p) (place q)" using d A x by (simp add: cos_double_sin)
    then show ?thesis using x by (metis arccos_cos mult_le_cancel_left_pos mult_nonneg_nonneg zero_le_numeral zero_less_numeral nonzero_mult_div_cancel_left times_divide_eq_right zero_neq_numeral)
  qed
  ultimately show ?thesis by (simp add: distance_ll_def Let_def A_def)
qed

subsection \<open>The rounds of ECEF2ll\<close>

text \<open>The square of the eccentricity, the radius of curvature and its share of the distance from the axis.\<close>

definition ecc2 :: real where "ecc2 = ecc * ecc"

definition vertical :: "real \<Rightarrow> real" where
  "vertical x = C_WGS84_a / sqrt (1 - ecc2 * sqr (sin x))"

definition axial :: "real \<Rightarrow> real" where
  "axial t = C_WGS84_a / sqrt (1 + (1 - ecc2) * t\<^sup>2)"

lemma ecc2_bounds: "0 < ecc2" "ecc2 < 67 / 10000"
proof -
  have f: "0 < 2 * flattening - flattening * flattening" "2 * flattening - flattening * flattening < 67 / 10000"
    by (simp_all add: flattening_def C_WGS84_a_def C_WGS84_b_def)
  then have "ecc2 = 2 * flattening - flattening * flattening" by (simp add: ecc2_def ecc_def)
  then show "0 < ecc2" "ecc2 < 67 / 10000" using f by simp_all
qed

lemma axial_root: "1 \<le> 1 + (1 - ecc2) * t\<^sup>2"
  using ecc2_bounds by simp

lemma axial_pos: "0 < axial t"
  unfolding axial_def using axial_root [of t] by (intro divide_pos_pos) (simp_all add: C_WGS84_a_def)

lemma vertical_pos: "0 < vertical x"
proof -
  have "ecc2 * (sin x)\<^sup>2 \<le> ecc2 * 1" using ecc2_bounds by (intro mult_left_mono) (simp_all add: abs_square_le_1)
  then have "ecc2 * (sin x)\<^sup>2 < 1" using ecc2_bounds by linarith
  then show ?thesis by (simp add: vertical_def C_WGS84_a_def sqr_def power2_eq_square)
qed

lemma vertical_axial: "vertical (arctan t) * cos (arctan t) = axial t"
proof -
  have s: "sqr (sin (arctan t)) = t\<^sup>2 / (1 + t\<^sup>2)" by (simp add: sqr_def sin_arctan power2_eq_square add_nonneg_nonneg)
  have "1 - ecc2 * (t\<^sup>2 / (1 + t\<^sup>2)) = (1 + (1 - ecc2) * t\<^sup>2) / (1 + t\<^sup>2)"
    using sum_power2_gt_zero_iff [of 1 t] by (simp add: field_simps)
  then have "sqrt (1 - ecc2 * (t\<^sup>2 / (1 + t\<^sup>2))) * sqrt (1 + t\<^sup>2) = sqrt (1 + (1 - ecc2) * t\<^sup>2)"
    by (simp only: real_sqrt_divide) (use hypotenuse_pos [of t] in simp)
  then show ?thesis by (simp add: vertical_def axial_def s cos_arctan)
qed

text \<open>The state of the loop is determined by the tangent of the latitude.\<close>

definition round_state :: "real \<Rightarrow> real \<Rightarrow> real \<times> real \<times> real" where
  "round_state p t = (arctan t, vertical (arctan t), p / cos (arctan t) - vertical (arctan t))"

lemma ECEF2ll_step_tan:
  assumes "p = sqrt (X * X + Y * Y)"
  shows "ECEF2ll_step (X, Y, Z) (lat, N, h) = round_state p ((Z + ecc2 * N * (Z / (N * (1 - ecc2) + h))) / p)"
  unfolding ECEF2ll_step_def round_state_def vertical_def ecc2_def sqr_def Let_def assms by simp

lemma ECEF2ll_round:
  assumes p: "p = sqrt (X * X + Y * Y)" and q: "0 < p - ecc2 * axial t"
  shows "ECEF2ll_step (X, Y, Z) (round_state p t) = round_state p (Z / (p - ecc2 * axial t))"
proof -
  let ?N = "vertical (arctan t)" let ?c = "cos (arctan t)" let ?q = "p - ecc2 * axial t"
  have p0: "0 < p" using q ecc2_bounds axial_pos [of t] mult_pos_pos [of ecc2 "axial t"] by linarith
  have "?N * (1 - ecc2) + (p / ?c - ?N) = ?q / ?c"
    by (simp add: vertical_axial [symmetric] field_simps)
  then have "ecc2 * ?N * (Z / (?N * (1 - ecc2) + (p / ?c - ?N))) = ecc2 * axial t * Z / ?q"
    by (simp add: vertical_axial [symmetric])
  moreover have "Z + ecc2 * axial t * Z / ?q = Z * p / ?q" using q by (simp add: field_simps)
  ultimately show ?thesis using p0 unfolding round_state_def [of p t] ECEF2ll_step_tan [OF p] by simp
qed

lemma ECEF2ll_first:
  assumes p: "p = sqrt (X * X + Y * Y)"
  shows "ECEF2ll_step (X, Y, Z) (0, C_WGS84_a, 0) = round_state p (Z / (p * (1 - ecc2)))"
proof -
  have "Z + ecc2 * C_WGS84_a * (Z / (C_WGS84_a * (1 - ecc2) + 0)) = Z / (1 - ecc2)"
    using ecc2_bounds by (simp add: C_WGS84_a_def field_simps)
  then show ?thesis unfolding ECEF2ll_step_tan [OF p] by (simp add: mult.commute)
qed

text \<open>A relative error of the tangent shrinks to less than a hundredth in each round.\<close>

lemma axial_scale:
  assumes "0 < r"
  shows "r \<le> 1 \<Longrightarrow> axial t \<le> axial (r * t) \<and> r * axial (r * t) \<le> axial t"
    and "1 \<le> r \<Longrightarrow> axial (r * t) \<le> axial t \<and> axial t \<le> r * axial (r * t)"
proof -
  have mono: "axial v \<le> axial u" if "u\<^sup>2 \<le> v\<^sup>2" for u v
    unfolding axial_def using that ecc2_bounds axial_root [of u]
    by (intro divide_left_mono mult_pos_pos) (simp_all add: C_WGS84_a_def mult_left_mono add_pos_nonneg)
  have scaled: "s * axial (s * u) \<le> axial u" if "0 < s" "s \<le> 1" for s u
  proof -
    have "s\<^sup>2 \<le> 1" using that by (simp add: abs_square_le_1)
    then have "s\<^sup>2 * (1 + (1 - ecc2) * u\<^sup>2) \<le> 1 + (1 - ecc2) * (s * u)\<^sup>2" by (simp add: power_mult_distrib algebra_simps)
    then have "s * sqrt (1 + (1 - ecc2) * u\<^sup>2) \<le> sqrt (1 + (1 - ecc2) * (s * u)\<^sup>2)"
      using that by (metis real_sqrt_le_mono real_sqrt_mult real_sqrt_unique less_imp_le)
    moreover have "0 < sqrt (1 + (1 - ecc2) * u\<^sup>2)" "0 < sqrt (1 + (1 - ecc2) * (s * u)\<^sup>2)"
      using axial_root [of u] axial_root [of "s * u"] by simp_all
    ultimately show ?thesis by (simp add: axial_def C_WGS84_a_def field_simps)
  qed
  show "r \<le> 1 \<Longrightarrow> axial t \<le> axial (r * t) \<and> r * axial (r * t) \<le> axial t"
    using mono [of "r * t" t] scaled [of r t] assms by (simp add: power_mult_distrib mult_left_le_one_le abs_square_le_1)
  show "1 \<le> r \<Longrightarrow> axial (r * t) \<le> axial t \<and> axial t \<le> r * axial (r * t)"
  proof -
    assume r: "1 \<le> r"
    have "(1 / r) * axial ((1 / r) * (r * t)) \<le> axial (r * t)" using r by (intro scaled) simp_all
    then have "axial t \<le> r * axial (r * t)" using r by (simp add: field_simps)
    moreover have "t\<^sup>2 \<le> (r * t)\<^sup>2" using r by (simp add: power_mult_distrib mult_le_cancel_right1 one_le_power)
    ultimately show ?thesis using mono by blast
  qed
qed

lemma axial_error:
  assumes "\<bar>r - 1\<bar> \<le> 1 / 100"
  shows "\<bar>axial (r * t) - axial t\<bar> \<le> \<bar>r - 1\<bar> * axial (r * t)" "99 / 100 * axial (r * t) \<le> axial t"
proof -
  let ?g = "axial (r * t)"
  have r: "0 < r" "99 / 100 \<le> r" using assms by linarith+
  have g: "0 < ?g" by (rule axial_pos)
  have "99 / 100 * ?g \<le> r * ?g" using r g by (intro mult_right_mono) simp_all
  moreover have "(r - 1) * ?g = r * ?g - ?g" "(1 - r) * ?g = ?g - r * ?g" by (simp_all add: algebra_simps)
  ultimately have "\<bar>?g - axial t\<bar> \<le> \<bar>r - 1\<bar> * ?g \<and> 99 / 100 * ?g \<le> axial t"
  proof (cases "r \<le> 1")
    case True
    then have "\<bar>r - 1\<bar> = 1 - r" "axial t \<le> ?g" "r * ?g \<le> axial t" using axial_scale(1) [OF r(1) True] by simp_all
    then show ?thesis using \<open>99 / 100 * ?g \<le> r * ?g\<close> \<open>(1 - r) * ?g = ?g - r * ?g\<close> by simp
  next
    case False
    then have "\<bar>r - 1\<bar> = r - 1" "?g \<le> axial t" "axial t \<le> r * ?g" using axial_scale(2) [OF r(1), of t] by simp_all
    then show ?thesis using g \<open>(r - 1) * ?g = r * ?g - ?g\<close> by simp
  qed
  then show "\<bar>?g - axial t\<bar> \<le> \<bar>r - 1\<bar> * ?g" "99 / 100 * ?g \<le> axial t" by simp_all
qed

lemma round_contracts:
  assumes r: "\<bar>r - 1\<bar> \<le> 1 / 100" and p: "axial t \<le> p"
  shows "0 < p - ecc2 * axial (r * t)"
    and "\<bar>(p - ecc2 * axial t) / (p - ecc2 * axial (r * t)) - 1\<bar> \<le> \<bar>r - 1\<bar> / 100"
proof -
  let ?g = "axial (r * t)"
  note e = axial_error [OF r, of t]
  have g: "0 < ?g" by (rule axial_pos)
  have eg: "ecc2 * ?g \<le> 67 / 10000 * ?g" using ecc2_bounds g by (intro mult_right_mono) simp_all
  then have q: "98 / 100 * ?g \<le> p - ecc2 * ?g" using e(2) p g by linarith
  then show q0: "0 < p - ecc2 * ?g" using g by linarith
  have "\<bar>ecc2 * (?g - axial t)\<bar> \<le> 67 / 10000 * (\<bar>r - 1\<bar> * ?g)"
    unfolding abs_mult using ecc2_bounds e(1) g by (intro mult_mono) simp_all
  also have "\<dots> \<le> \<bar>r - 1\<bar> / 100 * (98 / 100 * ?g)" using mult_nonneg_nonneg [of "\<bar>r - 1\<bar>" ?g] g by (simp add: mult.assoc)
  also have "\<dots> \<le> \<bar>r - 1\<bar> / 100 * (p - ecc2 * ?g)" using q by (intro mult_left_mono) simp_all
  finally have "\<bar>ecc2 * (?g - axial t)\<bar> / (p - ecc2 * ?g) \<le> \<bar>r - 1\<bar> / 100" using q0 by (simp add: divide_le_eq)
  moreover have "(p - ecc2 * axial t) / (p - ecc2 * ?g) - 1 = ecc2 * (?g - axial t) / (p - ecc2 * ?g)"
    using q0 by (simp add: field_simps)
  ultimately show "\<bar>(p - ecc2 * axial t) / (p - ecc2 * ?g) - 1\<bar> \<le> \<bar>r - 1\<bar> / 100" using q0 by simp
qed

lemma first_error:
  assumes "0 < g" "g \<le> p"
  shows "\<bar>(p - ecc2 * g) / (p * (1 - ecc2)) - 1\<bar> \<le> 1 / 100"
proof -
  have "(p - ecc2 * g) / (p * (1 - ecc2)) - 1 = ecc2 * (p - g) / (p * (1 - ecc2))"
    using assms ecc2_bounds by (simp add: field_simps)
  moreover have "ecc2 * (p - g) \<le> 1 / 100 * (p * (1 - ecc2))"
  proof -
    have "ecc2 * (p - g) \<le> 67 / 10000 * p" using assms ecc2_bounds by (intro mult_mono) simp_all
    moreover have "ecc2 * p \<le> 67 / 10000 * p" using assms ecc2_bounds by (intro mult_right_mono) simp_all
    moreover have "p * (1 - ecc2) = p - ecc2 * p" by (simp add: algebra_simps)
    ultimately show ?thesis using assms by linarith
  qed
  ultimately show ?thesis using assms ecc2_bounds by (simp add: divide_le_eq)
qed

lemma rounds_converge:
  assumes p: "p = sqrt (X * X + Y * Y)" and g: "axial t \<le> p" and Z: "Z = t * (p - ecc2 * axial t)"
  shows "\<exists>r. (ECEF2ll_step (X, Y, Z) ^^ Suc n) (0, C_WGS84_a, 0) = round_state p (r * t) \<and> \<bar>r - 1\<bar> \<le> (1 / 100) ^ Suc n"
proof (induction n)
  case 0
  have "Z / (p * (1 - ecc2)) = (p - ecc2 * axial t) / (p * (1 - ecc2)) * t" by (simp add: Z)
  then have "ECEF2ll_step (X, Y, Z) (0, C_WGS84_a, 0) = round_state p ((p - ecc2 * axial t) / (p * (1 - ecc2)) * t)"
    unfolding ECEF2ll_first [OF p] by (rule arg_cong)
  then show ?case using first_error [OF axial_pos g] by (intro exI conjI) simp_all
next
  case (Suc n)
  then obtain r where r: "(ECEF2ll_step (X, Y, Z) ^^ Suc n) (0, C_WGS84_a, 0) = round_state p (r * t)"
    and e: "\<bar>r - 1\<bar> \<le> (1 / 100) ^ Suc n" by blast
  have "(1 / 100 :: real) ^ Suc n \<le> (1 / 100) ^ 1" by (rule power_decreasing) simp_all
  then have e1: "\<bar>r - 1\<bar> \<le> 1 / 100" using e by simp
  note c = round_contracts [OF e1 g]
  let ?r = "(p - ecc2 * axial t) / (p - ecc2 * axial (r * t))"
  have "(ECEF2ll_step (X, Y, Z) ^^ Suc (Suc n)) (0, C_WGS84_a, 0) = round_state p (?r * t)"
    using ECEF2ll_round [OF p c(1), of Z] r by (simp add: Z mult.commute)
  moreover have "\<bar>?r - 1\<bar> \<le> (1 / 100) ^ Suc (Suc n)" using c(2) e by simp
  ultimately show ?case by blast
qed

subsection \<open>The digits of the constants\<close>

definition arctan_poly :: "nat \<Rightarrow> real \<Rightarrow> real" where
  "arctan_poly n x = (\<Sum>k<n. (- 1) ^ k * x ^ Suc (2 * k) / Suc (2 * k))"

lemma arctan_poly_derivative:
  "((\<lambda>x. arctan x - arctan_poly n x) has_real_derivative (- (x\<^sup>2)) ^ n / (1 + x\<^sup>2)) (at x)"
proof -
  have "((\<lambda>x. (- 1) ^ k / Suc (2 * k) * x ^ Suc (2 * k)) has_real_derivative (- 1) ^ k / Suc (2 * k) * (Suc (2 * k) * x ^ (2 * k))) (at x)" for k
    using DERIV_cmult [OF DERIV_pow [of "Suc (2 * k)" x], of "(- 1) ^ k / Suc (2 * k)"] by simp
  moreover have "(- 1) ^ k / Suc (2 * k) * (Suc (2 * k) * x ^ (2 * k)) = (- (x\<^sup>2)) ^ k" for k
    by (simp add: power_mult power_minus [of "x\<^sup>2"])
  ultimately have "((\<lambda>x. (- 1) ^ k * x ^ Suc (2 * k) / Suc (2 * k)) has_real_derivative (- (x\<^sup>2)) ^ k) (at x)" for k
    by simp
  then have "(arctan_poly n has_real_derivative (\<Sum>k<n. (- (x\<^sup>2)) ^ k)) (at x)"
    unfolding arctan_poly_def [abs_def] by (intro DERIV_sum)
  then have d: "((\<lambda>x. arctan x - arctan_poly n x) has_real_derivative inverse (1 + x\<^sup>2) - (\<Sum>k<n. (- (x\<^sup>2)) ^ k)) (at x)"
    by (intro DERIV_diff DERIV_arctan)
  have q: "1 + x\<^sup>2 > 0" by (simp add: add_pos_nonneg)
  have "(1 + x\<^sup>2) * (\<Sum>k<n. (- (x\<^sup>2)) ^ k) = 1 - (- (x\<^sup>2)) ^ n"
    using one_diff_power_eq [of "- (x\<^sup>2)" n] by simp
  then have "inverse (1 + x\<^sup>2) - (\<Sum>k<n. (- (x\<^sup>2)) ^ k) = (- (x\<^sup>2)) ^ n / (1 + x\<^sup>2)"
    using q by (simp add: field_simps)
  with d show ?thesis by simp
qed

lemma arctan_poly_zero: "arctan_poly n 0 = 0"
  by (simp add: arctan_poly_def)

lemma arctan_lower: "0 \<le> x \<Longrightarrow> even n \<Longrightarrow> arctan_poly n x \<le> arctan x"
  using DERIV_nonneg_imp_nondecreasing [of 0 x "\<lambda>x. arctan x - arctan_poly n x"]
    arctan_poly_derivative by (fastforce simp: arctan_poly_zero add_nonneg_nonneg)

lemma arctan_upper: "0 \<le> x \<Longrightarrow> odd n \<Longrightarrow> arctan x \<le> arctan_poly n x"
  using DERIV_nonpos_imp_nonincreasing [of 0 x "\<lambda>x. arctan x - arctan_poly n x"]
    arctan_poly_derivative by (fastforce simp: arctan_poly_zero divide_nonpos_pos add_pos_nonneg)

lemma pi_lower: "31415926535895 / 10 ^ 13 < pi"
proof -
  have "31415926535895 / 10 ^ 13 < 4 * (4 * arctan_poly 10 (1 / 5) - arctan_poly 3 (1 / 239))"
    by (simp add: arctan_poly_def lessThan_nat_numeral lessThan_Suc power_divide)
  also have "\<dots> \<le> 4 * (4 * arctan (1 / 5) - arctan (1 / 239))"
    using arctan_lower [of "1 / 5" 10] arctan_upper [of "1 / 239" 3] by simp
  also have "\<dots> = pi" using machin by simp
  finally show ?thesis .
qed

lemma radian_range: "\<bar>x\<bar> \<le> 90 \<Longrightarrow> \<bar>x * D2R\<bar> < pi / 2" "\<bar>x\<bar> \<le> 180 \<Longrightarrow> \<bar>x * D2R\<bar> < pi"
  using pi_lower by (simp_all add: D2R_def abs_mult)

lemma radian_degree:
  assumes "\<bar>x\<bar> \<le> 180" "\<bar>y - x * D2R\<bar> \<le> 1 / 10 ^ 20"
  shows "\<bar>y * R2D - x\<bar> \<le> 1 / 10 ^ 10"
proof -
  have "y * R2D - x = (y - x * D2R) * R2D + x * (D2R * R2D - 1)" by (simp add: algebra_simps)
  also have "\<bar>\<dots>\<bar> \<le> \<bar>y - x * D2R\<bar> * \<bar>R2D\<bar> + \<bar>x\<bar> * \<bar>D2R * R2D - 1\<bar>" by (metis abs_mult abs_triangle_ineq)
  also have "\<dots> \<le> 1 / 10 ^ 20 * 60 + 180 * (1 / (4 * 10 ^ 12))"
    using assms by (intro add_mono mult_mono) (simp_all add: R2D_def D2R_def)
  also have "\<dots> \<le> 1 / 10 ^ 10" by simp
  finally show ?thesis .
qed

lemma arctan_relative_error:
  assumes "\<bar>r - 1\<bar> \<le> 1 / 100"
  shows "\<bar>arctan (r * t) - arctan t\<bar> \<le> \<bar>r - 1\<bar>"
proof -
  have d: "((\<lambda>s. arctan (s * t)) has_real_derivative t / (1 + (s * t)\<^sup>2)) (at s)" for s
    by (rule derivative_eq_intros refl)+ (simp add: field_simps)
  have b: "\<bar>t / (1 + (s * t)\<^sup>2)\<bar> \<le> 1" if "99 / 100 \<le> s" for s
  proof -
    have "(1 / 2)\<^sup>2 * t\<^sup>2 \<le> s\<^sup>2 * t\<^sup>2" using that by (intro mult_right_mono power_mono) simp_all
    moreover have "0 \<le> (\<bar>t\<bar> / 2 - 1)\<^sup>2" by simp
    ultimately have "\<bar>t\<bar> \<le> 1 + (s * t)\<^sup>2" by (simp add: power2_eq_square algebra_simps)
    then show ?thesis by (simp add: abs_div_pos [symmetric] add_pos_nonneg divide_le_eq)
  qed
  have m: "\<bar>arctan (v * t) - arctan (u * t)\<bar> \<le> v - u" if "u < v" "99 / 100 \<le> u" for u v
  proof -
    have "\<exists>z>u. z < v \<and> arctan (v * t) - arctan (u * t) = (v - u) * (t / (1 + (z * t)\<^sup>2))"
      by (rule MVT2 [OF that(1)]) (rule d)
    then obtain z where z: "u < z" "arctan (v * t) - arctan (u * t) = (v - u) * (t / (1 + (z * t)\<^sup>2))" by blast
    show ?thesis unfolding z(2) abs_mult using b [of z] z(1) that mult_left_mono [of "\<bar>t / (1 + (z * t)\<^sup>2)\<bar>" 1 "v - u"] by simp
  qed
  consider "r < 1" | "r = 1" | "1 < r" by linarith
  then show ?thesis
  proof cases
    case 1 then show ?thesis using m [of r 1] assms by (simp add: abs_minus_commute)
  next
    case 3 then show ?thesis using m [of 1 r] by simp
  qed simp
qed

lemma ECEF2ll_latitude:
  assumes x: "\<bar>x\<bar> < pi / 2" and h: "0 \<le> h"
  defines "p \<equiv> (vertical x + h) * cos x" and "Z \<equiv> (vertical x * (1 - ecc2) + h) * sin x"
  assumes p: "p = sqrt (X * X + Y * Y)"
  shows "\<bar>fst ((ECEF2ll_step (X, Y, Z) ^^ 50) (0, C_WGS84_a, 0)) - x\<bar> \<le> 1 / 10 ^ 20"
proof -
  have c: "0 < cos x" using x by (intro cos_gt_zero_pi) linarith+
  have t: "arctan (tan x) = x" using x by (intro arctan_tan) linarith+
  have a: "axial (tan x) = vertical x * cos x" using vertical_axial [of "tan x"] by (simp add: t)
  have "axial (tan x) \<le> p" unfolding a p_def using c h by (intro mult_right_mono) simp_all
  moreover have "Z = tan x * (p - ecc2 * axial (tan x))" unfolding a p_def Z_def using c by (simp add: tan_def field_simps)
  ultimately obtain r where r: "(ECEF2ll_step (X, Y, Z) ^^ Suc 49) (0, C_WGS84_a, 0) = round_state p (r * tan x)"
    and e: "\<bar>r - 1\<bar> \<le> (1 / 100) ^ Suc 49" using rounds_converge [OF p, of "tan x" Z 49] by blast
  have "(1 / 100 :: real) ^ Suc 49 \<le> 1 / 10 ^ 20" "(1 / 100 :: real) ^ Suc 49 \<le> 1 / 100" by (simp_all add: power_divide)
  with e have "\<bar>r - 1\<bar> \<le> 1 / 10 ^ 20" "\<bar>r - 1\<bar> \<le> 1 / 100" by (blast intro: order_trans)+
  then have "\<bar>arctan (r * tan x) - x\<bar> \<le> 1 / 10 ^ 20" using arctan_relative_error [of r "tan x"] by (simp add: t)
  moreover have "Suc 49 = 50" by simp
  ultimately show ?thesis using r by (simp add: round_state_def)
qed

subsection \<open>Properties\<close>

text \<open>
  In exact arithmetic the distance between two places is a metric on the sphere of the mean radius, for any coordinates: never
  negative and at most half of the circumference, zero exactly for equal places, symmetric, obeying the triangle
  inequality, and given by the spherical law of cosines.
\<close>

lemma great_circle:
  "0 \<le> distance_ll p q \<and> distance_ll p q \<le> EARTH_MRADIUS * pi
   \<and> (distance_ll p q = 0 \<longleftrightarrow> place p = place q) \<and> distance_ll q p = distance_ll p q
   \<and> distance_ll p s \<le> distance_ll p q + distance_ll q s
   \<and> cos (distance_ll p q / EARTH_MRADIUS)
     = sin (fst p * D2R) * sin (fst q * D2R) + cos (fst p * D2R) * cos (fst q * D2R) * cos ((snd q - snd p) * D2R)"
proof (intro conjI)
  have R: "0 < EARTH_MRADIUS" by (simp add: EARTH_MRADIUS_def)
  have b: "\<bar>dot3 (place p) (place q)\<bar> \<le> 1" for p q by (simp add: dot3_unit place_unit)
  then have r: "0 \<le> arccos (dot3 (place p) (place q))" "arccos (dot3 (place p) (place q)) \<le> pi" for p q
    by (simp_all add: arccos_lbound arccos_ubound abs_le_iff minus_le_iff)
  show "0 \<le> distance_ll p q" "distance_ll p q \<le> EARTH_MRADIUS * pi" using R r by (simp_all add: distance_ll_arccos)
  show "distance_ll p q = 0 \<longleftrightarrow> place p = place q"
  proof
    assume "distance_ll p q = 0"
    then have "cos (arccos (dot3 (place p) (place q))) = 1" using R by (simp add: distance_ll_arccos)
    then show "place p = place q" using b [of p q] by (intro dot3_eq) (simp_all add: place_unit cos_arccos_abs)
  qed (simp add: distance_ll_arccos place_unit)
  show "distance_ll q p = distance_ll p q" by (simp add: distance_ll_arccos dot3_commute)
  have "arccos (dot3 (place p) (place s)) \<le> arccos (dot3 (place p) (place q)) + arccos (dot3 (place q) (place s))"
    by (intro arccos_triangle place_unit)
  then show "distance_ll p s \<le> distance_ll p q + distance_ll q s"
    using R by (simp add: distance_ll_arccos distrib_left [symmetric])
  show "cos (distance_ll p q / EARTH_MRADIUS)
    = sin (fst p * D2R) * sin (fst q * D2R) + cos (fst p * D2R) * cos (fst q * D2R) * cos ((snd q - snd p) * D2R)"
    using R b [of p q] by (simp add: distance_ll_arccos cos_arccos_abs) (simp add: dot3_def place_def Let_def cos_diff left_diff_distrib algebra_simps)
qed

text \<open>
  In exact arithmetic, for every place on or above the ellipsoid, fifty rounds of \<open>ECEF2ll\<close> give
  back the latitude and longitude \<open>llh2ECEF\<close> was called with, up to \<open>10\<^sup>-\<^sup>1\<^sup>0\<close> degrees, the accuracy of the two
  conversion constants.
\<close>

lemma ECEF2ll_inverts:
  assumes "\<bar>lat\<bar> \<le> 90" "\<bar>lon\<bar> \<le> 180" "0 \<le> hmsl"
  shows "\<bar>fst (ECEF2ll (llh2ECEF (lat, lon, hmsl))) - lat\<bar> \<le> 1 / 10 ^ 10 \<and> \<bar>snd (ECEF2ll (llh2ECEF (lat, lon, hmsl))) - lon\<bar> \<le> 1 / 10 ^ 10"
proof -
  let ?x = "lat * D2R" let ?y = "lon * D2R"
  define p where "p = (vertical ?x + hmsl) * cos ?x"
  define X where "X = p * cos ?y" define Y where "Y = p * sin ?y"
  define Z where "Z = (vertical ?x * (1 - ecc2) + hmsl) * sin ?x"
  have x: "\<bar>?x\<bar> < pi / 2" using assms by (intro radian_range(1))
  have y: "- pi < ?y" "?y \<le> pi" using radian_range(2) [of lon] assms by linarith+
  have "0 < cos ?x" using x by (intro cos_gt_zero_pi) linarith+
  then have p: "0 < p" unfolding p_def using vertical_pos [of ?x] assms by (intro mult_pos_pos) simp_all
  have E: "llh2ECEF (lat, lon, hmsl) = (X, Y, Z)"
    by (simp add: llh2ECEF_def X_def Y_def Z_def p_def vertical_def ecc2_def Let_def)
  have "X * X + Y * Y = p * p * (sin ?y * sin ?y + cos ?y * cos ?y)" by (simp only: X_def Y_def algebra_simps)
  then have "X * X + Y * Y = p * p" unfolding sin_cos_one by simp
  then have s: "p = sqrt (X * X + Y * Y)" using p by simp
  have "\<bar>fst ((ECEF2ll_step (X, Y, Z) ^^ 50) (0, C_WGS84_a, 0)) - ?x\<bar> \<le> 1 / 10 ^ 20"
    unfolding Z_def using x assms(3) s [unfolded p_def] by (rule ECEF2ll_latitude)
  moreover have "atan2 Y X = ?y" by (rule atan2_polar [OF p X_def Y_def y])
  ultimately show ?thesis unfolding E using assms by (simp add: ECEF2ll_def Let_def radian_degree del: power_numeral)
qed

lemma ECEF2ll_inverts_witness:
  "\<bar>fst (ECEF2ll (llh2ECEF (90, - 180, 500))) - 90\<bar> \<le> 1 / 10 ^ 10 \<and> \<bar>snd (ECEF2ll (llh2ECEF (90, - 180, 500))) - - 180\<bar> \<le> 1 / 10 ^ 10"
  by (rule ECEF2ll_inverts) simp_all

end
