(* ===== verification/Backport_Bound360.thy ===== *)
theory Backport_Bound360
  imports Backport_Frames
begin

text \<open>
  \<open>boundAngle360\<close> of \<open>mandala/backport/MandalaFlat.cpp\<close> on \<open>float\<close> as in the source: its two loops end only
  where adding or subtracting 360 changes the number, and \<open>None\<close> is not to return.
\<close>

subsection \<open>The loops\<close>

text \<open>The sum is of type \<open>double\<close> and rounded to \<open>float\<close>.\<close>

definition turn_up :: "f32 \<Rightarrow> f32" where
  "turn_up v = f32_of_f64 (f64_add (f64_of_f32 v) (f64_of_int 360))"

definition turn_down :: "f32 \<Rightarrow> f32" where
  "turn_down v = f32_of_f64 (f64_sub (f64_of_f32 v) (f64_of_int 360))"

definition below_0 :: "f32 \<Rightarrow> bool" where
  "below_0 v \<longleftrightarrow> fl_less (f32_dec v) (fl_of_int 0)"

definition from_360 :: "f32 \<Rightarrow> bool" where
  "from_360 v \<longleftrightarrow> \<not> f32_isnan v \<and> \<not> fl_less (f32_dec v) (fl_of_int 360)"

partial_function (option) raise360 :: "f32 \<Rightarrow> f32 option" where
  "raise360 v = (if below_0 v then raise360 (turn_up v) else Some v)"

partial_function (option) lower360 :: "f32 \<Rightarrow> f32 option" where
  "lower360 v = (if from_360 v then lower360 (turn_down v) else Some v)"

definition boundAngle360 :: "f32 \<Rightarrow> f32 option" where
  "boundAngle360 v = Option.bind (raise360 v) lower360"

subsection \<open>Results and endless loops\<close>

lemmas turn_defs = turn_up_def turn_down_def below_0_def from_360_def f32_of_f64_def f64_of_f32_def f64_add_def f64_sub_def
  f64_of_int_def f32_isnan_def

lemma raise360_result: "raise360 v = Some w \<Longrightarrow> \<not> below_0 w"
  by (rule raise360.raw_induct [where P = "\<lambda>v w. \<not> below_0 w"]) (auto split: if_splits)

lemma lower360_result: "lower360 v = Some w \<Longrightarrow> \<not> from_360 w"
  by (rule lower360.raw_induct [where P = "\<lambda>v w. \<not> from_360 w"]) (auto split: if_splits)

text \<open>A loop whose step changes nothing does not end.\<close>

lemma raise360_stuck: "below_0 v \<Longrightarrow> turn_up v = v \<Longrightarrow> raise360 v = None"
proof -
  assume v: "below_0 v" "turn_up v = v"
  have "raise360 u = Some w \<Longrightarrow> u \<noteq> v" for u w
    by (rule raise360.raw_induct [where P = "\<lambda>u w. u \<noteq> v"]) (use v in \<open>auto split: if_splits\<close>)
  then show "raise360 v = None" by (cases "raise360 v") auto
qed

lemma lower360_stuck: "from_360 v \<Longrightarrow> turn_down v = v \<Longrightarrow> lower360 v = None"
proof -
  assume v: "from_360 v" "turn_down v = v"
  have "lower360 u = Some w \<Longrightarrow> u \<noteq> v" for u w
    by (rule lower360.raw_induct [where P = "\<lambda>u w. u \<noteq> v"]) (use v in \<open>auto split: if_splits\<close>)
  then show "lower360 v = None" by (cases "lower360 v") auto
qed

lemma huge_angles:
  "below_0 0xD0800000" "turn_up 0xD0800000 = 0xD0800000"
  "\<not> below_0 0x50800000" "from_360 0x50800000" "turn_down 0x50800000 = 0x50800000"
  "below_0 0xFF800000" "turn_up 0xFF800000 = 0xFF800000"
  "\<not> below_0 0x7F800000" "from_360 0x7F800000" "turn_down 0x7F800000 = 0x7F800000"
  by code_simp+

lemma small_angles:
  "below_0 0xC2B40000" "turn_up 0xC2B40000 = 0x43870000" "\<not> below_0 0x43870000" "\<not> from_360 0x43870000"
  "\<not> below_0 0x44160000" "from_360 0x44160000" "turn_down 0x44160000 = 0x43700000" "\<not> from_360 0x43700000"
  "below_0 0xB0000000" "turn_up 0xB0000000 = 0x43B40000" "\<not> below_0 0x43B40000" "from_360 0x43B40000" "turn_down 0x43B40000 = 0"
  "\<not> from_360 0"
  by code_simp+

text \<open>
  \<open>boundAngle360\<close> brings -90 to 270, 600 to 240 and the small negative \<open>0xB0000000\<close>, which becomes 360 in between,
  to 0, but it does not return for \<open>2\<^sup>3\<^sup>4\<close> and its negative, where 360 is less than half of the distance of two
  numbers, nor for the infinities.
\<close>

lemma boundAngle360_endless:
  "boundAngle360 0xC2B40000 = Some 0x43870000 \<and> boundAngle360 0x44160000 = Some 0x43700000 \<and> boundAngle360 0xB0000000 = Some 0
   \<and> boundAngle360 0xD0800000 = None \<and> boundAngle360 0x50800000 = None
   \<and> boundAngle360 0xFF800000 = None \<and> boundAngle360 0x7F800000 = None"
proof -
  have [simp]: "raise360 v = (if below_0 v then raise360 (turn_up v) else Some v)" if "v \<in> {0xC2B40000, 0x43870000, 0x44160000, 0xB0000000, 0x43B40000, 0x50800000, 0x7F800000}" for v
    by (rule raise360.simps)
  have [simp]: "lower360 v = (if from_360 v then lower360 (turn_down v) else Some v)" if "v \<in> {0x43870000, 0x44160000, 0x43700000, 0x43B40000, 0}" for v
    by (rule lower360.simps)
  show ?thesis
    by (simp add: boundAngle360_def small_angles huge_angles raise360_stuck lower360_stuck)
qed

end
