(* ===== verification/Backport_Hundredths.thy ===== *)
theory Backport_Hundredths
  imports Backport_Pack
begin

text \<open>
  The formats of hundredths in one byte (\<open>mandala/backport/MandalaCore.cpp\<close>): the quotient is rounded to
  \<open>float\<close>, the product again, and the conversion to an integer drops the fraction, so that some values
  lose a hundredth each time they are packed.
\<close>

subsection \<open>The values that are not stable\<close>

















end
