(* ===== verification/Attitude_Float.thy ===== *)
theory Attitude_Float
  imports Backport_Pack
begin






end
