(* ===== verification/Tcp_Client.thy ===== *)
theory Tcp_Client
  imports Apx_Prelude
begin

text \<open>
  \<open>xbus/tcp/tcp_client.cpp\<close> and \<open>udp_client.cpp\<close>.  The functions of the operating system are a record of
  functions on a state of it that nothing is said about; what they store comes with the count they return.
  What is printed is left out, with the members that only choose it.  A store outside an array, and a loop
  that does not end, are \<open>None\<close>.
\<close>

unbundle bit_operations_syntax

subsection \<open>The operating system\<close>

datatype sockopt = Rcvtimeo nat | Nodelay | Quickack | Reuseaddr
datatype recv_flag = Recv_wait | Recv_peek | Recv_dontwait

text \<open>An address is its family, address and port.\<close>

type_synonym sockaddr = "nat \<times> u32 \<times> u16"

record 'w sys =
  sys_socket :: "bool \<Rightarrow> 'w \<Rightarrow> int \<times> 'w"
  sys_connect :: "int \<Rightarrow> sockaddr \<Rightarrow> 'w \<Rightarrow> int \<times> 'w"
  sys_setsockopt :: "int \<Rightarrow> sockopt \<Rightarrow> 'w \<Rightarrow> 'w"
  sys_send :: "int \<Rightarrow> bytes \<Rightarrow> bool \<Rightarrow> 'w \<Rightarrow> int \<times> 'w"
  sys_recv :: "int \<Rightarrow> nat \<Rightarrow> recv_flag \<Rightarrow> 'w \<Rightarrow> (int \<times> bytes) \<times> 'w"
  sys_poll :: "int \<Rightarrow> 'w \<Rightarrow> int \<times> 'w"
  sys_errno :: "'w \<Rightarrow> int"
  sys_close :: "int \<Rightarrow> 'w \<Rightarrow> 'w"
  sys_bind :: "int \<Rightarrow> sockaddr \<Rightarrow> 'w \<Rightarrow> int \<times> 'w"
  sys_listen :: "int \<Rightarrow> 'w \<Rightarrow> int \<times> 'w"
  sys_accept :: "int \<Rightarrow> 'w \<Rightarrow> int \<times> 'w"
  sys_recvfrom :: "int \<Rightarrow> nat \<Rightarrow> 'w \<Rightarrow> (int \<times> bytes) \<times> 'w"
  sys_sendto :: "int \<Rightarrow> bytes \<Rightarrow> sockaddr \<Rightarrow> 'w \<Rightarrow> int \<times> 'w"
  sys_fionread :: "int \<Rightarrow> 'w \<Rightarrow> (int \<times> int) \<times> 'w"
  sys_eagain :: int
  sys_getfl :: "int \<Rightarrow> 'w \<Rightarrow> int \<times> 'w"
  sys_setfl :: "int \<Rightarrow> int \<Rightarrow> 'w \<Rightarrow> int \<times> 'w"
  sys_nonblock :: int

subsection \<open>Strings\<close>

text \<open>A string of C is its characters up to the zero.\<close>

definition ascii :: "string \<Rightarrow> bytes" where "ascii s = map of_char s"

definition c_string :: "bytes \<Rightarrow> bytes" where "c_string = takeWhile (\<lambda>b. b \<noteq> 0)"

fun strstr :: "bytes \<Rightarrow> bytes \<Rightarrow> bytes option" where
  "strstr [] t = (if t = [] then Some [] else None)"
| "strstr (b # s) t = (if take (length t) (b # s) = t then Some (b # s) else strstr s t)"

definition CR :: u8 where "CR = 13"
definition LF :: u8 where "LF = 10"
definition CRLF :: bytes where "CRLF = [CR, LF]"

text \<open>\<open>snprintf(line_buf, 255, \<dots>)\<close> stores at most 254 characters.\<close>

definition snprintf255 :: "bytes \<Rightarrow> bytes" where "snprintf255 = take 254"

subsection \<open>tcp_client\<close>

record host =
  h_addr :: sockaddr
  h_path :: bytes
  h_stream :: bool
  h_server :: bytes

record tcp_client =
  client_fd :: int
  c_name :: bytes
  c_host :: host

text \<open>The constructor leaves \<open>stream\<close> and \<open>server\<close> as they are in memory.\<close>

definition new_client :: "bytes \<Rightarrow> bool \<Rightarrow> bytes \<Rightarrow> tcp_client" where
  "new_client name junk_stream junk_server =
     \<lparr> client_fd = - 1, c_name = name,
       c_host = \<lparr> h_addr = (0, 0, 0), h_path = [], h_stream = junk_stream, h_server = junk_server \<rparr> \<rparr>"

text \<open>\<open>inet_addr\<close> is an argument; \<open>AF_INET\<close> is 2.\<close>

definition set_host :: "(bytes \<Rightarrow> u32) \<Rightarrow> bytes option \<Rightarrow> u16 \<Rightarrow> bytes \<Rightarrow> tcp_client \<Rightarrow> tcp_client" where
  "set_host inet_addr h port path c =
     c\<lparr> c_host := (c_host c)\<lparr> h_addr := (2, case h of Some s \<Rightarrow> inet_addr s | None \<Rightarrow> 0, port), h_path := path \<rparr> \<rparr>"

definition is_connected :: "tcp_client \<Rightarrow> bool" where
  "is_connected c \<longleftrightarrow> client_fd c \<ge> 0 \<and> h_stream (c_host c)"

definition close_client :: "'w sys \<Rightarrow> tcp_client \<Rightarrow> 'w \<Rightarrow> tcp_client \<times> 'w" where
  "close_client S c w =
     (c\<lparr> client_fd := - 1 \<rparr>, if client_fd c \<ge> 0 then sys_close S (client_fd c) w else w)"

text \<open>The loop of \<open>readline\<close> with \<open>rcnt\<close> rounds left; \<open>line\<close> is what is stored in front of \<open>ptr\<close>.\<close>

primrec readline_loop :: "nat \<Rightarrow> 'w sys \<Rightarrow> int \<Rightarrow> bytes \<Rightarrow> 'w \<Rightarrow> (bool \<times> bytes) \<times> 'w" where
  "readline_loop 0 S fd line w = ((False, line), w)"
| "readline_loop (Suc rcnt) S fd line w =
     (let ((rv, bs), w) = sys_recv S fd 1 Recv_wait w
      in if rv \<le> 0 then ((False, line), w)
         else if hd bs = CR then readline_loop rcnt S fd line w
         else if hd bs = LF then ((True, line), w)
         else readline_loop rcnt S fd (line @ [hd bs]) w)"

definition readline :: "'w sys \<Rightarrow> int \<Rightarrow> nat \<Rightarrow> 'w \<Rightarrow> (bool \<times> bytes) \<times> 'w" where
  "readline S fd max_size w = (let ((ok, line), w) = readline_loop (max_size - 1) S fd [] w in ((ok, c_string line), w))"

text \<open>\<open>strcpy\<close> to \<open>server\<close>, which has 64 bytes; the text ends at the first dot.\<close>

definition set_server :: "bytes \<Rightarrow> tcp_client \<Rightarrow> tcp_client option" where
  "set_server s c =
     (if length s + 1 > 64 then None
      else Some (c\<lparr> c_host := (c_host c)\<lparr> h_server := takeWhile (\<lambda>b. b \<noteq> of_char (CHR ''.'')) s \<rparr> \<rparr>))"

partial_function (option) read_header :: "'w sys \<Rightarrow> int \<Rightarrow> tcp_client \<Rightarrow> 'w \<Rightarrow> ((bool \<times> tcp_client) \<times> 'w) option" where
  "read_header S fd c w =
     (let ((ok, line), w) = readline S fd 256 w
      in if \<not> ok then Some ((False, c), w)
         else if strstr line (ascii ''application/octet-stream'') \<noteq> None
         then read_header S fd (c\<lparr> c_host := (c_host c)\<lparr> h_stream := True \<rparr> \<rparr>) w
         else case strstr line (ascii ''Server: '') of
           Some s \<Rightarrow> Option.bind (set_server (drop 8 s) c) (\<lambda>c. read_header S fd c w)
         | None \<Rightarrow> if line = [] \<and> h_stream (c_host c) then Some ((True, c), w) else read_header S fd c w)"

definition request :: "bytes \<Rightarrow> bytes \<Rightarrow> bytes" where
  "request path name = snprintf255 (ascii ''GET '' @ path @ ascii '' HTTP/1.0'' @ CRLF @ ascii ''From: '' @ name @ CRLF @ CRLF)"

definition connect_failed :: "'w sys \<Rightarrow> tcp_client \<Rightarrow> 'w \<Rightarrow> (bool \<times> tcp_client) \<times> 'w" where
  "connect_failed S c w = (let (c, w) = close_client S c w in ((False, c), w))"

text \<open>The request and the response, on the open socket.\<close>

definition connect_request :: "'w sys \<Rightarrow> tcp_client \<Rightarrow> 'w \<Rightarrow> ((bool \<times> tcp_client) \<times> 'w) option" where
  "connect_request S c w =
     (let fd = client_fd c; (rv, w) = sys_send S fd (request (h_path (c_host c)) (c_name c)) False w
      in if rv \<le> 0 then Some (connect_failed S c w)
         else let ((ok, line), w) = readline S fd 256 w
              in if \<not> ok \<or> strstr line (ascii ''200 OK'') = None then Some (connect_failed S c w)
                 else Option.bind (read_header S fd (c\<lparr> c_host := (c_host c)\<lparr> h_stream := False, h_server := [] \<rparr> \<rparr>) w)
                   (\<lambda>((ok, c), w). if ok then Some ((True, c), w) else Some (connect_failed S c w)))"

definition connect :: "'w sys \<Rightarrow> tcp_client \<Rightarrow> 'w \<Rightarrow> ((bool \<times> tcp_client) \<times> 'w) option" where
  "connect S c w =
     (let (fd, w) = sys_socket S False w; c = c\<lparr> client_fd := fd \<rparr>
      in if fd \<le> 0 then Some (connect_failed S c w)
         else let (status, w) = sys_connect S fd (h_addr (c_host c)) w
              in if status \<noteq> 0 then Some (connect_failed S c w)
                 else let w = sys_setsockopt S fd (Rcvtimeo 5) w; w = sys_setsockopt S fd Nodelay w; w = sys_setsockopt S fd Quickack w
                      in if h_path (c_host c) = [] then Some ((True, c), w) else connect_request S c w)"

text \<open>\<open>read\<close> of a descriptor gives a count, which is -1 when the connection is lost, and the bytes of \<open>buf\<close> it counts.\<close>

definition read_fd :: "'w sys \<Rightarrow> int \<Rightarrow> nat \<Rightarrow> 'w \<Rightarrow> (int \<times> bytes) \<times> 'w" where
  "read_fd S fd sz w =
     (let (p, w) = sys_poll S fd w
      in if p > 0 then sys_recv S fd sz Recv_dontwait w
         else let ((rv, bs), w) = sys_recv S fd sz Recv_peek w
              in if rv = 0 then ((- 1, []), w)
                 else if rv < 0 then if sys_errno S w \<noteq> sys_eagain S then ((- 1, []), w) else ((0, []), w)
                 else sys_recv S fd sz Recv_dontwait w)"

definition read_client :: "'w sys \<Rightarrow> tcp_client \<Rightarrow> nat \<Rightarrow> 'w \<Rightarrow> ((nat \<times> bytes) \<times> tcp_client) \<times> 'w" where
  "read_client S c sz w =
     (let ((cnt, bs), w) = read_fd S (client_fd c) sz w
      in if cnt \<ge> 0 then (((nat cnt, bs), c), w)
         else let (c, w) = close_client S c w in (((0, []), c), w))"

definition write_fd :: "'w sys \<Rightarrow> int \<Rightarrow> bytes \<Rightarrow> 'w \<Rightarrow> bool \<times> 'w" where
  "write_fd S fd buf w = (let (rv, w) = sys_send S fd buf True w in (rv = int (length buf), w))"

definition write_client :: "'w sys \<Rightarrow> tcp_client \<Rightarrow> bytes \<Rightarrow> 'w \<Rightarrow> (bool \<times> tcp_client) \<times> 'w" where
  "write_client S c buf w =
     (if buf = [] then ((True, c), w)
      else if \<not> is_connected c then ((False, c), w)
      else let (ok, w) = write_fd S (client_fd c) buf w
           in if ok then ((True, c), w) else let (c, w) = close_client S c w in ((False, c), w))"

definition set_non_blocking :: "'w sys \<Rightarrow> tcp_client \<Rightarrow> 'w \<Rightarrow> int \<times> 'w" where
  "set_non_blocking S c w =
     (let (flags, w) = sys_getfl S (client_fd c) w; flags = (if flags = - 1 then 0 else flags)
      in sys_setfl S (client_fd c) (flags OR sys_nonblock S) w)"

subsection \<open>udp_client\<close>

record udp_client =
  u_fd :: int
  u_dest :: sockaddr

definition new_udp :: udp_client where "new_udp = \<lparr> u_fd = - 1, u_dest = (0, 0, 0) \<rparr>"

definition set_dest :: "(bytes \<Rightarrow> u32) \<Rightarrow> bytes option \<Rightarrow> u16 \<Rightarrow> udp_client \<Rightarrow> udp_client" where
  "set_dest inet_addr h port u = u\<lparr> u_dest := (2, case h of Some s \<Rightarrow> inet_addr s | None \<Rightarrow> 0, port) \<rparr>"

definition udp_connected :: "udp_client \<Rightarrow> bool" where "udp_connected u \<longleftrightarrow> u_fd u \<ge> 0"

definition close_udp :: "'w sys \<Rightarrow> udp_client \<Rightarrow> 'w \<Rightarrow> udp_client \<times> 'w" where
  "close_udp S u w = (u\<lparr> u_fd := - 1 \<rparr>, if u_fd u \<ge> 0 then sys_close S (u_fd u) w else w)"

definition bind_udp :: "'w sys \<Rightarrow> u32 \<Rightarrow> u16 \<Rightarrow> udp_client \<Rightarrow> 'w \<Rightarrow> (bool \<times> udp_client) \<times> 'w" where
  "bind_udp S addr port u w =
     (let (fd, w) = sys_socket S True w; u = u\<lparr> u_fd := fd \<rparr>
      in if fd \<le> 0 then let (u, w) = close_udp S u w in ((False, u), w)
         else let w = sys_setsockopt S fd Reuseaddr w; (rv, w) = sys_bind S fd (2, addr, port) w
              in if rv < 0 then let (u, w) = close_udp S u w in ((False, u), w) else ((True, u), w))"

definition read_udp :: "'w sys \<Rightarrow> udp_client \<Rightarrow> nat \<Rightarrow> 'w \<Rightarrow> ((nat \<times> bytes) \<times> udp_client) \<times> 'w" where
  "read_udp S u sz w =
     (let ((cnt, bs), w) = sys_recvfrom S (u_fd u) sz w
      in if cnt \<ge> 0 then (((nat cnt, bs), u), w)
         else let (u, w) = close_udp S u w in (((0, []), u), w))"

definition write_udp :: "'w sys \<Rightarrow> udp_client \<Rightarrow> bytes \<Rightarrow> 'w \<Rightarrow> (bool \<times> udp_client) \<times> 'w" where
  "write_udp S u buf w =
     (if buf = [] then ((True, u), w)
      else if \<not> udp_connected u then ((False, u), w)
      else let (rv, w) = sys_sendto S (u_fd u) buf (u_dest u) w
           in if rv = int (length buf) then ((True, u), w) else let (u, w) = close_udp S u w in ((False, u), w))"

definition dataAvailable :: "'w sys \<Rightarrow> udp_client \<Rightarrow> 'w \<Rightarrow> bool \<times> 'w" where
  "dataAvailable S u w =
     (if \<not> udp_connected u then (False, w)
      else let ((rv, n), w) = sys_fionread S (u_fd u) w in (rv \<ge> 0 \<and> n > 0, w))"

end
