(* ===== verification/Tcp_Server.thy ===== *)
theory Tcp_Server
  imports Tcp_Client
begin

text \<open>
  \<open>xbus/tcp/_tcp_server.cpp\<close>.  Every access to the table of clients is made with the mutex held: the sections
  between locking and unlocking are functions, and the threads of \<open>run\<close> are interleaved at them.  The queue of
  received data is of another library: its two functions are parameters, and so is what \<open>pthread_create\<close> returns.
\<close>

subsection \<open>The server\<close>

record 'f tcp_server =
  server_fd :: int
  s_host :: host
  client_fds :: "int list"
  client_cnt :: nat
  tid_cnt :: nat
  rx_fifo :: 'f

definition max_clients :: nat where "max_clients = 50"
definition max_tids :: nat where "max_tids = 50"
definition size_packet_max :: nat where "size_packet_max = 512"

text \<open>The array of descriptors is not initialised.\<close>

definition new_server :: "host \<Rightarrow> int list \<Rightarrow> 'f \<Rightarrow> 'f tcp_server" where
  "new_server h junk fifo = \<lparr> server_fd = - 1, s_host = h, client_fds = junk, client_cnt = 0, tid_cnt = 0, rx_fifo = fifo \<rparr>"

definition server_connected :: "'f tcp_server \<Rightarrow> bool" where
  "server_connected s \<longleftrightarrow> server_fd s > 0 \<and> client_cnt s > 0"

text \<open>The first \<open>cnt\<close> descriptors, \<open>None\<close> where the array has fewer.\<close>

definition clients :: "'f tcp_server \<Rightarrow> int list option" where
  "clients s = (if client_cnt s \<le> length (client_fds s) then Some (take (client_cnt s) (client_fds s)) else None)"

definition close_server :: "'w sys \<Rightarrow> 'f tcp_server \<Rightarrow> 'w \<Rightarrow> ('f tcp_server \<times> 'w) option" where
  "close_server S s w =
     map_option (\<lambda>fds.
       let w = (if server_fd s > 0 then sys_close S (server_fd s) w else w);
           s = (if server_fd s > 0 then s\<lparr> server_fd := - 1 \<rparr> else s)
       in (s\<lparr> client_cnt := 0 \<rparr>, fold (sys_close S) fds w)) (clients s)"

text \<open>\<open>create_thread\<close> stores the new thread behind the others; \<open>created\<close> is the outcome of \<open>pthread_create\<close>.\<close>

definition create_thread :: "bool \<Rightarrow> 'f tcp_server \<Rightarrow> (bool \<times> 'f tcp_server) option" where
  "create_thread created s =
     (if tid_cnt s \<ge> max_tids then None else Some (created, if created then s\<lparr> tid_cnt := tid_cnt s + 1 \<rparr> else s))"

definition connect_server :: "'w sys \<Rightarrow> bool \<Rightarrow> 'f tcp_server \<Rightarrow> 'w \<Rightarrow> ((bool \<times> 'f tcp_server) \<times> 'w) option" where
  "connect_server S created s w =
     (let failed = (\<lambda>s w. map_option (\<lambda>(s, w). ((False, s), w)) (close_server S s w));
          (fd, w) = sys_socket S False w; s = s\<lparr> server_fd := fd \<rparr>
      in if fd \<le> 0 then failed s w
         else let w = sys_setsockopt S fd (Rcvtimeo 5) w; w = sys_setsockopt S fd Reuseaddr w; (rv, w) = sys_bind S fd (h_addr (s_host s)) w
              in if rv < 0 then failed s w
                 else let (rv, w) = sys_listen S fd w
                      in if rv < 0 then failed s w
                         else let w = sys_setsockopt S fd Nodelay w; w = sys_setsockopt S fd Quickack w
                              in Option.bind (create_thread created s) (\<lambda>(ok, s). if ok then Some ((True, s), w) else failed s w))"

subsection \<open>The request of a client\<close>

text \<open>The lines up to an empty one, or to the end.\<close>

partial_function (option) skip_header :: "'w sys \<Rightarrow> int \<Rightarrow> 'w \<Rightarrow> 'w option" where
  "skip_header S fd w =
     (let ((ok, line), w) = readline S fd 256 w in if \<not> ok \<or> line = [] then Some w else skip_header S fd w)"

fun send_all :: "'w sys \<Rightarrow> int \<Rightarrow> bytes list \<Rightarrow> 'w \<Rightarrow> bool \<times> 'w" where
  "send_all S fd [] w = (True, w)"
| "send_all S fd (l # ls) w = (let (rv, w) = sys_send S fd l False w in if rv \<le> 0 then (False, w) else send_all S fd ls w)"

definition response :: "bytes \<Rightarrow> bytes list" where
  "response path =
     [ascii ''HTTP/1.0 200 OK'' @ CRLF, ascii ''Content-Type: application/octet-stream'' @ CRLF,
      snprintf255 (ascii ''tcp_server: '' @ drop 1 path @ CRLF), CRLF]"

text \<open>The comparison of the path ends with the path of the server; \<open>path + 1\<close> is behind an empty path.\<close>

definition serve_request :: "'w sys \<Rightarrow> bytes \<Rightarrow> int \<Rightarrow> 'w \<Rightarrow> (bool \<times> 'w) option" where
  "serve_request S path fd w =
     (let ((ok, line), w) = readline S fd 256 w
      in if \<not> ok then Some (False, w)
         else if take 4 line \<noteq> ascii ''GET '' \<or> take (length path) (drop 4 line) \<noteq> path then Some (False, w)
         else Option.bind (skip_header S fd w)
           (\<lambda>w. if path = [] then None else Some (send_all S fd (response path) w)))"

subsection \<open>The table of clients\<close>

definition register :: "int \<Rightarrow> 'f tcp_server \<Rightarrow> (nat \<times> 'f tcp_server) option" where
  "register fd s =
     (if client_cnt s \<ge> max_clients then None
      else Some (client_cnt s, s\<lparr> client_fds := (client_fds s)[client_cnt s := fd], client_cnt := client_cnt s + 1 \<rparr>))"

text \<open>The loop moves the later descriptors down; the count is of 64 bits.\<close>

definition unregister :: "nat \<Rightarrow> 'f tcp_server \<Rightarrow> 'f tcp_server option" where
  "unregister idx s =
     (if client_cnt s > max_clients then None
      else Some (s\<lparr> client_fds := fold (\<lambda>i fds. fds[i - 1 := fds ! i]) [idx + 1..<client_cnt s] (client_fds s),
                    client_cnt := (if client_cnt s = 0 then 2 ^ 64 - 1 else client_cnt s - 1) \<rparr>))"

definition write_server :: "'w sys \<Rightarrow> bytes \<Rightarrow> 'f tcp_server \<Rightarrow> 'w \<Rightarrow> (bool \<times> 'w) option" where
  "write_server S buf s w =
     map_option (\<lambda>fds. fold (\<lambda>fd (rv, w). let (ok, w) = write_fd S fd buf w in (rv \<or> ok, w)) fds (False, w)) (clients s)"

definition read_server :: "('f \<Rightarrow> nat \<Rightarrow> bytes \<times> 'f) \<Rightarrow> nat \<Rightarrow> 'f tcp_server \<Rightarrow> bytes \<times> 'f tcp_server" where
  "read_server fifo_read sz s = (let (bs, q) = fifo_read (rx_fifo s) sz in (bs, s\<lparr> rx_fifo := q \<rparr>))"

subsection \<open>The threads\<close>

datatype phase = Accepting | Serving int | Receiving int nat | Ended

definition accept_step :: "'w sys \<Rightarrow> bool \<Rightarrow> 'f tcp_server \<Rightarrow> 'w \<Rightarrow> ((phase \<times> bool \<times> 'f tcp_server) \<times> 'w) option" where
  "accept_step S created s w =
     (let (fd, w) = sys_accept S (server_fd s) w
      in if fd \<le> 0 then Some ((Accepting, False, s), w)
         else map_option (\<lambda>(ok, s).
           let w = sys_setsockopt S fd (Rcvtimeo 5) w; w = sys_setsockopt S fd Nodelay w; w = sys_setsockopt S fd Quickack w
           in ((Serving fd, ok, s), w)) (create_thread created s))"

definition serve_step :: "'w sys \<Rightarrow> int \<Rightarrow> 'f tcp_server \<Rightarrow> 'w \<Rightarrow> ((phase \<times> 'f tcp_server) \<times> 'w) option" where
  "serve_step S fd s w =
     Option.bind (serve_request S (h_path (s_host s)) fd w)
       (\<lambda>(ok, w). if ok then map_option (\<lambda>(idx, s). ((Receiving fd idx, s), w)) (register fd s)
                  else Some ((Ended, s), sys_close S fd w))"

text \<open>One round of the loop that receives.\<close>

definition receive_step ::
    "'w sys \<Rightarrow> ('f \<Rightarrow> bytes \<Rightarrow> 'f) \<Rightarrow> int \<Rightarrow> nat \<Rightarrow> 'f tcp_server \<Rightarrow> 'w \<Rightarrow> ((phase \<times> 'f tcp_server) \<times> 'w) option" where
  "receive_step S fifo_write fd idx s w =
     (let ((cnt, bs), w) = read_fd S fd size_packet_max w
      in if cnt < 0 then map_option (\<lambda>s. ((Ended, s), sys_close S fd w)) (unregister idx s)
         else if cnt = 0 then Some ((Receiving fd idx, s), w)
         else Some ((Receiving fd idx, s\<lparr> rx_fifo := fifo_write (rx_fifo s) bs \<rparr>), w))"

text \<open>
  The threads of the server, its tables and the operating system.  Each thread takes its next step at any time; the
  owner writes to all clients, reads what was received, closes the server and connects it again.  The number that a
  step carries is how many entries \<open>close\<close> drops from the table; their threads are not told and run on.
\<close>

type_synonym ('f, 'w) running = "phase list \<times> 'f tcp_server \<times> 'w"

inductive server_step ::
    "'w sys \<Rightarrow> ('f \<Rightarrow> bytes \<Rightarrow> 'f) \<Rightarrow> ('f \<Rightarrow> nat \<Rightarrow> bytes \<times> 'f) \<Rightarrow> ('f, 'w) running \<Rightarrow> nat \<Rightarrow> ('f, 'w) running \<Rightarrow> bool"
  for S fifo_write fifo_read where
  accepting: "i < length ts \<Longrightarrow> ts ! i = Accepting \<Longrightarrow> accept_step S created s w = Some ((ph, ok, s'), w') \<Longrightarrow>
    server_step S fifo_write fifo_read (ts, s, w) 0 (ts[i := ph] @ (if ok then [Accepting] else []), s', w')"
| serving: "i < length ts \<Longrightarrow> ts ! i = Serving fd \<Longrightarrow> serve_step S fd s w = Some ((ph, s'), w') \<Longrightarrow>
    server_step S fifo_write fifo_read (ts, s, w) 0 (ts[i := ph], s', w')"
| receiving: "i < length ts \<Longrightarrow> ts ! i = Receiving fd idx \<Longrightarrow> receive_step S fifo_write fd idx s w = Some ((ph, s'), w') \<Longrightarrow>
    server_step S fifo_write fifo_read (ts, s, w) 0 (ts[i := ph], s', w')"
| writing: "write_server S buf s w = Some (ok, w') \<Longrightarrow> server_step S fifo_write fifo_read (ts, s, w) 0 (ts, s, w')"
| reading: "read_server fifo_read sz s = (bs, s') \<Longrightarrow> server_step S fifo_write fifo_read (ts, s, w) 0 (ts, s', w)"
| closing: "close_server S s w = Some (s', w') \<Longrightarrow> server_step S fifo_write fifo_read (ts, s, w) (client_cnt s) (ts, s', w')"
| connecting: "connect_server S created s w = Some ((ok, s'), w') \<Longrightarrow>
    server_step S fifo_write fifo_read (ts, s, w) (if ok then 0 else client_cnt s) (ts @ (if ok then [Accepting] else []), s', w')"

text \<open>Runs, with the number of entries dropped so far.\<close>

inductive server_run ::
    "'w sys \<Rightarrow> ('f \<Rightarrow> bytes \<Rightarrow> 'f) \<Rightarrow> ('f \<Rightarrow> nat \<Rightarrow> bytes \<times> 'f) \<Rightarrow> ('f, 'w) running \<Rightarrow> nat \<Rightarrow> ('f, 'w) running \<Rightarrow> bool"
  for S fifo_write fifo_read cfg where
  run_start: "server_run S fifo_write fifo_read cfg 0 cfg"
| run_step: "server_run S fifo_write fifo_read cfg lost cfg' \<Longrightarrow> server_step S fifo_write fifo_read cfg' n cfg'' \<Longrightarrow>
    server_run S fifo_write fifo_read cfg (lost + n) cfg''"

end
