(* ===== verification/Tcp_Link.thy ===== *)
theory Tcp_Link
  imports Tcp_Server
begin

text \<open>
  The request of a \<open>tcp_client\<close> and the answer of a \<open>tcp_server\<close>, line by line over the byte streams of a
  connection, and the clients of a server in any interleaving of its threads.
\<close>

subsection \<open>A connected socket\<close>

text \<open>
  What the calls of the operating system do on a stream: \<open>inc\<close> are the bytes that still arrive, \<open>out\<close> those sent.
  At the end of the bytes \<open>recv\<close> fails or tells the end.
\<close>

definition stream_socket :: "'w sys \<Rightarrow> int \<Rightarrow> ('w \<Rightarrow> bytes) \<Rightarrow> ('w \<Rightarrow> bytes) \<Rightarrow> bool" where
  "stream_socket S fd inc out \<longleftrightarrow>
     (\<forall>w b bs. inc w = b # bs \<longrightarrow> (\<exists>w'. sys_recv S fd 1 Recv_wait w = ((1, [b]), w') \<and> inc w' = bs \<and> out w' = out w)) \<and>
     (\<forall>w. inc w = [] \<longrightarrow> (\<exists>rv w'. sys_recv S fd 1 Recv_wait w = ((rv, []), w') \<and> rv \<le> 0 \<and> inc w' = [] \<and> out w' = out w)) \<and>
     (\<forall>w bs. bs \<noteq> [] \<longrightarrow> (\<exists>w'. sys_send S fd bs False w = (int (length bs), w') \<and> inc w' = inc w \<and> out w' = out w @ bs)) \<and>
     (\<forall>w opt. inc (sys_setsockopt S fd opt w) = inc w \<and> out (sys_setsockopt S fd opt w) = out w)"

lemma stream_recv:
  assumes "stream_socket S fd inc out" "inc w = b # bs"
  obtains w' where "sys_recv S fd 1 Recv_wait w = ((1, [b]), w')" "inc w' = bs" "out w' = out w"
  using assms unfolding stream_socket_def by blast

lemma stream_send:
  assumes "stream_socket S fd inc out" "bs \<noteq> []"
  obtains w' where "sys_send S fd bs False w = (int (length bs), w')" "inc w' = inc w" "out w' = out w @ bs"
  using assms unfolding stream_socket_def by blast

lemma stream_opt:
  assumes "stream_socket S fd inc out"
  shows "inc (sys_setsockopt S fd opt w) = inc w" "out (sys_setsockopt S fd opt w) = out w"
  using assms unfolding stream_socket_def by blast+

subsection \<open>Lines\<close>

definition plain :: "bytes \<Rightarrow> bool" where
  "plain s \<longleftrightarrow> (\<forall>b\<in>set s. b \<noteq> 0 \<and> b \<noteq> CR \<and> b \<noteq> LF)"

lemma plain_append [simp]: "plain (s @ t) \<longleftrightarrow> plain s \<and> plain t"
  by (auto simp: plain_def)

lemma plain_drop: "plain s \<Longrightarrow> plain (drop n s)"
  by (auto simp: plain_def dest: in_set_dropD)

lemma c_string_plain: "plain s \<Longrightarrow> c_string s = s"
  by (simp add: plain_def c_string_def takeWhile_eq_all_conv)

lemma CR_LF: "CR \<noteq> LF" by (simp add: CR_def LF_def)

lemma readline_loop_line:
  assumes S: "stream_socket S fd inc out"
  shows "plain l \<Longrightarrow> length l + 2 \<le> n \<Longrightarrow> inc w = l @ CRLF @ rest \<Longrightarrow>
    \<exists>w'. readline_loop n S fd line w = ((True, line @ l), w') \<and> inc w' = rest \<and> out w' = out w"
proof (induction l arbitrary: n line w)
  case Nil
  then obtain m where n: "n = Suc (Suc m)" by (cases n rule: nat.exhaust; cases "n - 1") auto
  have "inc w = CR # LF # rest" using Nil by (simp add: CRLF_def)
  then obtain w1 where 1: "sys_recv S fd 1 Recv_wait w = ((1, [CR]), w1)" "inc w1 = LF # rest" "out w1 = out w"
    by (rule stream_recv [OF S])
  obtain w2 where "sys_recv S fd 1 Recv_wait w1 = ((1, [LF]), w2)" "inc w2 = rest" "out w2 = out w1"
    by (rule stream_recv [OF S 1(2)])
  then show ?case using 1 CR_LF by (simp add: n)
next
  case (Cons b l)
  then obtain m where n: "n = Suc m" by (cases n) auto
  have b: "b \<noteq> CR" "b \<noteq> LF" "plain l" using Cons.prems(1) by (simp_all add: plain_def)
  have "inc w = b # l @ CRLF @ rest" using Cons.prems by simp
  then obtain w1 where 1: "sys_recv S fd 1 Recv_wait w = ((1, [b]), w1)" "inc w1 = l @ CRLF @ rest" "out w1 = out w"
    by (rule stream_recv [OF S])
  have "length l + 2 \<le> m" using Cons.prems(2) n by simp
  from Cons.IH [OF b(3) this 1(2), of "line @ [b]"] show ?case using 1 b by (auto simp: n)
qed

lemma readline_line:
  assumes S: "stream_socket S fd inc out" and l: "plain l" "length l \<le> 253" "inc w = l @ CRLF @ rest"
  obtains w' where "readline S fd 256 w = ((True, l), w')" "inc w' = rest" "out w' = out w"
  using readline_loop_line [OF S l(1) _ l(3), of 255 "[]"] l(2) that
  by (auto simp: readline_def c_string_plain [OF l(1)])

subsection \<open>The server's part\<close>

lemma send_all_stream:
  assumes S: "stream_socket S fd inc out"
  shows "[] \<notin> set ls \<Longrightarrow> \<exists>w'. send_all S fd ls w = (True, w') \<and> inc w' = inc w \<and> out w' = out w @ concat ls"
proof (induction ls arbitrary: w)
  case (Cons l ls)
  then have l: "l \<noteq> []" by auto
  then obtain w1 where 1: "sys_send S fd l False w = (int (length l), w1)" "inc w1 = inc w" "out w1 = out w @ l"
    by (rule stream_send [OF S])
  obtain w2 where "send_all S fd ls w1 = (True, w2)" "inc w2 = inc w1" "out w2 = out w1 @ concat ls"
    using Cons by fastforce
  then show ?case using 1 l by simp
qed simp

lemma skip_header_line:
  assumes S: "stream_socket S fd inc out" and l: "plain l" "length l \<le> 253" "inc w = l @ CRLF @ rest"
  obtains w' where "skip_header S fd w = (if l = [] then Some w' else skip_header S fd w')" "inc w' = rest" "out w' = out w"
  by (rule readline_line [OF S l]) (auto intro: that simp: skip_header.simps [of S fd w])

lemma ascii_lengths:
  "length (ascii ''GET '') = 4" "length (ascii '' HTTP/1.0'') = 9" "length (ascii ''From: '') = 6" "length (ascii ''tcp_server: '') = 12"
  "length CRLF = 2"
  by (simp_all add: ascii_def CRLF_def)

lemma ascii_plain:
  "plain (ascii ''GET '')" "plain (ascii '' HTTP/1.0'')" "plain (ascii ''From: '')" "plain (ascii ''tcp_server: '')"
  "plain (ascii ''HTTP/1.0 200 OK'')" "plain (ascii ''Content-Type: application/octet-stream'')"
  by code_simp+

lemma request_whole:
  assumes "length path + length name \<le> 229"
  shows "request path name = (ascii ''GET '' @ path @ ascii '' HTTP/1.0'') @ CRLF @ (ascii ''From: '' @ name) @ CRLF @ [] @ CRLF"
proof -
  let ?r = "ascii ''GET '' @ path @ ascii '' HTTP/1.0'' @ CRLF @ ascii ''From: '' @ name @ CRLF @ CRLF"
  have "length ?r \<le> 254" using assms by (simp add: ascii_lengths)
  then have "request path name = ?r" unfolding request_def snprintf255_def by (rule take_all)
  then show ?thesis by simp
qed

lemma serve_request_answers:
  assumes S: "stream_socket S fd inc out" and p: "plain path" "path \<noteq> []" "plain name" "length path + length name \<le> 229"
    and w: "inc w = request path name"
  shows "\<exists>w'. serve_request S path fd w = Some (True, w') \<and> inc w' = [] \<and> out w' = out w @ concat (response path)"
proof -
  let ?l1 = "ascii ''GET '' @ path @ ascii '' HTTP/1.0''" let ?l2 = "ascii ''From: '' @ name"
  have l: "plain ?l1" "length ?l1 \<le> 253" "plain ?l2" "length ?l2 \<le> 253" "plain []" "length ([] :: bytes) \<le> 253"
    using p by (auto simp: ascii_plain ascii_lengths plain_def [of "[]"])
  have l2: "?l2 \<noteq> []" by (simp add: ascii_def)
  obtain w1 where 1: "readline S fd 256 w = ((True, ?l1), w1)" "inc w1 = ?l2 @ CRLF @ [] @ CRLF" "out w1 = out w"
    by (rule readline_line [OF S l(1,2), of w "?l2 @ CRLF @ [] @ CRLF"]) (simp add: w request_whole [OF p(4)])
  obtain w2 where 2: "skip_header S fd w1 = skip_header S fd w2" "inc w2 = [] @ CRLF @ []" "out w2 = out w1"
    by (rule skip_header_line [OF S l(3,4), of w1 "[] @ CRLF @ []"]) (use 1(2) l2 in auto)
  obtain w3 where 3: "skip_header S fd w2 = Some w3" "inc w3 = []" "out w3 = out w2"
    by (rule skip_header_line [OF S l(5,6) 2(2)]) auto
  have "[] \<notin> set (response path)" by (auto simp: response_def CRLF_def snprintf255_def ascii_def)
  then obtain w4 where "send_all S fd (response path) w3 = (True, w4)" "inc w4 = inc w3" "out w4 = out w3 @ concat (response path)"
    using send_all_stream [OF S] by blast
  moreover have "take 4 ?l1 = ascii ''GET ''" "take (length path) (drop 4 ?l1) = path" by (simp_all add: ascii_lengths)
  ultimately show ?thesis using 1 2 3 p(2) by (simp add: serve_request_def)
qed

subsection \<open>Any request\<close>

text \<open>Whatever a client sends, the bytes of a line are consumed, so that the server comes to the end of the header.\<close>

lemma readline_loop_consumes:
  assumes S: "stream_socket S fd inc out"
  shows "readline_loop n S fd line w = ((ok, l), w') \<Longrightarrow> length (inc w') \<le> length (inc w) \<and> (ok \<longrightarrow> length (inc w') < length (inc w))"
proof (induction n arbitrary: line w)
  case (Suc n)
  show ?case
  proof (cases "inc w")
    case Nil
    then obtain rv w1 where "sys_recv S fd 1 Recv_wait w = ((rv, []), w1)" "rv \<le> 0" "inc w1 = []"
      using S unfolding stream_socket_def by blast
    then show ?thesis using Suc.prems by simp
  next
    case (Cons b bs)
    then obtain w1 where "sys_recv S fd 1 Recv_wait w = ((1, [b]), w1)" "inc w1 = bs" by (rule stream_recv [OF S])
    then show ?thesis using Suc.prems Suc.IH [of line w1] Suc.IH [of "line @ [b]" w1] Cons by (auto split: if_splits)
  qed
qed simp

lemma skip_header_ends:
  assumes S: "stream_socket S fd inc out"
  shows "\<exists>w'. skip_header S fd w = Some w'"
proof (induction "length (inc w)" arbitrary: w rule: less_induct)
  case less
  obtain ok l w1 where r: "readline_loop 255 S fd [] w = ((ok, l), w1)" by (metis surj_pair)
  then have "length (inc w1) < length (inc w)" if ok using readline_loop_consumes [OF S r] that by simp
  then show ?case using less [of w1] r by (cases ok) (auto simp: skip_header.simps [of S fd w] readline_def)
qed

lemma serve_request_ends:
  assumes "stream_socket S fd inc out" "path \<noteq> []"
  shows "\<exists>ok w'. serve_request S path fd w = Some (ok, w')"
proof -
  obtain ok l w1 where "readline S fd 256 w = ((ok, l), w1)" by (metis surj_pair)
  moreover obtain w2 where "skip_header S fd w1 = Some w2" using skip_header_ends [OF assms(1)] by blast
  ultimately show ?thesis using assms(2) by (cases "send_all S fd (response path) w2") (auto simp: serve_request_def)
qed

subsection \<open>The client's part\<close>

lemma strstr_at: "strstr s t = Some r \<Longrightarrow> take (length t) r = t \<and> (\<exists>a. s = a @ r)"
proof (induction s)
  case (Cons b s)
  then show ?case by (auto split: if_splits)
qed (auto split: if_splits)

lemma strstr_none:
  assumes "x \<in> set t" "x \<notin> set s"
  shows "strstr s t = None"
proof (cases "strstr s t")
  case (Some r)
  then have "take (length t) r = t" "set r \<subseteq> set s" using strstr_at by fastforce+
  then have "set t \<subseteq> set s" by (metis set_take_subset subset_trans)
  then show ?thesis using assms by blast
qed

lemma status_line:
  "strstr (ascii ''HTTP/1.0 200 OK'') (ascii ''200 OK'') \<noteq> None"
  "strstr (ascii ''Content-Type: application/octet-stream'') (ascii ''application/octet-stream'') \<noteq> None"
  "strstr [] (ascii ''application/octet-stream'') = None" "strstr [] (ascii ''Server: '') = None"
  by code_simp+

lemma server_line: "of_char CHR '' '' \<notin> set p \<Longrightarrow> strstr (ascii ''tcp_server: '' @ p) (ascii ''Server: '') = None"
proof -
  assume p: "of_char CHR '' '' \<notin> set p"
  have "strstr p (ascii ''Server: '') = None" by (rule strstr_none [OF _ p]) (simp add: ascii_def)
  then show ?thesis by (simp add: ascii_def)
qed

lemma read_header_line:
  assumes S: "stream_socket S fd inc out" and l: "plain l" "length l \<le> 253" "inc w = l @ CRLF @ rest" and s: "strstr l (ascii ''Server: '') = None"
  obtains w' where "read_header S fd c w =
      (if strstr l (ascii ''application/octet-stream'') \<noteq> None then read_header S fd (c\<lparr> c_host := (c_host c)\<lparr> h_stream := True \<rparr> \<rparr>) w'
       else if l = [] \<and> h_stream (c_host c) then Some ((True, c), w') else read_header S fd c w')"
    "inc w' = rest" "out w' = out w"
  by (rule readline_line [OF S l]) (auto intro: that simp: read_header.simps [of S fd c w] s)

lemma response_whole:
  assumes "length path \<le> 229"
  shows "concat (response path) = ascii ''HTTP/1.0 200 OK'' @ CRLF @ ascii ''Content-Type: application/octet-stream'' @ CRLF
    @ (ascii ''tcp_server: '' @ drop 1 path) @ CRLF @ [] @ CRLF"
proof -
  have "length (ascii ''tcp_server: '' @ drop 1 path @ CRLF) \<le> 254" using assms by (simp add: ascii_lengths)
  then show ?thesis by (simp add: response_def snprintf255_def)
qed

lemma read_header_accepts:
  assumes S: "stream_socket S fd inc out" and p: "plain path" "length path \<le> 229" "of_char CHR '' '' \<notin> set path"
    and w: "inc w = ascii ''Content-Type: application/octet-stream'' @ CRLF @ (ascii ''tcp_server: '' @ drop 1 path) @ CRLF @ [] @ CRLF @ rest"
  shows "\<exists>w'. read_header S fd c w = Some ((True, c\<lparr> c_host := (c_host c)\<lparr> h_stream := True \<rparr> \<rparr>), w') \<and> inc w' = rest \<and> out w' = out w"
proof -
  let ?c = "c\<lparr> c_host := (c_host c)\<lparr> h_stream := True \<rparr> \<rparr>" let ?l = "ascii ''tcp_server: '' @ drop 1 path"
  have l0: "length (ascii ''Content-Type: application/octet-stream'') \<le> 253" "strstr (ascii ''Content-Type: application/octet-stream'') (ascii ''Server: '') = None"
    by code_simp+
  obtain w1 where 1: "read_header S fd c w = read_header S fd ?c w1" "inc w1 = ?l @ CRLF @ [] @ CRLF @ rest" "out w1 = out w"
    by (rule read_header_line [OF S ascii_plain(6) l0(1) w l0(2)]) (use status_line(2) in auto)
  have l1: "plain ?l" "length ?l \<le> 253" using p by (simp_all add: ascii_plain ascii_lengths plain_drop)
  have "of_char CHR '' '' \<notin> set (drop 1 path)" using p(3) by (meson in_set_dropD)
  then have sv: "strstr ?l (ascii ''Server: '') = None" by (rule server_line)
  obtain w2 where 2: "read_header S fd ?c w1 = read_header S fd ?c w2" "inc w2 = [] @ CRLF @ rest" "out w2 = out w1"
    by (rule read_header_line [OF S l1 1(2) sv, of ?c]) (auto simp: ascii_def split: if_splits)
  have l2: "plain []" "length ([] :: bytes) \<le> 253" by (simp_all add: plain_def)
  obtain w3 where "read_header S fd ?c w2 = Some ((True, ?c), w3)" "inc w3 = rest" "out w3 = out w2"
    by (rule read_header_line [OF S l2 2(2) status_line(4), of ?c]) (use status_line(3) in auto)
  then show ?thesis using 1 2 by simp
qed

lemma request_nonempty: "request path name \<noteq> []"
  by (simp add: request_def snprintf255_def ascii_def)

lemma connect_request_accepted:
  assumes S: "stream_socket S (client_fd c) inc out"
    and p: "plain (h_path (c_host c))" "length (h_path (c_host c)) \<le> 229" "of_char CHR '' '' \<notin> set (h_path (c_host c))"
    and w: "inc w = concat (response (h_path (c_host c))) @ rest"
  shows "\<exists>c' w'. connect_request S c w = Some ((True, c'), w') \<and> client_fd c' = client_fd c \<and> h_stream (c_host c')
    \<and> inc w' = rest \<and> out w' = out w @ request (h_path (c_host c)) (c_name c)"
proof -
  let ?fd = "client_fd c" let ?req = "request (h_path (c_host c)) (c_name c)"
  let ?c = "c\<lparr> c_host := (c_host c)\<lparr> h_stream := False, h_server := [] \<rparr> \<rparr>"
  obtain w1 where 1: "sys_send S ?fd ?req False w = (int (length ?req), w1)" "inc w1 = inc w" "out w1 = out w @ ?req"
    by (rule stream_send [OF S request_nonempty])
  have l0: "length (ascii ''HTTP/1.0 200 OK'') \<le> 253" by code_simp
  obtain w2 where 2: "readline S ?fd 256 w1 = ((True, ascii ''HTTP/1.0 200 OK''), w2)" "out w2 = out w1"
      "inc w2 = ascii ''Content-Type: application/octet-stream'' @ CRLF @ (ascii ''tcp_server: '' @ drop 1 (h_path (c_host c))) @ CRLF @ [] @ CRLF @ rest"
    by (rule readline_line [OF S ascii_plain(5) l0, of w1]) (use 1(2) w response_whole [OF p(2)] in auto)
  obtain w3 where "read_header S ?fd ?c w2 = Some ((True, ?c\<lparr> c_host := (c_host ?c)\<lparr> h_stream := True \<rparr> \<rparr>), w3)" "inc w3 = rest" "out w3 = out w2"
    using read_header_accepts [OF S p 2(3), of ?c] by blast
  then show ?thesis using 1 2 by (simp add: connect_request_def Let_def status_line(1) request_nonempty)
qed

text \<open>The connection is established and nothing was sent before.\<close>

definition dialled :: "'w sys \<Rightarrow> tcp_client \<Rightarrow> int \<Rightarrow> 'w \<Rightarrow> 'w \<Rightarrow> bool" where
  "dialled S c fd w w' \<longleftrightarrow> 0 < fd \<and> (\<exists>w1. sys_socket S False w = (fd, w1) \<and> sys_connect S fd (h_addr (c_host c)) w1 = (0, w'))"

lemma connect_accepted:
  assumes S: "stream_socket S fd inc out" and d: "dialled S c fd w w2"
    and p: "plain (h_path (c_host c))" "length (h_path (c_host c)) \<le> 229" "of_char CHR '' '' \<notin> set (h_path (c_host c))" "h_path (c_host c) \<noteq> []"
    and w: "inc w2 = concat (response (h_path (c_host c))) @ rest"
  shows "\<exists>c' w'. connect S c w = Some ((True, c'), w') \<and> client_fd c' = fd \<and> is_connected c'
    \<and> inc w' = rest \<and> out w' = out w2 @ request (h_path (c_host c)) (c_name c)"
proof -
  let ?c = "c\<lparr> client_fd := fd \<rparr>"
  let ?w = "sys_setsockopt S fd Quickack (sys_setsockopt S fd Nodelay (sys_setsockopt S fd (Rcvtimeo 5) w2))"
  have S': "stream_socket S (client_fd ?c) inc out" using S by simp
  have i: "inc ?w = concat (response (h_path (c_host ?c))) @ rest" "out ?w = out w2" using w by (simp_all add: stream_opt [OF S])
  obtain c' w' where "connect_request S ?c ?w = Some ((True, c'), w')" "client_fd c' = fd" "h_stream (c_host c')"
      "inc w' = rest" "out w' = out w2 @ request (h_path (c_host c)) (c_name c)"
    using connect_request_accepted [OF S' _ _ _ i(1)] p i(2) by auto
  then show ?thesis using d p(4) by (auto simp: connect_def dialled_def is_connected_def Let_def)
qed

subsection \<open>The table of clients\<close>

lemma move_down:
  assumes "j < n" "n \<le> length fds"
  shows "fold (\<lambda>i fds. fds[i - 1 := fds ! i]) [Suc j..<n] fds = take j fds @ take (n - Suc j) (drop (Suc j) fds) @ drop (n - 1) fds"
  using assms
proof (induction n rule: less_induct)
  case (less n)
  show ?case
  proof (cases "n = Suc j")
    case True
    then show ?thesis by simp
  next
    case False
    then obtain m where m: "n = Suc m" "j < m" using less.prems by (cases n) auto
    let ?p = "take j fds @ take (m - Suc j) (drop (Suc j) fds)"
    have F: "fold (\<lambda>i fds. fds[i - 1 := fds ! i]) [Suc j..<m] fds = ?p @ drop (m - 1) fds"
      using less.IH [of m] less.prems m by simp
    have len: "length ?p = m - 1" using less.prems m by simp
    have d: "drop (m - 1) fds = fds ! (m - 1) # fds ! m # drop n fds"
      using less.prems m Cons_nth_drop_Suc [of "m - 1" fds] Cons_nth_drop_Suc [of m fds] by simp
    have upd: "(q @ x # y # z)[length q := (q @ x # y # z) ! Suc (length q)] = q @ y # y # z" for q z and x y :: 'a
      by (simp add: nth_append list_update_append)
    have "Suc (m - 1) = m" using m by simp
    then have "(?p @ drop (m - 1) fds)[m - 1 := (?p @ drop (m - 1) fds) ! m] = ?p @ fds ! m # fds ! m # drop n fds"
      using upd [of ?p "fds ! (m - 1)" "fds ! m" "drop n fds"] unfolding len d by metis
    moreover have "take (n - Suc j) (drop (Suc j) fds) = take (m - Suc j) (drop (Suc j) fds) @ [fds ! m]"
      using less.prems m take_Suc_conv_app_nth [of "m - Suc j" "drop (Suc j) fds"] by (simp add: Suc_diff_Suc)
    moreover have "drop m fds = fds ! m # drop n fds" using less.prems m Cons_nth_drop_Suc [of m fds] by simp
    ultimately show ?thesis using m F by simp
  qed
qed

lemma register_clients:
  assumes "register fd s = Some (i, s')" "clients s = Some xs" "length (client_fds s) = max_clients"
  shows "i = length xs" "clients s' = Some (xs @ [fd])" "length (client_fds s') = max_clients"
  using assms by (auto simp: register_def clients_def take_Suc_conv_app_nth split: if_splits)

text \<open>An index behind the last client removes the last client.\<close>

lemma unregister_clients:
  assumes "clients s = Some xs" "xs \<noteq> []" "length (client_fds s) = max_clients"
  obtains s' where "unregister idx s = Some s'" "length (client_fds s') = max_clients"
    "clients s' = Some (if idx < length xs then take idx xs @ drop (Suc idx) xs else butlast xs)"
proof -
  have n: "client_cnt s \<le> max_clients" "xs = take (client_cnt s) (client_fds s)" "client_cnt s \<noteq> 0" "length xs = client_cnt s"
    using assms by (auto simp: clients_def split: if_splits)
  let ?f = "fold (\<lambda>i fds. fds[i - 1 := fds ! i]) [idx + 1..<client_cnt s] (client_fds s)"
  have f: "length ?f = max_clients \<and> take (client_cnt s - 1) ?f = (if idx < length xs then take idx xs @ drop (Suc idx) xs else butlast xs)"
  proof (cases "idx < length xs")
    case True
    let ?a = "take idx (client_fds s) @ take (client_cnt s - Suc idx) (drop (Suc idx) (client_fds s))"
    have f: "?f = ?a @ drop (client_cnt s - 1) (client_fds s)" using move_down [of idx "client_cnt s" "client_fds s"] True n assms(3) by simp
    have a: "length ?a = client_cnt s - 1" "?a = take idx xs @ drop (Suc idx) xs" using True n assms(3) by (auto simp: drop_take min_def)
    have "take (client_cnt s - 1) ?f = ?a" unfolding f a(1) [symmetric] by (rule append_eq_conv_conj [THEN iffD1, THEN conjunct1, OF refl, symmetric])
    moreover have "length ?f = length ?a + length (drop (client_cnt s - 1) (client_fds s))" unfolding f by (rule length_append)
    then have "length ?f = max_clients" unfolding a(1) using n assms(3) by simp
    ultimately show ?thesis using True a(2) by simp
  next
    case False
    then show ?thesis using n assms(3) by (simp add: butlast_take)
  qed
  let ?s = "s\<lparr> client_fds := ?f, client_cnt := client_cnt s - 1 \<rparr>"
  have 1: "unregister idx s = Some ?s" using n by (simp add: unregister_def)
  have 2: "length (client_fds ?s) = max_clients" using f by simp
  have "clients ?s = Some (take (client_cnt s - 1) ?f)" using n f by (simp add: clients_def)
  then have 3: "clients ?s = Some (if idx < length xs then take idx xs @ drop (Suc idx) xs else butlast xs)"
    unfolding conjunct2 [OF f] .
  show ?thesis by (rule that [OF 1 2 3])
qed

subsection \<open>The threads\<close>

definition receives :: "phase \<Rightarrow> bool" where
  "receives ph = (case ph of Receiving fd idx \<Rightarrow> True | _ \<Rightarrow> False)"

abbreviation receivers :: "phase list \<Rightarrow> nat" where
  "receivers ts \<equiv> length (List.filter receives ts)"

text \<open>
  The table has an entry for each thread that receives, except those that \<open>close\<close> has dropped.  The
  count is of 64 bits: a dropped client that leaves when no entry remains takes it below zero.
\<close>

definition threads_ok :: "nat \<Rightarrow> ('f, 'w) running \<Rightarrow> bool" where
  "threads_ok lost cfg = (case cfg of (ts, s, w) \<Rightarrow>
     length (client_fds s) = max_clients \<and> length ts = tid_cnt s \<and> tid_cnt s \<le> max_tids \<and> lost \<le> receivers ts + 1 \<and>
     client_cnt s = (if lost \<le> receivers ts then receivers ts - lost else 2 ^ 64 - 1))"

lemma count_update:
  assumes "i < length ts"
  shows "length (List.filter P (ts[i := x])) + (if P (ts ! i) then 1 else 0) = length (List.filter P ts) + (if P x then 1 else 0)"
proof -
  have "ts = take i ts @ ts ! i # drop (Suc i) ts" using assms by (rule id_take_nth_drop)
  then have "length (List.filter P ts) = length (List.filter P (take i ts @ ts ! i # drop (Suc i) ts))" by simp
  then show ?thesis using assms by (simp add: upd_conv_take_nth_drop)
qed

lemma receivers_less: "i < length ts \<Longrightarrow> \<not> P (ts ! i) \<Longrightarrow> length (List.filter P ts) < length ts"
  by (rule length_filter_less) simp_all

lemma accept_step_cases:
  assumes "accept_step S created s w = Some ((ph, ok, s'), w')"
  shows "\<not> receives ph" "client_fds s' = client_fds s" "client_cnt s' = client_cnt s"
    "tid_cnt s' = (if ok then tid_cnt s + 1 else tid_cnt s)" "tid_cnt s \<le> max_tids \<Longrightarrow> tid_cnt s' \<le> max_tids"
  using assms by (auto simp: accept_step_def create_thread_def receives_def Let_def split: prod.splits if_splits)

lemma serve_step_cases:
  assumes "serve_step S fd s w = Some ((ph, s'), w')"
  shows "tid_cnt s' = tid_cnt s" "length (client_fds s') = length (client_fds s)"
    "client_cnt s' = client_cnt s + (if receives ph then 1 else 0)"
  using assms by (auto simp: serve_step_def register_def receives_def bind_eq_Some_conv split: if_splits)

lemma length_move_down: "length (fold (\<lambda>i fds. fds[i - Suc 0 := fds ! i]) ns fds) = length fds"
  by (induction ns arbitrary: fds) simp_all

lemma receive_step_cases:
  assumes "receive_step S fifo_write fd idx s w = Some ((ph, s'), w')"
  shows "tid_cnt s' = tid_cnt s" "length (client_fds s') = length (client_fds s)"
    "if receives ph then client_cnt s' = client_cnt s
     else client_cnt s \<le> max_clients \<and> client_cnt s' = (if client_cnt s = 0 then 2 ^ 64 - 1 else client_cnt s - 1)"
  using assms by (auto simp: receive_step_def unregister_def receives_def length_move_down split: if_splits prod.splits)

lemma close_server_cases:
  assumes "close_server S s w = Some (s', w')"
  shows "tid_cnt s' = tid_cnt s" "client_fds s' = client_fds s" "client_cnt s' = 0" "client_cnt s \<le> length (client_fds s)"
  using assms by (auto simp: close_server_def clients_def Let_def split: if_splits)

lemma connect_server_cases:
  assumes "connect_server S created s w = Some ((ok, s'), w')"
  shows "client_fds s' = client_fds s"
    "if ok then tid_cnt s' = tid_cnt s + 1 \<and> tid_cnt s < max_tids \<and> client_cnt s' = client_cnt s
     else tid_cnt s' = tid_cnt s \<and> client_cnt s' = 0 \<and> client_cnt s \<le> length (client_fds s)"
  using assms close_server_cases
  by (fastforce simp: connect_server_def create_thread_def Let_def bind_eq_Some_conv split: if_splits prod.splits)+

lemma threads_ok_close:
  assumes "threads_ok lost (ts, s, w)" "client_cnt s \<le> max_clients"
    "client_fds s' = client_fds s" "tid_cnt s' = tid_cnt s" "client_cnt s' = 0"
  shows "threads_ok (lost + client_cnt s) (ts, s', w')"
  using assms by (auto simp: threads_ok_def max_clients_def split: if_splits)

lemma threads_ok_step:
  "server_step S fw fr cfg n cfg' \<Longrightarrow> threads_ok lost cfg \<Longrightarrow> threads_ok (lost + n) cfg'"
proof (induction rule: server_step.induct)
  case (accepting i ts created s w ph ok s' w')
  then show ?case using accept_step_cases [OF accepting(3)] count_update [OF accepting(1), of receives ph]
    by (simp add: threads_ok_def receives_def [of Accepting])
next
  case (serving i ts fd s w ph s' w')
  have "receives ph \<Longrightarrow> client_cnt s < max_clients"
    using serving(3) by (auto simp: serve_step_def register_def receives_def bind_eq_Some_conv split: if_splits)
  then show ?case using serve_step_cases [OF serving(3)] count_update [OF serving(1), of receives ph] serving(2,4)
    by (auto simp: threads_ok_def receives_def [of "Serving fd"] max_clients_def split: if_splits)
next
  case (receiving i ts fd idx s w ph s' w')
  have r: "receives (ts ! i)" using receiving(2) by (simp add: receives_def)
  then have "receivers ts \<noteq> 0" using receiving(1) by (auto simp: filter_empty_conv)
  then show ?case using receive_step_cases [OF receiving(3)] count_update [OF receiving(1), of receives ph] r receiving(4)
    by (auto simp: threads_ok_def max_clients_def split: if_splits)
next
  case (closing s w s' w' ts)
  then show ?case using close_server_cases [OF closing(1)] by (intro threads_ok_close) (auto simp: threads_ok_def)
next
  case (connecting created s w ok s' w' ts)
  note c = connect_server_cases [OF connecting(1)]
  show ?case
  proof (cases ok)
    case True
    then show ?thesis using c connecting(2) by (simp add: threads_ok_def receives_def [of Accepting])
  next
    case False
    moreover have "length (client_fds s) = max_clients" using connecting(2) by (simp add: threads_ok_def)
    ultimately have "threads_ok (lost + client_cnt s) (ts, s', w')"
      using c by (intro threads_ok_close [OF connecting(2)]) simp_all
    then show ?thesis using False by simp
  qed
qed (auto simp: threads_ok_def read_server_def split: prod.splits)

lemma threads_ok_run: "server_run S fw fr cfg lost cfg' \<Longrightarrow> threads_ok 0 cfg \<Longrightarrow> threads_ok lost cfg'"
  by (induction rule: server_run.induct) (auto intro: threads_ok_step)

text \<open>What the owner starts with after \<open>connect_server\<close>: one thread that accepts, and no client.\<close>

definition listening :: "('f, 'w) running \<Rightarrow> bool" where
  "listening cfg = (case cfg of (ts, s, w) \<Rightarrow> ts = [Accepting] \<and> client_cnt s = 0 \<and> tid_cnt s = 1 \<and> length (client_fds s) = max_clients)"

lemma connect_server_listens:
  assumes "connect_server S created (new_server h junk q) w = Some ((True, s), w')" "length junk = max_clients"
  shows "listening ([Accepting], s, w')"
  using assms
  by (auto simp: connect_server_def new_server_def listening_def create_thread_def max_tids_def Let_def bind_eq_Some_conv split: if_splits prod.splits)

subsection \<open>Properties\<close>

text \<open>
  C13: A server answers the request a client sends for its path, and the answer makes the client's \<open>connect\<close>
  succeed: when what the client sends arrives at the server and what the server sends arrives at the client, the
  server accepts the client and nothing of the request is left, and the client is connected and what follows the answer
  is the first thing it reads.  The path and the name are text without line ends, together short enough for the line
  buffers, and the path is not empty and has no space.
\<close>

lemma http_handshake:
  assumes "stream_socket C cfd inC outC" "stream_socket S sfd inS outS"
    and "plain (h_path (c_host c))" "h_path (c_host c) \<noteq> []" "of_char CHR '' '' \<notin> set (h_path (c_host c))"
    and "plain (c_name c)" "length (h_path (c_host c)) + length (c_name c) \<le> 229"
    and "dialled C c cfd w w2"
    and "inS v = request (h_path (c_host c)) (c_name c)" "inC w2 = concat (response (h_path (c_host c))) @ rest"
  shows "(\<exists>v'. serve_request S (h_path (c_host c)) sfd v = Some (True, v') \<and> inS v' = [] \<and> outS v' = outS v @ concat (response (h_path (c_host c))))
    \<and> (\<exists>c' w'. connect C c w = Some ((True, c'), w') \<and> client_fd c' = cfd \<and> is_connected c'
         \<and> outC w' = outC w2 @ request (h_path (c_host c)) (c_name c) \<and> inC w' = rest)"
proof
  show "\<exists>v'. serve_request S (h_path (c_host c)) sfd v = Some (True, v') \<and> inS v' = [] \<and> outS v' = outS v @ concat (response (h_path (c_host c)))"
    by (rule serve_request_answers) (use assms in simp_all)
  have "length (h_path (c_host c)) \<le> 229" using assms(7) by simp
  then show "\<exists>c' w'. connect C c w = Some ((True, c'), w') \<and> client_fd c' = cfd \<and> is_connected c'
         \<and> outC w' = outC w2 @ request (h_path (c_host c)) (c_name c) \<and> inC w' = rest"
    using connect_accepted [OF assms(1,8,3) _ assms(5,4,10)] by blast
qed

text \<open>A system with one connection whose bytes are there from the start.\<close>

definition one_connection :: "(bytes \<times> bytes) sys" where
  "one_connection =
     \<lparr> sys_socket = (\<lambda>_ w. (3, w)), sys_connect = (\<lambda>_ _ w. (0, w)), sys_setsockopt = (\<lambda>_ _ w. w),
       sys_send = (\<lambda>_ bs _ (a, s). (int (length bs), (a, s @ bs))),
       sys_recv = (\<lambda>_ n _ (a, s). ((int (length (take n a)), take n a), (drop n a, s))),
       sys_poll = (\<lambda>_ w. (1, w)), sys_errno = (\<lambda>_. 11), sys_close = (\<lambda>_ w. w), sys_bind = (\<lambda>_ _ w. (0, w)), sys_listen = (\<lambda>_ w. (0, w)),
       sys_accept = (\<lambda>_ w. (4, w)), sys_recvfrom = (\<lambda>_ n (a, s). ((int (length (take n a)), take n a), (drop n a, s))),
       sys_sendto = (\<lambda>_ bs _ (a, s). (int (length bs), (a, s @ bs))), sys_fionread = (\<lambda>_ (a, s). ((0, int (length a)), (a, s))),
       sys_eagain = 11, sys_getfl = (\<lambda>_ w. (0, w)), sys_setfl = (\<lambda>_ _ w. (0, w)), sys_nonblock = 2048 \<rparr>"

lemma one_connection_stream: "stream_socket one_connection fd fst snd"
  by (auto simp: stream_socket_def one_connection_def split: prod.splits)

definition some_client :: tcp_client where
  "some_client = set_host (\<lambda>_. 0) None 9280 (ascii ''/datalink'') (new_client (ascii ''tcp'') False [])"

lemma some_client_text:
  "plain (h_path (c_host some_client))" "h_path (c_host some_client) \<noteq> []" "of_char CHR '' '' \<notin> set (h_path (c_host some_client))"
  "plain (c_name some_client)" "length (h_path (c_host some_client)) + length (c_name some_client) \<le> 229"
  by code_simp+

lemma http_handshake_witness:
  "let req = request (ascii ''/datalink'') (ascii ''tcp''); ans = concat (response (ascii ''/datalink'')) in
    (\<exists>v'. serve_request one_connection (ascii ''/datalink'') 4 (req, []) = Some (True, v') \<and> fst v' = [] \<and> snd v' = ans)
    \<and> (\<exists>c' w'. connect one_connection some_client (ans @ [1, 2], []) = Some ((True, c'), w') \<and> client_fd c' = 3 \<and> is_connected c'
         \<and> snd w' = req \<and> fst w' = [1, 2])"
proof -
  have p: "h_path (c_host some_client) = ascii ''/datalink''" "c_name some_client = ascii ''tcp''"
    by (simp_all add: some_client_def set_host_def new_client_def)
  have d: "dialled one_connection some_client 3 w w" for w by (simp add: dialled_def one_connection_def)
  show ?thesis
    using http_handshake [OF one_connection_stream one_connection_stream some_client_text
        d [of "(concat (response (ascii ''/datalink'')) @ [1, 2], [])"],
        where sfd = 4 and v = "(request (ascii ''/datalink'') (ascii ''tcp''), [])" and rest = "[1, 2]"]
    by (simp add: p)
qed

text \<open>
  C19: In any interleaving of the threads of a server that listens, with clients that connect, send and leave and an
  owner that writes, reads, closes and connects again, the table has one entry for each thread that receives, less the
  entries that \<open>close\<close> has dropped.  As long as no more were dropped than threads still receive, and so always when
  the owner closes only while no thread receives, registering a client, removing it and writing to all stay within the
  arrays.  As soon as one more dropped client leaves, the count has wrapped to \<open>2 ^ 64 - 1\<close>, and each of them leaves
  the arrays.  A connection makes the server store outside the array of threads exactly when fifty threads have been
  created since the start, even if all of their clients have left.
\<close>

lemma server_tables:
  assumes "server_run S fifo_write fifo_read cfg lost (ts, s, w)" "listening cfg"
  shows "(lost \<le> receivers ts \<longrightarrow> client_cnt s = receivers ts - lost \<and> client_cnt s \<le> max_clients \<and> clients s \<noteq> None
      \<and> (Serving fd \<in> set ts \<longrightarrow> register fd s \<noteq> None) \<and> (Receiving fd idx \<in> set ts \<longrightarrow> unregister idx s \<noteq> None))
    \<and> (receivers ts < lost \<longrightarrow> client_cnt s = 2 ^ 64 - 1 \<and> clients s = None \<and> register fd s = None \<and> unregister idx s = None)
    \<and> length ts = tid_cnt s \<and> (accept_step S created s w = None \<longleftrightarrow> fst (sys_accept S (server_fd s) w) > 0 \<and> tid_cnt s = max_tids)"
proof -
  have "threads_ok 0 cfg" using assms(2) by (auto simp: listening_def threads_ok_def receives_def max_tids_def split: prod.splits)
  then have ok: "threads_ok lost (ts, s, w)" by (rule threads_ok_run [OF assms(1)])
  then have n: "client_cnt s = (if lost \<le> receivers ts then receivers ts - lost else 2 ^ 64 - 1)"
      "length ts = tid_cnt s" "tid_cnt s \<le> 50" "length (client_fds s) = max_clients"
    by (simp_all add: threads_ok_def max_tids_def)
  have r: "receivers ts \<le> length ts" by (rule length_filter_le)
  have "receivers ts < length ts" if "Serving fd \<in> set ts"
    by (rule length_filter_less [OF that]) (simp add: receives_def)
  then have "lost \<le> receivers ts \<longrightarrow> client_cnt s = receivers ts - lost \<and> client_cnt s \<le> max_clients \<and> clients s \<noteq> None
      \<and> (Serving fd \<in> set ts \<longrightarrow> register fd s \<noteq> None) \<and> (Receiving fd idx \<in> set ts \<longrightarrow> unregister idx s \<noteq> None)"
    using n r by (auto simp: clients_def register_def unregister_def max_clients_def)
  moreover have "receivers ts < lost \<longrightarrow> client_cnt s = 2 ^ 64 - 1 \<and> clients s = None \<and> register fd s = None \<and> unregister idx s = None"
    using n by (simp add: clients_def register_def unregister_def max_clients_def)
  moreover have "accept_step S created s w = None \<longleftrightarrow> fst (sys_accept S (server_fd s) w) > 0 \<and> tid_cnt s = max_tids"
    using n by (auto simp: accept_step_def create_thread_def max_tids_def split: prod.splits)
  ultimately show ?thesis using n(2) by blast
qed

text \<open>A server that listens and has accepted one connection.\<close>

definition some_server :: "bytes tcp_server" where
  "some_server = (new_server (c_host some_client) (replicate 50 0) [])\<lparr> server_fd := 3, tid_cnt := 1 \<rparr>"

abbreviation some_run :: "(bytes, bytes \<times> bytes) running \<Rightarrow> nat \<Rightarrow> (bytes, bytes \<times> bytes) running \<Rightarrow> bool" where
  "some_run \<equiv> server_run one_connection (@) (\<lambda>q n. (take n q, drop n q))"

lemma some_server_accepts:
  "some_run ([Accepting], some_server, ([], [])) 0 ([Serving 4, Accepting], some_server\<lparr> tid_cnt := 2 \<rparr>, ([], []))"
proof -
  have "accept_step one_connection True some_server ([], []) = Some ((Serving 4, True, some_server\<lparr> tid_cnt := 2 \<rparr>), ([], []))"
    by (simp add: accept_step_def one_connection_def create_thread_def some_server_def new_server_def max_tids_def)
  from run_step [OF run_start server_step.accepting [OF _ _ this, where i = 0 and ts = "[Accepting]"]]
  show ?thesis by simp
qed

text \<open>The owner closes it and connects again.\<close>

lemma some_server_closes:
  "some_run ([Accepting], some_server, ([], [])) 0
     ([Serving 4, Accepting, Accepting], some_server\<lparr> tid_cnt := 3 \<rparr>, ([], []))"
proof -
  let ?s = "some_server\<lparr> tid_cnt := 2 \<rparr>" and ?w = "([], []) :: bytes \<times> bytes"
  have "close_server one_connection ?s ?w = Some (?s\<lparr> server_fd := - 1 \<rparr>, ?w)"
    by (simp add: close_server_def clients_def one_connection_def some_server_def new_server_def)
  from run_step [OF some_server_accepts server_step.closing [OF this]]
  have 1: "some_run ([Accepting], some_server, ?w) 0 ([Serving 4, Accepting], ?s\<lparr> server_fd := - 1 \<rparr>, ?w)"
    by (simp add: some_server_def new_server_def)
  have "connect_server one_connection True (?s\<lparr> server_fd := - 1 \<rparr>) ?w = Some ((True, some_server\<lparr> tid_cnt := 3 \<rparr>), ?w)"
    by (simp add: connect_server_def create_thread_def one_connection_def some_server_def new_server_def max_tids_def)
  from run_step [OF 1 server_step.connecting [OF this]] show ?thesis by simp
qed

lemma server_tables_witness:
  "register 4 (some_server\<lparr> tid_cnt := 3 \<rparr>) \<noteq> None \<and> accept_step one_connection True (some_server\<lparr> tid_cnt := 3 \<rparr>) ([], []) \<noteq> None"
  using server_tables [OF some_server_closes, where fd = 4 and created = True]
  by (simp add: listening_def some_server_def new_server_def max_clients_def max_tids_def)

text \<open>
  C24: The index a thread got when it registered its client is not changed when another client leaves: after three
  clients have connected, and the first and then the second of them have left, the table has the
  descriptor of the second instead of the third, so that what the owner writes does not reach the client that is left.
\<close>

lemma stale_index:
  assumes "clients s = Some fds" "length (client_fds s) = max_clients"
    and "register a s = Some (i, s1)" "register b s1 = Some (j, s2)" "register c s2 = Some (k, s3)"
  shows "\<exists>s4 s5. unregister i s3 = Some s4 \<and> unregister j s4 = Some s5 \<and> clients s3 = Some (fds @ [a, b, c]) \<and> clients s5 = Some (fds @ [b])"
proof -
  note 1 = register_clients [OF assms(3,1,2)]
  note 2 = register_clients [OF assms(4) 1(2,3)]
  note 3 = register_clients [OF assms(5) 2(2,3)]
  obtain s4 where s4: "unregister i s3 = Some s4" "length (client_fds s4) = max_clients" "clients s4 = Some (fds @ [b, c])"
    by (rule unregister_clients [OF 3(2) _ 3(3), of i]) (use 1(1) in auto)
  obtain s5 where "unregister j s4 = Some s5" "clients s5 = Some (fds @ [b])"
    by (rule unregister_clients [OF s4(3) _ s4(2), of j]) (use 2(1) in auto)
  then show ?thesis using s4 3(2) by auto
qed

lemma stale_index_witness:
  "\<exists>s1 s2 s3 s4 s5. register 5 some_server = Some (0, s1) \<and> register 6 s1 = Some (1, s2) \<and> register 7 s2 = Some (2, s3)
     \<and> unregister 0 s3 = Some s4 \<and> unregister 1 s4 = Some s5 \<and> clients s5 = Some [6]"
proof -
  let ?s = "\<lambda>n fds. some_server\<lparr> client_fds := fds @ replicate (50 - n) 0, client_cnt := n \<rparr>"
  have r: "replicate 50 (0::int) = 0 # 0 # 0 # replicate 47 0" by (simp add: eval_nat_numeral)
  have s: "clients some_server = Some []" "length (client_fds some_server) = max_clients"
    by (simp_all add: some_server_def new_server_def clients_def max_clients_def)
  have 1: "register 5 some_server = Some (0, ?s 1 [5])" "register 6 (?s 1 [5]) = Some (1, ?s 2 [5, 6])" "register 7 (?s 2 [5, 6]) = Some (2, ?s 3 [5, 6, 7])"
    by (simp_all add: register_def some_server_def new_server_def max_clients_def r eval_nat_numeral)
  show ?thesis using stale_index [OF s 1] 1 by auto
qed

end
