(* ===== verification/Spec2Isabelle.thy ===== *)
theory Spec2Isabelle
  imports Crc32 Crc_Sw Xbus_Stream Xbus_Wire Cobs Can_Link Mandala_Laws Value_Pack Telemetry_Update Telemetry_Faults
    Vector_Laws Attitude_Rates Euler_Orders Backport_Transfer Backport_Nav_Laws Backport_Geodesy Backport_Bound360 Backport_Hundredths
    Attitude_Float Tcp_Link
begin

text \<open>
  A model of the APX shared library: the code that nodes of an unmanned vehicle share to exchange
  packets.  A node keeps values in a dictionary (\<open>mandala\<close>); values travel in XBUS packets, each an
  identifier and a payload written through byte streams (\<open>xbus\<close>); packets travel over serial lines
  as COBS frames (\<open>xbus/serial\<close>) and over CAN as numbered messages collected in a pool
  (\<open>xbus/can\<close>), both guarded by checksums (\<open>crc\<close>); and the telemetry stream packs many changed
  values into one packet, with a format that is transferred separately (\<open>xbus/telemetry\<close>).

  \<^bold>\<open>Conventions.\<close>  Machine integers are words of their width; \<open>size_t\<close> is a natural number, and where
  the code adds or subtracts it with a possible overflow, \<open>size_add\<close> and \<open>size_sub\<close> wrap as 64 bits
  do.  Memory is a list of bytes.  An access outside an array, a division by zero, a conversion
  without a defined result, and a loop that does not end are \<open>None\<close>; a theorem that the result is
  \<open>Some\<close> excludes them.  Errors that the code reports are constructors of its own enumerations.
  \<open>float\<close> is binary32 on words (\<open>Soft_Float\<close>), with rounding to nearest as the hardware does.
  What memory holds before the first store (uninitialised members and locals) is an argument.
  Virtual functions and generated tables are parameters.

  \<^bold>\<open>Shared theories.\<close>
    \<^item> \<open>Apx_Prelude\<close>: words, little-endian bytes, copies into memory, and the collections of rules;
      \<open>Shift_Register\<close>: the algebra of reflected and forward CRC registers; \<open>Simulation\<close>: the
      contract between a concrete and an abstract machine, from which a refinement of all runs follows.

  \<^bold>\<open>Checksums\<close> (\<open>src/crc\<close>).
    \<^item> \<open>Crc32\<close>: \<open>crc32_sw.c\<close> and \<open>CRC32.cpp\<close>.  The nibble table equals the bitwise register; the
      checksum depends on the data only, although its loads reach up to three bytes behind them; it is
      computed piecewise, and detects each corrupted word.
    \<^item> \<open>Crc_Sw\<close>: \<open>sw/crc_sw.c\<close>.  Tables against bitwise registers; bursts and single bytes are detected.

  \<^bold>\<open>Streams and structures\<close> (\<open>src/xbus\<close>).
    \<^item> \<open>Xbus_Stream\<close>: \<open>XbusStreamReader.h\<close> and \<open>XbusStreamWriter.h\<close> as records of buffer, size and
      position.  No read leaves the buffer; strings; the rules \<open>gets\<close> and \<open>puts\<close> by which a reader
      and a writer of a structure are shown to match.
    \<^item> \<open>Xbus_Wire\<close>: the packet identifier and the structures of \<open>XbusPacket.h\<close>, \<open>XbusNode.h\<close>,
      \<open>XbusNodeBlackbox.h\<close>, \<open>XbusScript.h\<close>, \<open>XbusUnit.h\<close>; the locale of serialised structures,
      interpreted for each, gives size and round trip; the size the status structure states is wrong.

  \<^bold>\<open>Serial lines\<close> (\<open>src/xbus/serial\<close>).
    \<^item> \<open>Cobs\<close>: \<open>CobsEncoder.h\<close> and \<open>CobsDecoder.h\<close>.  Frames of any packets decode to the same packets;
      the buffer of the encoder suffices; the decoder is safe on any bytes, independent of how they
      are cut, and in step again after the next delimiter.

  \<^bold>\<open>CAN\<close> (\<open>src/xbus/can\<close>).
    \<^item> \<open>Can_Format\<close>, \<open>Can_Pool\<close>, \<open>Can_Codec\<close>: \<open>CanFormat.h\<close>, \<open>CanPool.cpp\<close> with its linked lists
      in arrays, \<open>CanCodec.cpp\<close>.
    \<^item> \<open>Can_Pool_Inv\<close>: the invariant of the lists; \<open>Can_Pool_Spec\<close>: eight abstract slots and the
      simulation; \<open>Can_Guarantees\<close>: what follows for every run of the pool (refinement, one collector
      for a packet, recovery from overflow, finished packets stay).
    \<^item> \<open>Can_Transport\<close> and \<open>Can_Link\<close>: the messages of a packet, and what the receiver reads.  What lies
      behind the buffers of a caller is an argument \<open>far\<close>, since the checksum loads whole words, and the
      model follows how far the checks have read.

  \<^bold>\<open>Connections\<close> (\<open>src/xbus/tcp\<close>).
    \<^item> \<open>Tcp_Client\<close>: \<open>tcp_client.cpp\<close> and \<open>udp_client.cpp\<close>, with the functions of the operating system as a record of
      functions on a state of it; \<open>Tcp_Server\<close>: \<open>_tcp_server.cpp\<close>, the request and the answer, the table of clients,
      and the threads as a step relation; the mutex makes each access to the tables one step.
    \<^item> \<open>Tcp_Link\<close>: the request and the answer over the byte streams of a connection, for which the calls are assumed to
      do what they are documented to do, and that any request comes to an end; the tables in every interleaving of the threads
      with their owner, who may close the server while they run; the index that is stale.

  \<^bold>\<open>Dictionary\<close> (\<open>src/mandala\<close>).
    \<^item> \<open>Mandala_Base\<close>: types, raw values, formats and the format table of \<open>MandalaMetaBase.h\<close> and
      \<open>MandalaPackBase.h\<close>; \<open>Mandala_Laws\<close>: the binary search, values in streams, the drift of
      angles.
    \<^item> \<open>Soft_Float\<close> and \<open>Value_Pack\<close>: \<open>TelemetryValuePack.h\<close> and \<open>TelemetryValueUnpack.h\<close>.

  \<^bold>\<open>Telemetry\<close> (\<open>src/xbus/telemetry\<close>).
    \<^item> \<open>Telemetry_Format\<close>, \<open>Telemetry_Encoder\<close>, \<open>Telemetry_Decoder\<close>: the code, in the order of the
      files.  The encoder's \<open>raw\<close> is not initialised: \<open>junk\<close> holds what it contains in each pass.
    \<^item> \<open>Telemetry_Layout\<close>: \<open>add\<close> keeps the slots sorted and their data together, and the result does
      not depend on the order; \<open>Telemetry_Update\<close>: \<open>update\<close> of known fields, and what is wrong with
      pending ones.
    \<^item> \<open>Telemetry_Blocks\<close>: the stream of values as a function of the items of a frame, independent of
      the loops; \<open>Telemetry_Packing\<close>: the encoder writes it; \<open>Telemetry_Unpacking\<close>: the decoder
      reads it; \<open>Telemetry_Wire\<close>: headers; \<open>Telemetry_Link\<close> and \<open>Telemetry_Sync\<close>: packets and formats
      end to end.
    \<^item> \<open>Telemetry_Safety\<close>: any sequence of received packets, every access to the arrays checked; \<open>Telemetry_Faults\<close>: frames that lose a
      value.

  \<^bold>\<open>Matrices and attitude\<close> (\<open>src/mandala/backport\<close>).
    \<^item> \<open>Matrix_Math\<close>: \<open>MatrixMath.h\<close> and \<open>MatrixMath.cpp\<close>: vectors, matrices, quaternions, Euler
      angles.  Vectors and matrices are lists over any type of elements; what the code writes for
      \<open>float\<close> alone is written for the real numbers, without rounding: the theorems about it say that the
      formulas are right in exact arithmetic.
    \<^item> \<open>Vector_Laws\<close>, \<open>Matrix_Laws\<close>: lengths, angles in a span, products, the factorisation into
      triangles; \<open>Attitude\<close>: unit quaternions are rotations; \<open>Attitude_Angles\<close>: the aerospace
      angles there and back, and their derivatives; \<open>Attitude_Rates\<close>: angular velocities and the
      Jacobian of a rotated vector; \<open>Euler_Orders\<close>: the twenty-four orders of Euler angles.
    \<^item> \<open>Attitude_Float\<close>: the pitch of \<open>toEuler\<close> on \<open>float\<close>, which is not a number for some unit quaternions.

  \<^bold>\<open>Old dictionary\<close> (\<open>src/mandala/backport\<close>).
    \<^item> \<open>Backport_Table\<close>: the variables of \<open>MandalaTemplate.h\<close> with their indexes (\<open>MandalaIndexes.h\<close>), packed
      forms and bits; \<open>Backport_Pack\<close> and \<open>Backport_Core\<close>: \<open>MandalaCore.cpp\<close>, the packed forms of values and the
      access by index; \<open>Backport_Frames\<close> and \<open>Backport_Flat\<close>: \<open>MandalaFlat.cpp\<close>, names, the downlink stream and
      the functions that its receiver calculates with, on \<open>float\<close> and \<open>double\<close>.  The functions of the mathematical
      library are parameters there.
    \<^item> \<open>Backport_Laws\<close>, \<open>Backport_Half\<close>, \<open>Backport_Types\<close>: sizes and round trips of packed values, half-precision
      numbers, and that every variable keeps its type; \<open>Backport_Hundredths\<close>: values that lose a hundredth
      each time they are packed.
    \<^item> \<open>Backport_Stream\<close>, \<open>Backport_Buffer\<close>, \<open>Backport_Downlink\<close>, \<open>Backport_Derived\<close>, \<open>Backport_Link\<close>: the stream as
      chunks of eight variables, the loop that packs it and the loop that reads it; \<open>Backport_Transfer\<close>: what a
      packet brings from one vehicle to another, and after how many packets the receiver has caught up.
    \<^item> \<open>Backport_Nav\<close>: the navigation of \<open>MandalaFlat.cpp\<close> over the real numbers, that is without rounding and only
      where the functions it calls are defined; \<open>Backport_Nav_Laws\<close>: angles, lines, rotations and wind;
      \<open>Backport_Geodesy\<close>: great circles, and the convergence of \<open>ECEF2ll\<close>, whose fifty rounds each leave less than a
      hundredth of the error, in exact arithmetic; \<open>Backport_Bound360\<close>: the two loops of \<open>boundAngle360\<close> on \<open>float\<close>, as partial functions.

  \<^bold>\<open>Bounds.\<close>  Buffers are shorter than \<open>mem_max\<close> (2 to the 48), so that positions do not wrap.  No
  fuel is used: loops recurse on the data or on a measure, and those without one are partial
  functions, shown to end where a theorem says so.

  \<^bold>\<open>Not modelled.\<close>  \<open>xbus/can/V9\<close> (it uses types
  the repository no longer declares); \<open>xbus/serial/EscV9.h\<close> (commented out); \<open>XbusMission.h\<close> and
  \<open>MandalaBundles.h\<close> (declarations without operations); generated code and its templates, whose tables are
  parameters; \<open>mandala/backport/preprocessor.h\<close> (macros that repeat an expansion); the debug output of \<open>dump()\<close> in
  \<open>MandalaFlat.cpp\<close>, and messages that are printed.
\<close>

end
